(* ===== verification/MS_Prelude.thy ===== *)
theory MS_Prelude
  imports Main "HOL-Library.Word" "HOL-Library.Signed_Division"
begin

text \<open>
  Shared vocabulary of the development: the faults a run of MysoreScript can end in, the
  state-and-error functions every other theory is written with, ordered sets of names, and
  the rules the component proofs are automated by.
\<close>

unbundle bit_operations_syntax

section \<open>Faults\<close>

text \<open>
  The C++ sources have no exceptions.  A run ends abnormally where an \<open>assert\<close> fails, where
  the processor traps, or where the language gives the expression no meaning.  Each of these
  is a value of \<open>fault\<close>; \<open>Timeout\<close> alone stands for a fuel bound of the model.
\<close>

datatype fault =
    AssertFailed      \<comment> \<open>an \<open>assert\<close> of the source is false\<close>
  | NullDeref         \<comment> \<open>a null pointer is dereferenced\<close>
  | BadPointer        \<comment> \<open>a word that is no live address of the expected kind is dereferenced\<close>
  | OutOfBounds       \<comment> \<open>an access outside the storage of an object\<close>
  | SignedOverflow    \<comment> \<open>\<open>intptr_t\<close> arithmetic overflows\<close>
  | DivideTrap        \<comment> \<open>integer division by zero\<close>
  | CodeBytesCalled   \<comment> \<open>instruction bytes are loaded and called as a function pointer\<close>
  | MissingArgument   \<comment> \<open>a function reads a parameter its caller did not pass\<close>
  | Unreachable       \<comment> \<open>\<open>llvm_unreachable\<close>\<close>
  | Timeout           \<comment> \<open>the fuel of the model is used up\<close>

section \<open>State-and-error functions\<close>

type_synonym ('a, 's) sem = "'s \<Rightarrow> fault + 'a \<times> 's"

definition return :: "'a \<Rightarrow> ('a, 's) sem" where
  "return a = (\<lambda>s. Inr (a, s))"

definition fail :: "fault \<Rightarrow> ('a, 's) sem" where
  "fail e = (\<lambda>s. Inl e)"

definition bind :: "('a, 's) sem \<Rightarrow> ('a \<Rightarrow> ('b, 's) sem) \<Rightarrow> ('b, 's) sem" where
  "bind m f = (\<lambda>s. case m s of Inl e \<Rightarrow> Inl e | Inr (a, s') \<Rightarrow> f a s')"

definition seq :: "(unit, 's) sem \<Rightarrow> ('b, 's) sem \<Rightarrow> ('b, 's) sem" where
  "seq m k = bind m (\<lambda>_. k)"

definition gets :: "('s \<Rightarrow> 'a) \<Rightarrow> ('a, 's) sem" where
  "gets f = (\<lambda>s. Inr (f s, s))"

definition modify :: "('s \<Rightarrow> 's) \<Rightarrow> (unit, 's) sem" where
  "modify f = (\<lambda>s. Inr ((), f s))"

definition assert :: "bool \<Rightarrow> (unit, 's) sem" where
  "assert b = (if b then return () else fail AssertFailed)"

definition lift :: "fault + 'a \<Rightarrow> ('a, 's) sem" where
  "lift r = (\<lambda>s. case r of Inl e \<Rightarrow> Inl e | Inr a \<Rightarrow> Inr (a, s))"

named_theorems sem_simps \<open>equations that run a state-and-error function on a state\<close>

lemma bind_apply [sem_simps]:
  "bind m f s = (case m s of Inl e \<Rightarrow> Inl e | Inr (a, s') \<Rightarrow> f a s')"
  by (simp add: bind_def)

lemma seq_apply [sem_simps]:
  "seq m k s = (case m s of Inl e \<Rightarrow> Inl e | Inr (a, s') \<Rightarrow> k s')"
  by (simp add: seq_def bind_def)

lemma leaf_apply [sem_simps]:
  "return a s = Inr (a, s)"
  "fail e s = Inl e"
  "gets f s = Inr (f s, s)"
  "modify g s = Inr ((), g s)"
  "assert b s = (if b then Inr ((), s) else Inl AssertFailed)"
  "lift (Inl e) s = Inl e"
  "lift (Inr a) s = Inr (a, s)"
  by (simp_all add: return_def fail_def gets_def modify_def assert_def lift_def)

lemma bind_return_left [simp]: "bind (return a) f = f a"
  by (simp add: fun_eq_iff sem_simps)

lemma bind_assoc: "bind (bind m f) g = bind m (\<lambda>a. bind (f a) g)"
  by (auto simp: fun_eq_iff sem_simps split: sum.splits)

lemma seq_assoc: "seq (seq m k) l = seq m (seq k l)"
  by (auto simp: fun_eq_iff sem_simps split: sum.splits)

lemma seq_bind_assoc: "bind (seq m k) f = seq m (bind k f)"
  by (auto simp: fun_eq_iff sem_simps split: sum.splits)

lemma seq_return_right [simp]: "seq m (return ()) = m"
  by (auto simp: fun_eq_iff sem_simps split: sum.splits)

lemma seq_return_left [simp]: "seq (return ()) m = m"
  by (auto simp: fun_eq_iff sem_simps split: sum.splits)

lemma bind_InrE:
  assumes "bind m f s = Inr r"
  obtains a s' where "m s = Inr (a, s')" and "f a s' = Inr r"
  using assms by (auto simp: sem_simps split: sum.splits)

lemma seq_InrE:
  assumes "seq m k s = Inr r"
  obtains s' where "m s = Inr ((), s')" and "k s' = Inr r"
  using assms by (auto simp: sem_simps split: sum.splits)

subsection \<open>Loops\<close>

text \<open>
  A \<open>while\<close> loop of the source with a bound on its iterations.  The condition is evaluated
  once more than the body.  \<open>while_more_fuel\<close> says that the bound never changes a result.
\<close>

primrec while_sem :: "nat \<Rightarrow> (bool, 's) sem \<Rightarrow> (unit, 's) sem \<Rightarrow> (unit, 's) sem" where
  "while_sem 0 b c = fail Timeout"
| "while_sem (Suc n) b c =
     bind b (\<lambda>t. if t then seq c (while_sem n b c) else return ())"

declare while_sem.simps [simp del]

lemma while_apply [sem_simps]:
  "while_sem 0 b c s = Inl Timeout"
  "while_sem (Suc n) b c s = bind b (\<lambda>t. if t then seq c (while_sem n b c) else return ()) s"
  by (simp_all add: while_sem.simps leaf_apply)

lemma while_more_fuel:
  "while_sem n b c s = Inr r \<Longrightarrow> n \<le> m \<Longrightarrow> while_sem m b c s = Inr r"
proof (induction n arbitrary: m s)
  case 0
  then show ?case by (simp add: sem_simps)
next
  case (Suc n)
  then obtain m' where m: "m = Suc m'" and le: "n \<le> m'"
    by (cases m) auto
  show ?case
    using Suc.prems(1) unfolding m
    by (auto simp: sem_simps split: sum.splits if_splits intro: Suc.IH [OF _ le])
qed

section \<open>Ordered sets of names\<close>

text \<open>
  \<open>std::unordered_set<std::string>\<close> as a list without repetition, in insertion order.  The
  sources iterate over such a set only to lay variables out and to read the layout back, so
  they rely on the order being the same each time, not on which order it is.
\<close>

definition set_insert :: "'a \<Rightarrow> 'a list \<Rightarrow> 'a list" where
  "set_insert x xs = (if x \<in> set xs then xs else xs @ [x])"

definition set_union :: "'a list \<Rightarrow> 'a list \<Rightarrow> 'a list" where
  "set_union xs ys = fold set_insert ys xs"

lemma set_set_insert [simp]: "set (set_insert x xs) = insert x (set xs)"
  by (auto simp: set_insert_def)

lemma distinct_set_insert [simp]: "distinct (set_insert x xs) \<longleftrightarrow> distinct xs"
  by (auto simp: set_insert_def)

lemma set_set_union [simp]: "set (set_union xs ys) = set xs \<union> set ys"
  unfolding set_union_def by (induction ys arbitrary: xs) auto

lemma distinct_set_union [simp]: "distinct (set_union xs ys) \<longleftrightarrow> distinct xs"
  unfolding set_union_def by (induction ys arbitrary: xs) auto

end
