(* ===== verification/Small_Int.thy ===== *)
theory Small_Int
  imports MS_Prelude
begin

text \<open>
  Tagged object pointers (\<open>runtime.hh\<close>): the tag test, the conversions between machine
  integers and small integer objects, the garbage collector's view of a value, and the two
  tests of truth and the two comparisons that the interpreter and the generated code use.
\<close>

type_synonym obj = "64 word"

section \<open>Tagging\<close>

definition isInteger :: "obj \<Rightarrow> bool" where
  "isInteger ob \<longleftrightarrow> ob AND 7 = 1"

definition asr3 :: "64 word \<Rightarrow> 64 word" where
  "asr3 w = signed_drop_bit 3 w"

definition getInteger :: "obj \<Rightarrow> fault + 64 word" where
  "getInteger ob = (if isInteger ob then Inr (asr3 ob) else Inl AssertFailed)"

definition createSmallInteger :: "64 word \<Rightarrow> fault + obj" where
  "createSmallInteger i =
     (if asr3 (push_bit 3 i) = i then Inr (push_bit 3 i OR 1) else Inl AssertFailed)"

text \<open>\<open>Number::evaluateExpr\<close> and \<open>compileSmallInt\<close> tag a literal without the range check.\<close>

definition literalObject :: "64 word \<Rightarrow> obj" where
  "literalObject value = push_bit 3 value OR 1"

definition compileSmallInt :: "64 word \<Rightarrow> obj" where
  "compileSmallInt i = push_bit 3 i OR 1"

definition needsGC :: "obj \<Rightarrow> bool" where
  "needsGC ob \<longleftrightarrow> ob \<noteq> 0 \<and> ob AND 7 = 0"

section \<open>Conditions and comparisons\<close>

definition interpretedTruth :: "obj \<Rightarrow> bool" where
  "interpretedTruth cond \<longleftrightarrow> cond AND NOT 7 \<noteq> 0"

definition compiledTruth :: "obj \<Rightarrow> bool" where
  "compiledTruth cond \<longleftrightarrow> drop_bit 3 cond \<noteq> 0"

section \<open>Facts about the tag bits\<close>

named_theorems tag_simps \<open>the tag bits of words built by shifting\<close>

lemma low_tag_bit: "bit (7 :: 64 word) n \<longleftrightarrow> n < 3"
proof -
  have "(7 :: 64 word) = mask 3" by (simp add: mask_eq_exp_minus_1)
  then have "bit (7 :: 64 word) n \<longleftrightarrow> bit (mask 3 :: 64 word) n" by (rule arg_cong)
  then show ?thesis by (auto simp del: mask_numeral simp: bit_mask_iff)
qed

lemma low_tag_bit_int: "bit (7 :: int) n \<longleftrightarrow> n < 3"
proof -
  have "(7 :: int) = mask 3" by (simp add: mask_eq_exp_minus_1)
  then have "bit (7 :: int) n \<longleftrightarrow> bit (mask 3 :: int) n" by (rule arg_cong)
  then show ?thesis by (auto simp del: mask_numeral simp: bit_mask_iff)
qed

lemma isInteger_take_bit: "isInteger ob \<longleftrightarrow> take_bit 3 ob = 1"
proof -
  have "(7 :: 64 word) = mask 3" by (simp add: mask_eq_exp_minus_1)
  then show ?thesis by (simp add: isInteger_def take_bit_eq_mask)
qed

lemma and7_take_bit: "(ob :: 64 word) AND 7 = take_bit 3 ob"
proof -
  have "(7 :: 64 word) = mask 3" by (simp add: mask_eq_exp_minus_1)
  then show ?thesis by (simp add: take_bit_eq_mask)
qed

lemma take_bit_shl_or [tag_simps]: "take_bit 3 (push_bit 3 i OR 1 :: 64 word) = 1"
proof (rule bit_word_eqI)
  fix n :: nat
  assume "n < LENGTH(64)"
  show "bit (take_bit 3 (push_bit 3 i OR 1)) n \<longleftrightarrow> bit (1 :: 64 word) n"
    by (cases "n < 3") (auto simp: bit_simps)
qed

lemma isInteger_shl_or [simp, tag_simps]: "isInteger (push_bit 3 i OR 1)"
  unfolding isInteger_take_bit by (rule take_bit_shl_or)

lemma asr3_shl_or [tag_simps]: "asr3 (push_bit 3 i OR 1) = asr3 (push_bit 3 i)"
  unfolding asr3_def by (rule bit_word_eqI) (auto simp: bit_simps)

lemma isInteger_rebuild:
  assumes "isInteger ob"
  shows "push_bit 3 (asr3 ob) OR 1 = ob"
proof -
  have low: "n < 3 \<Longrightarrow> bit ob n \<longleftrightarrow> n = 0" for n
    using assms unfolding isInteger_take_bit
    by (metis bit_1_iff bit_take_bit_iff)
  show ?thesis
    unfolding asr3_def
  proof (rule bit_word_eqI)
    fix n :: nat
    assume "n < LENGTH(64)"
    then show "bit (push_bit 3 (signed_drop_bit 3 ob) OR 1) n \<longleftrightarrow> bit ob n"
      using low [of n] by (cases "n < 3") (auto simp: bit_simps)
  qed
qed

lemma asr3_fits: "asr3 (push_bit 3 (asr3 w)) = asr3 w"
  unfolding asr3_def by (rule bit_word_eqI) (auto simp: bit_simps)

lemma sint_asr3: "sint (asr3 w) = sint w div 8"
  by (simp add: asr3_def sint_signed_drop_bit_eq drop_bit_eq_div)

lemma asr3_range: "- (2 ^ 60) \<le> sint (asr3 w) \<and> sint (asr3 w) < 2 ^ 60"
proof -
  have "- (2 ^ 63) \<le> sint w \<and> sint w < 2 ^ 63"
    using sint_range_size [of w] by (simp add: word_size)
  then show ?thesis unfolding sint_asr3 by simp presburger
qed

lemma sint_shl3:
  assumes "- (2 ^ 60) \<le> sint (i :: 64 word)" and "sint i < 2 ^ 60"
  shows "sint (push_bit 3 i) = 8 * sint i"
proof -
  have eq: "push_bit 3 i = word_of_int (8 * sint i)"
    by (simp add: push_bit_eq_mult)
  show ?thesis
    unfolding eq sint_sbintrunc' by (rule signed_take_bit_int_eq_self) (use assms in simp_all)
qed

lemma asr3_shl3_iff:
  "asr3 (push_bit 3 i) = i \<longleftrightarrow> - (2 ^ 60) \<le> sint i \<and> sint i < 2 ^ 60" (is "?l = ?r")
proof
  show ?r if ?l using asr3_range [of "push_bit 3 i"] that by simp
next
  assume ?r
  then have "sint (asr3 (push_bit 3 i)) = sint i"
    by (simp add: sint_asr3 sint_shl3)
  then show ?l by (simp only: signed_word_eqI)
qed

subsection \<open>Boxes\<close>

text \<open>The range of a boxed integer.\<close>

definition small :: "64 word \<Rightarrow> bool" where
  "small i \<longleftrightarrow> - (2 ^ 60) \<le> sint i \<and> sint i < 2 ^ 60"

lemma createSmallInteger_eq [tag_simps]:
  "createSmallInteger i = (if small i then Inr (literalObject i) else Inl AssertFailed)"
  by (simp add: createSmallInteger_def literalObject_def small_def asr3_shl3_iff)

lemma isInteger_literalObject [simp]: "isInteger (literalObject i)"
  by (simp add: literalObject_def)

lemma asr3_literalObject [tag_simps]: "small i \<Longrightarrow> asr3 (literalObject i) = i"
  by (simp add: literalObject_def tag_simps small_def asr3_shl3_iff)

lemma getInteger_literalObject [tag_simps]: "small i \<Longrightarrow> getInteger (literalObject i) = Inr i"
  by (simp add: getInteger_def asr3_literalObject)

lemma small_asr3 [simp]: "small (asr3 ob)"
  using asr3_range [of ob] by (simp add: small_def)

lemma literalObject_asr3: "isInteger ob \<Longrightarrow> literalObject (asr3 ob) = ob"
  by (simp add: literalObject_def isInteger_rebuild)

lemma literalObject_nonzero [simp]: "literalObject i \<noteq> 0"
proof
  assume "literalObject i = 0"
  then have "isInteger 0" by (metis isInteger_literalObject)
  then show False by (simp add: isInteger_def)
qed

lemma truth_drop_bit: "interpretedTruth cond \<longleftrightarrow> compiledTruth cond"
proof -
  have "cond AND NOT 7 = push_bit 3 (drop_bit 3 cond)"
  proof (rule bit_word_eqI)
    fix n :: nat
    assume "n < LENGTH(64)"
    then show "bit (cond AND NOT 7) n \<longleftrightarrow> bit (push_bit 3 (drop_bit 3 cond)) n"
      by (cases "n < 3") (auto simp: bit_simps low_tag_bit low_tag_bit_int)
  qed
  moreover have "push_bit 3 (drop_bit 3 cond) = 0 \<longleftrightarrow> drop_bit 3 cond = 0"
  proof
    assume z: "push_bit 3 (drop_bit 3 cond) = 0"
    show "drop_bit 3 cond = 0"
    proof (rule bit_word_eqI)
      fix n :: nat
      assume "n < LENGTH(64)"
      have "bit (push_bit 3 (drop_bit 3 cond)) (n + 3) \<longleftrightarrow> False" unfolding z by simp
      then show "bit (drop_bit 3 cond) n \<longleftrightarrow> bit (0 :: 64 word) n"
        by (auto simp: bit_simps dest: bit_imp_le_length)
    qed
  qed simp
  ultimately show ?thesis by (simp add: interpretedTruth_def compiledTruth_def)
qed

section \<open>Properties\<close>

text \<open>
  Boxing an integer succeeds exactly for 61-bit signed integers, and the box is then an
  integer object that reads back as the same integer; outside that range the assertion of
  \<open>createSmallInteger\<close> fails.
\<close>

theorem createSmallInteger_iff:
  "createSmallInteger i = Inr ob \<longleftrightarrow>
     - (2 ^ 60) \<le> sint i \<and> sint i < 2 ^ 60 \<and> isInteger ob \<and> getInteger ob = Inr i"
proof -
  have "createSmallInteger i = Inr ob \<longleftrightarrow> small i \<and> ob = literalObject i"
    by (auto simp: createSmallInteger_eq)
  also have "\<dots> \<longleftrightarrow> small i \<and> isInteger ob \<and> getInteger ob = Inr i"
    by (auto simp: getInteger_literalObject) (auto simp: getInteger_def literalObject_asr3)
  finally show ?thesis by (simp add: small_def)
qed

end
