(* ===== verification/Heap.thy ===== *)
theory Heap
  imports Small_Int
begin

text \<open>
  The layouts of \<open>runtime.hh\<close> and the storage they live in.  Every piece of storage that the
  program obtains from \<open>GC_MALLOC\<close>, from \<open>operator new\<close> or from the C++ stack is a block; an
  \<open>Obj*\<close> is a block's address and the index of one of its object slots.  The allocator itself
  is the Boehm collector's and therefore a field of \<open>env\<close>, with its contract as a locale.
\<close>

section \<open>Layouts\<close>

type_synonym addr = "64 word"
type_synonym selector = "32 word"
type_synonym node = "64 word"     \<comment> \<open>address of a syntax tree node\<close>
type_synonym bytes = "8 word list"
type_synonym loc = "addr \<times> nat"  \<comment> \<open>an \<open>Obj*\<close>\<close>

datatype builtin =
    B_FileOpen | B_FileClose | B_FileReadLine | B_FileWrite
  | B_StringLength | B_StringCharAt | B_StringDump | B_StringPrint | B_StringAdd | B_StringCmp
  | B_NumberDump | B_NumberPrint
  | B_ArrayLength | B_ArrayAt | B_ArrayAtPut

text \<open>
  A function pointer (\<open>CompiledMethod\<close> or \<open>ClosureInvoke\<close>) is a runtime function, one of the
  trampolines into the interpreter, indexed by its number of arguments, or a function that the
  compiler has generated.  The null pointer is \<open>None\<close>.
\<close>

datatype code =
    Native builtin
  | MethodTrampoline nat
  | ClosureTrampoline nat
  | JitCode nat

record methodStruct =
  m_selector :: selector
  m_args :: nat
  m_function :: "code option"
  m_AST :: "node option"

record cls =
  superclass :: addr               \<comment> \<open>0 for a root class\<close>
  className :: string
  methodList :: "methodStruct list"      \<comment> \<open>\<open>methodCount\<close> is its length\<close>
  indexedIVarNames :: "string list" \<comment> \<open>\<open>indexedIVarCount\<close> is its length\<close>

record string_obj =
  str_length :: obj
  characters :: bytes

record closure =
  parameters :: obj
  invoke :: "code option"
  cl_AST :: node
  boundVars :: "obj list"

text \<open>
  \<open>ObjBlock\<close> is what \<open>newObject\<close> makes: a class pointer and one slot per instance variable.
  \<open>Array\<close> and \<open>File\<close> objects are made that way, so their C++ structures are views of such a
  block.  \<open>CellBlock\<close> is storage for objects only: an argument array, the locals of a frame, an
  array buffer, the storage of a global.
\<close>

datatype block =
    ObjBlock addr "obj list"
  | StrBlock string_obj
  | CloBlock closure
  | CellBlock "obj list"

text \<open>The addresses of the class structures that are part of the executable.\<close>

abbreviation (input) StringClass :: addr where "StringClass \<equiv> 0x100"
abbreviation (input) FileClass :: addr where "FileClass \<equiv> 0x140"
abbreviation (input) ArrayClass :: addr where "ArrayClass \<equiv> 0x180"
abbreviation (input) SmallIntClass :: addr where "SmallIntClass \<equiv> 0x1C0"
abbreviation (input) ClosureClass :: addr where "ClosureClass \<equiv> 0x200"

section \<open>The environment\<close>

text \<open>
  What the program takes from libraries and from its command line: the allocator, how many
  bound-variable slots fit into the storage the collector hands out for a request, the address
  of a newly allocated class structure, \<open>memcmp\<close>, \<open>open\<close>, and the \<open>-c\<close> option.
\<close>

record env =
  e_alloc :: "(addr \<rightharpoonup> block) \<Rightarrow> addr option"
  e_slots :: "nat \<Rightarrow> nat"
  e_new_class :: "(addr \<rightharpoonup> cls) \<Rightarrow> addr option"
  e_memcmp :: "bytes \<Rightarrow> bytes \<Rightarrow> 32 word"
  e_open :: "bytes \<Rightarrow> 64 word"
  forceCompiler :: bool

section \<open>Storage\<close>

record heap =
  mem :: "addr \<rightharpoonup> block"

fun cells :: "block \<Rightarrow> obj list" where
  "cells (ObjBlock c vs) = vs"
| "cells (StrBlock st) = []"
| "cells (CloBlock cl) = boundVars cl"
| "cells (CellBlock vs) = vs"

fun set_cells :: "obj list \<Rightarrow> block \<Rightarrow> block" where
  "set_cells vs (ObjBlock c _) = ObjBlock c vs"
| "set_cells vs (StrBlock st) = StrBlock st"
| "set_cells vs (CloBlock cl) = CloBlock (cl\<lparr>boundVars := vs\<rparr>)"
| "set_cells vs (CellBlock _) = CellBlock vs"

definition block_at :: "addr \<Rightarrow> (block, 'a heap_scheme) sem" where
  "block_at a = (\<lambda>s. case mem s a of
       Some b \<Rightarrow> Inr (b, s)
     | None \<Rightarrow> Inl (if a = 0 then NullDeref else BadPointer))"

definition load :: "loc \<Rightarrow> (obj, 'a heap_scheme) sem" where
  "load p = bind (block_at (fst p)) (\<lambda>b.
     if snd p < length (cells b) then return (cells b ! snd p) else fail OutOfBounds)"

definition set_block :: "addr \<Rightarrow> block \<Rightarrow> (unit, 'a heap_scheme) sem" where
  "set_block a b = modify (\<lambda>s. s\<lparr>mem := (mem s)(a \<mapsto> b)\<rparr>)"

definition store :: "loc \<Rightarrow> obj \<Rightarrow> (unit, 'a heap_scheme) sem" where
  "store p v = bind (block_at (fst p)) (\<lambda>b.
     if snd p < length (cells b)
     then set_block (fst p) (set_cells ((cells b)[snd p := v]) b)
     else fail OutOfBounds)"

definition alloc :: "env \<Rightarrow> block \<Rightarrow> (addr, 'a heap_scheme) sem" where
  "alloc E b = (\<lambda>s. case e_alloc E (mem s) of
       None \<Rightarrow> Inl NullDeref
     | Some a \<Rightarrow> Inr (a, s\<lparr>mem := (mem s)(a \<mapsto> b)\<rparr>))"

text \<open>The class pointer in the first word of an object (\<open>obj->isa\<close>).\<close>

definition isa :: "addr \<Rightarrow> (addr, 'a heap_scheme) sem" where
  "isa a = bind (block_at a) (\<lambda>b. case b of
       ObjBlock c _ \<Rightarrow> return c
     | StrBlock _ \<Rightarrow> return StringClass
     | CloBlock _ \<Rightarrow> return ClosureClass
     | CellBlock vs \<Rightarrow> fail BadPointer)"

section \<open>Contracts\<close>

text \<open>
  What the program relies on from the allocator: the address it returns is not null, has the
  tag bits of an object pointer and is not in use; and the collector never hands out less
  storage than was asked for.
\<close>

definition allocator_ok :: "env \<Rightarrow> bool" where
  "allocator_ok E \<longleftrightarrow>
     (\<forall>h a. e_alloc E h = Some a \<longrightarrow> h a = None \<and> a \<noteq> 0 \<and> a AND 7 = 0) \<and> (\<forall>n. n \<le> e_slots E n)"

definition new_class_ok :: "env \<Rightarrow> bool" where
  "new_class_ok E \<longleftrightarrow> (\<forall>K a. e_new_class E K = Some a \<longrightarrow> K a = None \<and> a \<noteq> 0)"

lemma allocator_okD:
  assumes "allocator_ok E" and "e_alloc E h = Some a"
  shows "h a = None" and "a \<noteq> 0" and "needsGC a" and "\<not> isInteger a"
  using assms by (auto simp: allocator_ok_def needsGC_def isInteger_def)

text \<open>
  Slots of the heap that can be read and written: what \<open>load\<close> and \<open>store\<close> promise to the code
  that works through an \<open>Obj*\<close>.
\<close>

locale cell_store =
  fixes get :: "'p \<Rightarrow> ('v, 's) sem"
    and put :: "'p \<Rightarrow> 'v \<Rightarrow> (unit, 's) sem"
  assumes get_pure: "get p s = Inr (v, s') \<Longrightarrow> s' = s"
    and put_ok: "get p s = Inr (v, s') \<Longrightarrow> \<exists>s''. put p w s = Inr ((), s'')"
    and get_put: "put p v s = Inr ((), s') \<Longrightarrow> get p s' = Inr (v, s')"
    and get_put_other:
      "put p v s = Inr ((), s') \<Longrightarrow> get q s = Inr (w, s) \<Longrightarrow> p \<noteq> q \<Longrightarrow> get q s' = Inr (w, s')"
begin

lemma swap_read: "put p v s = Inr ((), s') \<Longrightarrow> get q s = Inr (w, s) \<Longrightarrow>
    get q s' = Inr (if p = q then v else w, s')"
  by (auto dest: get_put get_put_other)

end

lemma length_cells_set_cells: "length vs = length (cells b) \<Longrightarrow> cells (set_cells vs b) = vs"
  by (cases b) auto

lemma block_at_apply [sem_simps]:
  "block_at a s = (case mem s a of Some b \<Rightarrow> Inr (b, s)
     | None \<Rightarrow> Inl (if a = 0 then NullDeref else BadPointer))"
  by (simp add: block_at_def)

lemma set_block_apply [sem_simps]: "set_block a b s = Inr ((), s\<lparr>mem := (mem s)(a \<mapsto> b)\<rparr>)"
  by (simp add: set_block_def sem_simps)

lemma alloc_apply [sem_simps]:
  "alloc E b s = (case e_alloc E (mem s) of None \<Rightarrow> Inl NullDeref
     | Some a \<Rightarrow> Inr (a, s\<lparr>mem := (mem s)(a \<mapsto> b)\<rparr>))"
  by (simp add: alloc_def)

lemma load_eq:
  "load p s = Inr (v, s') \<longleftrightarrow>
     s' = s \<and> (\<exists>b. mem s (fst p) = Some b \<and> snd p < length (cells b) \<and> v = cells b ! snd p)"
  by (auto simp: load_def sem_simps split: option.splits)

lemma store_eq:
  "store p v s = Inr ((), s') \<longleftrightarrow>
     (\<exists>b. mem s (fst p) = Some b \<and> snd p < length (cells b) \<and>
        s' = s\<lparr>mem := (mem s)(fst p \<mapsto> set_cells ((cells b)[snd p := v]) b)\<rparr>)"
  by (auto simp: store_def sem_simps split: option.splits)

interpretation heap_cells: cell_store load store
proof unfold_locales
  fix p :: loc and v w :: obj and s s' :: "'a heap_scheme"
  show "load p s = Inr (v, s') \<Longrightarrow> s' = s"
    by (simp add: load_eq)
  show "load p s = Inr (v, s') \<Longrightarrow> \<exists>s''. store p w s = Inr ((), s'')"
    by (auto simp: load_eq store_eq)
  show "store p v s = Inr ((), s') \<Longrightarrow> load p s' = Inr (v, s')"
    by (auto simp: load_eq store_eq length_cells_set_cells)
next
  fix p q :: loc and v w :: obj and s s' :: "'a heap_scheme"
  show "store p v s = Inr ((), s') \<Longrightarrow> load q s = Inr (w, s) \<Longrightarrow> p \<noteq> q \<Longrightarrow>
      load q s' = Inr (w, s')"
    by (cases p; cases q) (auto simp: load_eq store_eq length_cells_set_cells nth_list_update)
qed

section \<open>A concrete environment\<close>

text \<open>
  An environment for the closed examples: a bump allocator over a few addresses, storage in
  units of 16 bytes as the collector hands it out, and byte-wise comparison.
\<close>

definition small_addresses :: "addr list" where
  "small_addresses = map (\<lambda>i. 0x1000 + 16 * word_of_nat i) [0..<48]"

definition first_free :: "(addr \<rightharpoonup> 'b) \<Rightarrow> addr option" where
  "first_free h = List.find (\<lambda>a. h a = None) small_addresses"

fun memcmp_bytes :: "bytes \<Rightarrow> bytes \<Rightarrow> 32 word" where
  "memcmp_bytes (x # xs) (y # ys) =
     (if x = y then memcmp_bytes xs ys else if x < y then - 1 else 1)"
| "memcmp_bytes _ _ = 0"

definition sample_env :: env where
  "sample_env = \<lparr>e_alloc = first_free, e_slots = (\<lambda>n. n + (n mod 2)),
     e_new_class = first_free,
     e_memcmp = memcmp_bytes, e_open = (\<lambda>_. 3), forceCompiler = False\<rparr>"

lemma sample_env_fields [simp]:
  "e_alloc sample_env = first_free" "e_slots sample_env = (\<lambda>n. n + (n mod 2))"
  "e_new_class sample_env = first_free"
  "e_memcmp sample_env = memcmp_bytes" "forceCompiler sample_env = False"
  by (simp_all add: sample_env_def)

lemma first_free_Some: "first_free h = Some a \<Longrightarrow> h a = None \<and> a \<in> set small_addresses"
  by (auto simp: first_free_def find_Some_iff)

lemma first_free_eval:
  "first_free h = List.find (\<lambda>a. h a = None)
     [0x1000, 0x1010, 0x1020, 0x1030, 0x1040, 0x1050, 0x1060, 0x1070, 0x1080, 0x1090, 0x10A0, 0x10B0,
      0x10C0, 0x10D0, 0x10E0, 0x10F0, 0x1100, 0x1110, 0x1120, 0x1130, 0x1140, 0x1150, 0x1160, 0x1170,
      0x1180, 0x1190, 0x11A0, 0x11B0, 0x11C0, 0x11D0, 0x11E0, 0x11F0, 0x1200, 0x1210, 0x1220, 0x1230,
      0x1240, 0x1250, 0x1260, 0x1270, 0x1280, 0x1290, 0x12A0, 0x12B0, 0x12C0, 0x12D0, 0x12E0, 0x12F0]"
proof -
  have "small_addresses =
     [0x1000, 0x1010, 0x1020, 0x1030, 0x1040, 0x1050, 0x1060, 0x1070, 0x1080, 0x1090, 0x10A0, 0x10B0,
      0x10C0, 0x10D0, 0x10E0, 0x10F0, 0x1100, 0x1110, 0x1120, 0x1130, 0x1140, 0x1150, 0x1160, 0x1170,
      0x1180, 0x1190, 0x11A0, 0x11B0, 0x11C0, 0x11D0, 0x11E0, 0x11F0, 0x1200, 0x1210, 0x1220, 0x1230,
      0x1240, 0x1250, 0x1260, 0x1270, 0x1280, 0x1290, 0x12A0, 0x12B0, 0x12C0, 0x12D0, 0x12E0, 0x12F0]"
    by code_simp
  then show ?thesis by (simp add: first_free_def)
qed

lemma small_addresses_ok: "list_all (\<lambda>a. a AND 7 = 0 \<and> a \<noteq> 0) small_addresses"
  by code_simp

lemma sample_new_class_ok: "new_class_ok sample_env"
  using small_addresses_ok
  by (auto simp: new_class_ok_def list_all_iff dest!: first_free_Some)

lemma sample_allocator_ok: "allocator_ok sample_env"
  using small_addresses_ok
  by (auto simp: allocator_ok_def sample_env_def list_all_iff dest!: first_free_Some)

end
