(* ===== verification/Selectors.thy ===== *)
theory Selectors
  imports Heap "HOL-Library.AList"
begin

text \<open>
  Interned selectors (\<open>lookupSelector\<close> and \<open>selNames\<close> in \<open>runtime.cc\<close>): every method name gets
  a number the first time it is seen.  The contract of interning is the locale \<open>interner\<close>; the
  runtime's table is an interpretation of it.
\<close>

section \<open>The table\<close>

abbreviation (input) sel_length :: selector where "sel_length \<equiv> 1"
abbreviation (input) sel_charAt :: selector where "sel_charAt \<equiv> 2"
abbreviation (input) sel_dump :: selector where "sel_dump \<equiv> 3"
abbreviation (input) sel_print :: selector where "sel_print \<equiv> 4"
abbreviation (input) sel_invoke :: selector where "sel_invoke \<equiv> 5"
abbreviation (input) sel_atPut :: selector where "sel_atPut \<equiv> 6"
abbreviation (input) sel_at :: selector where "sel_at \<equiv> 7"
abbreviation (input) sel_add :: selector where "sel_add \<equiv> 8"
abbreviation (input) sel_sub :: selector where "sel_sub \<equiv> 9"
abbreviation (input) sel_mul :: selector where "sel_mul \<equiv> 10"
abbreviation (input) sel_div :: selector where "sel_div \<equiv> 11"
abbreviation (input) sel_compare :: selector where "sel_compare \<equiv> 12"
abbreviation (input) sel_open :: selector where "sel_open \<equiv> 13"
abbreviation (input) sel_close :: selector where "sel_close \<equiv> 14"
abbreviation (input) sel_readline :: selector where "sel_readline \<equiv> 15"
abbreviation (input) sel_write :: selector where "sel_write \<equiv> 16"

definition StaticSelectorNames :: "string list" where
  "StaticSelectorNames =
     [''length'', ''charAt'', ''dump'', ''print'', ''invoke'', ''atPut'', ''at'', ''add'', ''sub'',
      ''mul'', ''div'', ''compare'', ''open'', ''close'', ''readline'', ''write'']"

text \<open>
  \<open>std::unordered_map<std::string, Selector>\<close> is an association list with distinct keys, the
  newest entry last.  The map's \<open>operator[]\<close> inserts 0 for a new key, which is then replaced.
\<close>

type_synonym selector_table = "(string \<times> selector) list \<times> string list"

definition register_static :: "selector_table \<Rightarrow> selector_table" where
  "register_static T = (case T of (sels, names) \<Rightarrow>
     if sels = []
     then (zip StaticSelectorNames (map word_of_nat [1..<Suc (length StaticSelectorNames)]),
           names @ ''<invalid>'' # StaticSelectorNames)
     else (sels, names))"

definition intern_selector :: "string \<Rightarrow> selector_table \<Rightarrow> selector \<times> selector_table" where
  "intern_selector str T = (case register_static T of (sels, names) \<Rightarrow>
     let next = word_of_nat (length sels + 1);
         sel = (case map_of sels str of None \<Rightarrow> 0 | Some k \<Rightarrow> k)
     in if sel = 0
        then (next, AList.update str next sels, names @ [str])
        else (sel, sels, names))"

section \<open>The contract\<close>

locale interner =
  fixes intern :: "'n \<Rightarrow> 's \<Rightarrow> 'k \<times> 's"
    and name_of :: "'s \<Rightarrow> 'k \<Rightarrow> 'n option"
    and inv :: "'s \<Rightarrow> bool"
    and room :: "'s \<Rightarrow> bool"
  assumes intern_inv: "inv s \<Longrightarrow> room s \<Longrightarrow> intern n s = (k, s') \<Longrightarrow> inv s'"
    and intern_name: "inv s \<Longrightarrow> room s \<Longrightarrow> intern n s = (k, s') \<Longrightarrow> name_of s' k = Some n"
    and intern_keeps: "inv s \<Longrightarrow> room s \<Longrightarrow> intern n s = (k, s') \<Longrightarrow> name_of s j = Some m \<Longrightarrow>
        name_of s' j = Some m"
    and intern_hit: "inv s \<Longrightarrow> room s \<Longrightarrow> name_of s j = Some n \<Longrightarrow> intern n s = (j, s)"
begin

lemma intern_again:
  assumes "inv s" "room s" "intern n s = (k, s')" "room s'"
  shows "intern n s' = (k, s')"
  using assms by (meson intern_hit intern_inv intern_name)

lemma intern_injective:
  assumes i: "inv s" "room s" "intern n s = (k, s')" and r: "room s'"
    and j: "intern m s' = (j, s'')"
  shows "j = k \<longleftrightarrow> m = n"
proof
  have inv': "inv s'" using intern_inv [OF i] .
  show "m = n" if "j = k"
  proof -
    have "name_of s'' k = Some n" using intern_keeps [OF inv' r j] intern_name [OF i] by blast
    moreover have "name_of s'' k = Some m" using intern_name [OF inv' r j] that by simp
    ultimately show ?thesis by simp
  qed
  show "j = k" if "m = n" using intern_again [OF i r] j that by simp
qed

primrec intern_all :: "'n list \<Rightarrow> 's \<Rightarrow> 's" where
  "intern_all [] s = s"
| "intern_all (n # ns) s = intern_all ns (snd (intern n s))"

lemma intern_stable:
  assumes "inv s" "name_of s k = Some n"
    and "\<And>ms ms'. ns = ms @ ms' \<Longrightarrow> room (intern_all ms s)"
  shows "name_of (intern_all ns s) k = Some n"
  using assms
proof (induction ns arbitrary: s)
  case Nil
  then show ?case by simp
next
  case (Cons m ns)
  obtain j s' where i: "intern m s = (j, s')" by fastforce
  have "room s" using Cons.prems(3) [of "[]"] by simp
  then have "inv s'" "name_of s' k = Some n"
    using Cons.prems(1,2) i by (auto intro: intern_inv intern_keeps)
  moreover have "room (intern_all ms s')" if "ns = ms @ ms'" for ms ms'
    using Cons.prems(3) [of "m # ms" ms'] that i by simp
  ultimately show ?case using Cons.IH [of s'] i by simp
qed

end

section \<open>The runtime's table meets it\<close>

definition table_entries :: "selector_table \<Rightarrow> bool" where
  "table_entries T \<longleftrightarrow> (case T of (sels, names) \<Rightarrow>
     names = ''<invalid>'' # map fst sels \<and> distinct (map fst sels) \<and>
     map snd sels = map word_of_nat [1..<Suc (length sels)])"

definition selectors_ok :: "selector_table \<Rightarrow> bool" where
  "selectors_ok T \<longleftrightarrow> T = ([], []) \<or> fst T \<noteq> [] \<and> table_entries T"

definition selectors_room :: "selector_table \<Rightarrow> bool" where
  "selectors_room T \<longleftrightarrow> length (fst T) + 1 < 2 ^ 32"

definition selector_name :: "selector_table \<Rightarrow> selector \<Rightarrow> string option" where
  "selector_name T sel =
     (if sel \<noteq> 0 \<and> unat sel < length (snd T) then Some (snd T ! unat sel) else None)"

lemma update_new_key: "k \<notin> fst ` set xs \<Longrightarrow> AList.update k v xs = xs @ [(k, v)]"
  by (induction xs) auto

lemma register_static_nonempty: "fst T \<noteq> [] \<Longrightarrow> register_static T = T"
  by (auto simp: register_static_def split: prod.splits)

lemma register_static_ok:
  assumes "selectors_ok T"
  shows "fst (register_static T) \<noteq> [] \<and> table_entries (register_static T)"
proof (cases "fst T = []")
  case True
  then have T: "T = ([], [])" using assms by (auto simp: selectors_ok_def)
  show ?thesis
    unfolding T by (simp add: register_static_def table_entries_def StaticSelectorNames_def upt_rec)
next
  case False
  then show ?thesis using assms by (auto simp: register_static_nonempty selectors_ok_def)
qed

lemma entry_nth:
  assumes "table_entries (sels, names)" and "i < length sels"
  shows "sels ! i = (names ! Suc i, word_of_nat (Suc i))"
proof -
  have "snd (sels ! i) = map snd sels ! i" using assms(2) by simp
  also have "\<dots> = word_of_nat (Suc i)" using assms by (simp add: table_entries_def del: upt_Suc)
  finally show ?thesis using assms by (auto simp: table_entries_def prod_eq_iff)
qed

lemma unat_index: "n < 2 ^ 32 \<Longrightarrow> unat (word_of_nat n :: selector) = n"
  by (simp add: unat_of_nat)

lemma entry_lookup:
  assumes T: "table_entries (sels, names)" and len: "length sels < 2 ^ 32"
  shows "selector_name (sels, names) j = Some n \<longleftrightarrow> map_of sels n = Some j"
proof
  have names: "length names = Suc (length sels)" using T by (simp add: table_entries_def)
  assume "selector_name (sels, names) j = Some n"
  then have j: "j \<noteq> 0" "unat j < length names" and n: "names ! unat j = n"
    by (auto simp: selector_name_def split: if_splits)
  then obtain i where i: "unat j = Suc i"
    by (metis not0_implies_Suc unat_eq_zero)
  then have "sels ! i = (n, word_of_nat (Suc i))"
    using entry_nth [OF T, of i] j n names by simp
  moreover have "word_of_nat (Suc i) = j" by (simp flip: i)
  ultimately have "(n, j) \<in> set sels" using i j names by (metis Suc_less_eq nth_mem)
  then show "map_of sels n = Some j" using T by (simp add: table_entries_def)
next
  have names: "length names = Suc (length sels)" using T by (simp add: table_entries_def)
  assume "map_of sels n = Some j"
  then obtain i where i: "i < length sels" "sels ! i = (n, j)"
    by (metis in_set_conv_nth map_of_SomeD)
  then have "n = names ! Suc i" and j: "j = word_of_nat (Suc i)"
    using entry_nth [OF T i(1)] by auto
  moreover have "unat j = Suc i" unfolding j using i len by (subst unat_index) auto
  moreover have "j \<noteq> 0" using \<open>unat j = Suc i\<close> by auto
  ultimately show "selector_name (sels, names) j = Some n"
    using names i by (simp add: selector_name_def)
qed

lemma intern_new:
  assumes "table_entries (sels, names)" and "map_of sels n = None" and "length sels + 1 < 2 ^ 32"
  shows "table_entries (sels @ [(n, word_of_nat (length sels + 1))], names @ [n])"
  using assms by (auto simp: table_entries_def map_of_eq_None_iff)

lemma intern_cases:
  assumes "selectors_ok T" and "selectors_room T"
  obtains sels names where "register_static T = (sels, names)" and "sels \<noteq> []"
    and "table_entries (sels, names)" and "length sels + 1 < 2 ^ 32"
proof -
  obtain sels names where r: "register_static T = (sels, names)" by fastforce
  have "length sels + 1 < 2 ^ 32"
  proof (cases "fst T = []")
    case True
    then show ?thesis using r
      by (auto simp: register_static_def StaticSelectorNames_def split: prod.splits)
  next
    case False
    then show ?thesis using assms(2) r register_static_nonempty [OF False]
      by (simp add: selectors_room_def)
  qed
  then show ?thesis using that r register_static_ok [OF assms(1)] by simp
qed

lemma intern_result:
  assumes "register_static T = (sels, names)" and "table_entries (sels, names)"
    and "length sels + 1 < 2 ^ 32"
  shows "intern_selector n T = (case map_of sels n of
       Some k \<Rightarrow> (k, sels, names)
     | None \<Rightarrow> (word_of_nat (length sels + 1), sels @ [(n, word_of_nat (length sels + 1))], names @ [n]))"
proof (cases "map_of sels n")
  case None
  then have "n \<notin> fst ` set sels" by (simp add: map_of_eq_None_iff)
  then show ?thesis
    using None assms(1) by (simp add: intern_selector_def update_new_key Let_def)
next
  case (Some k)
  then have "selector_name (sels, names) k = Some n" using entry_lookup [of sels names] assms by simp
  then have "k \<noteq> 0" by (auto simp: selector_name_def split: if_splits)
  then show ?thesis using Some assms(1) by (simp add: intern_selector_def)
qed

lemma selector_name_append:
  "selector_name (sels, names) j = Some m \<Longrightarrow> selector_name (sels', names @ xs) j = Some m"
  by (auto simp: selector_name_def nth_append split: if_splits)

lemma selector_name_static:
  assumes "selectors_ok T" and "selector_name T j = Some m"
  shows "register_static T = T"
proof -
  have "T \<noteq> ([], [])" using assms(2) by (auto simp: selector_name_def split: if_splits)
  then show ?thesis using assms(1) by (auto simp: selectors_ok_def register_static_nonempty)
qed

interpretation sel_table: interner intern_selector selector_name selectors_ok selectors_room
proof unfold_locales
  fix T T' :: selector_table and n m :: string and k j :: selector
  assume ok: "selectors_ok T" and room: "selectors_room T"
  obtain sels names where r: "register_static T = (sels, names)" and ne: "sels \<noteq> []"
    and e: "table_entries (sels, names)" and len: "length sels + 1 < 2 ^ 32"
    using intern_cases [OF ok room] .
  note res = intern_result [OF r e len]
  note new = intern_new [OF e _ len]
  {
    assume i: "intern_selector n T = (k, T')"
    show "selectors_ok T'"
      using i ne e new unfolding res by (auto simp: selectors_ok_def split: option.splits)
    show "selector_name T' k = Some n"
    proof (cases "map_of sels n")
      case None
      then have "table_entries T'" "length (fst T') < 2 ^ 32" "map_of (fst T') n = Some k"
        using i new len unfolding res by (auto simp: map_add_Some_iff)
      then show ?thesis using entry_lookup [of "fst T'" "snd T'"] by simp
    next
      case (Some k')
      then show ?thesis using i entry_lookup [OF e] len unfolding res by simp
    qed
    show "selector_name T' j = Some m" if "selector_name T j = Some m"
    proof -
      have "selector_name (sels, names) j = Some m"
        using that r selector_name_static [OF ok that] by simp
      then show ?thesis
        using i unfolding res by (auto simp: selector_name_append split: option.splits)
    qed
  }
  show "intern_selector n T = (j, T)" if "selector_name T j = Some n"
  proof -
    have T: "T = (sels, names)" using r selector_name_static [OF ok that] by simp
    then have "map_of sels n = Some j" using that entry_lookup [OF e] len by simp
    then show ?thesis using res T by simp
  qed
qed

text \<open>
  Interning is a bijection between the names seen so far and their selectors: interning a
  second name yields the same selector exactly if it is the same name, and the first selector
  still denotes the first name afterwards.
\<close>

theorem selectors_injective:
  assumes "selectors_ok T" and "selectors_room T" and "intern_selector n T = (k, T')"
    and "selectors_room T'" and "intern_selector m T' = (j, T'')"
  shows "(j = k \<longleftrightarrow> m = n) \<and> selector_name T'' k = Some n"
proof -
  have "selector_name T'' k = Some n"
    using sel_table.intern_keeps [OF sel_table.intern_inv [OF assms(1-3)] assms(4,5)]
      sel_table.intern_name [OF assms(1-3)] by blast
  then show ?thesis using sel_table.intern_injective [OF assms] by blast
qed

lemma static_table_ok: "selectors_ok (register_static ([], []))"
  by (simp add: selectors_ok_def register_static_def table_entries_def StaticSelectorNames_def
      upt_rec)

lemma selectors_injective_witness:
  "fst (intern_selector ''inc'' (register_static ([], []))) = 17 \<and>
   selector_name (snd (intern_selector ''inc'' (register_static ([], [])))) 8 = Some ''add''"
proof -
  let ?T = "register_static ([], [])"
  have room: "selectors_room ?T"
    by (simp add: selectors_room_def register_static_def StaticSelectorNames_def)
  have add: "intern_selector ''add'' ?T = (8, ?T)" by code_simp
  have inc: "fst (intern_selector ''inc'' ?T) = 17" by code_simp
  obtain T'' where i: "intern_selector ''inc'' ?T = (17, T'')"
    using inc by (metis prod.collapse)
  show ?thesis
    using selectors_injective [OF static_table_ok room add room i] i by simp
qed

end
