(* ===== verification/Runtime.thy ===== *)
theory Runtime
  imports Selectors
begin

text \<open>
  The runtime's tables (\<open>runtime.cc\<close>): interned selectors, the class table, the built-in class
  structures, object creation and method lookup.
\<close>

section \<open>State\<close>

text \<open>
  What the program writes: diagnostics, the numbers and the bytes printed on one of the two
  output streams, and the calls that act on files.
\<close>

datatype stream = Stdout | Stderr

datatype event =
    PrintInt stream "64 word"
  | PrintBytes stream bytes
  | Diagnostic string
  | OpenFile bytes
  | CloseFile "64 word"
  | WriteFile "64 word" bytes

record runtime = heap +
  classes :: "addr \<rightharpoonup> cls"
  classTable :: "(string \<times> addr) list"
  selectors :: "(string \<times> selector) list"
  selNames :: "string list"
  console :: "event list"
  input :: "64 word \<Rightarrow> bytes"       \<comment> \<open>what is still to be read from a descriptor\<close>
  cur_jit_function :: node

definition emit :: "event \<Rightarrow> (unit, 'a runtime_scheme) sem" where
  "emit ev = modify (\<lambda>s. s\<lparr>console := console s @ [ev]\<rparr>)"

section \<open>Selectors\<close>

definition lookupSelector :: "string \<Rightarrow> (selector, 'a runtime_scheme) sem" where
  "lookupSelector str = (\<lambda>s. case intern_selector str (selectors s, selNames s) of
     (sel, sels, names) \<Rightarrow> Inr (sel, s\<lparr>selectors := sels, selNames := names\<rparr>))"

section \<open>Classes\<close>

definition native_method :: "selector \<Rightarrow> nat \<Rightarrow> builtin \<Rightarrow> methodStruct" where
  "native_method sel n b = \<lparr>m_selector = sel, m_args = n, m_function = Some (Native b), m_AST = None\<rparr>"

definition FileMethods :: "methodStruct list" where
  "FileMethods =
     [native_method sel_open 0 B_FileOpen, native_method sel_close 0 B_FileClose,
      native_method sel_readline 0 B_FileReadLine, native_method sel_write 0 B_FileWrite]"

definition StringMethods :: "methodStruct list" where
  "StringMethods =
     [native_method sel_length 0 B_StringLength, native_method sel_charAt 1 B_StringCharAt,
      native_method sel_dump 0 B_StringDump, native_method sel_print 0 B_StringPrint,
      native_method sel_add 1 B_StringAdd, native_method sel_compare 1 B_StringCmp]"

definition NumberMethods :: "methodStruct list" where
  "NumberMethods = [native_method sel_dump 0 B_NumberDump, native_method sel_print 0 B_NumberPrint]"

definition ArrayMethods :: "methodStruct list" where
  "ArrayMethods =
     [native_method sel_length 0 B_ArrayLength, native_method sel_at 1 B_ArrayAt,
      native_method sel_atPut 2 B_ArrayAtPut]"

definition root_class :: "string \<Rightarrow> methodStruct list \<Rightarrow> string list \<Rightarrow> cls" where
  "root_class nm ms ivs =
     \<lparr>superclass = 0, className = nm, methodList = ms, indexedIVarNames = ivs\<rparr>"

definition static_StringClass :: cls where
  "static_StringClass = root_class ''String'' StringMethods [''length'']"

definition static_FileClass :: cls where
  "static_FileClass = root_class ''File'' FileMethods [''fd'']"

definition static_ArrayClass :: cls where
  "static_ArrayClass = root_class ''Array'' ArrayMethods [''length'', ''bufferSize'', ''buffer'']"

definition static_SmallIntClass :: cls where
  "static_SmallIntClass = root_class ''Number'' NumberMethods []"

definition static_ClosureClass :: cls where
  "static_ClosureClass = root_class ''Closure'' [] []"

definition static_classes :: "addr \<rightharpoonup> cls" where
  "static_classes = [StringClass \<mapsto> static_StringClass, FileClass \<mapsto> static_FileClass,
     ArrayClass \<mapsto> static_ArrayClass, SmallIntClass \<mapsto> static_SmallIntClass,
     ClosureClass \<mapsto> static_ClosureClass]"

definition registerClasses :: "(string \<times> addr) list \<Rightarrow> (string \<times> addr) list" where
  "registerClasses ct =
     (if ct = [] then [(''String'', StringClass), (''Array'', ArrayClass), (''File'', FileClass)]
      else ct)"

definition registerClass :: "string \<Rightarrow> addr \<Rightarrow> (unit, 'a runtime_scheme) sem" where
  "registerClass nm c =
     modify (\<lambda>s. s\<lparr>classTable := AList.update nm c (registerClasses (classTable s))\<rparr>)"

text \<open>\<open>classTable[name]\<close> inserts a null pointer for a name that is not there.\<close>

definition lookupClass :: "string \<Rightarrow> (addr, 'a runtime_scheme) sem" where
  "lookupClass nm = (\<lambda>s.
     let ct = registerClasses (classTable s)
     in case map_of ct nm of
          Some c \<Rightarrow> Inr (c, s\<lparr>classTable := ct\<rparr>)
        | None \<Rightarrow> Inr (0, s\<lparr>classTable := AList.update nm 0 ct\<rparr>))"

definition class_at :: "addr \<Rightarrow> (cls, 'a runtime_scheme) sem" where
  "class_at c = (\<lambda>s. case classes s c of
       Some k \<Rightarrow> Inr (k, s)
     | None \<Rightarrow> Inl (if c = 0 then NullDeref else BadPointer))"

definition newObject :: "env \<Rightarrow> addr \<Rightarrow> (obj, 'a runtime_scheme) sem" where
  "newObject E c =
     bind (class_at c) (\<lambda>k.
     alloc E (ObjBlock c (replicate (length (indexedIVarNames k)) 0)))"

section \<open>Method lookup\<close>

text \<open>\<open>isInteger(obj) ? &SmallIntClass : obj->isa\<close>, as the trampolines compute it.\<close>

definition class_of_receiver :: "obj \<Rightarrow> (addr, 'a runtime_scheme) sem" where
  "class_of_receiver ob = (if isInteger ob then return SmallIntClass else isa ob)"

definition getClassFor :: "obj \<Rightarrow> (addr, 'a runtime_scheme) sem" where
  "getClassFor ob =
     (if ob = 0 then return 0
      else if isInteger ob then return SmallIntClass
      else isa ob)"

fun find_selector :: "selector \<Rightarrow> methodStruct list \<Rightarrow> nat option" where
  "find_selector sel [] = None"
| "find_selector sel (m # ms) =
     (if m_selector m = sel then Some 0 else map_option Suc (find_selector sel ms))"

text \<open>
  The walk up the class hierarchy.  The result is a \<open>Method*\<close> as the class it was found in and
  its index there; \<open>Some (Inr None)\<close> is the null pointer, \<open>None\<close> a walk that never ends.
\<close>

partial_function (option) walk_classes ::
  "(addr \<rightharpoonup> cls) \<Rightarrow> selector \<Rightarrow> addr \<Rightarrow> (fault + (addr \<times> nat) option) option" where
  "walk_classes K sel c =
     (if c = 0 then Some (Inr None)
      else case K c of
        None \<Rightarrow> Some (Inl BadPointer)
      | Some k \<Rightarrow> (case find_selector sel (methodList k) of
            Some i \<Rightarrow> Some (Inr (Some (c, i)))
          | None \<Rightarrow> walk_classes K sel (superclass k)))"

declare walk_classes.simps [code]

definition methodForSelector ::
  "addr \<Rightarrow> selector \<Rightarrow> ((addr \<times> nat) option, 'a runtime_scheme) sem" where
  "methodForSelector c sel = (\<lambda>s. case walk_classes (classes s) sel c of
       None \<Rightarrow> Inl Timeout
     | Some (Inl e) \<Rightarrow> Inl e
     | Some (Inr r) \<Rightarrow> Inr (r, s))"

definition method_at :: "addr \<times> nat \<Rightarrow> (methodStruct, 'a runtime_scheme) sem" where
  "method_at p = bind (class_at (fst p)) (\<lambda>k.
     if snd p < length (methodList k) then return (methodList k ! snd p) else fail OutOfBounds)"

definition set_method :: "addr \<times> nat \<Rightarrow> methodStruct \<Rightarrow> (unit, 'a runtime_scheme) sem" where
  "set_method p m = bind (class_at (fst p)) (\<lambda>k.
     if snd p < length (methodList k)
     then modify (\<lambda>s. s\<lparr>classes := (classes s)(fst p \<mapsto> k\<lparr>methodList := (methodList k)[snd p := m]\<rparr>)\<rparr>)
     else fail OutOfBounds)"

text \<open>
  A \<open>CompiledMethod*\<close>: the address of the \<open>function\<close> field of a method structure, or the address
  of the code of \<open>invalidMethod\<close>, which \<open>ptrToCompiledMethodForSelector\<close> casts to this type.
  Loading a function pointer through the latter reads instruction bytes.
\<close>

datatype method_ptr =
    MethodSlot "addr \<times> nat"
  | InvalidMethodCode

definition ptrToCompiledMethodForSelector ::
  "obj \<Rightarrow> selector \<Rightarrow> (method_ptr, 'a runtime_scheme) sem" where
  "ptrToCompiledMethodForSelector ob sel =
     bind (getClassFor ob) (\<lambda>c.
     if c = 0 then return InvalidMethodCode
     else bind (methodForSelector c sel) (\<lambda>mth.
       case mth of None \<Rightarrow> return InvalidMethodCode | Some p \<Rightarrow> return (MethodSlot p)))"

definition load_method_ptr :: "method_ptr \<Rightarrow> (code option, 'a runtime_scheme) sem" where
  "load_method_ptr mp = (case mp of
       MethodSlot p \<Rightarrow> bind (method_at p) (\<lambda>m. return (m_function m))
     | InvalidMethodCode \<Rightarrow> fail CodeBytesCalled)"

definition compiledMethodForSelector ::
  "obj \<Rightarrow> selector \<Rightarrow> (code option, 'a runtime_scheme) sem" where
  "compiledMethodForSelector ob sel =
     bind (ptrToCompiledMethodForSelector ob sel) load_method_ptr"

text \<open>The error path that a failed lookup is meant to take.\<close>

definition invalidMethod :: "obj \<Rightarrow> selector \<Rightarrow> (obj, 'a runtime_scheme) sem" where
  "invalidMethod ob sel =
     bind (gets selNames) (\<lambda>names.
     if length names \<le> unat sel then fail OutOfBounds
     else if ob = 0
     then seq (emit (Diagnostic (''ERROR: method '' @ names ! unat sel @ '' called on null object.'')))
            (return 0)
     else bind (class_of_receiver ob) (\<lambda>c.
          bind (class_at c) (\<lambda>k.
          seq (emit (Diagnostic (''ERROR: '' @ className k @
                 '' does not respond to selector '' @ names ! unat sel @ ''.'')))
            (return 0))))"

lemma emit_apply [sem_simps]: "emit ev s = Inr ((), s\<lparr>console := console s @ [ev]\<rparr>)"
  by (simp add: emit_def sem_simps)

lemma class_at_apply [sem_simps]:
  "class_at c s = (case classes s c of Some k \<Rightarrow> Inr (k, s)
     | None \<Rightarrow> Inl (if c = 0 then NullDeref else BadPointer))"
  by (simp add: class_at_def)

end
