(* ===== verification/Syntax.thy ===== *)
theory Syntax
  imports Heap
begin

text \<open>
  The syntax tree (\<open>ast.hh\<close>) and the construction of string literals.

  A node of the tree is named by its address, so that \<open>this == ast_node\<close> is equality of
  addresses.  The fields of the tree that a run changes (cached values, type assumptions,
  execution counts) are not in the tree but in tables indexed by node.
\<close>

section \<open>Nodes\<close>

datatype binop =
    Multiply | Divide | Add | Subtract
  | CmpEq | CmpNe | CmpLt | CmpGt | CmpLE | CmpGE

datatype expr =
    Number node "64 word"
  | StringLiteral node string
  | BinOp node binop expr expr
  | VarRef node string
  | Call node expr "string option" "expr list"
  | ClosureExpr cdecl
  | NewExpr node string
and cdecl = ClosureDecl (decl_node: node) (decl_name: string) (decl_params: "string list")
    (decl_body: "stmt list")
and stmt =
    ExprStmt expr
  | Assignment node string expr
  | Decl node string "expr option"
  | Return node expr
  | IfStatement node expr "stmt list"
  | WhileLoop node expr "stmt list"
  | ClassDecl node "string option" string "string list" "cdecl list"

fun expr_node :: "expr \<Rightarrow> node" where
  "expr_node (Number n v) = n"
| "expr_node (StringLiteral n st) = n"
| "expr_node (BinOp n op l r) = n"
| "expr_node (VarRef n x) = n"
| "expr_node (Call n callee m args) = n"
| "expr_node (ClosureExpr d) = decl_node d"
| "expr_node (NewExpr n c) = n"

fun isComparison :: "binop \<Rightarrow> bool" where
  "isComparison Multiply = False"
| "isComparison Divide = False"
| "isComparison Add = False"
| "isComparison Subtract = False"
| "isComparison _ = True"

text \<open>\<open>methodName\<close> is null for comparisons, which never send a message.\<close>

fun methodName :: "binop \<Rightarrow> string option" where
  "methodName Multiply = Some ''mul''"
| "methodName Divide = Some ''div''"
| "methodName Add = Some ''add''"
| "methodName Subtract = Some ''sub''"
| "methodName _ = None"

fun isConstantExpression :: "expr \<Rightarrow> bool" where
  "isConstantExpression (Number n v) = True"
| "isConstantExpression (StringLiteral n st) = True"
| "isConstantExpression (BinOp n op l r) = (isConstantExpression l \<and> isConstantExpression r)"
| "isConstantExpression _ = False"

text \<open>
  The addresses of all nodes of a statement or expression that a search for a node can meet.
  Methods of a class declaration are not searched.
\<close>

primrec nodes_expr :: "expr \<Rightarrow> node set"
  and nodes_exprs :: "expr list \<Rightarrow> node set"
  and nodes_init :: "expr option \<Rightarrow> node set"
  and nodes_decl :: "cdecl \<Rightarrow> node set"
  and nodes_stmt :: "stmt \<Rightarrow> node set"
  and nodes_stmts :: "stmt list \<Rightarrow> node set"
where
  "nodes_expr (Number n v) = {n}"
| "nodes_expr (StringLiteral n st) = {n}"
| "nodes_expr (BinOp n op l r) = insert n (nodes_expr l \<union> nodes_expr r)"
| "nodes_expr (VarRef n x) = {n}"
| "nodes_expr (Call n callee m args) = insert n (nodes_expr callee \<union> nodes_exprs args)"
| "nodes_expr (ClosureExpr d) = nodes_decl d"
| "nodes_expr (NewExpr n c) = {n}"
| "nodes_exprs [] = {}"
| "nodes_exprs (a # as) = nodes_expr a \<union> nodes_exprs as"
| "nodes_init None = {}"
| "nodes_init (Some e) = nodes_expr e"
| "nodes_decl (ClosureDecl n nm ps body) = insert n (nodes_stmts body)"
| "nodes_stmt (ExprStmt e) = nodes_expr e"
| "nodes_stmt (Assignment n x e) = insert n (nodes_expr e)"
| "nodes_stmt (Decl n x init) = insert n (nodes_init init)"
| "nodes_stmt (Return n e) = insert n (nodes_expr e)"
| "nodes_stmt (IfStatement n c body) = insert n (nodes_expr c \<union> nodes_stmts body)"
| "nodes_stmt (WhileLoop n c body) = insert n (nodes_expr c \<union> nodes_stmts body)"
| "nodes_stmt (ClassDecl n nm sn ivs ms) = {n}"
| "nodes_stmts [] = {}"
| "nodes_stmts (s # ss) = nodes_stmt s \<union> nodes_stmts ss"

text \<open>Induction over the whole syntax, the rule of every traversal of the tree.\<close>

lemmas syntax_induct
  [case_names Number StringLiteral BinOp VarRef Call ClosureExpr NewExpr ClosureDecl ExprStmt
     Assignment Decl Return IfStatement WhileLoop ClassDecl no_expr more_exprs no_stmt more_stmts
     no_init init] =
  nodes_expr_nodes_exprs_nodes_init_nodes_decl_nodes_stmt_nodes_stmts.induct [THEN conjunct1]
  nodes_expr_nodes_exprs_nodes_init_nodes_decl_nodes_stmt_nodes_stmts.induct [THEN conjunct2, THEN conjunct1]
  nodes_expr_nodes_exprs_nodes_init_nodes_decl_nodes_stmt_nodes_stmts.induct [THEN conjunct2, THEN conjunct2, THEN conjunct1]
  nodes_expr_nodes_exprs_nodes_init_nodes_decl_nodes_stmt_nodes_stmts.induct [THEN conjunct2, THEN conjunct2, THEN conjunct2, THEN conjunct1]
  nodes_expr_nodes_exprs_nodes_init_nodes_decl_nodes_stmt_nodes_stmts.induct [THEN conjunct2, THEN conjunct2, THEN conjunct2, THEN conjunct2, THEN conjunct1]
  nodes_expr_nodes_exprs_nodes_init_nodes_decl_nodes_stmt_nodes_stmts.induct [THEN conjunct2, THEN conjunct2, THEN conjunct2, THEN conjunct2, THEN conjunct2]

section \<open>String literals\<close>

text \<open>
  \<open>StringLiteral::construct\<close> replaces the two characters backslash and \<open>n\<close> by a newline, each
  time searching from the start of the string.  \<open>find_escape\<close> is the call of \<open>find\<close>.
\<close>

abbreviation backslash :: char where "backslash \<equiv> CHR 0x5C"
abbreviation newline :: char where "newline \<equiv> CHR 0x0A"

fun find_escape :: "string \<Rightarrow> nat option" where
  "find_escape (c # d # cs) =
     (if c = backslash \<and> d = CHR ''n'' then Some 0 else map_option Suc (find_escape (d # cs)))"
| "find_escape _ = None"

lemma find_escape_bound: "find_escape st = Some i \<Longrightarrow> i + 2 \<le> length st"
  by (induction st arbitrary: i rule: find_escape.induct) (auto split: if_splits)

function unescape :: "string \<Rightarrow> string" where
  "unescape st = (case find_escape st of
       None \<Rightarrow> st
     | Some i \<Rightarrow> unescape (take i st @ newline # drop (i + 2) st))"
  by pat_completeness auto
termination
  by (relation "measure length") (auto dest: find_escape_bound)

declare unescape.simps [simp del]

text \<open>A single pass from left to right, the specification of \<open>unescape\<close>.\<close>

fun replace_escapes :: "string \<Rightarrow> string" where
  "replace_escapes (c # d # cs) =
     (if c = backslash \<and> d = CHR ''n'' then newline # replace_escapes cs
      else c # replace_escapes (d # cs))"
| "replace_escapes st = st"

lemma replace_escapes_newline [simp]:
  "replace_escapes (newline # cs) = newline # replace_escapes cs"
  by (cases cs) auto

lemma replace_escapes_step:
  "find_escape st = Some i \<Longrightarrow>
     replace_escapes st = replace_escapes (take i st @ newline # drop (i + 2) st)"
proof (induction st arbitrary: i rule: find_escape.induct)
  case (1 c d cs)
  show ?case
  proof (cases "c = backslash \<and> d = CHR ''n''")
    case True
    with 1 show ?thesis by simp
  next
    case False
    then obtain j where j: "find_escape (d # cs) = Some j" and i: "i = Suc j"
      using 1(2) by (auto split: if_splits)
    have step: "replace_escapes (d # cs) = replace_escapes (take j (d # cs) @ newline # drop (j + 2) (d # cs))"
      using 1(1) [OF False j] .
    show ?thesis using False step i by (cases j) auto
  qed
qed auto

lemma replace_escapes_none: "find_escape st = None \<Longrightarrow> replace_escapes st = st"
  by (induction st rule: find_escape.induct) (auto split: if_splits)

text \<open>
  The repeated search-and-replace of \<open>StringLiteral::construct\<close> ends and equals one pass
  over the literal that replaces each backslash followed by \<open>n\<close>.
\<close>

theorem unescape_eq: "unescape st = replace_escapes st"
proof (induction st rule: unescape.induct)
  case (1 st)
  then show ?case
    by (cases "find_escape st")
      (simp_all add: unescape.simps [of st] replace_escapes_none replace_escapes_step)
qed

end
