(* ===== verification/Arithmetic.thy ===== *)
theory Arithmetic
  imports Syntax
begin

text \<open>
  Binary operations on small integers: the operator classes of \<open>ast.hh\<close>, the integer branch of
  \<open>BinOpBase::performOp\<close> (\<open>interpreter.cc\<close>), the integer branches of \<open>mysoreScriptAdd\<close> and its
  siblings (\<open>runtime.cc\<close>), and the comparisons that \<open>compileCompare\<close> (\<open>compiler.cc\<close>) emits.
\<close>

section \<open>Operations\<close>

definition fits64 :: "int \<Rightarrow> bool" where
  "fits64 i \<longleftrightarrow> - (2 ^ 63) \<le> i \<and> i < 2 ^ 63"

definition checked64 :: "int \<Rightarrow> fault + 64 word" where
  "checked64 i = (if fits64 i then Inr (word_of_int i) else Inl SignedOverflow)"

fun evaluateWithIntegers :: "binop \<Rightarrow> 64 word \<Rightarrow> 64 word \<Rightarrow> fault + 64 word" where
  "evaluateWithIntegers Multiply l r = checked64 (sint l * sint r)"
| "evaluateWithIntegers Divide l r =
     (if sint r = 0 then Inl DivideTrap else checked64 (sint l sdiv sint r))"
| "evaluateWithIntegers Add l r = checked64 (sint l + sint r)"
| "evaluateWithIntegers Subtract l r = checked64 (sint l - sint r)"
| "evaluateWithIntegers CmpEq l r = Inr (of_bool (sint l = sint r))"
| "evaluateWithIntegers CmpNe l r = Inr (of_bool (sint l \<noteq> sint r))"
| "evaluateWithIntegers CmpLt l r = Inr (of_bool (sint l < sint r))"
| "evaluateWithIntegers CmpGt l r = Inr (of_bool (sint l > sint r))"
| "evaluateWithIntegers CmpLE l r = Inr (of_bool (sint l \<le> sint r))"
| "evaluateWithIntegers CmpGE l r = Inr (of_bool (sint l \<ge> sint r))"

text \<open>
  The branch of \<open>performOp\<close> for comparisons and for two integers: both operands are shifted
  without looking at their tags.
\<close>

definition integerOp :: "binop \<Rightarrow> obj \<Rightarrow> obj \<Rightarrow> fault + obj" where
  "integerOp op LHS RHS = (case evaluateWithIntegers op (asr3 LHS) (asr3 RHS) of
       Inl e \<Rightarrow> Inl e
     | Inr i \<Rightarrow> createSmallInteger i)"

text \<open>The branch of \<open>mysoreScriptAdd\<close>, \<open>Sub\<close>, \<open>Mul\<close> and \<open>Div\<close> for an integer on the left.\<close>

definition helperOp :: "binop \<Rightarrow> obj \<Rightarrow> obj \<Rightarrow> fault + obj" where
  "helperOp op lhs rhs = (case getInteger lhs of Inl e \<Rightarrow> Inl e
     | Inr l \<Rightarrow> (case getInteger rhs of Inl e \<Rightarrow> Inl e
     | Inr r \<Rightarrow> (case evaluateWithIntegers op l r of Inl e \<Rightarrow> Inl e
     | Inr i \<Rightarrow> createSmallInteger i)))"

text \<open>
  The predicate each comparison class passes to \<open>compileCompare\<close>, as the signed comparison of
  the two 64-bit operands, and the value the emitted instructions leave: the comparison's bit,
  widened and tagged.
\<close>

fun icmp :: "binop \<Rightarrow> obj \<Rightarrow> obj \<Rightarrow> bool" where
  "icmp CmpEq l r = (l = r)"
| "icmp CmpNe l r = (l \<noteq> r)"
| "icmp CmpLt l r = (sint l < sint r)"
| "icmp CmpGt l r = (sint l > sint r)"
| "icmp CmpLE l r = (sint l \<le> sint r)"
| "icmp CmpGE l r = (sint l \<ge> sint r)"
| "icmp _ l r = False"

definition compileCompare :: "binop \<Rightarrow> obj \<Rightarrow> obj \<Rightarrow> obj" where
  "compileCompare op LHS RHS = compileSmallInt (of_bool (icmp op LHS RHS))"

section \<open>Facts\<close>

lemma createSmallInteger_bool: "createSmallInteger (of_bool b) = Inr (compileSmallInt (of_bool b))"
proof -
  have "asr3 (push_bit 3 (of_bool b)) = of_bool b"
    by (subst asr3_shl3_iff) (cases b; simp)
  then show ?thesis by (simp add: createSmallInteger_def compileSmallInt_def)
qed

lemma compileSmallInt_bool_eq [simp]:
  "compileSmallInt (of_bool b) = compileSmallInt (of_bool c) \<longleftrightarrow> b = c"
  by (cases b; cases c) (simp_all add: compileSmallInt_def)

lemma sint_split: "sint (w :: 64 word) = 8 * sint (asr3 w) + sint w mod 8"
  by (simp add: sint_asr3)

lemma sint_mod8: "sint (w :: 64 word) mod 8 = uint (take_bit 3 w)"
proof -
  have "uint (take_bit 3 w) = uint w mod 8"
    by (simp only: unsigned_take_bit_eq) (simp add: take_bit_eq_mod)
  moreover have "sint w mod 8 = uint w mod 8"
  proof -
    have "sint w mod 2 ^ 64 = uint w" by (simp add: uint_sint take_bit_eq_mod)
    then have "sint w mod 2 ^ 64 mod 8 = uint w mod 8" by simp
    then show ?thesis by (simp add: mod_mod_cancel)
  qed
  ultimately show ?thesis by simp
qed

lemma integerOp_compare:
  assumes "isComparison op" and "take_bit 3 LHS = take_bit 3 RHS"
  shows "evaluateWithIntegers op (asr3 LHS) (asr3 RHS) = Inr (of_bool (icmp op LHS RHS))"
proof -
  have m: "sint LHS mod 8 = sint RHS mod 8" using assms(2) by (simp add: sint_mod8)
  have L: "sint LHS = 8 * sint (asr3 LHS) + sint RHS mod 8"
    using sint_split [of LHS] m by simp
  have R: "sint RHS = 8 * sint (asr3 RHS) + sint RHS mod 8" by (rule sint_split)
  have eq: "LHS = RHS \<longleftrightarrow> sint (asr3 LHS) = sint (asr3 RHS)"
    using L R by (metis signed_word_eqI)
  have lt: "sint LHS < sint RHS \<longleftrightarrow> sint (asr3 LHS) < sint (asr3 RHS)"
    and le: "sint LHS \<le> sint RHS \<longleftrightarrow> sint (asr3 LHS) \<le> sint (asr3 RHS)"
    and gt: "sint RHS < sint LHS \<longleftrightarrow> sint (asr3 RHS) < sint (asr3 LHS)"
    and ge: "sint RHS \<le> sint LHS \<longleftrightarrow> sint (asr3 RHS) \<le> sint (asr3 LHS)"
    using L R by linarith+
  show ?thesis using assms(1) by (cases op) (simp_all add: eq lt le gt ge)
qed

lemma asr3_zero_iff: "asr3 w = 0 \<longleftrightarrow> drop_bit 3 w = 0"
proof
  assume "asr3 w = 0"
  then have a: "\<not> bit (signed_drop_bit 3 w) n" for n by (simp add: asr3_def)
  show "drop_bit 3 w = 0"
  proof (rule bit_word_eqI)
    fix n :: nat
    assume "n < LENGTH(64)"
    then show "bit (drop_bit 3 w) n \<longleftrightarrow> bit (0 :: 64 word) n"
      using a [of n] by (auto simp: bit_simps dest: bit_imp_le_length split: if_splits)
  qed
next
  assume "drop_bit 3 w = 0"
  then have a: "\<not> bit (drop_bit 3 w) n" for n by simp
  show "asr3 w = 0"
    unfolding asr3_def
  proof (rule bit_word_eqI)
    fix n :: nat
    assume "n < LENGTH(64)"
    then show "bit (signed_drop_bit 3 w) n \<longleftrightarrow> bit (0 :: 64 word) n"
      using a [of n] a [of 60] by (auto simp: bit_simps split: if_splits)
  qed
qed

lemma needsGC_literalObject [simp]: "\<not> needsGC (literalObject i)"
  using isInteger_literalObject [of i] by (simp add: needsGC_def isInteger_def)

lemma interpretedTruth_literalObject [simp]:
  "small i \<Longrightarrow> interpretedTruth (literalObject i) \<longleftrightarrow> i \<noteq> 0"
  by (simp add: truth_drop_bit compiledTruth_def asr3_zero_iff [symmetric] asr3_literalObject)

lemma tag_eval:
  "isInteger (numeral n) \<longleftrightarrow> numeral n AND 7 = (1 :: obj)"
  "needsGC (numeral n) \<longleftrightarrow> numeral n \<noteq> (0 :: obj) \<and> numeral n AND 7 = (0 :: obj)"
  "\<not> isInteger 0" "\<not> needsGC 0"
  by (simp_all add: isInteger_def needsGC_def)

section \<open>Properties\<close>

text \<open>
  C34. Comparisons mean the same in interpreted and in compiled code for two values of the same
  kind, two integers or two objects (or null): the interpreter never fails on them and yields
  the word that the emitted comparison leaves.
\<close>

theorem comparison_agrees:
  assumes "isComparison op" and "LHS AND 7 = RHS AND 7"
  shows "integerOp op LHS RHS = Inr (compileCompare op LHS RHS)"
proof -
  have "take_bit 3 LHS = take_bit 3 RHS" using assms(2) by (simp add: and7_take_bit)
  from integerOp_compare [OF assms(1) this] show ?thesis
    by (simp add: integerOp_def createSmallInteger_bool compileCompare_def)
qed

lemma comparison_agrees_witness:
  "integerOp CmpLt (literalObject (- 3)) (literalObject 4) =
     Inr (compileCompare CmpLt (literalObject (- 3)) (literalObject 4))"
proof (rule comparison_agrees)
  show "isComparison CmpLt" by simp
  show "literalObject (- 3) AND 7 = literalObject 4 AND 7" by (simp add: literalObject_def)
qed

text \<open>
  For values of different kinds the two disagree about equality exactly when the operands
  differ in nothing but the tag: then the interpreter calls them equal, because it compares the
  shifted words, and compiled code does not.
\<close>

theorem equality_disagrees_iff:
  "integerOp CmpEq LHS RHS \<noteq> Inr (compileCompare CmpEq LHS RHS) \<longleftrightarrow>
     asr3 LHS = asr3 RHS \<and> LHS AND 7 \<noteq> RHS AND 7"
proof -
  have "sint (asr3 LHS) = sint (asr3 RHS) \<longleftrightarrow> asr3 LHS = asr3 RHS"
    by (auto intro: signed_word_eqI)
  then have "integerOp CmpEq LHS RHS = Inr (compileSmallInt (of_bool (asr3 LHS = asr3 RHS)))"
    by (simp add: integerOp_def createSmallInteger_bool)
  moreover have "asr3 LHS = asr3 RHS \<and> LHS AND 7 = RHS AND 7 \<longleftrightarrow> LHS = RHS"
  proof
    assume a: "asr3 LHS = asr3 RHS \<and> LHS AND 7 = RHS AND 7"
    then have "sint LHS mod 8 = sint RHS mod 8" by (simp add: sint_mod8 and7_take_bit)
    then have "sint LHS = sint RHS" using a sint_split [of LHS] sint_split [of RHS] by simp
    then show "LHS = RHS" by (rule signed_word_eqI)
  qed simp
  ultimately show ?thesis by (auto simp: compileCompare_def)
qed

text \<open>The mathematical meaning of an operator on integers, where it has one.\<close>

fun exact_op :: "binop \<Rightarrow> int \<Rightarrow> int \<Rightarrow> int option" where
  "exact_op Multiply x y = Some (x * y)"
| "exact_op Divide x y = (if y = 0 then None else Some (x sdiv y))"
| "exact_op Add x y = Some (x + y)"
| "exact_op Subtract x y = Some (x - y)"
| "exact_op _ x y = None"

lemma checked64_small:
  "(case checked64 i of Inl e \<Rightarrow> Inl e | Inr w \<Rightarrow> createSmallInteger w) = Inr ob \<longleftrightarrow>
     - (2 ^ 60) \<le> i \<and> i < 2 ^ 60 \<and> isInteger ob \<and> sint (asr3 ob) = i"
proof (cases "fits64 i")
  case True
  then have w: "sint (word_of_int i :: 64 word) = i"
    unfolding sint_sbintrunc' by (intro signed_take_bit_int_eq_self) (simp_all add: fits64_def)
  have "getInteger ob = Inr (word_of_int i) \<longleftrightarrow> isInteger ob \<and> sint (asr3 ob) = i"
    using w by (auto simp: getInteger_def intro: signed_word_eqI)
  then show ?thesis using True w
    by (auto simp: checked64_def createSmallInteger_eq small_def getInteger_literalObject
        asr3_literalObject literalObject_asr3 dest: literalObject_asr3)
next
  case False
  then show ?thesis by (auto simp: checked64_def fits64_def)
qed

lemma arithmetic_cases:
  assumes "\<not> isComparison op"
  shows "evaluateWithIntegers op l r = (case exact_op op (sint l) (sint r) of
      None \<Rightarrow> Inl DivideTrap | Some i \<Rightarrow> checked64 i)"
  using assms by (cases op) auto

text \<open>
  C31. Arithmetic on two integers is exact or faults, in the interpreter and in the helper
  functions of compiled code alike: both return the object of the mathematical result, division
  rounding towards zero, exactly if that result exists and is a 61-bit integer.
\<close>

theorem arithmetic_exact:
  assumes "isInteger LHS" and "isInteger RHS" and "\<not> isComparison op"
  shows "helperOp op LHS RHS = integerOp op LHS RHS \<and>
    (integerOp op LHS RHS = Inr ob \<longleftrightarrow>
      (\<exists>i. exact_op op (sint (asr3 LHS)) (sint (asr3 RHS)) = Some i \<and>
         - (2 ^ 60) \<le> i \<and> i < 2 ^ 60 \<and> isInteger ob \<and> sint (asr3 ob) = i))"
proof -
  have "helperOp op LHS RHS = integerOp op LHS RHS"
    using assms(1,2) by (simp add: helperOp_def integerOp_def getInteger_def)
  moreover have "integerOp op LHS RHS = Inr ob \<longleftrightarrow>
      (\<exists>i. exact_op op (sint (asr3 LHS)) (sint (asr3 RHS)) = Some i \<and>
         - (2 ^ 60) \<le> i \<and> i < 2 ^ 60 \<and> isInteger ob \<and> sint (asr3 ob) = i)"
    unfolding integerOp_def arithmetic_cases [OF assms(3)]
    by (cases "exact_op op (sint (asr3 LHS)) (sint (asr3 RHS))") (simp_all add: checked64_small)
  ultimately show ?thesis by blast
qed

lemma arithmetic_exact_witness:
  "integerOp Divide (literalObject (- 7)) (literalObject 2) = Inr (literalObject (- 3))"
proof -
  have i: "isInteger (literalObject v)" for v by (simp add: literalObject_def)
  have a: "sint (asr3 (literalObject (- 7))) = - 7" "sint (asr3 (literalObject 2)) = 2"
    "sint (asr3 (literalObject (- 3))) = - 3"
    by (simp_all add: literalObject_def sint_asr3)
  show ?thesis
    using arithmetic_exact [OF i i, of Divide "- 7" 2 "literalObject (- 3)"] a i by simp
qed

text \<open>
  A condition is taken by the interpreter, which masks the tag bits, exactly if compiled
  code, which shifts them out, takes it; both take it for every value but null and zero.
\<close>

theorem truth_agrees:
  "interpretedTruth cond = compiledTruth cond \<and>
   (compiledTruth cond \<longleftrightarrow> asr3 cond \<noteq> 0)"
  by (simp add: truth_drop_bit compiledTruth_def asr3_zero_iff)

end
