(* ===== verification/Primitives.thy ===== *)
theory Primitives
  imports Runtime Arithmetic
begin

text \<open>
  The methods of the built-in classes \<open>File\<close>, \<open>String\<close>, \<open>Number\<close> and \<open>Array\<close> (\<open>runtime.cc\<close>).
  Each C++ structure is a view of a block: \<open>String\<close> of a string block or of the one-slot object
  that \<open>new String\<close> makes, \<open>Array\<close> of an object with at least three slots, \<open>File\<close> of one with a
  slot that holds the bare descriptor.
\<close>

section \<open>Views\<close>

definition as_string :: "addr \<Rightarrow> (string_obj, 'a runtime_scheme) sem" where
  "as_string a = bind (block_at a) (\<lambda>b. case b of
       StrBlock st \<Rightarrow> return st
     | ObjBlock c (l # vs) \<Rightarrow> return \<lparr>str_length = l, characters = []\<rparr>
     | _ \<Rightarrow> fail BadPointer)"

text \<open>The first \<open>getInteger(length)\<close> bytes of a string.\<close>

definition string_bytes :: "string_obj \<Rightarrow> (bytes, 's) sem" where
  "string_bytes st = bind (lift (getInteger (str_length st))) (\<lambda>len.
     if 0 \<le> sint len \<and> nat (sint len) \<le> length (characters st)
     then return (take (nat (sint len)) (characters st))
     else fail OutOfBounds)"

text \<open>
  The guard that \<open>FileOpen\<close>, \<open>FileWrite\<close>, \<open>StringAdd\<close> and \<open>StringCmp\<close> put on an argument: not
  null, not an integer, an instance of \<open>String\<close> itself.
\<close>

definition is_string_arg :: "obj \<Rightarrow> (bool, 'a runtime_scheme) sem" where
  "is_string_arg ob =
     (if ob = 0 \<or> isInteger ob then return False
      else bind (isa ob) (\<lambda>c. return (c = StringClass)))"

definition new_string :: "env \<Rightarrow> bytes \<Rightarrow> (obj, 'a runtime_scheme) sem" where
  "new_string E bs = bind (lift (createSmallInteger (word_of_nat (length bs)))) (\<lambda>l.
     alloc E (StrBlock \<lparr>str_length = l, characters = bs\<rparr>))"

section \<open>File\<close>

definition fd_of :: "addr \<Rightarrow> (64 word, 'a runtime_scheme) sem" where
  "fd_of f = load (f, 0)"

fun c_string :: "bytes \<Rightarrow> bytes" where
  "c_string [] = []"
| "c_string (b # bs) = (if b = 0 then [] else b # c_string bs)"

definition FileOpen :: "env \<Rightarrow> obj \<Rightarrow> selector \<Rightarrow> obj \<Rightarrow> (obj, 'a runtime_scheme) sem" where
  "FileOpen E f sel file =
     bind (fd_of f) (\<lambda>fd.
     seq (if 0 < sint fd then emit (CloseFile fd) else return ())
     (bind (is_string_arg file) (\<lambda>ok.
      if \<not> ok then return 0
      else bind (as_string file) (\<lambda>st.
           bind (string_bytes st) (\<lambda>filename.
           seq (emit (OpenFile (c_string filename)))
           (seq (store (f, 0) (e_open E (c_string filename)))
            (return f)))))))"

definition FileClose :: "obj \<Rightarrow> selector \<Rightarrow> (obj, 'a runtime_scheme) sem" where
  "FileClose f sel =
     bind (fd_of f) (\<lambda>fd.
     seq (if 0 < sint fd then seq (emit (CloseFile fd)) (store (f, 0) 0) else return ())
     (return f))"

text \<open>The bytes up to a newline, and what is left after it.\<close>

fun read_line :: "bytes \<Rightarrow> bytes \<times> bytes" where
  "read_line [] = ([], [])"
| "read_line (c # cs) =
     (if c = 10 then ([], cs) else case read_line cs of (l, rest) \<Rightarrow> (c # l, rest))"

definition FileReadLine :: "env \<Rightarrow> obj \<Rightarrow> selector \<Rightarrow> (obj, 'a runtime_scheme) sem" where
  "FileReadLine E f sel =
     bind (fd_of f) (\<lambda>fd0.
     let fd = (if fd0 \<noteq> 0 then fd0 else 0) in
     bind (gets (\<lambda>s. read_line (input s fd))) (\<lambda>(buffer, rest).
     seq (modify (\<lambda>s. s\<lparr>input := (input s)(fd := rest)\<rparr>))
     (if buffer = [] then return 0 else new_string E buffer)))"

definition FileWrite :: "obj \<Rightarrow> selector \<Rightarrow> obj \<Rightarrow> (obj, 'a runtime_scheme) sem" where
  "FileWrite f sel data =
     bind (is_string_arg data) (\<lambda>ok.
     if \<not> ok then return 0
     else bind (fd_of f) (\<lambda>fd0.
          bind (as_string data) (\<lambda>st.
          bind (string_bytes st) (\<lambda>bs.
          seq (emit (WriteFile (if fd0 \<noteq> 0 then fd0 else 1) bs))
          (return f)))))"

section \<open>String and Number\<close>

definition StringLength :: "obj \<Rightarrow> selector \<Rightarrow> (obj, 'a runtime_scheme) sem" where
  "StringLength str sel = bind (as_string str) (\<lambda>st. return (str_length st))"

text \<open>\<open>char\<close> is signed on the target, so a byte is widened with its sign.\<close>

definition char_value :: "8 word \<Rightarrow> 64 word" where
  "char_value c = scast c"

definition StringCharAt :: "obj \<Rightarrow> selector \<Rightarrow> obj \<Rightarrow> (obj, 'a runtime_scheme) sem" where
  "StringCharAt str sel idx =
     (if \<not> isInteger idx then return 0
      else bind (lift (getInteger idx)) (\<lambda>i.
           bind (as_string str) (\<lambda>st.
           bind (lift (getInteger (str_length st))) (\<lambda>len.
           if sint len \<le> sint i \<and> 0 < sint i then return 0
           else if 0 \<le> sint i \<and> nat (sint i) < length (characters st)
           then lift (createSmallInteger (char_value (characters st ! nat (sint i))))
           else fail OutOfBounds))))"

definition StringDump :: "obj \<Rightarrow> selector \<Rightarrow> (obj, 'a runtime_scheme) sem" where
  "StringDump str sel =
     bind (as_string str) (\<lambda>st. bind (string_bytes st) (\<lambda>bs.
     seq (emit (PrintBytes Stderr bs)) (return 0)))"

definition StringPrint :: "obj \<Rightarrow> selector \<Rightarrow> (obj, 'a runtime_scheme) sem" where
  "StringPrint str sel =
     bind (as_string str) (\<lambda>st. bind (string_bytes st) (\<lambda>bs.
     seq (emit (PrintBytes Stdout bs)) (return 0)))"

definition StringAdd :: "env \<Rightarrow> obj \<Rightarrow> selector \<Rightarrow> obj \<Rightarrow> (obj, 'a runtime_scheme) sem" where
  "StringAdd E str sel other =
     bind (is_string_arg other) (\<lambda>ok.
     if \<not> ok then return 0
     else bind (as_string str) (\<lambda>st1.
          bind (as_string other) (\<lambda>st2.
          bind (string_bytes st1) (\<lambda>b1.
          bind (string_bytes st2) (\<lambda>b2.
          new_string E (b1 @ b2))))))"

definition compare_bytes :: "env \<Rightarrow> bytes \<Rightarrow> bytes \<Rightarrow> 32 word" where
  "compare_bytes E b1 b2 =
     (let len1 = length b1; len2 = length b2; len = min len1 len2;
          result = e_memcmp E (take len b1) (take len b2)
      in if result = 0
         then if len1 > len2 then scast (b1 ! len2)
              else if len1 < len2 then 0 - scast (b2 ! len1)
              else result
         else result)"

definition StringCmp :: "env \<Rightarrow> obj \<Rightarrow> selector \<Rightarrow> obj \<Rightarrow> (obj, 'a runtime_scheme) sem" where
  "StringCmp E str sel other =
     bind (is_string_arg other) (\<lambda>ok.
     if \<not> ok then return 0
     else bind (as_string str) (\<lambda>st1.
          bind (as_string other) (\<lambda>st2.
          bind (string_bytes st1) (\<lambda>b1.
          bind (string_bytes st2) (\<lambda>b2.
          lift (createSmallInteger (scast (compare_bytes E b1 b2))))))))"

definition NumberDump :: "obj \<Rightarrow> selector \<Rightarrow> (obj, 'a runtime_scheme) sem" where
  "NumberDump str sel = bind (lift (getInteger str)) (\<lambda>i. seq (emit (PrintInt Stderr i)) (return 0))"

definition NumberPrint :: "obj \<Rightarrow> selector \<Rightarrow> (obj, 'a runtime_scheme) sem" where
  "NumberPrint str sel = bind (lift (getInteger str)) (\<lambda>i. seq (emit (PrintInt Stdout i)) (return 0))"

section \<open>Array\<close>

text \<open>The fields of \<open>struct Array\<close> are the slots 0 to 2.\<close>

abbreviation (input) arr_length :: "addr \<Rightarrow> loc" where "arr_length a \<equiv> (a, 0)"
abbreviation (input) arr_bufferSize :: "addr \<Rightarrow> loc" where "arr_bufferSize a \<equiv> (a, 1)"
abbreviation (input) arr_buffer :: "addr \<Rightarrow> loc" where "arr_buffer a \<equiv> (a, 2)"

text \<open>\<open>field ? getInteger(field) : 0\<close>\<close>

definition int_or_zero :: "obj \<Rightarrow> fault + 64 word" where
  "int_or_zero v = (if v = 0 then Inr 0 else getInteger v)"

definition ArrayLength :: "obj \<Rightarrow> selector \<Rightarrow> (obj, 'a runtime_scheme) sem" where
  "ArrayLength arr sel =
     bind (load (arr_length arr)) (\<lambda>l.
     seq (if l = 0 then bind (lift (createSmallInteger 0)) (store (arr_length arr)) else return ())
     (load (arr_length arr)))"

definition index_buffer :: "obj \<Rightarrow> 64 word \<Rightarrow> (loc, 's) sem" where
  "index_buffer buf i =
     (if buf = 0 then fail NullDeref
      else if sint i < 0 then fail OutOfBounds
      else return (buf, nat (sint i)))"

definition ArrayAt :: "obj \<Rightarrow> selector \<Rightarrow> obj \<Rightarrow> (obj, 'a runtime_scheme) sem" where
  "ArrayAt arr sel idx =
     (if \<not> isInteger idx then return 0
      else bind (lift (getInteger idx)) (\<lambda>i.
           bind (load (arr_length arr)) (\<lambda>l.
           bind (lift (int_or_zero l)) (\<lambda>len.
           if sint len \<le> sint i \<and> 0 < sint i then return 0
           else bind (load (arr_buffer arr)) (\<lambda>buf.
                bind (index_buffer buf i) load)))))"

text \<open>\<open>memcpy(buffer, arr->buffer, len * sizeof(Obj))\<close>: no byte is read if \<open>len\<close> is 0.\<close>

definition copied_prefix :: "obj \<Rightarrow> nat \<Rightarrow> (obj list, 'a runtime_scheme) sem" where
  "copied_prefix buf len =
     (if len = 0 then return []
      else bind (block_at buf) (\<lambda>b.
           if len \<le> length (cells b) then return (take len (cells b)) else fail OutOfBounds))"

text \<open>
  \<open>memcpy\<close> gets the number of bytes as an unsigned number: a negative length is a huge one, and more than
  the new buffer holds is written behind it.
\<close>

definition grow_buffer :: "env \<Rightarrow> addr \<Rightarrow> 64 word \<Rightarrow> int \<Rightarrow> (unit, 'a runtime_scheme) sem" where
  "grow_buffer E arr i len =
     (let newSize = nat (sint i) + 1 in
     if len < 0 \<or> newSize < nat len then fail OutOfBounds
     else
     bind (load (arr_buffer arr)) (\<lambda>old.
     bind (copied_prefix old (nat len)) (\<lambda>vs.
     bind (alloc E (CellBlock (vs @ replicate (newSize - nat len) 0))) (\<lambda>buffer.
     seq (store (arr_buffer arr) buffer)
     (bind (lift (createSmallInteger (word_of_nat newSize))) (store (arr_bufferSize arr)))))))"

definition ArrayAtPut :: "env \<Rightarrow> obj \<Rightarrow> selector \<Rightarrow> obj \<Rightarrow> obj \<Rightarrow> (obj, 'a runtime_scheme) sem" where
  "ArrayAtPut E arr sel idx ob =
     (if \<not> isInteger idx then return 0
      else bind (lift (getInteger idx)) (\<lambda>i.
           bind (load (arr_length arr)) (\<lambda>l.
           bind (lift (int_or_zero l)) (\<lambda>len.
           if sint i < 0 then return 0
           else bind (load (arr_bufferSize arr)) (\<lambda>bs.
                bind (lift (int_or_zero bs)) (\<lambda>bufferSize.
                seq (if sint bufferSize \<le> sint i then grow_buffer E arr i (sint len) else return ())
                (seq (if sint len \<le> sint i
                      then bind (lift (createSmallInteger (i + 1))) (store (arr_length arr))
                      else return ())
                (bind (load (arr_buffer arr)) (\<lambda>buf.
                 bind (index_buffer buf i) (\<lambda>p.
                 seq (store p ob) (return ob)))))))))))"

section \<open>Dispatch\<close>

text \<open>
  A call of a runtime function through a method pointer.  A parameter that the caller did not
  pass is an arbitrary register, further arguments are ignored.
\<close>

definition arg :: "obj list \<Rightarrow> nat \<Rightarrow> (obj, 's) sem" where
  "arg args i = (if i < length args then return (args ! i) else fail MissingArgument)"

fun call_native ::
  "env \<Rightarrow> builtin \<Rightarrow> obj \<Rightarrow> selector \<Rightarrow> obj list \<Rightarrow> (obj, 'a runtime_scheme) sem" where
  "call_native E B_FileOpen ob sel args = bind (arg args 0) (FileOpen E ob sel)"
| "call_native E B_FileClose ob sel args = FileClose ob sel"
| "call_native E B_FileReadLine ob sel args = FileReadLine E ob sel"
| "call_native E B_FileWrite ob sel args = bind (arg args 0) (FileWrite ob sel)"
| "call_native E B_StringLength ob sel args = StringLength ob sel"
| "call_native E B_StringCharAt ob sel args = bind (arg args 0) (StringCharAt ob sel)"
| "call_native E B_StringDump ob sel args = StringDump ob sel"
| "call_native E B_StringPrint ob sel args = StringPrint ob sel"
| "call_native E B_StringAdd ob sel args = bind (arg args 0) (StringAdd E ob sel)"
| "call_native E B_StringCmp ob sel args = bind (arg args 0) (StringCmp E ob sel)"
| "call_native E B_NumberDump ob sel args = NumberDump ob sel"
| "call_native E B_NumberPrint ob sel args = NumberPrint ob sel"
| "call_native E B_ArrayLength ob sel args = ArrayLength ob sel"
| "call_native E B_ArrayAt ob sel args = bind (arg args 0) (ArrayAt ob sel)"
| "call_native E B_ArrayAtPut ob sel args =
     bind (arg args 0) (\<lambda>idx. bind (arg args 1) (ArrayAtPut E ob sel idx))"

end
