(* ===== verification/Method_Lookup.thy ===== *)
theory Method_Lookup
  imports Runtime
begin

text \<open>
  Facts about the class hierarchy of \<open>Runtime\<close>: the walk up the superclasses ends, finds the
  nearest definition of a selector, and fails in a way that no caller can recover from.
\<close>

section \<open>The hierarchy\<close>

text \<open>
  A class is created after its superclass (\<open>ClassDecl::interpret\<close> looks the superclass up
  before it registers the new class), so the superclass pointers descend in order of creation.
\<close>

definition hierarchy_ok :: "(addr \<rightharpoonup> cls) \<Rightarrow> bool" where
  "hierarchy_ok K \<longleftrightarrow> K 0 = None \<and>
     (\<exists>rank :: addr \<Rightarrow> nat. \<forall>c k. K c = Some k \<longrightarrow> superclass k \<noteq> 0 \<longrightarrow>
        superclass k \<in> dom K \<and> rank (superclass k) < rank c)"

inductive lineage :: "(addr \<rightharpoonup> cls) \<Rightarrow> addr \<Rightarrow> addr list \<Rightarrow> bool" for K where
  root: "lineage K 0 []"
| sub: "c \<noteq> 0 \<Longrightarrow> K c = Some k \<Longrightarrow> lineage K (superclass k) cs \<Longrightarrow> lineage K c (c # cs)"

inductive_cases lineage_ConsE: "lineage K c (d # cs)"
inductive_simps lineage_simps: "lineage K 0 cs"

lemma lineage_exists:
  assumes "hierarchy_ok K" and "c = 0 \<or> c \<in> dom K"
  shows "\<exists>cs. lineage K c cs"
proof -
  obtain rank :: "addr \<Rightarrow> nat" where
    rank: "\<And>c k. K c = Some k \<Longrightarrow> superclass k \<noteq> 0 \<Longrightarrow>
      superclass k \<in> dom K \<and> rank (superclass k) < rank c"
    using assms(1) by (auto simp: hierarchy_ok_def)
  show ?thesis using assms(2)
  proof (induction "rank c" arbitrary: c rule: less_induct)
    case less
    show ?case
    proof (cases "c = 0")
      case True
      then show ?thesis by (auto intro: lineage.root)
    next
      case False
      then obtain k where k: "K c = Some k" using less.prems by auto
      have "\<exists>cs. lineage K (superclass k) cs"
      proof (cases "superclass k = 0")
        case True
        then show ?thesis by (auto intro: lineage.root)
      next
        case super: False
        show ?thesis by (rule less.hyps) (use rank [OF k super] in auto)
      qed
      then show ?thesis using False k by (auto intro: lineage.sub)
    qed
  qed
qed

section \<open>The walk\<close>

lemma find_selector_eq:
  "find_selector sel ms = Some i \<longleftrightarrow>
     i < length ms \<and> m_selector (ms ! i) = sel \<and> (\<forall>j < i. m_selector (ms ! j) \<noteq> sel)"
proof (induction ms arbitrary: i)
  case Nil
  then show ?case by simp
next
  case (Cons m ms)
  then show ?case by (cases i) (auto simp: less_Suc_eq_0_disj)
qed

fun nearest :: "(addr \<rightharpoonup> cls) \<Rightarrow> selector \<Rightarrow> addr list \<Rightarrow> (addr \<times> nat) option" where
  "nearest K sel [] = None"
| "nearest K sel (c # cs) = (case find_selector sel (methodList (the (K c))) of
       Some i \<Rightarrow> Some (c, i)
     | None \<Rightarrow> nearest K sel cs)"

lemma walk_lineage:
  "lineage K c cs \<Longrightarrow> walk_classes K sel c = Some (Inr (nearest K sel cs))"
  by (induction rule: lineage.induct)
    (auto simp: walk_classes.simps [of K sel 0] walk_classes.simps [of K sel c for c]
      split: option.splits)

lemma nearest_Some:
  "nearest K sel cs = Some (d, i) \<longleftrightarrow>
     (\<exists>before after. cs = before @ d # after \<and>
        (\<forall>b \<in> set before. find_selector sel (methodList (the (K b))) = None) \<and>
        find_selector sel (methodList (the (K d))) = Some i)" (is "?l cs \<longleftrightarrow> ?r cs")
proof (induction cs)
  case Nil
  then show ?case by simp
next
  case (Cons c cs)
  show ?case
  proof (cases "find_selector sel (methodList (the (K c)))")
    case None
    then have "?l (c # cs) \<longleftrightarrow> ?l cs" by simp
    also have "\<dots> \<longleftrightarrow> ?r cs" by (rule Cons.IH)
    also have "\<dots> \<longleftrightarrow> ?r (c # cs)"
    proof
      assume "?r cs"
      then obtain before after where "cs = before @ d # after"
        "\<forall>b \<in> set before. find_selector sel (methodList (the (K b))) = None"
        "find_selector sel (methodList (the (K d))) = Some i" by blast
      then show "?r (c # cs)" using None
        by (intro exI [of _ "c # before"] exI [of _ after]) auto
    next
      assume "?r (c # cs)"
      then obtain before after where *: "c # cs = before @ d # after"
        "\<forall>b \<in> set before. find_selector sel (methodList (the (K b))) = None"
        "find_selector sel (methodList (the (K d))) = Some i" by blast
      then show "?r cs" using None by (cases before) auto
    qed
    finally show ?thesis .
  next
    case (Some j)
    have "?r (c # cs) \<longleftrightarrow> d = c \<and> i = j"
    proof
      assume "?r (c # cs)"
      then obtain before after where "c # cs = before @ d # after"
        "\<forall>b \<in> set before. find_selector sel (methodList (the (K b))) = None"
        "find_selector sel (methodList (the (K d))) = Some i" by blast
      then show "d = c \<and> i = j" using Some by (cases before) auto
    next
      assume "d = c \<and> i = j"
      then show "?r (c # cs)" using Some by (intro exI [of _ "[]"] exI [of _ cs]) auto
    qed
    then show ?thesis using Some by auto
  qed
qed

lemma nearest_None:
  "nearest K sel cs = None \<longleftrightarrow> (\<forall>c \<in> set cs. find_selector sel (methodList (the (K c))) = None)"
  by (induction cs) (auto split: option.splits)

section \<open>Properties\<close>

text \<open>
  C22. In a hierarchy without cycles the search for a method ends for every class and selector,
  and it returns the definition in the nearest ancestor, the class itself first: the first
  matching entry of that class, no class before it having one.
\<close>

theorem methodForSelector_nearest:
  assumes "hierarchy_ok (classes s)" and "c \<in> dom (classes s)"
  shows "\<exists>cs r. lineage (classes s) c cs \<and> methodForSelector c sel s = Inr (r, s) \<and>
    (r = None \<longleftrightarrow> (\<forall>d \<in> set cs. find_selector sel (methodList (the (classes s d))) = None)) \<and>
    (\<forall>d i. r = Some (d, i) \<longleftrightarrow> (\<exists>before after. cs = before @ d # after \<and>
        (\<forall>b \<in> set before. find_selector sel (methodList (the (classes s b))) = None) \<and>
        find_selector sel (methodList (the (classes s d))) = Some i))"
proof -
  obtain cs where cs: "lineage (classes s) c cs"
    using lineage_exists [OF assms(1)] assms(2) by blast
  have "methodForSelector c sel s = Inr (nearest (classes s) sel cs, s)"
    by (simp add: methodForSelector_def walk_lineage [OF cs])
  then show ?thesis using cs by (auto simp: nearest_None nearest_Some)
qed

definition sample_subclass :: cls where
  "sample_subclass = \<lparr>superclass = ArrayClass, className = ''Sub'',
     methodList = [\<lparr>m_selector = 17, m_args = 0, m_function = Some (MethodTrampoline 0), m_AST = Some 64\<rparr>],
     indexedIVarNames = [''length'', ''bufferSize'', ''buffer'', ''d'']\<rparr>"

definition initial_runtime :: runtime where
  "initial_runtime = \<lparr>mem = Map.empty, classes = static_classes, classTable = [], selectors = [],
     selNames = [], console = [], input = (\<lambda>_. []), cur_jit_function = 0\<rparr>"

lemma static_hierarchy: "hierarchy_ok static_classes"
  unfolding hierarchy_ok_def
  by (auto simp: static_classes_def static_StringClass_def static_FileClass_def static_ArrayClass_def
      static_SmallIntClass_def static_ClosureClass_def root_class_def split: if_splits)

text \<open>A class created at an unused address below an existing class keeps the hierarchy.\<close>

lemma hierarchy_new_class:
  assumes ok: "hierarchy_ok K" and c: "c \<noteq> 0" "K c = None"
    and super: "superclass k = 0 \<or> superclass k \<in> dom K"
  shows "hierarchy_ok (K(c \<mapsto> k))"
proof -
  obtain rank :: "addr \<Rightarrow> nat" where
    rank: "\<And>c k. K c = Some k \<Longrightarrow> superclass k \<noteq> 0 \<Longrightarrow>
      superclass k \<in> dom K \<and> rank (superclass k) < rank c"
    using ok by (auto simp: hierarchy_ok_def)
  let ?rank = "rank(c := Suc (rank (superclass k)))"
  have "superclass k' \<in> dom (K(c \<mapsto> k)) \<and> ?rank (superclass k') < ?rank d"
    if "(K(c \<mapsto> k)) d = Some k'" and "superclass k' \<noteq> 0" for d k'
  proof (cases "d = c")
    case True
    then show ?thesis using that super c by auto
  next
    case False
    then have "K d = Some k'" using that by simp
    from rank [OF this that(2)] show ?thesis using False c by auto
  qed
  then show ?thesis using ok c unfolding hierarchy_ok_def by (intro conjI exI [of _ ?rank]) auto
qed

lemma methodForSelector_nearest_witness:
  "\<exists>r. methodForSelector ArrayClass sel_atPut initial_runtime = Inr (r, initial_runtime)"
  using methodForSelector_nearest [of initial_runtime ArrayClass sel_atPut] static_hierarchy
  by (auto simp: initial_runtime_def static_classes_def)

text \<open>
  A message that the receiver's class and its ancestors do not implement ends the run in an
  invalid call: the lookup hands out the address of the diagnostic function as if a function
  pointer were stored there, and the bytes loaded through it are called.  The diagnostic that
  \<open>invalidMethod\<close> would print is never reached.
\<close>

theorem unknown_selector_faults:
  assumes "hierarchy_ok (classes s)" and "c \<in> dom (classes s)" and "getClassFor ob s = Inr (c, s)"
    and "lineage (classes s) c cs"
    and "\<forall>d \<in> set cs. find_selector sel (methodList (the (classes s d))) = None"
  shows "compiledMethodForSelector ob sel s = Inl CodeBytesCalled"
proof -
  have "c \<noteq> 0" using assms(1,2) by (auto simp: hierarchy_ok_def)
  moreover have "methodForSelector c sel s = Inr (None, s)"
    using assms(5) by (simp add: methodForSelector_def walk_lineage [OF assms(4)] nearest_None)
  ultimately show ?thesis
    using assms(3)
    by (simp add: compiledMethodForSelector_def ptrToCompiledMethodForSelector_def
        load_method_ptr_def sem_simps)
qed

lemma unknown_selector_faults_witness:
  "compiledMethodForSelector (literalObject 5) sel_add initial_runtime = Inl CodeBytesCalled"
proof (rule unknown_selector_faults)
  show "hierarchy_ok (classes initial_runtime)"
    by (simp add: initial_runtime_def static_hierarchy)
  show "SmallIntClass \<in> dom (classes initial_runtime)"
    by (simp add: initial_runtime_def static_classes_def)
  show "getClassFor (literalObject 5) initial_runtime = Inr (SmallIntClass, initial_runtime)"
    by (simp add: getClassFor_def literalObject_def isInteger_def sem_simps)
  show "lineage (classes initial_runtime) SmallIntClass [SmallIntClass]"
    by (rule lineage.sub [where k = static_SmallIntClass])
      (simp_all add: initial_runtime_def static_classes_def static_SmallIntClass_def root_class_def
        lineage.root)
  show "\<forall>d \<in> set [SmallIntClass]. find_selector sel_add (methodList (the (classes initial_runtime d))) = None"
    by (simp add: initial_runtime_def static_classes_def static_SmallIntClass_def root_class_def
        NumberMethods_def native_method_def)
qed

end
