(* ===== verification/Array_Laws.thy ===== *)
theory Array_Laws
  imports Primitives Method_Lookup
begin

text \<open>
  What the methods of \<open>Array\<close> promise: an array is a list of objects, \<open>at\<close> reads it, \<open>atPut\<close>
  updates it and extends it with null where the index lies beyond its end.
\<close>

section \<open>The list an array stands for\<close>

text \<open>
  A new array has null in all three fields; \<open>ArrayLength\<close> replaces a null length by the integer
  zero.  Otherwise length and buffer size are both the number of slots of the buffer.
\<close>

definition array_view :: "(addr \<rightharpoonup> block) \<Rightarrow> addr \<Rightarrow> obj list option" where
  "array_view M a = (case M a of
       Some (ObjBlock c (l # bs # buf # vs)) \<Rightarrow>
         if (l = 0 \<or> l = literalObject 0) \<and> bs = 0 \<and> buf = 0 then Some []
         else (case M buf of
             Some (CellBlock ws) \<Rightarrow>
               if l = literalObject (word_of_nat (length ws)) \<and> bs = l \<and> buf \<noteq> 0
                  \<and> 0 < length ws \<and> length ws < 2 ^ 60
               then Some ws else None
           | _ \<Rightarrow> None)
     | _ \<Rightarrow> None)"

lemma array_viewE:
  assumes "array_view M a = Some ws"
  obtains (empty) c l vs where "M a = Some (ObjBlock c (l # 0 # 0 # vs))"
      and "l = 0 \<or> l = literalObject 0" and "ws = []"
  | (filled) c n buf vs where "M a = Some (ObjBlock c (n # n # buf # vs))"
      and "n = literalObject (word_of_nat (length ws))" and "M buf = Some (CellBlock ws)"
      and "buf \<noteq> 0" and "0 < length ws" and "length ws < 2 ^ 60" and "buf \<noteq> a"
  using assms
  by (auto simp: array_view_def split: option.splits block.splits list.splits if_splits)
     (metis block.distinct(5) option.inject)

lemma sint_word_of_nat: "n < 2 ^ 63 \<Longrightarrow> sint (word_of_nat n :: 64 word) = int n"
  by (simp add: signed_of_nat signed_take_bit_int_eq_self)

lemma small_word_of_nat [simp]: "n < 2 ^ 60 \<Longrightarrow> small (word_of_nat n)"
  by (simp add: small_def sint_word_of_nat)

section \<open>Reading\<close>

lemma ArrayAt_eq:
  assumes "array_view (mem s) arr = Some ws" and "isInteger idx"
  shows "ArrayAt arr sel idx s =
    (let i = sint (asr3 idx)
     in if int (length ws) \<le> i \<and> 0 < i then Inr (0, s)
        else if ws = [] then Inl NullDeref
        else if i < 0 then Inl OutOfBounds
        else Inr (ws ! nat i, s))"
  using assms(1)
proof (cases rule: array_viewE)
  case empty
  then show ?thesis using assms(2)
    by (auto simp: ArrayAt_def getInteger_def load_def sem_simps int_or_zero_def index_buffer_def
        Let_def asr3_literalObject small_def)
next
  case filled
  then show ?thesis using assms(2)
    by (auto simp: ArrayAt_def getInteger_def load_def sem_simps int_or_zero_def index_buffer_def
        Let_def asr3_literalObject small_word_of_nat sint_word_of_nat)
qed

section \<open>Writing\<close>

definition put_at :: "nat \<Rightarrow> obj \<Rightarrow> obj list \<Rightarrow> obj list" where
  "put_at i v ws = (if i < length ws then ws[i := v] else ws @ replicate (i - length ws) 0 @ [v])"

lemma array_view_filled:
  assumes "M a = Some (ObjBlock c (n # n # buf # vs))"
    and "n = literalObject (word_of_nat (length ws))" and "M buf = Some (CellBlock ws)"
    and "buf \<noteq> 0" and "0 < length ws" and "length ws < 2 ^ 60"
  shows "array_view M a = Some ws"
  using assms by (simp add: array_view_def)

lemma ArrayAtPut_inside:
  assumes "array_view (mem s) arr = Some ws" and "i < length ws"
  shows "\<exists>s'. ArrayAtPut E arr sel (literalObject (word_of_nat i)) v s = Inr (v, s') \<and>
    array_view (mem s') arr = Some (ws[i := v]) \<and>
    (\<exists>buf. mem s buf = Some (CellBlock ws) \<and> s' = s\<lparr>mem := (mem s)(buf \<mapsto> CellBlock (ws[i := v]))\<rparr>)"
  using assms(1)
proof (cases rule: array_viewE)
  case empty
  then show ?thesis using assms(2) by simp
next
  case (filled c n buf vs)
  let ?s' = "s\<lparr>mem := (mem s)(buf \<mapsto> CellBlock (ws[i := v]))\<rparr>"
  have i: "i < 2 ^ 60" using filled assms(2) by simp
  have run: "ArrayAtPut E arr sel (literalObject (word_of_nat i)) v s = Inr (v, ?s')"
    using filled assms(2) i
    by (simp add: ArrayAtPut_def load_def store_def sem_simps int_or_zero_def index_buffer_def
        getInteger_literalObject sint_word_of_nat)
  have "array_view (mem ?s') arr = Some (ws[i := v])"
    by (rule array_view_filled) (use filled in simp_all)
  then show ?thesis using run filled(3) by blast
qed

lemma update_last_null: "(replicate (Suc n) z)[n := v] = replicate n z @ [v]"
  by (induction n) simp_all

lemma ArrayAtPut_beyond:
  assumes "allocator_ok E" and "array_view (mem s) arr = Some ws" and "length ws \<le> i"
    and "i < 2 ^ 60 - 1" and "e_alloc E (mem s) = Some buf"
  shows "\<exists>s'. ArrayAtPut E arr sel (literalObject (word_of_nat i)) v s = Inr (v, s') \<and>
    array_view (mem s') arr = Some (ws @ replicate (i - length ws) 0 @ [v]) \<and>
    s' = s\<lparr>mem := mem s'\<rparr> \<and> (\<forall>a. a \<noteq> arr \<and> a \<noteq> buf \<longrightarrow> mem s' a = mem s a)"
proof -
  note fresh = allocator_okD [OF assms(1,5)]
  let ?n = "literalObject (word_of_nat (Suc i))" and ?new = "ws @ replicate (i - length ws) 0 @ [v]"
  obtain c l bs old vs where arr: "mem s arr = Some (ObjBlock c (l # bs # old # vs))"
    and l: "int_or_zero l = Inr (word_of_nat (length ws))"
    and bs: "int_or_zero bs = Inr (word_of_nat (length ws))"
    and old: "ws \<noteq> [] \<longrightarrow> mem s old = Some (CellBlock ws)"
    using assms(2)
  proof (cases rule: array_viewE)
    case (empty c l vs)
    then show thesis by (intro that [of c l 0 0 vs]) (auto simp: int_or_zero_def tag_simps small_def)
  next
    case (filled c n buf vs)
    then show thesis by (intro that [of c n n buf vs]) (auto simp: int_or_zero_def tag_simps)
  qed
  have ne: "buf \<noteq> arr" using fresh(1) arr by auto
  let ?s' = "s\<lparr>mem := (mem s)(arr \<mapsto> ObjBlock c (?n # ?n # buf # vs), buf \<mapsto> CellBlock ?new)\<rparr>"
  have i: "i < 2 ^ 60" "Suc i < 2 ^ 60" "length ws < 2 ^ 60" using assms(3,4) by simp_all
  have sm: "small (1 + word_of_nat i)" using small_word_of_nat [OF i(2)] by simp
  have upd: "(ws @ replicate (Suc i - length ws) 0)[i := v] = ?new"
    using assms(3) by (simp add: list_update_append Suc_diff_le update_last_null del: replicate_Suc)
  have copy: "copied_prefix old (length ws) s' = Inr (ws, s')"
    if "mem s' = mem s" for s' :: "'a runtime_scheme"
    using old that by (cases "ws = []") (simp_all add: copied_prefix_def sem_simps)
  have grow: "grow_buffer E arr (word_of_nat i) (int (length ws)) s =
      Inr ((), s\<lparr>mem := (mem s)(arr \<mapsto> ObjBlock c (l # ?n # buf # vs),
         buf \<mapsto> CellBlock (ws @ replicate (Suc i - length ws) 0))\<rparr>)"
    using arr assms(3,5) fresh ne i copy sm
    by (simp add: grow_buffer_def load_def store_def sem_simps sint_word_of_nat
        createSmallInteger_eq fun_upd_twist Let_def)
  have run: "ArrayAtPut E arr sel (literalObject (word_of_nat i)) v s = Inr (v, ?s')"
    using arr l bs grow assms(3) i ne fresh upd sm
    by (simp add: ArrayAtPut_def load_def store_def sem_simps index_buffer_def
        getInteger_literalObject sint_word_of_nat createSmallInteger_eq fun_upd_twist
        add.commute [of "word_of_nat i" 1])
  have "array_view (mem ?s') arr = Some ?new"
    by (rule array_view_filled) (use fresh ne i assms(3) in simp_all)
  then show ?thesis using run by (intro exI [of _ ?s']) simp
qed

section \<open>Properties\<close>

text \<open>
  \<open>at\<close> on every branch, for an array that stands for the list \<open>ws\<close>: an index beyond the end
  gives null, an index inside the list gives the element.  The bounds check lets every negative
  index and the index 0 of an empty array pass, and the access then leaves the buffer.
\<close>

theorem ArrayAt_total:
  assumes "array_view (mem s) arr = Some ws"
  shows "ArrayAt arr sel idx s =
    (let i = sint (asr3 idx)
     in if \<not> isInteger idx \<or> int (length ws) \<le> i \<and> 0 < i then Inr (0, s)
        else if ws = [] then Inl NullDeref
        else if i < 0 then Inl OutOfBounds
        else Inr (ws ! nat i, s))"
proof (cases "isInteger idx")
  case True
  then show ?thesis by (simp add: ArrayAt_eq [OF assms] Let_def)
next
  case False
  then show ?thesis by (simp add: ArrayAt_def sem_simps)
qed

text \<open>An array object with two elements, and storage around it.\<close>

definition sample_array :: runtime where
  "sample_array = initial_runtime\<lparr>mem := [
     0x1000 \<mapsto> ObjBlock ArrayClass [literalObject 2, literalObject 2, 0x1010],
     0x1010 \<mapsto> CellBlock [literalObject 7, literalObject 8]]\<rparr>"

lemma sample_array_view: "array_view (mem sample_array) 0x1000 = Some [literalObject 7, literalObject 8]"
  by (simp add: sample_array_def array_view_def)

lemma ArrayAt_total_witness:
  "ArrayAt 0x1000 sel_at (literalObject 1) sample_array = Inr (literalObject 8, sample_array) \<and>
   ArrayAt 0x1000 sel_at (literalObject (- 1)) sample_array = Inl OutOfBounds"
  using ArrayAt_total [OF sample_array_view, of sel_at "literalObject 1"]
    ArrayAt_total [OF sample_array_view, of sel_at "literalObject (- 1)"]
  by (simp add: asr3_literalObject small_def)

text \<open>
  C28. \<open>atPut\<close> updates the list the array stands for, and extends it with null up to the index
  where that lies beyond the end; it returns the object, writes nothing but the array and its
  buffer, and \<open>at\<close> then reads the object back.
\<close>

theorem ArrayAtPut_view:
  assumes "allocator_ok E" and "array_view (mem s) arr = Some ws" and "i < 2 ^ 60 - 1"
    and "e_alloc E (mem s) = Some fresh"
  shows "\<exists>s'. ArrayAtPut E arr sel (literalObject (word_of_nat i)) v s = Inr (v, s') \<and>
    array_view (mem s') arr = Some (put_at i v ws) \<and> s' = s\<lparr>mem := mem s'\<rparr> \<and>
    ArrayAt arr sel' (literalObject (word_of_nat i)) s' = Inr (v, s')"
proof -
  have "\<exists>s'. ArrayAtPut E arr sel (literalObject (word_of_nat i)) v s = Inr (v, s') \<and>
      array_view (mem s') arr = Some (put_at i v ws) \<and> s' = s\<lparr>mem := mem s'\<rparr>"
  proof (cases "i < length ws")
    case True
    then show ?thesis
      using ArrayAtPut_inside [OF assms(2) True, of E sel v] by (force simp: put_at_def)
  next
    case False
    then show ?thesis
      using ArrayAtPut_beyond [OF assms(1,2) _ assms(3,4), of sel v] by (auto simp: put_at_def)
  qed
  then obtain s' where s': "ArrayAtPut E arr sel (literalObject (word_of_nat i)) v s = Inr (v, s')"
    "array_view (mem s') arr = Some (put_at i v ws)" "s' = s\<lparr>mem := mem s'\<rparr>"
    by blast
  have "i < length (put_at i v ws)" "put_at i v ws ! i = v" "put_at i v ws \<noteq> []"
    by (auto simp: put_at_def nth_append)
  then have "ArrayAt arr sel' (literalObject (word_of_nat i)) s' = Inr (v, s')"
    using ArrayAt_eq [OF s'(2) isInteger_literalObject] assms(3)
    by (simp add: asr3_literalObject sint_word_of_nat Let_def)
  with s' show ?thesis by blast
qed

lemma ArrayAtPut_view_witness:
  "\<exists>s'. ArrayAtPut sample_env 0x1000 sel_atPut (literalObject (word_of_nat 3)) 0 sample_array = Inr (0, s') \<and>
     array_view (mem s') 0x1000 = Some [literalObject 7, literalObject 8, 0, 0]"
proof -
  have "e_alloc sample_env (mem sample_array) = Some 0x1020"
    by code_simp
  moreover have "put_at 3 0 [literalObject 7, literalObject 8] = [literalObject 7, literalObject 8, 0, 0]"
    by (simp add: put_at_def numeral_eq_Suc)
  ultimately show ?thesis
    using ArrayAtPut_view [OF sample_allocator_ok sample_array_view, of 3 _ sel_atPut 0 sel_at]
    by auto
qed

end
