(* ===== verification/String_Laws.thy ===== *)
theory String_Laws
  imports Array_Laws
begin

text \<open>
  What the methods of \<open>String\<close> promise: concatenation, and an ordering that is lexicographic for
  strings of the bytes 1 to 127.
\<close>

section \<open>The bytes a string stands for\<close>

definition string_view :: "(addr \<rightharpoonup> block) \<Rightarrow> addr \<Rightarrow> bytes option" where
  "string_view M a = (case M a of
       Some (StrBlock st) \<Rightarrow>
         let n = length (characters st)
         in if str_length st = literalObject (word_of_nat n) \<and> n < 2 ^ 60
            then Some (characters st) else None
     | _ \<Rightarrow> None)"

lemma string_viewE:
  assumes "string_view M a = Some bs"
  obtains st where "M a = Some (StrBlock st)" and "characters st = bs"
    and "str_length st = literalObject (word_of_nat (length bs))" and "length bs < 2 ^ 60"
  using assms by (auto simp: string_view_def Let_def split: option.splits block.splits if_splits)

lemma string_reads:
  assumes "string_view (mem s) a = Some bs"
  shows "bind (as_string a) string_bytes s = Inr (bs, s)"
    and "as_string a s = Inr (st, s') \<Longrightarrow> s' = s \<and> string_bytes st s = Inr (bs, s)"
    and "\<exists>st. as_string a s = Inr (st, s)"
  using assms
  by (auto elim!: string_viewE simp: as_string_def string_bytes_def sem_simps
      getInteger_literalObject sint_word_of_nat)

lemma is_string_arg_view:
  assumes "string_view (mem s) a = Some bs" and "a \<noteq> 0" and "\<not> isInteger a"
  shows "is_string_arg a s = Inr (True, s)"
  using assms by (auto elim!: string_viewE simp: is_string_arg_def isa_def sem_simps)

lemma two_strings:
  assumes "string_view (mem s) a = Some bs1" and "string_view (mem s) b = Some bs2"
    and "b \<noteq> 0" and "\<not> isInteger b"
  shows "bind (is_string_arg b) (\<lambda>ok. if \<not> ok then return 0
      else bind (as_string a) (\<lambda>st1. bind (as_string b) (\<lambda>st2.
           bind (string_bytes st1) (\<lambda>b1. bind (string_bytes st2) (k b1))))) s = k bs1 bs2 s"
proof -
  obtain st1 where "as_string a s = Inr (st1, s)" using string_reads(3) [OF assms(1)] by blast
  moreover obtain st2 where "as_string b s = Inr (st2, s)"
    using string_reads(3) [OF assms(2)] by blast
  ultimately show ?thesis
    using string_reads(2) [OF assms(1)] string_reads(2) [OF assms(2)]
    by (simp add: sem_simps is_string_arg_view [OF assms(2-4)])
qed

section \<open>The order of strings\<close>

text \<open>The sign of the lexicographic comparison, bytes being unsigned.\<close>

fun lex_sign :: "bytes \<Rightarrow> bytes \<Rightarrow> int" where
  "lex_sign [] [] = 0"
| "lex_sign [] (y # ys) = - 1"
| "lex_sign (x # xs) [] = 1"
| "lex_sign (x # xs) (y # ys) = (if x < y then - 1 else if y < x then 1 else lex_sign xs ys)"

text \<open>The documented behaviour of \<open>memcmp\<close>.\<close>

definition memcmp_ok :: "env \<Rightarrow> bool" where
  "memcmp_ok E \<longleftrightarrow>
     (\<forall>xs ys. length xs = length ys \<longrightarrow> sgn (sint (e_memcmp E xs ys)) = lex_sign xs ys)"

lemma memcmp_bytes_ok: "length xs = length ys \<Longrightarrow> sgn (sint (memcmp_bytes xs ys)) = lex_sign xs ys"
  by (induction xs ys rule: memcmp_bytes.induct) auto

lemma sample_memcmp_ok: "memcmp_ok sample_env"
  by (simp add: memcmp_ok_def sample_env_def memcmp_bytes_ok)

lemma lex_sign_self [simp]: "lex_sign xs xs = 0"
  by (induction xs) auto

lemma lex_sign_zero: "length xs = length ys \<Longrightarrow> lex_sign xs ys = 0 \<longleftrightarrow> xs = ys"
  by (induction xs ys rule: lex_sign.induct) auto

lemma lex_sign_append:
  "length xs = length ys \<Longrightarrow> lex_sign (xs @ us) (ys @ vs) =
     (if xs = ys then lex_sign us vs else lex_sign xs ys)"
  by (induction xs ys rule: lex_sign.induct) auto

lemma lex_sign_split:
  defines "n \<equiv> \<lambda>xs ys. min (length xs) (length ys)"
  shows "lex_sign xs ys = (if take (n xs ys) xs = take (n xs ys) ys
    then lex_sign (drop (n xs ys) xs) (drop (n xs ys) ys)
    else lex_sign (take (n xs ys) xs) (take (n xs ys) ys))"
  using lex_sign_append [of "take (n xs ys) xs" "take (n xs ys) ys" "drop (n xs ys) xs" "drop (n xs ys) ys"]
  by (simp add: n_def)

lemma sint_scast32: "sint (scast (w :: 32 word) :: 64 word) = sint w"
proof -
  have "- (2 ^ 31) \<le> sint w \<and> sint w < 2 ^ 31"
    using sint_range_size [of w] by (simp add: word_size)
  then show ?thesis by (simp add: signed_scast_eq signed_take_bit_int_eq_self)
qed

lemma small_scast: "small (scast (w :: 32 word))"
  using sint_range_size [of w] by (simp add: small_def sint_scast32 word_size)

lemma sint_char:
  fixes c :: "8 word"
  shows "sint (scast c :: 32 word) = sint c" and "sint (- scast c :: 32 word) = - sint c"
proof -
  have r: "- (2 ^ 7) \<le> sint c \<and> sint c < 2 ^ 7"
    using sint_range_size [of c] by (simp add: word_size)
  then show c: "sint (scast c :: 32 word) = sint c"
    by (simp add: signed_scast_eq signed_take_bit_int_eq_self)
  have "sint (- scast c :: 32 word) = signed_take_bit 31 (- sint (scast c :: 32 word))"
    by (simp add: sint_word_ariths del: signed_scast_eq)
  then show "sint (- scast c :: 32 word) = - sint c"
    using r by (simp only: c) (simp add: signed_take_bit_int_eq_self)
qed

lemma sint_low_byte: "0 < c \<Longrightarrow> c < 128 \<Longrightarrow> 0 < sint (c :: 8 word)"
proof -
  assume c: "0 < c" "c < 128"
  then have u: "0 < uint c" "uint c < 128" by (simp_all add: word_less_def)
  then have "sint c = uint c"
    by (simp only: sint_uint) (simp add: signed_take_bit_int_eq_self)
  with u show ?thesis by simp
qed

lemma lex_sign_nil [simp]: "xs \<noteq> [] \<Longrightarrow> lex_sign xs [] = 1" "ys \<noteq> [] \<Longrightarrow> lex_sign [] ys = - 1"
  by (cases xs; simp) (cases ys; simp)

lemma compare_bytes_sign:
  assumes "memcmp_ok E"
  shows "sgn (sint (compare_bytes E b1 b2)) =
    (let n = min (length b1) (length b2)
     in if take n b1 \<noteq> take n b2 then lex_sign b1 b2
        else if n < length b1 then sgn (sint (b1 ! n))
        else if n < length b2 then - sgn (sint (b2 ! n))
        else 0)"
proof -
  let ?n = "min (length b1) (length b2)"
  let ?r = "e_memcmp E (take ?n b1) (take ?n b2)"
  have r: "sgn (sint ?r) = lex_sign (take ?n b1) (take ?n b2)"
    using assms by (simp add: memcmp_ok_def)
  show ?thesis
  proof (cases "take ?n b1 = take ?n b2")
    case True
    with r have "sint ?r = 0" by (simp add: sgn_0_0)
    then have "?r = 0" using signed_word_eqI [of ?r 0] by simp
    then show ?thesis using True
      by (auto simp: compare_bytes_def Let_def sint_char min_def sgn_minus simp del: signed_scast_eq)
  next
    case False
    then have "?r \<noteq> 0" using r lex_sign_zero [of "take ?n b1" "take ?n b2"] by auto
    then show ?thesis using False r lex_sign_split [of b1 b2]
      by (simp add: compare_bytes_def Let_def)
  qed
qed

section \<open>Properties\<close>

text \<open>
  C29. \<open>add\<close> on strings is concatenation: for two strings that are together shorter than the
  integer range it returns a new string of the bytes of both and leaves every other block alone;
  an argument that is null or an integer gives null.
\<close>

theorem StringAdd_concat:
  assumes "allocator_ok E" and "string_view (mem s) str = Some b1"
    and "length b1 + length b2 < 2 ^ 60" and "e_alloc E (mem s) = Some fresh"
    and "string_view (mem s) other = Some b2 \<and> other \<noteq> 0 \<and> \<not> isInteger other"
  shows "\<exists>s'. StringAdd E str sel other s = Inr (fresh, s') \<and>
    string_view (mem s') fresh = Some (b1 @ b2) \<and> s' = s\<lparr>mem := mem s'\<rparr> \<and>
    (\<forall>a. a \<noteq> fresh \<longrightarrow> mem s' a = mem s a) \<and>
    (\<forall>v. v = 0 \<or> isInteger v \<longrightarrow> StringAdd E str sel v s = Inr (0, s))"
proof -
  have other: "string_view (mem s) other = Some b2" "other \<noteq> 0" "\<not> isInteger other"
    using assms(5) by simp_all
  have sm: "small (word_of_nat (length (b1 @ b2)))" using assms(3) by (intro small_word_of_nat) simp
  have run: "StringAdd E str sel other s = new_string E (b1 @ b2) s"
    unfolding StringAdd_def by (rule two_strings [OF assms(2) other])
  have "StringAdd E str sel v s = Inr (0, s)" if "v = 0 \<or> isInteger v" for v
    using that by (simp add: StringAdd_def is_string_arg_def sem_simps)
  then show ?thesis
    unfolding run using assms(3,4) sm
    by (simp add: new_string_def sem_simps createSmallInteger_eq string_view_def)
qed

text \<open>
  C30. \<open>compare\<close> on strings of the bytes 1 to 127 has the sign of the lexicographic order, given
  the documented behaviour of \<open>memcmp\<close>, and never fails.
\<close>

theorem StringCmp_order:
  assumes "memcmp_ok E" and "string_view (mem s) str = Some b1"
    and "string_view (mem s) other = Some b2" and "other \<noteq> 0" and "\<not> isInteger other"
    and "\<forall>c \<in> set b1 \<union> set b2. 0 < c \<and> c < 128"
  shows "\<exists>r. StringCmp E str sel other s = Inr (literalObject r, s) \<and> small r \<and>
    sgn (sint r) = lex_sign b1 b2"
proof -
  let ?r = "scast (compare_bytes E b1 b2) :: 64 word"
  have pos: "0 < sint c" if "c \<in> set b1 \<union> set b2" for c
    using assms(6) that sint_low_byte by blast
  have "sgn (sint ?r) = lex_sign b1 b2"
    using pos [of "b1 ! length b2"] pos [of "b2 ! length b1"] lex_sign_split [of b1 b2]
    unfolding sint_scast32 compare_bytes_sign [OF assms(1)]
    by (auto simp: Let_def min_def not_le)
  then show ?thesis
    unfolding StringCmp_def two_strings [OF assms(2-5)]
    by (intro exI [of _ ?r]) (simp add: sem_simps createSmallInteger_eq small_scast)
qed

text \<open>
  Without that restriction the order breaks where one string continues the other: the sign is
  that of the first further byte as a signed character, so a string extended by a null byte
  compares equal to the original, and one extended by a byte from 128 on compares less.
\<close>

theorem StringCmp_prefix:
  assumes "memcmp_ok E" and "string_view (mem s) str = Some (b @ c # cs)"
    and "string_view (mem s) other = Some b" and "other \<noteq> 0" and "\<not> isInteger other"
  shows "\<exists>r. StringCmp E str sel other s = Inr (literalObject r, s) \<and> sgn (sint r) = sgn (sint c) \<and>
    lex_sign (b @ c # cs) b = 1"
proof -
  let ?r = "scast (compare_bytes E (b @ c # cs) b) :: 64 word"
  have "sgn (sint ?r) = sgn (sint c)"
    unfolding sint_scast32 compare_bytes_sign [OF assms(1)] by (simp add: Let_def)
  moreover have "lex_sign (b @ c # cs) b = 1" by (induction b) auto
  ultimately show ?thesis
    unfolding StringCmp_def two_strings [OF assms(2-5)]
    by (intro exI [of _ ?r]) (simp add: sem_simps createSmallInteger_eq small_scast)
qed

section \<open>Concrete strings\<close>

definition sample_strings :: runtime where
  "sample_strings = initial_runtime\<lparr>mem := [
     0x1000 \<mapsto> StrBlock \<lparr>str_length = literalObject 2, characters = [104, 105]\<rparr>,
     0x1010 \<mapsto> StrBlock \<lparr>str_length = literalObject 1, characters = [104]\<rparr>]\<rparr>"

lemma sample_strings_views:
  "string_view (mem sample_strings) 0x1000 = Some ([104] @ 105 # [])"
  "string_view (mem sample_strings) 0x1010 = Some [104]"
  by (simp_all add: sample_strings_def string_view_def)

lemma sample_string_objects: "\<not> isInteger 0x1000" "\<not> isInteger 0x1010"
  by (simp_all add: isInteger_def)

lemma StringAdd_concat_witness:
  "\<exists>s'. StringAdd sample_env 0x1000 sel_add 0x1010 sample_strings = Inr (0x1020, s') \<and>
     string_view (mem s') 0x1020 = Some [104, 105, 104]"
proof -
  have "e_alloc sample_env (mem sample_strings) = Some 0x1020"
    by code_simp
  then show ?thesis
    using StringAdd_concat [OF sample_allocator_ok sample_strings_views(1), of "[104]" "0x1020" "0x1010" sel_add]
      sample_strings_views(2) sample_string_objects by auto
qed

lemma StringCmp_order_witness:
  "\<exists>r. StringCmp sample_env 0x1000 sel_compare 0x1010 sample_strings =
     Inr (literalObject r, sample_strings) \<and> sgn (sint r) = 1"
  using StringCmp_order [OF sample_memcmp_ok sample_strings_views, of sel_compare]
    sample_string_objects by auto

lemma StringCmp_prefix_witness:
  "\<exists>r. StringCmp sample_env 0x1000 sel_compare 0x1010 sample_strings =
     Inr (literalObject r, sample_strings) \<and> sgn (sint r) = sgn (sint (105 :: 8 word))"
  using StringCmp_prefix [OF sample_memcmp_ok sample_strings_views, of sel_compare]
    sample_string_objects by auto

end
