(* ===== verification/GC_Value.thy ===== *)
theory GC_Value
  imports Heap
begin

text \<open>
  \<open>Interpreter::Value\<close>: an object pointer outside the collected heap, together with an
  uncollectable cell that keeps the object visible to the collector while it needs to be.
\<close>

record gc_value =
  holder :: addr          \<comment> \<open>0 is \<open>nullptr\<close>\<close>
  object :: obj

definition no_value :: gc_value where
  "no_value = \<lparr>holder = 0, object = 0\<rparr>"

definition GC_free :: "addr \<Rightarrow> (unit, 'a heap_scheme) sem" where
  "GC_free a = modify (\<lambda>s. s\<lparr>mem := (mem s)(a := None)\<rparr>)"

definition value_set :: "env \<Rightarrow> gc_value \<Rightarrow> obj \<Rightarrow> (gc_value, 'a heap_scheme) sem" where
  "value_set E v ob =
     (if needsGC (object v) \<and> \<not> needsGC ob
      then seq (assert (holder v \<noteq> 0)) (seq (GC_free (holder v))
             (return \<lparr>holder = 0, object = ob\<rparr>))
      else if \<not> needsGC (object v) \<and> needsGC ob
      then seq (assert (holder v = 0)) (bind (alloc E (CellBlock [ob])) (\<lambda>h.
             return \<lparr>holder = h, object = ob\<rparr>))
      else if needsGC (object v) \<and> needsGC ob
      then seq (store (holder v, 0) ob) (return (v\<lparr>object := ob\<rparr>))
      else return (v\<lparr>object := ob\<rparr>))"

text \<open>The copy and the move constructor.\<close>

definition value_copy :: "env \<Rightarrow> gc_value \<Rightarrow> (gc_value, 'a heap_scheme) sem" where
  "value_copy E v = value_set E no_value (object v)"

definition value_move :: "env \<Rightarrow> gc_value \<Rightarrow> (gc_value \<times> gc_value, 'a heap_scheme) sem" where
  "value_move E v = bind (value_set E no_value (object v)) (\<lambda>v'.
     bind (value_set E v 0) (\<lambda>v0. return (v', v0)))"

text \<open>
  What the class is for: an object is held exactly if it needs to be, and the holder then shows
  the collector this very object.
\<close>

definition held :: "(addr \<rightharpoonup> block) \<Rightarrow> gc_value \<Rightarrow> bool" where
  "held M v \<longleftrightarrow>
     (if needsGC (object v) then holder v \<noteq> 0 \<and> M (holder v) = Some (CellBlock [object v])
      else holder v = 0)"

lemma held_no_value [simp]: "held M no_value"
  by (simp add: held_def no_value_def needsGC_def)

lemma value_set_cases:
  assumes "allocator_ok E" and "held (mem s) v"
  shows "value_set E v ob s =
    (if needsGC ob \<and> \<not> needsGC (object v)
     then (case e_alloc E (mem s) of None \<Rightarrow> Inl NullDeref
        | Some h \<Rightarrow> Inr (\<lparr>holder = h, object = ob\<rparr>, s\<lparr>mem := (mem s)(h \<mapsto> CellBlock [ob])\<rparr>))
     else if needsGC ob then Inr (v\<lparr>object := ob\<rparr>, s\<lparr>mem := (mem s)(holder v \<mapsto> CellBlock [ob])\<rparr>)
     else if needsGC (object v) then Inr (\<lparr>holder = 0, object = ob\<rparr>, s\<lparr>mem := (mem s)(holder v := None)\<rparr>)
     else Inr (v\<lparr>object := ob\<rparr>, s))"
  using assms(2)
  by (auto simp: value_set_def held_def sem_simps GC_free_def store_def split: option.splits)

text \<open>
  C33. \<open>Value::set\<close> keeps the wrapped object visible to the collector, whatever was wrapped before:
  its assertions hold, it fails only if there is no storage left, and afterwards the value wraps
  the new object, held exactly if the object is a pointer; only the holder's storage changes.
\<close>

theorem value_set_held:
  assumes "allocator_ok E" and "held (mem s) v" and "e_alloc E (mem s) \<noteq> None"
  shows "\<exists>v' s'. value_set E v ob s = Inr (v', s') \<and> object v' = ob \<and> held (mem s') v' \<and>
    s' = s\<lparr>mem := mem s'\<rparr> \<and>
    (\<forall>a b. a \<noteq> holder v \<and> mem s a = Some b \<longrightarrow> mem s' a = Some b)"
proof -
  obtain h where h: "e_alloc E (mem s) = Some h" using assms(3) by auto
  note fresh = allocator_okD [OF assms(1) h]
  show ?thesis
    using assms(2) fresh h unfolding value_set_cases [OF assms(1,2)]
    by (cases "needsGC ob"; cases "needsGC (object v)") (auto simp: held_def)
qed

definition sample_heap :: heap where
  "sample_heap = \<lparr>mem = [0x1000 \<mapsto> CellBlock [0x1010]]\<rparr>"

lemma value_set_held_witness:
  "\<exists>v' s'. value_set sample_env \<lparr>holder = 0x1000, object = 0x1010\<rparr> (literalObject 1) sample_heap = Inr (v', s')
     \<and> object v' = literalObject 1 \<and> held (mem s') v'"
proof -
  have "e_alloc sample_env (mem sample_heap) \<noteq> None" by code_simp
  moreover have "held (mem sample_heap) \<lparr>holder = 0x1000, object = 0x1010\<rparr>"
    by (simp add: held_def sample_heap_def needsGC_def)
  ultimately show ?thesis using value_set_held [OF sample_allocator_ok] by blast
qed

end
