(* ===== verification/Closure_Vars.thy ===== *)
theory Closure_Vars
  imports Syntax
begin

text \<open>
  The static analysis of closures: which variables a closure declares and which it binds
  (\<open>collectVarUses\<close> of every node class in \<open>ast.hh\<close> and \<open>interpreter.cc\<close>, and
  \<open>ClosureDecl::check\<close>), with a reference definition on sets and the proof that the memoised
  traversal computes it.
\<close>

section \<open>Variables of closures\<close>

record decl_info =
  recompile :: bool
  compiledClosure :: "code option"
  executionCount :: "32 word"
  checked :: bool
  di_boundVars :: "string list"
  di_decls :: "string list"

definition fresh_decl :: decl_info where
  "fresh_decl = \<lparr>recompile = False, compiledClosure = None, executionCount = 0,
     checked = False, di_boundVars = [], di_decls = []\<rparr>"

type_synonym decl_table = "node \<Rightarrow> decl_info"

text \<open>The two sets that \<open>collectVarUses\<close> fills, with the table of closure declarations.\<close>

type_synonym var_sets = "string list \<times> string list \<times> decl_table"

definition use_var :: "string \<Rightarrow> var_sets \<Rightarrow> var_sets" where
  "use_var x \<sigma> = (case \<sigma> of (ds, us, t) \<Rightarrow> (ds, set_insert x us, t))"

definition declare_var :: "string \<Rightarrow> var_sets \<Rightarrow> var_sets" where
  "declare_var x \<sigma> = (case \<sigma> of (ds, us, t) \<Rightarrow> (set_insert x ds, us, t))"

text \<open>
  The part of \<open>ClosureDecl::check\<close> around the recursive collection \<open>collect\<close> of the body: nothing
  happens to a declaration that has been checked, otherwise parameters and declared variables
  are taken out of the used variables.
\<close>

definition check_with ::
  "node \<Rightarrow> string list \<Rightarrow> (var_sets \<Rightarrow> var_sets) \<Rightarrow> decl_table \<Rightarrow> decl_table" where
  "check_with n ps collect t =
     (if checked (t n) then t
      else case collect (di_decls (t n), di_boundVars (t n), t) of (ds, us, t') \<Rightarrow>
        t'(n := (t' n)\<lparr>di_decls := ds,
            di_boundVars := filter (\<lambda>x. x \<notin> set ds) (filter (\<lambda>x. x \<notin> set ps) us),
            checked := True\<rparr>))"

text \<open>
  \<open>ClosureDecl::collectVarUses\<close>: the bound variables of the closure are used and its name is
  declared in the enclosing scope.
\<close>

definition collect_closure ::
  "cdecl \<Rightarrow> (decl_table \<Rightarrow> decl_table) \<Rightarrow> var_sets \<Rightarrow> var_sets" where
  "collect_closure d chk \<sigma> = (case \<sigma> of (ds, us, t) \<Rightarrow>
     (let t' = chk t
      in (set_insert (decl_name d) ds, set_union us (di_boundVars (t' (decl_node d))), t')))"

primrec collect_expr :: "expr \<Rightarrow> var_sets \<Rightarrow> var_sets"
  and collect_exprs :: "expr list \<Rightarrow> var_sets \<Rightarrow> var_sets"
  and check :: "cdecl \<Rightarrow> decl_table \<Rightarrow> decl_table"
  and collect_stmt :: "stmt \<Rightarrow> var_sets \<Rightarrow> var_sets"
  and collect_stmts :: "stmt list \<Rightarrow> var_sets \<Rightarrow> var_sets"
where
  "collect_expr (Number n v) = (\<lambda>\<sigma>. \<sigma>)"
| "collect_expr (StringLiteral n st) = (\<lambda>\<sigma>. \<sigma>)"
| "collect_expr (BinOp n op l r) = (\<lambda>\<sigma>. collect_expr r (collect_expr l \<sigma>))"
| "collect_expr (VarRef n x) = use_var x"
| "collect_expr (Call n callee m args) = (\<lambda>\<sigma>. collect_exprs args (collect_expr callee \<sigma>))"
| "collect_expr (ClosureExpr d) = collect_closure d (check d)"
| "collect_expr (NewExpr n c) = (\<lambda>\<sigma>. \<sigma>)"
| "collect_exprs [] = (\<lambda>\<sigma>. \<sigma>)"
| "collect_exprs (a # as) = (\<lambda>\<sigma>. collect_exprs as (collect_expr a \<sigma>))"
| "check (ClosureDecl n nm ps body) = check_with n ps (collect_stmts body)"
| "collect_stmt (ExprStmt e) = collect_expr e"
| "collect_stmt (Assignment n x e) = (\<lambda>\<sigma>. collect_expr e (use_var x \<sigma>))"
| "collect_stmt (Decl n x init) = declare_var x"
| "collect_stmt (Return n e) = collect_expr e"
| "collect_stmt (IfStatement n c body) = (\<lambda>\<sigma>. collect_stmts body (collect_expr c \<sigma>))"
| "collect_stmt (WhileLoop n c body) = (\<lambda>\<sigma>. collect_stmts body (collect_expr c \<sigma>))"
| "collect_stmt (ClassDecl n nm sn ivs ms) = (\<lambda>\<sigma>. \<sigma>)"
| "collect_stmts [] = (\<lambda>\<sigma>. \<sigma>)"
| "collect_stmts (s # ss) = (\<lambda>\<sigma>. collect_stmts ss (collect_stmt s \<sigma>))"

section \<open>What the analysis computes\<close>

text \<open>
  The reference: the names that are declared in a piece of code, and the names that occur free in it, with
  the initialisers of declarations.
\<close>

primrec locals_expr :: "expr \<Rightarrow> string set"
  and locals_exprs :: "expr list \<Rightarrow> string set"
  and locals_init :: "expr option \<Rightarrow> string set"
  and locals_stmt :: "stmt \<Rightarrow> string set"
  and locals_stmts :: "stmt list \<Rightarrow> string set"
where
  "locals_expr (Number n v) = {}"
| "locals_expr (StringLiteral n st) = {}"
| "locals_expr (BinOp n op l r) = locals_expr l \<union> locals_expr r"
| "locals_expr (VarRef n x) = {}"
| "locals_expr (Call n callee m args) = locals_expr callee \<union> locals_exprs args"
| "locals_expr (ClosureExpr d) = {decl_name d}"
| "locals_expr (NewExpr n c) = {}"
| "locals_exprs [] = {}"
| "locals_exprs (a # as) = locals_expr a \<union> locals_exprs as"
| "locals_init None = {}"
| "locals_init (Some e) = locals_expr e"
| "locals_stmt (ExprStmt e) = locals_expr e"
| "locals_stmt (Assignment n x e) = locals_expr e"
| "locals_stmt (Decl n x init) = insert x (locals_init init)"
| "locals_stmt (Return n e) = locals_expr e"
| "locals_stmt (IfStatement n c body) = locals_expr c \<union> locals_stmts body"
| "locals_stmt (WhileLoop n c body) = locals_expr c \<union> locals_stmts body"
| "locals_stmt (ClassDecl n nm sn ivs ms) = {}"
| "locals_stmts [] = {}"
| "locals_stmts (s # ss) = locals_stmt s \<union> locals_stmts ss"

primrec free_expr :: "expr \<Rightarrow> string set"
  and free_exprs :: "expr list \<Rightarrow> string set"
  and free_init :: "expr option \<Rightarrow> string set"
  and free_decl :: "cdecl \<Rightarrow> string set"
  and free_stmt :: "stmt \<Rightarrow> string set"
  and free_stmts :: "stmt list \<Rightarrow> string set"
where
  "free_expr (Number n v) = {}"
| "free_expr (StringLiteral n st) = {}"
| "free_expr (BinOp n op l r) = free_expr l \<union> free_expr r"
| "free_expr (VarRef n x) = {x}"
| "free_expr (Call n callee m args) = free_expr callee \<union> free_exprs args"
| "free_expr (ClosureExpr d) = free_decl d"
| "free_expr (NewExpr n c) = {}"
| "free_exprs [] = {}"
| "free_exprs (a # as) = free_expr a \<union> free_exprs as"
| "free_init None = {}"
| "free_init (Some e) = free_expr e"
| "free_decl (ClosureDecl n nm ps body) = free_stmts body - set ps - locals_stmts body"
| "free_stmt (ExprStmt e) = free_expr e"
| "free_stmt (Assignment n x e) = insert x (free_expr e)"
| "free_stmt (Decl n x init) = free_init init"
| "free_stmt (Return n e) = free_expr e"
| "free_stmt (IfStatement n c body) = free_expr c \<union> free_stmts body"
| "free_stmt (WhileLoop n c body) = free_expr c \<union> free_stmts body"
| "free_stmt (ClassDecl n nm sn ivs ms) = {}"
| "free_stmts [] = {}"
| "free_stmts (s # ss) = free_stmt s \<union> free_stmts ss"

text \<open>The same code without the initialisers of its declarations, which the analysis never visits.\<close>

primrec uninitialised_expr :: "expr \<Rightarrow> expr"
  and uninitialised_exprs :: "expr list \<Rightarrow> expr list"
  and uninitialised :: "cdecl \<Rightarrow> cdecl"
  and uninitialised_stmt :: "stmt \<Rightarrow> stmt"
  and uninitialised_stmts :: "stmt list \<Rightarrow> stmt list"
where
  "uninitialised_expr (Number n v) = Number n v"
| "uninitialised_expr (StringLiteral n st) = StringLiteral n st"
| "uninitialised_expr (BinOp n op l r) = BinOp n op (uninitialised_expr l) (uninitialised_expr r)"
| "uninitialised_expr (VarRef n x) = VarRef n x"
| "uninitialised_expr (Call n callee m args) = Call n (uninitialised_expr callee) m (uninitialised_exprs args)"
| "uninitialised_expr (ClosureExpr d) = ClosureExpr (uninitialised d)"
| "uninitialised_expr (NewExpr n c) = NewExpr n c"
| "uninitialised_exprs [] = []"
| "uninitialised_exprs (a # as) = uninitialised_expr a # uninitialised_exprs as"
| "uninitialised (ClosureDecl n nm ps body) = ClosureDecl n nm ps (uninitialised_stmts body)"
| "uninitialised_stmt (ExprStmt e) = ExprStmt (uninitialised_expr e)"
| "uninitialised_stmt (Assignment n x e) = Assignment n x (uninitialised_expr e)"
| "uninitialised_stmt (Decl n x init) = Decl n x None"
| "uninitialised_stmt (Return n e) = Return n (uninitialised_expr e)"
| "uninitialised_stmt (IfStatement n c body) = IfStatement n (uninitialised_expr c) (uninitialised_stmts body)"
| "uninitialised_stmt (WhileLoop n c body) = WhileLoop n (uninitialised_expr c) (uninitialised_stmts body)"
| "uninitialised_stmt (ClassDecl n nm sn ivs ms) = ClassDecl n nm sn ivs ms"
| "uninitialised_stmts [] = []"
| "uninitialised_stmts (s # ss) = uninitialised_stmt s # uninitialised_stmts ss"

text \<open>Code whose initialisers name no variable and no closure.\<close>

primrec plain_expr :: "expr \<Rightarrow> bool"
  and plain_exprs :: "expr list \<Rightarrow> bool"
  and plain :: "cdecl \<Rightarrow> bool"
  and plain_stmt :: "stmt \<Rightarrow> bool"
  and plain_stmts :: "stmt list \<Rightarrow> bool"
where
  "plain_expr (Number n v) \<longleftrightarrow> True"
| "plain_expr (StringLiteral n st) \<longleftrightarrow> True"
| "plain_expr (BinOp n op l r) \<longleftrightarrow> plain_expr l \<and> plain_expr r"
| "plain_expr (VarRef n x) \<longleftrightarrow> True"
| "plain_expr (Call n callee m args) \<longleftrightarrow> plain_expr callee \<and> plain_exprs args"
| "plain_expr (ClosureExpr d) \<longleftrightarrow> plain d"
| "plain_expr (NewExpr n c) \<longleftrightarrow> True"
| "plain_exprs [] \<longleftrightarrow> True"
| "plain_exprs (a # as) \<longleftrightarrow> plain_expr a \<and> plain_exprs as"
| "plain (ClosureDecl n nm ps body) \<longleftrightarrow> plain_stmts body"
| "plain_stmt (ExprStmt e) \<longleftrightarrow> plain_expr e"
| "plain_stmt (Assignment n x e) \<longleftrightarrow> plain_expr e"
| "plain_stmt (Decl n x init) \<longleftrightarrow> free_init init = {} \<and> locals_init init = {}"
| "plain_stmt (Return n e) \<longleftrightarrow> plain_expr e"
| "plain_stmt (IfStatement n c body) \<longleftrightarrow> plain_expr c \<and> plain_stmts body"
| "plain_stmt (WhileLoop n c body) \<longleftrightarrow> plain_expr c \<and> plain_stmts body"
| "plain_stmt (ClassDecl n nm sn ivs ms) \<longleftrightarrow> True"
| "plain_stmts [] \<longleftrightarrow> True"
| "plain_stmts (s # ss) \<longleftrightarrow> plain_stmt s \<and> plain_stmts ss"

text \<open>
  What the traversal collects, without the table: the names of a statement that it enters into the two
  sets, the variables it lets a closure bind, and the closure declarations that it visits.  The
  lemmas below relate this to the reference.
\<close>

primrec declared_expr :: "expr \<Rightarrow> string set"
  and declared_exprs :: "expr list \<Rightarrow> string set"
  and declared_stmt :: "stmt \<Rightarrow> string set"
  and declared_stmts :: "stmt list \<Rightarrow> string set"
where
  "declared_expr (Number n v) = {}"
| "declared_expr (StringLiteral n st) = {}"
| "declared_expr (BinOp n op l r) = declared_expr l \<union> declared_expr r"
| "declared_expr (VarRef n x) = {}"
| "declared_expr (Call n callee m args) = declared_expr callee \<union> declared_exprs args"
| "declared_expr (ClosureExpr d) = {decl_name d}"
| "declared_expr (NewExpr n c) = {}"
| "declared_exprs [] = {}"
| "declared_exprs (a # as) = declared_expr a \<union> declared_exprs as"
| "declared_stmt (ExprStmt e) = declared_expr e"
| "declared_stmt (Assignment n x e) = declared_expr e"
| "declared_stmt (Decl n x init) = {x}"
| "declared_stmt (Return n e) = declared_expr e"
| "declared_stmt (IfStatement n c body) = declared_expr c \<union> declared_stmts body"
| "declared_stmt (WhileLoop n c body) = declared_expr c \<union> declared_stmts body"
| "declared_stmt (ClassDecl n nm sn ivs ms) = {}"
| "declared_stmts [] = {}"
| "declared_stmts (s # ss) = declared_stmt s \<union> declared_stmts ss"

primrec used_expr :: "expr \<Rightarrow> string set"
  and used_exprs :: "expr list \<Rightarrow> string set"
  and bound_of :: "cdecl \<Rightarrow> string set"
  and used_stmt :: "stmt \<Rightarrow> string set"
  and used_stmts :: "stmt list \<Rightarrow> string set"
where
  "used_expr (Number n v) = {}"
| "used_expr (StringLiteral n st) = {}"
| "used_expr (BinOp n op l r) = used_expr l \<union> used_expr r"
| "used_expr (VarRef n x) = {x}"
| "used_expr (Call n callee m args) = used_expr callee \<union> used_exprs args"
| "used_expr (ClosureExpr d) = bound_of d"
| "used_expr (NewExpr n c) = {}"
| "used_exprs [] = {}"
| "used_exprs (a # as) = used_expr a \<union> used_exprs as"
| "bound_of (ClosureDecl n nm ps body) = used_stmts body - set ps - declared_stmts body"
| "used_stmt (ExprStmt e) = used_expr e"
| "used_stmt (Assignment n x e) = insert x (used_expr e)"
| "used_stmt (Decl n x init) = {}"
| "used_stmt (Return n e) = used_expr e"
| "used_stmt (IfStatement n c body) = used_expr c \<union> used_stmts body"
| "used_stmt (WhileLoop n c body) = used_expr c \<union> used_stmts body"
| "used_stmt (ClassDecl n nm sn ivs ms) = {}"
| "used_stmts [] = {}"
| "used_stmts (s # ss) = used_stmt s \<union> used_stmts ss"

primrec visited_expr :: "expr \<Rightarrow> cdecl set"
  and visited_exprs :: "expr list \<Rightarrow> cdecl set"
  and visited :: "cdecl \<Rightarrow> cdecl set"
  and visited_stmt :: "stmt \<Rightarrow> cdecl set"
  and visited_stmts :: "stmt list \<Rightarrow> cdecl set"
where
  "visited_expr (Number n v) = {}"
| "visited_expr (StringLiteral n st) = {}"
| "visited_expr (BinOp n op l r) = visited_expr l \<union> visited_expr r"
| "visited_expr (VarRef n x) = {}"
| "visited_expr (Call n callee m args) = visited_expr callee \<union> visited_exprs args"
| "visited_expr (ClosureExpr d) = visited d"
| "visited_expr (NewExpr n c) = {}"
| "visited_exprs [] = {}"
| "visited_exprs (a # as) = visited_expr a \<union> visited_exprs as"
| "visited (ClosureDecl n nm ps body) = insert (ClosureDecl n nm ps body) (visited_stmts body)"
| "visited_stmt (ExprStmt e) = visited_expr e"
| "visited_stmt (Assignment n x e) = visited_expr e"
| "visited_stmt (Decl n x init) = {}"
| "visited_stmt (Return n e) = visited_expr e"
| "visited_stmt (IfStatement n c body) = visited_expr c \<union> visited_stmts body"
| "visited_stmt (WhileLoop n c body) = visited_expr c \<union> visited_stmts body"
| "visited_stmt (ClassDecl n nm sn ivs ms) = {}"
| "visited_stmts [] = {}"
| "visited_stmts (s # ss) = visited_stmt s \<union> visited_stmts ss"

text \<open>The traversal sees the declared and the free names of the code without its initialisers.\<close>

lemma traversal_declares:
  "locals_expr (uninitialised_expr e) = declared_expr e"
  "decl_name (uninitialised d) = decl_name d"
  "locals_stmt (uninitialised_stmt s) = declared_stmt s"
  "locals_exprs (uninitialised_exprs es) = declared_exprs es"
  "locals_stmts (uninitialised_stmts ss) = declared_stmts ss"
  "(i :: expr option) = i"
  by (induction e and d and s and es and ss and i rule: syntax_induct) simp_all

lemma traversal_uses:
  "free_expr (uninitialised_expr e) = used_expr e"
  "free_decl (uninitialised d) = bound_of d"
  "free_stmt (uninitialised_stmt s) = used_stmt s"
  "free_exprs (uninitialised_exprs es) = used_exprs es"
  "free_stmts (uninitialised_stmts ss) = used_stmts ss"
  "(i :: expr option) = i"
  by (induction e and d and s and es and ss and i rule: syntax_induct) (simp_all add: traversal_declares)

lemma traversal_body: "locals_stmts (decl_body (uninitialised d)) = declared_stmts (decl_body d)"
  by (cases d) (simp add: traversal_declares)

lemma plain_declares:
  "plain_expr e \<Longrightarrow> declared_expr e = locals_expr e"
  "(d :: cdecl) = d"
  "plain_stmt s \<Longrightarrow> declared_stmt s = locals_stmt s"
  "plain_exprs es \<Longrightarrow> declared_exprs es = locals_exprs es"
  "plain_stmts ss \<Longrightarrow> declared_stmts ss = locals_stmts ss"
  "(i :: expr option) = i"
  by (induction e and d and s and es and ss and i rule: syntax_induct) simp_all

lemma plain_uses:
  "plain_expr e \<Longrightarrow> used_expr e = free_expr e"
  "plain d \<Longrightarrow> bound_of d = free_decl d"
  "plain_stmt s \<Longrightarrow> used_stmt s = free_stmt s"
  "plain_exprs es \<Longrightarrow> used_exprs es = free_exprs es"
  "plain_stmts ss \<Longrightarrow> used_stmts ss = free_stmts ss"
  "(i :: expr option) = i"
  by (induction e and d and s and es and ss and i rule: syntax_induct) (simp_all add: plain_declares)

lemma plain_body: "plain d \<Longrightarrow> declared_stmts (decl_body d) = locals_stmts (decl_body d)"
  by (cases d) (simp add: plain_declares)

text \<open>
  The invariant of the table for the declarations \<open>D\<close> of a program: a checked declaration holds
  its declared and bound variables, one that has not been checked holds none.
\<close>

definition info_ok :: "cdecl \<Rightarrow> decl_info \<Rightarrow> bool" where
  "info_ok d i \<longleftrightarrow> distinct (di_boundVars i) \<and> distinct (di_decls i) \<and>
     (if checked i
      then set (di_boundVars i) = free_decl (uninitialised d) \<and>
        set (di_decls i) = locals_stmts (decl_body (uninitialised d))
      else di_boundVars i = [] \<and> di_decls i = [])"

definition table_ok :: "cdecl set \<Rightarrow> decl_table \<Rightarrow> bool" where
  "table_ok D t \<longleftrightarrow> inj_on decl_node D \<and> (\<forall>d \<in> D. info_ok d (t (decl_node d)))"

lemma info_ok_iff: "info_ok d i \<longleftrightarrow> distinct (di_boundVars i) \<and> distinct (di_decls i) \<and>
     (if checked i
      then set (di_boundVars i) = bound_of d \<and> set (di_decls i) = declared_stmts (decl_body d)
      else di_boundVars i = [] \<and> di_decls i = [])"
  by (simp add: info_ok_def traversal_uses traversal_body)

lemma table_okD: "table_ok D t \<Longrightarrow> d \<in> D \<Longrightarrow> info_ok d (t (decl_node d))"
  by (simp add: table_ok_def)

lemma table_ok_update:
  assumes "table_ok D t" and "d \<in> D" and "info_ok d i"
  shows "table_ok D (t(decl_node d := i))"
  using assms by (auto simp: table_ok_def dest: inj_onD)

text \<open>What one collection step must do: add its names to both sets and keep the invariant.\<close>

definition collects ::
  "cdecl set \<Rightarrow> (var_sets \<Rightarrow> var_sets) \<Rightarrow> string set \<Rightarrow> string set \<Rightarrow> bool" where
  "collects D f ds us \<longleftrightarrow> (\<forall>a b t. table_ok D t \<longrightarrow> distinct a \<longrightarrow> distinct b \<longrightarrow>
     (case f (a, b, t) of (a', b', t') \<Rightarrow> distinct a' \<and> distinct b' \<and> table_ok D t' \<and>
        set a' = set a \<union> ds \<and> set b' = set b \<union> us))"

definition checks :: "cdecl set \<Rightarrow> (decl_table \<Rightarrow> decl_table) \<Rightarrow> cdecl \<Rightarrow> bool" where
  "checks D f d \<longleftrightarrow> (\<forall>t. table_ok D t \<longrightarrow> table_ok D (f t) \<and> checked (f t (decl_node d)))"

lemma collectsD:
  assumes "collects D f ds us" and "table_ok D t" and "distinct a" and "distinct b"
    and "f (a, b, t) = (a', b', t')"
  shows "distinct a'" and "distinct b'" and "table_ok D t'"
    and "set a' = set a \<union> ds" and "set b' = set b \<union> us"
  using assms unfolding collects_def by fastforce+

lemma collects_id: "collects D (\<lambda>\<sigma>. \<sigma>) {} {}"
  by (simp add: collects_def)

lemma collects_use: "collects D (use_var x) {} {x}"
  by (simp add: collects_def use_var_def)

lemma collects_declare: "collects D (declare_var x) {x} {}"
  by (simp add: collects_def declare_var_def)

lemma collects_comp:
  assumes "collects D f ds us" and "collects D g ds' us'"
  shows "collects D (\<lambda>\<sigma>. g (f \<sigma>)) (ds \<union> ds') (us \<union> us')"
  unfolding collects_def
proof (intro allI impI)
  fix a b :: "string list" and t
  assume t: "table_ok D t" and d: "distinct a" "distinct b"
  obtain a' b' t' where f: "f (a, b, t) = (a', b', t')" by (metis prod_cases3)
  obtain a'' b'' t'' where g: "g (a', b', t') = (a'', b'', t'')" by (metis prod_cases3)
  note F = collectsD [OF assms(1) t d f]
  note G = collectsD [OF assms(2) F(3) F(1) F(2) g]
  show "case g (f (a, b, t)) of (a', b', t') \<Rightarrow> distinct a' \<and> distinct b' \<and> table_ok D t' \<and>
      set a' = set a \<union> (ds \<union> ds') \<and> set b' = set b \<union> (us \<union> us')"
    using F G by (auto simp: f g)
qed

lemma collects_closure:
  assumes "d \<in> D" and "checks D chk d"
  shows "collects D (collect_closure d chk) {decl_name d} (bound_of d)"
  unfolding collects_def
proof (intro allI impI)
  fix a b :: "string list" and t
  assume t: "table_ok D t" and d: "distinct a" "distinct b"
  have ok: "table_ok D (chk t)" and ch: "checked (chk t (decl_node d))"
    using assms(2) t by (auto simp: checks_def)
  have "info_ok d (chk t (decl_node d))" using ok assms(1) by (rule table_okD)
  then have "set (di_boundVars (chk t (decl_node d))) = bound_of d"
    using ch by (simp add: info_ok_iff)
  then show "case collect_closure d chk (a, b, t) of (a', b', t') \<Rightarrow> distinct a' \<and> distinct b' \<and>
      table_ok D t' \<and> set a' = set a \<union> {decl_name d} \<and> set b' = set b \<union> bound_of d"
    using ok d by (simp add: collect_closure_def Let_def)
qed

lemma checks_body:
  assumes d: "ClosureDecl n nm ps body \<in> D"
    and body: "collects D collect (declared_stmts body) (used_stmts body)"
  shows "checks D (check_with n ps collect) (ClosureDecl n nm ps body)"
  unfolding checks_def
proof (intro allI impI)
  fix t
  assume t: "table_ok D t"
  have i: "info_ok (ClosureDecl n nm ps body) (t n)" using table_okD [OF t d] by simp
  show "table_ok D (check_with n ps collect t) \<and>
      checked (check_with n ps collect t (decl_node (ClosureDecl n nm ps body)))"
  proof (cases "checked (t n)")
    case True
    then show ?thesis using t by (simp add: check_with_def)
  next
    case False
    then have e: "di_decls (t n) = []" "di_boundVars (t n) = []"
      using i by (auto simp: info_ok_iff)
    obtain ds us t' where c: "collect ([], [], t) = (ds, us, t')" by (metis prod_cases3)
    note C = collectsD [OF body t distinct.simps(1) [THEN iffD2] distinct.simps(1) [THEN iffD2] c]
    let ?i = "(t' n)\<lparr>di_decls := ds,
        di_boundVars := filter (\<lambda>x. x \<notin> set ds) (filter (\<lambda>x. x \<notin> set ps) us), checked := True\<rparr>"
    have "info_ok (ClosureDecl n nm ps body) ?i" using C by (auto simp: info_ok_iff)
    from table_ok_update [OF C(3) d this] False show ?thesis
      by (simp add: check_with_def e c)
  qed
qed

lemma collect_correct:
  "visited_expr e \<subseteq> D \<Longrightarrow> collects D (collect_expr e) (declared_expr e) (used_expr e)"
  "visited d \<subseteq> D \<Longrightarrow> checks D (check d) d"
  "visited_stmt s \<subseteq> D \<Longrightarrow> collects D (collect_stmt s) (declared_stmt s) (used_stmt s)"
  "visited_exprs es \<subseteq> D \<Longrightarrow> collects D (collect_exprs es) (declared_exprs es) (used_exprs es)"
  "visited_stmts ss \<subseteq> D \<Longrightarrow> collects D (collect_stmts ss) (declared_stmts ss) (used_stmts ss)"
  "(i :: expr option) = i"
proof (induction e and d and s and es and ss and i rule: syntax_induct)
  case (ClosureExpr d)
  have "d \<in> D" using ClosureExpr.prems by (cases d) auto
  then show ?case using ClosureExpr by (simp add: collects_closure)
next
  case (ClosureDecl n nm ps body)
  then show ?case by (simp add: checks_body)
next
  case (Assignment n x e)
  then show ?case using collects_comp [OF collects_use [of D x], of "collect_expr e"]
    by fastforce
qed (simp_all add: collects_id collects_use collects_declare collects_comp)

section \<open>Properties\<close>

text \<open>
  C19. \<open>check\<close> computes what closures capture, except in initialisers: from any table in which every
  declaration of the program is either correctly analysed or not analysed yet, it leaves such a table,
  and the bound and the declared variables of the declaration are exactly the free names and the
  declared names of the closure without the initialisers of its declarations, nested closures included.
  If no initialiser names a variable or a closure, these are the free and the declared names of the
  closure itself; a variable that only an initialiser mentions is missed
  (\<open>initialiser_not_captured\<close>).
\<close>

theorem check_correct:
  assumes "table_ok D t" and "visited d \<subseteq> D"
  shows "table_ok D (check d t) \<and>
    distinct (di_boundVars (check d t (decl_node d))) \<and>
    set (di_boundVars (check d t (decl_node d))) = free_decl (uninitialised d) \<and>
    set (di_decls (check d t (decl_node d))) = locals_stmts (decl_body (uninitialised d)) \<and>
    (plain d \<longrightarrow> set (di_boundVars (check d t (decl_node d))) = free_decl d \<and>
       set (di_decls (check d t (decl_node d))) = locals_stmts (decl_body d))"
proof -
  have "table_ok D (check d t)" and "checked (check d t (decl_node d))"
    using collect_correct(2) [OF assms(2)] assms(1) by (auto simp: checks_def)
  moreover have "d \<in> D" using assms(2) by (cases d) auto
  ultimately show ?thesis
    by (auto dest: table_okD simp: info_ok_iff traversal_uses traversal_body plain_uses plain_body)
qed

definition sample_closure :: cdecl where
  "sample_closure = ClosureDecl 16 ''f'' [''a'']
     [Decl 56 ''c'' (Some (VarRef 64 ''d'')), Return 24 (BinOp 32 Add (VarRef 40 ''a'') (VarRef 48 ''b''))]"

text \<open>The second variable that occurs free in the sample is missed.\<close>

lemma check_correct_witness:
  "set (di_boundVars (check sample_closure (\<lambda>_. fresh_decl) 16)) = {''b''} \<and> free_decl sample_closure = {''b'', ''d''}"
proof -
  have "table_ok {sample_closure} (\<lambda>_. fresh_decl)"
    by (simp add: table_ok_def info_ok_iff fresh_decl_def)
  moreover have "visited sample_closure \<subseteq> {sample_closure}"
    by (simp add: sample_closure_def)
  ultimately show ?thesis
    using check_correct [of "{sample_closure}" "\<lambda>_. fresh_decl" sample_closure]
    by (auto simp: sample_closure_def)
qed

text \<open>
  A closure that initialises a local variable from a variable of the enclosing scope does
  not bind that variable: \<open>Decl::collectVarUses\<close> records the declared name and never visits the
  initialiser, so whatever the initialiser reads is not copied into the closure.
\<close>

theorem initialiser_not_captured:
  "di_boundVars (check (ClosureDecl n nm ps [Decl m x (Some e)]) (\<lambda>_. fresh_decl) n) = []"
  by (simp add: check_with_def declare_var_def fresh_decl_def set_insert_def)

end
