(* ===== verification/Context.thy ===== *)
theory Context
  imports GC_Value Closure_Vars Primitives
begin

text \<open>
  The interpreter's context (\<open>interpreter.hh\<close>) with the fields of the syntax tree that a run
  changes, and the operations on its symbol tables (\<open>interpreter.cc\<close>).
\<close>

section \<open>State\<close>

type_synonym symbol_table = "string \<rightharpoonup> loc"

text \<open>The fields of \<open>Statement\<close> and \<open>Call\<close> that make up the inline cache of a call.\<close>

record call_site =
  type_assumption :: addr
  alternative_type :: addr
  alternative_type_count :: "64 word"
  cachedMethod :: "method_ptr option"

definition fresh_site :: call_site where
  "fresh_site = \<lparr>type_assumption = 0, alternative_type = 0, alternative_type_count = 0,
     cachedMethod = None\<rparr>"

text \<open>
  A global variable is a \<open>Value\<close> whose \<open>object\<close> field is the storage the symbol table points to:
  \<open>globals\<close> lists the addresses of these cells with their holders.  What the compiler has
  generated is listed in \<open>jit_table\<close>; the \<open>n\<close>-th entry is the function \<open>JitCode n\<close>.
\<close>

datatype jit_entry =
    CompiledAsMethod node addr
  | CompiledAsClosure node

record ctx = runtime +
  globals :: "(addr \<times> addr) list"
  symbols :: "symbol_table list"
  globalSymbols :: symbol_table
  retVal :: gc_value
  isReturning :: bool
  astNodeFound :: bool
  cache :: "node \<Rightarrow> gc_value"
  call_sites :: "node \<Rightarrow> call_site"
  closure_decls :: decl_table
  jit_table :: "jit_entry list"

text \<open>The context at the start of a run.\<close>

definition initial_context :: ctx where
  "initial_context = \<lparr>mem = Map.empty, classes = static_classes, classTable = [], selectors = [],
     selNames = [], console = [], input = (\<lambda>_. []), cur_jit_function = 0, globals = [],
     symbols = [], globalSymbols = Map.empty, retVal = no_value, isReturning = False,
     astNodeFound = False, cache = (\<lambda>_. no_value), call_sites = (\<lambda>_. fresh_site),
     closure_decls = (\<lambda>_. fresh_decl), jit_table = []\<rparr>"

type_synonym 'a run = "('a, ctx) sem"

section \<open>Symbols\<close>

text \<open>
  The stack of symbol tables has its top at the head.  A name can be mapped to the null pointer,
  which hides a global of that name; \<open>None\<close> is the result \<open>nullptr\<close>.
\<close>

abbreviation null_loc :: loc where "null_loc \<equiv> (0, 0)"

definition lookup_in :: "symbol_table list \<Rightarrow> symbol_table \<Rightarrow> string \<Rightarrow> loc option" where
  "lookup_in stack gs x = Option.bind
     (case stack of [] \<Rightarrow> gs x | t # _ \<Rightarrow> (case t x of Some p \<Rightarrow> Some p | None \<Rightarrow> gs x))
     (\<lambda>p. if p = null_loc then None else Some p)"

definition lookupSymbol :: "string \<Rightarrow> loc option run" where
  "lookupSymbol x = gets (\<lambda>c. lookup_in (symbols c) (globalSymbols c) x)"

definition pushSymbols :: "symbol_table \<Rightarrow> unit run" where
  "pushSymbols t = modify (\<lambda>c. c\<lparr>symbols := t # symbols c\<rparr>)"

text \<open>\<open>pop_back\<close> and \<open>back\<close> of an empty vector have no meaning.\<close>

definition popSymbols :: "unit run" where
  "popSymbols = bind (gets symbols) (\<lambda>st.
     if st = [] then fail OutOfBounds else modify (\<lambda>c. c\<lparr>symbols := tl st\<rparr>))"

definition setAddress :: "string \<Rightarrow> loc \<Rightarrow> unit run" where
  "setAddress x p = bind (gets symbols) (\<lambda>st. case st of
       [] \<Rightarrow> fail OutOfBounds
     | t # rest \<Rightarrow> modify (\<lambda>c. c\<lparr>symbols := t(x \<mapsto> p) # rest\<rparr>))"

definition new_global :: "env \<Rightarrow> string \<Rightarrow> obj \<Rightarrow> unit run" where
  "new_global E x v =
     bind (value_set E no_value v) (\<lambda>val.
     bind (alloc E (CellBlock [object val])) (\<lambda>cell.
     modify (\<lambda>c. c\<lparr>globals := (cell, holder val) # globals c,
                    globalSymbols := (globalSymbols c)(x \<mapsto> (cell, 0))\<rparr>)))"

definition setSymbol :: "env \<Rightarrow> string \<Rightarrow> obj \<Rightarrow> unit run" where
  "setSymbol E x v = bind (lookupSymbol x) (\<lambda>addr. case addr of
       None \<Rightarrow> new_global E x v
     | Some p \<Rightarrow> store p v)"

section \<open>The fields of the tree and of the context\<close>

definition set_retVal :: "env \<Rightarrow> obj \<Rightarrow> unit run" where
  "set_retVal E v = bind (gets retVal) (\<lambda>r. bind (value_set E r v) (\<lambda>r'.
     modify (\<lambda>c. c\<lparr>retVal := r'\<rparr>)))"

definition set_cache :: "env \<Rightarrow> node \<Rightarrow> obj \<Rightarrow> unit run" where
  "set_cache E n v = bind (gets (\<lambda>c. cache c n)) (\<lambda>r. bind (value_set E r v) (\<lambda>r'.
     modify (\<lambda>c. c\<lparr>cache := (cache c)(n := r')\<rparr>)))"

definition set_returning :: "bool \<Rightarrow> unit run" where
  "set_returning b = modify (\<lambda>c. c\<lparr>isReturning := b\<rparr>)"

definition set_found :: "bool \<Rightarrow> unit run" where
  "set_found b = modify (\<lambda>c. c\<lparr>astNodeFound := b\<rparr>)"

definition set_site :: "node \<Rightarrow> call_site \<Rightarrow> unit run" where
  "set_site n st = modify (\<lambda>c. c\<lparr>call_sites := (call_sites c)(n := st)\<rparr>)"

definition set_jit :: "node \<Rightarrow> unit run" where
  "set_jit d = modify (\<lambda>c. c\<lparr>cur_jit_function := d\<rparr>)"

definition decl_at :: "node \<Rightarrow> decl_info run" where
  "decl_at d = gets (\<lambda>c. closure_decls c d)"

definition update_decl :: "node \<Rightarrow> (decl_info \<Rightarrow> decl_info) \<Rightarrow> unit run" where
  "update_decl d f =
     modify (\<lambda>c. c\<lparr>closure_decls := (closure_decls c)(d := f (closure_decls c d))\<rparr>)"

lemma ctx_apply [sem_simps]:
  "lookupSymbol x c = Inr (lookup_in (symbols c) (globalSymbols c) x, c)"
  "pushSymbols t c = Inr ((), c\<lparr>symbols := t # symbols c\<rparr>)"
  "popSymbols c = (if symbols c = [] then Inl OutOfBounds
     else Inr ((), c\<lparr>symbols := tl (symbols c)\<rparr>))"
  "set_returning b c = Inr ((), c\<lparr>isReturning := b\<rparr>)"
  "set_found b c = Inr ((), c\<lparr>astNodeFound := b\<rparr>)"
  "set_site n st c = Inr ((), c\<lparr>call_sites := (call_sites c)(n := st)\<rparr>)"
  "set_jit d c = Inr ((), c\<lparr>cur_jit_function := d\<rparr>)"
  "decl_at d c = Inr (closure_decls c d, c)"
  "update_decl d f c = Inr ((), c\<lparr>closure_decls := (closure_decls c)(d := f (closure_decls c d))\<rparr>)"
  by (simp_all add: lookupSymbol_def pushSymbols_def popSymbols_def set_returning_def set_found_def
      set_site_def set_jit_def decl_at_def update_decl_def sem_simps)

lemma setAddress_apply [sem_simps]:
  "setAddress x p c = (case symbols c of [] \<Rightarrow> Inl OutOfBounds
     | t # rest \<Rightarrow> Inr ((), c\<lparr>symbols := t(x \<mapsto> p) # rest\<rparr>))"
  by (simp add: setAddress_def sem_simps split: list.split)

section \<open>Globals and the collector\<close>

text \<open>
  What a \<open>Value\<close> in \<open>globals\<close> is for: if the global refers to an object, the holder shows the
  collector that object.
\<close>

definition global_visible :: "(addr \<rightharpoonup> block) \<Rightarrow> addr \<times> addr \<Rightarrow> bool" where
  "global_visible M g \<longleftrightarrow> (\<exists>v. M (fst g) = Some (CellBlock [v]) \<and> held M \<lparr>holder = snd g, object = v\<rparr>)"

lemma alloc_keeps:
  assumes "allocator_ok E" and "alloc E b s = Inr (a, s')"
  shows "mem s' = (mem s)(a \<mapsto> b)" and "mem s a = None" and "a \<noteq> 0" and "s' = s\<lparr>mem := mem s'\<rparr>"
  using assms(2) allocator_okD [OF assms(1)] by (auto simp: sem_simps split: option.splits)

text \<open>
  Storing into a global that exists bypasses its \<open>Value\<close>: after a global that held no object
  is assigned one, the collector does not see the object, although the storage refers to it.
\<close>

theorem assigned_global_invisible:
  assumes "(cell, h) \<in> set (globals c)" and "lookup_in (symbols c) (globalSymbols c) x = Some (cell, 0)"
    and "mem c cell = Some (CellBlock [old])" and "held (mem c) \<lparr>holder = h, object = old\<rparr>"
    and "\<not> needsGC old" and "needsGC v"
  shows "\<exists>c'. setSymbol E x v c = Inr ((), c') \<and> globals c' = globals c \<and>
    mem c' cell = Some (CellBlock [v]) \<and> \<not> global_visible (mem c') (cell, h)"
  using assms by (auto simp: setSymbol_def sem_simps store_def global_visible_def held_def)

text \<open>A global that held the number 5 is assigned the object at \<open>0x1010\<close>.\<close>

lemma assigned_global_invisible_witness:
  "\<exists>c'. setSymbol sample_env ''x'' 0x1010 (initial_context
       \<lparr>mem := [0x1000 \<mapsto> CellBlock [literalObject 5]], globals := [(0x1000, 0)],
        globalSymbols := [''x'' \<mapsto> (0x1000, 0)]\<rparr>) = Inr ((), c') \<and>
     mem c' 0x1000 = Some (CellBlock [0x1010]) \<and> \<not> global_visible (mem c') (0x1000, 0)"
proof -
  let ?c = "initial_context
       \<lparr>mem := [0x1000 \<mapsto> CellBlock [literalObject 5]], globals := [(0x1000, 0)],
        globalSymbols := [''x'' \<mapsto> (0x1000, 0)]\<rparr>"
  have "\<not> needsGC (literalObject 5)" "needsGC 0x1010"
    by (simp_all add: needsGC_def literalObject_def)
  moreover have "held (mem ?c) \<lparr>holder = 0, object = literalObject 5\<rparr>"
    by (simp add: held_def needsGC_def literalObject_def)
  ultimately show ?thesis
    using assigned_global_invisible [where c = ?c and cell = "0x1000" and h = "0" and x = "''x''"
        and old = "literalObject 5" and v = "0x1010" and E = sample_env]
    by (simp add: initial_context_def lookup_in_def) blast
qed

end
