(* ===== verification/Interpreter.thy ===== *)
theory Interpreter
  imports Context Method_Lookup
begin

text \<open>
  The interpreter (\<open>interpreter.cc\<close>): calls with their inline cache, the evaluation of every kind
  of node, closures and methods, and the trampolines by which compiled code and the runtime come
  back into the interpreter.
\<close>

section \<open>The machine\<close>

text \<open>
  What the evaluation of a syntax tree needs from outside: the environment, the closure
  declarations of the program by address, the two ways to call a function pointer, what compiling a
  function does to the state of the runtime, the number of records in the stack map that is
  registered for a compiled function, and a bound on the iterations of a loop.  The machine that
  calls with this very interpreter is built at the end of the theory.
\<close>

record machine =
  m_env :: env
  m_decls :: "node \<rightharpoonup> cdecl"
  m_method :: "code \<Rightarrow> obj \<Rightarrow> selector \<Rightarrow> obj list \<Rightarrow> obj run"
  m_closure :: "code \<Rightarrow> addr \<Rightarrow> obj list \<Rightarrow> obj run"
  m_compile :: "jit_entry \<Rightarrow> unit run"
  m_records :: "node \<rightharpoonup> nat"
  m_fuel :: nat

definition compileThreshold :: "32 word" where
  "compileThreshold = 10"

definition RECOMPILE_THRESHOLD :: "64 word" where
  "RECOMPILE_THRESHOLD = 10000"

definition the_decl :: "machine \<Rightarrow> node \<Rightarrow> cdecl run" where
  "the_decl m d = (case m_decls m d of
       Some D \<Rightarrow> return D
     | None \<Rightarrow> fail (if d = 0 then NullDeref else BadPointer))"

section \<open>Calls\<close>

definition callCompiledMethod ::
  "machine \<Rightarrow> code option \<Rightarrow> obj \<Rightarrow> selector \<Rightarrow> obj list \<Rightarrow> obj run" where
  "callCompiledMethod m f receiver sel args =
     (if 10 < length args then fail AssertFailed
      else case f of None \<Rightarrow> fail NullDeref | Some code \<Rightarrow> m_method m code receiver sel args)"

definition callCompiledClosure :: "machine \<Rightarrow> code option \<Rightarrow> addr \<Rightarrow> obj list \<Rightarrow> obj run" where
  "callCompiledClosure m f receiver args =
     (if 10 < length args then fail AssertFailed
      else case f of None \<Rightarrow> fail NullDeref | Some code \<Rightarrow> m_closure m code receiver args)"

text \<open>\<open>auto saved = cur_jit_function; ...; cur_jit_function = saved;\<close>\<close>

definition saving_jit :: "obj run \<Rightarrow> obj run" where
  "saving_jit call =
     bind (gets cur_jit_function) (\<lambda>saved. bind call (\<lambda>v. seq (set_jit saved) (return v)))"

definition closure_at :: "addr \<Rightarrow> (closure, 'a heap_scheme) sem" where
  "closure_at a = bind (block_at a) (\<lambda>b. case b of CloBlock cl \<Rightarrow> return cl | _ \<Rightarrow> fail BadPointer)"

definition call_closure_value :: "machine \<Rightarrow> obj \<Rightarrow> obj list \<Rightarrow> obj run" where
  "call_closure_value m ob args =
     bind (isa ob) (\<lambda>c.
     seq (assert (c = ClosureClass))
     (bind (closure_at ob) (\<lambda>cl.
      saving_jit (callCompiledClosure m (invoke cl) ob args))))"

text \<open>
  The accounting of a call site for a receiver of class \<open>c\<close> that is not the assumed one, and
  whether it asks for a new compilation of the function that runs.
\<close>

definition note_class :: "addr \<Rightarrow> call_site \<Rightarrow> bool \<times> call_site" where
  "note_class c st =
     (if type_assumption st = 0 then (False, st\<lparr>type_assumption := c\<rparr>)
      else if c = alternative_type st
      then (let count = alternative_type_count st + 1
            in if count > RECOMPILE_THRESHOLD
               then (True, st\<lparr>type_assumption := alternative_type st, alternative_type := 0,
                              alternative_type_count := 0\<rparr>)
               else (False, st\<lparr>alternative_type_count := count\<rparr>))
      else (False, st\<lparr>alternative_type := c, alternative_type_count := 1\<rparr>))"

text \<open>The same for any receiver class; the assumed class resets the counter.\<close>

definition site_step :: "addr \<Rightarrow> call_site \<Rightarrow> bool \<times> call_site" where
  "site_step c st =
     (if c = type_assumption st then (False, st\<lparr>alternative_type_count := 0\<rparr>)
      else note_class c st)"

text \<open>\<open>cur_jit_function->recompile = true\<close>\<close>

definition request_recompile :: "unit run" where
  "request_recompile = bind (gets cur_jit_function) (\<lambda>d.
     if d = 0 then fail NullDeref else update_decl d (\<lambda>i. i\<lparr>recompile := True\<rparr>))"

definition call_through ::
  "machine \<Rightarrow> method_ptr \<Rightarrow> obj \<Rightarrow> selector \<Rightarrow> obj list \<Rightarrow> obj run" where
  "call_through m mp ob sel args =
     bind (load_method_ptr mp) (\<lambda>f. saving_jit (callCompiledMethod m f ob sel args))"

definition cache_method :: "node \<Rightarrow> method_ptr \<Rightarrow> unit run" where
  "cache_method n mp =
     bind (gets (\<lambda>c. call_sites c n)) (\<lambda>st. set_site n (st\<lparr>cachedMethod := Some mp\<rparr>))"

definition look_up_and_call ::
  "machine \<Rightarrow> node \<Rightarrow> obj \<Rightarrow> selector \<Rightarrow> obj list \<Rightarrow> obj run" where
  "look_up_and_call m n ob sel args =
     bind (ptrToCompiledMethodForSelector ob sel) (\<lambda>mp.
     bind (load_method_ptr mp) (\<lambda>f.
     seq (assert (f \<noteq> None))
     (seq (cache_method n mp) (call_through m mp ob sel args))))"

definition call_method_value ::
  "machine \<Rightarrow> node \<Rightarrow> string \<Rightarrow> obj \<Rightarrow> obj list \<Rightarrow> obj run" where
  "call_method_value m n name ob args =
     bind (Runtime.lookupSelector name) (\<lambda>sel.
     seq (assert (sel \<noteq> 0))
     (bind (class_of_receiver ob) (\<lambda>c.
      bind (gets (\<lambda>c. call_sites c n)) (\<lambda>st.
      case site_step c st of (hot, st') \<Rightarrow>
        seq (set_site n st')
        (seq (if hot then request_recompile else return ())
         (case cachedMethod st of
            Some mp \<Rightarrow> if c = type_assumption st then call_through m mp ob sel args
                       else look_up_and_call m n ob sel args
          | None \<Rightarrow> look_up_and_call m n ob sel args))))))"

text \<open>\<open>Call::do_call\<close>, with \<open>eval_args\<close> for the loop over the arguments.\<close>

definition do_call ::
  "machine \<Rightarrow> node \<Rightarrow> string option \<Rightarrow> obj list run \<Rightarrow> obj \<Rightarrow> obj run" where
  "do_call m n meth eval_args ob =
     seq (assert (ob \<noteq> 0))
     (bind eval_args (\<lambda>args. case meth of
        None \<Rightarrow> call_closure_value m ob args
      | Some name \<Rightarrow> call_method_value m n name ob args))"

section \<open>Operators\<close>

text \<open>\<open>BinOpBase::performOp\<close>\<close>

definition performOp :: "machine \<Rightarrow> binop \<Rightarrow> obj \<Rightarrow> obj \<Rightarrow> obj run" where
  "performOp m op LHS RHS =
     (if isComparison op \<or> isInteger LHS \<and> isInteger RHS then lift (integerOp op LHS RHS)
      else case methodName op of
        None \<Rightarrow> fail NullDeref
      | Some name \<Rightarrow>
          bind (Runtime.lookupSelector name) (\<lambda>sel.
          bind (compiledMethodForSelector LHS sel) (\<lambda>mth.
          saving_jit (callCompiledMethod m mth LHS sel [RHS]))))"

text \<open>
  \<open>mysoreScriptAdd\<close>, \<open>Sub\<close>, \<open>Mul\<close> and \<open>Div\<close>, which compiled code calls; the selectors are the
  static ones.
\<close>

fun static_selector :: "binop \<Rightarrow> selector" where
  "static_selector Add = sel_add"
| "static_selector Subtract = sel_sub"
| "static_selector Multiply = sel_mul"
| "static_selector Divide = sel_div"
| "static_selector _ = 0"

definition mysoreScriptOp :: "machine \<Rightarrow> binop \<Rightarrow> obj \<Rightarrow> obj \<Rightarrow> obj run" where
  "mysoreScriptOp m op lhs rhs =
     (if isInteger lhs then lift (helperOp op lhs rhs)
      else bind (compiledMethodForSelector lhs (static_selector op)) (\<lambda>mth.
           callCompiledMethod m mth lhs (static_selector op) [rhs]))"

section \<open>Leaves\<close>

text \<open>\<open>Expression::evaluate\<close> around \<open>evaluateExpr\<close>.\<close>

definition cached :: "machine \<Rightarrow> expr \<Rightarrow> obj run \<Rightarrow> obj run" where
  "cached m e ev =
     bind (gets (\<lambda>c. object (cache c (expr_node e)))) (\<lambda>hit.
     if hit \<noteq> 0 then return hit
     else bind ev (\<lambda>r.
          seq (if isConstantExpression e then set_cache (m_env m) (expr_node e) r else return ())
          (return r)))"

definition eval_string :: "env \<Rightarrow> string \<Rightarrow> obj run" where
  "eval_string E st = new_string E (map of_char st)"

definition eval_var :: "string \<Rightarrow> obj run" where
  "eval_var x = bind (lookupSymbol x) (\<lambda>address. case address of
       Some p \<Rightarrow> load p
     | None \<Rightarrow> seq (emit (Diagnostic (''ERROR: '' @ x @ '' is not defined.''))) (return 0))"

definition eval_new :: "env \<Rightarrow> string \<Rightarrow> obj run" where
  "eval_new E cname = bind (lookupClass cname) (newObject E)"

section \<open>Closure objects\<close>

text \<open>
  The loop of \<open>ClosureDecl::evaluateExpr\<close> that copies the bound variables into the closure, with
  both of its stores and both of its increments of \<open>i\<close>.
\<close>

fun copy_bound_vars :: "addr \<Rightarrow> string list \<Rightarrow> nat \<Rightarrow> unit run" where
  "copy_bound_vars C [] i = return ()"
| "copy_bound_vars C (x # xs) i =
     bind (lookupSymbol x) (\<lambda>a. case a of
       None \<Rightarrow> fail NullDeref
     | Some p \<Rightarrow>
         bind (load p) (\<lambda>v.
         seq (store (C, i) v)
         (bind (lookupSymbol x) (\<lambda>address. case address of
            Some q \<Rightarrow>
              bind (load q) (\<lambda>w.
              seq (store (C, Suc i) w) (copy_bound_vars C xs (Suc (Suc i))))
          | None \<Rightarrow>
              seq (emit (Diagnostic (''ERROR: '' @ x @ '' is not defined.'')))
                (copy_bound_vars C xs (Suc i))))))"

definition check_decl :: "cdecl \<Rightarrow> unit run" where
  "check_decl D = modify (\<lambda>c. c\<lparr>closure_decls := check D (closure_decls c)\<rparr>)"

definition closureTrampolines :: "nat \<Rightarrow> code run" where
  "closureTrampolines n = (if n \<le> 10 then return (ClosureTrampoline n) else fail OutOfBounds)"

definition make_closure :: "machine \<Rightarrow> cdecl \<Rightarrow> obj run" where
  "make_closure m D =
     seq (check_decl D)
     (bind (decl_at (decl_node D)) (\<lambda>info.
      let slots = replicate (e_slots (m_env m) (length (di_boundVars info))) 0 in
      bind (alloc (m_env m)
        (CloBlock \<lparr>parameters = 0, invoke = None, cl_AST = 0, boundVars = slots\<rparr>)) (\<lambda>C.
      bind (lift (createSmallInteger (word_of_nat (length (decl_params D))))) (\<lambda>n.
      bind (case compiledClosure info of
              Some f \<Rightarrow> return f
            | None \<Rightarrow> closureTrampolines (length (decl_params D))) (\<lambda>f.
      seq (set_block C
        (CloBlock \<lparr>parameters = n, invoke = Some f, cl_AST = decl_node D, boundVars = slots\<rparr>))
      (seq (setSymbol (m_env m) (decl_name D) C)
      (seq (copy_bound_vars C (di_boundVars info) 0)
       (return C))))))))"

section \<open>Class declarations\<close>

text \<open>The \<open>Method\<close> structures of the methods of a class, each with a trampoline.\<close>

fun make_methods :: "cdecl list \<Rightarrow> methodStruct list run" where
  "make_methods [] = return []"
| "make_methods (D # Ds) =
     bind (Runtime.lookupSelector (decl_name D)) (\<lambda>sel.
     let n = length (decl_params D) in
     seq (assert (n \<le> 10))
     (bind (make_methods Ds) (\<lambda>ms.
      return (\<lparr>m_selector = sel, m_args = n, m_function = Some (MethodTrampoline n),
               m_AST = Some (decl_node D)\<rparr> # ms))))"

definition install_class :: "env \<Rightarrow> cls \<Rightarrow> unit run" where
  "install_class E k =
     bind (gets (\<lambda>c. e_new_class E (classes c))) (\<lambda>new. case new of
       None \<Rightarrow> fail NullDeref
     | Some cls \<Rightarrow>
         seq (modify (\<lambda>c. c\<lparr>classes := (classes c)(cls \<mapsto> k)\<rparr>)) (registerClass (className k) cls))"

definition declare_class ::
  "env \<Rightarrow> string option \<Rightarrow> string \<Rightarrow> string list \<Rightarrow> cdecl list \<Rightarrow> unit run" where
  "declare_class E name superName ivs Ds =
     (let clsName = (case name of Some n \<Rightarrow> n | None \<Rightarrow> superName) in
     bind (case name of Some _ \<Rightarrow> lookupClass superName | None \<Rightarrow> return 0) (\<lambda>super.
     bind (if super = 0 then return []
           else bind (class_at super) (\<lambda>k. return (indexedIVarNames k))) (\<lambda>inherited.
     bind (make_methods Ds) (\<lambda>ms.
     install_class E \<lparr>superclass = super, className = clsName, methodList = ms,
       indexedIVarNames = inherited @ ivs\<rparr>))))"

section \<open>Evaluation\<close>

text \<open>
  \<open>evaluateExpr\<close> of every expression class, \<open>interpret\<close> of every statement class, and the loops
  over arguments and statements.  \<open>Expression::evaluate\<close> is \<open>cached\<close> around \<open>evaluateExpr\<close>.
\<close>

primrec evaluateExpr :: "machine \<Rightarrow> expr \<Rightarrow> obj run"
  and evaluate_args :: "machine \<Rightarrow> expr list \<Rightarrow> nat \<Rightarrow> obj list run"
  and evaluate_init :: "machine \<Rightarrow> expr option \<Rightarrow> obj run"
  and interpret_stmt :: "machine \<Rightarrow> stmt \<Rightarrow> unit run"
  and interpret_stmts :: "machine \<Rightarrow> stmt list \<Rightarrow> unit run"
where
  "evaluateExpr m (Number n v) = return (literalObject v)"
| "evaluateExpr m (StringLiteral n st) = eval_string (m_env m) st"
| "evaluateExpr m (BinOp n op l r) =
     bind (cached m l (evaluateExpr m l)) (\<lambda>LHS.
     bind (cached m r (evaluateExpr m r)) (\<lambda>RHS. performOp m op LHS RHS))"
| "evaluateExpr m (VarRef n x) = eval_var x"
| "evaluateExpr m (Call n callee meth args) =
     bind (cached m callee (evaluateExpr m callee)) (do_call m n meth (evaluate_args m args 0))"
| "evaluateExpr m (ClosureExpr D) = make_closure m D"
| "evaluateExpr m (NewExpr n cname) = eval_new (m_env m) cname"
| "evaluate_args m [] = (\<lambda>i. return [])"
| "evaluate_args m (a # as) = (\<lambda>i.
     seq (assert (i < 10))
     (bind (cached m a (evaluateExpr m a)) (\<lambda>v.
      bind (evaluate_args m as (Suc i)) (\<lambda>vs. return (v # vs)))))"
| "evaluate_init m None = return 0"
| "evaluate_init m (Some e) = cached m e (evaluateExpr m e)"
| "interpret_stmt m (ExprStmt e) = bind (cached m e (evaluateExpr m e)) (\<lambda>_. return ())"
| "interpret_stmt m (Assignment n x e) =
     bind (cached m e (evaluateExpr m e)) (setSymbol (m_env m) x)"
| "interpret_stmt m (Decl n x init) = bind (evaluate_init m init) (setSymbol (m_env m) x)"
| "interpret_stmt m (Return n e) =
     bind (cached m e (evaluateExpr m e)) (\<lambda>v.
     seq (set_retVal (m_env m) v) (set_returning True))"
| "interpret_stmt m (IfStatement n c body) =
     bind (cached m c (evaluateExpr m c)) (\<lambda>v.
     if interpretedTruth v then interpret_stmts m body else return ())"
| "interpret_stmt m (WhileLoop n c body) =
     while_sem (m_fuel m)
       (bind (gets isReturning) (\<lambda>r.
        if r then return False
        else bind (cached m c (evaluateExpr m c)) (\<lambda>v. return (interpretedTruth v))))
       (interpret_stmts m body)"
| "interpret_stmt m (ClassDecl n name superName ivs Ds) = declare_class (m_env m) name superName ivs Ds"
| "interpret_stmts m [] = return ()"
| "interpret_stmts m (s # ss) =
     bind (gets isReturning) (\<lambda>r.
     if r then return () else seq (interpret_stmt m s) (interpret_stmts m ss))"

definition evaluate :: "machine \<Rightarrow> expr \<Rightarrow> obj run" where
  "evaluate m e = cached m e (evaluateExpr m e)"

section \<open>Closures and methods\<close>

text \<open>\<open>executionCount++\<close> on an \<open>int\<close>.\<close>

definition count_execution :: "node \<Rightarrow> unit run" where
  "count_execution d = bind (decl_at d) (\<lambda>i.
     if executionCount i = 0x7FFFFFFF then fail SignedOverflow
     else update_decl d (\<lambda>i. i\<lparr>executionCount := executionCount i + 1\<rparr>))"

definition needs_compile :: "env \<Rightarrow> decl_info \<Rightarrow> bool" where
  "needs_compile E i \<longleftrightarrow>
     forceCompiler E \<or> executionCount i = compileThreshold \<or> recompile i"

text \<open>
  \<open>compileMethod\<close> and \<open>compileClosure\<close>, as far as their caller sees them: what the compiler does to
  the state of the runtime, which is a parameter here (it interns selectors, fills the class table and
  evaluates string literals; \<open>compile_entry\<close> of \<open>Balance\<close> is the compiler's own), and a new function
  pointer.  What the function does is a parameter of the program (\<open>p_jit_method\<close>, \<open>p_jit_closure\<close>).
\<close>

definition install_code :: "machine \<Rightarrow> jit_entry \<Rightarrow> code run" where
  "install_code m e = seq (m_compile m e) (bind (gets (\<lambda>c. length (jit_table c))) (\<lambda>k.
     seq (modify (\<lambda>c. c\<lparr>jit_table := jit_table c @ [e]\<rparr>)) (return (JitCode k))))"

definition compile_as_method :: "machine \<Rightarrow> cdecl \<Rightarrow> addr \<times> nat \<Rightarrow> addr \<Rightarrow> unit run" where
  "compile_as_method m D mth cls =
     bind (install_code m (CompiledAsMethod (decl_node D) cls)) (\<lambda>f.
     bind (method_at mth) (\<lambda>me.
     seq (set_method mth (me\<lparr>m_function := Some f\<rparr>))
     (update_decl (decl_node D) (\<lambda>i. i\<lparr>compiledClosure := Some f, recompile := False\<rparr>))))"

definition compile_as_closure :: "machine \<Rightarrow> cdecl \<Rightarrow> addr \<Rightarrow> unit run" where
  "compile_as_closure m D self =
     bind (install_code m (CompiledAsClosure (decl_node D))) (\<lambda>f.
     bind (closure_at self) (\<lambda>cl.
     seq (set_block self (CloBlock (cl\<lparr>invoke := Some f\<rparr>)))
     (update_decl (decl_node D) (\<lambda>i. i\<lparr>compiledClosure := Some f, recompile := False\<rparr>))))"

text \<open>The first \<open>n\<close> objects of an argument array.\<close>

fun load_args :: "addr \<Rightarrow> nat \<Rightarrow> nat \<Rightarrow> obj list run" where
  "load_args a i 0 = return []"
| "load_args a i (Suc n) =
     bind (load (a, i)) (\<lambda>v. bind (load_args a (Suc i) n) (\<lambda>vs. return (v # vs)))"

fun bind_addresses :: "string list \<Rightarrow> addr \<Rightarrow> nat \<Rightarrow> unit run" where
  "bind_addresses [] a i = return ()"
| "bind_addresses (x # xs) a i = seq (setAddress x (a, i)) (bind_addresses xs a (Suc i))"

text \<open>The locals of a frame: null in storage of their own.\<close>

definition bind_locals :: "env \<Rightarrow> string list \<Rightarrow> unit run" where
  "bind_locals E xs =
     bind (alloc E (CellBlock (replicate (length xs) 0))) (\<lambda>locals. bind_addresses xs locals 0)"

text \<open>The end of \<open>interpretMethod\<close> and \<open>interpretClosure\<close>: the body, the result, the cleaning up.\<close>

definition run_body :: "machine \<Rightarrow> stmt list \<Rightarrow> obj run" where
  "run_body m body =
     seq (interpret_stmts m body)
     (bind (gets (\<lambda>c. object (retVal c))) (\<lambda>v.
      seq (set_retVal (m_env m) 0)
      (seq (set_returning False)
      (seq popSymbols (return v)))))"

definition method_frame ::
  "env \<Rightarrow> cdecl \<Rightarrow> string list \<Rightarrow> addr \<Rightarrow> obj \<Rightarrow> selector \<Rightarrow> addr \<Rightarrow> unit run" where
  "method_frame E D locals cls self sel args =
     seq (pushSymbols Map.empty)
     (seq (bind_addresses (decl_params D) args 0)
     (seq (bind_locals E locals)
     (bind (lift (createSmallInteger (ucast sel))) (\<lambda>cmdObj.
      bind (alloc E (CellBlock [self])) (\<lambda>self_addr.
      bind (alloc E (CellBlock [cmdObj])) (\<lambda>cmd_addr.
      seq (setAddress ''self'' (self_addr, 0))
      (seq (setAddress ''cmd'' (cmd_addr, 0))
      (bind (class_at cls) (\<lambda>k. bind_addresses (indexedIVarNames k) self 0)))))))))"

definition interpretMethod ::
  "machine \<Rightarrow> cdecl \<Rightarrow> addr \<times> nat \<Rightarrow> obj \<Rightarrow> selector \<Rightarrow> addr \<Rightarrow> obj run" where
  "interpretMethod m D mth self sel args =
     (let d = decl_node D; n = length (decl_params D) in
     seq (check_decl D)
     (bind (class_of_receiver self) (\<lambda>cls.
     seq (count_execution d)
     (bind (decl_at d) (\<lambda>i.
     seq (if needs_compile (m_env m) i then compile_as_method m D mth cls else return ())
     (bind (decl_at d) (\<lambda>i.
      if compiledClosure i \<noteq> None
      then bind (load_args args 0 n) (\<lambda>vs.
           bind (callCompiledMethod m (compiledClosure i) self sel vs) (\<lambda>v.
           seq (set_jit d) (return v)))
      else seq (method_frame (m_env m) D (di_decls i) cls self sel args)
             (run_body m (decl_body D)))))))))"

definition closure_frame :: "env \<Rightarrow> cdecl \<Rightarrow> decl_info \<Rightarrow> addr \<Rightarrow> addr \<Rightarrow> unit run" where
  "closure_frame E D i self args =
     seq (pushSymbols Map.empty)
     (seq (bind_addresses (decl_params D) args 0)
     (seq (bind_addresses (di_boundVars i) self 0)
     (bind_locals E (di_decls i))))"

definition interpretClosure :: "machine \<Rightarrow> cdecl \<Rightarrow> addr \<Rightarrow> addr \<Rightarrow> obj run" where
  "interpretClosure m D self args =
     (let d = decl_node D; n = length (decl_params D) in
     seq (count_execution d)
     (bind (decl_at d) (\<lambda>i.
     seq (if needs_compile (m_env m) i then compile_as_closure m D self else return ())
     (bind (decl_at d) (\<lambda>i.
      if compiledClosure i \<noteq> None
      then bind (load_args args 0 n) (callCompiledClosure m (compiledClosure i) self)
      else seq (closure_frame (m_env m) D i self args)
             (run_body m (decl_body D)))))))"

section \<open>Trampolines\<close>

text \<open>\<open>Obj args[] = { ... }\<close>; without arguments the array is the null pointer.\<close>

definition argument_array :: "env \<Rightarrow> obj list \<Rightarrow> addr run" where
  "argument_array E vs = (if vs = [] then return 0 else alloc E (CellBlock vs))"

definition closureTrampoline :: "machine \<Rightarrow> nat \<Rightarrow> addr \<Rightarrow> obj list \<Rightarrow> obj run" where
  "closureTrampoline m k C vs =
     (if length vs < k then fail MissingArgument
      else bind (argument_array (m_env m) (take k vs)) (\<lambda>args.
           bind (closure_at C) (\<lambda>cl.
           bind (the_decl m (cl_AST cl)) (\<lambda>D. interpretClosure m D C args))))"

definition methodTrampoline :: "machine \<Rightarrow> nat \<Rightarrow> obj \<Rightarrow> selector \<Rightarrow> obj list \<Rightarrow> obj run" where
  "methodTrampoline m k self sel vs =
     (if length vs < k then fail MissingArgument
      else bind (argument_array (m_env m) (take k vs)) (\<lambda>args.
           bind (class_of_receiver self) (\<lambda>cls.
           bind (methodForSelector cls sel) (\<lambda>mth. case mth of
             None \<Rightarrow> fail NullDeref
           | Some p \<Rightarrow>
               bind (method_at p) (\<lambda>me. case m_AST me of
                 None \<Rightarrow> fail NullDeref
               | Some d \<Rightarrow> bind (the_decl m d) (\<lambda>D. interpretMethod m D p self sel args))))))"

section \<open>The program\<close>

text \<open>
  A program: its environment, its closure declarations by address, what the functions that the
  compiler generates do, given the machine they call back into, what compiling them does, and how many
  records their stack maps have.
\<close>

record program =
  p_env :: env
  p_decls :: "node \<rightharpoonup> cdecl"
  p_jit_method :: "machine \<Rightarrow> nat \<Rightarrow> obj \<Rightarrow> selector \<Rightarrow> obj list \<Rightarrow> obj run"
  p_jit_closure :: "machine \<Rightarrow> nat \<Rightarrow> addr \<Rightarrow> obj list \<Rightarrow> obj run"
  p_compile :: "jit_entry \<Rightarrow> unit run"
  p_records :: "node \<rightharpoonup> nat"

fun enter_method ::
  "program \<Rightarrow> machine \<Rightarrow> code \<Rightarrow> obj \<Rightarrow> selector \<Rightarrow> obj list \<Rightarrow> obj run" where
  "enter_method P m (Native b) ob sel vs = call_native (p_env P) b ob sel vs"
| "enter_method P m (MethodTrampoline k) ob sel vs = methodTrampoline m k ob sel vs"
| "enter_method P m (ClosureTrampoline k) ob sel vs = fail BadPointer"
| "enter_method P m (JitCode k) ob sel vs = p_jit_method P m k ob sel vs"

fun enter_closure :: "program \<Rightarrow> machine \<Rightarrow> code \<Rightarrow> addr \<Rightarrow> obj list \<Rightarrow> obj run" where
  "enter_closure P m (ClosureTrampoline k) C vs = closureTrampoline m k C vs"
| "enter_closure P m (JitCode k) C vs = p_jit_closure P m k C vs"
| "enter_closure P m _ C vs = fail BadPointer"

text \<open>
  The machine whose calls nest at most \<open>n\<close> deep and whose loops run at most \<open>n\<close> times.
\<close>

primrec machine_at :: "program \<Rightarrow> nat \<Rightarrow> machine" where
  "machine_at P 0 = \<lparr>m_env = p_env P, m_decls = p_decls P,
     m_method = (\<lambda>_ _ _ _. fail Timeout), m_closure = (\<lambda>_ _ _. fail Timeout), m_compile = p_compile P, m_records = p_records P, m_fuel = 0\<rparr>"
| "machine_at P (Suc n) = \<lparr>m_env = p_env P, m_decls = p_decls P,
     m_method = enter_method P (machine_at P n), m_closure = enter_closure P (machine_at P n),
     m_compile = p_compile P, m_records = p_records P, m_fuel = Suc n\<rparr>"

definition run_program :: "program \<Rightarrow> nat \<Rightarrow> stmt list \<Rightarrow> unit run" where
  "run_program P n ss = interpret_stmts (machine_at P n) ss"

lemma machine_fields [simp]:
  "m_env (machine_at P n) = p_env P" "m_decls (machine_at P n) = p_decls P"
  "m_fuel (machine_at P n) = n" "m_compile (machine_at P n) = p_compile P" "m_records (machine_at P n) = p_records P"
  by (cases n; simp)+

declare machine_at.simps [simp del]

lemma machine_calls [simp]:
  "m_method (machine_at P (Suc n)) = enter_method P (machine_at P n)"
  "m_closure (machine_at P (Suc n)) = enter_closure P (machine_at P n)"
  by (simp_all add: machine_at.simps)

text \<open>
  Equations that run concrete programs: each unfolds a function only where it is applied to a
  context, so that a run is simplified from the front.
\<close>

lemmas evaluation_simps = evaluateExpr.simps evaluate_args.simps evaluate_init.simps
  interpret_stmt.simps interpret_stmts.simps

declare evaluation_simps [simp del]

lemma evaluation_apply:
  "interpret_stmts m [] c = Inr ((), c)"
  "interpret_stmts m (s # ss) c = (if isReturning c then Inr ((), c)
     else seq (interpret_stmt m s) (interpret_stmts m ss) c)"
  "interpret_stmt m (ExprStmt e) c = bind (cached m e (evaluateExpr m e)) (\<lambda>_. return ()) c"
  "interpret_stmt m (Assignment n x e) c = bind (cached m e (evaluateExpr m e)) (setSymbol (m_env m) x) c"
  "interpret_stmt m (Decl n x init) c = bind (evaluate_init m init) (setSymbol (m_env m) x) c"
  "interpret_stmt m (Return n e) c = bind (cached m e (evaluateExpr m e)) (\<lambda>v.
     seq (set_retVal (m_env m) v) (set_returning True)) c"
  "interpret_stmt m (IfStatement n b body) c = bind (cached m b (evaluateExpr m b)) (\<lambda>v.
     if interpretedTruth v then interpret_stmts m body else return ()) c"
  "interpret_stmt m (WhileLoop n b body) c = while_sem (m_fuel m)
     (bind (gets isReturning) (\<lambda>r. if r then return False
        else bind (cached m b (evaluateExpr m b)) (\<lambda>v. return (interpretedTruth v))))
     (interpret_stmts m body) c"
  "interpret_stmt m (ClassDecl n name superName ivs Ds) c =
     declare_class (m_env m) name superName ivs Ds c"
  "evaluate_init m None c = Inr (0, c)"
  "evaluate_init m (Some e) c = cached m e (evaluateExpr m e) c"
  "evaluate_args m [] i c = Inr ([], c)"
  "evaluate_args m (a # as) i c = seq (assert (i < 10))
     (bind (cached m a (evaluateExpr m a)) (\<lambda>v.
      bind (evaluate_args m as (Suc i)) (\<lambda>vs. return (v # vs)))) c"
  "evaluateExpr m (Number n v) c = Inr (literalObject v, c)"
  "evaluateExpr m (StringLiteral n st) c = eval_string (m_env m) st c"
  "evaluateExpr m (BinOp n op l r) c =
     bind (cached m l (evaluateExpr m l)) (\<lambda>LHS.
     bind (cached m r (evaluateExpr m r)) (\<lambda>RHS. performOp m op LHS RHS)) c"
  "evaluateExpr m (VarRef n x) c = eval_var x c"
  "evaluateExpr m (Call n callee meth args) c =
     bind (cached m callee (evaluateExpr m callee)) (do_call m n meth (evaluate_args m args 0)) c"
  "evaluateExpr m (ClosureExpr D) c = make_closure m D c"
  "evaluateExpr m (NewExpr n cname) c = eval_new (m_env m) cname c"
  by (simp_all add: evaluation_simps sem_simps)

lemmas run_simps = sem_simps evaluation_apply lookup_in_def held_def tag_eval no_value_def
  checked64_def fits64_def createSmallInteger_eq asr3_literalObject small_def integerOp_def
  setSymbol_def [THEN fun_cong] new_global_def [THEN fun_cong] value_set_def [THEN fun_cong]
  GC_free_def [THEN fun_cong] store_def [THEN fun_cong] load_def [THEN fun_cong]
  cached_def [THEN fun_cong] set_cache_def [THEN fun_cong] set_retVal_def [THEN fun_cong]
  eval_var_def [THEN fun_cong] eval_new_def [THEN fun_cong] eval_string_def [THEN fun_cong]
  do_call_def [THEN fun_cong] call_closure_value_def [THEN fun_cong]
  call_method_value_def [THEN fun_cong] look_up_and_call_def [THEN fun_cong]
  call_through_def [THEN fun_cong] cache_method_def [THEN fun_cong] saving_jit_def [THEN fun_cong]
  callCompiledMethod_def [THEN fun_cong] callCompiledClosure_def [THEN fun_cong]
  closure_at_def [THEN fun_cong] isa_def [THEN fun_cong] class_of_receiver_def [THEN fun_cong]
  performOp_def [THEN fun_cong]

end
