(* ===== verification/Effects.thy ===== *)
theory Effects
  imports MS_Prelude
begin

text \<open>
  Two ways to reason about state-and-error functions as wholes: the effect of a function, as a
  preorder its runs stay within, and the order by which one function returns at least where
  another does.
\<close>

section \<open>Effects\<close>

definition within :: "('s \<Rightarrow> 's \<Rightarrow> bool) \<Rightarrow> ('a, 's) sem \<Rightarrow> bool" where
  "within Q m \<longleftrightarrow> (\<forall>s a s'. m s = Inr (a, s') \<longrightarrow> Q s s')"

lemma withinI: "(\<And>s a s'. m s = Inr (a, s') \<Longrightarrow> Q s s') \<Longrightarrow> within Q m"
  by (simp add: within_def)

lemma withinD: "within Q m \<Longrightarrow> m s = Inr (a, s') \<Longrightarrow> Q s s'"
  by (simp add: within_def)

lemma within_weaken: "within Q m \<Longrightarrow> (\<And>s s'. Q s s' \<Longrightarrow> R s s') \<Longrightarrow> within R m"
  by (auto simp: within_def)

lemma within_fail [simp]: "within Q (fail e)"
  by (simp add: within_def sem_simps)

locale effect =
  fixes Q :: "'s \<Rightarrow> 's \<Rightarrow> bool"
  assumes refl: "Q s s"
    and trans: "Q s t \<Longrightarrow> Q t u \<Longrightarrow> Q s u"
begin

lemma within_leaf:
  "within Q (return a)" "within Q (gets f)" "within Q (assert b)" "within Q (lift r)"
  by (cases r; auto simp: within_def sem_simps refl split: if_splits)+

lemma within_bind: "within Q m \<Longrightarrow> (\<And>a. within Q (f a)) \<Longrightarrow> within Q (bind m f)"
  by (rule withinI, erule bind_InrE) (blast intro: trans dest: withinD)

lemma within_seq: "within Q m \<Longrightarrow> within Q k \<Longrightarrow> within Q (seq m k)"
  by (simp add: seq_def within_bind)

lemma within_if: "(b \<Longrightarrow> within Q m) \<Longrightarrow> (\<not> b \<Longrightarrow> within Q k) \<Longrightarrow> within Q (if b then m else k)"
  by simp

lemma within_option:
  "(x = None \<Longrightarrow> within Q m) \<Longrightarrow> (\<And>a. x = Some a \<Longrightarrow> within Q (f a)) \<Longrightarrow>
     within Q (case x of None \<Rightarrow> m | Some a \<Rightarrow> f a)"
  by (cases x) simp_all

lemma within_prod:
  "(\<And>a b. x = (a, b) \<Longrightarrow> within Q (f a b)) \<Longrightarrow> within Q (case x of (a, b) \<Rightarrow> f a b)"
  by (cases x) simp

lemma within_modify: "(\<And>s. Q s (f s)) \<Longrightarrow> within Q (modify f)"
  by (simp add: within_def sem_simps)

lemma within_while:
  assumes "within Q b" and "within Q c"
  shows "within Q (while_sem n b c)"
proof (induction n)
  case (Suc n)
  show ?case
    unfolding while_sem.simps by (intro within_bind within_if within_seq within_leaf assms Suc)
qed (simp add: while_sem.simps)

lemma within_pure: "within (=) m \<Longrightarrow> within Q m"
  by (erule within_weaken) (simp add: refl)

lemmas within_intros = within_leaf within_fail within_bind within_seq within_if within_option
  within_prod

end

text \<open>Functions that only read.\<close>

interpretation pure: effect "(=)"
  by unfold_locales auto

section \<open>The order of results\<close>

definition returns_more :: "('a, 's) sem \<Rightarrow> ('a, 's) sem \<Rightarrow> bool" where
  "returns_more m m' \<longleftrightarrow> (\<forall>s r. m s = Inr r \<longrightarrow> m' s = Inr r)"

lemma returns_moreD: "returns_more m m' \<Longrightarrow> m s = Inr r \<Longrightarrow> m' s = Inr r"
  by (cases r) (simp add: returns_more_def)

lemma returns_more_refl [simp, intro]: "returns_more m m"
  by (simp add: returns_more_def)

lemma returns_more_trans: "returns_more m m' \<Longrightarrow> returns_more m' m'' \<Longrightarrow> returns_more m m''"
  by (simp add: returns_more_def)

lemma returns_more_timeout [simp]: "returns_more (fail Timeout) m"
  by (simp add: returns_more_def sem_simps)

lemma returns_more_bind:
  "returns_more m m' \<Longrightarrow> (\<And>a. returns_more (f a) (f' a)) \<Longrightarrow> returns_more (bind m f) (bind m' f')"
  by (auto simp: returns_more_def sem_simps split: sum.splits)

lemma returns_more_seq: "returns_more m m' \<Longrightarrow> returns_more k k' \<Longrightarrow> returns_more (seq m k) (seq m' k')"
  by (simp add: seq_def returns_more_bind)

lemma returns_more_if:
  "(b \<Longrightarrow> returns_more m m') \<Longrightarrow> (\<not> b \<Longrightarrow> returns_more k k') \<Longrightarrow>
     returns_more (if b then m else k) (if b then m' else k')"
  by simp

lemma returns_more_option:
  "returns_more m m' \<Longrightarrow> (\<And>a. returns_more (f a) (f' a)) \<Longrightarrow>
     returns_more (case x of None \<Rightarrow> m | Some a \<Rightarrow> f a) (case x of None \<Rightarrow> m' | Some a \<Rightarrow> f' a)"
  by (cases x) simp_all

lemma returns_more_prod:
  "(\<And>a b. x = (a, b) \<Longrightarrow> returns_more (f a b) (f' a b)) \<Longrightarrow>
     returns_more (case x of (a, b) \<Rightarrow> f a b) (case x of (a, b) \<Rightarrow> f' a b)"
  by (cases x) simp

lemma returns_more_while:
  assumes "returns_more b b'" and "returns_more c c'" and "n \<le> n'"
  shows "returns_more (while_sem n b c) (while_sem n' b' c')"
proof -
  have "returns_more (while_sem n b c) (while_sem n b' c')"
  proof (induction n)
    case (Suc n)
    show ?case
      unfolding while_sem.simps
      by (intro returns_more_bind returns_more_if returns_more_seq returns_more_refl assms(1,2) Suc)
  qed (simp add: while_sem.simps)
  moreover have "returns_more (while_sem n b' c') (while_sem n' b' c')"
    unfolding returns_more_def by (intro allI impI, erule while_more_fuel [OF _ assms(3)])
  ultimately show ?thesis by (rule returns_more_trans)
qed

lemmas more_intros = returns_more_bind returns_more_seq returns_more_if returns_more_option
  returns_more_prod returns_more_while returns_more_refl

end
