(* ===== verification/Fuel.thy ===== *)
theory Fuel
  imports Interpreter Effects
begin

text \<open>
  The bound of \<open>machine_at\<close> on the depth of calls and the iterations of loops never changes what
  a program does: a run that ends within one bound is the same run within every larger bound.
\<close>

definition machine_le :: "machine \<Rightarrow> machine \<Rightarrow> bool" where
  "machine_le m m' \<longleftrightarrow> m_env m' = m_env m \<and> m_decls m' = m_decls m \<and> m_compile m' = m_compile m \<and> m_records m' = m_records m \<and> m_fuel m \<le> m_fuel m' \<and>
     (\<forall>f ob sel vs. returns_more (m_method m f ob sel vs) (m_method m' f ob sel vs)) \<and>
     (\<forall>f C vs. returns_more (m_closure m f C vs) (m_closure m' f C vs))"

lemma machine_leD:
  assumes "machine_le m m'"
  shows "m_env m' = m_env m" and "m_decls m' = m_decls m" and "m_fuel m \<le> m_fuel m'"
    and "returns_more (m_method m f ob sel vs) (m_method m' f ob sel vs)"
    and "returns_more (m_closure m f C vs) (m_closure m' f C vs)"
    and "m_compile m' = m_compile m" and "m_records m' = m_records m"
  using assms by (auto simp: machine_le_def)

lemma saving_jit_more: "returns_more a b \<Longrightarrow> returns_more (saving_jit a) (saving_jit b)"
  unfolding saving_jit_def by (intro more_intros)

lemma call_more:
  assumes "machine_le m m'"
  shows "returns_more (callCompiledMethod m f ob sel vs) (callCompiledMethod m' f ob sel vs)"
    and "returns_more (callCompiledClosure m f C vs) (callCompiledClosure m' f C vs)"
  unfolding callCompiledMethod_def callCompiledClosure_def
  by (intro more_intros machine_leD [OF assms])+

lemmas call_intros = more_intros saving_jit_more call_more

lemma do_call_more:
  assumes "machine_le m m'" and "returns_more as as'"
  shows "returns_more (do_call m n meth as ob) (do_call m' n meth as' ob)"
  unfolding do_call_def call_closure_value_def call_method_value_def look_up_and_call_def
    call_through_def
  by (intro call_intros assms)

lemma performOp_more:
  assumes "machine_le m m'"
  shows "returns_more (performOp m op l r) (performOp m' op l r)"
  unfolding performOp_def by (intro call_intros assms)

lemma cached_more:
  assumes "machine_le m m'" and "returns_more a b"
  shows "returns_more (cached m e a) (cached m' e b)"
  unfolding cached_def machine_leD(1) [OF assms(1)] by (intro more_intros assms)

lemma make_closure_more: "machine_le m m' \<Longrightarrow> make_closure m' D = make_closure m D"
  unfolding make_closure_def by (simp add: machine_leD(1))

lemma evaluation_more:
  assumes "machine_le m m'"
  shows "returns_more (evaluateExpr m e) (evaluateExpr m' e)"
    and "(d :: cdecl) = d"
    and "returns_more (interpret_stmt m s) (interpret_stmt m' s)"
    and "\<And>i. returns_more (evaluate_args m es i) (evaluate_args m' es i)"
    and "returns_more (interpret_stmts m ss) (interpret_stmts m' ss)"
    and "returns_more (evaluate_init m i) (evaluate_init m' i)"
proof (induction e and d and s and es and ss and i rule: syntax_induct)
qed (simp_all add: evaluation_simps machine_leD(1) [OF assms] make_closure_more [OF assms] split del: if_split,
   (intro call_intros cached_more performOp_more do_call_more machine_leD(3) assms | assumption)+)

lemma run_body_more:
  assumes "machine_le m m'"
  shows "returns_more (run_body m body) (run_body m' body)"
  unfolding run_body_def machine_leD(1) [OF assms]
  by (intro more_intros evaluation_more assms)

lemma compile_more:
  assumes "machine_le m m'"
  shows "compile_as_method m' D mth cls = compile_as_method m D mth cls"
    and "compile_as_closure m' D self = compile_as_closure m D self"
  unfolding compile_as_method_def compile_as_closure_def install_code_def machine_leD(6) [OF assms]
  by (rule HOL.refl)+

lemma interpretMethod_more:
  assumes "machine_le m m'"
  shows "returns_more (interpretMethod m D mth self sel args) (interpretMethod m' D mth self sel args)"
  unfolding interpretMethod_def Let_def machine_leD(1) [OF assms] compile_more [OF assms]
  by (intro call_intros run_body_more assms)

lemma interpretClosure_more:
  assumes "machine_le m m'"
  shows "returns_more (interpretClosure m D C args) (interpretClosure m' D C args)"
  unfolding interpretClosure_def Let_def machine_leD(1) [OF assms] compile_more [OF assms]
  by (intro call_intros run_body_more assms)

text \<open>Generated code uses the machine only to call, so more of the machine gives more of it.\<close>

definition jit_monotone :: "program \<Rightarrow> bool" where
  "jit_monotone P \<longleftrightarrow> (\<forall>m m'. machine_le m m' \<longrightarrow>
     (\<forall>k ob sel vs. returns_more (p_jit_method P m k ob sel vs) (p_jit_method P m' k ob sel vs)) \<and>
     (\<forall>k C vs. returns_more (p_jit_closure P m k C vs) (p_jit_closure P m' k C vs)))"

lemma trampoline_more:
  assumes "machine_le m m'"
  shows "returns_more (methodTrampoline m k self sel vs) (methodTrampoline m' k self sel vs)"
    and "returns_more (closureTrampoline m k C vs) (closureTrampoline m' k C vs)"
  unfolding methodTrampoline_def closureTrampoline_def the_decl_def machine_leD(1,2) [OF assms]
  by (intro more_intros interpretMethod_more interpretClosure_more assms)+

lemma enter_more:
  assumes "jit_monotone P" and "machine_le m m'"
  shows "returns_more (enter_method P m f ob sel vs) (enter_method P m' f ob sel vs)"
    and "returns_more (enter_closure P m f C vs) (enter_closure P m' f C vs)"
  using assms(1,2)
  by (cases f; simp add: trampoline_more [OF assms(2)] jit_monotone_def)+

lemma machine_le_Suc: "jit_monotone P \<Longrightarrow> machine_le (machine_at P n) (machine_at P (Suc n))"
proof (induction n)
  case 0
  then show ?case by (simp add: machine_le_def machine_at.simps(1))
next
  case (Suc n)
  then show ?case
    using enter_more [OF Suc.prems Suc.IH [OF Suc.prems]]
    by (subst machine_le_def) simp
qed

lemma machine_le_refl: "machine_le m m"
  by (simp add: machine_le_def)

lemma machine_le_trans: "machine_le m m' \<Longrightarrow> machine_le m' m'' \<Longrightarrow> machine_le m m''"
  unfolding machine_le_def by (simp, blast intro: returns_more_trans)

lemma machine_le: "jit_monotone P \<Longrightarrow> n \<le> n' \<Longrightarrow> machine_le (machine_at P n) (machine_at P n')"
proof (induction n')
  case (Suc k)
  then show ?case
    by (cases "n = Suc k") (auto intro: machine_le_refl machine_le_trans machine_le_Suc)
qed (simp add: machine_le_refl)

section \<open>Results\<close>

text \<open>
  A program that ends has one result: if it ends within the bound \<open>n\<close>, then every run with a
  bound that is enough ends in the same context, and every larger bound is enough.
\<close>

theorem result_unique:
  assumes "jit_monotone P" and "run_program P n ss c = Inr r"
  shows "(n \<le> k \<longrightarrow> run_program P k ss c = Inr r) \<and>
    (run_program P k ss c = Inr r' \<longrightarrow> r' = r)"
proof -
  have up: "run_program P j ss c = Inr q" if "run_program P i ss c = Inr q" "i \<le> j" for i j q
    using that returns_moreD [OF evaluation_more(5) [OF machine_le [OF assms(1) that(2)]]]
    unfolding run_program_def by blast
  have "r' = r" if "run_program P k ss c = Inr r'"
    using up [OF assms(2), of "max n k"] up [OF that, of "max n k"] by simp
  then show ?thesis using up [OF assms(2)] by blast
qed

text \<open>A program that counts a global down to zero.\<close>

definition interpreted_program :: program where
  "interpreted_program = \<lparr>p_env = sample_env, p_decls = Map.empty,
     p_jit_method = (\<lambda>m k ob sel vs. fail Unreachable),
     p_jit_closure = (\<lambda>m k C vs. fail Unreachable), p_compile = (\<lambda>e. return ()), p_records = Map.empty\<rparr>"

definition countdown :: "stmt list" where
  "countdown =
     [Decl 0x5000 ''n'' (Some (Number 0x5008 2)),
      WhileLoop 0x5010 (VarRef 0x5018 ''n'')
        [Assignment 0x5020 ''n'' (BinOp 0x5028 Subtract (VarRef 0x5030 ''n'') (Number 0x5038 1))]]"

lemma interpreted_fields [simp]:
  "p_env interpreted_program = sample_env" "p_decls interpreted_program = Map.empty"
  by (simp_all add: interpreted_program_def)

lemma interpreted_jit: "jit_monotone interpreted_program"
  by (simp add: jit_monotone_def interpreted_program_def)

lemma result_unique_witness:
  "\<exists>r. run_program interpreted_program 3 countdown initial_context = Inr r \<and>
     run_program interpreted_program 1000000 countdown initial_context = Inr r"
proof -
  have "\<exists>r. run_program interpreted_program 3 countdown initial_context = Inr r"
    by (simp add: run_program_def countdown_def initial_context_def
        numeral_3_eq_3 run_simps first_free_eval)
  then obtain r where r: "run_program interpreted_program 3 countdown initial_context = Inr r"
    ..
  have "run_program interpreted_program 1000000 countdown initial_context = Inr r"
    using result_unique [OF interpreted_jit r, of 1000000 r] by linarith
  with r show ?thesis by (intro exI conjI)
qed

end
