(* ===== verification/Call_Discipline.thy ===== *)
theory Call_Discipline
  imports Fuel
begin

text \<open>
  What calls and evaluations leave as they found it: the contract between the interpreter and an
  invariant of its context, proved once for every invariant, and its two instances, the discipline
  of symbol tables and return values and the well-formedness of the class hierarchy.
\<close>

section \<open>Contexts that agree\<close>

text \<open>
  What most operations leave alone: the symbol tables, the state of a return, the classes.
\<close>

definition keeps :: "ctx \<Rightarrow> ctx \<Rightarrow> bool" where
  "keeps c c' \<longleftrightarrow> symbols c' = symbols c \<and> isReturning c' = isReturning c \<and>
     object (retVal c') = object (retVal c) \<and> classes c' = classes c \<and> classTable c' = classTable c"

interpretation kept: effect keeps
  by unfold_locales (auto simp: keeps_def)

lemma keeps_fields [simp]:
  "keeps c (c\<lparr>mem := v1\<rparr>)" "keeps c (c\<lparr>selectors := v2, selNames := v3\<rparr>)"
  "keeps c (c\<lparr>console := v4\<rparr>)" "keeps c (c\<lparr>input := v5\<rparr>)" "keeps c (c\<lparr>cur_jit_function := v6\<rparr>)"
  "keeps c (c\<lparr>globals := v7, globalSymbols := v8\<rparr>)" "keeps c (c\<lparr>cache := v9\<rparr>)"
  "keeps c (c\<lparr>call_sites := v10\<rparr>)" "keeps c (c\<lparr>closure_decls := v11\<rparr>)"
  "keeps c (c\<lparr>jit_table := v12\<rparr>)" "keeps c (c\<lparr>astNodeFound := v13\<rparr>)"
  by (simp_all add: keeps_def)

named_theorems keeping \<open>operations within \<open>keeps\<close>\<close>

lemma heap_keeps [keeping]:
  "within keeps (block_at a)" "within keeps (set_block a b)" "within keeps (load p)"
  "within keeps (store p v)" "within keeps (alloc E b)" "within keeps (isa a)"
  "within keeps (closure_at a)" "within keeps (GC_free a)" "within keeps (value_set E r v)"
proof -
  show b: "within keeps (block_at a)" for a
    by (simp add: within_def sem_simps kept.refl split: option.splits)
  show s: "within keeps (set_block a b)" for a b
    by (simp add: within_def sem_simps)
  show "within keeps (load p)" "within keeps (closure_at a)" "within keeps (isa a)"
    by (auto simp: within_def sem_simps load_def closure_at_def isa_def kept.refl
        split: option.splits block.splits if_splits)
  show st: "within keeps (store p v)" for p v
    unfolding store_def by (intro kept.within_intros b s)
  show al: "within keeps (alloc E b)" for b
    by (auto simp: within_def sem_simps split: option.splits)
  show f: "within keeps (GC_free a)" for a
    unfolding GC_free_def by (rule kept.within_modify) simp
  show "within keeps (value_set E r v)"
    unfolding value_set_def by (intro kept.within_intros al f st)
qed

lemma context_keeps [keeping]:
  "within keeps (lookupSymbol x)" "within keeps (set_site n st)" "within keeps (set_jit d)"
  "within keeps (decl_at d)" "within keeps (update_decl d f)" "within keeps (emit ev)"
  "within keeps (check_decl D)" "within keeps (Runtime.lookupSelector str)"
  "within keeps (set_found b)"
  by (simp_all add: within_def sem_simps kept.refl check_decl_def Runtime.lookupSelector_def
      split: prod.split)

lemma symbol_keeps [keeping]:
  "within keeps (new_global E x v)" "within keeps (setSymbol E x v)" "within keeps (set_cache E n v)"
  unfolding setSymbol_def new_global_def set_cache_def
  by (intro kept.within_intros keeping kept.within_modify, simp)+

lemma runtime_keeps [keeping]:
  "within keeps (class_at k)" "within keeps (class_of_receiver ob)"
  "within keeps (ptrToCompiledMethodForSelector ob sel)" "within keeps (methodForSelector k sel)"
  "within keeps (method_at p)" "within keeps (load_method_ptr mp)"
  "within keeps (compiledMethodForSelector ob sel)" "within keeps (newObject E k)"
proof -
  show c: "within keeps (class_at k)" for k
    by (auto simp: within_def sem_simps kept.refl split: option.splits)
  show r: "within keeps (class_of_receiver ob)"
    unfolding class_of_receiver_def by (intro kept.within_intros keeping)
  show s: "within keeps (methodForSelector k sel)" for k
    by (auto simp: within_def methodForSelector_def kept.refl split: option.splits sum.splits)
  have g: "within keeps (getClassFor ob)"
    unfolding getClassFor_def by (intro kept.within_intros keeping)
  show p: "within keeps (ptrToCompiledMethodForSelector ob sel)"
    unfolding ptrToCompiledMethodForSelector_def by (intro kept.within_intros g s)
  show m: "within keeps (method_at p)" for p
    unfolding method_at_def by (intro kept.within_intros c)
  show l: "within keeps (load_method_ptr mp)" for mp
    unfolding load_method_ptr_def by (cases mp) (simp_all add: kept.within_bind kept.within_leaf m)
  show "within keeps (compiledMethodForSelector ob sel)"
    unfolding compiledMethodForSelector_def by (intro kept.within_intros p l)
  show "within keeps (newObject E k)"
    unfolding newObject_def by (intro kept.within_intros keeping c)
qed

lemma evaluation_keeps [keeping]:
  "within keeps (eval_string E st)" "within keeps (eval_var x)" "within keeps (request_recompile)"
  "within keeps (cache_method n mp)" "within keeps (closureTrampolines k)"
  "within keeps (count_execution d)"
  unfolding eval_string_def new_string_def eval_var_def request_recompile_def cache_method_def
    closureTrampolines_def count_execution_def
  by (intro kept.within_intros keeping kept.within_modify keeps_fields | simp)+

lemma copy_bound_vars_keeps [keeping]: "within keeps (copy_bound_vars C xs i)"
  by (induction C xs i rule: copy_bound_vars.induct)
    (simp add: kept.within_leaf, unfold copy_bound_vars.simps, intro kept.within_intros keeping)

lemma make_closure_keeps [keeping]: "within keeps (make_closure m D)"
  unfolding make_closure_def Let_def by (intro kept.within_intros keeping)

lemma string_keeps [keeping]:
  "within keeps (as_string a)" "within keeps (string_bytes st)" "within keeps (is_string_arg ob)"
  "within keeps (new_string E bs)" "within keeps (fd_of f)"
  unfolding as_string_def string_bytes_def is_string_arg_def new_string_def fd_of_def
  by (intro kept.within_intros keeping
      | simp split: block.split list.split add: kept.within_leaf)+

lemma array_keeps [keeping]:
  "within keeps (index_buffer buf i)" "within keeps (copied_prefix buf len)"
  "within keeps (grow_buffer E arr i n)" "within keeps (arg args j)"
  unfolding index_buffer_def copied_prefix_def grow_buffer_def Let_def arg_def
  by (intro kept.within_intros keeping)+

lemma primitive_keeps [keeping]:
  "within keeps (FileOpen E f sel a)" "within keeps (FileClose f sel)"
  "within keeps (FileReadLine E f sel)" "within keeps (FileWrite f sel a)"
  "within keeps (StringLength f sel)" "within keeps (StringCharAt f sel a)"
  "within keeps (StringDump f sel)" "within keeps (StringPrint f sel)"
  "within keeps (StringAdd E f sel a)" "within keeps (StringCmp E f sel a)"
  "within keeps (NumberDump f sel)" "within keeps (NumberPrint f sel)"
  "within keeps (ArrayLength f sel)" "within keeps (ArrayAt f sel a)"
  "within keeps (ArrayAtPut E f sel a v)"
  unfolding FileOpen_def FileClose_def FileReadLine_def FileWrite_def StringLength_def
    StringCharAt_def StringDump_def StringPrint_def StringAdd_def StringCmp_def NumberDump_def
    NumberPrint_def ArrayLength_def ArrayAt_def ArrayAtPut_def Let_def
  by (intro kept.within_intros keeping kept.within_modify keeps_fields)+

lemma native_keeps [keeping]: "within keeps (call_native E b ob sel args)"
  by (cases b) (simp_all only: call_native.simps, (intro kept.within_bind keeping)+)

section \<open>The contract\<close>

text \<open>
  A frame is opened by pushing a symbol table; \<open>opens\<close> says that nothing else of what \<open>keeps\<close>
  compares has changed.
\<close>

definition opens :: "unit run \<Rightarrow> bool" where
  "opens fr \<longleftrightarrow> (\<forall>c c'. fr c = Inr ((), c') \<longrightarrow>
     symbols c' \<noteq> [] \<and> keeps c (c'\<lparr>symbols := tl (symbols c')\<rparr>))"

text \<open>Operations that change only the table on top of the stack.\<close>

definition tops :: "ctx \<Rightarrow> ctx \<Rightarrow> bool" where
  "tops c c' \<longleftrightarrow> (symbols c \<noteq> [] \<longrightarrow> symbols c' \<noteq> [] \<and>
     keeps (c\<lparr>symbols := tl (symbols c)\<rparr>) (c'\<lparr>symbols := tl (symbols c')\<rparr>))"

interpretation topping: effect tops
  by unfold_locales (auto simp: tops_def keeps_def)

lemma keeps_tops: "within keeps m \<Longrightarrow> within tops m"
  by (erule within_weaken) (auto simp: tops_def keeps_def)

lemma setAddress_tops: "within tops (setAddress x p)"
  by (auto simp: within_def sem_simps tops_def keeps_def split: list.splits)

lemma bind_addresses_tops: "within tops (bind_addresses xs a i)"
proof (induction xs a i rule: bind_addresses.induct)
qed (simp_all only: bind_addresses.simps, (intro topping.within_intros setAddress_tops | assumption)+)

lemma opens_push: "within tops m \<Longrightarrow> opens (seq (pushSymbols t) m)"
  by (auto simp: opens_def within_def sem_simps tops_def keeps_def)

lemma frames_open: "opens (method_frame E D ls cls self sel args)" "opens (closure_frame E D i self args)"
  unfolding method_frame_def closure_frame_def bind_locals_def
  by (intro opens_push topping.within_intros setAddress_tops bind_addresses_tops
      keeping [THEN keeps_tops])+

definition calls_in :: "(ctx \<Rightarrow> ctx \<Rightarrow> bool) \<Rightarrow> machine \<Rightarrow> bool" where
  "calls_in R m \<longleftrightarrow> (\<forall>f ob sel vs. within R (m_method m f ob sel vs)) \<and>
     (\<forall>f C vs. within R (m_closure m f C vs)) \<and> (\<forall>e. within R (m_compile m e))"

text \<open>
  What is assumed of generated code: it stays within the relation if what it calls does; and of its
  compilation.
\<close>

definition jit_in :: "(ctx \<Rightarrow> ctx \<Rightarrow> bool) \<Rightarrow> program \<Rightarrow> bool" where
  "jit_in R P \<longleftrightarrow> (\<forall>m. m_env m = p_env P \<and> calls_in R m \<longrightarrow>
     (\<forall>k ob sel vs. within R (p_jit_method P m k ob sel vs)) \<and>
     (\<forall>k C vs. within R (p_jit_closure P m k C vs))) \<and> (\<forall>e. within R (p_compile P e))"

text \<open>
  A relation \<open>R\<close> that expressions and calls keep to and a relation \<open>Q\<close> that statements keep to.
  The laws are about the few operations that do more than \<open>keeps\<close> allows.
\<close>

locale discipline =
  fixes Q R :: "ctx \<Rightarrow> ctx \<Rightarrow> bool" and E :: env
  assumes Q_refl: "Q c c" and Q_trans: "Q c d \<Longrightarrow> Q d e \<Longrightarrow> Q c e"
    and R_refl: "R c c" and R_trans: "R c d \<Longrightarrow> R d e \<Longrightarrow> R c e"
    and R_Q: "R c d \<Longrightarrow> Q c d"
    and keeps_R: "keeps c d \<Longrightarrow> R c d"
    and lookupClass_R: "within R (lookupClass nm)"
    and set_method_R: "within R (set_method p me)"
    and declare_class_Q: "within Q (declare_class E name superName ivs Ds)"
    and return_Q: "within Q (seq (set_retVal E v) (set_returning True))"
    and frame_R: "opens fr \<Longrightarrow> m_env m = E \<Longrightarrow> within Q (interpret_stmts m body) \<Longrightarrow>
      within R (seq fr (run_body m body))"
begin

sublocale expressions: effect R
  by unfold_locales (rule R_refl, erule (1) R_trans)

sublocale statements: effect Q
  by unfold_locales (rule Q_refl, erule (1) Q_trans)

lemma kept_R: "within keeps m \<Longrightarrow> within R m"
  by (erule within_weaken) (rule keeps_R)

lemma kept_Q: "within keeps m \<Longrightarrow> within Q m"
  by (erule within_weaken) (intro R_Q keeps_R)

lemma R_within_Q: "within R m \<Longrightarrow> within Q m"
  by (erule within_weaken) (rule R_Q)

lemmas kept_intros = keeping [THEN kept_R]

lemma saving_jit_R: "within R m \<Longrightarrow> within R (saving_jit m)"
  unfolding saving_jit_def by (intro expressions.within_intros kept_intros)

lemma calls_R:
  assumes "calls_in R m"
  shows "within R (callCompiledMethod m f ob sel vs)" and "within R (callCompiledClosure m f C vs)"
  using assms unfolding callCompiledMethod_def callCompiledClosure_def calls_in_def
  by (intro expressions.within_intros; simp)+

lemma do_call_R:
  assumes "calls_in R m" and "within R as"
  shows "within R (do_call m n meth as ob)"
  unfolding do_call_def call_closure_value_def call_method_value_def look_up_and_call_def
    call_through_def
  by (intro expressions.within_intros saving_jit_R calls_R kept_intros assms)

lemma performOp_R: "calls_in R m \<Longrightarrow> within R (performOp m op l r)"
  unfolding performOp_def
  by (intro expressions.within_intros saving_jit_R calls_R kept_intros)

lemma cached_R: "within R ev \<Longrightarrow> within R (cached m e ev)"
  unfolding cached_def by (intro expressions.within_intros kept_intros)

lemma cached_Q: "within R ev \<Longrightarrow> within Q (cached m e ev)"
  by (intro R_within_Q cached_R)

lemma eval_new_R: "within R (eval_new E' x)"
  unfolding eval_new_def by (intro expressions.within_intros lookupClass_R kept_intros)

lemma evaluation_within:
  assumes "calls_in R m" and "m_env m = E"
  shows "within R (evaluateExpr m e)"
    and "(d :: cdecl) = d"
    and "within Q (interpret_stmt m s)"
    and "\<And>i. within R (evaluate_args m es i)"
    and "within Q (interpret_stmts m ss)"
    and "within R (evaluate_init m i)"
proof (induction e and d and s and es and ss and i rule: syntax_induct)
  case (Return n e)
  show ?case
    unfolding evaluation_simps assms(2) by (rule statements.within_bind [OF cached_Q return_Q]) (rule Return)
qed (simp_all only: evaluation_simps assms(2),
   (intro expressions.within_intros cached_R performOp_R do_call_R eval_new_R kept_intros assms(1)
   | intro statements.within_intros statements.within_while declare_class_Q cached_Q
      kept_Q [OF symbol_keeps(2)]
   | assumption | rule HOL.refl | rule R_within_Q, assumption)+)

lemma load_args_keeps: "within keeps (load_args a i n)"
  by (induction a i n rule: load_args.induct)
    (simp_all only: load_args.simps, (intro kept.within_intros keeping | assumption)+)

lemma install_code_R:
  assumes "calls_in R m"
  shows "within R (install_code m e)"
proof -
  have "within R (modify (\<lambda>c. c\<lparr>jit_table := jit_table c @ [e]\<rparr>))" by (rule kept_R [OF kept.within_modify]) simp
  moreover have "within R (m_compile m e)" using assms by (simp add: calls_in_def)
  ultimately show ?thesis unfolding install_code_def by (intro expressions.within_intros)
qed

lemma compile_R:
  assumes "calls_in R m"
  shows "within R (compile_as_method m D mth cls)" and "within R (compile_as_closure m D self)"
  unfolding compile_as_method_def compile_as_closure_def
  by (intro expressions.within_intros install_code_R assms kept_intros set_method_R)+

lemma interpret_code_R:
  assumes "calls_in R m" and "m_env m = E"
  shows "within R (interpretMethod m D mth self sel args)" and "within R (interpretClosure m D C args)"
  unfolding interpretMethod_def interpretClosure_def Let_def assms(2)
  by (intro expressions.within_intros kept_intros compile_R kept_R [OF load_args_keeps]
      calls_R frame_R frames_open evaluation_within assms)+

lemma trampoline_R:
  assumes "calls_in R m" and "m_env m = E"
  shows "within R (methodTrampoline m k self sel vs)" and "within R (closureTrampoline m k C vs)"
  unfolding methodTrampoline_def closureTrampoline_def argument_array_def the_decl_def
  by (intro expressions.within_intros kept_intros interpret_code_R assms)+

lemma enter_R:
  assumes "calls_in R m" and "m_env m = E" and "jit_in R P" and "p_env P = E"
  shows "within R (enter_method P m f ob sel vs)" and "within R (enter_closure P m f C vs)"
  using assms
  by (cases f; simp add: trampoline_R jit_in_def kept_R [OF native_keeps])+

lemma machine_calls_in:
  assumes "jit_in R P" and "p_env P = E"
  shows "calls_in R (machine_at P n)"
proof (induction n)
  case 0
  show ?case using assms(1) by (simp add: calls_in_def jit_in_def machine_at.simps)
next
  case (Suc n)
  show ?case
    using enter_R [OF Suc _ assms] assms by (simp add: calls_in_def jit_in_def)
qed

theorem run_within:
  assumes "jit_in R P" and "p_env P = E"
  shows "within Q (run_program P n ss)"
  unfolding run_program_def
  by (rule evaluation_within(5) [OF machine_calls_in [OF assms]]) (simp add: assms(2))

end

end
