(* ===== verification/Run_Invariants.thy ===== *)
theory Run_Invariants
  imports Call_Discipline
begin

text \<open>
  The two instances of \<open>discipline\<close>: the symbol tables and the pending return, and the class
  hierarchy with the class table.
\<close>

section \<open>Symbol tables and returns\<close>

text \<open>
  Statements keep the stack of symbol tables; expressions and calls, moreover, do not leave a return
  under way.
\<close>

definition balanced :: "ctx \<Rightarrow> ctx \<Rightarrow> bool" where
  "balanced c c' \<longleftrightarrow> symbols c' = symbols c"

definition call_balanced :: "ctx \<Rightarrow> ctx \<Rightarrow> bool" where
  "call_balanced c c' \<longleftrightarrow> balanced c c' \<and> (\<not> isReturning c \<longrightarrow> \<not> isReturning c')"

lemma value_set_object: "value_set E r v s = Inr (r', s') \<Longrightarrow> object r' = v"
  by (auto simp: value_set_def sem_simps split: if_splits sum.splits)

lemma set_retVal_result:
  assumes "set_retVal E v c = Inr ((), c')"
  shows "object (retVal c') = v" and "symbols c' = symbols c" and "isReturning c' = isReturning c"
    and "classes c' = classes c" and "classTable c' = classTable c"
proof -
  obtain r s where r: "value_set E (retVal c) v c = Inr (r, s)" and c': "c' = s\<lparr>retVal := r\<rparr>"
    using assms by (auto simp: set_retVal_def sem_simps split: sum.splits)
  then show "object (retVal c') = v" using value_set_object [OF r] by simp
  show "symbols c' = symbols c" "isReturning c' = isReturning c" "classes c' = classes c"
    "classTable c' = classTable c"
    using withinD [OF heap_keeps(9) r] by (auto simp: c' keeps_def)
qed

lemma run_body_steps:
  assumes "seq fr (run_body m body) c = Inr (v, c')"
  obtains c1 c2 c3 where "fr c = Inr ((), c1)" and "interpret_stmts m body c1 = Inr ((), c2)"
    and "v = object (retVal c2)" and "set_retVal (m_env m) 0 c2 = Inr ((), c3)"
    and "c' = c3\<lparr>isReturning := False, symbols := tl (symbols c3)\<rparr>"
  using assms by (auto simp: run_body_def sem_simps split: sum.splits if_splits)

lemma class_operations_symbols:
  "within call_balanced (lookupClass nm)" "within call_balanced (registerClass nm k)"
  "within call_balanced (set_method p me)"
  by (auto simp: within_def lookupClass_def registerClass_def set_method_def sem_simps Let_def
      call_balanced_def balanced_def split: option.splits if_splits)

lemma keeps_call_balanced: "keeps c c' \<Longrightarrow> call_balanced c c'"
  by (auto simp: keeps_def call_balanced_def balanced_def)

interpretation call_balance: effect call_balanced
  by unfold_locales (auto simp: call_balanced_def balanced_def)

lemma make_methods_keeps: "within keeps (make_methods Ds)"
  by (induction Ds)
    (simp_all only: make_methods.simps Let_def, (intro kept.within_intros keeping | assumption)+)

lemma kept_call_balanced: "within keeps m \<Longrightarrow> within call_balanced m"
  by (erule within_weaken) (rule keeps_call_balanced)

lemma declare_class_balanced: "within call_balanced (declare_class E name superName ivs Ds)"
  unfolding declare_class_def install_class_def Let_def
  by (intro call_balance.within_intros class_operations_symbols keeping [THEN kept_call_balanced]
      make_methods_keeps [THEN kept_call_balanced] call_balance.within_modify)
    (simp add: call_balanced_def balanced_def)

interpretation returns: discipline balanced call_balanced E for E
proof unfold_locales
  show "within call_balanced (lookupClass nm)" "within call_balanced (set_method p me)" for nm p me
    by (rule class_operations_symbols)+
  show "within balanced (declare_class E name superName ivs Ds)" for name superName ivs Ds
    by (rule within_weaken [OF declare_class_balanced]) (simp add: call_balanced_def)
  show "within balanced (seq (set_retVal E v) (set_returning True))" for v
  proof (rule withinI)
    fix c u c'
    assume "seq (set_retVal E v) (set_returning True) c = Inr (u, c')"
    then obtain c1 where "set_retVal E v c = Inr ((), c1)" "c' = c1\<lparr>isReturning := True\<rparr>"
      by (auto simp: sem_simps split: sum.splits)
    then show "balanced c c'"
      using set_retVal_result [of E v c c1] by (simp add: balanced_def)
  qed
next
  fix fr m body
  assume fr: "opens fr" and env: "m_env m = E" and body: "within balanced (interpret_stmts m body)"
  show "within call_balanced (seq fr (run_body m body))"
  proof (rule withinI)
    fix c v c'
    assume "seq fr (run_body m body) c = Inr (v, c')"
    then obtain c1 c2 c3 where r: "fr c = Inr ((), c1)" "interpret_stmts m body c1 = Inr ((), c2)"
      "set_retVal (m_env m) 0 c2 = Inr ((), c3)"
      "c' = c3\<lparr>isReturning := False, symbols := tl (symbols c3)\<rparr>"
      by (rule run_body_steps)
    have "symbols c = tl (symbols c1)" using fr r(1) by (auto simp: opens_def keeps_def)
    moreover have "symbols c2 = symbols c1" using withinD [OF body r(2)] by (simp add: balanced_def)
    ultimately show "call_balanced c c'"
      using set_retVal_result [OF r(3)] r(4)
      by (simp add: call_balanced_def balanced_def)
  qed
qed (auto simp: call_balanced_def balanced_def keeps_def)

section \<open>The class hierarchy\<close>

text \<open>
  The superclass chains end, every class in the class table is a live class or null, and the
  classes that are part of the executable are live.
\<close>

definition classes_ok :: "ctx \<Rightarrow> bool" where
  "classes_ok c \<longleftrightarrow> hierarchy_ok (classes c) \<and> dom static_classes \<subseteq> dom (classes c) \<and>
     (\<forall>(nm, k) \<in> set (classTable c). k = 0 \<or> k \<in> dom (classes c))"

definition classes_kept :: "env \<Rightarrow> ctx \<Rightarrow> ctx \<Rightarrow> bool" where
  "classes_kept E c c' \<longleftrightarrow> (new_class_ok E \<and> classes_ok c \<longrightarrow>
     classes_ok c' \<and> dom (classes c) \<subseteq> dom (classes c'))"

lemma registerClasses_live:
  assumes "dom static_classes \<subseteq> dom K" and "\<forall>(nm, k) \<in> set ct. k = 0 \<or> k \<in> dom K"
  shows "\<forall>(nm, k) \<in> set (registerClasses ct). k = 0 \<or> k \<in> dom K"
  using assms by (auto simp: registerClasses_def static_classes_def)

lemma set_update_subset: "set (AList.update k v ct) \<subseteq> insert (k, v) (set ct)"
  by (induction ct) auto

lemma lookupClass_result:
  assumes "lookupClass nm c = Inr (k, c')" and "classes_ok c"
  shows "classes_ok c'" and "classes c' = classes c" and "k = 0 \<or> k \<in> dom (classes c)"
proof -
  let ?ct = "registerClasses (classTable c)"
  have live: "\<forall>(nm, k) \<in> set ?ct. k = 0 \<or> k \<in> dom (classes c)"
    using assms(2) by (intro registerClasses_live) (auto simp: classes_ok_def)
  have "c' = c\<lparr>classTable := ?ct\<rparr> \<and> map_of ?ct nm = Some k \<or>
      c' = c\<lparr>classTable := AList.update nm 0 ?ct\<rparr> \<and> k = 0"
    using assms(1) by (auto simp: lookupClass_def Let_def split: option.splits)
  moreover have "classes_ok (c\<lparr>classTable := ?ct\<rparr>)"
    using live assms(2) by (simp add: classes_ok_def)
  moreover have "classes_ok (c\<lparr>classTable := AList.update nm 0 ?ct\<rparr>)"
    using live assms(2) set_update_subset [of nm 0 ?ct] by (auto simp: classes_ok_def)
  moreover have "map_of ?ct nm = Some k \<Longrightarrow> k = 0 \<or> k \<in> dom (classes c)"
    using live by (auto dest!: map_of_SomeD)
  ultimately show "classes_ok c'" "classes c' = classes c" "k = 0 \<or> k \<in> dom (classes c)"
    by auto
qed

lemma classes_ok_register:
  assumes "classes_ok c" and "k \<in> dom (classes c)" and "registerClass nm k c = Inr ((), c')"
  shows "classes_ok c'" and "classes c' = classes c"
proof -
  let ?ct = "registerClasses (classTable c)"
  have live: "\<forall>(nm, k) \<in> set ?ct. k = 0 \<or> k \<in> dom (classes c)"
    using assms(1) by (intro registerClasses_live) (auto simp: classes_ok_def)
  have c': "c' = c\<lparr>classTable := AList.update nm k ?ct\<rparr>"
    using assms(3) by (simp add: registerClass_def sem_simps)
  then show "classes c' = classes c" by simp
  show "classes_ok c'"
    using assms(1,2) live set_update_subset [of nm k ?ct] by (auto simp: c' classes_ok_def)
qed

lemma hierarchy_same_super:
  assumes ok: "hierarchy_ok K" and k: "K a = Some k" "superclass k' = superclass k"
  shows "hierarchy_ok (K(a \<mapsto> k'))"
proof -
  obtain rank :: "addr \<Rightarrow> nat" where
    rank: "\<And>d k. K d = Some k \<Longrightarrow> superclass k \<noteq> 0 \<Longrightarrow>
      superclass k \<in> dom K \<and> rank (superclass k) < rank d"
    using ok by (auto simp: hierarchy_ok_def)
  have "superclass q \<in> dom (K(a \<mapsto> k')) \<and> rank (superclass q) < rank d"
    if "(K(a \<mapsto> k')) d = Some q" and "superclass q \<noteq> 0" for d q
  proof (cases "d = a")
    case True
    then have "q = k'" using that(1) by simp
    then have "superclass k \<in> dom K \<and> rank (superclass k) < rank a"
      using rank [OF k(1)] k(2) that(2) by simp
    then show ?thesis using True \<open>q = k'\<close> k(2) by simp
  next
    case False
    then have "K d = Some q" using that(1) by simp
    from rank [OF this that(2)] show ?thesis by simp
  qed
  moreover have "(K(a \<mapsto> k')) 0 = None" using ok k by (auto simp: hierarchy_ok_def)
  ultimately show ?thesis unfolding hierarchy_ok_def by (intro conjI exI [of _ rank]) auto
qed

lemma set_method_classes:
  assumes "set_method p me c = Inr ((), c')" and "classes_ok c"
  shows "classes_ok c'" and "dom (classes c') = dom (classes c)"
proof -
  obtain k where k: "classes c (fst p) = Some k"
    and c': "c' = c\<lparr>classes := (classes c)(fst p \<mapsto> k\<lparr>methodList := (methodList k)[snd p := me]\<rparr>)\<rparr>"
    using assms(1) by (auto simp: set_method_def sem_simps split: option.splits if_splits)
  show d: "dom (classes c') = dom (classes c)" using k by (auto simp: c')
  have "hierarchy_ok (classes c')"
    using assms(2) k unfolding c' by (auto simp: classes_ok_def intro: hierarchy_same_super)
  then show "classes_ok c'" using assms(2) d by (simp add: classes_ok_def c')
qed

lemma classes_ok_new:
  assumes "classes_ok c" and "new_class_ok E" and "e_new_class E (classes c) = Some a"
    and "superclass k = 0 \<or> superclass k \<in> dom (classes c)"
  shows "classes_ok (c\<lparr>classes := (classes c)(a \<mapsto> k)\<rparr>)"
proof -
  have "a \<noteq> 0" "classes c a = None" using assms(2,3) by (auto simp: new_class_ok_def)
  then have "hierarchy_ok ((classes c)(a \<mapsto> k))"
    using assms(1,4) by (intro hierarchy_new_class) (auto simp: classes_ok_def)
  then show ?thesis using assms(1) by (auto simp: classes_ok_def)
qed

lemma classes_ok_keeps: "keeps c c' \<Longrightarrow> classes_ok c \<Longrightarrow> classes_ok c' \<and> classes c' = classes c"
  by (simp add: keeps_def classes_ok_def)

lemma declare_class_classes:
  assumes run: "declare_class E name superName ivs Ds c = Inr (u, c')"
    and ok: "classes_ok c" and E: "new_class_ok E"
  shows "classes_ok c'" and "dom (classes c) \<subseteq> dom (classes c')"
proof -
  obtain super c1 inherited c2 ms c3 where
    super: "(case name of Some _ \<Rightarrow> lookupClass superName | None \<Rightarrow> return 0) c = Inr (super, c1)"
    and inherited: "(if super = 0 then return []
      else bind (class_at super) (\<lambda>k. return (indexedIVarNames k))) c1 = Inr (inherited, c2)"
    and ms: "make_methods Ds c2 = Inr (ms, c3)"
    and inst: "install_class E \<lparr>superclass = super,
      className = (case name of Some n \<Rightarrow> n | None \<Rightarrow> superName), methodList = ms,
      indexedIVarNames = inherited @ ivs\<rparr> c3 = Inr (u, c')"
    using run unfolding declare_class_def Let_def by (elim bind_InrE)
  have s1: "classes_ok c1" "classes c1 = classes c" "super = 0 \<or> super \<in> dom (classes c1)"
    using super ok lookupClass_result [of superName c super c1]
    by (auto simp: sem_simps split: option.splits)
  have c2: "c2 = c1" using inherited by (auto simp: sem_simps split: if_splits option.splits)
  have s3: "classes_ok c3" "classes c3 = classes c1"
    using classes_ok_keeps [OF withinD [OF make_methods_keeps ms]] s1(1) c2 by simp_all
  let ?k = "\<lparr>superclass = super, className = (case name of Some n \<Rightarrow> n | None \<Rightarrow> superName),
      methodList = ms, indexedIVarNames = inherited @ ivs\<rparr>"
  obtain cls where cls: "e_new_class E (classes c3) = Some cls"
    and reg: "registerClass (className ?k) cls (c3\<lparr>classes := (classes c3)(cls \<mapsto> ?k)\<rparr>) = Inr ((), c')"
    using inst by (auto simp: install_class_def sem_simps split: option.splits)
  have "classes_ok (c3\<lparr>classes := (classes c3)(cls \<mapsto> ?k)\<rparr>)"
    using s1(3) s3 by (intro classes_ok_new [OF _ E cls]) simp_all
  from classes_ok_register [OF this _ reg] show "classes_ok c'" "dom (classes c) \<subseteq> dom (classes c')"
    using s1(2) s3(2) by auto
qed

lemma classes_kept_keeps: "keeps c c' \<Longrightarrow> classes_kept E c c'"
  using classes_ok_keeps by (auto simp: classes_kept_def)

interpretation hierarchies: discipline "classes_kept E" "classes_kept E" E for E
proof unfold_locales
  show "within (classes_kept E) (lookupClass nm)" for nm
    by (rule withinI) (auto simp: classes_kept_def dest: lookupClass_result)
  show "within (classes_kept E) (set_method p me)" for p me
    by (rule withinI) (auto simp: classes_kept_def dest: set_method_classes)
  show "within (classes_kept E) (declare_class E name superName ivs Ds)" for name superName ivs Ds
    by (rule withinI) (auto simp: classes_kept_def dest: declare_class_classes)
  show "within (classes_kept E) (seq (set_retVal E v) (set_returning True))" for v
  proof (rule withinI)
    fix c u c'
    assume "seq (set_retVal E v) (set_returning True) c = Inr (u, c')"
    then obtain c1 where "set_retVal E v c = Inr ((), c1)" "c' = c1\<lparr>isReturning := True\<rparr>"
      by (auto simp: sem_simps split: sum.splits)
    then show "classes_kept E c c'"
      using set_retVal_result [of E v c c1] by (simp add: classes_kept_def classes_ok_def)
  qed
next
  fix fr m body
  assume fr: "opens fr" and body: "within (classes_kept E) (interpret_stmts m body)"
  show "within (classes_kept E) (seq fr (run_body m body))"
  proof (rule withinI)
    fix c v c'
    assume "seq fr (run_body m body) c = Inr (v, c')"
    then obtain c1 c2 c3 where r: "fr c = Inr ((), c1)" "interpret_stmts m body c1 = Inr ((), c2)"
      "set_retVal (m_env m) 0 c2 = Inr ((), c3)"
      "c' = c3\<lparr>isReturning := False, symbols := tl (symbols c3)\<rparr>"
      by (rule run_body_steps)
    have "classes c1 = classes c" "classTable c1 = classTable c"
      using fr r(1) by (auto simp: opens_def keeps_def)
    then show "classes_kept E c c'"
      using withinD [OF body r(2)] set_retVal_result [OF r(3)] r(4)
      by (simp add: classes_kept_def classes_ok_def)
  qed
qed (auto simp: classes_kept_def classes_kept_keeps dest: classes_ok_keeps)

section \<open>Properties\<close>

text \<open>
  C27. Whatever a program declares and calls, the superclass chains stay finite: after every run
  from the initial classes the class table refers to live classes only, and the method lookup ends
  for every class.
\<close>

theorem lookup_ends_after_run:
  assumes "jit_in (classes_kept (p_env P)) P" and "new_class_ok (p_env P)" and "classes_ok c"
    and "run_program P n ss c = Inr ((), c')" and "k \<in> dom (classes c')"
  shows "classes_ok c' \<and> dom (classes c) \<subseteq> dom (classes c') \<and>
    (\<exists>r. methodForSelector k sel c' = Inr (r, c'))"
proof -
  have "classes_ok c'" "dom (classes c) \<subseteq> dom (classes c')"
    using withinD [OF hierarchies.run_within [OF assms(1) HOL.refl] assms(4)] assms(2,3)
    by (auto simp: classes_kept_def)
  moreover obtain cs where "lineage (classes c') k cs"
    using lineage_exists [of "classes c'" k] \<open>classes_ok c'\<close> assms(5) by (auto simp: classes_ok_def)
  ultimately show ?thesis by (simp add: methodForSelector_def walk_lineage)
qed

section \<open>A concrete program\<close>

lemma initial_clean [simp]:
  "\<not> isReturning initial_context" "object (retVal initial_context) = 0" "symbols initial_context = []"
  by (simp_all add: initial_context_def no_value_def)

lemma lookup_ends_after_run_witness:
  "\<exists>c'. run_program interpreted_program 1 [ClassDecl 0x5000 None ''A'' [''x''] []] initial_context = Inr ((), c')
     \<and> (\<exists>r. methodForSelector 0x1000 sel_at c' = Inr (r, c'))"
proof -
  have "\<exists>c'. run_program interpreted_program 1 [ClassDecl 0x5000 None ''A'' [''x''] []] initial_context
      = Inr ((), c') \<and> 0x1000 \<in> dom (classes c')"
    by (simp add: run_program_def initial_context_def run_simps declare_class_def install_class_def Let_def
        registerClass_def first_free_eval static_classes_def)
  then obtain c' where c': "run_program interpreted_program 1 [ClassDecl 0x5000 None ''A'' [''x''] []]
      initial_context = Inr ((), c')" "0x1000 \<in> dom (classes c')"
    by (elim exE conjE)
  have "jit_in (classes_kept (p_env interpreted_program)) interpreted_program"
    by (simp add: jit_in_def interpreted_program_def within_def classes_kept_def sem_simps)
  moreover have "classes_ok initial_context"
    by (simp add: classes_ok_def initial_context_def static_hierarchy)
  ultimately have "\<exists>r. methodForSelector 0x1000 sel_at c' = Inr (r, c')"
    using lookup_ends_after_run [of interpreted_program, OF _ _ _ c'] sample_new_class_ok by simp
  with c'(1) show ?thesis by (intro exI [of _ c']) simp
qed

end
