(* ===== verification/Captures.thy ===== *)
theory Captures
  imports Run_Invariants
begin

text \<open>
  The layout of bound variables: where \<open>ClosureDecl::evaluateExpr\<close> stores the captured values, and
  which of them the frame of \<open>interpretClosure\<close> reads for which variable.
\<close>

section \<open>What the copying loop stores\<close>

text \<open>Every variable of a list has a value outside the block of the closure.\<close>

definition captured_values :: "addr \<Rightarrow> ctx \<Rightarrow> (string \<Rightarrow> obj) \<Rightarrow> string list \<Rightarrow> bool" where
  "captured_values C c val xs \<longleftrightarrow> (\<forall>x \<in> set xs. \<exists>p.
     lookup_in (symbols c) (globalSymbols c) x = Some p \<and> fst p \<noteq> C \<and> load p c = Inr (val x, c))"

lemma captured_values_store:
  assumes "captured_values C c val xs" and "store (C, i) v c = Inr ((), c')"
  shows "captured_values C c' val xs"
  unfolding captured_values_def
proof
  fix x
  assume "x \<in> set xs"
  then obtain p where p: "lookup_in (symbols c) (globalSymbols c) x = Some p" "fst p \<noteq> C"
    "load p c = Inr (val x, c)"
    using assms(1) by (auto simp: captured_values_def)
  have "symbols c' = symbols c" "globalSymbols c' = globalSymbols c"
    using assms(2) by (auto simp: store_eq)
  moreover have "(C, i) \<noteq> p" using p(2) by auto
  from heap_cells.get_put_other [OF assms(2) p(3) this] have "load p c' = Inr (val x, c')" .
  ultimately show "\<exists>p. lookup_in (symbols c') (globalSymbols c') x = Some p \<and> fst p \<noteq> C \<and>
      load p c' = Inr (val x, c')"
    using p by auto
qed

lemma copy_step:
  assumes "captured_values C c val (x # xs)" and "copy_bound_vars C (x # xs) i c = Inr ((), c')"
  obtains c1 c2 where "store (C, i) (val x) c = Inr ((), c1)"
    and "store (C, Suc i) (val x) c1 = Inr ((), c2)"
    and "copy_bound_vars C xs (Suc (Suc i)) c2 = Inr ((), c')"
    and "captured_values C c2 val xs"
proof -
  obtain p where p: "lookup_in (symbols c) (globalSymbols c) x = Some p" "load p c = Inr (val x, c)"
    using assms(1) by (auto simp: captured_values_def)
  then obtain c1 where c1: "store (C, i) (val x) c = Inr ((), c1)"
    using assms(2) by (auto simp: sem_simps split: sum.splits)
  have v1: "captured_values C c1 val (x # xs)" by (rule captured_values_store [OF assms(1) c1])
  then obtain q where q: "lookup_in (symbols c1) (globalSymbols c1) x = Some q" "load q c1 = Inr (val x, c1)"
    by (auto simp: captured_values_def)
  then obtain c2 where c2: "store (C, Suc i) (val x) c1 = Inr ((), c2)"
    and rest: "copy_bound_vars C xs (Suc (Suc i)) c2 = Inr ((), c')"
    using assms(2) p c1 by (auto simp: sem_simps split: sum.splits)
  have "captured_values C c2 val (x # xs)" by (rule captured_values_store [OF v1 c2])
  then show thesis using that [OF c1 c2 rest] by (simp add: captured_values_def)
qed

lemma copied_values:
  assumes "captured_values C c val xs" and "copy_bound_vars C xs i c = Inr ((), c')"
  shows "(\<forall>k < 2 * length xs. load (C, i + k) c' = Inr (val (xs ! (k div 2)), c')) \<and>
    (\<forall>j v. j < i \<and> load (C, j) c = Inr (v, c) \<longrightarrow> load (C, j) c' = Inr (v, c')) \<and>
    symbols c' = symbols c \<and> globalSymbols c' = globalSymbols c"
  using assms
proof (induction xs arbitrary: i c)
  case Nil
  then show ?case by (simp add: sem_simps)
next
  case (Cons x xs)
  from copy_step [OF Cons.prems] obtain c1 c2 where c: "store (C, i) (val x) c = Inr ((), c1)"
    "store (C, Suc i) (val x) c1 = Inr ((), c2)" "copy_bound_vars C xs (Suc (Suc i)) c2 = Inr ((), c')"
    "captured_values C c2 val xs" .
  note IH = Cons.IH [OF c(4,3)]
  have first: "load (C, i) c2 = Inr (val x, c2)" "load (C, Suc i) c2 = Inr (val x, c2)"
    using heap_cells.get_put [OF c(1)] heap_cells.get_put_other [OF c(2)] heap_cells.get_put [OF c(2)]
    by auto
  have keep: "load (C, j) c2 = Inr (v, c2)" if "j < i" "load (C, j) c = Inr (v, c)" for j v
    using heap_cells.get_put_other [OF c(1) that(2)] heap_cells.get_put_other [OF c(2)] that(1) by auto
  have "load (C, i + k) c' = Inr (val ((x # xs) ! (k div 2)), c')" if "k < 2 * length (x # xs)" for k
  proof (cases "k < 2")
    case True
    then have "k = 0 \<or> k = 1" by auto
    then show ?thesis using IH first by auto
  next
    case False
    then obtain k' where k: "k = Suc (Suc k')" by (metis Suc_1 add_2_eq_Suc le_Suc_ex not_less)
    have "load (C, Suc (Suc i) + k') c' = Inr (val (xs ! (k' div 2)), c')"
      using IH that k by simp
    then show ?thesis by (simp add: k)
  qed
  moreover have "symbols c2 = symbols c" "globalSymbols c2 = globalSymbols c"
    using c(1,2) by (auto simp: store_eq)
  ultimately show ?case using IH keep by auto
qed

text \<open>How many slots the block of a closure has.\<close>

definition slots_at :: "addr \<Rightarrow> ctx \<Rightarrow> nat option" where
  "slots_at C c = map_option (\<lambda>b. length (cells b)) (mem c C)"

lemma store_slots:
  assumes "slots_at C c = Some n"
  shows "store (C, i) v c = (if i < n then Inr ((), c\<lparr>mem := (mem c)(C \<mapsto>
      set_cells ((cells (the (mem c C)))[i := v]) (the (mem c C)))\<rparr>) else Inl OutOfBounds)"
    and "store (C, i) v c = Inr ((), c') \<Longrightarrow> slots_at C c' = Some n"
  using assms by (auto simp: slots_at_def store_def sem_simps length_cells_set_cells split: if_splits)

lemma copy_overflow:
  assumes "captured_values C c val xs" and "slots_at C c = Some n" and "i \<le> n"
    and "n < i + 2 * length xs"
  shows "copy_bound_vars C xs i c = Inl OutOfBounds"
  using assms
proof (induction xs arbitrary: i c)
  case (Cons x xs)
  obtain p where p: "lookup_in (symbols c) (globalSymbols c) x = Some p" "load p c = Inr (val x, c)"
    using Cons.prems(1) by (auto simp: captured_values_def)
  show ?case
  proof (cases "i < n")
    case False
    then show ?thesis using p by (simp add: sem_simps store_slots [OF Cons.prems(2)])
  next
    case True
    then obtain c1 where c1: "store (C, i) (val x) c = Inr ((), c1)"
      using store_slots [OF Cons.prems(2)] by simp
    note s1 = store_slots [OF store_slots(2) [OF Cons.prems(2) c1]]
    obtain q where q: "lookup_in (symbols c1) (globalSymbols c1) x = Some q" "load q c1 = Inr (val x, c1)"
      using captured_values_store [OF Cons.prems(1) c1] by (auto simp: captured_values_def)
    show ?thesis
    proof (cases "Suc i < n")
      case False
      then show ?thesis using p c1 q s1(1) [of "Suc i" "val x"] by (simp add: sem_simps)
    next
      case True
      then obtain c2 where c2: "store (C, Suc i) (val x) c1 = Inr ((), c2)" using s1(1) by simp
      have "captured_values C c2 val xs"
        using captured_values_store [OF captured_values_store [OF Cons.prems(1) c1] c2]
        by (simp add: captured_values_def)
      then have "copy_bound_vars C xs (Suc (Suc i)) c2 = Inl OutOfBounds"
        using Cons.IH s1(2) [OF c2] True Cons.prems(4) by simp
      then show ?thesis using p c1 q c2 by (simp add: sem_simps)
    qed
  qed
qed simp

section \<open>What the frame reads\<close>

lemma bind_addresses_lookup:
  assumes "bind_addresses xs a i c = Inr ((), c')" and "symbols c \<noteq> []"
  shows "symbols c' \<noteq> [] \<and> c' = c\<lparr>symbols := symbols c'\<rparr> \<and>
    (\<forall>x. x \<notin> set xs \<longrightarrow> hd (symbols c') x = hd (symbols c) x) \<and>
    (distinct xs \<longrightarrow> (\<forall>k < length xs. hd (symbols c') (xs ! k) = Some (a, i + k)))"
  using assms
proof (induction xs arbitrary: i c)
  case Nil
  then show ?case by (simp add: sem_simps)
next
  case (Cons x xs)
  obtain t rest where t: "symbols c = t # rest" using Cons.prems(2) by (cases "symbols c") auto
  let ?c = "c\<lparr>symbols := t(x \<mapsto> (a, i)) # rest\<rparr>"
  have "bind_addresses xs a (Suc i) ?c = Inr ((), c')"
    using Cons.prems(1) t by (simp add: sem_simps)
  note IH = Cons.IH [OF this, simplified]
  have "hd (symbols c') ((x # xs) ! k) = Some (a, i + k)"
    if "distinct (x # xs)" and "k < length (x # xs)" for k
    using IH that by (cases k) auto
  then show ?case using IH t by auto
qed

section \<open>Properties\<close>

text \<open>
  Captured variables are shifted: creating a closure stores every captured value twice, so the
  slot that the frame of the closure binds to the captured variable number \<open>k\<close> holds the value of
  the variable number \<open>k div 2\<close>.  From the second captured variable on, the body of a closure
  reads the value of another variable.
\<close>

theorem captured_variable_shift:
  assumes "captured_values C c val xs" and "copy_bound_vars C xs 0 c = Inr ((), c')"
    and "distinct xs" and "k < length xs" and "mem d = mem c'" and "symbols d \<noteq> []"
    and "bind_addresses xs C 0 d = Inr ((), d')" and "C \<noteq> 0"
  shows "eval_var (xs ! k) d' = Inr (val (xs ! (k div 2)), d')"
proof -
  have "load (C, 0 + k) c' = Inr (val (xs ! (k div 2)), c')"
    using copied_values [OF assms(1,2)] assms(4) by simp
  moreover have d': "symbols d' \<noteq> []" "d' = d\<lparr>symbols := symbols d'\<rparr>" "hd (symbols d') (xs ! k) = Some (C, k)"
    using bind_addresses_lookup [OF assms(7,6)] assms(3,4) by auto
  moreover have "mem d' = mem c'" using arg_cong [OF d'(2), of mem] assms(5) by simp
  ultimately have "load (C, k) d' = Inr (val (xs ! (k div 2)), d')" by (auto simp: load_eq)
  moreover have "lookup_in (symbols d') (globalSymbols d') (xs ! k) = Some (C, k)"
    using d'(1,3) assms(8) by (cases "symbols d'") (simp_all add: lookup_in_def)
  ultimately show ?thesis by (simp add: eval_var_def sem_simps)
qed

text \<open>
  The copying loop writes twice as many slots as the closure was allocated with: it runs out
  of the closure's storage whenever the collector does not happen to grant twice the requested
  slots.
\<close>

theorem capture_overflows:
  assumes "captured_values C c val xs" and "slots_at C c = Some n" and "n < 2 * length xs"
  shows "copy_bound_vars C xs 0 c = Inl OutOfBounds"
  using copy_overflow [OF assms(1,2)] assms(3) by simp

text \<open>A closure over two globals.\<close>

definition capture_context :: "nat \<Rightarrow> ctx" where
  "capture_context n = initial_context
     \<lparr>mem := [0x1000 \<mapsto> CellBlock [literalObject 1], 0x1010 \<mapsto> CellBlock [literalObject 2],
        0x1020 \<mapsto> CloBlock \<lparr>parameters = literalObject 0, invoke = None, cl_AST = 0x5000,
                             boundVars = replicate n 0\<rparr>],
      symbols := [Map.empty],
      globalSymbols := [''x'' \<mapsto> (0x1000, 0), ''y'' \<mapsto> (0x1010, 0)]\<rparr>"

lemma capture_context_values:
  "captured_values 0x1020 (capture_context n) (\<lambda>x. if x = ''x'' then literalObject 1 else literalObject 2)
     [''x'', ''y'']"
  by (simp add: captured_values_def capture_context_def lookup_in_def load_def sem_simps)

lemma four_slots: "replicate 4 v = [v, v, v, v]"
  by (simp add: numeral_eq_Suc)

lemma captured_variable_shift_witness:
  "\<exists>c d. copy_bound_vars 0x1020 [''x'', ''y''] 0 (capture_context 4) = Inr ((), c) \<and>
     bind_addresses [''x'', ''y''] 0x1020 0 c = Inr ((), d) \<and>
     eval_var ''y'' d = Inr (literalObject 1, d)"
proof -
  have "\<exists>c. copy_bound_vars 0x1020 [''x'', ''y''] 0 (capture_context 4) = Inr ((), c) \<and> symbols c = [Map.empty]"
    by (simp add: capture_context_def four_slots run_simps)
  then obtain c where c: "copy_bound_vars 0x1020 [''x'', ''y''] 0 (capture_context 4) = Inr ((), c)"
    "symbols c = [Map.empty]" by (elim exE conjE)
  then obtain d where d: "bind_addresses [''x'', ''y''] 0x1020 0 c = Inr ((), d)"
    by (simp add: sem_simps)
  have "eval_var ([''x'', ''y''] ! 1) d = Inr (literalObject 1, d)"
    using captured_variable_shift [OF capture_context_values c(1) _ _ HOL.refl _ d, of 1] c(2) by simp
  with c d show ?thesis by (intro exI [of _ c] exI [of _ d]) simp
qed

lemma capture_overflows_witness:
  "copy_bound_vars 0x1020 [''x'', ''y''] 0 (capture_context 2) = Inl OutOfBounds"
proof (rule capture_overflows [OF capture_context_values])
  show "slots_at 0x1020 (capture_context 2) = Some 2"
    by (simp add: slots_at_def capture_context_def)
qed simp

end
