(* ===== verification/Inline_Cache.thy ===== *)
theory Inline_Cache
  imports Run_Invariants
begin

text \<open>
  The inline cache of a call: when it asks for a recompilation, when a hit calls the method that a
  lookup would find, and when it does not.
\<close>

section \<open>The counter\<close>

text \<open>The call site after calls on receivers of the classes \<open>cs\<close>, and how often \<open>c\<close> ends a list.\<close>

definition site_after :: "addr list \<Rightarrow> call_site" where
  "site_after cs = fold (\<lambda>c st. snd (site_step c st)) cs fresh_site"

definition trailing :: "addr \<Rightarrow> addr list \<Rightarrow> nat" where
  "trailing c cs = length (takeWhile (\<lambda>d. d = c) (rev cs))"

lemma trailing_snoc: "trailing c (cs @ [d]) = (if d = c then Suc (trailing c cs) else 0)"
  by (simp add: trailing_def)

lemma site_after_snoc: "site_after (cs @ [c]) = snd (site_step c (site_after cs))"
  by (simp add: site_after_def)

text \<open>
  What holds between calls: the counter counts how often the alternative class ends the history,
  it has not passed the threshold, and the last class is the assumed or the alternative one.
\<close>

definition counting :: "addr list \<Rightarrow> call_site \<Rightarrow> bool" where
  "counting cs st \<longleftrightarrow>
     (if cs = [] then type_assumption st = 0 \<and> alternative_type st = 0
      else type_assumption st \<noteq> 0 \<and> last cs \<in> {type_assumption st, alternative_type st}) \<and>
     alternative_type_count st \<le> RECOMPILE_THRESHOLD \<and>
     unat (alternative_type_count st) =
       (if alternative_type st = 0 then 0 else trailing (alternative_type st) cs) \<and>
     (alternative_type st \<noteq> 0 \<longrightarrow> alternative_type st \<noteq> type_assumption st)"

lemma trailing_last: "cs = [] \<or> last cs \<noteq> c \<Longrightarrow> trailing c cs = 0"
  by (cases cs rule: rev_cases) (auto simp: trailing_def)

lemma count_up:
  "k \<le> RECOMPILE_THRESHOLD \<Longrightarrow> unat (k + 1) = Suc (unat k)"
  "k \<le> RECOMPILE_THRESHOLD \<Longrightarrow> RECOMPILE_THRESHOLD < k + 1 \<longleftrightarrow> 10000 < Suc (unat k)"
proof -
  assume "k \<le> RECOMPILE_THRESHOLD"
  then have "unat k \<le> 10000" by (simp add: RECOMPILE_THRESHOLD_def word_le_nat_alt)
  then show u: "unat (k + 1) = Suc (unat k)"
    by (simp add: unat_word_ariths)
  show "RECOMPILE_THRESHOLD < k + 1 \<longleftrightarrow> 10000 < Suc (unat k)"
    unfolding word_less_nat_alt u by (simp add: RECOMPILE_THRESHOLD_def)
qed

lemma counting_step:
  assumes "counting cs st" and "c \<noteq> 0" and "0 \<notin> set cs"
  shows "counting (cs @ [c]) (snd (site_step c st))"
    and "fst (site_step c st) \<longleftrightarrow>
      c \<noteq> type_assumption st \<and> cs \<noteq> [] \<and> 10000 < trailing c (cs @ [c])"
proof -
  let ?st = "snd (site_step c st)"
  have ta: "type_assumption st = 0 \<longleftrightarrow> cs = []" using assms(1) by (cases "cs = []") (auto simp: counting_def)
  consider (hit) "c = type_assumption st" | (first) "cs = []"
    | (again) "c \<noteq> type_assumption st" "cs \<noteq> []" "c = alternative_type st"
    | (new) "c \<noteq> type_assumption st" "cs \<noteq> []" "c \<noteq> alternative_type st"
    by blast
  then have "counting (cs @ [c]) ?st \<and> (fst (site_step c st) \<longleftrightarrow>
      c \<noteq> type_assumption st \<and> cs \<noteq> [] \<and> 10000 < trailing c (cs @ [c]))"
  proof cases
    case hit
    then show ?thesis
      using assms ta by (auto simp: counting_def site_step_def trailing_snoc RECOMPILE_THRESHOLD_def)
  next
    case first
    then show ?thesis
      using assms ta by (auto simp: counting_def site_step_def note_class_def)
  next
    case again
    have le: "alternative_type_count st \<le> RECOMPILE_THRESHOLD"
      using assms(1) by (simp add: counting_def)
    have t: "trailing c (cs @ [c]) = Suc (unat (alternative_type_count st))"
      using again assms(1,2) by (simp add: counting_def trailing_snoc)
    show ?thesis
      using again assms(1,2) ta count_up [OF le] t
      by (auto simp: counting_def site_step_def note_class_def Let_def not_less RECOMPILE_THRESHOLD_def)
  next
    case new
    then have "trailing c cs = 0"
      using assms(1) by (intro trailing_last) (auto simp: counting_def)
    then show ?thesis
      using new assms(1,2) ta
      by (auto simp: counting_def site_step_def note_class_def trailing_snoc RECOMPILE_THRESHOLD_def)
  qed
  then show "counting (cs @ [c]) ?st" "fst (site_step c st) \<longleftrightarrow>
      c \<noteq> type_assumption st \<and> cs \<noteq> [] \<and> 10000 < trailing c (cs @ [c])" by blast+
qed

lemma counting_after: "0 \<notin> set cs \<Longrightarrow> counting cs (site_after cs)"
proof (induction cs rule: rev_induct)
  case Nil
  show ?case by (simp add: counting_def site_after_def fresh_site_def)
next
  case (snoc c cs)
  then show ?case by (simp add: site_after_snoc counting_step)
qed

text \<open>The assumed class.\<close>

lemma assumption_step:
  assumes "counting cs st" and "c \<noteq> 0"
  shows "type_assumption (snd (site_step c st)) =
    (if cs = [] \<or> fst (site_step c st) then c else type_assumption st)"
  using assms by (auto simp: counting_def site_step_def note_class_def Let_def)

lemma trailing_run:
  assumes "a \<noteq> b"
  shows "trailing b ((cs @ a # replicate n b) @ [b]) = Suc n"
    and "trailing b ((a # replicate n b) @ [b]) = Suc n"
  using assms by (simp_all add: trailing_def takeWhile_append replicate_append_same [symmetric])

text \<open>While one other class follows the first, the first is assumed up to the threshold.\<close>

lemma assumed_first:
  "a \<noteq> b \<Longrightarrow> a \<noteq> 0 \<Longrightarrow> b \<noteq> 0 \<Longrightarrow> n \<le> 10000 \<Longrightarrow> type_assumption (site_after (a # replicate n b)) = a"
proof (induction n)
  case 0
  show ?case by (simp add: site_after_def site_step_def fresh_site_def note_class_def)
next
  case (Suc n)
  have ok: "counting (a # replicate n b) (site_after (a # replicate n b))"
    by (rule counting_after) (use Suc.prems in auto)
  have "a # replicate (Suc n) b = (a # replicate n b) @ [b]" by (simp add: replicate_append_same)
  moreover have "\<not> fst (site_step b (site_after (a # replicate n b)))"
    using counting_step(2) [OF ok Suc.prems(3)] trailing_run(2) [OF Suc.prems(1), of n] Suc.prems by auto
  ultimately show ?case
    using Suc assumption_step [OF ok Suc.prems(3)] by (simp only: site_after_snoc) simp
qed

section \<open>Hits and misses\<close>

text \<open>
  A site is coherent for a selector if its cached method is the one that the lookup finds in the
  assumed class.
\<close>

definition coherent :: "ctx \<Rightarrow> call_site \<Rightarrow> selector \<Rightarrow> bool" where
  "coherent c st sel \<longleftrightarrow> (\<forall>mp. cachedMethod st = Some mp \<longrightarrow>
     (\<exists>p. mp = MethodSlot p \<and> methodForSelector (type_assumption st) sel c = Inr (Some p, c)))"

text \<open>A call as it would be made without a cached method.\<close>

definition uncached_call ::
  "machine \<Rightarrow> node \<Rightarrow> string \<Rightarrow> obj \<Rightarrow> obj list \<Rightarrow> obj run" where
  "uncached_call m n name ob args =
     bind (gets (\<lambda>c. call_sites c n)) (\<lambda>st.
     seq (set_site n (st\<lparr>cachedMethod := None\<rparr>)) (call_method_value m n name ob args))"

text \<open>Lookups depend on the heap and on the classes only.\<close>

lemma lookup_frame:
  assumes "mem c' = mem c" and "classes c' = classes c"
  shows "class_of_receiver ob c = Inr (k, c) \<Longrightarrow> class_of_receiver ob c' = Inr (k, c')"
    and "methodForSelector k sel c = Inr (r, c) \<Longrightarrow> methodForSelector k sel c' = Inr (r, c')"
    and "method_at p c = Inr (me, c) \<Longrightarrow> method_at p c' = Inr (me, c')"
  using assms
  by (auto simp: class_of_receiver_def isa_def methodForSelector_def method_at_def sem_simps
      split: option.splits block.splits sum.splits if_splits)

lemma selector_frame:
  assumes "lookupSelector name c = Inr (sel, c)"
  shows "lookupSelector name (c\<lparr>call_sites := f\<rparr>) = Inr (sel, c\<lparr>call_sites := f\<rparr>)"
proof -
  obtain sels names where i: "intern_selector name (selectors c, selNames c) = (sel, sels, names)"
    and c: "c\<lparr>selectors := sels, selNames := names\<rparr> = c"
    using assms by (auto simp: lookupSelector_def split: prod.splits)
  have "sels = selectors c" "names = selNames c"
    using arg_cong [OF c, of selectors] arg_cong [OF c, of selNames] by simp_all
  then show ?thesis using i by (simp add: lookupSelector_def)
qed

lemma lookup_slot:
  assumes "class_of_receiver ob c = Inr (k, c)" and "ob \<noteq> 0" and "k \<noteq> 0"
    and "methodForSelector k sel c = Inr (Some p, c)"
  shows "ptrToCompiledMethodForSelector ob sel c = Inr (MethodSlot p, c)"
  using assms
  by (simp add: ptrToCompiledMethodForSelector_def getClassFor_def class_of_receiver_def sem_simps)

text \<open>A lookup that succeeds, and the call that follows it.\<close>

lemma look_up_and_call_eq:
  assumes "class_of_receiver ob c = Inr (k, c)" and "ob \<noteq> 0" and "k \<noteq> 0"
    and "methodForSelector k sel c = Inr (Some p, c)" and "method_at p c = Inr (me, c)"
    and "m_function me \<noteq> None"
  shows "look_up_and_call m n ob sel args c =
    call_through m (MethodSlot p) ob sel args
      (c\<lparr>call_sites := (call_sites c)(n := (call_sites c n)\<lparr>cachedMethod := Some (MethodSlot p)\<rparr>)\<rparr>)"
  using lookup_slot [OF assms(1-4)] assms(5,6)
  by (simp add: look_up_and_call_def cache_method_def load_method_ptr_def sem_simps)

section \<open>Properties\<close>

text \<open>
  C25. A call site asks for a recompilation exactly when a class other than the assumed one has
  been the receiver's class 10001 times in a row, the present call included: a single call on a receiver
  of any other class in between starts the count again.  The assumed class is the first one, and from
  then on changes with a request only, to the class that caused it.
\<close>

theorem recompile_request_iff:
  assumes "0 \<notin> set cs" and "c \<noteq> 0"
  shows "(fst (site_step c (site_after cs)) \<longleftrightarrow>
      c \<noteq> type_assumption (site_after cs) \<and> cs \<noteq> [] \<and> 10000 < trailing c (cs @ [c])) \<and>
    type_assumption (site_after (cs @ [c])) =
      (if cs = [] \<or> fst (site_step c (site_after cs)) then c else type_assumption (site_after cs))"
  using counting_step(2) [OF counting_after [OF assms(1)] assms(2,1)] assumption_step [OF counting_after [OF assms(1)] assms(2)]
  by (simp add: site_after_snoc)

text \<open>One class, then another: the 10001st call of the other one asks, unless the first comes in between.\<close>

lemma recompile_request_iff_witness:
  "fst (site_step 0x1010 (site_after (0x1000 # replicate 10000 0x1010))) \<and>
   type_assumption (site_after ((0x1000 # replicate 10000 0x1010) @ [0x1010])) = 0x1010 \<and>
   \<not> fst (site_step 0x1010 (site_after (0x1000 # replicate 9999 0x1010))) \<and>
   \<not> fst (site_step 0x1010 (site_after (0x1000 # replicate 6000 0x1010 @ 0x1000 # replicate 6000 0x1010)))"
proof (intro conjI)
  let ?A = "0x1000 :: addr" and ?B = "0x1010 :: addr"
  have A: "type_assumption (site_after (?A # replicate 10000 ?B)) = ?A" by (rule assumed_first) simp_all
  have long: "trailing ?B ((?A # replicate n ?B) @ [?B]) = Suc n" for n by (rule trailing_run(2)) simp
  have ask: "fst (site_step ?B (site_after (?A # replicate 10000 ?B)))"
    using recompile_request_iff [of "?A # replicate 10000 ?B" ?B] A long [of 10000] by simp
  then show "fst (site_step ?B (site_after (?A # replicate 10000 ?B)))" .
  show "type_assumption (site_after ((?A # replicate 10000 ?B) @ [?B])) = ?B"
    using recompile_request_iff [of "?A # replicate 10000 ?B" ?B] ask by simp
  show "\<not> fst (site_step ?B (site_after (?A # replicate 9999 ?B)))"
    using recompile_request_iff [of "?A # replicate 9999 ?B" ?B] long [of 9999] by simp
  have "trailing ?B ((?A # replicate 6000 ?B @ ?A # replicate 6000 ?B) @ [?B]) = Suc 6000"
    using trailing_run(1) [of ?A ?B "?A # replicate 6000 ?B" 6000] by simp
  then show "\<not> fst (site_step ?B (site_after (?A # replicate 6000 ?B @ ?A # replicate 6000 ?B)))"
    using recompile_request_iff [of "?A # replicate 6000 ?B @ ?A # replicate 6000 ?B" ?B] by auto
qed

text \<open>
  C24. At a coherent call site the inline cache is transparent: a call on a receiver of the assumed
  class has the same effect and result as the call without a cached method.
\<close>

theorem cache_hit_transparent:
  assumes "lookupSelector name c = Inr (sel, c)" and "coherent c (call_sites c n) sel"
    and "class_of_receiver ob c = Inr (k, c)" and "ob \<noteq> 0" and "k \<noteq> 0"
    and "type_assumption (call_sites c n) = k" and "methodForSelector k sel c = Inr (Some p, c)"
    and "method_at p c = Inr (me, c)" and "m_function me \<noteq> None"
  shows "call_method_value m n name ob args c = uncached_call m n name ob args c"
proof (cases "cachedMethod (call_sites c n)")
  case None
  then have "(call_sites c n)\<lparr>cachedMethod := None\<rparr> = call_sites c n" by simp
  then show ?thesis by (simp add: uncached_call_def sem_simps)
next
  case (Some mp)
  let ?st = "call_sites c n"
  let ?c = "\<lambda>f. c\<lparr>call_sites := (call_sites c)(n := f ?st)\<rparr>"
  have mp: "mp = MethodSlot p" using assms(2,6,7) Some by (auto simp: coherent_def)
  have same: "?st\<lparr>alternative_type_count := 0, cachedMethod := Some mp\<rparr> = ?st\<lparr>alternative_type_count := 0\<rparr>"
    using Some by simp
  have look: "look_up_and_call m n ob sel args (?c (\<lambda>s. s\<lparr>cachedMethod := None, alternative_type_count := 0\<rparr>))
      = call_through m mp ob sel args (?c (\<lambda>s. s\<lparr>alternative_type_count := 0\<rparr>))"
    using look_up_and_call_eq [OF lookup_frame(1) [OF _ _ assms(3)] assms(4,5)
        lookup_frame(2) [OF _ _ assms(7)] lookup_frame(3) [OF _ _ assms(8)] assms(9),
        of "?c (\<lambda>s. s\<lparr>cachedMethod := None, alternative_type_count := 0\<rparr>)"]
    by (simp add: mp [symmetric] same)
  show ?thesis
    using assms(6) Some look selector_frame [OF assms(1)]
      lookup_frame(1) [OF _ _ assms(3), of "c\<lparr>call_sites := f\<rparr>" for f]
    by (simp add: uncached_call_def call_method_value_def sem_simps assms(1,3) site_step_def)
qed

text \<open>
  C40. A miss poisons the cache: it replaces the cached method but not the assumed class.  A call
  on a receiver of another class \<open>B\<close> looks its method up and calls it, with the call site in a
  state in which the next call on a receiver of the assumed class calls, on that receiver, the
  method of \<open>B\<close>.
\<close>

theorem miss_poisons_cache:
  assumes "type_assumption (call_sites c n) \<notin> {0, B}" and "lookupSelector name c = Inr (sel, c)"
    and "sel \<noteq> 0" and "class_of_receiver ob c = Inr (B, c)" and "ob \<noteq> 0" and "B \<noteq> 0"
    and "methodForSelector B sel c = Inr (Some pB, c)" and "method_at pB c = Inr (me, c)"
    and "m_function me \<noteq> None" and "site_step B (call_sites c n) = (False, st)"
  shows "call_method_value m n name ob args c = call_through m (MethodSlot pB) ob sel args
      (c\<lparr>call_sites := (call_sites c)(n := st\<lparr>cachedMethod := Some (MethodSlot pB)\<rparr>)\<rparr>) \<and>
    (\<forall>c' obA args'. call_sites c' n = st\<lparr>cachedMethod := Some (MethodSlot pB)\<rparr> \<and>
       lookupSelector name c' = Inr (sel, c') \<and>
       class_of_receiver obA c' = Inr (type_assumption (call_sites c n), c') \<longrightarrow>
       call_method_value m n name obA args' c' = call_through m (MethodSlot pB) obA sel args'
         (c'\<lparr>call_sites := (call_sites c')(n := (call_sites c' n)\<lparr>alternative_type_count := 0\<rparr>)\<rparr>))"
proof (intro conjI allI impI)
  let ?c = "c\<lparr>call_sites := (call_sites c)(n := st)\<rparr>"
  have "look_up_and_call m n ob sel args ?c = call_through m (MethodSlot pB) ob sel args
      (?c\<lparr>call_sites := (call_sites ?c)(n := (call_sites ?c n)\<lparr>cachedMethod := Some (MethodSlot pB)\<rparr>)\<rparr>)"
    by (rule look_up_and_call_eq [OF lookup_frame(1) [OF _ _ assms(4)] assms(5,6)
        lookup_frame(2) [OF _ _ assms(7)] lookup_frame(3) [OF _ _ assms(8)] assms(9)]) simp_all
  then show "call_method_value m n name ob args c = call_through m (MethodSlot pB) ob sel args
      (c\<lparr>call_sites := (call_sites c)(n := st\<lparr>cachedMethod := Some (MethodSlot pB)\<rparr>)\<rparr>)"
    using assms(1) by (auto simp: call_method_value_def sem_simps assms(2-4,10) split: option.split)
next
  fix c' :: ctx and obA args'
  assume c': "call_sites c' n = st\<lparr>cachedMethod := Some (MethodSlot pB)\<rparr> \<and>
       lookupSelector name c' = Inr (sel, c') \<and>
       class_of_receiver obA c' = Inr (type_assumption (call_sites c n), c')"
  have "type_assumption st = type_assumption (call_sites c n)"
    using assms(1,10) by (auto simp: site_step_def note_class_def Let_def split: if_splits)
  then show "call_method_value m n name obA args' c' = call_through m (MethodSlot pB) obA sel args'
         (c'\<lparr>call_sites := (call_sites c')(n := (call_sites c' n)\<lparr>alternative_type_count := 0\<rparr>)\<rparr>)"
    using assms(3) c' by (simp add: call_method_value_def sem_simps site_step_def)
qed

text \<open>
  The recompilation flag is set through \<open>cur_jit_function\<close>, which is null while no generated
  code is running: a call site that reaches the threshold in interpreted code dereferences it.
\<close>

theorem threshold_outside_jit:
  assumes "cur_jit_function c = 0" and "fst (site_step k (call_sites c n))"
    and "lookupSelector name c = Inr (sel, c)" and "sel \<noteq> 0"
    and "class_of_receiver ob c = Inr (k, c)"
  shows "call_method_value m n name ob args c = Inl NullDeref"
proof -
  obtain st where "site_step k (call_sites c n) = (True, st)"
    using assms(2) by (cases "site_step k (call_sites c n)") simp
  then show ?thesis
    using assms(1,3-5) by (simp add: call_method_value_def sem_simps request_recompile_def)
qed

section \<open>A call site that prints\<close>

text \<open>A context with a string, in which the call site \<open>0x5000\<close> has seen the class \<open>k\<close>.\<close>

definition printing_context :: "addr \<Rightarrow> addr \<Rightarrow> 64 word \<Rightarrow> method_ptr option \<Rightarrow> ctx" where
  "printing_context k alt count mp = initial_context
     \<lparr>mem := [0x1000 \<mapsto> StrBlock \<lparr>str_length = literalObject 2, characters = [104, 105]\<rparr>],
      selectors := fst (register_static ([], [])), selNames := snd (register_static ([], [])),
      call_sites := (\<lambda>_. \<lparr>type_assumption = k, alternative_type = alt,
        alternative_type_count = count, cachedMethod = mp\<rparr>)\<rparr>"

lemma print_selector: "lookupSelector ''print'' (printing_context k alt count mp) =
    Inr (sel_print, printing_context k alt count mp)"
proof -
  have "intern_selector ''print'' (register_static ([], [])) = (sel_print, register_static ([], []))"
    by code_simp
  then show ?thesis
    by (cases "register_static ([], [])")
      (simp add: lookupSelector_def printing_context_def initial_context_def)
qed

lemma print_receivers:
  "class_of_receiver 0x1000 (printing_context k alt count mp) = Inr (StringClass, printing_context k alt count mp)"
  "class_of_receiver (literalObject i) (printing_context k alt count mp) = Inr (SmallIntClass, printing_context k alt count mp)"
  by (simp_all add: class_of_receiver_def isa_def sem_simps printing_context_def tag_eval)

lemma printing_methods:
  "methodForSelector StringClass sel_print (printing_context k alt count mp) =
     Inr (Some (StringClass, 3), printing_context k alt count mp)"
  "methodForSelector SmallIntClass sel_print (printing_context k alt count mp) =
     Inr (Some (SmallIntClass, 1), printing_context k alt count mp)"
  "method_at (StringClass, 3) (printing_context k alt count mp) =
     Inr (native_method sel_print 0 B_StringPrint, printing_context k alt count mp)"
  "method_at (SmallIntClass, 1) (printing_context k alt count mp) =
     Inr (native_method sel_print 0 B_NumberPrint, printing_context k alt count mp)"
  by (simp_all add: methodForSelector_def method_at_def sem_simps printing_context_def initial_context_def
      static_classes_def walk_classes.simps static_StringClass_def static_SmallIntClass_def root_class_def
      StringMethods_def NumberMethods_def native_method_def)

lemma cache_hit_transparent_witness:
  "call_method_value (machine_at interpreted_program 1) 0x5000 ''print'' 0x1000 []
      (printing_context StringClass 0 0 (Some (MethodSlot (StringClass, 3)))) =
   uncached_call (machine_at interpreted_program 1) 0x5000 ''print'' 0x1000 []
      (printing_context StringClass 0 0 (Some (MethodSlot (StringClass, 3))))"
proof (rule cache_hit_transparent [OF print_selector _ print_receivers(1) _ _ _ printing_methods(1,3)])
  let ?c = "printing_context StringClass 0 0 (Some (MethodSlot (StringClass, 3)))"
  show "coherent ?c (call_sites ?c 0x5000) sel_print"
    using printing_methods(1) by (simp add: coherent_def printing_context_def)
qed (simp_all add: printing_context_def native_method_def)

text \<open>
  Printing a number at a site that assumes strings, and then a string: the string is handed to
  the method that prints numbers, whose assertion fails.
\<close>

lemma miss_poisons_cache_witness:
  "call_method_value (machine_at interpreted_program 1) 0x5000 ''print'' 0x1000 []
     (printing_context StringClass SmallIntClass 1 (Some (MethodSlot (SmallIntClass, 1)))) = Inl AssertFailed"
proof -
  let ?site = "\<lparr>type_assumption = StringClass, alternative_type = SmallIntClass,
    alternative_type_count = 1, cachedMethod = None\<rparr> :: call_site"
  let ?c = "printing_context StringClass 0 0 None"
  let ?d = "printing_context StringClass SmallIntClass 1 (Some (MethodSlot (SmallIntClass, 1)))"
  have step: "site_step SmallIntClass (call_sites ?c 0x5000) = (False, ?site)"
    by (simp add: site_step_def note_class_def printing_context_def)
  have A: "type_assumption (call_sites ?c 0x5000) \<notin> {0, SmallIntClass}"
    by (simp add: printing_context_def)
  have f: "m_function (native_method sel_print 0 B_NumberPrint) \<noteq> None"
    by (simp add: native_method_def)
  have d: "call_sites ?d 0x5000 = ?site\<lparr>cachedMethod := Some (MethodSlot (SmallIntClass, 1))\<rparr>"
    "class_of_receiver 0x1000 ?d = Inr (type_assumption (call_sites ?c 0x5000), ?d)"
    using print_receivers(1) [of StringClass SmallIntClass 1] by (simp_all add: printing_context_def)
  have "call_method_value (machine_at interpreted_program 1) 0x5000 ''print'' 0x1000 [] ?d =
      call_through (machine_at interpreted_program 1) (MethodSlot (SmallIntClass, 1)) 0x1000 sel_print []
        (?d\<lparr>call_sites := (call_sites ?d)(0x5000 := (call_sites ?d 0x5000)\<lparr>alternative_type_count := 0\<rparr>)\<rparr>)"
    using miss_poisons_cache [OF A print_selector _ print_receivers(2) _ _ printing_methods(2,4) f step, of 5]
      d print_selector by simp
  also have "\<dots> = Inl AssertFailed"
    by (simp add: printing_context_def initial_context_def run_simps load_method_ptr_def method_at_def
        static_classes_def static_SmallIntClass_def root_class_def NumberMethods_def native_method_def
        NumberPrint_def getInteger_def)
  finally show ?thesis .
qed

lemma threshold_outside_jit_witness:
  "call_method_value (machine_at interpreted_program 1) 0x5000 ''print'' (literalObject 5) []
     (printing_context StringClass SmallIntClass 10000 None) = Inl NullDeref"
proof (rule threshold_outside_jit [OF _ _ print_selector _ print_receivers(2)])
  show "fst (site_step SmallIntClass (call_sites (printing_context StringClass SmallIntClass 10000 None) 0x5000))"
    by (simp add: site_step_def note_class_def printing_context_def RECOMPILE_THRESHOLD_def)
qed (simp_all add: printing_context_def initial_context_def)

end
