(* ===== verification/Blindness.thy ===== *)
theory Blindness
  imports Run_Invariants
begin

text \<open>
  Functions that are blind to a part of the context: running one with another value of this part gives
  the same result and the same context, but for that value.  The part is given by \<open>put\<close>, which sets or
  extends it; \<open>depth\<close> is a size of the context that a blind function keeps and that may have to be at
  least \<open>lo\<close>.  Three locales say what the part has to do with the other fields, with the variables, and
  with the frames of functions; the whole machine is blind to a part that meets all three.
\<close>

section \<open>Blind functions\<close>

definition lift_result :: "('s \<Rightarrow> 's) \<Rightarrow> fault + 'a \<times> 's \<Rightarrow> fault + 'a \<times> 's" where
  "lift_result h r = (case r of Inl e \<Rightarrow> Inl e | Inr (a, c) \<Rightarrow> Inr (a, h c))"

lemma lift_result_simps [simp]:
  "lift_result h (Inl e) = Inl e" "lift_result h (Inr (a, c)) = Inr (a, h c)"
  by (simp_all add: lift_result_def)

definition blind_to :: "('x \<Rightarrow> ctx \<Rightarrow> ctx) \<Rightarrow> (ctx \<Rightarrow> nat) \<Rightarrow> nat \<Rightarrow> 'a run \<Rightarrow> bool" where
  "blind_to put depth lo m \<longleftrightarrow> (\<forall>c. lo \<le> depth c \<longrightarrow> (\<forall>x. m (put x c) = lift_result (put x) (m c)) \<and>
     (\<forall>a c'. m c = Inr (a, c') \<longrightarrow> depth c' = depth c))"

lemma blind_toD:
  assumes "blind_to put depth lo m" and "lo \<le> depth c"
  shows "m (put x c) = lift_result (put x) (m c)" and "m c = Inr (a, c') \<Longrightarrow> depth c' = depth c"
  using assms by (auto simp: blind_to_def)

lemma blind_to_deeper: "blind_to put depth lo m \<Longrightarrow> lo \<le> lo' \<Longrightarrow> blind_to put depth lo' m"
  by (simp add: blind_to_def)

lemma blind_leaf:
  "blind_to put depth lo (return a)" "blind_to put depth lo (fail e)" "blind_to put depth lo (assert p)"
  "blind_to put depth lo (lift r)"
  by (cases r; simp add: blind_to_def sem_simps)+

lemma blind_gets: "(\<And>c x. lo \<le> depth c \<Longrightarrow> f (put x c) = f c) \<Longrightarrow> blind_to put depth lo (gets f)"
  by (simp add: blind_to_def sem_simps)

lemma blind_modify:
  "(\<And>c x. g (put x c) = put x (g c)) \<Longrightarrow> (\<And>c. depth (g c) = depth c) \<Longrightarrow> blind_to put depth lo (modify g)"
  by (simp add: blind_to_def sem_simps)

lemma blind_bind:
  assumes "blind_to put depth lo m" and "\<And>a. blind_to put depth lo (f a)"
  shows "blind_to put depth lo (bind m f)"
  unfolding blind_to_def
proof (intro allI impI conjI)
  fix c x
  assume c: "lo \<le> depth c"
  show "bind m f (put x c) = lift_result (put x) (bind m f c)"
  proof (cases "m c")
    case (Inr p)
    then obtain a c1 where m: "m c = Inr (a, c1)" by (cases p) auto
    then show ?thesis
      using blind_toD [OF assms(1) c] blind_toD(1) [OF assms(2), where c = c1 and x = x] c by (simp add: sem_simps)
  qed (use blind_toD(1) [OF assms(1) c] in \<open>simp add: sem_simps\<close>)
next
  fix c a c'
  assume c: "lo \<le> depth c" and "bind m f c = Inr (a, c')"
  then obtain b c1 where "m c = Inr (b, c1)" "f b c1 = Inr (a, c')" by (auto elim: bind_InrE)
  then show "depth c' = depth c"
    using blind_toD(2) [OF assms(1) c] blind_toD(2) [OF assms(2), where c = c1 and c' = c'] c by metis
qed

lemma blind_seq: "blind_to put depth lo m \<Longrightarrow> blind_to put depth lo k \<Longrightarrow> blind_to put depth lo (seq m k)"
  by (simp add: seq_def blind_bind)

lemma blind_if: "(p \<Longrightarrow> blind_to put depth lo m) \<Longrightarrow> (\<not> p \<Longrightarrow> blind_to put depth lo k) \<Longrightarrow>
    blind_to put depth lo (if p then m else k)"
  by simp

lemma blind_option: "(x = None \<Longrightarrow> blind_to put depth lo m) \<Longrightarrow> (\<And>a. x = Some a \<Longrightarrow> blind_to put depth lo (f a)) \<Longrightarrow>
    blind_to put depth lo (case x of None \<Rightarrow> m | Some a \<Rightarrow> f a)"
  by (cases x) simp_all

lemma blind_prod: "(\<And>a b. x = (a, b) \<Longrightarrow> blind_to put depth lo (f a b)) \<Longrightarrow>
    blind_to put depth lo (case x of (a, b) \<Rightarrow> f a b)"
  by (cases x) simp

lemma blind_while:
  assumes "blind_to put depth lo p" and "blind_to put depth lo q"
  shows "blind_to put depth lo (while_sem n p q)"
proof (induction n)
  case (Suc n)
  show ?case unfolding while_sem.simps by (intro blind_bind blind_if blind_seq blind_leaf assms Suc)
qed (simp add: while_sem.simps blind_leaf)

lemmas blind_intros = blind_leaf blind_bind blind_seq blind_if blind_option blind_prod blind_while

named_theorems blinds \<open>operations that are blind to a hidden part\<close>

section \<open>Parts apart from the other fields\<close>

locale hidden_part =
  fixes put :: "'x \<Rightarrow> ctx \<Rightarrow> ctx" and depth :: "ctx \<Rightarrow> nat"
  assumes reads: "mem (put x c) = mem c" "classes (put x c) = classes c" "classTable (put x c) = classTable c"
      "selectors (put x c) = selectors c" "selNames (put x c) = selNames c" "console (put x c) = console c"
      "input (put x c) = input c" "cur_jit_function (put x c) = cur_jit_function c" "globals (put x c) = globals c"
      "globalSymbols (put x c) = globalSymbols c" "retVal (put x c) = retVal c" "isReturning (put x c) = isReturning c"
      "cache (put x c) = cache c" "call_sites (put x c) = call_sites c" "closure_decls (put x c) = closure_decls c"
      "jit_table (put x c) = jit_table c"
    and writes: "\<And>v. (put x c)\<lparr>mem := v\<rparr> = put x (c\<lparr>mem := v\<rparr>)" "\<And>v. (put x c)\<lparr>classes := v\<rparr> = put x (c\<lparr>classes := v\<rparr>)"
      "\<And>v. (put x c)\<lparr>classTable := v\<rparr> = put x (c\<lparr>classTable := v\<rparr>)"
      "\<And>v. (put x c)\<lparr>selectors := v\<rparr> = put x (c\<lparr>selectors := v\<rparr>)" "\<And>v. (put x c)\<lparr>selNames := v\<rparr> = put x (c\<lparr>selNames := v\<rparr>)"
      "\<And>v. (put x c)\<lparr>console := v\<rparr> = put x (c\<lparr>console := v\<rparr>)" "\<And>v. (put x c)\<lparr>input := v\<rparr> = put x (c\<lparr>input := v\<rparr>)"
      "\<And>v. (put x c)\<lparr>cur_jit_function := v\<rparr> = put x (c\<lparr>cur_jit_function := v\<rparr>)"
      "\<And>v. (put x c)\<lparr>globals := v\<rparr> = put x (c\<lparr>globals := v\<rparr>)"
      "\<And>v. (put x c)\<lparr>globalSymbols := v\<rparr> = put x (c\<lparr>globalSymbols := v\<rparr>)"
      "\<And>v. (put x c)\<lparr>retVal := v\<rparr> = put x (c\<lparr>retVal := v\<rparr>)" "\<And>v. (put x c)\<lparr>isReturning := v\<rparr> = put x (c\<lparr>isReturning := v\<rparr>)"
      "\<And>v. (put x c)\<lparr>cache := v\<rparr> = put x (c\<lparr>cache := v\<rparr>)" "\<And>v. (put x c)\<lparr>call_sites := v\<rparr> = put x (c\<lparr>call_sites := v\<rparr>)"
      "\<And>v. (put x c)\<lparr>closure_decls := v\<rparr> = put x (c\<lparr>closure_decls := v\<rparr>)"
      "\<And>v. (put x c)\<lparr>jit_table := v\<rparr> = put x (c\<lparr>jit_table := v\<rparr>)"
    and depths: "\<And>v. depth (c\<lparr>mem := v\<rparr>) = depth c" "\<And>v. depth (c\<lparr>classes := v\<rparr>) = depth c"
      "\<And>v. depth (c\<lparr>classTable := v\<rparr>) = depth c" "\<And>v. depth (c\<lparr>selectors := v\<rparr>) = depth c"
      "\<And>v. depth (c\<lparr>selNames := v\<rparr>) = depth c" "\<And>v. depth (c\<lparr>console := v\<rparr>) = depth c"
      "\<And>v. depth (c\<lparr>input := v\<rparr>) = depth c" "\<And>v. depth (c\<lparr>cur_jit_function := v\<rparr>) = depth c"
      "\<And>v. depth (c\<lparr>globals := v\<rparr>) = depth c" "\<And>v. depth (c\<lparr>globalSymbols := v\<rparr>) = depth c"
      "\<And>v. depth (c\<lparr>retVal := v\<rparr>) = depth c" "\<And>v. depth (c\<lparr>isReturning := v\<rparr>) = depth c"
      "\<And>v. depth (c\<lparr>cache := v\<rparr>) = depth c" "\<And>v. depth (c\<lparr>call_sites := v\<rparr>) = depth c"
      "\<And>v. depth (c\<lparr>closure_decls := v\<rparr>) = depth c" "\<And>v. depth (c\<lparr>jit_table := v\<rparr>) = depth c"
begin

lemmas hidden = reads writes depths

lemma heap_blind [blinds]:
  "blind_to put depth lo (block_at a)" "blind_to put depth lo (set_block a b)" "blind_to put depth lo (load p)"
  "blind_to put depth lo (store p v)" "blind_to put depth lo (alloc E b)" "blind_to put depth lo (isa a)"
  "blind_to put depth lo (closure_at a)" "blind_to put depth lo (GC_free a)" "blind_to put depth lo (value_set E r v)"
proof -
  show b: "blind_to put depth lo (block_at a)" for a
    by (simp add: blind_to_def sem_simps hidden split: option.split)
  show s: "blind_to put depth lo (set_block a b)" for a b
    by (simp add: blind_to_def sem_simps hidden)
  show "blind_to put depth lo (load p)" "blind_to put depth lo (isa a)" "blind_to put depth lo (closure_at a)"
    by (auto simp: blind_to_def sem_simps load_def isa_def closure_at_def hidden split: option.split block.split)
  show st: "blind_to put depth lo (store p v)" for p v
    unfolding store_def by (intro blind_intros b s)
  show al: "blind_to put depth lo (alloc E b)" for b
    by (auto simp: blind_to_def sem_simps hidden split: option.split)
  show f: "blind_to put depth lo (GC_free a)" for a
    unfolding GC_free_def by (rule blind_modify) (simp_all add: hidden)
  show "blind_to put depth lo (value_set E r v)"
    unfolding value_set_def by (intro blind_intros al f st)
qed

lemma context_blind [blinds]:
  "blind_to put depth lo (set_site n st)" "blind_to put depth lo (set_jit d)" "blind_to put depth lo (decl_at d)"
  "blind_to put depth lo (update_decl d f)" "blind_to put depth lo (emit ev)" "blind_to put depth lo (check_decl D)"
  "blind_to put depth lo (Runtime.lookupSelector str)" "blind_to put depth lo (set_returning b)"
  by (auto simp: blind_to_def sem_simps check_decl_def Runtime.lookupSelector_def hidden split: prod.split)

lemma set_value_blind [blinds]:
  "blind_to put depth lo (new_global E x v)" "blind_to put depth lo (set_cache E n v)" "blind_to put depth lo (set_retVal E v)"
  unfolding new_global_def set_cache_def set_retVal_def
  by (intro blind_intros blinds blind_modify blind_gets; simp add: hidden)+

lemma runtime_blind [blinds]:
  "blind_to put depth lo (class_at k)" "blind_to put depth lo (class_of_receiver ob)"
  "blind_to put depth lo (ptrToCompiledMethodForSelector ob sel)" "blind_to put depth lo (methodForSelector k sel)"
  "blind_to put depth lo (method_at p)" "blind_to put depth lo (load_method_ptr mp)"
  "blind_to put depth lo (compiledMethodForSelector ob sel)" "blind_to put depth lo (newObject E k)"
  "blind_to put depth lo (lookupClass nm)" "blind_to put depth lo (registerClass nm k)"
  "blind_to put depth lo (set_method p me)"
proof -
  show c: "blind_to put depth lo (class_at k)" for k
    by (auto simp: blind_to_def sem_simps hidden split: option.split)
  show r: "blind_to put depth lo (class_of_receiver ob)"
    unfolding class_of_receiver_def by (intro blind_intros blinds)
  show s: "blind_to put depth lo (methodForSelector k sel)" for k
    by (auto simp: blind_to_def methodForSelector_def hidden split: option.split sum.split)
  have g: "blind_to put depth lo (getClassFor ob)"
    unfolding getClassFor_def by (intro blind_intros blinds)
  show p: "blind_to put depth lo (ptrToCompiledMethodForSelector ob sel)"
    unfolding ptrToCompiledMethodForSelector_def by (intro blind_intros g s)
  show m: "blind_to put depth lo (method_at p)" for p
    unfolding method_at_def by (intro blind_intros c)
  show l: "blind_to put depth lo (load_method_ptr mp)" for mp
    unfolding load_method_ptr_def by (cases mp) (simp_all add: blind_bind blind_leaf m)
  show "blind_to put depth lo (compiledMethodForSelector ob sel)"
    unfolding compiledMethodForSelector_def by (intro blind_intros p l)
  show "blind_to put depth lo (newObject E k)"
    unfolding newObject_def by (intro blind_intros blinds c)
  show "blind_to put depth lo (lookupClass nm)" "blind_to put depth lo (registerClass nm k)"
    by (auto simp: blind_to_def lookupClass_def registerClass_def sem_simps hidden Let_def split: option.split)
  show "blind_to put depth lo (set_method p me)"
    unfolding set_method_def by (intro blind_intros blinds blind_modify c) (simp_all add: hidden)
qed

lemma operations_blind [blinds]:
  "blind_to put depth lo (eval_string E st)" "blind_to put depth lo (eval_new E cn)" "blind_to put depth lo request_recompile"
  "blind_to put depth lo (cache_method n mp)" "blind_to put depth lo (closureTrampolines k)"
  "blind_to put depth lo (count_execution d)" "blind_to put depth lo (install_class E kl)"
  unfolding eval_string_def new_string_def eval_new_def request_recompile_def cache_method_def closureTrampolines_def
    count_execution_def install_class_def
  by (intro blind_intros blinds blind_modify blind_gets; simp add: hidden)+

lemma loops_blind [blinds]: "blind_to put depth lo (make_methods Ds)" "blind_to put depth lo (load_args a j n)"
proof -
  show "blind_to put depth lo (make_methods Ds)"
    by (induction Ds) (simp_all only: make_methods.simps Let_def, (intro blind_intros blinds | assumption)+)
  show "blind_to put depth lo (load_args a j n)"
    by (induction a j n rule: load_args.induct) (simp_all only: load_args.simps, (intro blind_intros blinds | assumption)+)
qed

lemma declarations_blind [blinds]: "blind_to put depth lo (declare_class E name superName ivs Ds)"
  unfolding declare_class_def Let_def by (intro blind_intros blinds)

lemma string_blind [blinds]:
  "blind_to put depth lo (as_string a)" "blind_to put depth lo (string_bytes st)" "blind_to put depth lo (is_string_arg ob)"
  "blind_to put depth lo (new_string E bs)" "blind_to put depth lo (fd_of f)"
  unfolding as_string_def string_bytes_def is_string_arg_def new_string_def fd_of_def
  by (intro blind_intros blinds | simp split: block.split list.split add: blind_leaf)+

lemma array_blind [blinds]:
  "blind_to put depth lo (index_buffer buf i)" "blind_to put depth lo (copied_prefix buf len)"
  "blind_to put depth lo (grow_buffer E arr i n)" "blind_to put depth lo (arg args j)"
  unfolding index_buffer_def copied_prefix_def grow_buffer_def Let_def arg_def
  by (intro blind_intros blinds)+

lemma primitive_blind [blinds]:
  "blind_to put depth lo (FileOpen E f sel a)" "blind_to put depth lo (FileClose f sel)"
  "blind_to put depth lo (FileReadLine E f sel)" "blind_to put depth lo (FileWrite f sel a)"
  "blind_to put depth lo (StringLength f sel)" "blind_to put depth lo (StringCharAt f sel a)"
  "blind_to put depth lo (StringDump f sel)" "blind_to put depth lo (StringPrint f sel)"
  "blind_to put depth lo (StringAdd E f sel a)" "blind_to put depth lo (StringCmp E f sel a)"
  "blind_to put depth lo (NumberDump f sel)" "blind_to put depth lo (NumberPrint f sel)"
  "blind_to put depth lo (ArrayLength f sel)" "blind_to put depth lo (ArrayAt f sel a)"
  "blind_to put depth lo (ArrayAtPut E f sel a v)"
  unfolding FileOpen_def FileClose_def FileReadLine_def FileWrite_def StringLength_def
    StringCharAt_def StringDump_def StringPrint_def StringAdd_def StringCmp_def NumberDump_def
    NumberPrint_def ArrayLength_def ArrayAt_def ArrayAtPut_def Let_def
  by (intro blind_intros blinds blind_modify blind_gets; simp add: hidden)+

lemma native_blind [blinds]: "blind_to put depth lo (call_native E b ob sel args)"
  by (cases b) (simp_all only: call_native.simps, (intro blind_bind blinds)+)

lemma compile_blind:
  assumes "\<And>e. blind_to put depth lo (m_compile m e)"
  shows "blind_to put depth lo (compile_as_method m D mth cls)" and "blind_to put depth lo (compile_as_closure m D self)"
proof -
  have "blind_to put depth lo (install_code m e)" for e
    unfolding install_code_def
    by (intro blind_intros assms blind_modify blind_gets; simp add: hidden)
  then show "blind_to put depth lo (compile_as_method m D mth cls)" "blind_to put depth lo (compile_as_closure m D self)"
    unfolding compile_as_method_def compile_as_closure_def by (intro blind_intros blinds; assumption?)+
qed

lemma saving_jit_blind: "blind_to put depth lo m \<Longrightarrow> blind_to put depth lo (saving_jit m)"
  unfolding saving_jit_def by (intro blind_intros blinds blind_gets) (simp_all add: hidden)

lemma cached_blind: "blind_to put depth lo ev \<Longrightarrow> blind_to put depth lo (cached m e ev)"
  unfolding cached_def by (intro blind_intros blinds blind_gets; simp add: hidden)

end

section \<open>Evaluation\<close>

text \<open>Calls that are blind to the part; generated code is blind if the calls it makes are.\<close>

definition calls_blind_to :: "('x \<Rightarrow> ctx \<Rightarrow> ctx) \<Rightarrow> (ctx \<Rightarrow> nat) \<Rightarrow> nat \<Rightarrow> machine \<Rightarrow> bool" where
  "calls_blind_to put depth lo m \<longleftrightarrow> (\<forall>f ob sel vs. blind_to put depth lo (m_method m f ob sel vs)) \<and>
     (\<forall>f C vs. blind_to put depth lo (m_closure m f C vs)) \<and> (\<forall>e. blind_to put depth lo (m_compile m e))"

definition jit_blind_to :: "('x \<Rightarrow> ctx \<Rightarrow> ctx) \<Rightarrow> (ctx \<Rightarrow> nat) \<Rightarrow> program \<Rightarrow> bool" where
  "jit_blind_to put depth P \<longleftrightarrow> (\<forall>m. calls_blind_to put depth 0 m \<longrightarrow>
     (\<forall>k ob sel vs. blind_to put depth 0 (p_jit_method P m k ob sel vs)) \<and>
     (\<forall>k C vs. blind_to put depth 0 (p_jit_closure P m k C vs))) \<and> (\<forall>e. blind_to put depth 0 (p_compile P e))"

lemma calls_blind_deeper: "calls_blind_to put depth lo m \<Longrightarrow> lo \<le> lo' \<Longrightarrow> calls_blind_to put depth lo' m"
  unfolding calls_blind_to_def by (blast intro: blind_to_deeper)

text \<open>A part that has nothing to do with the table on top of the stack.\<close>

locale hidden_from_variables = hidden_part +
  fixes lo :: nat
  assumes lookup: "lo \<le> depth c \<Longrightarrow> lookup_in (symbols (put x c)) (globalSymbols c) y = lookup_in (symbols c) (globalSymbols c) y"
    and address: "blind_to put depth lo (setAddress y p)"
begin

lemma variables_blind [blinds]:
  "blind_to put depth lo (lookupSymbol x)" "blind_to put depth lo (setSymbol E x v)" "blind_to put depth lo (eval_var x)"
proof -
  show l: "blind_to put depth lo (lookupSymbol x)" for x
    unfolding lookupSymbol_def by (rule blind_gets) (simp add: lookup reads)
  show "blind_to put depth lo (setSymbol E x v)" "blind_to put depth lo (eval_var x)"
    unfolding setSymbol_def eval_var_def by (intro blind_intros blinds l)+
qed

lemma bindings_blind [blinds]: "blind_to put depth lo (copy_bound_vars C xs i)" "blind_to put depth lo (bind_addresses ys b k)"
proof -
  show "blind_to put depth lo (copy_bound_vars C xs i)"
    by (induction C xs i rule: copy_bound_vars.induct)
      (simp add: blind_leaf, unfold copy_bound_vars.simps, intro blind_intros blinds)
  show "blind_to put depth lo (bind_addresses ys b k)"
    by (induction ys b k rule: bind_addresses.induct)
      (simp_all only: bind_addresses.simps, (intro blind_intros address blinds | assumption)+)
qed

lemma make_closure_blind [blinds]: "blind_to put depth lo (make_closure m D)"
  unfolding make_closure_def Let_def by (intro blind_intros blinds)

lemma call_blind:
  assumes "calls_blind_to put depth lo m"
  shows "blind_to put depth lo (callCompiledMethod m f ob sel vs)" and "blind_to put depth lo (callCompiledClosure m f C vs)"
  using assms unfolding callCompiledMethod_def callCompiledClosure_def calls_blind_to_def
  by (intro blind_intros; simp)+

lemma do_call_blind:
  assumes "calls_blind_to put depth lo m" and "blind_to put depth lo as"
  shows "blind_to put depth lo (do_call m n meth as ob)"
  unfolding do_call_def call_closure_value_def call_method_value_def look_up_and_call_def call_through_def
  by (intro blind_intros saving_jit_blind call_blind blinds assms blind_gets; simp add: hidden)

lemma performOp_blind: "calls_blind_to put depth lo m \<Longrightarrow> blind_to put depth lo (performOp m op l r)"
  unfolding performOp_def by (intro blind_intros saving_jit_blind call_blind blinds)

lemma evaluation_is_blind:
  assumes "calls_blind_to put depth lo m"
  shows "blind_to put depth lo (evaluateExpr m e)"
    and "(d :: cdecl) = d"
    and "blind_to put depth lo (interpret_stmt m s)"
    and "\<And>i. blind_to put depth lo (evaluate_args m es i)"
    and "blind_to put depth lo (interpret_stmts m ss)"
    and "blind_to put depth lo (evaluate_init m i)"
proof (induction e and d and s and es and ss and i rule: syntax_induct)
qed (simp_all only: evaluation_simps,
   (intro blind_intros cached_blind performOp_blind do_call_blind blinds assms blind_gets
    | assumption | rule HOL.refl | simp add: hidden)+)

lemma frame_rest_blind [blinds]:
  "blind_to put depth lo (bind_locals E xs)"
  "blind_to put depth lo (seq (bind_addresses ps args 0) (seq (bind_locals E locals)
     (bind (lift (createSmallInteger (ucast sel))) (\<lambda>cmdObj.
      bind (alloc E (CellBlock [self])) (\<lambda>self_addr. bind (alloc E (CellBlock [cmdObj])) (\<lambda>cmd_addr.
      seq (setAddress ''self'' (self_addr, 0)) (seq (setAddress ''cmd'' (cmd_addr, 0))
      (bind (class_at cls) (\<lambda>k. bind_addresses (indexedIVarNames k) self 0)))))))))"
  "blind_to put depth lo (seq (bind_addresses ps args 0) (seq (bind_addresses bs self 0) (bind_locals E locals)))"
  unfolding bind_locals_def by (intro blind_intros address blinds)+

lemma body_blind:
  assumes "calls_blind_to put depth lo m"
  shows "blind_to put depth lo (seq (interpret_stmts m body) (bind (gets (\<lambda>c. object (retVal c))) (\<lambda>v.
      seq (set_retVal (m_env m) 0) (seq (set_returning False) (return v)))))"
  by (intro blind_intros blinds evaluation_is_blind assms blind_gets) (simp add: hidden)

end

section \<open>The machine\<close>

text \<open>A part to which a function is blind with the frame that it opens and closes.\<close>

locale hidden_from_calls = hidden_part +
  assumes method_framed: "calls_blind_to put depth 0 m \<Longrightarrow>
      blind_to put depth 0 (seq (method_frame E D ls cls self sel args) (run_body m body))"
    and closure_framed: "calls_blind_to put depth 0 m \<Longrightarrow>
      blind_to put depth 0 (seq (closure_frame E D i C args) (run_body m body))"
begin

lemma compiled_call_blind:
  assumes "calls_blind_to put depth 0 m"
  shows "blind_to put depth 0 (callCompiledMethod m f ob sel vs)" and "blind_to put depth 0 (callCompiledClosure m f C vs)"
  using assms unfolding callCompiledMethod_def callCompiledClosure_def calls_blind_to_def
  by (intro blind_intros; simp)+

lemma interpret_code_blind:
  assumes "calls_blind_to put depth 0 m"
  shows "blind_to put depth 0 (interpretMethod m D mth self sel args)" and "blind_to put depth 0 (interpretClosure m D C args)"
proof -
  have "blind_to put depth 0 (m_compile m e)" for e using assms by (simp add: calls_blind_to_def)
  note compiling = compile_blind [OF this]
  show "blind_to put depth 0 (interpretMethod m D mth self sel args)" "blind_to put depth 0 (interpretClosure m D C args)"
    unfolding interpretMethod_def interpretClosure_def Let_def
    by (intro blind_bind blind_seq blind_if blind_option blind_prod blind_leaf blinds compiled_call_blind compiling
        method_framed closure_framed assms)+
qed

lemma trampoline_blind:
  assumes "calls_blind_to put depth 0 m"
  shows "blind_to put depth 0 (methodTrampoline m k self sel vs)" and "blind_to put depth 0 (closureTrampoline m k C vs)"
  unfolding methodTrampoline_def closureTrampoline_def argument_array_def the_decl_def
  by (intro blind_intros blinds interpret_code_blind assms)+

lemma enter_blind:
  assumes "calls_blind_to put depth 0 m" and "jit_blind_to put depth P"
  shows "blind_to put depth 0 (enter_method P m f ob sel vs)" and "blind_to put depth 0 (enter_closure P m f C vs)"
  using assms by (cases f; simp add: trampoline_blind jit_blind_to_def native_blind blind_leaf)+

lemma machine_blind: "jit_blind_to put depth P \<Longrightarrow> calls_blind_to put depth 0 (machine_at P n)"
proof (induction n)
  case 0
  then show ?case by (simp add: calls_blind_to_def jit_blind_to_def machine_at.simps blind_leaf)
next
  case (Suc n)
  then show ?case using enter_blind [OF Suc.IH] by (simp add: calls_blind_to_def jit_blind_to_def)
qed

end

end
