(* ===== verification/Flag_Blind.thy ===== *)
theory Flag_Blind
  imports Blindness
begin

text \<open>
  The flag \<open>astNodeFound\<close> is read by the search for a node only: evaluation neither reads nor sets
  it, and the whole machine is blind to it.  Generated code is blind as long as it does not give up:
  \<open>resumeInInterpreter\<close> both reads and resets the flag.
\<close>

abbreviation set_flag :: "bool \<Rightarrow> ctx \<Rightarrow> ctx" where
  "set_flag b c \<equiv> c\<lparr>astNodeFound := b\<rparr>"

abbreviation with_found :: "bool \<Rightarrow> fault + 'a \<times> ctx \<Rightarrow> fault + 'a \<times> ctx" where
  "with_found b \<equiv> lift_result (set_flag b)"

abbreviation blind :: "'a run \<Rightarrow> bool" where
  "blind \<equiv> blind_to set_flag (\<lambda>_. 0) 0"

abbreviation calls_blind :: "machine \<Rightarrow> bool" where
  "calls_blind \<equiv> calls_blind_to set_flag (\<lambda>_. 0) 0"

abbreviation jit_blind :: "program \<Rightarrow> bool" where
  "jit_blind \<equiv> jit_blind_to set_flag (\<lambda>_. 0)"

lemma blindD: "blind m \<Longrightarrow> m (c\<lparr>astNodeFound := b\<rparr>) = with_found b (m c)"
  using blind_toD(1) [of set_flag "\<lambda>_. 0" 0 m c b] by simp

lemma blind_keeps_flag:
  assumes "blind m" and run: "m c = Inr (a, c')"
  shows "astNodeFound c' = astNodeFound c"
proof -
  have "m (c\<lparr>astNodeFound := astNodeFound c\<rparr>) = Inr (a, c'\<lparr>astNodeFound := astNodeFound c\<rparr>)"
    unfolding blindD [OF assms(1)] run by simp
  moreover have "m (c\<lparr>astNodeFound := astNodeFound c\<rparr>) = Inr (a, c')"
    using run by simp
  ultimately have "c'\<lparr>astNodeFound := astNodeFound c\<rparr> = c'" by (metis Inr_inject prod.inject)
  from arg_cong [OF this, of astNodeFound] show ?thesis by simp
qed

interpretation flag: hidden_from_variables set_flag "\<lambda>_. 0" 0
  by unfold_locales (simp_all add: blind_to_def sem_simps split: list.split)

lemma run_body_blind: "calls_blind m \<Longrightarrow> blind (run_body m body)"
proof -
  assume m: "calls_blind m"
  have "blind popSymbols" by (auto simp: blind_to_def sem_simps)
  then show ?thesis
    unfolding run_body_def
    by (intro blind_intros flag.context_blind flag.set_value_blind flag.evaluation_is_blind m blind_gets; simp)
qed

lemma frame_blind: "blind (method_frame E D ls cls self sel args)" "blind (closure_frame E D i self args)"
proof -
  have push: "blind (pushSymbols t)" for t by (simp add: blind_to_def sem_simps)
  show "blind (method_frame E D ls cls self sel args)"
    unfolding method_frame_def by (rule blind_seq [OF push flag.frame_rest_blind(2)])
  show "blind (closure_frame E D i self args)"
    unfolding closure_frame_def by (rule blind_seq [OF push flag.frame_rest_blind(3)])
qed

interpretation flag_calls: hidden_from_calls set_flag "\<lambda>_. 0"
  by unfold_locales (intro blind_seq frame_blind run_body_blind; assumption)+

lemmas evaluation_is_blind = flag.evaluation_is_blind
lemmas cached_blind = flag.cached_blind
lemmas machine_blind = flag_calls.machine_blind

end
