(* ===== verification/Deopt.thy ===== *)
theory Deopt
  imports Flag_Blind
begin

text \<open>
  Resuming a compiled function in the interpreter: the search for the node at which generated code
  gave up (\<open>skip_to\<close> and \<open>expr_skip_to\<close> of every node, \<open>resumeInInterpreter\<close>), what it executes, and
  what would have to be executed.
\<close>

section \<open>The search\<close>

definition if_found :: "'a run \<Rightarrow> 'a run \<Rightarrow> 'a run" where
  "if_found m k = bind (gets astNodeFound) (\<lambda>found. if found then m else k)"

text \<open>
  The leaves evaluate themselves whether or not they are the node; \<open>evaluateExpr\<close> is called without
  the cache.
\<close>

definition leaf_skip :: "node \<Rightarrow> node \<Rightarrow> obj run \<Rightarrow> obj run" where
  "leaf_skip node n ev = seq (if n = node then set_found True else return ()) ev"

primrec expr_skip_to :: "machine \<Rightarrow> node \<Rightarrow> expr \<Rightarrow> obj run"
  and init_skip_to :: "machine \<Rightarrow> node \<Rightarrow> expr option \<Rightarrow> obj run"
  and decl_skip_to :: "machine \<Rightarrow> node \<Rightarrow> cdecl \<Rightarrow> obj run"
  and skip_to :: "machine \<Rightarrow> node \<Rightarrow> stmt \<Rightarrow> unit run"
  and skip_to_all :: "machine \<Rightarrow> node \<Rightarrow> stmt list \<Rightarrow> unit run"
where
  "expr_skip_to m node (Number n v) = leaf_skip node n (evaluateExpr m (Number n v))"
| "expr_skip_to m node (StringLiteral n st) = leaf_skip node n (evaluateExpr m (StringLiteral n st))"
| "expr_skip_to m node (VarRef n x) = leaf_skip node n (evaluateExpr m (VarRef n x))"
| "expr_skip_to m node (NewExpr n cname) = leaf_skip node n (evaluateExpr m (NewExpr n cname))"
| "expr_skip_to m node (BinOp n op l r) =
     bind (expr_skip_to m node l) (\<lambda>LHS.
     if_found (bind (evaluate m r) (performOp m op LHS))
     (bind (expr_skip_to m node r) (\<lambda>RHS.
      if_found (performOp m op 0 RHS)
      (seq (if n = node then set_found True else return ()) (return 0)))))"
| "expr_skip_to m node (Call n callee meth args) =
     bind (expr_skip_to m node callee) (\<lambda>ob.
     if_found (do_call m n meth (evaluate_args m args 0) ob)
     (if n = node
      then seq (set_found True) (do_call m n meth (evaluate_args m args 0) ob)
      else return 0))"
| "expr_skip_to m node (ClosureExpr D) = decl_skip_to m node D"
| "init_skip_to m node None = return 0"
| "init_skip_to m node (Some e) = expr_skip_to m node e"
| "decl_skip_to m node (ClosureDecl n nm ps body) = seq (skip_to_all m node body) (return 0)"
| "skip_to m node (ExprStmt e) = bind (expr_skip_to m node e) (\<lambda>_. return ())"
| "skip_to m node (Assignment n x e) =
     bind (expr_skip_to m node e) (\<lambda>result.
     seq (if_found (setSymbol (m_env m) x result) (return ()))
     (if n = node then seq (set_found True) (setSymbol (m_env m) x result) else return ()))"
| "skip_to m node (Decl n x init) =
     (if n = node then set_found True
      else case init of
        None \<Rightarrow> return ()
      | Some e \<Rightarrow> bind (init_skip_to m node init) (\<lambda>v.
                  if_found (setSymbol (m_env m) x v) (return ())))"
| "skip_to m node (Return n e) =
     bind (expr_skip_to m node e) (\<lambda>v.
     if_found (seq (set_retVal (m_env m) v) (set_returning True))
     (if n = node then set_found True else return ()))"
| "skip_to m node (IfStatement n b body) =
     bind (expr_skip_to m node b) (\<lambda>v.
     bind (gets astNodeFound) (\<lambda>found.
     if found \<and> interpretedTruth v then interpret_stmts m body
     else if n = node then seq (set_found True) (interpret_stmts m body)
     else skip_to_all m node body))"
| "skip_to m node (WhileLoop n b body) =
     bind (expr_skip_to m node b) (\<lambda>v.
     bind (gets astNodeFound) (\<lambda>found.
     if found \<and> interpretedTruth v
     then seq (interpret_stmts m body) (interpret_stmt m (WhileLoop n b body))
     else if n = node then seq (set_found True) (interpret_stmt m (WhileLoop n b body))
     else seq (skip_to_all m node body)
            (if_found (interpret_stmt m (WhileLoop n b body)) (return ()))))"
| "skip_to m node (ClassDecl n name superName ivs Ds) = return ()"
| "skip_to_all m node [] = return ()"
| "skip_to_all m node (s # ss) =
     bind (gets isReturning) (\<lambda>r.
     if r then return ()
     else seq (if_found (interpret_stmt m s) (skip_to m node s)) (skip_to_all m node ss))"

text \<open>
  \<open>resumeInInterpreter\<close>: the root of the search is the function whose generated code has been
  left.
\<close>

definition resumeInInterpreter :: "machine \<Rightarrow> node \<Rightarrow> obj run" where
  "resumeInInterpreter m node =
     bind (gets cur_jit_function) (\<lambda>d.
     bind (the_decl m d) (\<lambda>root.
     bind (decl_skip_to m node root) (\<lambda>_.
     seq (set_returning False)
     (seq (set_found False)
     (gets (\<lambda>c. object (retVal c)))))))"

text \<open>
  The flag is reset only when the resumed run is over.  A compiled function that is called from that run
  and leaves in its turn finds it set: its body is run again from the first statement on.
\<close>

lemma nested_resume_restarts:
  assumes "astNodeFound c" and "\<not> isReturning c"
  shows "skip_to_all m n (s # ss) c = seq (interpret_stmt m s) (skip_to_all m n ss) c"
  using assms by (simp add: if_found_def sem_simps)

section \<open>Searching where the node is not\<close>

text \<open>The nodes that a search compares with the one it looks for.  It skips the arguments of calls.\<close>

primrec visited_expr :: "expr \<Rightarrow> node set"
  and visited_init :: "expr option \<Rightarrow> node set"
  and visited_decl :: "cdecl \<Rightarrow> node set"
  and visited :: "stmt \<Rightarrow> node set"
  and visited_all :: "stmt list \<Rightarrow> node set"
where
  "visited_expr (Number n v) = {n}"
| "visited_expr (StringLiteral n st) = {n}"
| "visited_expr (BinOp n op l r) = insert n (visited_expr l \<union> visited_expr r)"
| "visited_expr (VarRef n x) = {n}"
| "visited_expr (Call n callee m args) = insert n (visited_expr callee)"
| "visited_expr (ClosureExpr D) = visited_decl D"
| "visited_expr (NewExpr n c) = {n}"
| "visited_init None = {}"
| "visited_init (Some e) = visited_expr e"
| "visited_decl (ClosureDecl n nm ps body) = visited_all body"
| "visited (ExprStmt e) = visited_expr e"
| "visited (Assignment n x e) = insert n (visited_expr e)"
| "visited (Decl n x init) = insert n (visited_init init)"
| "visited (Return n e) = insert n (visited_expr e)"
| "visited (IfStatement n b body) = insert n (visited_expr b \<union> visited_all body)"
| "visited (WhileLoop n b body) = insert n (visited_expr b \<union> visited_all body)"
| "visited (ClassDecl n nm sn ivs Ds) = {}"
| "visited_all [] = {}"
| "visited_all (s # ss) = visited s \<union> visited_all ss"

text \<open>
  A search may evaluate leaves: it can allocate, print a diagnostic for an undefined variable and
  enter a class name into the class table.  It changes nothing else.
\<close>

definition quiet :: "ctx \<Rightarrow> ctx \<Rightarrow> bool" where
  "quiet c c' \<longleftrightarrow> (\<exists>M out ct. c' = c\<lparr>mem := M, console := out, classTable := ct\<rparr>)"

interpretation quietly: effect quiet
proof unfold_locales
  show "quiet c c" for c
    unfolding quiet_def by (intro exI [of _ "mem c"] exI [of _ "console c"] exI [of _ "classTable c"]) simp
  show "quiet c e" if "quiet c d" and "quiet d e" for c d e
    using that unfolding quiet_def by (elim exE) (simp, blast)
qed

lemma quiet_fields:
  assumes "quiet c c'"
  shows "astNodeFound c' = astNodeFound c" and "isReturning c' = isReturning c"
    and "symbols c' = symbols c" and "retVal c' = retVal c" and "cache c' = cache c"
    and "cur_jit_function c' = cur_jit_function c"
  using assms by (auto simp: quiet_def)

lemma quiet_updates [simp]:
  "quiet c (c\<lparr>mem := M\<rparr>)" "quiet c (c\<lparr>console := out\<rparr>)" "quiet c (c\<lparr>classTable := ct\<rparr>)"
proof -
  have "quiet c (c\<lparr>mem := M, console := console c, classTable := classTable c\<rparr>)"
    unfolding quiet_def by blast
  then show "quiet c (c\<lparr>mem := M\<rparr>)" by simp
  have "quiet c (c\<lparr>mem := mem c, console := out, classTable := classTable c\<rparr>)"
    unfolding quiet_def by blast
  then show "quiet c (c\<lparr>console := out\<rparr>)" by simp
  have "quiet c (c\<lparr>mem := mem c, console := console c, classTable := ct\<rparr>)"
    unfolding quiet_def by blast
  then show "quiet c (c\<lparr>classTable := ct\<rparr>)" by simp
qed

lemma quiet_alloc: "within quiet (alloc E b)"
  by (auto simp: within_def sem_simps split: option.splits)

lemma quiet_leaves:
  "within quiet (eval_string E st)" "within quiet (eval_var x)" "within quiet (eval_new E k)"
proof -
  show "within quiet (eval_string E st)"
    unfolding eval_string_def new_string_def by (intro quietly.within_intros quiet_alloc)
  have "within quiet (emit ev)" for ev
    by (auto simp: within_def sem_simps)
  moreover have "within quiet (load p)" for p
    by (auto simp: within_def load_eq quietly.refl)
  ultimately show "within quiet (eval_var x)"
    unfolding eval_var_def lookupSymbol_def by (intro quietly.within_intros)
  have "within quiet (class_at a)" for a
    by (auto simp: within_def sem_simps quietly.refl split: option.splits)
  moreover have "within quiet (lookupClass nm)" for nm
    by (auto simp: within_def lookupClass_def Let_def split: option.splits)
  ultimately show "within quiet (eval_new E k)"
    unfolding eval_new_def newObject_def by (intro quietly.within_intros quiet_alloc)
qed

text \<open>Functions that are quiet as long as the node has not been found.\<close>

definition quiet_search :: "'a run \<Rightarrow> bool" where
  "quiet_search m \<longleftrightarrow> (\<forall>c a c'. \<not> astNodeFound c \<and> m c = Inr (a, c') \<longrightarrow> quiet c c')"

lemma quiet_search_within: "within quiet m \<Longrightarrow> quiet_search m"
  by (auto simp: quiet_search_def within_def)

lemma quiet_search_leaf: "quiet_search (return a)" "quiet_search (gets f)"
  by (auto simp: quiet_search_def sem_simps quietly.refl)

lemma quiet_search_bind:
  "quiet_search m \<Longrightarrow> (\<And>a. quiet_search (f a)) \<Longrightarrow> quiet_search (bind m f)"
  unfolding quiet_search_def
proof (intro allI impI, elim conjE)
  fix c b c'
  assume m: "\<forall>c a c'. \<not> astNodeFound c \<and> m c = Inr (a, c') \<longrightarrow> quiet c c'"
    and f: "\<And>a. \<forall>c b c'. \<not> astNodeFound c \<and> f a c = Inr (b, c') \<longrightarrow> quiet c c'"
    and c: "\<not> astNodeFound c" and run: "bind m f c = Inr (b, c')"
  from run obtain a d where d: "m c = Inr (a, d)" "f a d = Inr (b, c')" by (rule bind_InrE)
  have "quiet c d" using m c d(1) by blast
  moreover have "quiet d c'" using f [of a] c d(2) quiet_fields(1) [OF \<open>quiet c d\<close>] by blast
  ultimately show "quiet c c'" by (rule quietly.trans)
qed

lemma quiet_search_seq: "quiet_search m \<Longrightarrow> quiet_search k \<Longrightarrow> quiet_search (seq m k)"
  by (simp add: seq_def quiet_search_bind)

lemma quiet_search_if_found: "quiet_search k \<Longrightarrow> quiet_search (if_found m k)"
  by (auto simp: quiet_search_def if_found_def sem_simps)

lemma quiet_search_gets_found:
  "quiet_search (f False) \<Longrightarrow> quiet_search (bind (gets astNodeFound) f)"
  by (auto simp: quiet_search_def sem_simps)

lemma quiet_search_if: "(b \<Longrightarrow> quiet_search m) \<Longrightarrow> (\<not> b \<Longrightarrow> quiet_search k) \<Longrightarrow>
    quiet_search (if b then m else k)"
  by simp

lemmas quiet_search_intros = quiet_search_leaf quiet_search_bind quiet_search_seq
  quiet_search_if_found quiet_search_if quiet_leaves [THEN quiet_search_within]

lemma absent_search:
  "n \<notin> visited_expr e \<Longrightarrow> quiet_search (expr_skip_to m n e)"
  "n \<notin> visited_decl d \<Longrightarrow> quiet_search (decl_skip_to m n d)"
  "n \<notin> visited s \<Longrightarrow> quiet_search (skip_to m n s)"
  "(es :: expr list) = es"
  "n \<notin> visited_all ss \<Longrightarrow> quiet_search (skip_to_all m n ss)"
  "n \<notin> visited_init i \<Longrightarrow> quiet_search (init_skip_to m n i)"
proof (induction e and d and s and es and ss and i rule: syntax_induct)
  case (IfStatement k b body)
  then show ?case
    by (auto intro!: quiet_search_bind [OF _ quiet_search_gets_found])
next
  case (WhileLoop k b body)
  then show ?case
    by (auto intro!: quiet_search_bind [OF _ quiet_search_gets_found] quiet_search_seq
        quiet_search_if_found quiet_search_leaf)
qed (auto simp: leaf_skip_def evaluation_simps intro!: quiet_search_intros split: option.split)

section \<open>Where a function can be resumed\<close>

text \<open>
  The search resumes a call whose callee is a variable or a new object, and everything that has
  such a call as its callee or left operand, innermost first.
\<close>

fun leaf_callee :: "expr \<Rightarrow> bool" where
  "leaf_callee (VarRef n x) = True"
| "leaf_callee (NewExpr n c) = True"
| "leaf_callee _ = False"

primrec resumable_expr :: "node \<Rightarrow> expr \<Rightarrow> bool" where
  "resumable_expr n (Number k v) = False"
| "resumable_expr n (StringLiteral k st) = False"
| "resumable_expr n (BinOp k op l r) = resumable_expr n l"
| "resumable_expr n (VarRef k x) = False"
| "resumable_expr n (Call k callee meth args) =
     (resumable_expr n callee \<or> k = n \<and> leaf_callee callee \<and> expr_node callee \<noteq> n)"
| "resumable_expr n (ClosureExpr D) = False"
| "resumable_expr n (NewExpr k c) = False"

primrec spine :: "expr \<Rightarrow> node list" where
  "spine (Number k v) = [k]"
| "spine (StringLiteral k st) = [k]"
| "spine (BinOp k op l r) = k # spine l"
| "spine (VarRef k x) = [k]"
| "spine (Call k callee meth args) = k # spine callee"
| "spine (ClosureExpr D) = [decl_node D]"
| "spine (NewExpr k c) = [k]"

text \<open>
  A statement can be resumed at \<open>n\<close> if an expression of it can, in the body of any number of
  conditionals and loops; \<open>resume_spine\<close> lists the nodes whose evaluation is then repeated.
\<close>

primrec resumable :: "node \<Rightarrow> stmt \<Rightarrow> bool"
  and resumable_all :: "node \<Rightarrow> stmt list \<Rightarrow> bool"
where
  "resumable n (ExprStmt e) = resumable_expr n e"
| "resumable n (Assignment k x e) = (k \<noteq> n \<and> resumable_expr n e)"
| "resumable n (Decl k x init) = (k \<noteq> n \<and> (case init of None \<Rightarrow> False | Some e \<Rightarrow> resumable_expr n e))"
| "resumable n (Return k e) = resumable_expr n e"
| "resumable n (IfStatement k b body) = (k \<noteq> n \<and> n \<notin> visited_expr b \<and> resumable_all n body)"
| "resumable n (WhileLoop k b body) = (k \<noteq> n \<and> n \<notin> visited_expr b \<and> resumable_all n body)"
| "resumable n (ClassDecl k nm sn ivs Ds) = False"
| "resumable_all n [] = False"
| "resumable_all n (s # ss) = (if n \<in> visited s then resumable n s else resumable_all n ss)"

primrec resume_spine :: "node \<Rightarrow> stmt \<Rightarrow> node list"
  and resume_spine_all :: "node \<Rightarrow> stmt list \<Rightarrow> node list"
where
  "resume_spine n (ExprStmt e) = spine e"
| "resume_spine n (Assignment k x e) = spine e"
| "resume_spine n (Decl k x init) = (case init of None \<Rightarrow> [] | Some e \<Rightarrow> spine e)"
| "resume_spine n (Return k e) = spine e"
| "resume_spine n (IfStatement k b body) = resume_spine_all n body"
| "resume_spine n (WhileLoop k b body) = resume_spine_all n body"
| "resume_spine n (ClassDecl k nm sn ivs Ds) = []"
| "resume_spine_all n [] = []"
| "resume_spine_all n (s # ss) = (if n \<in> visited s then resume_spine n s else resume_spine_all n ss)"

text \<open>
  The program that is left to run from \<open>n\<close> on: the statement that contains \<open>n\<close>, what follows it in
  its block, and what follows the conditionals and loops around it, each loop first once more
  from its start.
\<close>

primrec residual :: "node \<Rightarrow> stmt \<Rightarrow> stmt list"
  and residual_all :: "node \<Rightarrow> stmt list \<Rightarrow> stmt list"
where
  "residual n (ExprStmt e) = [ExprStmt e]"
| "residual n (Assignment k x e) = [Assignment k x e]"
| "residual n (Decl k x init) = [Decl k x init]"
| "residual n (Return k e) = [Return k e]"
| "residual n (IfStatement k b body) = residual_all n body"
| "residual n (WhileLoop k b body) = residual_all n body @ [WhileLoop k b body]"
| "residual n (ClassDecl k nm sn ivs Ds) = []"
| "residual_all n [] = []"
| "residual_all n (s # ss) = (if n \<in> visited s then residual n s @ tl (s # ss) else residual_all n ss)"

text \<open>The search on the way to \<open>n\<close>.\<close>

primrec search :: "machine \<Rightarrow> node \<Rightarrow> stmt \<Rightarrow> unit run"
  and search_all :: "machine \<Rightarrow> node \<Rightarrow> stmt list \<Rightarrow> unit run"
where
  "search m n (ExprStmt e) = return ()"
| "search m n (Assignment k x e) = return ()"
| "search m n (Decl k x init) = return ()"
| "search m n (Return k e) = return ()"
| "search m n (IfStatement k b body) = bind (expr_skip_to m n b) (\<lambda>_. search_all m n body)"
| "search m n (WhileLoop k b body) = bind (expr_skip_to m n b) (\<lambda>_. search_all m n body)"
| "search m n (ClassDecl k nm sn ivs Ds) = return ()"
| "search_all m n [] = return ()"
| "search_all m n (s # ss) =
     (if n \<in> visited s then search m n s else seq (skip_to m n s) (search_all m n ss))"

section \<open>Resuming\<close>

text \<open>The context a resumed evaluation starts in.\<close>

definition found :: "ctx \<Rightarrow> ctx" where
  "found c = c\<lparr>astNodeFound := True\<rparr>"

lemma found_fields [simp]:
  "astNodeFound (found c)" "isReturning (found c) = isReturning c" "cache (found c) = cache c"
  "symbols (found c) = symbols c"
  by (simp_all add: found_def)

lemma set_found_True: "set_found True c = Inr ((), found c)"
  by (simp add: found_def sem_simps)

lemma if_found_apply: "if_found m k c = (if astNodeFound c then m c else k c)"
  by (simp add: if_found_def sem_simps)

lemma resumable_not_constant: "resumable_expr n e \<Longrightarrow> \<not> isConstantExpression e"
  by (induction e) auto

lemma evaluate_uncached:
  assumes "object (cache c (expr_node e)) = 0" and "\<not> isConstantExpression e"
  shows "cached m e (evaluateExpr m e) c = evaluateExpr m e c"
  using assms by (simp add: cached_def sem_simps split: sum.split prod.split)

lemma evaluate_blind: "calls_blind m \<Longrightarrow> blind (cached m e (evaluateExpr m e))"
  by (intro cached_blind evaluation_is_blind)

lemma leaf_callee_search:
  assumes "leaf_callee e" and "expr_node e \<noteq> n"
  shows "expr_skip_to m n e c = evaluateExpr m e c"
  using assms by (cases e) (simp_all add: leaf_skip_def sem_simps)

lemma spine_head: "expr_node e \<in> set (spine e)"
  by (cases e) auto

text \<open>
  Searching an expression that can be resumed is evaluating it: the search evaluates the callee or
  the left operands on the way, and goes on as the evaluation does.
\<close>

lemma resume_expr:
  assumes "calls_blind m" and "resumable_expr n e" and "\<not> astNodeFound c"
    and "\<forall>k \<in> set (spine e). object (cache c k) = 0"
  shows "expr_skip_to m n e c = cached m e (evaluateExpr m e) (found c)"
  using assms(2,4)
proof (induction e)
  case (BinOp k op l r)
  have here: "cached m (BinOp k op l r) (evaluateExpr m (BinOp k op l r)) (found c) =
      evaluateExpr m (BinOp k op l r) (found c)"
    using BinOp.prems resumable_not_constant [OF BinOp.prems(1)] by (intro evaluate_uncached) simp_all
  have IH: "expr_skip_to m n l c = cached m l (evaluateExpr m l) (found c)"
    using BinOp by simp
  show ?case
    using blind_keeps_flag [OF evaluate_blind [OF assms(1), of l], of "found c"]
    unfolding here by (simp add: evaluation_simps evaluate_def IH sem_simps if_found_apply split: sum.split)
next
  case (Call k callee meth args)
  have here: "cached m (Call k callee meth args) (evaluateExpr m (Call k callee meth args)) (found c) =
      evaluateExpr m (Call k callee meth args) (found c)"
    using Call.prems by (intro evaluate_uncached) simp_all
  show ?case
  proof (cases "resumable_expr n callee")
    case True
    have IH: "expr_skip_to m n callee c = cached m callee (evaluateExpr m callee) (found c)"
      using Call True by simp
    show ?thesis
      using blind_keeps_flag [OF evaluate_blind [OF assms(1), of callee], of "found c"]
      unfolding here by (simp add: evaluation_simps IH sem_simps if_found_apply split: sum.split)
  next
    case False
    then have k: "k = n" "leaf_callee callee" "expr_node callee \<noteq> n" using Call.prems(1) by auto
    have "\<not> isConstantExpression callee" using k(2) by (cases callee) auto
    then have "cached m callee (evaluateExpr m callee) (found c) = evaluateExpr m callee (found c)"
      using Call.prems(2) spine_head [of callee] by (intro evaluate_uncached) simp_all
    also have "\<dots> = with_found True (evaluateExpr m callee c)"
      unfolding found_def by (rule blindD [OF evaluation_is_blind(1) [OF assms(1)]])
    finally have callee: "cached m callee (evaluateExpr m callee) (found c) =
      with_found True (evaluateExpr m callee c)" .
    show ?thesis
      using blind_keeps_flag [OF evaluation_is_blind(1) [OF assms(1), of callee], of c] assms(3) k(1)
      unfolding here
      by (simp add: evaluation_simps callee leaf_callee_search [OF k(2,3)] sem_simps if_found_apply
          split: sum.split)
  qed
qed simp_all

text \<open>Once the node is found the search is ordinary interpretation.\<close>

lemma found_stays:
  assumes "calls_blind m" and "interpret_stmts m ss c = Inr (u, d)" and "astNodeFound c"
  shows "astNodeFound d"
  using blind_keeps_flag [OF evaluation_is_blind(5) [OF assms(1)] assms(2)] assms(3) by simp

lemma skip_after_found:
  assumes "calls_blind m" and "astNodeFound c"
  shows "skip_to_all m n ss c = interpret_stmts m ss c"
  using assms(2)
proof (induction ss arbitrary: c)
  case (Cons s ss)
  then show ?case
    using blind_keeps_flag [OF evaluation_is_blind(3) [OF assms(1), of s], of c]
    by (auto simp: evaluation_simps sem_simps if_found_apply split: sum.split)
qed (simp add: evaluation_simps)

lemma interpret_append:
  "interpret_stmts m (xs @ ys) c = seq (interpret_stmts m xs) (interpret_stmts m ys) c"
proof (induction xs arbitrary: c)
  case Nil
  then show ?case by (simp add: evaluation_simps)
next
  case (Cons x xs)
  show ?case
  proof (cases "isReturning c")
    case True
    then show ?thesis by (cases ys) (simp_all add: evaluation_simps sem_simps)
  next
    case False
    then show ?thesis by (simp add: evaluation_simps sem_simps Cons.IH split: sum.split)
  qed
qed

lemma loop_once_returned:
  assumes "0 < m_fuel m"
  shows "interpret_stmts m [WhileLoop k b body] c = interpret_stmt m (WhileLoop k b body) c"
  using assms by (cases "m_fuel m") (auto simp: evaluation_simps sem_simps split: sum.split)

text \<open>What the search does on the way, then the rest of the program.\<close>

definition then_found :: "machine \<Rightarrow> unit run \<Rightarrow> stmt list \<Rightarrow> unit run" where
  "then_found m walk ss = seq walk (seq (set_found True) (interpret_stmts m ss))"

lemma then_found_append:
  assumes "calls_blind m"
    and "\<And>d. astNodeFound d \<Longrightarrow> k d = interpret_stmts m ys d"
  shows "seq (then_found m walk xs) k c = then_found m walk (xs @ ys) c"
  using assms(2) found_stays [OF assms(1), of xs]
  by (auto simp: then_found_def sem_simps interpret_append split: sum.split)

lemma resume_stmts:
  assumes "calls_blind m" and "0 < m_fuel m"
  shows "(e :: expr) = e" and "(dc :: cdecl) = dc"
    and "\<And>c. resumable n s \<Longrightarrow> \<not> astNodeFound c \<Longrightarrow> \<not> isReturning c \<Longrightarrow>
      \<forall>k \<in> set (resume_spine n s). object (cache c k) = 0 \<Longrightarrow>
      skip_to m n s c = then_found m (search m n s) (residual n s) c"
    and "(es :: expr list) = es"
    and "\<And>c. resumable_all n ss \<Longrightarrow> \<not> astNodeFound c \<Longrightarrow> \<not> isReturning c \<Longrightarrow>
      \<forall>k \<in> set (resume_spine_all n ss). object (cache c k) = 0 \<Longrightarrow>
      skip_to_all m n ss c = then_found m (search_all m n ss) (residual_all n ss) c"
    and "(i :: expr option) = i"
proof (induction e and dc and s and es and ss and i rule: syntax_induct)
  case (ExprStmt e)
  then show ?case
    by (simp add: then_found_def resume_expr [OF assms(1)] evaluation_simps sem_simps found_def
        split: sum.split)
next
  case (Assignment k x e)
  then show ?case
    using blind_keeps_flag [OF evaluate_blind [OF assms(1), of e], of "found c"]
    by (simp add: then_found_def resume_expr [OF assms(1)] evaluation_simps sem_simps found_def
        if_found_apply split: sum.split)
next
  case (Decl k x init)
  then show ?case
    using blind_keeps_flag [OF evaluate_blind [OF assms(1), of "the init"], of "found c"]
    by (cases init)
      (simp_all add: then_found_def resume_expr [OF assms(1)] evaluation_simps sem_simps found_def
        if_found_apply split: sum.split)
next
  case (Return k e)
  then show ?case
    using blind_keeps_flag [OF evaluate_blind [OF assms(1), of e], of "found c"]
    by (simp add: then_found_def resume_expr [OF assms(1)] evaluation_simps sem_simps found_def
        if_found_apply split: sum.split)
next
  case (IfStatement k b body)
  show ?case
  proof (cases "expr_skip_to m n b c")
    case (Inr r)
    then obtain v d where d: "expr_skip_to m n b c = Inr (v, d)" by (cases r) auto
    then have q: "quiet c d"
      using absent_search(1) [of n b m] IfStatement.prems by (auto simp: quiet_search_def)
    have "skip_to_all m n body d = then_found m (search_all m n body) (residual_all n body) d"
      using IfStatement quiet_fields [OF q] by auto
    then show ?thesis
      using IfStatement.prems d quiet_fields(1) [OF q]
      by (simp add: then_found_def sem_simps split: sum.split)
  qed (simp add: then_found_def sem_simps)
next
  case (WhileLoop k b body)
  show ?case
  proof (cases "expr_skip_to m n b c")
    case (Inr r)
    then obtain v d where d: "expr_skip_to m n b c = Inr (v, d)" by (cases r) auto
    then have q: "quiet c d"
      using absent_search(1) [of n b m] WhileLoop.prems by (auto simp: quiet_search_def)
    have "skip_to_all m n body d = then_found m (search_all m n body) (residual_all n body) d"
      using WhileLoop quiet_fields [OF q] by auto
    moreover have "seq (then_found m (search_all m n body) (residual_all n body))
        (if_found (interpret_stmt m (WhileLoop k b body)) (return ())) d =
      then_found m (search_all m n body) (residual_all n body @ [WhileLoop k b body]) d"
      by (rule then_found_append [OF assms(1)]) (simp add: if_found_apply loop_once_returned [OF assms(2)])
    ultimately show ?thesis
      using WhileLoop.prems d quiet_fields(1) [OF q]
      by (simp add: then_found_def sem_simps split: sum.split)
  qed (simp add: then_found_def sem_simps)
next
  case (more_stmts s ss)
  show ?case
  proof (cases "n \<in> visited s")
    case True
    have "skip_to m n s c = then_found m (search m n s) (residual n s) c"
      using more_stmts True by simp
    moreover have "seq (then_found m (search m n s) (residual n s)) (skip_to_all m n ss) c =
        then_found m (search m n s) (residual n s @ ss) c"
      by (rule then_found_append [OF assms(1)]) (rule skip_after_found [OF assms(1)])
    ultimately show ?thesis
      using more_stmts.prems True by (simp add: sem_simps if_found_apply)
  next
    case False
    show ?thesis
    proof (cases "skip_to m n s c")
      case (Inr r)
      then obtain u d where d: "skip_to m n s c = Inr (u, d)" by (cases r) auto
      then have q: "quiet c d"
        using absent_search(3) [OF False, of m] more_stmts.prems by (auto simp: quiet_search_def)
      have "skip_to_all m n ss d = then_found m (search_all m n ss) (residual_all n ss) d"
        using more_stmts False quiet_fields [OF q] by auto
      then show ?thesis
        using more_stmts.prems False d by (simp add: then_found_def sem_simps if_found_apply)
    qed (use more_stmts.prems False in \<open>simp add: then_found_def sem_simps if_found_apply\<close>)
  qed
qed simp_all

section \<open>The run that is resumed\<close>

text \<open>
  \<open>reach m n ss c d\<close>: the execution of \<open>ss\<close> from \<open>c\<close> arrives, in context \<open>d\<close>, at the statement that
  contains \<open>n\<close>.
\<close>

fun is_block :: "stmt \<Rightarrow> bool" where
  "is_block (IfStatement n b body) = True"
| "is_block (WhileLoop n b body) = True"
| "is_block _ = False"

inductive reach :: "machine \<Rightarrow> node \<Rightarrow> stmt list \<Rightarrow> ctx \<Rightarrow> ctx \<Rightarrow> bool" for m n where
  here: "n \<in> visited s \<Longrightarrow> \<not> is_block s \<Longrightarrow> \<not> isReturning c \<Longrightarrow> reach m n (s # ss) c c"
| past: "n \<notin> visited s \<Longrightarrow> \<not> isReturning c \<Longrightarrow> interpret_stmt m s c = Inr ((), c1) \<Longrightarrow>
    reach m n ss c1 d \<Longrightarrow> reach m n (s # ss) c d"
| if_body: "n \<in> visited_all body \<Longrightarrow> \<not> isReturning c \<Longrightarrow> evaluate m b c = Inr (v, c1) \<Longrightarrow>
    interpretedTruth v \<Longrightarrow> reach m n body c1 d \<Longrightarrow> reach m n (IfStatement k b body # ss) c d"
| while_body: "n \<in> visited_all body \<Longrightarrow> \<not> isReturning c \<Longrightarrow> evaluate m b c = Inr (v, c1) \<Longrightarrow>
    interpretedTruth v \<Longrightarrow> reach m n body c1 d \<Longrightarrow> reach m n (WhileLoop k b body # ss) c d"
| while_again: "\<not> isReturning c \<Longrightarrow> evaluate m b c = Inr (v, c1) \<Longrightarrow> interpretedTruth v \<Longrightarrow>
    interpret_stmts m body c1 = Inr ((), c2) \<Longrightarrow> reach m n (WhileLoop k b body # ss) c2 d \<Longrightarrow>
    reach m n (WhileLoop k b body # ss) c d"

text \<open>One iteration of a loop, seen from its end.\<close>

lemma loop_iteration:
  assumes "interpret_stmt m (WhileLoop k b body) c = Inr ((), e)" and "\<not> isReturning c"
    and "evaluate m b c = Inr (v, c1)" and "interpretedTruth v"
  obtains c2 where "interpret_stmts m body c1 = Inr ((), c2)"
    and "interpret_stmt m (WhileLoop k b body) c2 = Inr ((), e)"
proof -
  let ?b = "bind (gets isReturning) (\<lambda>r. if r then return False
        else bind (cached m b (evaluateExpr m b)) (\<lambda>v. return (interpretedTruth v)))"
  obtain F where F: "m_fuel m = Suc F"
    using assms(1) by (cases "m_fuel m") (auto simp: evaluation_simps sem_simps)
  obtain c2 where c2: "interpret_stmts m body c1 = Inr ((), c2)"
    and rest: "while_sem F ?b (interpret_stmts m body) c2 = Inr ((), e)"
    using assms F by (auto simp: evaluation_simps evaluate_def sem_simps split: sum.splits)
  have "while_sem (Suc F) ?b (interpret_stmts m body) c2 = Inr ((), e)"
    by (rule while_more_fuel [OF rest]) simp
  then show thesis using that c2 F by (simp add: evaluation_simps)
qed

lemma loop_needs_fuel:
  "interpret_stmt m (WhileLoop k b body) c = Inr r \<Longrightarrow> 0 < m_fuel m"
  by (cases "m_fuel m") (auto simp: evaluation_simps sem_simps)

lemma residual_completes:
  assumes "reach m n ss c d" and "interpret_stmts m ss c = Inr r"
  shows "interpret_stmts m (residual_all n ss) d = Inr r"
  using assms
proof (induction arbitrary: r)
  case (here s c ss)
  then show ?case by (cases s) simp_all
next
  case (past s c c1 ss d)
  then show ?case by (simp add: evaluation_simps sem_simps)
next
  case (if_body body c b v c1 d k ss)
  then obtain e where e: "interpret_stmts m body c1 = Inr ((), e)" "interpret_stmts m ss e = Inr r"
    by (auto simp: evaluation_simps evaluate_def sem_simps split: sum.splits)
  then show ?case using if_body by (simp add: interpret_append sem_simps)
next
  case (while_body body c b v c1 d k ss)
  from while_body.prems while_body.hyps obtain e
    where e: "interpret_stmt m (WhileLoop k b body) c = Inr ((), e)" "interpret_stmts m ss e = Inr r"
    by (auto simp: interpret_stmts.simps sem_simps split: sum.splits)
  obtain c2 where c2: "interpret_stmts m body c1 = Inr ((), c2)"
    "interpret_stmt m (WhileLoop k b body) c2 = Inr ((), e)"
    using loop_iteration [OF e(1) while_body.hyps(2-4)] .
  have "interpret_stmts m (residual_all n body @ [WhileLoop k b body]) d = Inr ((), e)"
    using while_body.IH [OF c2(1)] c2(2) loop_once_returned [OF loop_needs_fuel [OF e(1)]]
    by (simp add: interpret_append sem_simps)
  then have "interpret_stmts m ((residual_all n body @ [WhileLoop k b body]) @ ss) d = Inr r"
    using e(2) unfolding interpret_append [of m _ ss] by (simp add: sem_simps)
  then show ?case using while_body.hyps(1) by simp
next
  case (while_again c b v c1 body c2 k ss d)
  from while_again.prems while_again.hyps obtain e
    where e: "interpret_stmt m (WhileLoop k b body) c = Inr ((), e)" "interpret_stmts m ss e = Inr r"
    by (auto simp: interpret_stmts.simps sem_simps split: sum.splits)
  have "interpret_stmt m (WhileLoop k b body) c2 = Inr ((), e)"
    using loop_iteration [OF e(1) while_again.hyps(1-3)] while_again.hyps(4)
    by (metis Inr_inject prod.inject)
  then have "interpret_stmts m (WhileLoop k b body # ss) c2 = Inr r"
    using e(2) loop_once_returned [OF loop_needs_fuel [OF e(1)], of k b body c2]
      interpret_append [of m "[WhileLoop k b body]" ss c2]
    by (simp add: sem_simps)
  then show ?case by (rule while_again.IH)
qed

end
