(* ===== verification/Resume.thy ===== *)
theory Resume
  imports Deopt
begin

text \<open>
  What resuming a compiled function in the interpreter does: it completes the run that the
  generated code had begun where the search of \<open>Deopt\<close> can resume it, and the runs it spoils where
  the search cannot.
\<close>

section \<open>The frame of \<open>resumeInInterpreter\<close>\<close>

text \<open>The body of the function whose generated code has been left.\<close>

definition resumes :: "program \<Rightarrow> ctx \<Rightarrow> stmt list \<Rightarrow> bool" where
  "resumes P c body \<longleftrightarrow>
     (\<exists>nm ps. p_decls P (cur_jit_function c) = Some (ClosureDecl (cur_jit_function c) nm ps body))"

lemma resume_body:
  assumes "resumes P c body"
  shows "resumeInInterpreter (machine_at P k) n c =
    (case skip_to_all (machine_at P k) n body c of
       Inl e \<Rightarrow> Inl e
     | Inr (u, d) \<Rightarrow> Inr (object (retVal d), d\<lparr>isReturning := False, astNodeFound := False\<rparr>))"
  using assms
  by (auto simp: resumes_def resumeInInterpreter_def the_decl_def sem_simps split: sum.split)

lemma walk_is_quiet:
  "(e :: expr) = e" "(D :: cdecl) = D"
  "resumable n s \<Longrightarrow> quiet_search (search m n s)"
  "(es :: expr list) = es"
  "resumable_all n ss \<Longrightarrow> quiet_search (search_all m n ss)"
  "(i :: expr option) = i"
proof (induction e and D and s and es and ss and i rule: syntax_induct)
qed (auto intro!: quiet_search_intros absent_search)

lemma blind_flags:
  assumes "calls_blind m" and "\<not> astNodeFound d"
  shows "(case interpret_stmts m ss (found d) of
       Inl e \<Rightarrow> Inl e
     | Inr (u, e) \<Rightarrow> Inr (object (retVal e), e\<lparr>isReturning := False, astNodeFound := False\<rparr>)) =
    (case interpret_stmts m ss d of
       Inl e \<Rightarrow> Inl e | Inr (u, e) \<Rightarrow> Inr (object (retVal e), e\<lparr>isReturning := False\<rparr>))"
proof (cases "interpret_stmts m ss d")
  case (Inr r)
  then obtain u e where e: "interpret_stmts m ss d = Inr (u, e)" by (cases r) auto
  have "\<not> astNodeFound e"
    using blind_keeps_flag [OF evaluation_is_blind(5) [OF assms(1)] e] assms(2) by simp
  then have "e\<lparr>isReturning := False, astNodeFound := False\<rparr> = e\<lparr>isReturning := False\<rparr>" by simp
  then show ?thesis
    using e blindD [OF evaluation_is_blind(5) [OF assms(1), of ss], of True d] by (simp add: found_def)
qed (use blindD [OF evaluation_is_blind(5) [OF assms(1), of ss], of True d] in \<open>simp add: found_def\<close>)

lemma reach_running: "reach m n ss c d \<Longrightarrow> \<not> isReturning d"
  by (induction rule: reach.induct) auto

section \<open>What can be resumed\<close>

text \<open>
  Resuming at a node that the search can resume at runs the program that is left, the residual
  program: once the nodes before it have been passed, which changes nothing but what their leaves
  allocate and print, \<open>resumeInInterpreter\<close> interprets the residual program and returns the value
  that it leaves.
\<close>

lemma resume_runs_residual:
  assumes "jit_blind P" and "resumes P c body" and "resumable_all n body" and "\<not> astNodeFound c"
    and "\<not> isReturning c" and "\<forall>k \<in> set (resume_spine_all n body). object (cache c k) = 0"
    and "search_all (machine_at P (Suc k)) n body c = Inr ((), d)"
  shows "quiet c d \<and> resumeInInterpreter (machine_at P (Suc k)) n c =
    (case interpret_stmts (machine_at P (Suc k)) (residual_all n body) d of
       Inl e \<Rightarrow> Inl e
     | Inr (u, e) \<Rightarrow> Inr (object (retVal e), e\<lparr>isReturning := False\<rparr>))"
proof -
  let ?m = "machine_at P (Suc k)"
  have q: "quiet c d" using walk_is_quiet(5) [OF assms(3)] assms(4,7) by (auto simp: quiet_search_def)
  have blind: "calls_blind ?m" by (rule machine_blind [OF assms(1)])
  have "skip_to_all ?m n body c = then_found ?m (search_all ?m n body) (residual_all n body) c"
    by (rule resume_stmts(5) [OF blind _ assms(3-6)]) simp
  also have "\<dots> = interpret_stmts ?m (residual_all n body) (found d)"
    by (simp add: then_found_def sem_simps assms(7) found_def)
  finally show ?thesis
    using blind_flags [OF blind, of d] quiet_fields(1) [OF q] assms(4) q resume_body [OF assms(2)]
    by simp
qed

text \<open>
  C16. Deoptimisation is transparent where the search can resume: if the interpretation of a function
  body from \<open>c0\<close> arrives at the statement with the node \<open>n\<close> in context \<open>c\<close> and goes on to end in
  \<open>e\<close>, then resuming at \<open>n\<close> in \<open>c\<close> ends in \<open>e\<close> as well, with the flag for a pending return reset, and
  returns the value that the body returned; the body may contain loops and conditionals around
  \<open>n\<close>.  Only leaves that the search passes must not allocate or print.
\<close>

theorem resume_completes_run:
  assumes "jit_blind P" and "resumes P c body" and "resumable_all n body" and "\<not> astNodeFound c"
    and "\<forall>k \<in> set (resume_spine_all n body). object (cache c k) = 0"
    and "search_all (machine_at P (Suc k)) n body c = Inr ((), c)"
    and "reach (machine_at P (Suc k)) n body c0 c"
    and "interpret_stmts (machine_at P (Suc k)) body c0 = Inr ((), e)"
  shows "resumeInInterpreter (machine_at P (Suc k)) n c =
    Inr (object (retVal e), e\<lparr>isReturning := False\<rparr>)"
proof -
  have "\<not> isReturning c" by (rule reach_running [OF assms(7)])
  from resume_runs_residual [OF assms(1-4) this assms(5,6)] residual_completes [OF assms(7,8)]
  show ?thesis by simp
qed

section \<open>What cannot be resumed\<close>

text \<open>
  A node that the search does not visit is never resumed, and nothing reports it: the
  assertion that was to catch this is true in any case.  The function ends without having run
  anything, and its result is what the last function before it left in the context.  The calls in
  the arguments of a call are such nodes.
\<close>

theorem unvisited_node_lost:
  assumes "resumes P c body" and "\<not> astNodeFound c" and "n \<notin> visited_all body"
    and "resumeInInterpreter (machine_at P k) n c = Inr (v, c')"
  shows "v = object (retVal c) \<and> quiet (c\<lparr>isReturning := False\<rparr>) c'"
proof -
  let ?m = "machine_at P k"
  obtain u d where d: "skip_to_all ?m n body c = Inr (u, d)"
    using assms(4) resume_body [OF assms(1)] by (auto split: sum.splits)
  have q: "quiet c d" using absent_search(5) [OF assms(3)] assms(2) d by (auto simp: quiet_search_def)
  have v: "v = object (retVal d)" "c' = d\<lparr>isReturning := False, astNodeFound := False\<rparr>"
    using assms(4) resume_body [OF assms(1)] d by auto
  from q obtain M out ct where "d = c\<lparr>mem := M, console := out, classTable := ct\<rparr>"
    by (auto simp: quiet_def)
  moreover have "c\<lparr>mem := M, console := out, classTable := ct, isReturning := False, astNodeFound := False\<rparr> =
      c\<lparr>isReturning := False, mem := M, console := out, classTable := ct\<rparr>"
    using assms(2) by (cases c) simp
  ultimately have "v = object (retVal c)"
    and "c' = c\<lparr>isReturning := False, mem := M, console := out, classTable := ct\<rparr>"
    using v by simp_all
  then show ?thesis by (simp add: quiet_def) blast
qed

text \<open>
  The value of a resumed condition is ignored: when the node is in the condition of a
  conditional or of a loop, the body is executed whatever the condition evaluates to.
\<close>

theorem resumed_condition_ignored:
  assumes "calls_blind m" and "resumable_expr n b" and "\<not> astNodeFound c" and "k \<noteq> n"
    and "\<forall>j \<in> set (spine b). object (cache c j) = 0" and "evaluate m b (found c) = Inr (v, d)"
  shows "skip_to m n (IfStatement k b body) c = interpret_stmts m body d \<and>
    skip_to m n (WhileLoop k b body) c =
      seq (interpret_stmts m body) (interpret_stmt m (WhileLoop k b body)) d"
proof -
  have b: "expr_skip_to m n b c = Inr (v, d)"
    using resume_expr [OF assms(1-3,5)] assms(6) by (simp add: evaluate_def)
  have d: "astNodeFound d"
    using blind_keeps_flag [OF evaluate_blind [OF assms(1)], of b "found c"] assms(6)
    by (simp add: evaluate_def)
  show ?thesis
    using skip_after_found [OF assms(1) d, of n body] assms(4) d found_stays [OF assms(1) _ d, of body]
    by (auto simp: b sem_simps if_found_apply split: sum.split)
qed

text \<open>
  The left operand is lost when the node is in the right operand of a binary operator: the
  search continues with a null pointer in its place, and an arithmetic operator then calls the
  bytes of \<open>invalidMethod\<close>.
\<close>

theorem resumed_right_operand_faults:
  assumes "calls_blind m" and "n \<notin> visited_expr l" and "resumable_expr n r" and "\<not> astNodeFound c"
    and "\<forall>j \<in> set (spine r). object (cache c j) = 0"
    and "expr_skip_to m n l c = Inr (x, c1)" and "evaluate m r (found c1) = Inr (v, d)"
    and "methodName op \<noteq> None" and "\<not> isComparison op"
  shows "expr_skip_to m n (BinOp k op l r) c = Inl CodeBytesCalled"
proof -
  have q: "quiet c c1"
    using absent_search(1) [OF assms(2)] assms(4,6) by (auto simp: quiet_search_def)
  have r: "expr_skip_to m n r c1 = Inr (v, d)"
    using resume_expr [OF assms(1,3), of c1] assms(4,5,7) quiet_fields [OF q] by (simp add: evaluate_def)
  have d: "astNodeFound d"
    using blind_keeps_flag [OF evaluate_blind [OF assms(1)], of r "found c1"] assms(7)
    by (simp add: evaluate_def)
  have null: "\<not> isInteger 0" by (simp add: tag_eval)
  show ?thesis
    using assms(4,8,9) d quiet_fields(1) [OF q] null
    by (auto simp: assms(6) r sem_simps if_found_apply performOp_def Runtime.lookupSelector_def
        compiledMethodForSelector_def ptrToCompiledMethodForSelector_def getClassFor_def
        load_method_ptr_def split: prod.split)
qed

fun computed :: "expr \<Rightarrow> bool" where
  "computed (BinOp k op l r) = True"
| "computed (Call k callee meth args) = True"
| "computed (ClosureExpr D) = True"
| "computed _ = False"

lemma absent_flag:
  assumes "n \<notin> visited_expr e" and "\<not> astNodeFound c" and "expr_skip_to m n e c = Inr (v, d)"
  shows "\<not> astNodeFound d"
proof -
  have "quiet c d"
    using absent_search(1) [OF assms(1), of m] assms(2,3) unfolding quiet_search_def by blast
  then show ?thesis using assms(2) by (simp add: quiet_fields(1))
qed

lemma absent_value:
  assumes "n \<notin> visited_expr e" and "\<not> astNodeFound c" and "expr_skip_to m n e c = Inr (v, d)"
    and "computed e"
  shows "v = 0 \<and> \<not> astNodeFound d"
proof -
  have "\<not> astNodeFound d" by (rule absent_flag [OF assms(1-3)])
  moreover have "v = 0"
  proof (cases e)
    case (BinOp k op l r)
    then obtain x c1 where l: "expr_skip_to m n l c = Inr (x, c1)"
      using assms(3) by (auto simp: sem_simps split: sum.splits)
    have c1: "\<not> astNodeFound c1"
      using absent_flag [OF _ assms(2) l] assms(1) BinOp by simp
    then obtain y c2 where r: "expr_skip_to m n r c1 = Inr (y, c2)"
      using assms(3) BinOp l by (auto simp: sem_simps if_found_apply split: sum.splits)
    have "\<not> astNodeFound c2"
      using absent_flag [OF _ c1 r] assms(1) BinOp by simp
    then show ?thesis
      using assms(1,3) BinOp l r c1 by (auto simp: sem_simps if_found_apply)
  next
    case (Call k callee meth args)
    then obtain x c1 where l: "expr_skip_to m n callee c = Inr (x, c1)"
      using assms(3) by (auto simp: sem_simps split: sum.splits)
    have "\<not> astNodeFound c1"
      using absent_flag [OF _ assms(2) l] assms(1) Call by simp
    then show ?thesis using assms(1,3) Call l by (auto simp: sem_simps if_found_apply)
  next
    case (ClosureExpr D)
    then show ?thesis using assms(3) by (cases D) (auto simp: sem_simps split: sum.splits)
  qed (use assms(4) in auto)
  ultimately show ?thesis by simp
qed

text \<open>
  A call whose callee is itself a call, an operator or a closure cannot be resumed: the
  search does not evaluate the callee and asserts that the null pointer it has instead is not null.
\<close>

theorem chained_call_asserts:
  assumes "n \<notin> visited_expr callee" and "\<not> astNodeFound c" and "computed callee"
    and "expr_skip_to m n callee c = Inr (v, d)"
  shows "expr_skip_to m n (Call n callee meth args) c = Inl AssertFailed"
proof -
  have "v = 0 \<and> \<not> astNodeFound d"
    by (rule absent_value [OF assms(1,2,4,3)])
  then show ?thesis by (simp add: assms(4) sem_simps if_found_apply do_call_def)
qed

text \<open>
  The result of a resumed function stays in the context, where an interpreted function that
  ends without \<open>return\<close> takes it for its own: after a function has been resumed with result \<open>v\<close>,
  the next function with an empty body returns \<open>v\<close> instead of null.
\<close>

theorem resumed_result_leaks:
  assumes "resumeInInterpreter m n c = Inr (v, c')" and "allocator_ok (m_env m)"
    and "held (mem c') (retVal c')" and "symbols c' \<noteq> []"
  shows "\<exists>c''. run_body m [] c' = Inr (v, c'')"
proof -
  have "object (retVal c') = v"
    using assms(1) by (auto simp: resumeInInterpreter_def the_decl_def sem_simps split: option.splits sum.splits)
  then show ?thesis
    using assms(3,4) value_set_cases [OF assms(2,3), of 0]
    by (simp add: run_body_def evaluation_simps sem_simps set_retVal_def needsGC_def)
qed

section \<open>A function that prints its argument\<close>

text \<open>
  A compiled closure with a variable \<open>x\<close> that holds the number 5; it is left at the call of
  \<open>print\<close>, the node \<open>0x5020\<close>.
\<close>

definition call_print :: expr where
  "call_print = Call 0x5020 (VarRef 0x5028 ''x'') (Some ''print'') []"

definition printing_body :: "stmt list" where
  "printing_body = [IfStatement 0x5010 (VarRef 0x5018 ''x'') [ExprStmt call_print],
     Return 0x5030 (VarRef 0x5038 ''x'')]"

definition resumed_program :: "stmt list \<Rightarrow> program" where
  "resumed_program body = interpreted_program\<lparr>p_decls := [0x5000 \<mapsto> ClosureDecl 0x5000 ''f'' [''x''] body], p_records := [0x5000 \<mapsto> 1]\<rparr>"

definition resumed_context :: ctx where
  "resumed_context = initial_context
     \<lparr>mem := [0x1000 \<mapsto> CellBlock [literalObject 5]], symbols := [[''self'' \<mapsto> null_loc, ''cmd'' \<mapsto> null_loc, ''x'' \<mapsto> (0x1000, 0)]],
      selectors := fst (register_static ([], [])), selNames := snd (register_static ([], [])),
      cur_jit_function := 0x5000\<rparr>"

lemma resumed_setting:
  "jit_blind (resumed_program body)" "resumes (resumed_program body) resumed_context body"
  "p_env (resumed_program body) = sample_env"
  "\<not> astNodeFound resumed_context" "\<not> isReturning resumed_context"
  "cache resumed_context = (\<lambda>_. no_value)"
  by (simp_all add: jit_blind_to_def resumed_program_def interpreted_program_def blind_leaf resumes_def
      resumed_context_def initial_context_def)

lemma print_is_known:
  assumes "selectors c = fst (register_static ([], []))" and "selNames c = snd (register_static ([], []))"
  shows "Runtime.lookupSelector ''print'' c = Inr (sel_print, c)"
proof -
  have "intern_selector ''print'' (register_static ([], [])) = (sel_print, register_static ([], []))"
    by code_simp
  moreover have "c\<lparr>selectors := selectors c, selNames := selNames c\<rparr> = c" by simp
  ultimately show ?thesis
    using assms by (cases "register_static ([], [])") (simp add: Runtime.lookupSelector_def)
qed

lemma print_runs:
  assumes "c = resumed_context \<or> c = found resumed_context"
  shows "evaluate (machine_at (resumed_program body) (Suc k)) call_print c =
    Inr (0, c\<lparr>console := [PrintInt Stdout 5],
      call_sites := (call_sites c)(0x5020 := \<lparr>type_assumption = SmallIntClass, alternative_type = 0,
        alternative_type_count = 0, cachedMethod = Some (MethodSlot (SmallIntClass, 1))\<rparr>)\<rparr>)"
  using assms
  by (auto simp: evaluate_def call_print_def resumed_context_def initial_context_def found_def
      print_is_known run_simps site_step_def note_class_def fresh_site_def
      ptrToCompiledMethodForSelector_def getClassFor_def methodForSelector_def walk_classes.simps
      load_method_ptr_def method_at_def static_classes_def static_SmallIntClass_def root_class_def
      NumberMethods_def native_method_def NumberPrint_def getInteger_def)

lemma variable_runs:
  assumes "c = resumed_context \<or> c = found resumed_context"
  shows "evaluateExpr m (VarRef k ''x'') c = Inr (literalObject 5, c)"
    and "evaluate m (VarRef k ''x'') c = Inr (literalObject 5, c)"
  using assms by (auto simp: evaluate_def resumed_context_def initial_context_def found_def run_simps)

lemma printing_search:
  "search_all m 0x5020 printing_body resumed_context = Inr ((), resumed_context)"
  by (simp add: printing_body_def call_print_def leaf_skip_def sem_simps variable_runs)

lemma five_is_true: "interpretedTruth (literalObject 5)"
  by (simp add: interpretedTruth_def literalObject_def)

lemma printing_reach: "reach m 0x5020 printing_body resumed_context resumed_context"
  unfolding printing_body_def
  by (rule reach.if_body [OF _ _ variable_runs(2) five_is_true reach.here])
    (simp_all add: call_print_def resumed_setting)

lemma printing_run:
  "\<exists>e. interpret_stmts (machine_at (resumed_program body) (Suc k)) printing_body resumed_context =
     Inr ((), e) \<and> console e = [PrintInt Stdout 5] \<and>
     retVal e = \<lparr>holder = 0, object = literalObject 5\<rparr> \<and> symbols e = symbols resumed_context \<and>
     \<not> recompile (closure_decls e (cur_jit_function e))"
  using five_is_true
  by (simp add: printing_body_def evaluation_apply sem_simps resumed_setting
      variable_runs [unfolded evaluate_def] print_runs [unfolded evaluate_def])
    (simp add: resumed_context_def initial_context_def fresh_decl_def run_simps)

lemma printing_residual:
  "residual_all 0x5020 printing_body = [ExprStmt call_print, Return 0x5030 (VarRef 0x5038 ''x'')]"
  by (simp add: printing_body_def call_print_def)

lemma printing_resumable: "resumable_all 0x5020 printing_body"
  by (simp add: printing_body_def call_print_def)

lemma printing_resumed:
  "\<exists>e. resumeInInterpreter (machine_at (resumed_program printing_body) (Suc 0)) 0x5020 resumed_context =
     Inr (literalObject 5, e) \<and> retVal e = \<lparr>holder = 0, object = literalObject 5\<rparr> \<and> symbols e \<noteq> []"
proof -
  let ?m = "machine_at (resumed_program printing_body) (Suc 0)"
  have "resumeInInterpreter ?m 0x5020 resumed_context =
    (case interpret_stmts ?m (residual_all 0x5020 printing_body) resumed_context of
       Inl e \<Rightarrow> Inl e
     | Inr (u, e) \<Rightarrow> Inr (object (retVal e), e\<lparr>isReturning := False\<rparr>))"
    using resume_runs_residual [OF resumed_setting(1,2) printing_resumable resumed_setting(4,5) _
        printing_search] by (simp add: resumed_setting(6) no_value_def)
  moreover obtain e where e: "interpret_stmts ?m printing_body resumed_context = Inr ((), e)"
    "retVal e = \<lparr>holder = 0, object = literalObject 5\<rparr>" "symbols e = symbols resumed_context"
    using printing_run [of printing_body 0] by (elim exE conjE)
  ultimately show ?thesis
    using residual_completes [OF printing_reach e(1)] e(2,3)
    by (intro exI [of _ "e\<lparr>isReturning := False\<rparr>"]) (simp add: resumed_context_def)
qed

lemma resume_completes_run_witness:
  "\<exists>e. interpret_stmts (machine_at (resumed_program printing_body) 1) printing_body resumed_context = Inr ((), e) \<and>
     resumeInInterpreter (machine_at (resumed_program printing_body) 1) 0x5020 resumed_context =
       Inr (literalObject 5, e\<lparr>isReturning := False\<rparr>)"
proof -
  obtain e where e: "interpret_stmts (machine_at (resumed_program printing_body) (Suc 0)) printing_body
      resumed_context = Inr ((), e)" "retVal e = \<lparr>holder = 0, object = literalObject 5\<rparr>"
    using printing_run [of printing_body 0] by (elim exE conjE)
  have "\<forall>k \<in> set (resume_spine_all 0x5020 printing_body). object (cache resumed_context k) = 0"
    by (simp add: resumed_setting(6) no_value_def)
  from resume_completes_run [OF resumed_setting(1,2) printing_resumable resumed_setting(4) this
      printing_search printing_reach e(1)] e
  show ?thesis by (intro exI [of _ e]) simp
qed

text \<open>The call of \<open>print\<close> as the argument of another call: it does not happen.\<close>

lemma unvisited_node_lost_witness:
  "\<exists>c'. resumeInInterpreter
       (machine_at (resumed_program [Return 0x5040 (Call 0x5048 (VarRef 0x5050 ''x'') None [call_print])]) 1)
       0x5020 resumed_context = Inr (0, c') \<and>
     quiet (resumed_context\<lparr>isReturning := False\<rparr>) c'"
proof -
  let ?body = "[Return 0x5040 (Call 0x5048 (VarRef 0x5050 ''x'') None [call_print])]"
  let ?m = "machine_at (resumed_program ?body) 1"
  have "\<exists>v c'. resumeInInterpreter ?m 0x5020 resumed_context = Inr (v, c')"
    by (simp add: resume_body [OF resumed_setting(2)] leaf_skip_def sem_simps variable_runs
        if_found_apply resumed_setting)
  then obtain v c' where r: "resumeInInterpreter ?m 0x5020 resumed_context = Inr (v, c')"
    by (elim exE)
  have "v = object (retVal resumed_context) \<and> quiet (resumed_context\<lparr>isReturning := False\<rparr>) c'"
    by (rule unvisited_node_lost [OF resumed_setting(2,4) _ r]) simp
  moreover have "object (retVal resumed_context) = 0"
    by (simp add: resumed_context_def initial_context_def no_value_def)
  ultimately show ?thesis using r by (intro exI [of _ c']) simp
qed

lemma call_print_resumable:
  "resumable_expr 0x5020 call_print" "\<forall>j \<in> set (spine call_print). object (cache resumed_context j) = 0"
  by (simp_all add: call_print_def resumed_setting(6) no_value_def)

text \<open>The result of \<open>print\<close> is null, which is false, and yet the body returns.\<close>

lemma resumed_condition_ignored_witness:
  "\<exists>d e. evaluate (machine_at (resumed_program []) 1) call_print resumed_context = Inr (0, d) \<and>
     skip_to (machine_at (resumed_program []) 1) 0x5020
       (IfStatement 0x5060 call_print [Return 0x5068 (Number 0x5070 7)]) resumed_context = Inr ((), e) \<and>
     isReturning e"
proof -
  let ?m = "machine_at (resumed_program []) (Suc 0)" and ?body = "[Return 0x5068 (Number 0x5070 7)]"
  obtain d where d: "evaluate ?m call_print (found resumed_context) = Inr (0, d)"
    "isReturning d = isReturning resumed_context" "cache d = cache resumed_context"
    "retVal d = retVal resumed_context"
    using print_runs [of "found resumed_context" "[]" 0] by (simp add: found_def)
  have "skip_to ?m 0x5020 (IfStatement 0x5060 call_print ?body) resumed_context = interpret_stmts ?m ?body d"
    using resumed_condition_ignored [OF machine_blind [OF resumed_setting(1)] call_print_resumable(1)
        resumed_setting(4) _ call_print_resumable(2) d(1)] by simp
  moreover have "\<exists>e. interpret_stmts ?m ?body d = Inr ((), e) \<and> isReturning e"
    using d resumed_setting(3) [of "[]"]
    by (simp add: run_simps resumed_setting(5,6)) (simp add: resumed_context_def initial_context_def run_simps)
  ultimately show ?thesis
    using print_runs [of resumed_context "[]" 0] by auto
qed

lemma resumed_right_operand_faults_witness:
  "expr_skip_to (machine_at (resumed_program []) 1) 0x5020
     (BinOp 0x5078 Add (VarRef 0x5080 ''x'') call_print) resumed_context = Inl CodeBytesCalled"
proof -
  let ?m = "machine_at (resumed_program []) (Suc 0)"
  have l: "expr_skip_to ?m 0x5020 (VarRef 0x5080 ''x'') resumed_context = Inr (literalObject 5, resumed_context)"
    by (simp add: leaf_skip_def sem_simps variable_runs)
  have "expr_skip_to ?m 0x5020 (BinOp 0x5078 Add (VarRef 0x5080 ''x'') call_print) resumed_context =
      Inl CodeBytesCalled"
    by (rule resumed_right_operand_faults [OF machine_blind [OF resumed_setting(1)] _
        call_print_resumable(1) resumed_setting(4) call_print_resumable(2) l
        print_runs [OF disjI2 [OF HOL.refl]]]) simp_all
  then show ?thesis by simp
qed

lemma chained_call_asserts_witness:
  "expr_skip_to (machine_at (resumed_program []) 1) 0x5088
     (Call 0x5088 call_print (Some ''print'') []) resumed_context = Inl AssertFailed"
proof -
  have "expr_skip_to (machine_at (resumed_program []) 1) 0x5088 call_print resumed_context =
      Inr (0, resumed_context)"
    by (simp add: call_print_def leaf_skip_def sem_simps variable_runs if_found_apply resumed_setting)
  from chained_call_asserts [OF _ resumed_setting(4) _ this] show ?thesis
    by (simp add: call_print_def)
qed

lemma resumed_result_leaks_witness:
  "\<exists>c' c''. resumeInInterpreter (machine_at (resumed_program printing_body) 1) 0x5020 resumed_context =
       Inr (literalObject 5, c') \<and>
     run_body (machine_at (resumed_program printing_body) 1) [] c' = Inr (literalObject 5, c'')"
proof -
  let ?m = "machine_at (resumed_program printing_body) (Suc 0)"
  obtain c' where c': "resumeInInterpreter ?m 0x5020 resumed_context = Inr (literalObject 5, c')"
    "retVal c' = \<lparr>holder = 0, object = literalObject 5\<rparr>" "symbols c' \<noteq> []"
    using printing_resumed by (elim exE conjE)
  have "\<exists>c''. run_body ?m [] c' = Inr (literalObject 5, c'')"
    by (rule resumed_result_leaks [OF c'(1)])
      (simp_all add: resumed_setting sample_allocator_ok c'(2,3) held_def)
  with c'(1) show ?thesis by auto
qed

end
