(* ===== verification/Stack_Map.thy ===== *)
theory Stack_Map
  imports Heap
begin

text \<open>
  Stack maps (\<open>StackMapParser.cpp\<close>, \<open>SMRecordParser.cpp\<close>): the tables in which the code generator
  records where the variables of a function are when its code gives up, read from the bytes of the
  section.  The state of the reading functions is the section; pointers are offsets into it.
\<close>

section \<open>Little-endian reads\<close>

type_synonym 'a reading = "('a, bytes) sem"

fun le_val :: "bytes \<Rightarrow> nat" where
  "le_val [] = 0"
| "le_val (b # bs) = unat b + 256 * le_val bs"

definition read_le :: "nat \<Rightarrow> nat \<Rightarrow> 'w :: len word reading" where
  "read_le k p = (\<lambda>sec. if p + k \<le> length sec
     then Inr (word_of_nat (le_val (take k (drop p sec))), sec) else Inl OutOfBounds)"

definition read8 :: "nat \<Rightarrow> 8 word reading" where "read8 p = read_le 1 p"
definition read16 :: "nat \<Rightarrow> 16 word reading" where "read16 p = read_le 2 p"
definition read32 :: "nat \<Rightarrow> 32 word reading" where "read32 p = read_le 4 p"
definition read64 :: "nat \<Rightarrow> 64 word reading" where "read64 p = read_le 8 p"

section \<open>\<open>StackMapParser\<close>\<close>

record StackMapParser =
  base :: nat
  records_base :: nat

definition getNumFunctions :: "nat \<Rightarrow> 32 word reading" where
  "getNumFunctions b = read32 (b + 4)"

definition getNumConstants :: "nat \<Rightarrow> 32 word reading" where
  "getNumConstants b = read32 (b + (4 + 4))"

definition getNumRecords :: "nat \<Rightarrow> 32 word reading" where
  "getNumRecords b = read32 (b + (4 + 4 + 4))"

definition newStackMapParser :: "nat \<Rightarrow> StackMapParser reading" where
  "newStackMapParser location =
     bind (read8 location) (\<lambda>version.
     seq (assert (version = 3))
     (bind (getNumFunctions location) (\<lambda>nf.
      bind (getNumConstants location) (\<lambda>nc.
      return \<lparr>base = location,
        records_base = location + (4 + 4 + 4 + 4) + unat (nf * 24) + unat (nc * 8)\<rparr>))))"

text \<open>
  The size of a record, as the code computes it: it takes the number of locations from the
  offset \<open>LOCS\<close>, where the first location begins, not from \<open>NUM_LOCS\<close>.
\<close>

definition getBytesInRecord :: "nat \<Rightarrow> 32 word reading" where
  "getBytesInRecord r =
     (let record_entry_header = 8 + 2 + 4 + 2 in
     bind (read16 (r + (8 + 2 + 4 + 2))) (\<lambda>num_locs.
     let b = record_entry_header + ucast num_locs * 12;
         b = (if num_locs mod 2 = 1 then b + 4 else b);
         b = b + 2 in
     bind (read16 (r + unat b)) (\<lambda>num_liveouts.
     let b = b + ucast num_liveouts * 4 in
     return (if num_liveouts mod 2 = 0 then b + 4 else b))))"

definition getIdOfRecord :: "nat \<Rightarrow> 64 word reading" where
  "getIdOfRecord r = read64 r"

primrec skip_records :: "nat \<Rightarrow> nat \<Rightarrow> nat reading" where
  "skip_records 0 r = return r"
| "skip_records (Suc n) r = bind (getBytesInRecord r) (\<lambda>b. skip_records n (r + unat b))"

definition getNthRecord :: "StackMapParser \<Rightarrow> 32 word \<Rightarrow> nat reading" where
  "getNthRecord smp k =
     bind (getNumRecords (base smp)) (\<lambda>n.
     seq (assert (k < n)) (skip_records (unat k) (records_base smp)))"

primrec find_record :: "64 word \<Rightarrow> nat \<Rightarrow> nat \<Rightarrow> nat reading" where
  "find_record i 0 r = fail AssertFailed"
| "find_record i (Suc n) r =
     bind (getIdOfRecord r) (\<lambda>record_id.
     if record_id = i then return r
     else bind (getBytesInRecord r) (\<lambda>b. find_record i n (r + unat b)))"

definition getRecordWithId :: "StackMapParser \<Rightarrow> 64 word \<Rightarrow> nat reading" where
  "getRecordWithId smp i =
     bind (getNumRecords (base smp)) (\<lambda>n. find_record i (unat n) (records_base smp))"

section \<open>\<open>SMRecordParser\<close>\<close>

record location =
  loc_type :: "8 word"
  loc_size :: "16 word"
  regnum :: "16 word"
  loc_offset :: "32 word"

abbreviation "LOCATION_SIZE \<equiv> 12 :: nat"

definition read_location :: "nat \<Rightarrow> location reading" where
  "read_location p =
     bind (read8 p) (\<lambda>t.
     bind (read16 (p + 2)) (\<lambda>size.
     bind (read16 (p + 4)) (\<lambda>reg.
     bind (read32 (p + 8)) (\<lambda>off.
     return \<lparr>loc_type = t, loc_size = size, regnum = reg, loc_offset = off\<rparr>))))"

record SMRecordParser =
  sm_id :: "64 word"
  sm_offset :: "32 word"
  num_locations :: "16 word"
  records_retrieved :: "32 word"
  position :: nat

definition newSMRecordParser :: "nat \<Rightarrow> SMRecordParser reading" where
  "newSMRecordParser rec_base =
     bind (read64 rec_base) (\<lambda>i.
     bind (read32 (rec_base + 8)) (\<lambda>off.
     bind (read16 (rec_base + 14)) (\<lambda>n.
     return \<lparr>sm_id = i, sm_offset = off, num_locations = n, records_retrieved = 0,
             position = rec_base + 16\<rparr>)))"

text \<open>
  The registers as the trampoline saved them, in the order of its pushes; \<open>registers_start - i\<close> is
  the address of the \<open>i\<close>-th.
\<close>

definition dwarf_reg_offset :: "nat list" where
  "dwarf_reg_offset = [0, 1, 2, 3, 4, 5, 6, 7, 8, 9, 10, 11, 12, 13, 14, 15]"

definition saved_register :: "64 word list \<Rightarrow> 16 word \<Rightarrow> fault + 64 word" where
  "saved_register regs r =
     (if unat r < length dwarf_reg_offset \<and> dwarf_reg_offset ! unat r < length regs
      then Inr (regs ! (dwarf_reg_offset ! unat r)) else Inl OutOfBounds)"

definition location_value :: "64 word list \<Rightarrow> location \<Rightarrow> fault + 64 word" where
  "location_value regs l =
     (if loc_type l = 1 then saved_register regs (regnum l)
      else if loc_type l = 2
      then (case saved_register regs (regnum l) of
              Inl e \<Rightarrow> Inl e | Inr v \<Rightarrow> Inr (v + scast (loc_offset l)))
      else if loc_type l = 4 then Inr (scast (loc_offset l))
      else Inr (- 1))"

definition next_value ::
  "64 word list \<Rightarrow> SMRecordParser \<Rightarrow> (64 word \<times> SMRecordParser) reading" where
  "next_value regs p =
     (if ucast (num_locations p) \<le> records_retrieved p then return (- 1, p)
      else bind (read_location (position p)) (\<lambda>l.
        let p' = p\<lparr>position := position p + LOCATION_SIZE,
                   records_retrieved := records_retrieved p + 1\<rparr> in
        if records_retrieved p' = 1 then return (ucast (regnum l), p')
        else bind (lift (location_value regs l)) (\<lambda>v. return (v, p'))))"

fun next_values ::
  "64 word list \<Rightarrow> SMRecordParser \<Rightarrow> nat \<Rightarrow> (64 word list \<times> SMRecordParser) reading" where
  "next_values regs p 0 = return ([], p)"
| "next_values regs p (Suc n) =
     bind (next_value regs p) (\<lambda>(v, p').
     bind (next_values regs p' n) (\<lambda>(vs, p''). return (v # vs, p'')))"

section \<open>The format\<close>

text \<open>
  The layout of a section, version 3, as the documentation of LLVM's stack maps gives it.
\<close>

fun le_bytes :: "nat \<Rightarrow> nat \<Rightarrow> bytes" where
  "le_bytes 0 n = []"
| "le_bytes (Suc k) n = word_of_nat (n mod 256) # le_bytes k (n div 256)"

record stackmap_record =
  patchpoint_id :: "64 word"
  instruction_offset :: "32 word"
  locations :: "location list"
  live_outs :: "32 word list"

definition encode_location :: "location \<Rightarrow> bytes" where
  "encode_location l = [loc_type l] @ [0] @ le_bytes 2 (unat (loc_size l)) @
     le_bytes 2 (unat (regnum l)) @ [0, 0] @ le_bytes 4 (unat (loc_offset l))"

definition encode_record :: "stackmap_record \<Rightarrow> bytes" where
  "encode_record r =
     le_bytes 8 (unat (patchpoint_id r)) @ le_bytes 4 (unat (instruction_offset r)) @ [0, 0] @
     le_bytes 2 (length (locations r)) @ concat (map encode_location (locations r)) @
     (if odd (length (locations r)) then [0, 0, 0, 0] else []) @ [0, 0] @
     le_bytes 2 (length (live_outs r)) @ concat (map (\<lambda>l. le_bytes 4 (unat l)) (live_outs r)) @
     (if even (length (live_outs r)) then [0, 0, 0, 0] else [])"

text \<open>The sizes of functions are three 64-bit words each, constants one.\<close>

definition encode_section :: "64 word list \<Rightarrow> 64 word list \<Rightarrow> stackmap_record list \<Rightarrow> bytes" where
  "encode_section fs cs rs =
     [3] @ le_bytes 3 0 @ le_bytes 4 (length fs div 3) @ le_bytes 4 (length cs) @ le_bytes 4 (length rs) @
     concat (map (\<lambda>w. le_bytes 8 (unat w)) fs) @ concat (map (\<lambda>w. le_bytes 8 (unat w)) cs) @
     concat (map encode_record rs)"

section \<open>Reading what was encoded\<close>

lemma length_le_bytes [simp]: "length (le_bytes k n) = k"
  by (induction k n rule: le_bytes.induct) auto

lemma le_val_le_bytes: "n < 256 ^ k \<Longrightarrow> le_val (le_bytes k n) = n"
proof (induction k n rule: le_bytes.induct)
  case (2 k n)
  then have "n div 256 < 256 ^ k" by (simp add: less_mult_imp_div_less mult.commute)
  moreover have "unat (word_of_nat (n mod 256) :: 8 word) = n mod 256"
    by (simp add: unat_of_nat)
  ultimately show ?case using 2 by simp
qed simp

text \<open>\<open>at sec p bs\<close>: the bytes \<open>bs\<close> lie in the section at \<open>p\<close>.\<close>

definition at :: "bytes \<Rightarrow> nat \<Rightarrow> bytes \<Rightarrow> bool" where
  "at sec p bs \<longleftrightarrow> p + length bs \<le> length sec \<and> take (length bs) (drop p sec) = bs"

lemma at_whole: "at sec 0 sec"
  by (simp add: at_def)

lemma at_append: "at sec p (xs @ ys) \<longleftrightarrow> at sec p xs \<and> at sec (p + length xs) ys"
  by (auto simp: at_def take_add add.commute [of p] drop_drop append_eq_append_conv)

lemma at_nil [simp]: "at sec p [] \<longleftrightarrow> p \<le> length sec"
  by (simp add: at_def)

lemma read_le_at:
  assumes "at sec p (le_bytes k n)" and "n < 256 ^ k"
  shows "read_le k p sec = Inr (word_of_nat n, sec)"
  using assms le_val_le_bytes [OF assms(2)] by (simp add: read_le_def at_def)

lemma reads_at:
  fixes a :: "16 word" and b :: "32 word" and c :: "64 word"
  shows "at sec p [x] \<Longrightarrow> read8 p sec = Inr (x, sec)"
    and "at sec p (le_bytes 2 (unat a)) \<Longrightarrow> read16 p sec = Inr (a, sec)"
    and "at sec p (le_bytes 4 (unat b)) \<Longrightarrow> read32 p sec = Inr (b, sec)"
    and "at sec p (le_bytes 8 (unat c)) \<Longrightarrow> read64 p sec = Inr (c, sec)"
proof -
  have "unat a < 2 ^ LENGTH(16)" "unat b < 2 ^ LENGTH(32)" "unat c < 2 ^ LENGTH(64)"
    by (rule unsigned_less)+
  then have "unat a < 256 ^ 2" "unat b < 256 ^ 4" "unat c < 256 ^ 8" by simp_all
  then show "at sec p (le_bytes 2 (unat a)) \<Longrightarrow> read16 p sec = Inr (a, sec)"
    and "at sec p (le_bytes 4 (unat b)) \<Longrightarrow> read32 p sec = Inr (b, sec)"
    and "at sec p (le_bytes 8 (unat c)) \<Longrightarrow> read64 p sec = Inr (c, sec)"
    by (simp_all add: read16_def read32_def read64_def read_le_at)
qed (simp add: at_def read8_def read_le_def)

lemma length_concat_le: "length (concat (map (\<lambda>w. le_bytes k (f w)) xs)) = k * length xs"
  by (induction xs) auto

lemma length_encode_location [simp]: "length (encode_location l) = LOCATION_SIZE"
  by (simp add: encode_location_def)

lemma length_concat_locations: "length (concat (map encode_location ls)) = LOCATION_SIZE * length ls"
  by (induction ls) auto

lemma Suc_offsets:
  fixes p :: nat
  shows "p + 2 = Suc (Suc p)" and "p + 4 = Suc (Suc (Suc (Suc p)))"
    and "p + 8 = Suc (Suc (Suc (Suc (Suc (Suc (Suc (Suc p)))))))"
  by simp_all

lemma read_location_at:
  assumes "at sec p (encode_location l)"
  shows "read_location p sec = Inr (l, sec)"
proof -
  have "at sec p [loc_type l]" and "at sec (p + 2) (le_bytes 2 (unat (loc_size l)))"
    and "at sec (p + 4) (le_bytes 2 (unat (regnum l)))" and "at sec (p + 8) (le_bytes 4 (unat (loc_offset l)))"
    using assms by (simp_all add: encode_location_def at_append Suc_offsets del: append_Cons)
  then show ?thesis
    by (simp add: read_location_def sem_simps reads_at(1) [of _ _ "loc_type l"] reads_at(2) [of _ _ "loc_size l"]
        reads_at(2) [of _ _ "regnum l"] reads_at(3) [of _ _ "loc_offset l"])
qed

lemma unat32: "k < 4294967296 \<Longrightarrow> unat (word_of_nat k :: 32 word) = k"
  by (simp add: unat_of_nat)

text \<open>A parser that has \<open>n\<close> of its locations left, at \<open>q\<close>.\<close>

definition parser_at :: "SMRecordParser \<Rightarrow> nat \<Rightarrow> nat \<Rightarrow> bool" where
  "parser_at P q n \<longleftrightarrow> position P = q \<and> n \<le> unat (num_locations P) \<and>
     records_retrieved P = word_of_nat (unat (num_locations P) - n)"

lemma next_value_at:
  assumes "parser_at P q (Suc n)" and "at sec q (encode_location l)"
  shows "\<exists>P'. parser_at P' (q + LOCATION_SIZE) n \<and> num_locations P' = num_locations P \<and>
    next_value regs P sec =
     (if n = unat (num_locations P) - 1 then Inr ((ucast (regnum l), P'), sec)
      else case location_value regs l of Inl e \<Rightarrow> Inl e | Inr v \<Rightarrow> Inr ((v, P'), sec))"
proof -
  let ?N = "unat (num_locations P)"
  let ?P = "P\<lparr>position := position P + LOCATION_SIZE, records_retrieved := records_retrieved P + 1\<rparr>"
  have N: "?N < 65536" using unsigned_less [of "num_locations P"] by simp
  then have N32: "?N < 4294967296" by simp
  have q: "position P = q" and n: "Suc n \<le> ?N"
    and r: "records_retrieved P = word_of_nat (?N - Suc n)"
    using assms(1) by (auto simp: parser_at_def)
  have more: "\<not> ucast (num_locations P) \<le> records_retrieved P"
    unfolding word_le_nat_alt r unat32 [OF le_less_trans [OF diff_le_self N32]]
    using N n by (simp add: unsigned_ucast_eq take_bit_eq_mod)
  have r': "records_retrieved P + 1 = word_of_nat (?N - n)"
    unfolding r using n by (simp add: of_nat_diff)
  have "parser_at ?P (q + LOCATION_SIZE) n"
    using q n r' by (simp add: parser_at_def)
  moreover have "(word_of_nat (?N - n) = (1 :: 32 word)) \<longleftrightarrow> n = ?N - 1"
  proof -
    have "word_of_nat (?N - n) = (1 :: 32 word) \<longleftrightarrow> unat (word_of_nat (?N - n) :: 32 word) = unat (1 :: 32 word)"
      by (rule word_unat_eq_iff)
    then show ?thesis unfolding unat32 [OF le_less_trans [OF diff_le_self N32]] using n by auto
  qed
  ultimately show ?thesis
    using read_location_at [OF assms(2)] more r'
    by (intro exI [of _ ?P]) (auto simp: next_value_def sem_simps q lift_def Let_def split: sum.split)
qed

lemma next_values_at:
  assumes "parser_at P q (length ls)" and "at sec q (concat (map encode_location ls))"
    and "list_all2 (\<lambda>l v. location_value regs l = Inr v) ls vs" and "length ls < unat (num_locations P)"
  shows "\<exists>P'. parser_at P' (q + LOCATION_SIZE * length ls) 0 \<and>
    next_values regs P (length ls) sec = Inr ((vs, P'), sec)"
  using assms
proof (induction ls arbitrary: P q vs)
  case Nil
  then show ?case by (auto simp: sem_simps)
next
  case (Cons l ls)
  obtain v vs' where vs: "vs = v # vs'" "location_value regs l = Inr v"
    "list_all2 (\<lambda>l v. location_value regs l = Inr v) ls vs'"
    using Cons.prems(3) by (auto simp: list_all2_Cons1)
  have l: "at sec q (encode_location l)" "at sec (q + LOCATION_SIZE) (concat (map encode_location ls))"
    using Cons.prems(2) by (simp_all add: at_append)
  obtain P' where P': "parser_at P' (q + LOCATION_SIZE) (length ls)" "num_locations P' = num_locations P"
    "next_value regs P sec = Inr ((v, P'), sec)"
    using next_value_at [OF _ l(1), of P "length ls" regs] Cons.prems(1,4) vs(2)
    by (auto split: if_splits)
  obtain P'' where P'': "parser_at P'' (q + LOCATION_SIZE + LOCATION_SIZE * length ls) 0"
    "next_values regs P' (length ls) sec = Inr ((vs', P''), sec)"
    using Cons.IH [OF P'(1) l(2) vs(3)] P'(2) Cons.prems(4) by auto
  then show ?case
    using P'(3) vs(1) by (intro exI [of _ P'']) (simp add: sem_simps add.assoc)
qed

lemma exhausted:
  assumes "parser_at P q 0"
  shows "next_value regs P sec = Inr ((- 1, P), sec)"
proof -
  have "unat (num_locations P) < 65536" using unsigned_less [of "num_locations P"] by simp
  then have "ucast (num_locations P) \<le> records_retrieved P"
    using assms unat32 [of "unat (num_locations P)"]
    by (simp add: parser_at_def word_le_nat_alt unsigned_ucast_eq take_bit_eq_mod)
  then show ?thesis by (simp add: next_value_def sem_simps)
qed

lemma record_read:
  assumes "at sec p (encode_record r)" and "length (locations r) < 2 ^ 16"
  shows "newSMRecordParser p sec = Inr (\<lparr>sm_id = patchpoint_id r, sm_offset = instruction_offset r,
      num_locations = word_of_nat (length (locations r)), records_retrieved = 0, position = p + 16\<rparr>, sec)"
    and "at sec (p + 16) (concat (map encode_location (locations r)))"
proof -
  let ?n = "word_of_nat (length (locations r)) :: 16 word"
  have n: "unat ?n = length (locations r)" using assms(2) by (simp add: unat_of_nat)
  have "at sec p (le_bytes 8 (unat (patchpoint_id r)))"
    and "at sec (p + 8) (le_bytes 4 (unat (instruction_offset r)))"
    and len: "at sec (p + 14) (le_bytes 2 (unat ?n))"
    and locs: "at sec (p + 16) (concat (map encode_location (locations r)))"
    using assms(1) by (simp_all add: encode_record_def at_append n add.assoc add.commute [of p 14]
        add.commute [of p 16] del: append_Cons)
  then show "newSMRecordParser p sec = Inr (\<lparr>sm_id = patchpoint_id r, sm_offset = instruction_offset r,
      num_locations = ?n, records_retrieved = 0, position = p + 16\<rparr>, sec)"
    using reads_at(2) [OF len]
    by (simp add: newSMRecordParser_def sem_simps reads_at(3) [of _ _ "instruction_offset r"]
        reads_at(4) [of _ _ "patchpoint_id r"])
  show "at sec (p + 16) (concat (map encode_location (locations r)))" by (rule locs)
qed

lemma section_read:
  assumes "length fs = 3 * nf" and "nf * 24 < 2 ^ 32" and "length cs * 8 < 2 ^ 32" and "length rs < 2 ^ 32"
  defines "sec \<equiv> encode_section fs cs rs" and "start \<equiv> 16 + nf * 24 + length cs * 8"
  shows "newStackMapParser 0 sec = Inr (\<lparr>base = 0, records_base = start\<rparr>, sec)"
    and "getNumRecords 0 sec = Inr (word_of_nat (length rs), sec)"
    and "getNumFunctions 0 sec = Inr (word_of_nat nf, sec)"
    and "at sec start (concat (map encode_record rs))"
proof -
  let ?nf = "word_of_nat nf :: 32 word" and ?nc = "word_of_nat (length cs) :: 32 word"
    and ?nr = "word_of_nat (length rs) :: 32 word"
  have n: "unat ?nf = nf" "unat ?nc = length cs" "unat ?nr = length rs"
    using assms(2-4) by (simp_all add: unat_of_nat)
  have "at sec 0 (encode_section fs cs rs)" unfolding sec_def by (rule at_whole)
  then have h: "at sec 0 [3]" and nf: "at sec 4 (le_bytes 4 (unat ?nf))"
    and nc: "at sec 8 (le_bytes 4 (unat ?nc))" and nr: "at sec 12 (le_bytes 4 (unat ?nr))"
    and recs: "at sec start (concat (map encode_record rs))"
    using assms(1)
    by (simp_all add: encode_section_def at_append n
        length_concat_le start_def add.assoc mult.commute del: append_Cons)
  show fns: "getNumFunctions 0 sec = Inr (?nf, sec)"
    using reads_at(3) [OF nf] by (simp add: getNumFunctions_def)
  show "getNumRecords 0 sec = Inr (?nr, sec)"
    using reads_at(3) [OF nr] by (simp add: getNumRecords_def)
  have "getNumConstants 0 sec = Inr (?nc, sec)"
    using reads_at(3) [OF nc] by (simp add: getNumConstants_def)
  moreover have "unat (?nf * 24) = nf * 24" "unat (?nc * 8) = length cs * 8"
    using assms(2,3) by (simp_all add: unat_mult_lem [THEN iffD1] n)
  ultimately show "newStackMapParser 0 sec = Inr (\<lparr>base = 0, records_base = start\<rparr>, sec)"
    using fns reads_at(1) [OF h] by (simp add: newStackMapParser_def sem_simps start_def)
  show "at sec start (concat (map encode_record rs))" by (rule recs)
qed

lemma at_section:
  assumes "length fs = 3 * nf" and "nf * 24 < 2 ^ 32" and "length cs * 8 < 2 ^ 32" and "length (r # rs) < 2 ^ 32"
    and "sec = encode_section fs cs (r # rs)" and "p = 16 + nf * 24 + length cs * 8"
  shows "at sec p (encode_record r)"
  using section_read(4) [OF assms(1-4)] assms(5,6) by (simp add: at_append)

section \<open>The size of a record\<close>

text \<open>What \<open>getBytesInRecord\<close> makes of the two numbers it reads.\<close>

definition computed_size :: "nat \<Rightarrow> nat \<Rightarrow> nat" where
  "computed_size n l =
     16 + 12 * n + (if odd n then 4 else 0) + 2 + 4 * l + (if even l then 4 else 0)"

lemma parity_word: "(w :: 16 word) mod 2 = 1 \<longleftrightarrow> odd (unat w)" "(w :: 16 word) mod 2 = 0 \<longleftrightarrow> even (unat w)"
proof -
  have "unat (w mod 2) = unat w mod 2" by (simp add: unat_mod_distrib)
  then have *: "w mod 2 = 1 \<longleftrightarrow> unat w mod 2 = 1" "w mod 2 = 0 \<longleftrightarrow> unat w mod 2 = 0"
    by (simp_all add: word_unat_eq_iff)
  then show "w mod 2 = 1 \<longleftrightarrow> odd (unat w)" "w mod 2 = 0 \<longleftrightarrow> even (unat w)" by presburger+
qed

lemma ucast_word_of_nat: "(ucast (w :: 16 word) :: 32 word) = word_of_nat (unat w)"
  by simp

lemma computed_size_mod: "computed_size n l mod 8 = 6"
proof -
  have "\<exists>k. computed_size n l = 8 * k + 6"
    by (cases "even n"; cases "even l") (auto simp: computed_size_def elim!: evenE oddE, presburger+)
  then show ?thesis by auto
qed

lemma computed_size_word:
  fixes n l :: "16 word"
  shows "unat (word_of_nat (computed_size (unat n) (unat l)) :: 32 word) = computed_size (unat n) (unat l)"
proof (rule unat32)
  have "unat n < 2 ^ LENGTH(16)" "unat l < 2 ^ LENGTH(16)" by (rule unsigned_less)+
  then show "computed_size (unat n) (unat l) < 4294967296" by (simp add: computed_size_def)
qed

lemma getBytesInRecord_size:
  assumes "getBytesInRecord p sec = Inr (b, sec')"
  obtains n l :: "16 word" where "unat b = computed_size (unat n) (unat l)"
proof -
  have "\<exists>(n :: 16 word) (l :: 16 word). b = word_of_nat (computed_size (unat n) (unat l))"
    using assms unfolding getBytesInRecord_def Let_def
  proof (elim bind_InrE)
    fix n l :: "16 word" and s1 s2
    let ?b = "(if n mod 2 = 1 then 8 + 2 + 4 + 2 + ucast n * 12 + 4 else 8 + 2 + 4 + 2 + ucast n * 12) + 2
      + ucast l * 4 :: 32 word"
    assume "return (if l mod 2 = 0 then ?b + 4 else ?b) s2 = Inr (b, sec')"
    then have "b = word_of_nat (computed_size (unat n) (unat l))"
      by (auto simp: leaf_apply parity_word computed_size_def)
    then show ?thesis by blast
  qed
  then show thesis using that computed_size_word by metis
qed

lemma encode_record_mod: "length (encode_record r) mod 8 = 0"
proof -
  let ?n = "length (locations r)" and ?l = "length (live_outs r)"
  have "length (encode_record r) = 20 + 12 * ?n + (if odd ?n then 4 else 0) + 4 * ?l + (if even ?l then 4 else 0)"
    by (simp add: encode_record_def length_concat_locations length_concat_le)
  also have "\<exists>k. \<dots> = 8 * k"
    by (cases "even ?n"; cases "even ?l") (auto elim!: evenE oddE, presburger+)
  finally show ?thesis by auto
qed

text \<open>
  C38. The size of a record is miscomputed: the real size is a multiple of 8, but
  \<open>getBytesInRecord\<close>, if it returns, returns 6 modulo 8, so that every record after the
  first is looked for at an address where no record begins.
\<close>

theorem record_size_wrong:
  assumes "getBytesInRecord p sec = Inr (b, sec')"
  shows "unat b mod 8 = 6 \<and> length (encode_record r) mod 8 = 0"
  using getBytesInRecord_size [OF assms] encode_record_mod computed_size_mod by metis

text \<open>The values of a record that lies at \<open>p\<close>, whatever lies around it.\<close>

lemma record_values:
  assumes "at sec p (encode_record r)" and "locations r = first # ls" and "length (locations r) < 2 ^ 16"
    and "list_all2 (\<lambda>l v. location_value regs l = Inr v) ls vs"
    and "q = \<lparr>sm_id = patchpoint_id r, sm_offset = instruction_offset r,
      num_locations = word_of_nat (length (locations r)), records_retrieved = 0, position = p + 16\<rparr>"
  shows "newSMRecordParser p sec = Inr (q, sec)" and "sm_id q = patchpoint_id r"
    and "\<exists>q'. next_values regs q (Suc (length ls)) sec = Inr ((ucast (regnum first) # vs, q'), sec) \<and>
      next_value regs q' sec = Inr ((- 1, q'), sec)"
proof -
  note rec = record_read [OF assms(1,3), folded assms(5)]
  show "newSMRecordParser p sec = Inr (q, sec)" "sm_id q = patchpoint_id r"
    using rec(1) assms(5) by simp_all
  have n: "unat (num_locations q) = Suc (length ls)"
  proof -
    have "unat (num_locations q) = length (locations r)" using assms(3,5) by (simp add: unat_of_nat)
    also have "\<dots> = Suc (length ls)" using assms(2) by simp
    finally show ?thesis .
  qed
  have "parser_at q (p + 16) (Suc (length ls))" using n assms(5) by (simp add: parser_at_def)
  then obtain q1 where q1: "parser_at q1 (p + 16 + LOCATION_SIZE) (length ls)" "num_locations q1 = num_locations q"
    "next_value regs q sec = Inr ((ucast (regnum first), q1), sec)"
    using next_value_at [of q "p + 16" "length ls" sec first regs] rec(2) n assms(2) by (auto simp: at_append)
  obtain q' where q': "parser_at q' (p + 16 + LOCATION_SIZE + LOCATION_SIZE * length ls) 0"
    "next_values regs q1 (length ls) sec = Inr ((vs, q'), sec)"
    using next_values_at [OF q1(1) _ assms(4), of sec] rec(2) q1(2) n assms(2) by (auto simp: at_append)
  show "\<exists>q'. next_values regs q (Suc (length ls)) sec = Inr ((ucast (regnum first) # vs, q'), sec) \<and>
      next_value regs q' sec = Inr ((- 1, q'), sec)"
    using q1(3) q'(2) exhausted [OF q'(1)] by (intro exI [of _ q']) (simp add: sem_simps)
qed

text \<open>The first record of a section is found by its position and by its identifier.\<close>

lemma section_values:
  assumes "length fs = 3 * nf" and "nf * 24 < 2 ^ 32" and "length cs * 8 < 2 ^ 32"
    and "length (r # rs) < 2 ^ 32" and "locations r = first # ls" and "length (locations r) < 2 ^ 16"
    and "list_all2 (\<lambda>l v. location_value regs l = Inr v) ls vs"
    and "sec = encode_section fs cs (r # rs)"
    and "p = 16 + nf * 24 + length cs * 8" and "smp = \<lparr>base = 0, records_base = p\<rparr>"
    and "q = \<lparr>sm_id = patchpoint_id r, sm_offset = instruction_offset r,
      num_locations = word_of_nat (length (locations r)), records_retrieved = 0, position = p + 16\<rparr>"
  shows "newStackMapParser 0 sec = Inr (smp, sec)"
    and "getNthRecord smp 0 sec = Inr (p, sec)" and "getRecordWithId smp (patchpoint_id r) sec = Inr (p, sec)"
    and "newSMRecordParser p sec = Inr (q, sec)" and "sm_id q = patchpoint_id r"
    and "\<exists>q'. next_values regs q (Suc (length ls)) sec = Inr ((ucast (regnum first) # vs, q'), sec) \<and>
      next_value regs q' sec = Inr ((- 1, q'), sec)"
proof -
  note read = section_read [OF assms(1-4), of, folded assms(8,9), folded assms(10)]
  have r: "at sec p (encode_record r)" using read(4) by (simp add: at_append)
  have some: "(0 :: 32 word) < word_of_nat (length (r # rs))"
    "unat (word_of_nat (length (r # rs)) :: 32 word) = Suc (length rs)"
    using unat32 [of "length (r # rs)"] assms(4) by (simp_all add: word_less_nat_alt)
  show "newStackMapParser 0 sec = Inr (smp, sec)" by (rule read(1))
  show "getNthRecord smp 0 sec = Inr (p, sec)"
    using read(2) some(1) assms(10) by (simp add: getNthRecord_def sem_simps)
  have "getIdOfRecord p sec = Inr (patchpoint_id r, sec)"
    using r by (simp add: getIdOfRecord_def encode_record_def at_append reads_at(4))
  then show "getRecordWithId smp (patchpoint_id r) sec = Inr (p, sec)"
    using read(2) some(2) assms(10) by (simp add: getRecordWithId_def sem_simps)
qed (fact record_values [OF at_section [OF assms(1-4,8,9)] assms(5-7,11)])+

text \<open>
  What LLVM documents a location to stand for: the register with that DWARF number, an address at an offset
  from it, or a small constant.  The other kinds, values spilled to memory and large constants, are not
  handled by the parser.
\<close>

definition documented_value :: "64 word list \<Rightarrow> location \<Rightarrow> 64 word option" where
  "documented_value regs l =
     (if loc_type l \<in> {1, 2} \<and> length regs \<le> unat (regnum l) then None
      else if loc_type l = 1 then Some (regs ! unat (regnum l))
      else if loc_type l = 2 then Some (regs ! unat (regnum l) + scast (loc_offset l))
      else if loc_type l = 4 then Some (scast (loc_offset l))
      else None)"

lemma documented_location:
  assumes "length regs = 16" and "documented_value regs l = Some v"
  shows "location_value regs l = Inr v"
proof -
  have "dwarf_reg_offset ! k = k" if "k < 16" for k
  proof -
    have "dwarf_reg_offset = [0..<16]" by code_simp
    then have "dwarf_reg_offset ! k = [0..<16] ! k" by (rule arg_cong)
    also have "\<dots> = 0 + k" by (rule nth_upt) (simp only: add_0 that)
    finally show ?thesis by (simp only: add_0)
  qed
  then show ?thesis
    using assms by (auto simp: documented_value_def location_value_def saved_register_def dwarf_reg_offset_def not_le split: if_splits)
qed

text \<open>
  C18. A section that is laid out as LLVM documents it is read back: given where a record lies, be it the
  first or a later one, the parser of records hands out the number of the return register and then the
  values that LLVM documents for the remaining locations, in order, when these are registers, addresses on
  the stack and small constants; after the last it returns -1.  The parser of the section finds the first
  record, by position and by identifier; later ones are sought at wrong addresses
  (\<open>record_size_wrong\<close>).
\<close>

theorem stack_map_read_back:
  assumes "length fs = 3 * nf" and "nf * 24 < 2 ^ 32" and "length cs * 8 < 2 ^ 32"
    and "length (before @ r # behind) < 2 ^ 32" and "locations r = first # ls" and "length (locations r) < 2 ^ 16"
    and "length regs = 16" and "map (documented_value regs) ls = map Some vs"
    and "sec = encode_section fs cs (before @ r # behind)"
    and "p = 16 + nf * 24 + length cs * 8 + length (concat (map encode_record before))"
  shows "\<exists>smp q q'. newStackMapParser 0 sec = Inr (smp, sec) \<and>
    newSMRecordParser p sec = Inr (q, sec) \<and> sm_id q = patchpoint_id r \<and>
    next_values regs q (Suc (length ls)) sec = Inr ((ucast (regnum first) # vs, q'), sec) \<and>
    next_value regs q' sec = Inr ((- 1, q'), sec) \<and>
    (before = [] \<longrightarrow> getNthRecord smp 0 sec = Inr (p, sec) \<and> getRecordWithId smp (patchpoint_id r) sec = Inr (p, sec))"
proof -
  note read = section_read [OF assms(1-4), folded assms(9)]
  have at: "at sec p (encode_record r)" using read(4) by (simp add: at_append assms(10))
  have vs: "list_all2 (\<lambda>l v. location_value regs l = Inr v) ls vs"
    using assms(8) documented_location [OF assms(7)]
    by (auto simp: list_all2_conv_all_nth list_eq_iff_nth_eq)
  note values_here = record_values [OF at assms(5,6) vs HOL.refl]
  have "getNthRecord \<lparr>base = 0, records_base = p\<rparr> 0 sec = Inr (p, sec)"
    "getRecordWithId \<lparr>base = 0, records_base = p\<rparr> (patchpoint_id r) sec = Inr (p, sec)" if "before = []"
    using section_values(2,3) [OF assms(1-3) _ assms(5,6) vs _ _ HOL.refl HOL.refl, of behind sec p] assms(4,9,10) that
    by simp_all
  moreover have "newStackMapParser 0 sec = Inr (\<lparr>base = 0, records_base = 16 + nf * 24 + length cs * 8\<rparr>, sec)"
    by (rule read(1))
  ultimately show ?thesis using values_here by (cases "before = []") (auto simp: assms(10))
qed

section \<open>A section\<close>

text \<open>One function with one record: the return register, a constant, a register, a stack slot.\<close>

definition sample_record :: stackmap_record where
  "sample_record = \<lparr>patchpoint_id = 7, instruction_offset = 40,
     locations = [\<lparr>loc_type = 1, loc_size = 8, regnum = 3, loc_offset = 0\<rparr>,
       \<lparr>loc_type = 4, loc_size = 8, regnum = 0, loc_offset = 0x5020\<rparr>,
       \<lparr>loc_type = 1, loc_size = 8, regnum = 5, loc_offset = 0\<rparr>,
       \<lparr>loc_type = 2, loc_size = 8, regnum = 6, loc_offset = - 16\<rparr>],
     live_outs = []\<rparr>"

definition sample_section :: bytes where
  "sample_section = encode_section [0x1000, 64, 1] [] [sample_record]"

definition two_records :: bytes where
  "two_records = encode_section [0x1000, 64, 1] [] ([sample_record] @ sample_record # [])"

definition sample_registers :: "64 word list" where
  "sample_registers = map (\<lambda>i. 0x7000 + 0x100 * word_of_nat i) [0..<16]"

lemma sample_record_locations:
  "locations sample_record = hd (locations sample_record) # tl (locations sample_record)"
  "length (tl (locations sample_record)) = 3" "regnum (hd (locations sample_record)) = 3"
  by (simp_all add: sample_record_def)

text \<open>The same record twice: the second one is read as well.\<close>

lemma stack_map_read_back_witness:
  "\<exists>q q'. newSMRecordParser (16 + 24 + length (encode_record sample_record)) two_records = Inr (q, two_records) \<and>
    next_values sample_registers q 4 two_records = Inr (([3, 0x5020, 0x7500, 0x75F0], q'), two_records)"
proof -
  have "map (documented_value sample_registers) (tl (locations sample_record)) = map Some [0x5020, 0x7500, 0x75F0]"
    "length sample_registers = 16"
    by code_simp+
  from stack_map_read_back [where nf = 1 and before = "[sample_record]" and behind = "[]" and fs = "[0x1000, 64, 1]" and cs = "[]",
      OF _ _ _ _ sample_record_locations(1) _ this(2,1) two_records_def HOL.refl]
  obtain q q' where "newSMRecordParser (16 + 24 + length (encode_record sample_record)) two_records = Inr (q, two_records)"
    "next_values sample_registers q (Suc (length (tl (locations sample_record)))) two_records =
      Inr ((ucast (regnum (hd (locations sample_record))) # [0x5020, 0x7500, 0x75F0], q'), two_records)"
    by (auto simp: sample_record_def)
  then show ?thesis
    unfolding sample_record_locations(2,3) by (intro exI [of _ q] exI [of _ q']) simp
qed

lemma le_bytes_fixed:
  "le_bytes 2 n = map (\<lambda>i. word_of_nat ((n div 256 ^ i) mod 256)) [0, 1]"
  "le_bytes 4 n = map (\<lambda>i. word_of_nat ((n div 256 ^ i) mod 256)) [0, 1, 2, 3]"
  "le_bytes 8 n = map (\<lambda>i. word_of_nat ((n div 256 ^ i) mod 256)) [0, 1, 2, 3, 4, 5, 6, 7]"
proof -
  have step: "le_bytes (Suc k) n = word_of_nat (n mod 256) # le_bytes k (n div 256)" for k n
    by simp
  have two: "le_bytes 2 n = map (\<lambda>i. word_of_nat ((n div 256 ^ i) mod 256)) [0, 1]" for n
    unfolding numeral_2_eq_2 by simp
  have four: "le_bytes 4 n = map (\<lambda>i. word_of_nat ((n div 256 ^ i) mod 256)) [0, 1, 2, 3]" for n
    using step [of 3] step [of 2] by (simp add: two div_mult2_eq [symmetric])
  show "le_bytes 2 n = map (\<lambda>i. word_of_nat ((n div 256 ^ i) mod 256)) [0, 1]" by (rule two)
  show "le_bytes 4 n = map (\<lambda>i. word_of_nat ((n div 256 ^ i) mod 256)) [0, 1, 2, 3]" by (rule four)
  show "le_bytes 8 n = map (\<lambda>i. word_of_nat ((n div 256 ^ i) mod 256)) [0, 1, 2, 3, 4, 5, 6, 7]"
    using step [of 7] step [of 6] step [of 5] step [of 4] by (simp add: four div_mult2_eq [symmetric])
qed

lemma record_size_wrong_witness:
  "\<exists>b. getBytesInRecord 40 sample_section = Inr (b, sample_section) \<and> unat b mod 8 = 6"
proof -
  have "at sample_section 40 (encode_record sample_record)"
    using section_read(4) [of "[0x1000, 64, 1]" 1 "[]" "[sample_record]"] by (simp add: sample_section_def)
  moreover obtain rest where "encode_record sample_record =
      [7, 0, 0, 0, 0, 0, 0, 0, 40, 0, 0, 0, 0, 0, 4, 0] @ le_bytes 2 (unat (1 :: 16 word)) @
      [8, 0, 3, 0, 0, 0, 0, 0, 0, 0, 4, 0, 8, 0, 0, 0] @ le_bytes 2 (unat (0 :: 16 word)) @ rest"
    by (simp add: encode_record_def encode_location_def sample_record_def le_bytes_fixed)
  ultimately have "at sample_section (40 + 16) (le_bytes 2 (unat (1 :: 16 word)))"
    "at sample_section (40 + 16 + 2 + 16) (le_bytes 2 (unat (0 :: 16 word)))"
    by (simp_all only: at_append) simp_all
  then have "read16 56 sample_section = Inr (1, sample_section)"
    "read16 74 sample_section = Inr (0, sample_section)"
    using reads_at(2) [of sample_section 56 1] reads_at(2) [of sample_section 74 0] by simp_all
  then have size: "getBytesInRecord 40 sample_section = Inr (38, sample_section)"
    by (simp add: getBytesInRecord_def sem_simps)
  show ?thesis using record_size_wrong [OF size] size by blast
qed

end
