(* ===== verification/Reconstruct.thy ===== *)
theory Reconstruct
  imports Resume Run_Invariants Stack_Map
begin

text \<open>
  From a stack map back to a frame of the interpreter: \<open>reconstructInterpreterContext\<close>, which the
  register-saving trampoline calls when compiled code gives up.
\<close>

section \<open>Raw addresses\<close>

text \<open>
  A stack map yields the addresses of variables as words.  \<open>cell_at\<close> stands for the layout of the
  machine's memory: which cell of the model lies at an address.  The null pointer stays null.
\<close>

definition cell_of :: "(64 word \<Rightarrow> loc) \<Rightarrow> 64 word \<Rightarrow> loc" where
  "cell_of cell_at a = (if a = 0 then null_loc else cell_at a)"

definition load_cell :: "loc \<Rightarrow> obj run" where
  "load_cell p = (if p = null_loc then fail NullDeref else load p)"

section \<open>Resuming in a frame\<close>

text \<open>
  The names \<open>self\<close> and \<open>cmd\<close> and, in a method, the instance variables of the receiver.  \<open>ivars\<close> is
  the address after the class pointer of \<open>*self\<close>.
\<close>

fun add_cells :: "string list \<Rightarrow> addr \<Rightarrow> nat \<Rightarrow> symbol_table \<Rightarrow> symbol_table" where
  "add_cells [] a i tab = tab"
| "add_cells (x # xs) a i tab = add_cells xs a (Suc i) (tab(x \<mapsto> (a, i)))"

definition is_method :: "loc \<Rightarrow> loc \<Rightarrow> bool" where
  "is_method self cmd \<longleftrightarrow> self \<noteq> null_loc \<and> cmd \<noteq> null_loc"

definition receiver_table :: "loc \<Rightarrow> loc \<Rightarrow> symbol_table run" where
  "receiver_table self cmd =
     (let tab = [''self'' \<mapsto> self, ''cmd'' \<mapsto> cmd] in
      if is_method self cmd
      then bind (load_cell self) (\<lambda>ob.
           bind (getClassFor ob) (\<lambda>c.
           bind (class_at c) (\<lambda>k. return (add_cells (indexedIVarNames k) ob 0 tab))))
      else return tab)"

text \<open>The compilation that follows if the resumed call asked for it.\<close>

definition recompile_resumed :: "machine \<Rightarrow> node \<Rightarrow> loc \<Rightarrow> loc \<Rightarrow> unit run" where
  "recompile_resumed m d self cmd =
     seq (if is_method self cmd
          then bind (load_cell self) (\<lambda>ob.
               bind (getClassFor ob) (\<lambda>c.
               bind (load_cell cmd) (\<lambda>cmdObj.
               bind (methodForSelector c (ucast (asr3 cmdObj))) (\<lambda>mth. case mth of
                 None \<Rightarrow> seq (bind (install_code m (CompiledAsMethod d c)) (\<lambda>_. return ())) (fail NullDeref)
               | Some p \<Rightarrow>
                   bind (install_code m (CompiledAsMethod d c)) (\<lambda>f.
                   bind (method_at p) (\<lambda>me. set_method p (me\<lparr>m_function := Some f\<rparr>)))))))
          else bind (load_cell self) (\<lambda>a.
               bind (install_code m (CompiledAsClosure d)) (\<lambda>f.
               bind (closure_at a) (\<lambda>cl.
               seq (set_block a (CloBlock (cl\<lparr>invoke := Some f\<rparr>)))
               (update_decl d (\<lambda>i. i\<lparr>compiledClosure := Some f\<rparr>))))))
     (bind (gets cur_jit_function) (\<lambda>d'. update_decl d' (\<lambda>i. i\<lparr>recompile := False\<rparr>)))"

text \<open>What happens once the values of the stack map have been read.\<close>

definition resume_frame :: "machine \<Rightarrow> symbol_table \<Rightarrow> loc \<Rightarrow> loc \<Rightarrow> node \<Rightarrow> obj run" where
  "resume_frame m tab self cmd n =
     seq (pushSymbols tab)
     (bind (resumeInInterpreter m n) (\<lambda>v.
     bind (gets cur_jit_function) (\<lambda>d.
     bind (decl_at d) (\<lambda>i.
     seq (if recompile i then recompile_resumed m d self cmd else return ())
     (seq popSymbols (return v))))))"

section \<open>\<open>reconstructInterpreterContext\<close>\<close>

text \<open>The parser of the section that was registered for the running function.\<close>

type_synonym stackmap = "StackMapParser \<times> bytes"

definition getStackMap :: "(node \<rightharpoonup> stackmap) \<Rightarrow> stackmap run" where
  "getStackMap maps = bind (gets cur_jit_function) (\<lambda>d. case maps d of
       Some s \<Rightarrow> return s | None \<Rightarrow> fail NullDeref)"

definition reading_from :: "bytes \<Rightarrow> 'a reading \<Rightarrow> 'a run" where
  "reading_from sec r = lift (case r sec of Inl e \<Rightarrow> Inl e | Inr (a, _) \<Rightarrow> Inr a)"

fun next_cells ::
  "(64 word \<Rightarrow> loc) \<Rightarrow> 64 word list \<Rightarrow> bytes \<Rightarrow> string list \<Rightarrow> SMRecordParser \<Rightarrow> symbol_table \<Rightarrow>
   (SMRecordParser \<times> symbol_table) run" where
  "next_cells cell_at regs sec [] p tab = return (p, tab)"
| "next_cells cell_at regs sec (x # xs) p tab =
     bind (reading_from sec (next_value regs p)) (\<lambda>(val, p').
     next_cells cell_at regs sec xs p' (tab(x \<mapsto> cell_of cell_at val)))"

text \<open>The result is the value written to \<open>*return_reg\<close>, if any, and the object returned.\<close>

definition reconstructInterpreterContext ::
  "machine \<Rightarrow> (node \<rightharpoonup> stackmap) \<Rightarrow> (64 word \<Rightarrow> loc) \<Rightarrow> 64 word list \<Rightarrow> (64 word option \<times> obj) run" where
  "reconstructInterpreterContext m maps cell_at regs =
     bind (getStackMap maps) (\<lambda>(smp, sec).
     bind (reading_from sec (getNumFunctions (base smp))) (\<lambda>nf.
     seq (assert (nf = 1))
     (bind (reading_from sec (getNumRecords (base smp))) (\<lambda>num_records.
     if num_records \<noteq> 1
     then seq (emit (Diagnostic ''More than 1 record in this stackmap! UNIMPLIMENTED.'')) (return (None, 0))
     else bind (reading_from sec (getNthRecord smp 0)) (\<lambda>record_pointer.
     bind (gets cur_jit_function) (\<lambda>d.
     bind (the_decl m d) (\<lambda>ast_root.
     bind (reading_from sec (newSMRecordParser record_pointer)) (\<lambda>p0.
     bind (reading_from sec (next_value regs p0)) (\<lambda>(return_reg, p1).
     bind (reading_from sec (next_value regs p1)) (\<lambda>(resume_node, p2).
     bind (reading_from sec (next_value regs p2)) (\<lambda>(self, p3).
     bind (reading_from sec (next_value regs p3)) (\<lambda>(cmd, p4).
     bind (receiver_table (cell_of cell_at self) (cell_of cell_at cmd)) (\<lambda>tab0.
     bind (next_cells cell_at regs sec (decl_params ast_root) p4 tab0) (\<lambda>(p5, tab1).
     bind (decl_at d) (\<lambda>info.
     bind (next_cells cell_at regs sec (di_decls info) p5 tab1) (\<lambda>(p6, tab2).
     bind (next_cells cell_at regs sec (di_boundVars info) p6 tab2) (\<lambda>(p7, tab3).
     bind (resume_frame m tab3 (cell_of cell_at self) (cell_of cell_at cmd) resume_node) (\<lambda>v.
     return (Some return_reg, v)))))))))))))))))))"

section \<open>What the compiler records\<close>

text \<open>
  The operands that \<open>Call::compileExpression\<close> passes to the patchpoint, by the addresses of the
  variables in the compiler's symbol table; \<open>None\<close> is a null \<open>Value*\<close>.
\<close>

definition patchpoint_args :: "(string \<rightharpoonup> 64 word) \<Rightarrow> node \<Rightarrow> cdecl \<Rightarrow> decl_info \<Rightarrow> 64 word option list" where
  "patchpoint_args csyms n D info =
     [Some n,
      Some (case csyms ''self'' of Some a \<Rightarrow> a | None \<Rightarrow> 0),
      Some (case csyms ''cmd'' of Some a \<Rightarrow> a | None \<Rightarrow> 0)] @
     map csyms (decl_params D) @ map csyms (di_decls info) @ map csyms (di_boundVars info)"

text \<open>The frame of the compiled function as a symbol table of the interpreter.\<close>

definition address_of :: "(64 word \<Rightarrow> loc) \<Rightarrow> (string \<rightharpoonup> 64 word) \<Rightarrow> string \<Rightarrow> loc" where
  "address_of cell_at csyms x = cell_of cell_at (case csyms x of Some a \<Rightarrow> a | None \<Rightarrow> 0)"

definition table_on :: "string list \<Rightarrow> (string \<Rightarrow> loc) \<Rightarrow> symbol_table" where
  "table_on xs h = (\<lambda>x. if x \<in> set xs then Some (h x) else None)"

definition frame_names :: "cdecl \<Rightarrow> decl_info \<Rightarrow> string list \<Rightarrow> string list" where
  "frame_names D info ivs =
     [''self'', ''cmd''] @ ivs @ decl_params D @ di_decls info @ di_boundVars info"

lemma table_on_append:
  "table_on (xs @ [x]) h = (table_on xs h)(x \<mapsto> h x)"
  by (auto simp: table_on_def)

lemma add_cells_table:
  assumes "\<forall>j < length xs. h (xs ! j) = (a, i + j)"
  shows "add_cells xs a i (table_on zs h) = table_on (zs @ xs) h"
  using assms
proof (induction xs arbitrary: i zs)
  case (Cons x xs)
  have "h x = (a, i)" using Cons.prems by (metis length_greater_0_conv list.distinct(1) nth_Cons_0 add_0_right)
  moreover have "\<forall>j < length xs. h (xs ! j) = (a, Suc i + j)"
    using Cons.prems by auto
  then have "add_cells xs a (Suc i) (table_on (zs @ [x]) h) = table_on ((zs @ [x]) @ xs) h"
    by (rule Cons.IH)
  ultimately show ?case by (simp only: add_cells.simps table_on_append append.assoc append.simps)
qed simp

section \<open>Reading the values\<close>

lemma read_le_pure: "read_le k p sec = Inr (w, sec') \<Longrightarrow> sec' = sec"
  by (auto simp: read_le_def split: if_splits)

lemma next_value_pure: "next_value regs p sec = Inr (r, sec') \<Longrightarrow> sec' = sec"
  by (auto simp: next_value_def read_location_def read8_def read16_def read32_def Let_def sem_simps lift_def
      split: if_splits sum.splits dest!: read_le_pure)

lemma next_values_step:
  assumes "next_values regs p (Suc n) sec = Inr ((ws, p''), sec)"
  obtains v p' vs where "ws = v # vs" and "next_value regs p sec = Inr ((v, p'), sec)"
    and "next_values regs p' n sec = Inr ((vs, p''), sec)"
  using assms next_value_pure by (auto simp: sem_simps split: sum.splits) blast

lemma next_values_append:
  assumes "next_values regs p (a + b) sec = Inr ((ws, p''), sec)"
  obtains us vs p' where "ws = us @ vs" and "length us = a"
    and "next_values regs p a sec = Inr ((us, p'), sec)" and "next_values regs p' b sec = Inr ((vs, p''), sec)"
  using assms
proof (induction a arbitrary: p ws thesis)
  case 0
  then show ?case by (simp add: sem_simps)
next
  case (Suc a)
  obtain v q ws' where step: "ws = v # ws'" "next_value regs p sec = Inr ((v, q), sec)"
    "next_values regs q (a + b) sec = Inr ((ws', p''), sec)"
    by (rule next_values_step [OF Suc.prems(2) [unfolded add_Suc]])
  obtain us vs p' where "ws' = us @ vs" "length us = a" "next_values regs q a sec = Inr ((us, p'), sec)"
    "next_values regs p' b sec = Inr ((vs, p''), sec)"
    using Suc.IH [OF _ step(3)] .
  then show ?case using step(1,2) Suc.prems(1) [of "v # us" vs p'] by (simp add: sem_simps)
qed

lemma reading_from_apply:
  "reading_from sec r c = (case r sec of Inl e \<Rightarrow> Inl e | Inr (a, sec') \<Rightarrow> Inr (a, c))"
  by (simp add: reading_from_def lift_def split: sum.split)

lemma next_cells_table:
  assumes "next_values regs p (length xs) sec = Inr ((vs, p'), sec)"
    and "map (cell_of cell_at) vs = map h xs"
  shows "next_cells cell_at regs sec xs p (table_on zs h) c = Inr ((p', table_on (zs @ xs) h), c)"
  using assms
proof (induction xs arbitrary: p vs zs)
  case (Cons x xs)
  obtain v q vs' where step: "vs = v # vs'" "next_value regs p sec = Inr ((v, q), sec)"
    "next_values regs q (length xs) sec = Inr ((vs', p'), sec)"
    by (rule next_values_step [OF Cons.prems(1) [unfolded length_Cons]])
  have "next_cells cell_at regs sec xs q (table_on (zs @ [x]) h) c = Inr ((p', table_on ((zs @ [x]) @ xs) h), c)"
    by (rule Cons.IH [OF step(3)]) (use Cons.prems(2) step(1) in simp)
  moreover have "cell_of cell_at v = h x" using Cons.prems(2) step(1) by simp
  ultimately show ?case
    using step(2) by (simp add: sem_simps reading_from_apply table_on_append [symmetric])
qed (simp add: sem_simps)

lemma operand_cells:
  "map Some ws = map csyms xs \<Longrightarrow> map (cell_of cell_at) ws = map (address_of cell_at csyms) xs"
proof (induction xs arbitrary: ws)
  case (Cons x xs)
  then obtain w ws' where "ws = w # ws'" "csyms x = Some w" "map Some ws' = map csyms xs"
    by (cases ws) auto
  then show ?case using Cons.IH by (simp add: address_of_def)
qed simp

lemma four_values:
  assumes "next_values regs p (4 + (a + (b + e))) sec = Inr ((w0 # w1 # w2 # w3 # ws, p'), sec)"
  obtains p1 p2 p3 p4 p5 p6 us vs xs where
    "next_value regs p sec = Inr ((w0, p1), sec)" "next_value regs p1 sec = Inr ((w1, p2), sec)"
    "next_value regs p2 sec = Inr ((w2, p3), sec)" "next_value regs p3 sec = Inr ((w3, p4), sec)"
    "next_values regs p4 a sec = Inr ((us, p5), sec)" "next_values regs p5 b sec = Inr ((vs, p6), sec)"
    "next_values regs p6 e sec = Inr ((xs, p'), sec)" "ws = us @ vs @ xs" "length us = a" "length vs = b"
proof -
  let ?n = "a + (b + e)"
  have "4 + ?n = Suc (Suc (Suc (Suc ?n)))" by simp
  note run = assms [unfolded this]
  obtain v p1 ws1 where 1: "w0 # w1 # w2 # w3 # ws = v # ws1" "next_value regs p sec = Inr ((v, p1), sec)"
    "next_values regs p1 (Suc (Suc (Suc ?n))) sec = Inr ((ws1, p'), sec)"
    by (rule next_values_step [OF run])
  obtain v' p2 ws2 where 2: "ws1 = v' # ws2" "next_value regs p1 sec = Inr ((v', p2), sec)"
    "next_values regs p2 (Suc (Suc ?n)) sec = Inr ((ws2, p'), sec)"
    by (rule next_values_step [OF 1(3)])
  obtain v'' p3 ws3 where 3: "ws2 = v'' # ws3" "next_value regs p2 sec = Inr ((v'', p3), sec)"
    "next_values regs p3 (Suc ?n) sec = Inr ((ws3, p'), sec)"
    by (rule next_values_step [OF 2(3)])
  obtain v3 p4 ws4 where 4: "ws3 = v3 # ws4" "next_value regs p3 sec = Inr ((v3, p4), sec)"
    "next_values regs p4 ?n sec = Inr ((ws4, p'), sec)"
    by (rule next_values_step [OF 3(3)])
  obtain us p5 rest where 5: "ws4 = us @ rest" "length us = a" "next_values regs p4 a sec = Inr ((us, p5), sec)"
    "next_values regs p5 (b + e) sec = Inr ((rest, p'), sec)"
    by (rule next_values_append [OF 4(3)])
  obtain vs p6 xs where 6: "rest = vs @ xs" "length vs = b" "next_values regs p5 b sec = Inr ((vs, p6), sec)"
    "next_values regs p6 e sec = Inr ((xs, p'), sec)"
    by (rule next_values_append [OF 5(4)])
  show thesis
    by (rule that [of p1 p2 p3 p4 us p5 vs p6 xs]) (use 1 2 3 4 5 6 in simp_all)
qed

lemma receiver_table_eq:
  assumes "if is_method (h ''self'') (h ''cmd'')
      then \<exists>ob a k. load_cell (h ''self'') c = Inr (ob, c) \<and> getClassFor ob c = Inr (a, c) \<and>
        class_at a c = Inr (k, c) \<and> ivs = indexedIVarNames k \<and> (\<forall>i < length ivs. h (ivs ! i) = (ob, i))
      else ivs = []"
  shows "receiver_table (h ''self'') (h ''cmd'') c = Inr (table_on ([''self'', ''cmd''] @ ivs) h, c)"
proof -
  have two: "[''self'' \<mapsto> h ''self'', ''cmd'' \<mapsto> h ''cmd''] = table_on [''self'', ''cmd''] h"
    by (auto simp: table_on_def)
  show ?thesis
    using assms add_cells_table [of ivs h _ 0 "[''self'', ''cmd'']"]
    by (auto simp: receiver_table_def Let_def two sem_simps)
qed

section \<open>Rebuilding the frame\<close>

text \<open>
  The section registered for the running function holds one function and one record, which describes
  the operands that the compiler passed to the patchpoint at \<open>n\<close>.  LLVM writes the record;
  \<open>ret\<close> is the number of the register for the result.
\<close>

definition describes_frame ::
  "machine \<Rightarrow> (node \<rightharpoonup> stackmap) \<Rightarrow> 64 word list \<Rightarrow> (string \<rightharpoonup> 64 word) \<Rightarrow> node \<Rightarrow> 64 word \<Rightarrow> ctx \<Rightarrow> bool" where
  "describes_frame m maps regs csyms n ret c \<longleftrightarrow>
     (\<exists>D smp sec fs cs r first ls vs.
        m_decls m (cur_jit_function c) = Some D \<and> maps (cur_jit_function c) = Some (smp, sec) \<and>
        newStackMapParser 0 sec = Inr (smp, sec) \<and> sec = encode_section fs cs [r] \<and>
        length fs = 3 \<and> length cs * 8 < 2 ^ 32 \<and> locations r = first # ls \<and>
        length (locations r) < 2 ^ 16 \<and> ret = ucast (regnum first) \<and>
        list_all2 (\<lambda>l v. location_value regs l = Inr v) ls vs \<and>
        map Some vs = patchpoint_args csyms n D (closure_decls c (cur_jit_function c)))"

text \<open>The cells of the instance variables of the receiver; a closure has none.\<close>

definition receiver_cells :: "(string \<Rightarrow> loc) \<Rightarrow> string list \<Rightarrow> ctx \<Rightarrow> bool" where
  "receiver_cells h ivs c \<longleftrightarrow>
     (if is_method (h ''self'') (h ''cmd'')
      then \<exists>ob a k. load_cell (h ''self'') c = Inr (ob, c) \<and> getClassFor ob c = Inr (a, c) \<and>
        class_at a c = Inr (k, c) \<and> ivs = indexedIVarNames k \<and> (\<forall>i < length ivs. h (ivs ! i) = (ob, i))
      else ivs = [])"

lemma frame_rebuilt:
  assumes "describes_frame m maps regs csyms n ret c" and "receiver_cells h ivs c"
    and "h = address_of cell_at csyms" and "m_decls m (cur_jit_function c) = Some D"
  shows "reconstructInterpreterContext m maps cell_at regs c =
    bind (resume_frame m (table_on (frame_names D (closure_decls c (cur_jit_function c)) ivs) h)
        (h ''self'') (h ''cmd'') n) (\<lambda>v. return (Some ret, v)) c"
proof -
  let ?d = "cur_jit_function c" and ?info = "closure_decls c (cur_jit_function c)"
  obtain smp sec fs cs r first ls vs where f: "maps ?d = Some (smp, sec)"
    "newStackMapParser 0 sec = Inr (smp, sec)" "sec = encode_section fs cs [r]" "length fs = 3"
    "length cs * 8 < 2 ^ 32" "locations r = first # ls" "length (locations r) < 2 ^ 16"
    "ret = ucast (regnum first)" "list_all2 (\<lambda>l v. location_value regs l = Inr v) ls vs"
    "map Some vs = patchpoint_args csyms n D ?info"
    using assms(1,4) unfolding describes_frame_def by auto
  obtain s cm rest where vs: "vs = n # s # cm # rest" "h ''self'' = cell_of cell_at s" "h ''cmd'' = cell_of cell_at cm"
    "map Some rest = map csyms (decl_params D @ di_decls ?info @ di_boundVars ?info)"
    using f(10) by (auto simp: patchpoint_args_def assms(3) address_of_def map_eq_Cons_conv)
  let ?a = "length (decl_params D)" and ?b = "length (di_decls ?info)" and ?e = "length (di_boundVars ?info)"
  have cells: "map (cell_of cell_at) rest = map h (decl_params D @ di_decls ?info @ di_boundVars ?info)"
    unfolding assms(3) by (rule operand_cells [OF vs(4)])
  have "length rest = ?a + (?b + ?e)" using arg_cong [OF vs(4), of length] by simp
  then have len: "Suc (length ls) = 4 + (?a + (?b + ?e))"
    using list_all2_lengthD [OF f(9)] by (simp add: vs(1))
  define p q where "p = 16 + 1 * 24 + length cs * 8" and
    "q = \<lparr>sm_id = patchpoint_id r, sm_offset = instruction_offset r,
      num_locations = word_of_nat (length (locations r)), records_retrieved = 0, position = p + 16\<rparr>"
  have smp: "smp = \<lparr>base = 0, records_base = p\<rparr>" and one: "getNumRecords (base smp) sec = Inr (1, sec)"
    "getNumFunctions (base smp) sec = Inr (1, sec)"
    using section_read [of fs 1 cs "[r]"] f(2-5) by (simp_all add: p_def)
  note sv = section_values [where nf = 1 and rs = "[]", OF _ _ f(5) _ f(6,7,9,3) p_def smp q_def]
  obtain q' where q': "next_values regs q (4 + (?a + (?b + ?e))) sec = Inr ((ret # vs, q'), sec)"
    using sv(6) f(4,8) len by auto
  obtain p1 p2 p3 p4 p5 p6 us ws xs where read:
    "next_value regs q sec = Inr ((ret, p1), sec)" "next_value regs p1 sec = Inr ((n, p2), sec)"
    "next_value regs p2 sec = Inr ((s, p3), sec)" "next_value regs p3 sec = Inr ((cm, p4), sec)"
    "next_values regs p4 ?a sec = Inr ((us, p5), sec)" "next_values regs p5 ?b sec = Inr ((ws, p6), sec)"
    "next_values regs p6 ?e sec = Inr ((xs, q'), sec)" "rest = us @ ws @ xs" "length us = ?a" "length ws = ?b"
    by (rule four_values [OF q' [unfolded vs(1)]])
  have "map (cell_of cell_at) us = map h (decl_params D)" "map (cell_of cell_at) ws = map h (di_decls ?info)"
    "map (cell_of cell_at) xs = map h (di_boundVars ?info)"
    using cells read(8-10) by auto
  note tables = next_cells_table [OF read(5) this(1)] next_cells_table [OF read(6) this(2)]
    next_cells_table [OF read(7) this(3)]
  have rec: "getNthRecord smp 0 sec = Inr (p, sec)" "newSMRecordParser p sec = Inr (q, sec)"
    using sv(2,4) f(4) by auto
  show ?thesis
    unfolding reconstructInterpreterContext_def getStackMap_def the_decl_def
    using one rec read(1-7)
    by (simp add: sem_simps reading_from_apply f(1) assms(4) vs(2,3) [symmetric]
      receiver_table_eq [OF assms(2) [unfolded receiver_cells_def]] tables frame_names_def)
qed


section \<open>Properties\<close>

text \<open>
  C17. Frames survive the way through the stack map: if the record that LLVM emits for a patchpoint
  describes the operands that the compiler passed, then \<open>reconstructInterpreterContext\<close> resumes at
  the recorded node in a symbol table in which every name of the function, instance variables
  included, has the storage it had in the compiled code.
\<close>

theorem frame_reconstructed:
  assumes "describes_frame m maps regs csyms n ret c" and "receiver_cells h ivs c"
    and "h = address_of cell_at csyms" and "m_decls m (cur_jit_function c) = Some D"
  shows "reconstructInterpreterContext m maps cell_at regs c =
    bind (resume_frame m (table_on (frame_names D (closure_decls c (cur_jit_function c)) ivs) h)
        (h ''self'') (h ''cmd'') n) (\<lambda>v. return (Some ret, v)) c"
  by (rule frame_rebuilt [OF assms])

text \<open>Resuming in the frame of the function completes the run of its body.\<close>

lemma frame_resumed:
  assumes "m = machine_at P (Suc k)" and "jit_blind P" and "jit_in call_balanced P"
    and "p_decls P (cur_jit_function c) = Some D" and "D = ClosureDecl (cur_jit_function c) nm ps body"
    and "c1 = c\<lparr>symbols := T # symbols c\<rparr>" and "resumable_all n body" and "\<not> astNodeFound c"
    and "\<forall>j \<in> set (resume_spine_all n body). object (cache c j) = 0"
    and "search_all m n body c1 = Inr ((), c1)" and "reach m n body c0 c1"
    and "interpret_stmts m body c0 = Inr ((), e)"
    and "\<not> recompile (closure_decls e (cur_jit_function e))"
  shows "resume_frame m T self cmd n c =
    Inr (object (retVal e), e\<lparr>isReturning := False, symbols := symbols c\<rparr>)"
proof -
  have rest: "interpret_stmts m (residual_all n body) c1 = Inr ((), e)"
    by (rule residual_completes [OF assms(11,12)])
  have "within balanced (interpret_stmts m (residual_all n body))"
    using returns.run_within [OF assms(3) HOL.refl] by (simp add: run_program_def assms(1))
  from withinD [OF this rest] have stack: "symbols e = T # symbols c"
    using assms(6) by (simp add: balanced_def)
  have "resumes P c1 body" using assms(4-6) by (simp add: resumes_def)
  from resume_runs_residual [OF assms(2) this assms(7)] assms(8-10) rest reach_running [OF assms(11)]
  have "resumeInInterpreter m n c1 = Inr (object (retVal e), e\<lparr>isReturning := False\<rparr>)"
    by (simp add: assms(1,6))
  then show ?thesis
    using assms(13) stack by (simp add: resume_frame_def sem_simps assms(6))
qed


section \<open>Leaving the call of \<open>print\<close>\<close>

text \<open>
  The record of the patchpoint for the call of \<open>print\<close> in the closure of \<open>printing_body\<close>: the result is
  returned in register 3, \<open>self\<close> and \<open>cmd\<close> are null and \<open>x\<close> lies in the stack frame.
\<close>

definition printing_record :: stackmap_record where
  "printing_record = \<lparr>patchpoint_id = 1, instruction_offset = 40,
     locations = [\<lparr>loc_type = 1, loc_size = 8, regnum = 3, loc_offset = 0\<rparr>,
       \<lparr>loc_type = 4, loc_size = 8, regnum = 0, loc_offset = 0x5020\<rparr>,
       \<lparr>loc_type = 4, loc_size = 8, regnum = 0, loc_offset = 0\<rparr>,
       \<lparr>loc_type = 4, loc_size = 8, regnum = 0, loc_offset = 0\<rparr>,
       \<lparr>loc_type = 2, loc_size = 8, regnum = 6, loc_offset = - 16\<rparr>],
     live_outs = []\<rparr>"

definition printing_section :: bytes where
  "printing_section = encode_section [0x1000, 64, 1] [] [printing_record]"

definition printing_maps :: "node \<rightharpoonup> stackmap" where
  "printing_maps = [0x5000 \<mapsto> (\<lparr>base = 0, records_base = 40\<rparr>, printing_section)]"

definition compiled_context :: ctx where
  "compiled_context = resumed_context\<lparr>symbols := []\<rparr>"

lemma describes_frameI:
  assumes "maps (cur_jit_function c) = Some (\<lparr>base = 0, records_base = 40\<rparr>, encode_section [f, k, i] [] [r])"
    and "m_decls m (cur_jit_function c) = Some D" and "locations r = first # ls" and "length (locations r) < 2 ^ 16"
    and "list_all2 (\<lambda>l v. location_value regs l = Inr v) ls vs"
    and "map Some vs = patchpoint_args csyms n D (closure_decls c (cur_jit_function c))" and "ret = ucast (regnum first)"
  shows "describes_frame m maps regs csyms n ret c"
proof -
  have "newStackMapParser 0 (encode_section [f, k, i] [] [r]) =
      Inr (\<lparr>base = 0, records_base = 40\<rparr>, encode_section [f, k, i] [] [r])"
    using section_read(1) [of "[f, k, i]" 1 "[]" "[r]"] by simp
  moreover have "length [f, k, i] = 3" "length ([] :: 64 word list) * 8 < 2 ^ 32" by simp_all
  ultimately show ?thesis unfolding describes_frame_def using assms by blast
qed

lemma printing_frame:
  "describes_frame (machine_at (resumed_program printing_body) (Suc k)) printing_maps sample_registers
     [''x'' \<mapsto> 0x75F0] 0x5020 3 compiled_context"
proof (rule describes_frameI [where first = "hd (locations printing_record)"])
  have d: "cur_jit_function compiled_context = 0x5000" "closure_decls compiled_context 0x5000 = fresh_decl"
    by (simp_all add: compiled_context_def resumed_context_def initial_context_def)
  show "printing_maps (cur_jit_function compiled_context) =
      Some (\<lparr>base = 0, records_base = 40\<rparr>, encode_section [0x1000, 64, 1] [] [printing_record])"
    by (simp add: d printing_maps_def printing_section_def)
  show "m_decls (machine_at (resumed_program printing_body) (Suc k)) (cur_jit_function compiled_context) =
      Some (ClosureDecl 0x5000 ''f'' [''x''] printing_body)"
    by (simp add: d resumed_program_def)
  show "list_all2 (\<lambda>l v. location_value sample_registers l = Inr v) (tl (locations printing_record))
      [0x5020, 0, 0, 0x75F0]"
    by code_simp
  show "map Some [0x5020, 0, 0, 0x75F0] = patchpoint_args [''x'' \<mapsto> 0x75F0] 0x5020
      (ClosureDecl 0x5000 ''f'' [''x''] printing_body) (closure_decls compiled_context (cur_jit_function compiled_context))"
    by (simp add: d patchpoint_args_def fresh_decl_def)
qed (simp_all add: printing_record_def)

definition printing_cells :: "string \<Rightarrow> loc" where
  "printing_cells = address_of (\<lambda>a. (0x1000, 0)) [''x'' \<mapsto> 0x75F0]"

lemma printing_table:
  "receiver_cells printing_cells [] compiled_context"
  "table_on (frame_names (ClosureDecl 0x5000 ''f'' [''x''] printing_body) (closure_decls compiled_context 0x5000) [])
     printing_cells = [''self'' \<mapsto> null_loc, ''cmd'' \<mapsto> null_loc, ''x'' \<mapsto> (0x1000, 0)]"
  by (auto simp: receiver_cells_def printing_cells_def address_of_def cell_of_def is_method_def table_on_def
      frame_names_def compiled_context_def resumed_context_def initial_context_def fresh_decl_def)

lemma frame_reconstructed_witness:
  "reconstructInterpreterContext (machine_at (resumed_program printing_body) 1) printing_maps
     (\<lambda>a. (0x1000, 0)) sample_registers compiled_context =
   bind (resume_frame (machine_at (resumed_program printing_body) 1)
       [''self'' \<mapsto> null_loc, ''cmd'' \<mapsto> null_loc, ''x'' \<mapsto> (0x1000, 0)] null_loc null_loc 0x5020)
     (\<lambda>v. return (Some 3, v)) compiled_context"
proof -
  have self: "printing_cells ''self'' = null_loc" "printing_cells ''cmd'' = null_loc"
    by (simp_all add: printing_cells_def address_of_def cell_of_def)
  have "cur_jit_function compiled_context = 0x5000"
    by (simp add: compiled_context_def resumed_context_def)
  then show ?thesis
    using frame_reconstructed [OF printing_frame [of 0] printing_table(1) printing_cells_def]
      printing_table(2) self by (simp add: resumed_program_def)
qed


end
