(* ===== verification/Generated_Code.thy ===== *)
theory Generated_Code
  imports Reconstruct
begin

text \<open>
  The functions that the compiler hands to LLVM: basic blocks of the instructions that
  \<open>compiler.cc\<close> creates through \<open>IRBuilder\<close>, and what running them does, one instruction at a time.
  LLVM itself is not part of the sources; an instruction has the meaning that its language
  reference documents, for the operands this compiler gives it.
\<close>

section \<open>Instructions\<close>

text \<open>What a pointer points to that generated code reads or writes through.\<close>

datatype place =
    Cell loc                         \<comment> \<open>storage of a variable\<close>
  | CurJitFunction                   \<comment> \<open>\<open>&MysoreScript::cur_jit_function\<close>\<close>
  | AlternativeCount node            \<comment> \<open>\<open>&alternative_type_count\<close> of a call\<close>
  | MethodFunction method_ptr        \<comment> \<open>\<open>cachedMethod\<close>\<close>
  | ClosureField addr nat            \<comment> \<open>a field of a \<open>Closure\<close> before its bound variables\<close>
  | IsaField obj                     \<comment> \<open>\<open>&obj->isa\<close>\<close>

text \<open>Run-time values: words, pointers, single bits and function pointers.\<close>

datatype rvalue =
    Word "64 word"
  | Ptr place
  | Bit bool
  | Fn "code option"

text \<open>
  \<open>llvm::Value*\<close>: constants, with \<open>staticAddress\<close> of a place among them, the arguments of the
  function and the results of instructions.
\<close>

type_synonym ident = nat
type_synonym label = nat

datatype operand =
    Const rvalue
  | Argument nat
  | Result ident

datatype alu = AndOp | OrOp | ShlOp | LShrOp

datatype instr =
    Alloca
  | Load operand
  | Store operand operand                      \<comment> \<open>value, address\<close>
  | Alu alu operand operand
  | ICmp binop operand operand
  | IsNotNull operand
  | ZExt operand
  | Cast operand                               \<comment> \<open>\<open>bitcast\<close>, \<open>inttoptr\<close>, \<open>ptrtoint\<close>\<close>
  | FieldPtr operand nat                       \<comment> \<open>field of a closure\<close>
  | ArrayPtr operand                           \<comment> \<open>the instance or bound variables of an object\<close>
  | ElementPtr operand nat
  | IsaPtr operand
  | MallocClosure nat                          \<comment> \<open>\<open>GC_malloc\<close> for a closure with so many bound variables\<close>
  | CallNewObject operand
  | CallHelper binop operand operand           \<comment> \<open>\<open>mysoreScriptAdd\<close> and its siblings\<close>
  | CallMethod operand "operand list"
  | CallClosure operand "operand list"
  | Patchpoint "operand list"                  \<comment> \<open>the operands after the number of arguments\<close>

datatype terminator =
    Br label
  | CondBr operand label label
  | Ret operand

record basic_block =
  instrs :: "(ident \<times> instr) list"
  terminator :: "terminator option"

definition empty_block :: basic_block where
  "empty_block = \<lparr>instrs = [], terminator = None\<rparr>"

type_synonym ir = "basic_block list"

section \<open>Operands\<close>

type_synonym registers = "ident \<rightharpoonup> rvalue"

record activation =
  arguments :: "rvalue list"
  registers :: registers

text \<open>An argument that the caller did not pass is read from a register that nobody set.\<close>

fun operand_value :: "activation \<Rightarrow> operand \<Rightarrow> fault + rvalue" where
  "operand_value r (Const v) = Inr v"
| "operand_value r (Argument i) =
     (if i < length (arguments r) then Inr (arguments r ! i) else Inl MissingArgument)"
| "operand_value r (Result i) = (case registers r i of Some v \<Rightarrow> Inr v | None \<Rightarrow> Inl Unreachable)"

fun as_word :: "rvalue \<Rightarrow> fault + 64 word" where
  "as_word (Word w) = Inr w"
| "as_word _ = Inl BadPointer"

fun as_place :: "rvalue \<Rightarrow> fault + place" where
  "as_place (Ptr p) = Inr p"
| "as_place (Word w) = Inl (if w = 0 then NullDeref else BadPointer)"
| "as_place _ = Inl BadPointer"

definition word_operand :: "activation \<Rightarrow> operand \<Rightarrow> 64 word run" where
  "word_operand r v = bind (lift (operand_value r v)) (\<lambda>x. lift (as_word x))"

definition place_operand :: "activation \<Rightarrow> operand \<Rightarrow> place run" where
  "place_operand r v = bind (lift (operand_value r v)) (\<lambda>x. lift (as_place x))"

fun word_operands :: "activation \<Rightarrow> operand list \<Rightarrow> 64 word list run" where
  "word_operands r [] = return []"
| "word_operands r (v # vs) =
     bind (word_operand r v) (\<lambda>w. bind (word_operands r vs) (\<lambda>ws. return (w # ws)))"

fun operand_values :: "activation \<Rightarrow> operand list \<Rightarrow> rvalue list run" where
  "operand_values r [] = return []"
| "operand_values r (v # vs) =
     bind (lift (operand_value r v)) (\<lambda>x. bind (operand_values r vs) (\<lambda>xs. return (x # xs)))"

section \<open>Memory\<close>

fun read_place :: "place \<Rightarrow> rvalue run" where
  "read_place (Cell p) = bind (load p) (\<lambda>v. return (Word v))"
| "read_place CurJitFunction = bind (gets cur_jit_function) (\<lambda>d. return (Word d))"
| "read_place (AlternativeCount n) =
     bind (gets (\<lambda>c. alternative_type_count (call_sites c n))) (\<lambda>v. return (Word v))"
| "read_place (MethodFunction mp) = bind (load_method_ptr mp) (\<lambda>f. return (Fn f))"
| "read_place (ClosureField a k) = bind (closure_at a) (\<lambda>cl.
     if k = 0 then return (Word ClosureClass)
     else if k = 1 then return (Word (parameters cl))
     else if k = 2 then return (Fn (invoke cl))
     else if k = 3 then return (Word (cl_AST cl))
     else fail OutOfBounds)"
| "read_place (IsaField a) = bind (isa a) (\<lambda>c. return (Word c))"

fun write_closure :: "addr \<Rightarrow> closure \<Rightarrow> nat \<Rightarrow> rvalue \<Rightarrow> unit run" where
  "write_closure a cl k (Word w) =
     (if k = 0 then (if w = ClosureClass then return () else fail BadPointer)
      else if k = 1 then set_block a (CloBlock (cl\<lparr>parameters := w\<rparr>))
      else if k = 3 then set_block a (CloBlock (cl\<lparr>cl_AST := w\<rparr>))
      else fail BadPointer)"
| "write_closure a cl k (Fn f) =
     (if k = 2 then set_block a (CloBlock (cl\<lparr>invoke := f\<rparr>)) else fail BadPointer)"
| "write_closure a cl k _ = fail BadPointer"

text \<open>
  The compiler stores null to \<open>alternative_type_count\<close> as an object pointer: a word of zero.
\<close>

fun write_place :: "place \<Rightarrow> rvalue \<Rightarrow> unit run" where
  "write_place (Cell p) v = bind (lift (as_word v)) (store p)"
| "write_place CurJitFunction v = bind (lift (as_word v)) set_jit"
| "write_place (AlternativeCount n) v = bind (lift (as_word v)) (\<lambda>w.
     bind (gets (\<lambda>c. call_sites c n)) (\<lambda>st. set_site n (st\<lparr>alternative_type_count := w\<rparr>)))"
| "write_place (ClosureField a k) v = bind (closure_at a) (\<lambda>cl. write_closure a cl k v)"
| "write_place _ v = fail BadPointer"

section \<open>Leaving the function\<close>

text \<open>
  The call of the register-saving trampoline that a patchpoint makes, and with it
  \<open>reconstructInterpreterContext\<close>.  \<open>m_records\<close> is the number of records in the stack map that is
  registered for the running function; unless it is 1, the function gives up and returns null (in the
  register that an earlier stack map named, which is taken to be the right one).  Otherwise
  the interpreter gets the frame from the one record.  \<open>Reconstruct\<close> shows that this yields the operands
  of the patchpoint, which is how they come here: the node, \<open>self\<close>, \<open>cmd\<close>, and the storage of the
  parameters, the locals and the bound variables.  \<open>leave_is_reconstruction\<close> of \<open>Leaving\<close> proves that
  \<open>leave\<close> is then \<open>reconstructInterpreterContext\<close> itself.
\<close>

fun place_cell :: "rvalue \<Rightarrow> loc run" where
  "place_cell (Ptr (Cell p)) = return p"
| "place_cell (Word w) = (if w = 0 then return null_loc else fail BadPointer)"
| "place_cell _ = fail BadPointer"

fun bind_cells :: "string list \<Rightarrow> rvalue list \<Rightarrow> symbol_table \<Rightarrow> symbol_table run" where
  "bind_cells [] vs tab = return tab"
| "bind_cells (x # xs) (v # vs) tab =
     bind (place_cell v) (\<lambda>p. bind_cells xs vs (tab(x \<mapsto> p)))"
| "bind_cells (x # xs) [] tab = fail OutOfBounds"

definition leave :: "machine \<Rightarrow> rvalue list \<Rightarrow> obj run" where
  "leave m vals =
     bind (gets cur_jit_function) (\<lambda>d. case m_records m d of
       None \<Rightarrow> fail NullDeref
     | Some num_records \<Rightarrow>
         if num_records \<noteq> 1
         then seq (emit (Diagnostic ''More than 1 record in this stackmap! UNIMPLIMENTED.'')) (return 0)
         else (case vals of
           Word n # self # cmd # rest \<Rightarrow>
             bind (the_decl m d) (\<lambda>D.
             bind (decl_at d) (\<lambda>info.
             bind (place_cell self) (\<lambda>self.
             bind (place_cell cmd) (\<lambda>cmd.
             bind (receiver_table self cmd) (\<lambda>tab.
             bind (bind_cells (decl_params D @ di_decls info @ di_boundVars info) rest tab) (\<lambda>tab.
             resume_frame m tab self cmd n))))))
         | _ \<Rightarrow> fail BadPointer))"

text \<open>LLVM writes one record for every patchpoint of a function.\<close>

fun is_patchpoint :: "instr \<Rightarrow> bool" where
  "is_patchpoint (Patchpoint vs) \<longleftrightarrow> True"
| "is_patchpoint _ \<longleftrightarrow> False"

definition patchpoints :: "ir \<Rightarrow> nat" where
  "patchpoints f = length (filter is_patchpoint (concat (map (\<lambda>b. map snd (instrs b)) f)))"

section \<open>Running\<close>

fun alu_value :: "alu \<Rightarrow> 64 word \<Rightarrow> 64 word \<Rightarrow> 64 word" where
  "alu_value AndOp a b = a AND b"
| "alu_value OrOp a b = a OR b"
| "alu_value ShlOp a b = push_bit (unat b) a"
| "alu_value LShrOp a b = drop_bit (unat b) a"

definition enter :: "(code \<Rightarrow> 'a run) \<Rightarrow> rvalue \<Rightarrow> 'a run" where
  "enter call f = (case f of
       Fn (Some k) \<Rightarrow> call k | Fn None \<Rightarrow> fail NullDeref | _ \<Rightarrow> fail BadPointer)"

definition word_result :: "64 word run \<Rightarrow> rvalue run" where
  "word_result r = bind r (\<lambda>w. return (Word w))"

fun execute_instr :: "machine \<Rightarrow> activation \<Rightarrow> instr \<Rightarrow> rvalue run" where
  "execute_instr m r Alloca =
     bind (alloc (m_env m) (CellBlock [0])) (\<lambda>a. return (Ptr (Cell (a, 0))))"
| "execute_instr m r (Load p) = bind (place_operand r p) read_place"
| "execute_instr m r (Store v p) =
     bind (place_operand r p) (\<lambda>q. bind (lift (operand_value r v)) (\<lambda>x.
     seq (write_place q x) (return x)))"
| "execute_instr m r (Alu f a b) =
     bind (word_operand r a) (\<lambda>x. bind (word_operand r b) (\<lambda>y. return (Word (alu_value f x y))))"
| "execute_instr m r (ICmp op a b) =
     bind (word_operand r a) (\<lambda>x. bind (word_operand r b) (\<lambda>y. return (Bit (icmp op x y))))"
| "execute_instr m r (IsNotNull a) = bind (word_operand r a) (\<lambda>x. return (Bit (x \<noteq> 0)))"
| "execute_instr m r (ZExt a) = bind (lift (operand_value r a)) (\<lambda>x. case x of
     Bit b \<Rightarrow> return (Word (of_bool b)) | Word w \<Rightarrow> return (Word w) | _ \<Rightarrow> fail BadPointer)"
| "execute_instr m r (Cast a) = lift (operand_value r a)"
| "execute_instr m r (FieldPtr a k) = bind (word_operand r a) (\<lambda>x. return (Ptr (ClosureField x k)))"
| "execute_instr m r (ArrayPtr a) = bind (word_operand r a) (\<lambda>x. return (Ptr (Cell (x, 0))))"
| "execute_instr m r (ElementPtr a i) = bind (place_operand r a) (\<lambda>q. case q of
     Cell p \<Rightarrow> return (Ptr (Cell (fst p, snd p + i))) | _ \<Rightarrow> fail BadPointer)"
| "execute_instr m r (IsaPtr a) = bind (word_operand r a) (\<lambda>x. return (Ptr (IsaField x)))"
| "execute_instr m r (MallocClosure n) =
     word_result (alloc (m_env m) (CloBlock \<lparr>parameters = 0, invoke = None, cl_AST = 0,
       boundVars = replicate (e_slots (m_env m) n) 0\<rparr>))"
| "execute_instr m r (CallNewObject c) =
     word_result (bind (word_operand r c) (newObject (m_env m)))"
| "execute_instr m r (CallHelper op a b) =
     word_result (bind (word_operand r a) (\<lambda>x. bind (word_operand r b) (mysoreScriptOp m op x)))"
| "execute_instr m r (CallMethod f as) =
     word_result (bind (lift (operand_value r f)) (\<lambda>x. bind (word_operands r as) (\<lambda>ws. case ws of
       self # sel # vs \<Rightarrow> enter (\<lambda>k. m_method m k self (ucast sel) vs) x | _ \<Rightarrow> fail MissingArgument)))"
| "execute_instr m r (CallClosure f as) =
     word_result (bind (lift (operand_value r f)) (\<lambda>x. bind (word_operands r as) (\<lambda>ws. case ws of
       self # vs \<Rightarrow> enter (\<lambda>k. m_closure m k self vs) x | _ \<Rightarrow> fail MissingArgument)))"
| "execute_instr m r (Patchpoint as) =
     word_result (bind (operand_values r as) (leave m))"

text \<open>
  A configuration is a point in a block of the function, or the value that the function has
  returned.  A conditional branch on a word, which LLVM's rules do not allow, tests its low bit.
\<close>

datatype config =
    At label nat activation
  | Returned obj

fun branch_on :: "rvalue \<Rightarrow> fault + bool" where
  "branch_on (Bit b) = Inr b"
| "branch_on (Word w) = Inr (bit w 0)"
| "branch_on _ = Inl BadPointer"

definition define_result :: "ident \<Rightarrow> rvalue \<Rightarrow> activation \<Rightarrow> activation" where
  "define_result i v r = r\<lparr>registers := (registers r)(i \<mapsto> v)\<rparr>"

fun take_terminator :: "activation \<Rightarrow> terminator option \<Rightarrow> config run" where
  "take_terminator r None = fail Unreachable"
| "take_terminator r (Some (Br b)) = return (At b 0 r)"
| "take_terminator r (Some (CondBr v b1 b2)) =
     bind (lift (operand_value r v)) (\<lambda>x. bind (lift (branch_on x)) (\<lambda>t.
     return (At (if t then b1 else b2) 0 r)))"
| "take_terminator r (Some (Ret v)) = bind (word_operand r v) (\<lambda>w. return (Returned w))"

definition step :: "machine \<Rightarrow> ir \<Rightarrow> label \<Rightarrow> nat \<Rightarrow> activation \<Rightarrow> config run" where
  "step m f b i r =
     (if length f \<le> b then fail Unreachable
      else if i < length (instrs (f ! b))
      then case instrs (f ! b) ! i of (k, ins) \<Rightarrow>
        bind (execute_instr m r ins) (\<lambda>v. return (At b (Suc i) (define_result k v r)))
      else take_terminator r (terminator (f ! b)))"

text \<open>The fuel bounds the number of steps.\<close>

fun execute :: "nat \<Rightarrow> machine \<Rightarrow> ir \<Rightarrow> config \<Rightarrow> obj run" where
  "execute k m f (Returned v) = return v"
| "execute 0 m f (At b i r) = fail Timeout"
| "execute (Suc k) m f (At b i r) = bind (step m f b i r) (execute k m f)"

text \<open>The entry block is the first one.\<close>

definition run_function :: "nat \<Rightarrow> machine \<Rightarrow> ir \<Rightarrow> rvalue list \<Rightarrow> obj run" where
  "run_function k m f vs = execute k m f (At 0 0 \<lparr>arguments = vs, registers = Map.empty\<rparr>)"

end
