(* ===== verification/Compile.thy ===== *)
theory Compile
  imports Generated_Code
begin

text \<open>
  The compiler (\<open>compiler.cc\<close>): a walk over the syntax tree that creates instructions at the insert
  point of the builder.  Everything the walk decides with run-time state at hand, the assumed class
  and the cached method of a call, the selectors, the cached strings, becomes a constant of the code.
\<close>

section \<open>The builder\<close>

text \<open>
  \<open>Compiler::Context\<close>: the blocks of the function, the insert point of the \<open>IRBuilder\<close>, the numbering
  of its values, the symbols, \<open>currentlyCompiling\<close> and the state of the program, which compiling
  reads and changes.
\<close>

record builder =
  function_blocks :: ir
  insert_point :: "label option"
  next_ident :: ident
  csymbols :: "string \<rightharpoonup> operand"
  compiling :: cdecl
  rt :: ctx

type_synonym 'a build = "('a, builder) sem"

definition on_runtime :: "'a run \<Rightarrow> 'a build" where
  "on_runtime r = (\<lambda>B. case r (rt B) of Inl e \<Rightarrow> Inl e | Inr (a, c) \<Rightarrow> Inr (a, B\<lparr>rt := c\<rparr>))"

text \<open>
  Without an insert point the builder creates an instruction that is in no block.  A block that has
  its terminator takes no more instructions.
\<close>

definition append_instr :: "label \<Rightarrow> ident \<times> instr \<Rightarrow> unit build" where
  "append_instr b k = bind (gets function_blocks) (\<lambda>f.
     if length f \<le> b \<or> terminator (f ! b) \<noteq> None then fail AssertFailed
     else modify (\<lambda>B. B\<lparr>function_blocks := f[b := (f ! b)\<lparr>instrs := instrs (f ! b) @ [k]\<rparr>]\<rparr>))"

definition create :: "instr \<Rightarrow> operand build" where
  "create ins = bind (gets next_ident) (\<lambda>i.
     bind (gets insert_point) (\<lambda>p.
     seq (case p of None \<Rightarrow> return () | Some b \<Rightarrow> append_instr b (i, ins))
     (seq (modify (\<lambda>B. B\<lparr>next_ident := Suc i\<rparr>)) (return (Result i)))))"

definition create_terminator :: "terminator \<Rightarrow> unit build" where
  "create_terminator t = bind (gets insert_point) (\<lambda>p. case p of
       None \<Rightarrow> return ()
     | Some b \<Rightarrow> bind (gets function_blocks) (\<lambda>f.
         if length f \<le> b \<or> terminator (f ! b) \<noteq> None then fail AssertFailed
         else modify (\<lambda>B. B\<lparr>function_blocks := f[b := (f ! b)\<lparr>terminator := Some t\<rparr>]\<rparr>)))"

definition create_block :: "label build" where
  "create_block = bind (gets function_blocks) (\<lambda>f.
     seq (modify (\<lambda>B. B\<lparr>function_blocks := f @ [empty_block]\<rparr>)) (return (length f)))"

definition SetInsertPoint :: "label \<Rightarrow> unit build" where
  "SetInsertPoint b = modify (\<lambda>B. B\<lparr>insert_point := Some b\<rparr>)"

definition ClearInsertionPoint :: "unit build" where
  "ClearInsertionPoint = modify (\<lambda>B. B\<lparr>insert_point := None\<rparr>)"

definition set_csymbol :: "string \<Rightarrow> operand \<Rightarrow> unit build" where
  "set_csymbol x v = modify (\<lambda>B. B\<lparr>csymbols := (csymbols B)(x \<mapsto> v)\<rparr>)"

text \<open>\<open>c.symbols[x]\<close> where the result is used: a null \<open>Value*\<close> is dereferenced by LLVM.\<close>

definition the_symbol :: "string \<Rightarrow> operand build" where
  "the_symbol x = bind (gets (\<lambda>B. csymbols B x)) (\<lambda>v. case v of
       Some v \<Rightarrow> return v | None \<Rightarrow> fail NullDeref)"

definition lookupSymbolAddr :: "string \<Rightarrow> operand build" where
  "lookupSymbolAddr x = bind (gets (\<lambda>B. csymbols B x)) (\<lambda>v. case v of
       Some v \<Rightarrow> return v
     | None \<Rightarrow> bind (gets (\<lambda>B. globalSymbols (rt B) x)) (\<lambda>g. case g of
         Some p \<Rightarrow> if p = null_loc then fail Unreachable else return (Const (Ptr (Cell p)))
       | None \<Rightarrow> fail Unreachable))"

section \<open>Helpers\<close>

definition getAsObject :: "operand \<Rightarrow> operand build" where
  "getAsObject v = create (Cast v)"

definition getAsSmallInt :: "operand \<Rightarrow> operand build" where
  "getAsSmallInt v = create (Cast v)"

definition small_int_of :: "operand \<Rightarrow> operand build" where
  "small_int_of v = bind (create (Alu ShlOp v (Const (Word 3)))) (\<lambda>i. create (Alu OrOp i (Const (Word 1))))"

definition reset_jit_function :: "unit build" where
  "reset_jit_function = bind (gets compiling) (\<lambda>D.
     bind (create (Store (Const (Word (decl_node D))) (Const (Ptr CurJitFunction)))) (\<lambda>_. return ()))"

definition create_store :: "operand \<Rightarrow> operand \<Rightarrow> unit build" where
  "create_store v p = bind (create (Store v p)) (\<lambda>_. return ())"

section \<open>Operators\<close>

definition compile_compare :: "binop \<Rightarrow> operand \<Rightarrow> operand \<Rightarrow> operand build" where
  "compile_compare op LHS RHS =
     bind (getAsSmallInt LHS) (\<lambda>l. bind (getAsSmallInt RHS) (\<lambda>r.
     bind (create (ICmp op l r)) (\<lambda>cmp. bind (create (ZExt cmp)) small_int_of)))"

definition compileBinaryOp :: "binop \<Rightarrow> operand \<Rightarrow> operand \<Rightarrow> operand build" where
  "compileBinaryOp op LHS RHS =
     bind (getAsObject LHS) (\<lambda>l. bind (getAsObject RHS) (\<lambda>r. create (CallHelper op l r)))"

definition compileBinOp :: "binop \<Rightarrow> operand \<Rightarrow> operand \<Rightarrow> operand build" where
  "compileBinOp op LHS RHS =
     (if isComparison op then compile_compare op LHS RHS else compileBinaryOp op LHS RHS)"

section \<open>Leaves\<close>

definition cached_string :: "env \<Rightarrow> node \<Rightarrow> string \<Rightarrow> obj run" where
  "cached_string E n st =
     bind (gets (\<lambda>c. object (cache c n))) (\<lambda>hit.
     seq (if hit \<noteq> 0 then return () else bind (eval_string E st) (set_cache E n))
     (gets (\<lambda>c. object (cache c n))))"

definition compile_string :: "env \<Rightarrow> node \<Rightarrow> string \<Rightarrow> operand build" where
  "compile_string E n st = bind (on_runtime (cached_string E n st)) (\<lambda>v. return (Const (Word v)))"

definition compile_new :: "string \<Rightarrow> operand build" where
  "compile_new cname = bind (on_runtime (lookupClass cname)) (\<lambda>cls. create (CallNewObject (Const (Word cls))))"

section \<open>Closures\<close>

fun copy_captured :: "string list \<Rightarrow> operand \<Rightarrow> nat \<Rightarrow> unit build" where
  "copy_captured [] arr i = return ()"
| "copy_captured (x # xs) arr i =
     bind (lookupSymbolAddr x) (\<lambda>a. bind (create (Load a)) (\<lambda>v.
     bind (create (ElementPtr arr i)) (\<lambda>p.
     seq (create_store v p) (copy_captured xs arr (Suc i)))))"

definition compile_closure :: "cdecl \<Rightarrow> operand build" where
  "compile_closure D =
     seq (on_runtime (check_decl D))
     (bind (on_runtime (decl_at (decl_node D))) (\<lambda>info.
     let n = length (decl_params D); bound = di_boundVars info in
     bind (create (MallocClosure (length bound))) (\<lambda>clo.
     bind (create (FieldPtr clo 0)) (\<lambda>p.
     seq (create_store (Const (Word ClosureClass)) p)
     (bind (getAsObject (Const (Word (literalObject (word_of_nat n))))) (\<lambda>k.
     bind (create (FieldPtr clo 1)) (\<lambda>p.
     seq (create_store k p)
     (bind (case compiledClosure info of Some f \<Rightarrow> return f | None \<Rightarrow> on_runtime (closureTrampolines n)) (\<lambda>f.
     bind (create (Cast (Const (Fn (Some f))))) (\<lambda>f.
     bind (create (FieldPtr clo 2)) (\<lambda>p.
     seq (create_store f p)
     (bind (create (FieldPtr clo 3)) (\<lambda>p.
     seq (create_store (Const (Word (decl_node D))) p)
     (seq (if bound = [] then return ()
           else bind (create (ArrayPtr clo)) (\<lambda>arr. copy_captured bound arr 0))
     (bind (getAsObject clo) (\<lambda>ob.
     bind (the_symbol (decl_name D)) (\<lambda>a.
     seq (create_store ob a) (return clo))))))))))))))))))"

section \<open>Calls\<close>

definition compile_closure_call :: "operand \<Rightarrow> operand list \<Rightarrow> operand build" where
  "compile_closure_call ob as =
     bind (create (Cast ob)) (\<lambda>clo.
     bind (create (FieldPtr clo 2)) (\<lambda>p.
     bind (create (Load p)) (\<lambda>f.
     bind (create (CallClosure f (clo # as))) (\<lambda>res.
     seq reset_jit_function (return res)))))"

text \<open>The test of the receiver's class, with the branch to the call or to the slow path.\<close>

definition compile_guard :: "addr \<Rightarrow> operand \<Rightarrow> label \<Rightarrow> label \<Rightarrow> unit build" where
  "compile_guard assumed ob cache_hit cache_miss =
     (if assumed = SmallIntClass
      then bind (create (Cast ob)) (\<lambda>objAsInt.
           bind (create (Alu AndOp objAsInt (Const (Word 7)))) (\<lambda>isInt.
           create_terminator (CondBr isInt cache_hit cache_miss)))
      else bind (create (IsaPtr ob)) (\<lambda>cls_addr.
           bind (create (Load cls_addr)) (\<lambda>c.
           bind (create (ICmp CmpEq (Const (Word assumed)) c)) (\<lambda>same.
           create_terminator (CondBr same cache_hit cache_miss)))))"

fun the_operands :: "operand option list \<Rightarrow> operand list build" where
  "the_operands [] = return []"
| "the_operands (v # vs) = (case v of
     None \<Rightarrow> fail NullDeref
   | Some v \<Rightarrow> bind (the_operands vs) (\<lambda>vs. return (v # vs)))"

text \<open>The operands of the patchpoint of a call at node \<open>n\<close>; \<open>self\<close> and \<open>cmd\<close> may be missing.\<close>

definition patchpoint_operands :: "node \<Rightarrow> operand list build" where
  "patchpoint_operands n =
     bind (gets csymbols) (\<lambda>syms. bind (gets compiling) (\<lambda>D.
     bind (on_runtime (decl_at (decl_node D))) (\<lambda>info.
     let or_null = (\<lambda>x. Some (case syms x of Some v \<Rightarrow> v | None \<Rightarrow> Const (Word 0))) in
     the_operands ([Some (Const (Word n)), or_null ''self'', or_null ''cmd''] @
       map syms (decl_params D) @ map syms (di_decls info) @ map syms (di_boundVars info)))))"

definition method_pointer :: "method_ptr option \<Rightarrow> operand" where
  "method_pointer mp = Const (case mp of Some p \<Rightarrow> Ptr (MethodFunction p) | None \<Rightarrow> Word 0)"

text \<open>The slow path returns what the interpreter returns; the fast path calls the cached method.\<close>

definition compile_slow_path :: "node \<Rightarrow> unit build" where
  "compile_slow_path n =
     bind (patchpoint_operands n) (\<lambda>stackmap_args.
     bind (create (Patchpoint stackmap_args)) (\<lambda>value_from_interpreter.
     bind (getAsObject value_from_interpreter) (\<lambda>v. create_terminator (Ret v))))"

definition compile_fast_path :: "node \<Rightarrow> call_site \<Rightarrow> operand \<Rightarrow> operand \<Rightarrow> operand list \<Rightarrow> operand build" where
  "compile_fast_path n st ob sel as =
     bind (getAsObject (Const (Word 0))) (\<lambda>zero.
     seq (create_store zero (Const (Ptr (AlternativeCount n))))
     (bind (create (Load (method_pointer (cachedMethod st)))) (\<lambda>cm.
     bind (create (CallMethod cm (ob # sel # as))) (\<lambda>res.
     seq reset_jit_function (return res)))))"

definition compile_method_call :: "node \<Rightarrow> operand \<Rightarrow> operand \<Rightarrow> operand list \<Rightarrow> operand build" where
  "compile_method_call n ob sel as =
     bind create_block (\<lambda>cache_hit.
     bind create_block (\<lambda>cache_miss.
     bind (create (IsNotNull ob)) (\<lambda>not_null_obj.
     bind create_block (\<lambda>if_not_null.
     seq (create_terminator (CondBr not_null_obj if_not_null cache_miss))
     (seq (SetInsertPoint if_not_null)
     (bind (on_runtime (gets (\<lambda>c. call_sites c n))) (\<lambda>st.
     seq (compile_guard (type_assumption st) ob cache_hit cache_miss)
     (seq (SetInsertPoint cache_miss)
     (seq (compile_slow_path n)
     (seq (SetInsertPoint cache_hit) (compile_fast_path n st ob sel as)))))))))))"

section \<open>Expressions and statements\<close>

text \<open>
  \<open>Assignment\<close> and \<open>Decl\<close> assert that the name is a symbol of the function.  C++ leaves the order in
  which the two operands of an operator are compiled open; here the left one comes first.
\<close>

primrec compile_expr :: "env \<Rightarrow> expr \<Rightarrow> operand build"
  and compile_args :: "env \<Rightarrow> expr list \<Rightarrow> operand list build"
  and compile_init :: "env \<Rightarrow> expr option \<Rightarrow> string \<Rightarrow> unit build"
  and compile_stmt :: "env \<Rightarrow> stmt \<Rightarrow> unit build"
  and compile_stmts :: "env \<Rightarrow> stmt list \<Rightarrow> unit build"
where
  "compile_expr E (Number n v) = return (Const (Word (literalObject v)))"
| "compile_expr E (StringLiteral n st) = compile_string E n st"
| "compile_expr E (BinOp n op l r) =
     bind (compile_expr E l) (\<lambda>LHS. bind (compile_expr E r) (\<lambda>RHS. compileBinOp op LHS RHS))"
| "compile_expr E (VarRef n x) = bind (lookupSymbolAddr x) (\<lambda>a. create (Load a))"
| "compile_expr E (Call n callee meth args) =
     bind (compile_expr E callee) (\<lambda>v. bind (getAsObject v) (\<lambda>ob. case meth of
       None \<Rightarrow> bind (compile_args E args) (compile_closure_call ob)
     | Some name \<Rightarrow>
         bind (on_runtime (Runtime.lookupSelector name)) (\<lambda>sel.
         bind (compile_args E args) (compile_method_call n ob (Const (Word (ucast sel)))))))"
| "compile_expr E (ClosureExpr D) = compile_closure D"
| "compile_expr E (NewExpr n cname) = compile_new cname"
| "compile_args E [] = return []"
| "compile_args E (a # as) =
     bind (compile_expr E a) (\<lambda>v. bind (getAsObject v) (\<lambda>v.
     bind (compile_args E as) (\<lambda>vs. return (v # vs))))"
| "compile_init E None = (\<lambda>x. return ())"
| "compile_init E (Some e) = (\<lambda>x.
     bind (gets (\<lambda>B. csymbols B x)) (\<lambda>a. seq (assert (a \<noteq> None))
     (bind (compile_expr E e) (\<lambda>v. bind (getAsObject v) (\<lambda>v.
      bind (the_symbol x) (create_store v))))))"
| "compile_stmt E (ExprStmt e) = bind (compile_expr E e) (\<lambda>_. return ())"
| "compile_stmt E (Assignment n x e) =
     bind (gets (\<lambda>B. csymbols B x)) (\<lambda>a. seq (assert (a \<noteq> None))
     (bind (compile_expr E e) (\<lambda>v. bind (getAsObject v) (\<lambda>v.
      bind (the_symbol x) (create_store v)))))"
| "compile_stmt E (Decl n x init) = compile_init E init x"
| "compile_stmt E (Return n e) =
     bind (compile_expr E e) (\<lambda>v. bind (getAsObject v) (\<lambda>v.
     seq (create_terminator (Ret v)) ClearInsertionPoint))"
| "compile_stmt E (IfStatement n c body) =
     bind (compile_expr E c) (\<lambda>cond.
     bind create_block (\<lambda>cont. bind create_block (\<lambda>ifBody.
     bind (getAsSmallInt cond) (\<lambda>cond.
     bind (create (Alu LShrOp cond (Const (Word 3)))) (\<lambda>cond.
     bind (create (IsNotNull cond)) (\<lambda>cond.
     seq (create_terminator (CondBr cond ifBody cont))
     (seq (SetInsertPoint ifBody)
     (seq (compile_stmts E body)
     (seq (create_terminator (Br cont)) (SetInsertPoint cont))))))))))"
| "compile_stmt E (WhileLoop n c body) =
     bind create_block (\<lambda>condBlock. bind create_block (\<lambda>cont. bind create_block (\<lambda>whileBody.
     seq (create_terminator (Br condBlock))
     (seq (SetInsertPoint condBlock)
     (bind (compile_expr E c) (\<lambda>cond.
     bind (getAsSmallInt cond) (\<lambda>cond.
     bind (create (Alu LShrOp cond (Const (Word 3)))) (\<lambda>cond.
     bind (create (IsNotNull cond)) (\<lambda>cond.
     seq (create_terminator (CondBr cond whileBody cont))
     (seq (SetInsertPoint whileBody)
     (seq (compile_stmts E body)
     (seq (create_terminator (Br condBlock)) (SetInsertPoint cont)))))))))))))"
| "compile_stmt E (ClassDecl n nm superName ivs ms) = return ()"
| "compile_stmts E [] = return ()"
| "compile_stmts E (s # ss) =
     bind (gets insert_point) (\<lambda>p.
     if p = None then return () else seq (compile_stmt E s) (compile_stmts E ss))"

section \<open>Functions\<close>

fun create_allocas :: "nat \<Rightarrow> operand list build" where
  "create_allocas 0 = return []"
| "create_allocas (Suc n) = bind (create Alloca) (\<lambda>a. bind (create_allocas n) (\<lambda>as. return (a # as)))"

fun store_params :: "string list \<Rightarrow> operand list \<Rightarrow> nat \<Rightarrow> unit build" where
  "store_params (x # xs) (a # as) i =
     seq (create_store (Argument i) a) (seq (set_csymbol x a) (store_params xs as (Suc i)))"
| "store_params _ _ i = return ()"

fun store_locals :: "string list \<Rightarrow> operand list \<Rightarrow> unit build" where
  "store_locals (x # xs) (a # as) =
     seq (create_store (Const (Word 0)) a) (seq (set_csymbol x a) (store_locals xs as))"
| "store_locals _ _ = return ()"

fun element_symbols :: "string list \<Rightarrow> operand \<Rightarrow> nat \<Rightarrow> unit build" where
  "element_symbols [] arr i = return ()"
| "element_symbols (x # xs) arr i =
     bind (create (ElementPtr arr i)) (\<lambda>p. seq (set_csymbol x p) (element_symbols xs arr (Suc i)))"

definition array_symbols :: "string list \<Rightarrow> unit build" where
  "array_symbols xs =
     (if xs = [] then return () else bind (create (ArrayPtr (Argument 0))) (\<lambda>arr. element_symbols xs arr 0))"

text \<open>The body, and a return of null where the code may reach its end.\<close>

definition compile_body :: "env \<Rightarrow> cdecl \<Rightarrow> unit build" where
  "compile_body E D = seq (compile_stmts E (decl_body D)) (create_terminator (Ret (Const (Word 0))))"

definition method_prologue :: "cdecl \<Rightarrow> decl_info \<Rightarrow> string list \<Rightarrow> unit build" where
  "method_prologue D info ivs =
     seq reset_jit_function
     (bind (create Alloca) (\<lambda>selfPtr. bind (create Alloca) (\<lambda>cmdPtr.
     seq (set_csymbol ''self'' selfPtr) (seq (set_csymbol ''cmd'' cmdPtr)
     (bind (create_allocas (length (decl_params D))) (\<lambda>paramAllocas.
     bind (create_allocas (length (di_decls info))) (\<lambda>localAllocas.
     bind (create (Cast (Argument 0))) (\<lambda>self.
     seq (create_store self selfPtr)
     (bind (create (ZExt (Argument 1))) (\<lambda>sel.
     bind (small_int_of sel) (\<lambda>sel.
     bind (getAsObject sel) (\<lambda>sel.
     seq (create_store sel cmdPtr)
     (seq (store_params (decl_params D) paramAllocas 2)
     (seq (store_locals (di_decls info) localAllocas)
          (array_symbols ivs)))))))))))))))"

definition closure_prologue :: "cdecl \<Rightarrow> decl_info \<Rightarrow> unit build" where
  "closure_prologue D info =
     seq reset_jit_function
     (bind (create Alloca) (\<lambda>selfPtr.
     seq (set_csymbol ''self'' selfPtr)
     (bind (create_allocas (length (decl_params D))) (\<lambda>paramAllocas.
     bind (create_allocas (length (di_decls info))) (\<lambda>localAllocas.
     bind (create (Cast (Argument 0))) (\<lambda>self.
     seq (create_store self selfPtr)
     (seq (store_params (decl_params D) paramAllocas 1)
     (seq (store_locals (di_decls info) localAllocas)
          (array_symbols (di_boundVars info))))))))))"

text \<open>A new context with the entry block; the result is the function in its final form.\<close>

definition new_builder :: "cdecl \<Rightarrow> ctx \<Rightarrow> builder" where
  "new_builder D c = \<lparr>function_blocks = [empty_block], insert_point = Some 0, next_ident = 0,
     csymbols = Map.empty, compiling = D, rt = c\<rparr>"

definition build_function :: "cdecl \<Rightarrow> unit build \<Rightarrow> ir run" where
  "build_function D m = (\<lambda>c. case m (new_builder D c) of
       Inl e \<Rightarrow> Inl e | Inr (u, B) \<Rightarrow> Inr (function_blocks B, rt B))"

definition compileMethod :: "env \<Rightarrow> cdecl \<Rightarrow> addr \<Rightarrow> ir run" where
  "compileMethod E D cls =
     bind (class_at cls) (\<lambda>k. bind (decl_at (decl_node D)) (\<lambda>info.
     build_function D (seq (method_prologue D info (indexedIVarNames k)) (compile_body E D))))"

definition compileClosure :: "env \<Rightarrow> cdecl \<Rightarrow> ir run" where
  "compileClosure E D =
     bind (decl_at (decl_node D)) (\<lambda>info.
     build_function D (seq (closure_prologue D info) (compile_body E D)))"

end
