(* ===== verification/Compile_Shape.thy ===== *)
theory Compile_Shape
  imports Compile "HOL-Library.Multiset"
begin

text \<open>
  The control flow graph that the compiler builds.  \<open>emitting N\<close> is the effect of a part of the
  walk: it extends the block at the insert point, adds blocks, completes all of them but the new
  insert point and the blocks \<open>N\<close> that it has reserved for later, and touches no other block.
\<close>

section \<open>Builders\<close>

fun targets :: "terminator \<Rightarrow> label set" where
  "targets (Br b) = {b}"
| "targets (CondBr v b1 b2) = {b1, b2}"
| "targets (Ret v) = {}"

definition pending :: "builder \<Rightarrow> label set" where
  "pending B = {b. b < length (function_blocks B) \<and> terminator (function_blocks B ! b) = None \<and>
     insert_point B \<noteq> Some b}"

definition wf_builder :: "builder \<Rightarrow> bool" where
  "wf_builder B \<longleftrightarrow>
     (\<forall>b. insert_point B = Some b \<longrightarrow> b < length (function_blocks B) \<and> terminator (function_blocks B ! b) = None) \<and>
     (\<forall>b < length (function_blocks B). \<forall>t. terminator (function_blocks B ! b) = Some t \<longrightarrow>
        targets t \<subseteq> {..<length (function_blocks B)})"

definition emitting :: "label set \<Rightarrow> builder \<Rightarrow> builder \<Rightarrow> bool" where
  "emitting N B B' \<longleftrightarrow> (wf_builder B \<longrightarrow>
     wf_builder B' \<and> length (function_blocks B) \<le> length (function_blocks B') \<and>
     pending B' = pending B \<union> N \<and> N \<subseteq> {length (function_blocks B)..<length (function_blocks B')} \<and>
     (\<forall>n \<in> N. function_blocks B' ! n = empty_block) \<and>
     (\<forall>b < length (function_blocks B). insert_point B \<noteq> Some b \<longrightarrow>
        function_blocks B' ! b = function_blocks B ! b) \<and>
     (\<forall>b. insert_point B = Some b \<longrightarrow>
        (\<exists>ks. instrs (function_blocks B' ! b) = instrs (function_blocks B ! b) @ ks)) \<and>
     (\<forall>b. insert_point B' = Some b \<longrightarrow> insert_point B = Some b \<or> length (function_blocks B) \<le> b))"

lemma empty_block_fields [simp]: "terminator empty_block = None" "instrs empty_block = []"
  by (simp_all add: empty_block_def)

lemma emitting_refl: "emitting {} B B"
  by (auto simp: emitting_def)

lemma emitting_step:
  assumes "emitting N B B1" and "emitting {} B1 B2"
  shows "emitting N B B2"
proof (cases "wf_builder B")
  case True
  note 1 = assms(1) [unfolded emitting_def, rule_format, OF True]
  then have "wf_builder B1" by simp
  note 2 = assms(2) [unfolded emitting_def, rule_format, OF this]
  have N: "n < length (function_blocks B1) \<and> insert_point B1 \<noteq> Some n" if "n \<in> N" for n
  proof -
    from that have "n \<in> pending B1" using 1 by simp
    then show ?thesis by (simp add: pending_def)
  qed
  have old: "function_blocks B2 ! b = function_blocks B1 ! b"
    if "b < length (function_blocks B)" "insert_point B1 \<noteq> Some b" for b
    using that 1 2 by (meson less_le_trans)
  have "\<exists>ks. instrs (function_blocks B2 ! b) = instrs (function_blocks B ! b) @ ks" if b: "insert_point B = Some b" for b
  proof -
    have "b < length (function_blocks B)" using True b by (simp add: wf_builder_def)
    moreover obtain ks where "instrs (function_blocks B1 ! b) = instrs (function_blocks B ! b) @ ks"
      using 1 b by blast
    ultimately show ?thesis using 2 old [of b] by (cases "insert_point B1 = Some b") auto
  qed
  moreover have "function_blocks B2 ! b = function_blocks B ! b"
    if "b < length (function_blocks B)" "insert_point B \<noteq> Some b" for b
    using that 1 old by (metis not_le)
  moreover have "insert_point B = Some b \<or> length (function_blocks B) \<le> b" if "insert_point B2 = Some b" for b
    using 1 2 that by (meson le_trans)
  moreover have "N \<subseteq> {length (function_blocks B)..<length (function_blocks B2)}"
    using 1 2 by fastforce
  moreover have "\<forall>n \<in> N. function_blocks B2 ! n = empty_block"
    using 1 2 N by auto
  ultimately show ?thesis using 1 2 unfolding emitting_def by auto
qed (simp add: emitting_def)

interpretation emits: effect "emitting {}"
  by unfold_locales (rule emitting_refl, erule (1) emitting_step)

lemma emitting_same_blocks:
  assumes "function_blocks B' = function_blocks B" and "insert_point B' = insert_point B"
  shows "emitting {} B B'"
  using assms by (auto simp: emitting_def wf_builder_def pending_def)

lemma create_emits: "within (emitting {}) (create ins)"
proof (rule withinI)
  fix B v B'
  assume r: "create ins B = Inr (v, B')"
  show "emitting {} B B'"
  proof (cases "insert_point B")
    case None
    then show ?thesis using r by (intro emitting_same_blocks) (auto simp: create_def sem_simps)
  next
    case (Some b)
    let ?f = "function_blocks B"
    from r Some have B': "b < length ?f" "terminator (?f ! b) = None"
      "function_blocks B' = ?f[b := (?f ! b)\<lparr>instrs := instrs (?f ! b) @ [(next_ident B, ins)]\<rparr>]"
      "insert_point B' = Some b"
      by (auto simp: create_def append_instr_def sem_simps split: if_splits)
    have "terminator (function_blocks B' ! k) = terminator (?f ! k)" for k
      using B' by (cases "k = b") simp_all
    then show ?thesis
      using B' Some by (auto simp: emitting_def wf_builder_def pending_def nth_list_update)
  qed
qed

lemma set_csymbol_emits: "within (emitting {}) (set_csymbol x v)"
  by (rule withinI, rule emitting_same_blocks) (auto simp: set_csymbol_def sem_simps)

lemma on_runtime_emits: "within (emitting {}) (on_runtime r)"
  by (rule withinI, rule emitting_same_blocks) (auto simp: on_runtime_def sem_simps split: sum.splits)

section \<open>Blocks\<close>

lemma emitting_block:
  assumes "emitting N B B1" and "create_block B1 = Inr (l, B2)" and "wf_builder B"
  shows "emitting (insert l N) B B2 \<and> l = length (function_blocks B1) \<and>
    length (function_blocks B2) = Suc (length (function_blocks B1)) \<and> insert_point B2 = insert_point B1"
proof -
  let ?f = "function_blocks B1"
  have r: "l = length ?f" "function_blocks B2 = ?f @ [empty_block]" "insert_point B2 = insert_point B1"
    using assms(2) by (auto simp: create_block_def sem_simps)
  note 1 = assms(1) [unfolded emitting_def, rule_format, OF assms(3)]
  have wf: "wf_builder B1" using 1 by simp
  then have i: "insert_point B1 = Some b \<Longrightarrow> b < length ?f" for b by (simp add: wf_builder_def)
  have "pending B2 = insert l (pending B1)"
    using i by (auto simp: pending_def r nth_append empty_block_def less_Suc_eq split: if_splits)
  moreover have "wf_builder B2"
    using wf by (fastforce simp: wf_builder_def r nth_append empty_block_def less_Suc_eq)
  moreover have "function_blocks B2 ! b = ?f ! b" if "b < length ?f" for b
    using that by (simp add: r nth_append)
  moreover have "insert_point B = Some b \<Longrightarrow> b < length ?f" for b
    using assms(3) 1 by (auto simp: wf_builder_def)
  ultimately show ?thesis
    using 1 by (auto simp: emitting_def r subset_iff)
qed

text \<open>The end of a block: its terminator, and the next insert point, if any, in a reserved block.\<close>

lemma emitting_leave:
  assumes "emitting N B B1" and "create_terminator t B1 = Inr ((), B2)" and "B3 = B2\<lparr>insert_point := p\<rparr>"
    and "set_option p \<subseteq> N" and "targets t \<subseteq> {..<length (function_blocks B1)}" and "wf_builder B"
  shows "emitting (N - set_option p) B B3" and "insert_point B3 = p"
    and "length (function_blocks B3) = length (function_blocks B1)"
    and "n \<in> N \<Longrightarrow> function_blocks B3 ! n = empty_block"
    and "insert_point B1 = Some b \<Longrightarrow> function_blocks B3 ! b = (function_blocks B1 ! b)\<lparr>terminator := Some t\<rparr>"
proof -
  let ?f = "function_blocks B1"
  note 1 = assms(1) [unfolded emitting_def, rule_format, OF assms(6)]
  have wf: "wf_builder B1" using 1 by simp
  have n: "k < length ?f \<and> insert_point B1 \<noteq> Some k \<and> terminator (?f ! k) = None \<and> ?f ! k = empty_block \<and>
      length (function_blocks B) \<le> k" if "k \<in> N" for k
  proof -
    have "k \<in> pending B1" using 1 that by simp
    then show ?thesis using 1 that by (auto simp: pending_def)
  qed
  have r: "function_blocks B3 = (case insert_point B1 of None \<Rightarrow> ?f | Some b \<Rightarrow> ?f[b := (?f ! b)\<lparr>terminator := Some t\<rparr>])"
    using assms(2,3) by (auto simp: create_terminator_def sem_simps split: option.splits if_splits)
  show p: "insert_point B3 = p" by (simp add: assms(3))
  show len: "length (function_blocks B3) = length ?f" by (auto simp: r split: option.split)
  have fb: "k < length ?f \<Longrightarrow> function_blocks B3 ! k =
      (if insert_point B1 = Some k then (?f ! k)\<lparr>terminator := Some t\<rparr> else ?f ! k)" for k
    by (auto simp: r nth_list_update split: option.split)
  show N: "n \<in> N \<Longrightarrow> function_blocks B3 ! n = empty_block" for n using n by (simp add: fb)
  show "insert_point B1 = Some b \<Longrightarrow> function_blocks B3 ! b = (?f ! b)\<lparr>terminator := Some t\<rparr>"
    using wf by (simp add: fb wf_builder_def)
  have "pending B3 = pending B1 - set_option p"
    using n assms(4) by (cases p) (auto simp: pending_def p len fb split: if_splits)
  moreover have "pending B \<inter> N = {}" using n by (fastforce simp: pending_def)
  moreover have "wf_builder B3"
    using wf assms(4,5) n by (cases p) (auto simp: wf_builder_def p len fb split: if_splits)
  moreover have "insert_point B = Some b \<Longrightarrow> b < length (function_blocks B)" for b
    using assms(6) by (simp add: wf_builder_def)
  moreover have "function_blocks B3 ! b = function_blocks B ! b"
    if "b < length (function_blocks B)" "insert_point B \<noteq> Some b" for b
  proof -
    have "insert_point B1 \<noteq> Some b" using 1 that by (metis not_le)
    then show ?thesis using 1 that by (simp add: fb)
  qed
  moreover have "\<forall>b. insert_point B = Some b \<longrightarrow>
      (\<exists>ks. instrs (function_blocks B3 ! b) = instrs (function_blocks B ! b) @ ks)"
    using 1 assms(6) by (auto simp: fb wf_builder_def)
  moreover have "\<forall>b. insert_point B3 = Some b \<longrightarrow> insert_point B = Some b \<or> length (function_blocks B) \<le> b"
    using assms(4) n by (auto simp: p)
  ultimately show "emitting (N - set_option p) B B3"
    using 1 assms(4) N unfolding emitting_def len by auto
qed

lemmas emitting_goto = emitting_leave [where p = "Some n" for n, simplified]

lemma points_apply [sem_simps]:
  "SetInsertPoint b B = Inr ((), B\<lparr>insert_point := Some b\<rparr>)"
  "ClearInsertionPoint B = Inr ((), B\<lparr>insert_point := None\<rparr>)"
  by (simp_all add: SetInsertPoint_def ClearInsertionPoint_def sem_simps)

lemma emitting_wf: "emitting N B B' \<Longrightarrow> wf_builder B \<Longrightarrow> wf_builder B'"
  by (simp add: emitting_def)

lemma emitting_length: "emitting N B B' \<Longrightarrow> wf_builder B \<Longrightarrow> length (function_blocks B) \<le> length (function_blocks B')"
  by (simp add: emitting_def)

lemma emitting_reserved: "emitting N B B' \<Longrightarrow> wf_builder B \<Longrightarrow> n \<in> N \<Longrightarrow> n < length (function_blocks B')"
  by (auto simp: emitting_def)

section \<open>Expressions\<close>

lemma emits_symbol: "within (emitting {}) (the_symbol x)" "within (emitting {}) (lookupSymbolAddr x)"
  unfolding the_symbol_def lookupSymbolAddr_def
  by (intro emits.within_intros emits.within_leaf within_fail)+

lemma emits_helpers:
  "within (emitting {}) (create_store v p)" "within (emitting {}) reset_jit_function"
  "within (emitting {}) (getAsObject v)" "within (emitting {}) (getAsSmallInt v)"
  "within (emitting {}) (small_int_of v)" "within (emitting {}) (compileBinOp op l r)"
  "within (emitting {}) (compile_string E n st)" "within (emitting {}) (compile_new cname)"
  "within (emitting {}) (compile_closure_call ob as)"
  unfolding create_store_def reset_jit_function_def getAsObject_def getAsSmallInt_def small_int_of_def
    compileBinOp_def compile_compare_def compileBinaryOp_def compile_string_def compile_new_def
    compile_closure_call_def
  by (intro emits.within_intros create_emits on_runtime_emits)+

lemma emits_operands: "within (emitting {}) (the_operands vs)"
  by (induction vs) (auto intro!: emits.within_intros split: option.split)

lemma emits_patchpoint: "within (emitting {}) (patchpoint_operands n)"
  unfolding patchpoint_operands_def Let_def
  by (intro emits.within_intros on_runtime_emits emits_operands)

lemma emits_captured: "within (emitting {}) (copy_captured xs arr i)"
  by (induction xs arbitrary: i) (simp_all add: emits.within_intros create_emits emits_symbol emits_helpers)

lemma emits_closure: "within (emitting {}) (compile_closure D)"
  unfolding compile_closure_def Let_def
  by (intro emits.within_intros create_emits on_runtime_emits emits_helpers emits_captured emits_symbol)

text \<open>The guard ends the block of the insert point; the caller goes on in the slow path.\<close>

lemma guard_leaves:
  assumes "compile_guard assumed ob h l B = Inr ((), B')"
  obtains B1 v where "emitting {} B B1" and "create_terminator (CondBr v h l) B1 = Inr ((), B')"
proof -
  have "\<exists>B1 v. emitting {} B B1 \<and> create_terminator (CondBr v h l) B1 = Inr ((), B')"
    using assms unfolding compile_guard_def
    by (auto split: if_splits elim!: bind_InrE dest!: withinD [OF create_emits]) (blast intro: emits.trans)+
  then show thesis using that by blast
qed

lemma slow_path_leaves:
  assumes "compile_slow_path n B = Inr ((), B')"
  obtains B1 v where "emitting {} B B1" and "create_terminator (Ret v) B1 = Inr ((), B')"
proof -
  obtain as' P1 v P2 v' P3 where p: "patchpoint_operands n B = Inr (as', P1)"
    "create (Patchpoint as') P1 = Inr (v, P2)" "getAsObject v P2 = Inr (v', P3)"
    "create_terminator (Ret v') P3 = Inr ((), B')"
    using assms unfolding compile_slow_path_def by (elim bind_InrE) (rule that; assumption)
  have "emitting {} B P3"
    by (rule emits.trans [OF withinD [OF emits_patchpoint p(1)]
          emits.trans [OF withinD [OF create_emits p(2)] withinD [OF emits_helpers(3) p(3)]]])
  then show thesis using p(4) by (rule that)
qed

lemma emits_fast_path: "within (emitting {}) (compile_fast_path n st ob sel as)"
  unfolding compile_fast_path_def by (intro emits.within_intros create_emits emits_helpers)

lemma method_call_steps:
  assumes "compile_method_call n ob sel as B = Inr (res, B')"
  obtains hit B1 miss B2 nn B3 body B4 B5 st B7 B8 B9 where
    "create_block B = Inr (hit, B1)" and "create_block B1 = Inr (miss, B2)"
    and "create (IsNotNull ob) B2 = Inr (nn, B3)" and "create_block B3 = Inr (body, B4)"
    and "create_terminator (CondBr nn body miss) B4 = Inr ((), B5)"
    and "on_runtime (gets (\<lambda>c. call_sites c n)) (B5\<lparr>insert_point := Some body\<rparr>) = Inr (st, B7)"
    and "compile_guard (type_assumption st) ob hit miss B7 = Inr ((), B8)"
    and "compile_slow_path n (B8\<lparr>insert_point := Some miss\<rparr>) = Inr ((), B9)"
    and "compile_fast_path n st ob sel as (B9\<lparr>insert_point := Some hit\<rparr>) = Inr (res, B')"
proof -
  have point: "seq (SetInsertPoint b) k B = Inr r \<longleftrightarrow> k (B\<lparr>insert_point := Some b\<rparr>) = Inr r" for b k r and B :: builder
    by (simp add: sem_simps)
  show thesis
    using assms unfolding compile_method_call_def
    by (elim bind_InrE seq_InrE [of "create_terminator _"] seq_InrE [of "compile_guard _ _ _ _"]
          seq_InrE [of "compile_slow_path _"], unfold point,
        elim bind_InrE seq_InrE [of "create_terminator _"] seq_InrE [of "compile_guard _ _ _ _"]
          seq_InrE [of "compile_slow_path _"], unfold point,
        elim bind_InrE seq_InrE [of "create_terminator _"] seq_InrE [of "compile_guard _ _ _ _"]
          seq_InrE [of "compile_slow_path _"], unfold point) (rule that; assumption)
qed

lemma emits_method_call: "within (emitting {}) (compile_method_call n ob sel as)"
proof (rule withinI)
  fix B res B'
  assume run: "compile_method_call n ob sel as B = Inr (res, B')"
  show "emitting {} B B'"
  proof (cases "wf_builder B")
    case True
    note wf = True
    obtain hit B1 miss B2 nn B3 body B4 B5 st B7 B8 B9 where b:
      "create_block B = Inr (hit, B1)" "create_block B1 = Inr (miss, B2)"
      "create (IsNotNull ob) B2 = Inr (nn, B3)" "create_block B3 = Inr (body, B4)"
      "create_terminator (CondBr nn body miss) B4 = Inr ((), B5)"
      "on_runtime (gets (\<lambda>c. call_sites c n)) (B5\<lparr>insert_point := Some body\<rparr>) = Inr (st, B7)"
      "compile_guard (type_assumption st) ob hit miss B7 = Inr ((), B8)"
      "compile_slow_path n (B8\<lparr>insert_point := Some miss\<rparr>) = Inr ((), B9)"
      "compile_fast_path n st ob sel as (B9\<lparr>insert_point := Some hit\<rparr>) = Inr (res, B')"
      by (rule method_call_steps [OF run])
    have 1: "emitting {hit} B B1" by (rule emitting_block [OF emitting_refl b(1) wf, THEN conjunct1])
    have 2: "emitting {miss, hit} B B2" by (rule emitting_block [OF 1 b(2) wf, THEN conjunct1])
    have 3: "emitting {miss, hit} B B3" by (rule emitting_step [OF 2 withinD [OF create_emits b(3)]])
    have 4: "emitting {body, miss, hit} B B4" by (rule emitting_block [OF 3 b(4) wf, THEN conjunct1])
    have new: "hit < length (function_blocks B4)" "miss < length (function_blocks B4)" "body < length (function_blocks B4)"
      "miss \<noteq> body" "miss \<noteq> hit" "hit \<noteq> body"
      using emitting_reserved [OF 1 wf, of hit] emitting_reserved [OF 3 wf, of miss] emitting_reserved [OF 3 wf, of hit]
        emitting_reserved [OF 4 wf] emitting_block [OF 1 b(2) wf] emitting_block [OF 3 b(4) wf] by auto
    have 5: "emitting {miss, hit} B (B5\<lparr>insert_point := Some body\<rparr>)"
      using emitting_goto(1) [OF 4 b(5) HOL.refl _ _ wf, of body] new by (simp add: insert_Diff_if)
    have 7: "emitting {miss, hit} B B7" by (intro emitting_step [OF 5 withinD [OF on_runtime_emits b(6)]])
    obtain G v0 where g: "emitting {} B7 G" "create_terminator (CondBr v0 hit miss) G = Inr ((), B8)"
      by (rule guard_leaves [OF b(7)])
    have 8: "emitting {miss, hit} B G" by (rule emitting_step [OF 7 g(1)])
    have 9: "emitting {hit} B (B8\<lparr>insert_point := Some miss\<rparr>)"
      using emitting_goto(1) [OF 8 g(2) HOL.refl _ _ wf, of miss] new emitting_reserved [OF 8 wf]
      by (simp add: insert_Diff_if)
    obtain P v1 where p: "emitting {} (B8\<lparr>insert_point := Some miss\<rparr>) P" "create_terminator (Ret v1) P = Inr ((), B9)"
      by (rule slow_path_leaves [OF b(8)])
    have 10: "emitting {hit} B P" by (rule emitting_step [OF 9 p(1)])
    have "emitting {} B (B9\<lparr>insert_point := Some hit\<rparr>)"
      using emitting_goto(1) [OF 10 p(2) HOL.refl _ _ wf, of hit] by simp
    then show ?thesis by (rule emitting_step [OF _ withinD [OF emits_fast_path b(9)]])
  qed (simp add: emitting_def)
qed

section \<open>Statements\<close>

text \<open>The test of a condition, up to the branch.\<close>

definition condition_test :: "operand \<Rightarrow> operand build" where
  "condition_test cond =
     bind (getAsSmallInt cond) (\<lambda>cond.
     bind (create (Alu LShrOp cond (Const (Word 3)))) (\<lambda>cond. create (IsNotNull cond)))"

lemma emits_test: "within (emitting {}) (condition_test v)"
  unfolding condition_test_def by (intro emits.within_intros create_emits emits_helpers)

lemma if_steps:
  assumes "compile_stmt E (IfStatement n c body) B = Inr (u, B')"
  obtains v B1 cont B2 ifBody B3 t B4 B5 B6 B7 where
    "compile_expr E c B = Inr (v, B1)" and "create_block B1 = Inr (cont, B2)"
    and "create_block B2 = Inr (ifBody, B3)" and "condition_test v B3 = Inr (t, B4)"
    and "create_terminator (CondBr t ifBody cont) B4 = Inr ((), B5)"
    and "compile_stmts E body (B5\<lparr>insert_point := Some ifBody\<rparr>) = Inr ((), B6)"
    and "create_terminator (Br cont) B6 = Inr ((), B7)" and "B' = B7\<lparr>insert_point := Some cont\<rparr>"
  using assms by (auto simp: sem_simps condition_test_def split: sum.splits)

lemma while_steps:
  assumes "compile_stmt E (WhileLoop n c body) B = Inr (u, B')"
  obtains cond B1 cont B2 whileBody B3 B4 v B5 t B6 B7 B8 B9 where
    "create_block B = Inr (cond, B1)" and "create_block B1 = Inr (cont, B2)"
    and "create_block B2 = Inr (whileBody, B3)" and "create_terminator (Br cond) B3 = Inr ((), B4)"
    and "compile_expr E c (B4\<lparr>insert_point := Some cond\<rparr>) = Inr (v, B5)" and "condition_test v B5 = Inr (t, B6)"
    and "create_terminator (CondBr t whileBody cont) B6 = Inr ((), B7)"
    and "compile_stmts E body (B7\<lparr>insert_point := Some whileBody\<rparr>) = Inr ((), B8)"
    and "create_terminator (Br cond) B8 = Inr ((), B9)" and "B' = B9\<lparr>insert_point := Some cont\<rparr>"
  using assms by (auto simp: sem_simps condition_test_def split: sum.splits)

lemma emits_if:
  assumes "within (emitting {}) (compile_expr E c)" and "within (emitting {}) (compile_stmts E body)"
  shows "within (emitting {}) (compile_stmt E (IfStatement n c body))"
proof (rule withinI)
  fix B u B'
  assume run: "compile_stmt E (IfStatement n c body) B = Inr (u, B')"
  show "emitting {} B B'"
  proof (cases "wf_builder B")
    case True
    note wf = True
    obtain v B1 cont B2 ifBody B3 t B4 B5 B6 B7 where b:
      "compile_expr E c B = Inr (v, B1)" "create_block B1 = Inr (cont, B2)"
      "create_block B2 = Inr (ifBody, B3)" "condition_test v B3 = Inr (t, B4)"
      "create_terminator (CondBr t ifBody cont) B4 = Inr ((), B5)"
      "compile_stmts E body (B5\<lparr>insert_point := Some ifBody\<rparr>) = Inr ((), B6)"
      "create_terminator (Br cont) B6 = Inr ((), B7)" "B' = B7\<lparr>insert_point := Some cont\<rparr>"
      by (rule if_steps [OF run])
    have 1: "emitting {} B B1" by (rule withinD [OF assms(1) b(1)])
    have 2: "emitting {cont} B B2" by (rule emitting_block [OF 1 b(2) wf, THEN conjunct1])
    have 3: "emitting {ifBody, cont} B B3" by (rule emitting_block [OF 2 b(3) wf, THEN conjunct1])
    have ne: "cont \<noteq> ifBody"
      using emitting_reserved [OF 2 wf, of cont] emitting_block [OF 2 b(3) wf] by auto
    have 4: "emitting {ifBody, cont} B B4" by (rule emitting_step [OF 3 withinD [OF emits_test b(4)]])
    have 5: "emitting {cont} B (B5\<lparr>insert_point := Some ifBody\<rparr>)"
      using emitting_goto(1) [OF 4 b(5) HOL.refl _ _ wf, of ifBody] ne emitting_reserved [OF 4 wf]
      by (simp add: insert_Diff_if)
    have 6: "emitting {cont} B B6" by (rule emitting_step [OF 5 withinD [OF assms(2) b(6)]])
    show ?thesis
      using emitting_goto(1) [OF 6 b(7) b(8) _ _ wf] emitting_reserved [OF 6 wf] by simp
  qed (simp add: emitting_def)
qed

lemma emits_while:
  assumes "within (emitting {}) (compile_expr E c)" and "within (emitting {}) (compile_stmts E body)"
  shows "within (emitting {}) (compile_stmt E (WhileLoop n c body))"
proof (rule withinI)
  fix B u B'
  assume run: "compile_stmt E (WhileLoop n c body) B = Inr (u, B')"
  show "emitting {} B B'"
  proof (cases "wf_builder B")
    case True
    note wf = True
    obtain cond B1 cont B2 whileBody B3 B4 v B5 t B6 B7 B8 B9 where b:
      "create_block B = Inr (cond, B1)" "create_block B1 = Inr (cont, B2)"
      "create_block B2 = Inr (whileBody, B3)" "create_terminator (Br cond) B3 = Inr ((), B4)"
      "compile_expr E c (B4\<lparr>insert_point := Some cond\<rparr>) = Inr (v, B5)" "condition_test v B5 = Inr (t, B6)"
      "create_terminator (CondBr t whileBody cont) B6 = Inr ((), B7)"
      "compile_stmts E body (B7\<lparr>insert_point := Some whileBody\<rparr>) = Inr ((), B8)"
      "create_terminator (Br cond) B8 = Inr ((), B9)" "B' = B9\<lparr>insert_point := Some cont\<rparr>"
      by (rule while_steps [OF run])
    have 1: "emitting {cond} B B1" by (rule emitting_block [OF emitting_refl b(1) wf, THEN conjunct1])
    have 2: "emitting {cont, cond} B B2" by (rule emitting_block [OF 1 b(2) wf, THEN conjunct1])
    have 3: "emitting {whileBody, cont, cond} B B3" by (rule emitting_block [OF 2 b(3) wf, THEN conjunct1])
    have ne: "cont \<noteq> cond" "whileBody \<noteq> cond" "whileBody \<noteq> cont"
      using emitting_reserved [OF 1 wf, of cond] emitting_reserved [OF 2 wf, of cond] emitting_reserved [OF 2 wf, of cont]
        emitting_block [OF 1 b(2) wf] emitting_block [OF 2 b(3) wf] by auto
    have 4: "emitting {whileBody, cont} B (B4\<lparr>insert_point := Some cond\<rparr>)"
      using emitting_goto(1) [OF 3 b(4) HOL.refl _ _ wf, of cond] ne emitting_reserved [OF 3 wf]
      by (simp add: insert_Diff_if)
    have 6: "emitting {whileBody, cont} B B6"
      by (rule emitting_step [OF emitting_step [OF 4 withinD [OF assms(1) b(5)]] withinD [OF emits_test b(6)]])
    have 7: "emitting {cont} B (B7\<lparr>insert_point := Some whileBody\<rparr>)"
      using emitting_goto(1) [OF 6 b(7) HOL.refl _ _ wf, of whileBody] ne emitting_reserved [OF 6 wf]
      by (simp add: insert_Diff_if)
    have 8: "emitting {cont} B B8" by (rule emitting_step [OF 7 withinD [OF assms(2) b(8)]])
    have "cond < length (function_blocks B8)"
      using emitting_reserved [OF 3 wf, of cond] emitting_goto(3) [OF 3 b(4) HOL.refl _ _ wf, of cond]
        emitting_length [OF withinD [OF assms(1) b(5)]] emitting_length [OF withinD [OF emits_test b(6)]]
        emitting_length [OF withinD [OF assms(2) b(8)]] emitting_goto(3) [OF 6 b(7) HOL.refl _ _ wf, of whileBody]
        emitting_wf [OF 4 wf] emitting_wf [OF 7 wf] emitting_wf [OF emitting_step [OF 4 withinD [OF assms(1) b(5)]] wf]
        emitting_reserved [OF 6 wf]
      by simp
    then show ?thesis
      using emitting_goto(1) [OF 8 b(9) b(10) _ _ wf] by simp
  qed (simp add: emitting_def)
qed

lemma emits_return:
  assumes "within (emitting {}) (compile_expr E e)"
  shows "within (emitting {}) (compile_stmt E (Return n e))"
proof (rule withinI)
  fix B u B'
  assume run: "compile_stmt E (Return n e) B = Inr (u, B')"
  then obtain v B1 v' B2 B3 where b: "compile_expr E e B = Inr (v, B1)" "getAsObject v B1 = Inr (v', B2)"
    "create_terminator (Ret v') B2 = Inr ((), B3)" "B' = B3\<lparr>insert_point := None\<rparr>"
    by (auto simp: sem_simps split: sum.splits)
  have B2: "emitting {} B B2"
    by (rule emits.trans [OF withinD [OF assms b(1)] withinD [OF emits_helpers(3) b(2)]])
  have "wf_builder B \<Longrightarrow> emitting {} B B'"
    using emitting_leave(1) [OF B2 b(3,4)] by simp
  then show "emitting {} B B'" by (simp add: emitting_def)
qed

text \<open>Every part of the walk completes the blocks that it adds, but for the new insert point.\<close>

lemma compiling_emits:
  "within (emitting {}) (compile_expr E e)" "(D :: cdecl) = D"
  "within (emitting {}) (compile_stmt E s)"
  "within (emitting {}) (compile_args E es)"
  "within (emitting {}) (compile_stmts E ss)"
  "within (emitting {}) (compile_init E i x)"
proof (induction e and D and s and es and ss and i arbitrary: and and and and and x rule: syntax_induct)
  case (Call n callee meth args)
  show ?case
    unfolding compile_expr.simps
    by (intro emits.within_intros Call create_emits on_runtime_emits emits_helpers emits_method_call)
next
  case (IfStatement n c body)
  then show ?case by (intro emits_if)
next
  case (WhileLoop n c body)
  then show ?case by (intro emits_while)
next
  case (Return n e)
  then show ?case by (intro emits_return)
qed (simp_all only: compile_expr.simps compile_args.simps compile_init.simps compile_stmt.simps compile_stmts.simps,
   (intro emits.within_intros create_emits on_runtime_emits emits_helpers emits_closure emits_symbol | assumption)+)

section \<open>What a walk never does\<close>

text \<open>
  Relations that the single steps of the builder keep to are kept to by the whole walk.  Compiling
  changes the state of the program, but never what earlier compiled constants rest on.
\<close>

definition selectors_grow :: "ctx \<Rightarrow> ctx \<Rightarrow> bool" where
  "selectors_grow c c' \<longleftrightarrow> length (selectors c) \<le> length (selectors c') \<and>
     (\<forall>x k. map_of (selectors c) x = Some k \<and> k \<noteq> 0 \<longrightarrow> map_of (selectors c') x = Some k)"

lemma selectors_grow_refl: "selectors_grow c c"
  by (simp add: selectors_grow_def)

lemma selectors_grow_trans: "selectors_grow c d \<Longrightarrow> selectors_grow d e \<Longrightarrow> selectors_grow c e"
  by (simp add: selectors_grow_def)

definition rt_grows :: "ctx \<Rightarrow> ctx \<Rightarrow> bool" where
  "rt_grows c c' \<longleftrightarrow> (\<forall>n. object (cache c n) \<noteq> 0 \<longrightarrow> cache c' n = cache c n) \<and>
     (classTable c \<noteq> [] \<longrightarrow> classTable c' \<noteq> [] \<and> map_of (classTable c) \<subseteq>\<^sub>m map_of (classTable c')) \<and>
     globalSymbols c' = globalSymbols c \<and> symbols c' = symbols c \<and> isReturning c' = isReturning c \<and> call_sites c' = call_sites c \<and>
     cur_jit_function c' = cur_jit_function c \<and> selectors_grow c c'"

interpretation growing: effect rt_grows
proof unfold_locales
  fix c d e
  assume "rt_grows c d" and "rt_grows d e"
  then show "rt_grows c e" by (auto simp: rt_grows_def intro: map_le_trans selectors_grow_trans)
qed (simp add: rt_grows_def selectors_grow_refl)

text \<open>Most of the run time's functions change the heap only.\<close>

definition only_mem :: "ctx \<Rightarrow> ctx \<Rightarrow> bool" where
  "only_mem c c' \<longleftrightarrow> (\<exists>M. c' = c\<lparr>mem := M\<rparr>)"

interpretation heap_only: effect only_mem
proof unfold_locales
  fix c d e :: ctx
  show "only_mem c c" unfolding only_mem_def by (rule exI [of _ "mem c"]) simp
  show "only_mem c d \<Longrightarrow> only_mem d e \<Longrightarrow> only_mem c e" by (auto simp: only_mem_def)
qed

lemma only_mem_steps:
  "within only_mem (block_at a)" "within only_mem (set_block a b)" "within only_mem (store p v)"
  "within only_mem (alloc E b)" "within only_mem (GC_free a)" "within only_mem (value_set E r v)"
  "within only_mem (eval_string E st)"
proof -
  show b: "within only_mem (block_at a)" for a
    by (auto simp: within_def sem_simps heap_only.refl split: option.splits)
  show s: "within only_mem (set_block a b)" for a b
    by (auto simp: within_def sem_simps only_mem_def)
  show st: "within only_mem (store p v)" for p v
    unfolding store_def by (intro heap_only.within_intros b s)
  show al: "within only_mem (alloc E b)" for b
    by (auto simp: within_def sem_simps only_mem_def split: option.splits)
  show f: "within only_mem (GC_free a)" for a
    by (auto simp: within_def GC_free_def sem_simps only_mem_def)
  show "within only_mem (value_set E r v)"
    unfolding value_set_def by (intro heap_only.within_intros al f st)
  show "within only_mem (eval_string E st)"
    unfolding eval_string_def new_string_def by (intro heap_only.within_intros al)
qed

lemma update_longer: "length xs \<le> length (AList.update k v xs)"
  by (induction xs) auto

lemma lookupSelector_grows:
  fixes c :: ctx
  assumes "Runtime.lookupSelector x c = Inr (k, c')"
  shows "selectors_grow c c'"
proof -
  obtain sels names where R: "register_static (selectors c, selNames c) = (sels, names)" by fastforce
  have T: "selectors c' = fst (snd (intern_selector x (selectors c, selNames c)))"
    using assms by (auto simp: Runtime.lookupSelector_def split: prod.splits)
  have "selectors c \<noteq> [] \<longrightarrow> sels = selectors c" using R by (auto simp: register_static_def split: if_splits)
  moreover have "selectors c' = sels \<or> (map_of sels x = None \<or> map_of sels x = Some 0) \<and> (\<exists>k. selectors c' = AList.update x k sels)"
    unfolding T by (auto simp: intern_selector_def Let_def R split: option.splits)
  ultimately show ?thesis
    using update_longer [of sels x] by (cases "selectors c = []") (auto simp: selectors_grow_def update_conv')
qed

lemma growing_steps:
  "within rt_grows (check_decl D)" "within rt_grows (decl_at d)" "within rt_grows (lookupClass nm)"
  "within rt_grows (Runtime.lookupSelector x)" "within rt_grows (closureTrampolines k)"
proof -
  show "within rt_grows (lookupClass nm)"
  proof (rule withinI)
    fix c c' :: ctx and a
    assume r: "lookupClass nm c = Inr (a, c')"
    let ?t = "registerClasses (classTable c)"
    obtain ct where c': "c' = c\<lparr>classTable := ct\<rparr>" and ct: "ct = ?t \<or> map_of ?t nm = None \<and> ct = AList.update nm 0 ?t"
      using r by (auto simp: lookupClass_def Let_def split: option.splits)
    have "classTable c \<noteq> [] \<longrightarrow> ?t = classTable c" by (simp add: registerClasses_def)
    moreover have "?t \<noteq> []" by (simp add: registerClasses_def)
    then have "ct \<noteq> []" using ct by (cases ?t) (auto split: if_splits)
    moreover have "map_of ?t \<subseteq>\<^sub>m map_of ct"
      using ct by (auto simp: map_le_def update_conv')
    ultimately show "rt_grows c c'" by (auto simp: rt_grows_def selectors_grow_def c')
  qed
  show "within rt_grows (Runtime.lookupSelector x)"
  proof (rule withinI)
    fix c k and c' :: ctx
    assume run: "Runtime.lookupSelector x c = Inr (k, c')"
    from lookupSelector_grows [OF this] show "rt_grows c c'"
      using run by (auto simp: rt_grows_def Runtime.lookupSelector_def split: prod.splits)
  qed
qed (auto simp: within_def check_decl_def closureTrampolines_def sem_simps rt_grows_def selectors_grow_def
      split: if_splits)

lemma growing_string: "within rt_grows (cached_string E n st)"
proof (rule withinI)
  fix c v c'
  assume r: "cached_string E n st c = Inr (v, c')"
  show "rt_grows c c'"
  proof (cases "object (cache c n) = 0")
    case True
    then obtain w c1 g c2 where s: "eval_string E st c = Inr (w, c1)" "value_set E (cache c1 n) w c1 = Inr (g, c2)"
      "c' = c2\<lparr>cache := (cache c2)(n := g)\<rparr>"
      using r by (auto simp: cached_string_def set_cache_def sem_simps split: sum.splits)
    obtain M M' where "c1 = c\<lparr>mem := M\<rparr>" "c2 = c1\<lparr>mem := M'\<rparr>"
      using withinD [OF only_mem_steps(7) s(1)] withinD [OF only_mem_steps(6) s(2)] by (auto simp: only_mem_def)
    then show ?thesis using True by (auto simp: rt_grows_def selectors_grow_def s(3))
  next
    case False
    then show ?thesis using r by (simp add: cached_string_def sem_simps growing.refl)
  qed
qed

locale walk =
  fixes Q :: "builder \<Rightarrow> builder \<Rightarrow> bool"
  assumes Q_refl: "Q B B" and Q_trans: "Q B C \<Longrightarrow> Q C D \<Longrightarrow> Q B D"
    and create_Q: "within Q (create ins)" and terminator_Q: "within Q (create_terminator t)"
    and block_Q: "within Q create_block" and point_Q: "within Q (SetInsertPoint b)" "within Q ClearInsertionPoint"
    and rt_Q: "rt_grows (rt B) c \<Longrightarrow> Q B (B\<lparr>rt := c\<rparr>)"
begin

lemma runtime_Q: "within rt_grows r \<Longrightarrow> within Q (on_runtime r)"
  by (auto simp: within_def on_runtime_def intro: rt_Q split: sum.splits)

sublocale walking: effect Q
  by unfold_locales (rule Q_refl, erule (1) Q_trans)

lemmas walk_runtime = growing_steps [THEN runtime_Q] growing_string [THEN runtime_Q]
  growing.within_leaf(2) [THEN runtime_Q]
lemmas walk_intros = walking.within_intros create_Q terminator_Q block_Q point_Q walk_runtime

lemma walk_helpers:
  "within Q (create_store v p)" "within Q reset_jit_function"
  "within Q (getAsObject v)" "within Q (getAsSmallInt v)" "within Q (small_int_of v)" "within Q (compileBinOp op l r)"
  "within Q (compile_string E n st)" "within Q (compile_new cname)" "within Q (compile_closure_call ob as)"
  "within Q (compile_guard a ob h miss)" "within Q (compile_fast_path n s ob sel as)"
  "within Q (the_symbol x)" "within Q (lookupSymbolAddr x)"
  unfolding create_store_def reset_jit_function_def getAsObject_def getAsSmallInt_def small_int_of_def
    compileBinOp_def compile_compare_def compileBinaryOp_def compile_string_def compile_new_def
    compile_closure_call_def compile_guard_def compile_fast_path_def the_symbol_def lookupSymbolAddr_def
  by (intro walk_intros)+

lemma walk_operands: "within Q (the_operands vs)"
  by (induction vs) (auto intro!: walking.within_intros split: option.split)

lemma walk_captured: "within Q (copy_captured xs arr i)"
  by (induction xs arbitrary: i) (simp_all add: walk_intros walk_helpers)

lemma walk_closure: "within Q (compile_closure D)"
  unfolding compile_closure_def Let_def by (intro walk_intros walk_helpers walk_captured)

lemma walk_slow_path: "within Q (compile_slow_path n)"
  unfolding compile_slow_path_def patchpoint_operands_def Let_def by (intro walk_intros walk_helpers walk_operands)

lemma walk_method_call: "within Q (compile_method_call n ob sel as)"
  unfolding compile_method_call_def by (intro walk_intros walk_helpers walk_slow_path)

lemma walking_within:
  "within Q (compile_expr E e)" "(D :: cdecl) = D"
  "within Q (compile_stmt E s)" "within Q (compile_args E es)"
  "within Q (compile_stmts E ss)" "within Q (compile_init E i x)"
proof (induction e and D and s and es and ss and i arbitrary: and and and and and x rule: syntax_induct)
qed (simp_all only: compile_expr.simps compile_args.simps compile_init.simps compile_stmt.simps compile_stmts.simps,
   (intro walk_intros walk_helpers walk_closure walk_method_call | assumption)+)

lemma walk_body: "within Q (compile_body E D)"
  unfolding compile_body_def by (intro walk_intros walking_within)

text \<open>The prologue enters the variables of the function into the symbol table as well.\<close>

lemma walk_prologue:
  assumes sym: "\<And>x v. within Q (set_csymbol x v)"
  shows "within Q (method_prologue D info ivs)" and "within Q (closure_prologue D info)"
proof -
  have allocas: "within Q (create_allocas k)" for k by (induction k) (simp_all add: walk_intros)
  have elements: "within Q (element_symbols xs arr i)" for xs arr i
    by (induction xs arbitrary: i) (simp_all add: walk_intros sym)
  have arr: "within Q (array_symbols xs)" for xs unfolding array_symbols_def by (intro walk_intros elements)
  have params: "within Q (store_params xs as i)" for xs as i
    by (induction xs as i rule: store_params.induct) (simp_all add: walk_intros walk_helpers sym)
  have locals: "within Q (store_locals xs as)" for xs as
    by (induction xs as rule: store_locals.induct) (simp_all add: walk_intros walk_helpers sym)
  show "within Q (method_prologue D info ivs)" "within Q (closure_prologue D info)"
    unfolding method_prologue_def closure_prologue_def
    by (intro walk_intros walk_helpers allocas arr params locals sym)+
qed

end

section \<open>Numbering\<close>

definition idents :: "ir \<Rightarrow> ident list" where
  "idents f = concat (map (\<lambda>blk. map fst (instrs blk)) f)"

definition numbered :: "builder \<Rightarrow> bool" where
  "numbered B \<longleftrightarrow> distinct (idents (function_blocks B)) \<and> (\<forall>i \<in> set (idents (function_blocks B)). i < next_ident B)"

lemma idents_append: "b < length f \<Longrightarrow>
    mset (idents (f[b := (f ! b)\<lparr>instrs := instrs (f ! b) @ [(i, ins)]\<rparr>])) = add_mset i (mset (idents f))"
proof (induction f arbitrary: b)
  case (Cons blk f)
  then show ?case by (cases b) (auto simp: idents_def)
qed simp

lemma mset_append_new:
  assumes "mset xs = add_mset i (mset ys)"
  shows "set xs = insert i (set ys)" and "distinct xs \<longleftrightarrow> i \<notin> set ys \<and> distinct ys"
proof -
  have "mset xs = mset (i # ys)" using assms by simp
  from mset_eq_setD [OF this] mset_eq_imp_distinct_iff [OF this]
  show "set xs = insert i (set ys)" and "distinct xs \<longleftrightarrow> i \<notin> set ys \<and> distinct ys" by simp_all
qed

lemma idents_terminator: "b < length f \<Longrightarrow> idents (f[b := (f ! b)\<lparr>terminator := t\<rparr>]) = idents f"
  by (simp add: idents_def map_update)
    (metis (no_types, lifting) length_map list_update_id nth_map)

definition numbers :: "builder \<Rightarrow> builder \<Rightarrow> bool" where
  "numbers B B' \<longleftrightarrow> next_ident B \<le> next_ident B' \<and> (numbered B \<longrightarrow> numbered B') \<and>
     compiling B' = compiling B \<and> rt_grows (rt B) (rt B')"

interpretation numbering: walk numbers
proof unfold_locales
  fix ins
  show "within numbers (create ins)"
  proof (rule withinI)
    fix B v B'
    assume r: "create ins B = Inr (v, B')"
    let ?f = "function_blocks B"
    have B': "next_ident B' = Suc (next_ident B)" "compiling B' = compiling B" "rt B' = rt B"
      using r by (auto simp: create_def append_instr_def sem_simps split: option.splits if_splits)
    have "numbered B \<Longrightarrow> numbered B'"
    proof (cases "insert_point B")
      case None
      then show "numbered B \<Longrightarrow> numbered B'"
        using r by (auto simp: create_def sem_simps numbered_def less_Suc_eq)
    next
      case (Some b)
      then have "b < length ?f" and f: "function_blocks B' = ?f[b := (?f ! b)\<lparr>instrs := instrs (?f ! b) @ [(next_ident B, ins)]\<rparr>]"
        using r by (auto simp: create_def append_instr_def sem_simps split: if_splits)
      then have "mset (idents (function_blocks B')) = add_mset (next_ident B) (mset (idents ?f))"
        by (simp add: idents_append)
      from mset_append_new [OF this] show "numbered B \<Longrightarrow> numbered B'"
        using B'(1) by (auto simp: numbered_def)
    qed
    then show "numbers B B'" using B' by (simp add: numbers_def growing.refl)
  qed
qed (auto simp: numbers_def within_def create_terminator_def create_block_def sem_simps numbered_def idents_terminator growing.refl
    intro: growing.trans split: option.splits if_splits, auto simp: idents_def)

lemma numbers_symbol: "within numbers (set_csymbol x v)"
  by (auto simp: numbers_def within_def set_csymbol_def sem_simps numbered_def growing.refl)

section \<open>Whole functions\<close>

lemma emits_prologue:
  "within (emitting {}) (method_prologue D info ivs)" "within (emitting {}) (closure_prologue D info)"
proof -
  have allocas: "within (emitting {}) (create_allocas k)" for k
    by (induction k) (simp_all add: emits.within_intros create_emits)
  have elements: "within (emitting {}) (element_symbols xs arr i)" for xs arr i
    by (induction xs arbitrary: i) (simp_all add: emits.within_intros create_emits set_csymbol_emits)
  have arr: "within (emitting {}) (array_symbols xs)" for xs
    unfolding array_symbols_def by (intro emits.within_intros create_emits elements)
  have params: "within (emitting {}) (store_params xs as i)" for xs as i
    by (induction xs as i rule: store_params.induct)
      (simp_all add: emits.within_intros emits_helpers set_csymbol_emits)
  have locals: "within (emitting {}) (store_locals xs as)" for xs as
    by (induction xs as rule: store_locals.induct)
      (simp_all add: emits.within_intros emits_helpers set_csymbol_emits)
  show "within (emitting {}) (method_prologue D info ivs)" "within (emitting {}) (closure_prologue D info)"
    unfolding method_prologue_def closure_prologue_def
    by (intro emits.within_intros create_emits emits_helpers set_csymbol_emits allocas arr params locals)+
qed

text \<open>What LLVM requires of a function's blocks and values.\<close>

definition well_formed :: "ir \<Rightarrow> bool" where
  "well_formed f \<longleftrightarrow> f \<noteq> [] \<and> distinct (idents f) \<and>
     (\<forall>b < length f. \<exists>t. terminator (f ! b) = Some t \<and> targets t \<subseteq> {..<length f})"

lemma built_well_formed:
  assumes "build_function D (seq prologue (compile_body E D)) c = Inr (f, c')"
    and "within (emitting {}) prologue"
    and "within numbers prologue"
  shows "well_formed f"
proof -
  let ?B = "new_builder D c"
  obtain B1 B2 B3 where b: "prologue ?B = Inr ((), B1)" "compile_stmts E (decl_body D) B1 = Inr ((), B2)"
    "create_terminator (Ret (Const (Word 0))) B2 = Inr ((), B3)" "f = function_blocks B3"
    using assms(1) by (auto simp: build_function_def compile_body_def sem_simps split: sum.splits)
  have wf: "wf_builder ?B" "pending ?B = {}" "numbered ?B" "function_blocks ?B \<noteq> []"
    by (auto simp: wf_builder_def pending_def numbered_def idents_def new_builder_def)
  have e: "emitting {} ?B B2"
    by (rule emits.trans [OF withinD [OF assms(2) b(1)] withinD [OF compiling_emits(5) b(2)]])
  have "emitting {} ?B (B3\<lparr>insert_point := None\<rparr>)" and len: "length f = length (function_blocks B2)"
    using emitting_leave(1,3) [OF e b(3) HOL.refl _ _ wf(1), of None] by (simp_all add: b(4))
  then have fin: "wf_builder (B3\<lparr>insert_point := None\<rparr>)" "pending (B3\<lparr>insert_point := None\<rparr>) = {}"
    using wf by (simp_all add: emitting_def)
  have "\<exists>t. terminator (f ! b) = Some t \<and> targets t \<subseteq> {..<length f}" if "b < length f" for b
    using fin that by (auto simp: pending_def wf_builder_def b(4) set_eq_iff)
  moreover have "f \<noteq> []"
    using emitting_length [OF e wf(1)] wf(4) len by auto
  moreover have "numbered B3"
    using withinD [OF assms(3) b(1)] withinD [OF numbering.walking_within(5) b(2)] wf(3)
      withinD [OF numbering.terminator_Q b(3)] by (simp add: numbers_def)
  ultimately show ?thesis by (simp add: well_formed_def numbered_def b(4))
qed

text \<open>
  C10. Whatever is compiled, the control flow graph is complete: every block has its terminator,
  every branch goes to a block of the function, and no two instructions define the same value.
\<close>

theorem compiled_well_formed:
  assumes "compileMethod E D cls c = Inr (f, c') \<or> compileClosure E D c = Inr (f, c')"
  shows "well_formed f"
  using assms
proof
  assume "compileMethod E D cls c = Inr (f, c')"
  then obtain k :: cls and info c1 where r: "build_function D (seq (method_prologue D info (indexedIVarNames k)) (compile_body E D)) c1 = Inr (f, c')"
    unfolding compileMethod_def by (elim bind_InrE) (rule that)
  show "well_formed f"
    by (intro built_well_formed [OF r] emits_prologue numbering.walk_prologue numbers_symbol)
next
  assume "compileClosure E D c = Inr (f, c')"
  then obtain info c1 where r: "build_function D (seq (closure_prologue D info) (compile_body E D)) c1 = Inr (f, c')"
    unfolding compileClosure_def by (elim bind_InrE) (rule that)
  show "well_formed f"
    by (intro built_well_formed [OF r] emits_prologue numbering.walk_prologue numbers_symbol)
qed

definition identity_decl :: cdecl where
  "identity_decl = ClosureDecl 0x5000 ''f'' [''x''] [IfStatement 0x5010 (VarRef 0x5018 ''x'') [Return 0x5020 (VarRef 0x5028 ''x'')]]"

text \<open>Three blocks: the entry, the block after the conditional and its body.\<close>

lemma compiled_well_formed_witness:
  "\<exists>f c'. compileClosure sample_env identity_decl initial_context = Inr (f, c') \<and> length f = 3 \<and> well_formed f"
proof -
  have "\<exists>f c'. compileClosure sample_env identity_decl initial_context = Inr (f, c') \<and> length f = 3"
    by (simp add: compileClosure_def build_function_def identity_decl_def new_builder_def closure_prologue_def
      compile_body_def sem_simps initial_context_def fresh_decl_def reset_jit_function_def create_def append_instr_def
      empty_block_def set_csymbol_def create_store_def array_symbols_def lookupSymbolAddr_def create_block_def
      getAsSmallInt_def getAsObject_def create_terminator_def)
  then obtain f c' where "compileClosure sample_env identity_decl initial_context = Inr (f, c')" "length f = 3"
    by (elim exE conjE)
  with compiled_well_formed [OF disjI2 [OF this(1)]] show ?thesis by blast
qed

end
