(* ===== verification/Code_Logic.thy ===== *)
theory Code_Logic
  imports Compile_Shape
begin

text \<open>
  Reasoning about generated code while it is being generated: a part of the compiler's walk is
  judged by what running the instructions does that it adds to the function.
\<close>

section \<open>Runs\<close>

inductive reaches :: "machine \<Rightarrow> ir \<Rightarrow> config \<Rightarrow> ctx \<Rightarrow> config \<Rightarrow> ctx \<Rightarrow> bool" for m f where
  here: "reaches m f cfg d cfg d"
| step: "Generated_Code.step m f b i r d = Inr (cfg, d') \<Longrightarrow> reaches m f cfg d' cfg' d'' \<Longrightarrow>
    reaches m f (At b i r) d cfg' d''"

lemma reaches_trans: "reaches m f cfg d cfg' d' \<Longrightarrow> reaches m f cfg' d' cfg'' d'' \<Longrightarrow> reaches m f cfg d cfg'' d''"
  by (induction rule: reaches.induct) (auto intro: reaches.step)

lemma reaches_one: "Generated_Code.step m f b i r d = Inr (cfg, d') \<Longrightarrow> reaches m f (At b i r) d cfg d'"
  by (rule reaches.step [OF _ reaches.here])

text \<open>A run that returns is a run with enough fuel.\<close>

lemma reaches_execute: "reaches m f cfg d (Returned v) d' \<Longrightarrow> \<exists>k. execute k m f cfg d = Inr (v, d')"
proof (induction cfg d "Returned v" d' rule: reaches.induct)
  case (here d)
  show ?case by (rule exI [of _ 0]) (simp add: sem_simps)
next
  case (step b i r d cfg d' d'')
  then obtain k where "execute k m f cfg d' = Inr (v, d'')" by blast
  then have "execute (Suc k) m f (At b i r) d = Inr (v, d'')"
    using step(1) by (simp add: sem_simps)
  then show ?case by blast
qed

section \<open>The function in its final form\<close>

definition final :: "builder \<Rightarrow> ir \<Rightarrow> bool" where
  "final B f \<longleftrightarrow> length (function_blocks B) \<le> length f \<and>
     (\<forall>b < length (function_blocks B). insert_point B \<noteq> Some b \<and> b \<notin> pending B \<longrightarrow> f ! b = function_blocks B ! b) \<and>
     (\<forall>b. insert_point B = Some b \<longrightarrow> (\<exists>ks. instrs (f ! b) = instrs (function_blocks B ! b) @ ks))"

lemma final_back:
  assumes "emitting N B B'" and "final B' f" and "wf_builder B"
  shows "final B f"
proof -
  note e = assms(1) [unfolded emitting_def, rule_format, OF assms(3)]
  have same: "f ! b = function_blocks B ! b"
    if "b < length (function_blocks B)" "insert_point B \<noteq> Some b" "b \<notin> pending B" for b
  proof -
    have "b \<notin> pending B'" using that e by (auto simp: subset_iff)
    moreover have "insert_point B' \<noteq> Some b" using that e by (metis not_le)
    ultimately have "f ! b = function_blocks B' ! b" using assms(2) that e by (simp add: final_def)
    then show ?thesis using that e by simp
  qed
  have "\<exists>ks. instrs (f ! b) = instrs (function_blocks B ! b) @ ks" if ib: "insert_point B = Some b" for b
  proof -
    have b: "b < length (function_blocks B)" "terminator (function_blocks B ! b) = None"
      using assms(3) that by (auto simp: wf_builder_def)
    obtain ks where ks: "instrs (function_blocks B' ! b) = instrs (function_blocks B ! b) @ ks"
      using e ib by blast
    show ?thesis
    proof (cases "insert_point B' = Some b")
      case True
      then show ?thesis using assms(2) ks by (auto simp: final_def)
    next
      case False
      have "b \<notin> pending B'" using that e b by (auto simp: pending_def subset_iff)
      then have "f ! b = function_blocks B' ! b" using assms(2) False b e by (simp add: final_def)
      then show ?thesis using ks by auto
    qed
  qed
  then show ?thesis using same assms(2) e by (auto simp: final_def)
qed

section \<open>Parts of the walk\<close>

definition part :: "builder \<Rightarrow> builder \<Rightarrow> bool" where
  "part B B' \<longleftrightarrow> emitting {} B B' \<and> numbers B B' \<and> csymbols B' = csymbols B \<and>
     (insert_point B \<noteq> None \<longrightarrow> insert_point B' \<noteq> None)"

interpretation parts: effect part
proof unfold_locales
  fix B C D
  show "part B B" by (simp add: part_def emitting_refl numbering.Q_refl)
  show "part B C \<Longrightarrow> part C D \<Longrightarrow> part B D"
    by (auto simp: part_def intro: emits.trans numbering.Q_trans)
qed

lemma within_conj: "within Q p \<Longrightarrow> within R p \<Longrightarrow> within (\<lambda>s s'. Q s s' \<and> R s s') p"
  by (simp add: within_def)

text \<open>The insert point stays, or is taken up again, except after a return statement.\<close>

definition goes_on :: "builder \<Rightarrow> builder \<Rightarrow> bool" where
  "goes_on B B' \<longleftrightarrow> csymbols B' = csymbols B \<and> (insert_point B \<noteq> None \<longrightarrow> insert_point B' \<noteq> None)"

interpretation going: effect goes_on
  by unfold_locales (auto simp: goes_on_def)

lemma going_steps:
  "within goes_on (create ins)" "within goes_on (create_terminator t)" "within goes_on create_block"
  "within goes_on (SetInsertPoint b)" "within goes_on (on_runtime r)"
  by (auto simp: within_def goes_on_def create_def append_instr_def create_terminator_def create_block_def
      on_runtime_def sem_simps split: option.splits if_splits sum.splits)

lemma going_helpers:
  "within goes_on (create_store v p)" "within goes_on reset_jit_function"
  "within goes_on (getAsObject v)" "within goes_on (getAsSmallInt v)"
  "within goes_on (small_int_of v)" "within goes_on (compileBinOp op l r)"
  "within goes_on (compile_string E n st)" "within goes_on (compile_new cname)"
  "within goes_on (compile_closure_call ob as)" "within goes_on (compile_guard a ob h miss)"
  "within goes_on (compile_fast_path n s ob sel as)" "within goes_on (the_symbol x)"
  "within goes_on (lookupSymbolAddr x)" "within goes_on (condition_test v)"
  unfolding create_store_def reset_jit_function_def getAsObject_def getAsSmallInt_def small_int_of_def
    compileBinOp_def compile_compare_def compileBinaryOp_def compile_string_def compile_new_def
    compile_closure_call_def compile_guard_def compile_fast_path_def the_symbol_def lookupSymbolAddr_def
    condition_test_def
  by (intro going.within_intros going_steps)+

lemma going_operands: "within goes_on (the_operands vs)"
  by (induction vs) (auto intro!: going.within_intros split: option.split)

lemma going_captured: "within goes_on (copy_captured xs arr i)"
  by (induction xs arbitrary: i) (simp_all add: going.within_intros going_steps going_helpers)

lemma going_calls:
  "within goes_on (compile_closure D)" "within goes_on (compile_slow_path n)"
  "within goes_on (compile_method_call n ob sel as)"
  unfolding compile_method_call_def compile_slow_path_def patchpoint_operands_def compile_closure_def Let_def
  by (intro going.within_intros going_steps going_helpers going_operands going_captured)+

lemma going_expressions:
  "within goes_on (compile_expr E e)" "(D :: cdecl) = D" "(s :: stmt) = s" "within goes_on (compile_args E es)"
  "(ss :: stmt list) = ss" "(i :: expr option) = i"
proof (induction e and D and s and es and ss and i rule: syntax_induct)
qed (simp_all only: compile_expr.simps compile_args.simps,
   (intro going.within_intros going_steps going_helpers going_calls | assumption)+)

lemma partI: "within (emitting {}) p \<Longrightarrow> within numbers p \<Longrightarrow> within goes_on p \<Longrightarrow> within part p"
  by (auto simp: within_def part_def goes_on_def)

lemma part_steps:
  "within part (create ins)" "within rt_grows r \<Longrightarrow> within part (on_runtime r)"
  "within part (compile_expr E e)" "within part (compile_args E es)" "within part (condition_test v)"
  "within part (compileBinOp op l r')" "within part (the_symbol x)" "within part (lookupSymbolAddr x)"
  "within part (getAsObject v)" "within part (getAsSmallInt v)" "within part (small_int_of v)"
  "within part (create_store v a)"
proof -
  have "within numbers (condition_test v)"
    unfolding condition_test_def by (intro numbering.walk_intros numbering.walk_helpers)
  then show "within part (condition_test v)" by (intro partI emits_test going_helpers)
qed (intro partI create_emits numbering.create_Q going_steps on_runtime_emits numbering.runtime_Q compiling_emits
    numbering.walking_within going_expressions emits_helpers emits_symbol numbering.walk_helpers going_helpers | assumption)+

section \<open>Judgements\<close>

text \<open>
  Where compiled and interpreted code part: a comparison of two words that differ only in their
  tags; an operator on something else than two integers; a call that leaves the function; a call
  guard that reads the class pointer of a small integer, or that tests the tag of an odd word that
  is none; and a call through the cached method of a call site that had cached none.
\<close>

fun parting :: "activation \<Rightarrow> instr \<Rightarrow> bool" where
  "parting r (ICmp op a b) = (\<exists>x y. operand_value r a = Inr (Word x) \<and> operand_value r b = Inr (Word y) \<and>
     x \<noteq> y \<and> asr3 x = asr3 y)"
| "parting r (CallHelper op a b) = (\<exists>x y. operand_value r a = Inr (Word x) \<and> operand_value r b = Inr (Word y) \<and>
     \<not> (isInteger x \<and> isInteger y))"
| "parting r (Patchpoint vs) = True"
| "parting r (IsaPtr a) = (\<exists>x. operand_value r a = Inr (Word x) \<and> isInteger x)"
| "parting r (Alu AndOp a b) = (\<exists>x. operand_value r a = Inr (Word x) \<and> bit x 0 \<and> \<not> isInteger x)"
| "parting r (Load a) = (a = Const (Word 0))"
| "parting r _ = False"

definition departs :: "machine \<Rightarrow> ir \<Rightarrow> config \<Rightarrow> ctx \<Rightarrow> bool" where
  "departs m f cfg d \<longleftrightarrow> (\<exists>b i r d'. reaches m f cfg d (At b i r) d' \<and>
     b < length f \<and> i < length (instrs (f ! b)) \<and> parting r (snd (instrs (f ! b) ! i)))"

lemma departs_later: "reaches m f cfg d cfg' d' \<Longrightarrow> departs m f cfg' d' \<Longrightarrow> departs m f cfg d"
  unfolding departs_def by (blast intro: reaches_trans)

definition point :: "builder \<Rightarrow> activation \<Rightarrow> config" where
  "point B r = (let b = the (insert_point B) in At b (length (instrs (function_blocks B ! b))) r)"

definition agree :: "ident \<Rightarrow> activation \<Rightarrow> activation \<Rightarrow> bool" where
  "agree n r r' \<longleftrightarrow> arguments r' = arguments r \<and> (\<forall>i < n. registers r' i = registers r i)"

lemma agree_refl [simp]: "agree n r r"
  by (simp add: agree_def)

lemma agree_trans: "agree n r r' \<Longrightarrow> agree n' r' r'' \<Longrightarrow> n \<le> n' \<Longrightarrow> agree n r r''"
  by (simp add: agree_def)

lemma agree_define [simp]: "n \<le> i \<Longrightarrow> agree n r (define_result i v r)"
  by (simp add: agree_def define_result_def)

fun operand_below :: "ident \<Rightarrow> operand \<Rightarrow> bool" where
  "operand_below n (Result i) = (i < n)"
| "operand_below n _ = True"

definition holds :: "operand \<Rightarrow> rvalue \<Rightarrow> builder \<Rightarrow> activation \<Rightarrow> bool" where
  "holds v x B r \<longleftrightarrow> operand_below (next_ident B) v \<and> operand_value r v = Inr x"

lemma operand_agree: "operand_below n v \<Longrightarrow> agree n r r' \<Longrightarrow> operand_value r' v = operand_value r v"
  by (cases v) (auto simp: agree_def)

lemma holds_Const [simp]: "holds (Const x) y B r \<longleftrightarrow> y = x"
  by (auto simp: holds_def)

text \<open>Facts about an activation that later instructions do not disturb.\<close>

definition stable :: "(builder \<Rightarrow> activation \<Rightarrow> bool) \<Rightarrow> bool" where
  "stable S \<longleftrightarrow> (\<forall>B B' r r'. S B r \<and> agree (next_ident B) r r' \<and> next_ident B \<le> next_ident B' \<and>
     csymbols B' = csymbols B \<and> compiling B' = compiling B \<longrightarrow> S B' r')"

lemma stableD: "stable S \<Longrightarrow> S B r \<Longrightarrow> agree (next_ident B) r r' \<Longrightarrow> next_ident B \<le> next_ident B' \<Longrightarrow>
    csymbols B' = csymbols B \<Longrightarrow> compiling B' = compiling B \<Longrightarrow> S B' r'"
  unfolding stable_def by blast

lemma stable_holds: "stable (holds v x)"
  unfolding stable_def holds_def
proof (intro allI impI)
  fix B B' r r'
  assume a: "(operand_below (next_ident B) v \<and> operand_value r v = Inr x) \<and> agree (next_ident B) r r' \<and>
    next_ident B \<le> next_ident B' \<and> csymbols B' = csymbols B \<and> compiling B' = compiling B"
  then have "operand_below (next_ident B') v" by (cases v) auto
  then show "operand_below (next_ident B') v \<and> operand_value r' v = Inr x"
    using a operand_agree by auto
qed

lemma stable_conj: "stable S \<Longrightarrow> stable S' \<Longrightarrow> stable (\<lambda>B r. S B r \<and> S' B r)"
  unfolding stable_def by blast

lemma stable_const: "stable (\<lambda>B r. C)"
  by (simp add: stable_def)

definition code ::
  "machine \<Rightarrow> ir \<Rightarrow> ctx \<Rightarrow> (builder \<Rightarrow> activation \<Rightarrow> ctx \<Rightarrow> bool) \<Rightarrow> 'a build \<Rightarrow>
   ('a \<Rightarrow> builder \<Rightarrow> activation \<Rightarrow> ctx \<Rightarrow> bool) \<Rightarrow> bool" where
  "code m f cf P p Q \<longleftrightarrow> (\<forall>B v B' r d. p B = Inr (v, B') \<and> wf_builder B \<and> insert_point B \<noteq> None \<and>
     final B' f \<and> rt_grows (rt B') cf \<and> P B r d \<longrightarrow>
     (\<exists>r' d'. reaches m f (point B r) d (point B' r') d' \<and> agree (next_ident B) r r' \<and> Q v B' r' d') \<or>
     departs m f (point B r) d)"

lemma codeI:
  assumes "\<And>B v B' r d. p B = Inr (v, B') \<Longrightarrow> wf_builder B \<Longrightarrow> insert_point B \<noteq> None \<Longrightarrow> final B' f \<Longrightarrow>
     rt_grows (rt B') cf \<Longrightarrow> P B r d \<Longrightarrow>
     (\<exists>r' d'. reaches m f (point B r) d (point B' r') d' \<and> agree (next_ident B) r r' \<and> Q v B' r' d') \<or>
     departs m f (point B r) d"
  shows "code m f cf P p Q"
  using assms by (simp add: code_def)

lemma codeE:
  assumes "code m f cf P p Q" and "p B = Inr (v, B')" and "wf_builder B" and "insert_point B \<noteq> None"
    and "final B' f" and "rt_grows (rt B') cf" and "P B r d"
  obtains (normal) r' d' where "reaches m f (point B r) d (point B' r') d'" and "agree (next_ident B) r r'"
    and "Q v B' r' d'" | (departs) "departs m f (point B r) d"
  using assms unfolding code_def by blast

lemma code_weaken:
  assumes "code m f cf P p Q" and "\<And>B r d. P' B r d \<Longrightarrow> P B r d" and "\<And>v B r d. Q v B r d \<Longrightarrow> Q' v B r d"
  shows "code m f cf P' p Q'"
  using assms unfolding code_def by meson

lemma part_back:
  assumes "part B B'" and "wf_builder B" and "final B' f" and "rt_grows (rt B') cf"
  shows "final B f" and "rt_grows (rt B) cf" and "wf_builder B'" and "next_ident B \<le> next_ident B'"
    and "csymbols B' = csymbols B" and "compiling B' = compiling B" and "insert_point B \<noteq> None \<Longrightarrow> insert_point B' \<noteq> None"
  using assms by (auto simp: part_def numbers_def intro: final_back emitting_wf growing.trans)

text \<open>Judgements compose along parts of the walk that may enter names into the symbol table as well.\<close>

definition moves :: "builder \<Rightarrow> builder \<Rightarrow> bool" where
  "moves B B' \<longleftrightarrow> emitting {} B B' \<and> numbers B B' \<and> (insert_point B \<noteq> None \<longrightarrow> insert_point B' \<noteq> None)"

interpretation moving: effect moves
proof unfold_locales
  fix B C D
  show "moves B B" by (simp add: moves_def emitting_refl numbering.Q_refl)
  show "moves B C \<Longrightarrow> moves C D \<Longrightarrow> moves B D"
    by (auto simp: moves_def intro: emits.trans numbering.Q_trans)
qed

lemma moves_back:
  assumes "moves B B'" and "wf_builder B" and "final B' f" and "rt_grows (rt B') cf"
  shows "final B f" and "rt_grows (rt B) cf" and "wf_builder B'" and "next_ident B \<le> next_ident B'"
    and "insert_point B \<noteq> None \<Longrightarrow> insert_point B' \<noteq> None"
  using assms by (auto simp: moves_def numbers_def intro: final_back emitting_wf growing.trans)

lemma code_bind_moves:
  assumes "code m f cf P p Q" and "\<And>v. code m f cf (Q v) (g v) R" and "within moves p" and "\<And>v. within moves (g v)"
  shows "code m f cf P (bind p g) R"
proof (rule codeI)
  fix B v B' r d
  assume run: "bind p g B = Inr (v, B')" and wf: "wf_builder B" "insert_point B \<noteq> None"
    and fin: "final B' f" "rt_grows (rt B') cf" and P: "P B r d"
  obtain a B1 where 1: "p B = Inr (a, B1)" and 2: "g a B1 = Inr (v, B')"
    using run by (rule bind_InrE)
  have p1: "moves B B1" by (rule withinD [OF assms(3) 1])
  have p2: "moves B1 B'" by (rule withinD [OF assms(4) 2])
  have wf1: "wf_builder B1" using p1 wf by (auto simp: moves_def intro: emitting_wf)
  note bk = moves_back [OF p2 wf1 fin]
  note fwd = moves_back [OF p1 wf(1) bk(1,2)]
  show "(\<exists>r' d'. reaches m f (point B r) d (point B' r') d' \<and> agree (next_ident B) r r' \<and> R v B' r' d') \<or>
     departs m f (point B r) d"
  proof (rule codeE [OF assms(1) 1 wf bk(1,2) P])
    fix r1 d1
    assume a: "reaches m f (point B r) d (point B1 r1) d1" "agree (next_ident B) r r1" "Q a B1 r1 d1"
    show ?thesis
    proof (rule codeE [OF assms(2) 2 wf1 fwd(5) [OF wf(2)] fin a(3)])
      fix r2 d2
      assume "reaches m f (point B1 r1) d1 (point B' r2) d2" "agree (next_ident B1) r1 r2" "R v B' r2 d2"
      then show ?thesis using a fwd(4) by (blast intro: reaches_trans agree_trans)
    qed (use a in \<open>blast intro: departs_later\<close>)
  qed blast
qed

lemma part_moves: "within part p \<Longrightarrow> within moves p"
  by (auto simp: part_def moves_def within_def)

lemma code_bind:
  assumes "code m f cf P p Q" and "\<And>v. code m f cf (Q v) (g v) R" and "within part p" and "\<And>v. within part (g v)"
  shows "code m f cf P (bind p g) R"
  using assms by (intro code_bind_moves part_moves)

lemma code_seq:
  assumes "code m f cf P p (\<lambda>_. Q)" and "code m f cf Q g R" and "within part p" and "within part g"
  shows "code m f cf P (seq p g) R"
  unfolding seq_def by (rule code_bind [OF assms(1)]) (simp_all add: assms)

lemma code_return: "code m f cf P (return v) (\<lambda>v' B r d. v' = v \<and> P B r d)"
  by (rule codeI) (auto simp: sem_simps intro!: exI reaches.here)

lemma code_done: "(\<And>B r d. P B r d \<Longrightarrow> Q v B r d) \<Longrightarrow> code m f cf P (return v) Q"
  by (rule code_weaken [OF code_return]) auto

lemma code_frame:
  assumes "code m f cf P p Q" and "stable S" and "within part p"
  shows "code m f cf (\<lambda>B r d. P B r d \<and> S B r) p (\<lambda>v B r d. Q v B r d \<and> S B r)"
proof (rule codeI)
  fix B v B' r d
  assume run: "p B = Inr (v, B')" and wf: "wf_builder B" "insert_point B \<noteq> None"
    and fin: "final B' f" "rt_grows (rt B') cf" and P: "P B r d \<and> S B r"
  note bk = part_back [OF withinD [OF assms(3) run] wf(1) fin]
  show "(\<exists>r' d'. reaches m f (point B r) d (point B' r') d' \<and> agree (next_ident B) r r' \<and> Q v B' r' d' \<and> S B' r') \<or>
     departs m f (point B r) d"
  proof (rule codeE [OF assms(1) run wf fin P [THEN conjunct1]])
    fix r' d'
    assume a: "reaches m f (point B r) d (point B' r') d'" "agree (next_ident B) r r'" "Q v B' r' d'"
    then have "S B' r'" using assms(2) P bk(4-6) unfolding stable_def by blast
    with a show ?thesis by blast
  qed blast
qed

text \<open>A created instruction stands at the insert point.\<close>

lemma create_position:
  assumes "create ins B = Inr (v, B')" and "insert_point B = Some b" and "wf_builder B" and "final B' f"
  shows "v = Result (next_ident B)" and "next_ident B' = Suc (next_ident B)" and "insert_point B' = Some b"
    and "b < length f" and "length (instrs (function_blocks B ! b)) < length (instrs (f ! b))"
    and "instrs (f ! b) ! length (instrs (function_blocks B ! b)) = (next_ident B, ins)"
    and "point B' r = At b (Suc (length (instrs (function_blocks B ! b)))) r"
    and "rt B' = rt B" and "csymbols B' = csymbols B" and "compiling B' = compiling B"
proof -
  let ?f = "function_blocks B"
  have b: "b < length ?f" "terminator (?f ! b) = None" using assms(2,3) by (auto simp: wf_builder_def)
  have B': "B' = B\<lparr>function_blocks := ?f[b := (?f ! b)\<lparr>instrs := instrs (?f ! b) @ [(next_ident B, ins)]\<rparr>],
      next_ident := Suc (next_ident B)\<rparr>" "v = Result (next_ident B)"
    using assms(1,2) by (auto simp: create_def append_instr_def sem_simps split: if_splits)
  show "v = Result (next_ident B)" "next_ident B' = Suc (next_ident B)" "insert_point B' = Some b"
    "rt B' = rt B" "csymbols B' = csymbols B" "compiling B' = compiling B"
    using B' assms(2) by simp_all
  obtain ks where ks: "instrs (f ! b) = (instrs (?f ! b) @ [(next_ident B, ins)]) @ ks"
    using assms(4,2) b by (auto simp: final_def B'(1))
  show "b < length f" using assms(4) b by (simp add: final_def B'(1))
  show "length (instrs (?f ! b)) < length (instrs (f ! b))" by (simp add: ks)
  show "instrs (f ! b) ! length (instrs (?f ! b)) = (next_ident B, ins)" by (simp add: ks nth_append)
  show "point B' r = At b (Suc (length (instrs (?f ! b)))) r"
    using assms(2) b by (simp add: point_def B'(1) Let_def)
qed

lemma code_create:
  assumes "\<And>B r d. P B r d \<Longrightarrow> \<not> parting r ins \<Longrightarrow> \<exists>x d'. execute_instr m r ins d = Inr (x, d') \<and> R x d'"
    and "stable S" and "\<And>B r d. P B r d \<Longrightarrow> S B r"
  shows "code m f cf P (create ins) (\<lambda>v B r d. \<exists>x. holds v x B r \<and> R x d \<and> S B r)"
proof (rule codeI)
  fix B v B' r d
  assume run: "create ins B = Inr (v, B')" and wf: "wf_builder B" "insert_point B \<noteq> None"
    and fin: "final B' f" "rt_grows (rt B') cf" and P: "P B r d"
  obtain b where b: "insert_point B = Some b" using wf(2) by auto
  note pos = create_position [OF run b wf(1) fin(1)]
  have here: "point B r = At b (length (instrs (function_blocks B ! b))) r" by (simp add: point_def b Let_def)
  show "(\<exists>r' d'. reaches m f (point B r) d (point B' r') d' \<and> agree (next_ident B) r r' \<and>
      (\<exists>x. holds v x B' r' \<and> R x d' \<and> S B' r')) \<or> departs m f (point B r) d"
  proof (cases "parting r ins")
    case True
    have "departs m f (point B r) d"
      unfolding departs_def here using pos True by (intro exI conjI) (rule reaches.here, simp_all)
    then show ?thesis ..
  next
    case False
    from assms(1) [OF P False] obtain x d' where x: "execute_instr m r ins d = Inr (x, d')" "R x d'" by blast
    let ?r = "define_result (next_ident B) x r"
    have "Generated_Code.step m f b (length (instrs (function_blocks B ! b))) r d = Inr (point B' ?r, d')"
      using pos x by (simp add: Generated_Code.step_def sem_simps)
    then have "reaches m f (point B r) d (point B' ?r) d'" unfolding here by (rule reaches_one)
    moreover have "holds v x B' ?r" using pos by (simp add: holds_def define_result_def)
    moreover have "S B' ?r"
      using stableD [OF assms(2) assms(3) [OF P], of ?r B'] pos(2,9,10) agree_define [OF le_refl] by simp
    ultimately show ?thesis using x(2) agree_define [OF le_refl] by blast
  qed
qed

end
