(* ===== verification/Code_Walks.thy ===== *)
theory Code_Walks
  imports Code_Logic
begin

text \<open>
  Blocks of generated code: leaving a block by its terminator, the start of a block that is still
  empty, and what a walk of the compiler leaves as it is.
\<close>

lemma holdsD: "holds v x B r \<Longrightarrow> operand_value r v = Inr x"
  by (simp add: holds_def)

lemma word_operand_value: "operand_value r v = Inr (Word x) \<Longrightarrow> word_operand r v d = Inr (x, d)"
  by (simp add: word_operand_def sem_simps)

lemma word_operand_Const: "word_operand r (Const (Word x)) d = Inr (x, d)"
  by (simp add: word_operand_def sem_simps)

lemma operand_below_mono: "operand_below n v \<Longrightarrow> n \<le> n' \<Longrightarrow> operand_below n' v"
  by (cases v) auto

lemma holds_later: "holds v x B r \<Longrightarrow> agree (next_ident B) r r' \<Longrightarrow> next_ident B \<le> next_ident B' \<Longrightarrow> holds v x B' r'"
  using operand_agree by (auto simp: holds_def intro: operand_below_mono)

section \<open>Leaving a block\<close>

lemma control_same:
  "create_terminator t B = Inr (u, B') \<Longrightarrow> rt B' = rt B \<and> next_ident B' = next_ident B \<and> csymbols B' = csymbols B \<and>
     insert_point B' = insert_point B"
  "create_block B = Inr (l, B') \<Longrightarrow> rt B' = rt B \<and> next_ident B' = next_ident B \<and> csymbols B' = csymbols B"
  by (auto simp: create_terminator_def create_block_def sem_simps split: option.splits if_splits)

lemma terminated_blocks:
  assumes "create_terminator t B = Inr ((), B1)" and "insert_point B = Some b"
  shows "function_blocks B1 = (function_blocks B)[b := (function_blocks B ! b)\<lparr>terminator := Some t\<rparr>]"
    and "b < length (function_blocks B)"
  using assms by (auto simp: create_terminator_def sem_simps split: if_splits)

lemma final_leave:
  assumes "create_terminator t B = Inr ((), B1)" and "final (B1\<lparr>insert_point := p\<rparr>) f" and "wf_builder B"
    and "set_option p \<subseteq> pending B"
  shows "final B f"
proof (cases "insert_point B")
  case None
  then have "B1 = B" using assms(1) by (simp add: create_terminator_def sem_simps)
  then show ?thesis
    using assms(2,4) None by (auto simp: final_def pending_def)
next
  case (Some k)
  note fb = terminated_blocks [OF assms(1) Some]
  have p: "p \<noteq> Some k" using assms(4) Some by (auto simp: pending_def)
  have pend: "pending (B1\<lparr>insert_point := p\<rparr>) = pending B - set_option p"
    using fb p by (cases p) (auto simp: pending_def nth_list_update Some split: if_splits)
  have "f ! k = (function_blocks B ! k)\<lparr>terminator := Some t\<rparr>"
    using assms(2) fb p by (auto simp: final_def pending_def)
  moreover have "f ! b = function_blocks B ! b"
    if b: "b < length (function_blocks B)" "insert_point B \<noteq> Some b" "b \<notin> pending B" for b
  proof -
    have "p \<noteq> Some b" using b assms(4) by auto
    then have "f ! b = function_blocks B1 ! b"
      using assms(2) b pend fb by (auto simp: final_def)
    then show ?thesis using b fb Some by auto
  qed
  ultimately show ?thesis using assms(2) fb Some by (auto simp: final_def)
qed

lemma leave_step:
  assumes "create_terminator t B = Inr ((), B1)" and "insert_point B \<noteq> None" and "wf_builder B"
    and "final (B1\<lparr>insert_point := p\<rparr>) f" and "set_option p \<subseteq> pending B"
    and "take_terminator r (Some t) d = Inr (cfg, d')"
  shows "reaches m f (point B r) d cfg d'"
proof -
  obtain b where b: "insert_point B = Some b" using assms(2) by auto
  note fb = terminated_blocks [OF assms(1) b]
  have p: "p \<noteq> Some b" using assms(5) b by (auto simp: pending_def)
  have "f ! b = (function_blocks B ! b)\<lparr>terminator := Some t\<rparr>" "b < length f"
    using assms(4) fb p by (auto simp: final_def pending_def)
  then have "Generated_Code.step m f b (length (instrs (function_blocks B ! b))) r d = Inr (cfg, d')"
    using assms(6) by (simp add: Generated_Code.step_def)
  then show ?thesis by (simp add: point_def b reaches_one Let_def)
qed

section \<open>Walks\<close>

text \<open>Walks keep the symbols as well as the numbering.\<close>

definition walks :: "builder \<Rightarrow> builder \<Rightarrow> bool" where
  "walks B B' \<longleftrightarrow> numbers B B' \<and> csymbols B' = csymbols B"

interpretation walked: walk walks
proof unfold_locales
qed (auto simp: walks_def within_def create_def append_instr_def create_terminator_def create_block_def sem_simps
      intro: numbering.Q_refl numbering.Q_trans numbering.rt_Q
        withinD [OF numbering.create_Q] withinD [OF numbering.terminator_Q] withinD [OF numbering.block_Q]
        withinD [OF numbering.point_Q(1)] withinD [OF numbering.point_Q(2)] split: option.splits if_splits)

lemma walked_back:
  assumes "walks B B'" and "rt_grows (rt B') cf"
  shows "rt_grows (rt B) cf" and "next_ident B \<le> next_ident B'" and "csymbols B' = csymbols B"
  using assms by (auto simp: walks_def numbers_def intro: growing.trans)

text \<open>The start of a block that is still empty.\<close>

lemma point_empty: "insert_point B = Some b \<Longrightarrow> function_blocks B ! b = empty_block \<Longrightarrow> point B r = At b 0 r"
  by (simp add: point_def)

lemma point_block: "create_block B = Inr (l, B') \<Longrightarrow> wf_builder B \<Longrightarrow> insert_point B \<noteq> None \<Longrightarrow> point B' r = point B r"
  by (auto simp: create_block_def sem_simps point_def Let_def wf_builder_def nth_append)

lemma branch_step:
  assumes "create_terminator (CondBr v b1 b2) B = Inr ((), B1)" and "insert_point B \<noteq> None" and "wf_builder B"
    and "final (B1\<lparr>insert_point := p\<rparr>) f" and "set_option p \<subseteq> pending B" and "holds v (Bit t) B r"
  shows "reaches m f (point B r) d (At (if t then b1 else b2) 0 r) d"
  by (rule leave_step [OF assms(1-5)]) (use assms(6) in \<open>auto simp: sem_simps holds_def\<close>)

lemma jump_step:
  assumes "create_terminator (Br b) B = Inr ((), B1)" and "insert_point B \<noteq> None" and "wf_builder B"
    and "final (B1\<lparr>insert_point := p\<rparr>) f" and "set_option p \<subseteq> pending B"
  shows "reaches m f (point B r) d (At b 0 r) d"
  by (rule leave_step [OF assms(1-5)]) (simp add: sem_simps)

lemma reserved_pending: "emitting N B B' \<Longrightarrow> wf_builder B \<Longrightarrow> N \<subseteq> pending B'"
  by (simp add: emitting_def)

lemma emitting_point: "emitting {} B B' \<Longrightarrow> emitting N A B \<Longrightarrow> wf_builder A \<Longrightarrow> n \<in> N \<Longrightarrow>
    function_blocks B' ! n = empty_block"
  using emitting_step [of N A B B'] by (auto simp: emitting_def)

lemma walks_leave: "create_terminator t B = Inr ((), B1) \<Longrightarrow> walks B (B1\<lparr>insert_point := p\<rparr>)"
  using withinD [OF walked.terminator_Q, of t B "()" B1] by (simp add: walks_def numbers_def numbered_def)

lemma test_walks: "within walks (condition_test v)"
  unfolding condition_test_def by (intro walked.walk_intros walked.walk_helpers)

end
