(* ===== verification/Call_Code.thy ===== *)
theory Call_Code
  imports Code_Walks
begin

text \<open>
  The code of a call: its guard, the slow path apart, and the way through it.  A guard that holds
  calls the method that the call site had cached when the function was compiled, with the effect
  that the interpreter's call has at that site.
\<close>

section \<open>Creating instructions\<close>

text \<open>Creating instructions and blocks leaves the program alone.\<close>

definition same_program :: "builder \<Rightarrow> builder \<Rightarrow> bool" where
  "same_program B B' \<longleftrightarrow> rt B' = rt B \<and> compiling B' = compiling B"

interpretation unchanged: effect same_program
  by unfold_locales (auto simp: same_program_def)

lemma unchanged_steps:
  "within same_program (create ins)" "within same_program create_block" "within same_program (create_terminator t)"
  by (auto simp: within_def create_def append_instr_def create_block_def create_terminator_def sem_simps same_program_def
      split: option.splits if_splits)

lemma create_step:
  assumes "create ins B = Inr (v, B')" and "insert_point B \<noteq> None" and "wf_builder B" and "final B' f"
    and "execute_instr m r ins d = Inr (x, d')"
  shows "reaches m f (point B r) d (point B' (define_result (next_ident B) x r)) d'"
    and "holds v x B' (define_result (next_ident B) x r)"
proof -
  obtain b where b: "insert_point B = Some b" using assms(2) by auto
  note pos = create_position [OF assms(1) b assms(3,4)]
  have "Generated_Code.step m f b (length (instrs (function_blocks B ! b))) r d = Inr (point B' (define_result (next_ident B) x r), d')"
    using pos assms(5) by (simp add: Generated_Code.step_def sem_simps)
  then show "reaches m f (point B r) d (point B' (define_result (next_ident B) x r)) d'"
    by (simp add: point_def [of B] b Let_def reaches_one)
  show "holds v x B' (define_result (next_ident B) x r)" using pos by (simp add: holds_def define_result_def)
qed

text \<open>An instruction that is created first runs first, and one created last gives the result.\<close>

lemma created_first:
  assumes "bind (create ins) g B = Inr (v, B')" and "\<And>k. within part (g k)"
    and "wf_builder B" "insert_point B \<noteq> None" and "final B' f" and "execute_instr m r ins d = Inr (x, d1)"
  obtains k B1 r1 where "g k B1 = Inr (v, B')" and "wf_builder B1" "insert_point B1 \<noteq> None"
    and "holds k x B1 r1" and "agree (next_ident B) r r1" and "next_ident B \<le> next_ident B1" and "same_program B B1"
    and "reaches m f (point B r) d (point B1 r1) d1"
proof -
  obtain k B1 where b: "create ins B = Inr (k, B1)" "g k B1 = Inr (v, B')" using assms(1) by (rule bind_InrE)
  have p1: "part B B1" and p2: "part B1 B'" using withinD [OF part_steps(1) b(1)] withinD [OF assms(2) b(2)] by auto
  then have wf1: "wf_builder B1" "insert_point B1 \<noteq> None" using assms(3,4) by (auto simp: part_def intro: emitting_wf)
  have fin1: "final B1 f" using p2 assms(5) wf1(1) by (auto simp: part_def intro: final_back)
  note st = create_step [OF b(1) assms(4,3) fin1 assms(6)]
  show thesis
    by (rule that [OF b(2) wf1 st(2) agree_define [OF le_refl] _ withinD [OF unchanged_steps(1) b(1)] st(1)])
      (use p1 in \<open>simp add: part_def numbers_def\<close>)
qed

lemma step_then:
  assumes run: "bind (create ins) g B = Inr (v, B')" and g: "\<And>k. within part (g k)"
    and wf: "wf_builder B" "insert_point B \<noteq> None" and fin: "final B' f"
    and x: "execute_instr m r ins d = Inr (x, d1)"
    and rest: "\<And>k B1 r1. g k B1 = Inr (v, B') \<Longrightarrow> wf_builder B1 \<Longrightarrow> insert_point B1 \<noteq> None \<Longrightarrow> holds k x B1 r1 \<Longrightarrow>
      agree (next_ident B) r r1 \<Longrightarrow> next_ident B \<le> next_ident B1 \<Longrightarrow> same_program B B1 \<Longrightarrow>
      \<exists>r2. reaches m f (point B1 r1) d1 (point B' r2) d2 \<and> agree (next_ident B1) r1 r2 \<and> Q r2"
  shows "\<exists>r2. reaches m f (point B r) d (point B' r2) d2 \<and> agree (next_ident B) r r2 \<and> Q r2"
  by (rule created_first [OF run g wf fin x], drule rest, assumption+) (metis agree_trans reaches_trans)

lemma last_step:
  assumes "create ins B = Inr (v, B')" and "wf_builder B" "insert_point B \<noteq> None" and "final B' f"
    and "execute_instr m r ins d = Inr (x, d1)"
  shows "\<exists>r2. reaches m f (point B r) d (point B' r2) d1 \<and> agree (next_ident B) r r2 \<and> holds v x B' r2"
  using create_step [OF assms(1,3,2,4,5)] agree_define [OF le_refl] by blast

section \<open>The guard\<close>

text \<open>
  What the guard of a call that assumes a class says of a receiver that is not null, and the
  receivers for which it fails.
\<close>

definition guard_says :: "addr \<Rightarrow> obj \<Rightarrow> ctx \<Rightarrow> bool \<Rightarrow> bool" where
  "guard_says assumed w d t \<longleftrightarrow>
     (if assumed = SmallIntClass then bit w 0 = t else \<exists>c. isa w d = Inr (c, d) \<and> (c = assumed) = t)"

definition misses :: "addr \<Rightarrow> obj \<Rightarrow> ctx \<Rightarrow> bool" where
  "misses assumed w d \<longleftrightarrow> w = 0 \<or> guard_says assumed w d False"

definition guard_test :: "addr \<Rightarrow> operand \<Rightarrow> operand build" where
  "guard_test assumed ob =
     (if assumed = SmallIntClass
      then bind (create (Cast ob)) (\<lambda>i. create (Alu AndOp i (Const (Word 7))))
      else bind (create (IsaPtr ob)) (\<lambda>a. bind (create (Load a)) (\<lambda>c. create (ICmp CmpEq (Const (Word assumed)) c))))"

lemma guard_split: "compile_guard assumed ob h l = bind (guard_test assumed ob) (\<lambda>v. create_terminator (CondBr v h l))"
  by (simp add: compile_guard_def guard_test_def bind_assoc)

lemma guard_test_part: "within part (guard_test assumed ob)"
  unfolding guard_test_def by (intro parts.within_intros part_steps)

lemma guard_test_runs:
  assumes run: "guard_test assumed ob B = Inr (v, B')" and wf: "wf_builder B" "insert_point B \<noteq> None" and fin: "final B' f"
    and ob: "holds ob (Word w) B r" and says: "guard_says assumed w d t"
  shows "\<exists>r2. reaches m f (point B r) d (point B' r2) d \<and> agree (next_ident B) r r2 \<and>
    (\<exists>x. holds v x B' r2 \<and> branch_on x = Inr t)"
proof (cases "assumed = SmallIntClass")
  case True
  have run': "bind (create (Cast ob)) (\<lambda>i. create (Alu AndOp i (Const (Word 7)))) B = Inr (v, B')"
    using run True by (simp add: guard_test_def)
  show ?thesis
  proof (rule step_then [OF run' part_steps(1) wf fin])
    show "execute_instr m r (Cast ob) d = Inr (Word w, d)" using ob by (simp add: sem_simps holds_def)
    fix k B1 r1
    assume a: "create (Alu AndOp k (Const (Word 7))) B1 = Inr (v, B')" "wf_builder B1" "insert_point B1 \<noteq> None"
      "holds k (Word w) B1 r1"
    have "branch_on (Word (w AND 7)) = Inr t" using says True by (simp add: guard_says_def bit_and_iff)
    moreover have "execute_instr m r1 (Alu AndOp k (Const (Word 7))) d = Inr (Word (w AND 7), d)"
      using a(4) by (simp add: sem_simps word_operand_value word_operand_Const holds_def)
    ultimately show "\<exists>r2. reaches m f (point B1 r1) d (point B' r2) d \<and> agree (next_ident B1) r1 r2 \<and>
        (\<exists>x. holds v x B' r2 \<and> branch_on x = Inr t)"
      using last_step [OF a(1-3) fin] by blast
  qed
next
  case False
  obtain c where c: "isa w d = Inr (c, d)" "(assumed = c) = t" using says False by (auto simp: guard_says_def)
  have run': "bind (create (IsaPtr ob)) (\<lambda>a. bind (create (Load a)) (\<lambda>c. create (ICmp CmpEq (Const (Word assumed)) c))) B = Inr (v, B')"
    using run False by (simp add: guard_test_def)
  show ?thesis
  proof (rule step_then [OF run' _ wf fin])
    show "execute_instr m r (IsaPtr ob) d = Inr (Ptr (IsaField w), d)" using ob by (simp add: sem_simps word_operand_value holds_def)
    fix k B1 r1
    assume a: "bind (create (Load k)) (\<lambda>c. create (ICmp CmpEq (Const (Word assumed)) c)) B1 = Inr (v, B')" "wf_builder B1"
      "insert_point B1 \<noteq> None" "holds k (Ptr (IsaField w)) B1 r1"
    show "\<exists>r2. reaches m f (point B1 r1) d (point B' r2) d \<and> agree (next_ident B1) r1 r2 \<and>
        (\<exists>x. holds v x B' r2 \<and> branch_on x = Inr t)"
    proof (rule step_then [OF a(1) part_steps(1) a(2,3) fin])
      show "execute_instr m r1 (Load k) d = Inr (Word c, d)" using a(4) c(1) by (simp add: sem_simps place_operand_def holds_def)
      fix k2 B2 r2
      assume a2: "create (ICmp CmpEq (Const (Word assumed)) k2) B2 = Inr (v, B')" "wf_builder B2" "insert_point B2 \<noteq> None"
        "holds k2 (Word c) B2 r2"
      have "execute_instr m r2 (ICmp CmpEq (Const (Word assumed)) k2) d = Inr (Bit t, d)"
        using a2(4) c(2) by (simp add: sem_simps word_operand_value word_operand_Const holds_def)
      then show "\<exists>r3. reaches m f (point B2 r2) d (point B' r3) d \<and> agree (next_ident B2) r2 r3 \<and>
          (\<exists>x. holds v x B' r3 \<and> branch_on x = Inr t)"
        using last_step [OF a2(1-3) fin] by fastforce
    qed
  qed (intro parts.within_intros part_steps)
qed

section \<open>The blocks of a call\<close>

lemma guard_test_same: "within same_program (guard_test assumed ob)"
  unfolding guard_test_def by (intro unchanged.within_intros unchanged_steps)

text \<open>The blocks of a method call, from the final form of the function back to its first instruction.\<close>

lemma call_shape:
  assumes b: "create_block B = Inr (hit, B1)" "create_block B1 = Inr (miss, B2)"
      "create (IsNotNull ob) B2 = Inr (nn, B3)" "create_block B3 = Inr (body, B4)"
      "create_terminator (CondBr nn body miss) B4 = Inr ((), B5)"
      "on_runtime (gets (\<lambda>c. call_sites c n)) (B5\<lparr>insert_point := Some body\<rparr>) = Inr (st, B7)"
      "compile_guard (type_assumption st) ob hit miss B7 = Inr ((), B8)"
      "compile_slow_path n (B8\<lparr>insert_point := Some miss\<rparr>) = Inr ((), B9)"
      "compile_fast_path n st ob sel as (B9\<lparr>insert_point := Some hit\<rparr>) = Inr (res, B')"
    and wf: "wf_builder B" "insert_point B \<noteq> None" and fin: "final B' f"
  obtains G v where "B7 = B5\<lparr>insert_point := Some body\<rparr>"
    and "wf_builder B2" and "insert_point B2 \<noteq> None" and "\<And>r. point B2 r = point B r" and "final B3 f"
    and "wf_builder B4" and "insert_point B4 \<noteq> None" and "\<And>r. point B4 r = point B3 r"
    and "final (B5\<lparr>insert_point := Some body\<rparr>) f" and "{body, miss, hit} \<subseteq> pending B4" and "wf_builder B7"
    and "\<And>r. point B7 r = At body 0 r"
    and "guard_test (type_assumption st) ob B7 = Inr (v, G)" and "create_terminator (CondBr v hit miss) G = Inr ((), B8)"
    and "wf_builder G" and "insert_point G \<noteq> None" and "final G f" and "final (B8\<lparr>insert_point := Some miss\<rparr>) f"
    and "{miss, hit} \<subseteq> pending G" and "wf_builder (B8\<lparr>insert_point := Some miss\<rparr>)"
    and "\<And>r. point (B8\<lparr>insert_point := Some miss\<rparr>) r = At miss 0 r"
    and "final (B9\<lparr>insert_point := Some hit\<rparr>) f" and "hit \<in> pending (B8\<lparr>insert_point := Some miss\<rparr>)"
    and "wf_builder (B9\<lparr>insert_point := Some hit\<rparr>)" and "\<And>r. point (B9\<lparr>insert_point := Some hit\<rparr>) r = At hit 0 r"
proof -
  let ?M = "B8\<lparr>insert_point := Some miss\<rparr>"
  note k1 = emitting_block [OF emitting_refl b(1) wf(1)]
  note wf1 = emitting_wf [OF k1 [THEN conjunct1] wf(1)]
  note k2 = emitting_block [OF k1 [THEN conjunct1] b(2) wf(1)]
  then have e2: "emitting {miss, hit} B B2" by (rule conjunct1)
  note wf2 = emitting_wf [OF e2 wf(1)]
  have ip2: "insert_point B2 \<noteq> None" using k1 k2 wf(2) by simp
  have pt2: "point B2 r = point B r" for r
    using point_block [OF b(1) wf] point_block [OF b(2) wf1] k1 wf(2) by simp
  have e3: "emitting {miss, hit} B B3" by (rule emitting_step [OF e2 withinD [OF create_emits b(3)]])
  note wf3 = emitting_wf [OF e3 wf(1)]
  have ip3: "insert_point B3 \<noteq> None" using withinD [OF going_steps(1) b(3)] ip2 by (simp add: goes_on_def)
  note k4 = emitting_block [OF e3 b(4) wf(1)]
  then have e4: "emitting {body, miss, hit} B B4" by (rule conjunct1)
  note wf4 = emitting_wf [OF e4 wf(1)]
  have ip4: "insert_point B4 \<noteq> None" using k4 ip3 by simp
  have pt4: "point B4 r = point B3 r" for r by (rule point_block [OF b(4) wf3 ip3])
  have ne: "miss \<noteq> hit" "body \<noteq> hit" "body \<noteq> miss"
    using k1 k2 k4 emitting_reserved [OF e3 wf(1), of miss] emitting_reserved [OF e3 wf(1), of hit] by auto
  note g5 = emitting_goto [OF e4 b(5) HOL.refl _ _ wf(1), of body]
  have e5: "emitting {miss, hit} B (B5\<lparr>insert_point := Some body\<rparr>)"
    using g5(1) ne emitting_reserved [OF e4 wf(1)] by (simp add: insert_Diff_if)
  have B7: "B7 = B5\<lparr>insert_point := Some body\<rparr>" using b(6) by (simp add: on_runtime_def sem_simps)
  note wf7 = emitting_wf [OF e5 wf(1), folded B7]
  have pt7: "point B7 r = At body 0 r" for r
    using g5(4) [of body] emitting_reserved [OF e4 wf(1)] by (simp add: B7 point_empty)
  obtain v G where g: "guard_test (type_assumption st) ob B7 = Inr (v, G)" "create_terminator (CondBr v hit miss) G = Inr ((), B8)"
    using b(7) unfolding guard_split by (rule bind_InrE)
  have pG: "part B7 G" by (rule withinD [OF guard_test_part g(1)])
  have eG: "emitting {miss, hit} B G" using emitting_step [OF e5] pG by (simp add: part_def B7)
  note wfG = emitting_wf [OF eG wf(1)]
  have ipG: "insert_point G \<noteq> None" using pG by (simp add: part_def B7)
  note g8 = emitting_goto [OF eG g(2) HOL.refl _ _ wf(1), of miss]
  have e8: "emitting {hit} B ?M" using g8(1) ne emitting_reserved [OF eG wf(1)] by (simp add: insert_Diff_if)
  note wf8 = emitting_wf [OF e8 wf(1)]
  have pt8: "point ?M r = At miss 0 r" for r
    using g8(4) [of miss] emitting_reserved [OF eG wf(1)] by (simp add: point_empty)
  obtain P u where p: "emitting {} ?M P" "create_terminator (Ret u) P = Inr ((), B9)"
    by (rule slow_path_leaves [OF b(8)])
  have eP: "emitting {hit} B P" by (rule emitting_step [OF e8 p(1)])
  note wfP = emitting_wf [OF eP wf(1)]
  note g9 = emitting_goto [OF eP p(2) HOL.refl _ _ wf(1), of hit]
  have eH: "emitting {} B (B9\<lparr>insert_point := Some hit\<rparr>)" using g9(1) by simp
  note wf9 = emitting_wf [OF eH wf(1)]
  have pt9: "point (B9\<lparr>insert_point := Some hit\<rparr>) r = At hit 0 r" for r
    using g9(4) [of hit] emitting_reserved [OF eP wf(1)] by (simp add: point_empty)
  have fin9: "final (B9\<lparr>insert_point := Some hit\<rparr>) f"
    by (rule final_back [OF withinD [OF emits_fast_path b(9)] fin wf9])
  have finP: "final P f" by (rule final_leave [OF p(2) fin9 wfP]) (use reserved_pending [OF eP wf(1)] in simp)
  have fin8: "final ?M f" by (rule final_back [OF p(1) finP wf8])
  have finG: "final G f" by (rule final_leave [OF g(2) fin8 wfG]) (use reserved_pending [OF eG wf(1)] in simp)
  have fin7: "final B7 f" using pG finG wf7 by (auto simp: part_def intro: final_back)
  have fin5: "final (B5\<lparr>insert_point := Some body\<rparr>) f" using fin7 B7 by simp
  have fin4: "final B4 f" by (rule final_leave [OF b(5) fin5 wf4]) (use reserved_pending [OF e4 wf(1)] in simp)
  have fin3: "final B3 f" by (rule final_back [OF emitting_block [OF emitting_refl b(4) wf3, THEN conjunct1] fin4 wf3])
  show thesis
    by (rule that [OF B7 wf2 ip2 pt2 fin3 wf4 ip4 pt4 fin5 reserved_pending [OF e4 wf(1)] wf7 pt7 g wfG ipG finG fin8
        reserved_pending [OF eG wf(1)] wf8 pt8 fin9 _ wf9 pt9])
      (use reserved_pending [OF e8 wf(1)] in simp)
qed

text \<open>The code of a call up to its guard, or to the slow path for null.\<close>

lemma call_to_guard:
  assumes run: "compile_method_call n ob sel as B = Inr (res, B')" and wf: "wf_builder B" "insert_point B \<noteq> None"
    and fin: "final B' f" and ob: "holds ob (Word w) B r"
  obtains hit missed B7 v G B8 B9 r1 where
    "wf_builder B7" and "insert_point B7 \<noteq> None" and "walks B B7" and "same_program B B7"
    and "guard_test (type_assumption (call_sites (rt B) n)) ob B7 = Inr (v, G)"
    and "create_terminator (CondBr v hit missed) G = Inr ((), B8)"
    and "wf_builder G" and "insert_point G \<noteq> None" and "final G f" and "final (B8\<lparr>insert_point := Some missed\<rparr>) f"
    and "missed \<in> pending G" and "wf_builder (B8\<lparr>insert_point := Some missed\<rparr>)"
    and "\<And>r. point (B8\<lparr>insert_point := Some missed\<rparr>) r = At missed 0 r"
    and "compile_slow_path n (B8\<lparr>insert_point := Some missed\<rparr>) = Inr ((), B9)"
    and "final (B9\<lparr>insert_point := Some hit\<rparr>) f" and "hit \<in> pending (B8\<lparr>insert_point := Some missed\<rparr>)"
    and "wf_builder (B9\<lparr>insert_point := Some hit\<rparr>)" and "\<And>r. point (B9\<lparr>insert_point := Some hit\<rparr>) r = At hit 0 r"
    and "walks B7 (B9\<lparr>insert_point := Some hit\<rparr>)"
    and "compile_fast_path n (call_sites (rt B) n) ob sel as (B9\<lparr>insert_point := Some hit\<rparr>) = Inr (res, B')"
    and "agree (next_ident B) r r1" and "holds ob (Word w) B7 r1"
    and "reaches m f (point B r) d (if w = 0 then At missed 0 r1 else point B7 r1) d"
proof -
  obtain hit B1 missed B2 nn B3 body B4 B5 st B7 B8 B9 where b:
    "create_block B = Inr (hit, B1)" "create_block B1 = Inr (missed, B2)"
    "create (IsNotNull ob) B2 = Inr (nn, B3)" "create_block B3 = Inr (body, B4)"
    "create_terminator (CondBr nn body missed) B4 = Inr ((), B5)"
    "on_runtime (gets (\<lambda>c. call_sites c n)) (B5\<lparr>insert_point := Some body\<rparr>) = Inr (st, B7)"
    "compile_guard (type_assumption st) ob hit missed B7 = Inr ((), B8)"
    "compile_slow_path n (B8\<lparr>insert_point := Some missed\<rparr>) = Inr ((), B9)"
    "compile_fast_path n st ob sel as (B9\<lparr>insert_point := Some hit\<rparr>) = Inr (res, B')"
    by (rule method_call_steps [OF run])
  obtain G g where s: "B7 = B5\<lparr>insert_point := Some body\<rparr>" "wf_builder B2" "insert_point B2 \<noteq> None"
    "\<And>r. point B2 r = point B r" "final B3 f" "wf_builder B4" "insert_point B4 \<noteq> None" "\<And>r. point B4 r = point B3 r"
    "final (B5\<lparr>insert_point := Some body\<rparr>) f" "{body, missed, hit} \<subseteq> pending B4" "wf_builder B7"
    "\<And>r. point B7 r = At body 0 r" "guard_test (type_assumption st) ob B7 = Inr (g, G)"
    "create_terminator (CondBr g hit missed) G = Inr ((), B8)" "wf_builder G" "insert_point G \<noteq> None" "final G f"
    "final (B8\<lparr>insert_point := Some missed\<rparr>) f" "{missed, hit} \<subseteq> pending G" "wf_builder (B8\<lparr>insert_point := Some missed\<rparr>)"
    "\<And>r. point (B8\<lparr>insert_point := Some missed\<rparr>) r = At missed 0 r"
    "final (B9\<lparr>insert_point := Some hit\<rparr>) f" "hit \<in> pending (B8\<lparr>insert_point := Some missed\<rparr>)"
    "wf_builder (B9\<lparr>insert_point := Some hit\<rparr>)" "\<And>r. point (B9\<lparr>insert_point := Some hit\<rparr>) r = At hit 0 r"
    by (rule call_shape [OF b wf fin]) (rule that; assumption)
  have w: "walks B B2" "walks B2 B3" "walks B3 B4" "walks B4 B7"
    using withinD [OF walked.block_Q b(1)] withinD [OF walked.block_Q b(2)] withinD [OF walked.create_Q b(3)]
      withinD [OF walked.block_Q b(4)] walks_leave [OF b(5)]
    by (auto simp: s(1) intro: walked.Q_trans)
  then have w7: "walks B B7" by (blast intro: walked.Q_trans)
  have same: "same_program B B7"
    using withinD [OF unchanged_steps(2) b(1)] withinD [OF unchanged_steps(2) b(2)] withinD [OF unchanged_steps(1) b(3)]
      withinD [OF unchanged_steps(2) b(4)] withinD [OF unchanged_steps(3) b(5)] by (simp add: same_program_def s(1))
  then have st: "st = call_sites (rt B) n" using b(6) by (simp add: on_runtime_def sem_simps same_program_def s(1))
  have "walks B7 G" using withinD [OF guard_test_part s(13)] by (simp add: part_def walks_def)
  then have w9: "walks B7 (B9\<lparr>insert_point := Some hit\<rparr>)"
    using walks_leave [OF s(14)] withinD [OF walked.walk_slow_path b(8)] withinD [OF walked.point_Q(1), of hit B9]
    by (auto simp: sem_simps intro: walked.Q_trans)
  have null: "execute_instr m r (IsNotNull ob) d = Inr (Bit (w \<noteq> 0), d)"
    using ob by (simp add: sem_simps word_operand_value holds_def)
  let ?r1 = "define_result (next_ident B2) (Bit (w \<noteq> 0)) r"
  note 3 = create_step [OF b(3) s(3,2,5) null]
  have agr1: "agree (next_ident B) r ?r1"
    using w(1) agree_define by (auto simp: walks_def numbers_def)
  have nn: "holds nn (Bit (w \<noteq> 0)) B4 ?r1" using holds_later [OF 3(2) agree_refl] w(3) by (simp add: walks_def numbers_def)
  have "reaches m f (point B4 ?r1) d (At (if w \<noteq> 0 then body else missed) 0 ?r1) d"
    by (rule branch_step [OF b(5) s(7,6,9) _ nn]) (use s(10) in simp)
  then have "reaches m f (point B r) d (if w = 0 then At missed 0 ?r1 else point B7 ?r1) d"
    using reaches_trans [OF 3(1)] unfolding s(4,8,12) by (cases "w = 0") simp_all
  moreover have "holds ob (Word w) B7 ?r1" using holds_later [OF ob agr1] w7 by (simp add: walks_def numbers_def)
  moreover have "insert_point B7 \<noteq> None" "missed \<in> pending G" using s(1,19) by simp_all
  ultimately show thesis
    using that [OF s(11) _ w7 same s(13) [unfolded st] s(14-18) _ s(20,21) b(8) s(22-25) w9 b(9) [unfolded st] agr1] by blast
qed

lemma operands_apply: "the_operands vs B = Inr (ops, B') \<Longrightarrow> B' = B \<and> map Some ops = vs"
  by (induction vs arbitrary: ops) (auto simp: sem_simps split: option.splits sum.splits)

section \<open>The fast path\<close>

text \<open>The instructions of the fast path, one after the other.\<close>

lemma operand_at: "holds v x B r \<Longrightarrow> operand_value r v = Inr x"
  by (simp add: holds_def)

lemma word_operands_hold:
  "list_all2 (\<lambda>a v. holds a (Word v) B r) as vs \<Longrightarrow> word_operands r as d = Inr (vs, d)"
  by (induction as vs rule: list_all2_induct) (simp_all add: sem_simps word_operand_value operand_at)

lemma selector_word: "ucast (ucast sel :: 64 word) = (sel :: selector)"
  by (rule bit_word_eqI) (simp add: bit_simps)

lemma args_later:
  assumes "list_all2 (\<lambda>a v. holds a (Word v) B r) as vs" and "agree (next_ident B) r r1" and "next_ident B \<le> next_ident B1"
  shows "list_all2 (\<lambda>a v. holds a (Word v) B1 r1) as vs"
  using assms(1) by (rule list_all2_mono) (rule holds_later [OF _ assms(2,3)])

text \<open>The end of a call: the call itself and the store to \<open>cur_jit_function\<close>.\<close>

lemma call_then_reset:
  assumes run: "bind (create ins) (\<lambda>res. seq reset_jit_function (return res)) B = Inr (res, B')"
    and wf: "wf_builder B" "insert_point B \<noteq> None" and fin: "final B' f"
    and call: "execute_instr m r ins d = Inr (Word v, e)"
  shows "\<exists>r'. reaches m f (point B r) d (point B' r') (e\<lparr>cur_jit_function := decl_node (compiling B)\<rparr>) \<and>
    agree (next_ident B) r r' \<and> holds res (Word v) B' r'"
proof -
  let ?D = "decl_node (compiling B)" and ?after = "\<lambda>res. seq reset_jit_function (return res)"
  have parts: "within part (?after k)" for k :: operand
    unfolding reset_jit_function_def by (intro parts.within_intros part_steps)
  obtain u B4 r4 where s4: "?after u B4 = Inr (res, B')" "wf_builder B4" "insert_point B4 \<noteq> None" "holds u (Word v) B4 r4"
    "agree (next_ident B) r r4" "next_ident B \<le> next_ident B4" "same_program B B4" "reaches m f (point B r) d (point B4 r4) e"
    by (rule created_first [OF run parts wf fin call]) (rule that; assumption)
  have D: "decl_node (compiling B4) = ?D" using s4(7) by (simp add: same_program_def)
  obtain x where u: "u = res" and x: "create (Store (Const (Word ?D)) (Const (Ptr CurJitFunction))) B4 = Inr (x, B')"
    using s4(1) D by (auto simp: reset_jit_function_def sem_simps split: sum.splits)
  have "execute_instr m r4 (Store (Const (Word ?D)) (Const (Ptr CurJitFunction))) e = Inr (Word ?D, e\<lparr>cur_jit_function := ?D\<rparr>)"
    by (simp add: sem_simps place_operand_def set_jit_def)
  from last_step [OF x s4(2,3) fin this] obtain r5 where s5: "reaches m f (point B4 r4) e (point B' r5) (e\<lparr>cur_jit_function := ?D\<rparr>)"
    "agree (next_ident B4) r4 r5" by blast
  have "next_ident B4 \<le> next_ident B'" using withinD [OF part_steps(1) x] by (simp add: part_def numbers_def)
  then have "holds res (Word v) B' r5" using holds_later [OF s4(4) s5(2)] u by simp
  then show ?thesis using reaches_trans [OF s4(8) s5(1)] agree_trans [OF s4(5) s5(2) s4(6)] by blast
qed

lemma fast_path_runs:
  assumes run: "compile_fast_path n st ob (Const (Word (ucast sel))) as B = Inr (res, B')"
    and wf: "wf_builder B" "insert_point B \<noteq> None" and fin: "final B' f"
    and ob: "holds ob (Word w) B r" and args: "list_all2 (\<lambda>a v. holds a (Word v) B r) as vs"
    and mp: "cachedMethod st = Some mp" and jit: "cur_jit_function d = decl_node (compiling B)"
    and call: "seq (set_site n ((call_sites d n)\<lparr>alternative_type_count := 0\<rparr>)) (call_through m mp w sel vs) d = Inr (v, d')"
  shows "\<exists>r'. reaches m f (point B r) d (point B' r') d' \<and> agree (next_ident B) r r' \<and> holds res (Word v) B' r'"
proof -
  let ?d1 = "d\<lparr>call_sites := (call_sites d)(n := (call_sites d n)\<lparr>alternative_type_count := 0\<rparr>)\<rparr>"
    and ?D = "decl_node (compiling B)"
  obtain k e where call: "load_method_ptr mp ?d1 = Inr (Some k, ?d1)" "m_method m k w sel vs ?d1 = Inr (v, e)"
    "d' = e\<lparr>cur_jit_function := ?D\<rparr>"
    using assms(9) jit
    by (auto simp: call_through_def saving_jit_def callCompiledMethod_def set_site_def set_jit_def sem_simps
        load_method_ptr_def method_at_def split: sum.splits if_splits option.splits method_ptr.splits)
  let ?after = "\<lambda>res. seq reset_jit_function (return res)"
  let ?call = "\<lambda>cm. bind (create (CallMethod cm (ob # Const (Word (ucast sel)) # as))) ?after"
  let ?load = "bind (create (Load (Const (Ptr (MethodFunction mp))))) ?call"
  let ?store = "\<lambda>zero. bind (create (Store zero (Const (Ptr (AlternativeCount n))))) (\<lambda>_. ?load)"
  have run1: "bind (create (Cast (Const (Word 0)))) ?store B = Inr (res, B')"
    using run by (simp add: compile_fast_path_def getAsObject_def create_store_def method_pointer_def mp seq_def bind_assoc)
  have parts: "within part (?after k)" "within part (?call k)" "within part ?load" "within part (?store k)" for k
    unfolding reset_jit_function_def by (intro parts.within_intros part_steps)+
  have "execute_instr m r (Cast (Const (Word 0))) d = Inr (Word 0, d)" by (simp add: sem_simps)
  then obtain z B1 r1 where s1: "?store z B1 = Inr (res, B')" "wf_builder B1" "insert_point B1 \<noteq> None" "holds z (Word 0) B1 r1"
    "agree (next_ident B) r r1" "next_ident B \<le> next_ident B1" "same_program B B1" "reaches m f (point B r) d (point B1 r1) d"
    by (rule created_first [OF run1 parts(4) wf fin]) (rule that; assumption)
  have "execute_instr m r1 (Store z (Const (Ptr (AlternativeCount n)))) d = Inr (Word 0, ?d1)"
    using s1(4) by (simp add: sem_simps holds_def place_operand_def set_site_def)
  then obtain B2 r2 where s2: "?load B2 = Inr (res, B')" "wf_builder B2" "insert_point B2 \<noteq> None"
    "agree (next_ident B1) r1 r2" "next_ident B1 \<le> next_ident B2" "same_program B1 B2" "reaches m f (point B1 r1) d (point B2 r2) ?d1"
    by (rule created_first [OF s1(1) parts(3) s1(2,3) fin]) (rule that; assumption)
  have "execute_instr m r2 (Load (Const (Ptr (MethodFunction mp)))) ?d1 = Inr (Fn (Some k), ?d1)"
    using call(1) by (simp add: sem_simps place_operand_def)
  then obtain cm B3 r3 where s3: "?call cm B3 = Inr (res, B')" "wf_builder B3" "insert_point B3 \<noteq> None" "holds cm (Fn (Some k)) B3 r3"
    "agree (next_ident B2) r2 r3" "next_ident B2 \<le> next_ident B3" "same_program B2 B3" "reaches m f (point B2 r2) ?d1 (point B3 r3) ?d1"
    by (rule created_first [OF s2(1) parts(2) s2(2,3) fin]) (rule that; assumption)
  have agr: "agree (next_ident B) r r3" and le: "next_ident B \<le> next_ident B3"
    using agree_trans [OF s1(5) agree_trans [OF s2(4) s3(5) s2(5)]] s1(6) s2(5) s3(6) by auto
  have "word_operands r3 (ob # Const (Word (ucast sel)) # as) ?d1 = Inr (w # ucast sel # vs, ?d1)"
    using holds_later [OF ob agr le] word_operands_hold [OF args_later [OF args agr le]]
    by (simp add: sem_simps word_operand_value word_operand_Const operand_at)
  then have "execute_instr m r3 (CallMethod cm (ob # Const (Word (ucast sel)) # as)) ?d1 = Inr (Word v, e)"
    using s3(4) call(2) by (simp add: sem_simps word_result_def enter_def holds_def selector_word)
  from call_then_reset [OF s3(1-3) fin this] obtain r4 where s4: "reaches m f (point B3 r3) ?d1 (point B' r4) d'"
    "agree (next_ident B3) r3 r4" "holds res (Word v) B' r4"
    using call(3) s1(7) s2(6) s3(7) by (auto simp: same_program_def)
  then show ?thesis
    using reaches_trans [OF s1(8) reaches_trans [OF s2(7) reaches_trans [OF s3(8)]]] agree_trans [OF agr s4(2) le] by blast
qed

section \<open>Guards that hold\<close>

text \<open>The receivers of the class that the call site assumes.\<close>

definition hits :: "addr \<Rightarrow> obj \<Rightarrow> ctx \<Rightarrow> bool" where
  "hits assumed w d \<longleftrightarrow> w \<noteq> 0 \<and> class_of_receiver w d = Inr (assumed, d) \<and> (isInteger w \<longleftrightarrow> assumed = SmallIntClass)"

lemma integer_low_bit: "isInteger w \<Longrightarrow> bit w 0"
  unfolding isInteger_def by (drule arg_cong [of _ _ "\<lambda>w. bit w 0"]) (simp add: bit_and_iff)

lemma hits_guard: "hits assumed w d \<Longrightarrow> guard_says assumed w d True"
  by (auto simp: hits_def guard_says_def class_of_receiver_def sem_simps integer_low_bit split: if_splits)

text \<open>A guard that holds leads to the fast path.\<close>

lemma call_to_fast_path:
  assumes run: "compile_method_call n ob sel as B = Inr (res, B')"
    and wf: "wf_builder B" "insert_point B \<noteq> None" and fin: "final B' f"
    and ob: "holds ob (Word w) B r" and hit: "hits (type_assumption (call_sites (rt B) n)) w d"
  obtains H r' where "compile_fast_path n (call_sites (rt B) n) ob sel as H = Inr (res, B')"
    and "wf_builder H" and "insert_point H \<noteq> None" and "reaches m f (point B r) d (point H r') d"
    and "agree (next_ident B) r r'" and "next_ident B \<le> next_ident H" and "compiling H = compiling B"
proof -
  obtain to missed B7 g G B8 B9 r1 where s: "wf_builder B7" "insert_point B7 \<noteq> None" "walks B B7"
    "guard_test (type_assumption (call_sites (rt B) n)) ob B7 = Inr (g, G)"
    "create_terminator (CondBr g to missed) G = Inr ((), B8)" "wf_builder G" "insert_point G \<noteq> None" "final G f"
    "final (B8\<lparr>insert_point := Some missed\<rparr>) f" "missed \<in> pending G" "wf_builder (B9\<lparr>insert_point := Some to\<rparr>)"
    "\<And>r. point (B9\<lparr>insert_point := Some to\<rparr>) r = At to 0 r" "walks B7 (B9\<lparr>insert_point := Some to\<rparr>)"
    "compile_fast_path n (call_sites (rt B) n) ob sel as (B9\<lparr>insert_point := Some to\<rparr>) = Inr (res, B')"
    and r1: "agree (next_ident B) r r1" "holds ob (Word w) B7 r1"
    "reaches m f (point B r) d (if w = 0 then At missed 0 r1 else point B7 r1) d"
    by (rule call_to_guard [OF run wf fin ob, of m d]) (rule that; assumption)
  let ?H = "B9\<lparr>insert_point := Some to\<rparr>"
  obtain r2 where r2: "reaches m f (point B7 r1) d (point G r2) d" "agree (next_ident B7) r1 r2"
    "\<exists>x. holds g x G r2 \<and> branch_on x = Inr True"
    using guard_test_runs [OF s(4,1,2,8) r1(2) hits_guard [OF hit], of m] by auto
  have "take_terminator r2 (Some (CondBr g to missed)) d = Inr (At to 0 r2, d)"
    using r2(3) by (auto simp: sem_simps holds_def)
  then have "reaches m f (point G r2) d (point ?H r2) d"
    unfolding s(12) by (intro leave_step [OF s(5,7,6,9)]) (use s(10) in auto)
  moreover have "reaches m f (point B r) d (point B7 r1) d" using r1(3) hit by (simp add: hits_def)
  ultimately have to_call: "reaches m f (point B r) d (point ?H r2) d"
    using reaches_trans [OF _ reaches_trans [OF r2(1)]] by blast
  have w: "next_ident B \<le> next_ident B7" "next_ident B7 \<le> next_ident ?H" "compiling ?H = compiling B"
    using s(3,13) by (simp_all add: walks_def numbers_def)
  have agr: "agree (next_ident B) r r2" by (rule agree_trans [OF r1(1) r2(2) w(1)])
  show thesis by (rule that [OF s(14,11) _ to_call agr _ w(3)]) (use w in auto)
qed

lemma call_hits:
  assumes run: "compile_method_call n ob (Const (Word (ucast sel))) as B = Inr (res, B')"
    and wf: "wf_builder B" "insert_point B \<noteq> None" and fin: "final B' f"
    and ob: "holds ob (Word w) B r" and args: "list_all2 (\<lambda>a v. holds a (Word v) B r) as vs"
    and hit: "hits (type_assumption (call_sites (rt B) n)) w d"
    and mp: "cachedMethod (call_sites (rt B) n) = Some mp" and jit: "cur_jit_function d = decl_node (compiling B)"
    and call: "seq (set_site n ((call_sites d n)\<lparr>alternative_type_count := 0\<rparr>)) (call_through m mp w sel vs) d = Inr (v, d')"
  shows "\<exists>r'. reaches m f (point B r) d (point B' r') d' \<and> agree (next_ident B) r r' \<and> holds res (Word v) B' r'"
proof -
  obtain H r2 where H: "compile_fast_path n (call_sites (rt B) n) ob (Const (Word (ucast sel))) as H = Inr (res, B')"
    "wf_builder H" "insert_point H \<noteq> None" "reaches m f (point B r) d (point H r2) d"
    "agree (next_ident B) r r2" "next_ident B \<le> next_ident H" "compiling H = compiling B"
    by (rule call_to_fast_path [OF run wf fin ob hit, where m = m]) (rule that; assumption)
  have "cur_jit_function d = decl_node (compiling H)" using jit H(7) by simp
  from fast_path_runs [OF H(1-3) fin holds_later [OF ob H(5,6)] args_later [OF args H(5,6)] mp this call]
  obtain r3 where "reaches m f (point H r2) d (point B' r3) d'" "agree (next_ident H) r2 r3" "holds res (Word v) B' r3"
    by auto
  then show ?thesis using reaches_trans [OF H(4)] agree_trans [OF H(5) _ H(6)] by blast
qed

section \<open>Departures\<close>

text \<open>An instruction at which the code and the interpreter part.\<close>

lemma created_departs:
  assumes "bind (create ins) g B = Inr (v, B')" and "\<And>k. within part (g k)"
    and "wf_builder B" "insert_point B \<noteq> None" and "final B' f" and "parting r ins"
  shows "departs m f (point B r) d"
proof -
  obtain k B1 where b: "create ins B = Inr (k, B1)" "g k B1 = Inr (v, B')" using assms(1) by (rule bind_InrE)
  have p1: "part B B1" and p2: "part B1 B'" using withinD [OF part_steps(1) b(1)] withinD [OF assms(2) b(2)] by auto
  then have fin1: "final B1 f" using assms(3,5) by (auto simp: part_def intro: final_back emitting_wf)
  obtain l where l: "insert_point B = Some l" using assms(4) by auto
  note pos = create_position [OF b(1) l assms(3) fin1]
  show ?thesis
    unfolding departs_def point_def l Let_def option.sel
    using pos assms(6) by (intro exI conjI) (rule reaches.here, simp_all)
qed

lemma create_departs:
  assumes "create ins B = Inr (v, B')" and "wf_builder B" "insert_point B \<noteq> None" and "final B' f" and "parting r ins"
  shows "departs m f (point B r) d"
proof (rule created_departs [OF _ _ assms(2-5)])
  show "bind (create ins) return B = Inr (v, B')" using assms(1) by (simp add: sem_simps)
qed (rule parts.within_leaf)

lemma slow_path_departs:
  assumes run: "compile_slow_path n B = Inr ((), B')" and wf: "wf_builder B" "insert_point B \<noteq> None"
    and fin: "final (B'\<lparr>insert_point := p\<rparr>) f" "set_option p \<subseteq> pending B"
  shows "departs m f (point B r) d"
proof -
  obtain ops P1 k P2 k' P3 where b: "patchpoint_operands n B = Inr (ops, P1)" "create (Patchpoint ops) P1 = Inr (k, P2)"
    "create (Cast k) P2 = Inr (k', P3)" "create_terminator (Ret k') P3 = Inr ((), B')"
    using run unfolding compile_slow_path_def getAsObject_def by (elim bind_InrE) (rule that; assumption)
  have P1: "P1 = B"
    using b(1) by (auto simp: patchpoint_operands_def on_runtime_def sem_simps simp del: the_operands.simps append_Cons dest: operands_apply)
  have e1: "emitting {} B P2" "emitting {} P2 P3" using withinD [OF create_emits] b(2,3) P1 by blast+
  have wf2: "wf_builder P2" "wf_builder P3" using emitting_wf e1 wf(1) by blast+
  have "pending P3 = pending B" using e1 wf wf2 by (simp add: emitting_def)
  then have p: "set_option p \<subseteq> pending P3" using fin(2) by simp
  have fin3: "final P3 f" by (rule final_leave [OF b(4) fin(1) wf2(2) p])
  have fin2: "final P2 f" by (rule final_back [OF e1(2) fin3 wf2(1)])
  show ?thesis by (rule create_departs [OF b(2) [unfolded P1] wf fin2]) simp
qed

text \<open>
  A call whose guard fails departs at its patchpoint, and one whose guard would misread the receiver
  departs at the guard.
\<close>

definition guard_parts :: "addr \<Rightarrow> obj \<Rightarrow> bool" where
  "guard_parts assumed w \<longleftrightarrow> (if assumed = SmallIntClass then bit w 0 \<and> \<not> isInteger w else isInteger w)"

lemma guard_departs:
  assumes run: "guard_test assumed ob B = Inr (v, B')" and wf: "wf_builder B" "insert_point B \<noteq> None" and fin: "final B' f"
    and ob: "holds ob (Word w) B r" and part: "guard_parts assumed w"
  shows "departs m f (point B r) d"
proof (cases "assumed = SmallIntClass")
  case True
  have run': "bind (create (Cast ob)) (\<lambda>i. create (Alu AndOp i (Const (Word 7)))) B = Inr (v, B')"
    using run True by (simp add: guard_test_def)
  have "execute_instr m r (Cast ob) d = Inr (Word w, d)" using ob by (simp add: sem_simps holds_def)
  then obtain k B1 r1 where 1: "create (Alu AndOp k (Const (Word 7))) B1 = Inr (v, B')" "wf_builder B1"
    "insert_point B1 \<noteq> None" "holds k (Word w) B1 r1" "reaches m f (point B r) d (point B1 r1) d"
    by (rule created_first [OF run' part_steps(1) wf fin]) (rule that; assumption)
  have "departs m f (point B1 r1) d"
    by (rule create_departs [OF 1(1-3) fin]) (use 1(4) part True in \<open>auto simp: holds_def guard_parts_def\<close>)
  then show ?thesis by (rule departs_later [OF 1(5)])
next
  case False
  have run': "bind (create (IsaPtr ob)) (\<lambda>a. bind (create (Load a)) (\<lambda>c. create (ICmp CmpEq (Const (Word assumed)) c))) B = Inr (v, B')"
    using run False by (simp add: guard_test_def)
  show ?thesis
    by (rule created_departs [OF run' _ wf fin])
      (use ob part False in \<open>auto intro!: parts.within_intros part_steps simp: holds_def guard_parts_def\<close>)
qed

lemma call_departs:
  assumes run: "compile_method_call n ob sel as B = Inr (res, B')" and wf: "wf_builder B" "insert_point B \<noteq> None"
    and fin: "final B' f" and ob: "holds ob (Word w) B r"
    and miss: "misses (type_assumption (call_sites (rt B) n)) w d \<or> guard_parts (type_assumption (call_sites (rt B) n)) w"
  shows "departs m f (point B r) d"
proof -
  obtain hit missed B7 g G B8 B9 r1 where s: "wf_builder B7" "insert_point B7 \<noteq> None" "walks B B7"
    "guard_test (type_assumption (call_sites (rt B) n)) ob B7 = Inr (g, G)"
    "create_terminator (CondBr g hit missed) G = Inr ((), B8)" "wf_builder G" "insert_point G \<noteq> None" "final G f"
    "final (B8\<lparr>insert_point := Some missed\<rparr>) f" "missed \<in> pending G" "wf_builder (B8\<lparr>insert_point := Some missed\<rparr>)"
    "\<And>r. point (B8\<lparr>insert_point := Some missed\<rparr>) r = At missed 0 r"
    "compile_slow_path n (B8\<lparr>insert_point := Some missed\<rparr>) = Inr ((), B9)"
    "final (B9\<lparr>insert_point := Some hit\<rparr>) f" "hit \<in> pending (B8\<lparr>insert_point := Some missed\<rparr>)"
    and r1: "agree (next_ident B) r r1" "holds ob (Word w) B7 r1"
    "reaches m f (point B r) d (if w = 0 then At missed 0 r1 else point B7 r1) d"
    by (rule call_to_guard [OF run wf fin ob, of m d]) (rule that; assumption)
  have slow: "departs m f (At missed 0 r2) d" for r2
    using slow_path_departs [OF s(13,11) _ s(14), of m r2 d] s(15) by (simp add: s(12))
  show ?thesis
  proof (cases "w = 0")
    case True
    then show ?thesis using r1(3) slow departs_later by auto
  next
    case False
    then have to7: "reaches m f (point B r) d (point B7 r1) d" using r1(3) by simp
    show ?thesis
    proof (cases "guard_parts (type_assumption (call_sites (rt B) n)) w")
      case True
      show ?thesis by (rule departs_later [OF to7 guard_departs [OF s(4,1,2,8) r1(2) True]])
    next
      case no: False
      obtain r2 x where r2: "reaches m f (point B7 r1) d (point G r2) d" "holds g x G r2" "branch_on x = Inr False"
        using guard_test_runs [OF s(4,1,2,8) r1(2), of d False m] miss False no by (auto simp: misses_def)
      have "take_terminator r2 (Some (CondBr g hit missed)) d = Inr (At missed 0 r2, d)"
        using r2(2,3) by (simp add: sem_simps holds_def)
      then have "reaches m f (point G r2) d (At missed 0 r2) d"
        by (intro leave_step [OF s(5,7,6,9)]) (use s(10) in auto)
      then show ?thesis using departs_later [OF reaches_trans [OF to7 reaches_trans [OF r2(1)]] slow] by blast
    qed
  qed
qed

text \<open>A guard that holds at a call site without a cached method departs at the load of the method.\<close>

lemma fast_path_departs:
  assumes run: "compile_fast_path n st ob sel as B = Inr (res, B')"
    and wf: "wf_builder B" "insert_point B \<noteq> None" and fin: "final B' f" and none: "cachedMethod st = None"
  shows "departs m f (point B r) d"
proof -
  let ?d1 = "d\<lparr>call_sites := (call_sites d)(n := (call_sites d n)\<lparr>alternative_type_count := 0\<rparr>)\<rparr>"
  let ?call = "\<lambda>cm. bind (create (CallMethod cm (ob # sel # as))) (\<lambda>res. seq reset_jit_function (return res))"
  let ?load = "bind (create (Load (Const (Word 0)))) ?call"
  let ?store = "\<lambda>zero. bind (create (Store zero (Const (Ptr (AlternativeCount n))))) (\<lambda>_. ?load)"
  have run1: "bind (create (Cast (Const (Word 0)))) ?store B = Inr (res, B')"
    using run by (simp add: compile_fast_path_def getAsObject_def create_store_def method_pointer_def none seq_def bind_assoc)
  have parts: "within part (?call k)" "within part ?load" "within part (?store k)" for k
    unfolding reset_jit_function_def by (intro parts.within_intros part_steps)+
  have "execute_instr m r (Cast (Const (Word 0))) d = Inr (Word 0, d)" by (simp add: sem_simps)
  then obtain z B1 r1 where s1: "?store z B1 = Inr (res, B')" "wf_builder B1" "insert_point B1 \<noteq> None" "holds z (Word 0) B1 r1"
    "reaches m f (point B r) d (point B1 r1) d"
    by (rule created_first [OF run1 parts(3) wf fin]) (rule that; assumption)
  have "execute_instr m r1 (Store z (Const (Ptr (AlternativeCount n)))) d = Inr (Word 0, ?d1)"
    using s1(4) by (simp add: sem_simps holds_def place_operand_def set_site_def)
  then obtain B2 r2 where s2: "?load B2 = Inr (res, B')" "wf_builder B2" "insert_point B2 \<noteq> None"
    "reaches m f (point B1 r1) d (point B2 r2) ?d1"
    by (rule created_first [OF s1(1) parts(2) s1(2,3) fin]) (rule that; assumption)
  have "departs m f (point B2 r2) ?d1" by (rule created_departs [OF s2(1) parts(1) s2(2,3) fin]) simp
  then show ?thesis by (rule departs_later [OF reaches_trans [OF s1(5) s2(4)]])
qed

section \<open>Closures\<close>

lemma closure_call_runs:
  assumes run: "compile_closure_call ob as B = Inr (res, B')"
    and wf: "wf_builder B" "insert_point B \<noteq> None" and fin: "final B' f"
    and ob: "holds ob (Word w) B r" and args: "list_all2 (\<lambda>a v. holds a (Word v) B r) as vs"
    and jit: "cur_jit_function d = decl_node (compiling B)" and call: "call_closure_value m w vs d = Inr (v, d')"
  shows "\<exists>r'. reaches m f (point B r) d (point B' r') d' \<and> agree (next_ident B) r r' \<and> holds res (Word v) B' r'"
proof -
  obtain cl k e where call: "closure_at w d = Inr (cl, d)" "invoke cl = Some k" "m_closure m k w vs d = Inr (v, e)"
    "d' = e\<lparr>cur_jit_function := decl_node (compiling B)\<rparr>"
    using call jit
    by (auto simp: call_closure_value_def closure_at_def isa_def block_at_def saving_jit_def callCompiledClosure_def set_jit_def
        sem_simps split: sum.splits if_splits option.splits block.splits)
  let ?call = "\<lambda>clo f. bind (create (CallClosure f (clo # as))) (\<lambda>res. seq reset_jit_function (return res))"
  let ?load = "\<lambda>clo p. bind (create (Load p)) (?call clo)"
  let ?field = "\<lambda>clo. bind (create (FieldPtr clo 2)) (?load clo)"
  have run1: "bind (create (Cast ob)) ?field B = Inr (res, B')" using run by (simp add: compile_closure_call_def)
  have parts: "within part (?call clo k)" "within part (?load clo k)" "within part (?field clo)" for clo k
    unfolding reset_jit_function_def by (intro parts.within_intros part_steps)+
  have "execute_instr m r (Cast ob) d = Inr (Word w, d)" using ob by (simp add: sem_simps holds_def)
  then obtain clo B1 r1 where s1: "?field clo B1 = Inr (res, B')" "wf_builder B1" "insert_point B1 \<noteq> None" "holds clo (Word w) B1 r1"
    "agree (next_ident B) r r1" "next_ident B \<le> next_ident B1" "same_program B B1" "reaches m f (point B r) d (point B1 r1) d"
    by (rule created_first [OF run1 parts(3) wf fin]) (rule that; assumption)
  have "execute_instr m r1 (FieldPtr clo 2) d = Inr (Ptr (ClosureField w 2), d)"
    using s1(4) by (simp add: sem_simps word_operand_value operand_at)
  then obtain p B2 r2 where s2: "?load clo p B2 = Inr (res, B')" "wf_builder B2" "insert_point B2 \<noteq> None"
    "holds p (Ptr (ClosureField w 2)) B2 r2" "agree (next_ident B1) r1 r2" "next_ident B1 \<le> next_ident B2" "same_program B1 B2"
    "reaches m f (point B1 r1) d (point B2 r2) d"
    by (rule created_first [OF s1(1) parts(2) s1(2,3) fin]) (rule that; assumption)
  have "execute_instr m r2 (Load p) d = Inr (Fn (Some k), d)"
    using s2(4) call(1,2) by (simp add: sem_simps place_operand_def operand_at)
  then obtain fn B3 r3 where s3: "?call clo fn B3 = Inr (res, B')" "wf_builder B3" "insert_point B3 \<noteq> None"
    "holds fn (Fn (Some k)) B3 r3" "agree (next_ident B2) r2 r3" "next_ident B2 \<le> next_ident B3" "same_program B2 B3"
    "reaches m f (point B2 r2) d (point B3 r3) d"
    by (rule created_first [OF s2(1) parts(1) s2(2,3) fin]) (rule that; assumption)
  have agr1: "agree (next_ident B1) r1 r3" by (rule agree_trans [OF s2(5) s3(5) s2(6)])
  have agr: "agree (next_ident B) r r3" by (rule agree_trans [OF s1(5) agr1 s1(6)])
  have le1: "next_ident B1 \<le> next_ident B3" and le: "next_ident B \<le> next_ident B3" using s1(6) s2(6) s3(6) by auto
  have "word_operands r3 (clo # as) d = Inr (w # vs, d)"
    using holds_later [OF s1(4) agr1 le1] word_operands_hold [OF args_later [OF args agr le]]
    by (simp add: sem_simps word_operand_value operand_at)
  then have "execute_instr m r3 (CallClosure fn (clo # as)) d = Inr (Word v, e)"
    using s3(4) call(3) by (simp add: sem_simps word_result_def enter_def operand_at)
  from call_then_reset [OF s3(1-3) fin this] obtain r4 where s4: "reaches m f (point B3 r3) d (point B' r4) d'"
    "agree (next_ident B3) r3 r4" "holds res (Word v) B' r4"
    using call(4) s1(7) s2(7) s3(7) by (auto simp: same_program_def)
  then show ?thesis
    using reaches_trans [OF s1(8) reaches_trans [OF s2(8) reaches_trans [OF s3(8)]]] agree_trans [OF agr s4(2) le] by blast
qed

end
