(* ===== verification/Frame_Relation.thy ===== *)
theory Frame_Relation
  imports Call_Code
begin

text \<open>
  The frame of a function: where its variables are in the interpreter and in compiled code, and what
  the constants of the code rest on.  The simulation of the next theories relates the two contexts
  by it.
\<close>

section \<open>A function and its frame\<close>

text \<open>
  The frame in which the interpreter would run the body; the symbols of the compiler and the first
  value number of the body; the declaration that is compiled; the state at the end of compilation,
  to which the constants of the code refer; and what is cached: \<open>known\<close> gives the value of every
  constant expression of the body, \<open>0\<close> for other expressions, \<open>inner\<close> the nodes of the body and
  \<open>warm\<close> those whose value is in the cache.  \<open>may_call\<close> allows the body to call.
\<close>

record frame =
  table :: symbol_table
  syms :: "string \<rightharpoonup> operand"
  base_ident :: ident
  owner :: node
  linked :: ctx
  known :: "node \<Rightarrow> obj"
  inner :: "node set"
  warm :: "node set"
  may_call :: bool

definition known_ok :: "frame \<Rightarrow> (node \<Rightarrow> gc_value) \<Rightarrow> bool" where
  "known_ok F k \<longleftrightarrow> (\<forall>n \<in> inner F. k n = no_value \<or> object (k n) = known F n) \<and>
     (\<forall>n \<in> warm F. object (k n) = known F n)"

text \<open>
  What the constants of the code rest on: the globals, classes and selectors that were known when the
  function was compiled, and the assumed classes and cached methods of its call sites.  No return is
  under way, and \<open>cur_jit_function\<close> is the function.
\<close>

definition site_kept :: "call_site \<Rightarrow> call_site \<Rightarrow> bool" where
  "site_kept st st' \<longleftrightarrow> type_assumption st' = type_assumption st \<and> cachedMethod st' = cachedMethod st"

definition constants_hold :: "frame \<Rightarrow> ctx \<Rightarrow> bool" where
  "constants_hold F c \<longleftrightarrow> known_ok F (cache c) \<and> \<not> isReturning c \<and> retVal c = no_value \<and>
     globalSymbols (linked F) \<subseteq>\<^sub>m globalSymbols c \<and>
     (classTable (linked F) \<noteq> [] \<longrightarrow> classTable c \<noteq> [] \<and> map_of (classTable (linked F)) \<subseteq>\<^sub>m map_of (classTable c)) \<and>
     selectors_grow (linked F) c \<and> (\<forall>n \<in> inner F. site_kept (call_sites (linked F) n) (call_sites c n))"

text \<open>
  The interpreter's context \<open>c\<close>, with the frame on its stack, and the context \<open>d\<close> of the compiled
  function, whose frame is in registers.
\<close>

definition corr :: "frame \<Rightarrow> ctx \<Rightarrow> ctx \<Rightarrow> bool" where
  "corr F c d \<longleftrightarrow> (\<exists>S. symbols c = table F # S \<and> d = c\<lparr>symbols := S, cache := cache d\<rparr>) \<and>
     (\<forall>n. n \<notin> inner F \<or> n \<in> warm F \<longrightarrow> cache d n = cache c n) \<and>
     known_ok F (cache d) \<and> constants_hold F c \<and> cur_jit_function c = owner F"

lemma corr_constants:
  assumes "corr F c d"
  shows "known_ok F (cache c)" and "known_ok F (cache d)" and "\<not> isReturning c" and "retVal c = no_value"
    and "globalSymbols (linked F) \<subseteq>\<^sub>m globalSymbols c" and "cur_jit_function c = owner F" and "selectors_grow (linked F) c"
    and "n \<in> inner F \<Longrightarrow> site_kept (call_sites (linked F) n) (call_sites c n)" and "constants_hold F c"
  using assms by (auto simp: corr_def constants_hold_def)

lemma constants_hold_cong:
  assumes "constants_hold F c" and "cache c' = cache c" and "isReturning c' = isReturning c" and "retVal c' = retVal c"
    and "globalSymbols c' = globalSymbols c" and "classTable c' = classTable c" and "selectors c' = selectors c"
    and "\<forall>n \<in> inner F. site_kept (call_sites c n) (call_sites c' n)"
  shows "constants_hold F c'"
  using assms by (auto simp: constants_hold_def selectors_grow_def site_kept_def)

lemma corr_fields:
  assumes "corr F c d"
  shows "mem d = mem c" and "classes d = classes c" and "call_sites d = call_sites c" and "cur_jit_function d = cur_jit_function c"
    and "selectors d = selectors c" and "corr F (c\<lparr>mem := M\<rparr>) (d\<lparr>mem := M\<rparr>)"
proof -
  obtain S where S: "symbols c = table F # S" and d: "d = c\<lparr>symbols := S, cache := cache d\<rparr>"
    using assms unfolding corr_def by blast
  show "mem d = mem c" "classes d = classes c" "call_sites d = call_sites c" "cur_jit_function d = cur_jit_function c"
    "selectors d = selectors c" by (subst d, simp)+
  have "d\<lparr>mem := M\<rparr> = c\<lparr>mem := M, symbols := S, cache := cache d\<rparr>"
    using arg_cong [OF d, of "\<lambda>c. c\<lparr>mem := M\<rparr>"] by simp
  moreover have "constants_hold F (c\<lparr>mem := M\<rparr>)"
    by (rule constants_hold_cong [OF corr_constants(9) [OF assms]]) (simp_all add: site_kept_def)
  ultimately show "corr F (c\<lparr>mem := M\<rparr>) (d\<lparr>mem := M\<rparr>)" using assms S by (simp add: corr_def)
qed

text \<open>The counter of a call site is no constant of the code.\<close>

lemma corr_site:
  assumes "corr F c d" and "site_kept (call_sites c n) st"
  shows "corr F (c\<lparr>call_sites := (call_sites c)(n := st)\<rparr>) (d\<lparr>call_sites := (call_sites d)(n := st)\<rparr>)"
proof -
  obtain S where S: "symbols c = table F # S" and d: "d = c\<lparr>symbols := S, cache := cache d\<rparr>"
    using assms(1) unfolding corr_def by blast
  have "d\<lparr>call_sites := (call_sites d)(n := st)\<rparr> =
      c\<lparr>call_sites := (call_sites c)(n := st), symbols := S, cache := cache d\<rparr>"
    using arg_cong [OF d, of "\<lambda>c. c\<lparr>call_sites := (call_sites d)(n := st)\<rparr>"] corr_fields(3) [OF assms(1)] by simp
  moreover have "constants_hold F (c\<lparr>call_sites := (call_sites c)(n := st)\<rparr>)"
    by (rule constants_hold_cong [OF corr_constants(9) [OF assms(1)]]) (use assms(2) in \<open>simp_all add: site_kept_def\<close>)
  ultimately show ?thesis using assms(1) S by (simp add: corr_def)
qed

lemma load_corr:
  assumes "load p c = Inr (x, c')" and "corr F c d"
  shows "c' = c \<and> load p d = Inr (x, d)"
  using assms corr_fields(1) [OF assms(2)] by (auto simp: load_eq)

definition var_at :: "frame \<Rightarrow> activation \<Rightarrow> string \<Rightarrow> bool" where
  "var_at F r x \<longleftrightarrow> (case syms F x of
       None \<Rightarrow> table F x = None
     | Some v \<Rightarrow> operand_below (base_ident F) v \<and>
         (\<exists>p. p \<noteq> null_loc \<and> table F x = Some p \<and> operand_value r v = Inr (Ptr (Cell p))))"

definition located :: "frame \<Rightarrow> builder \<Rightarrow> activation \<Rightarrow> bool" where
  "located F B r \<longleftrightarrow> csymbols B = syms F \<and> decl_node (compiling B) = owner F \<and> base_ident F \<le> next_ident B \<and> (\<forall>x. var_at F r x)"

lemma var_at_agree: "var_at F r x \<Longrightarrow> agree n r r' \<Longrightarrow> base_ident F \<le> n \<Longrightarrow> var_at F r' x"
  using operand_agree [OF operand_below_mono [of "base_ident F" _ n]]
  by (auto simp: var_at_def split: option.splits)

lemma stable_located: "stable (located F)"
  by (auto simp: stable_def located_def intro: var_at_agree)

lemmas stable_intros = stable_conj stable_holds stable_const

end
