(* ===== verification/Compiled_Calls.thy ===== *)
theory Compiled_Calls
  imports Frame_Relation
begin

text \<open>
  Compiled calls in the simulation: what the functions that are called may not see of their caller,
  and the code of both kinds of calls.
\<close>

section \<open>Calls that cannot tell their caller\<close>

text \<open>
  A call that returns in the interpreter's context returns the same value in the context of the
  compiled function, keeps the two contexts related, and keeps what the constants rest on.  Afterwards
  the caller is again the current function: \<open>saving_jit\<close> in the interpreter, a store in compiled code.
\<close>

definition resumed_by :: "frame \<Rightarrow> ctx \<Rightarrow> ctx" where
  "resumed_by F c = c\<lparr>cur_jit_function := owner F\<rparr>"

definition call_respects :: "frame \<Rightarrow> obj run \<Rightarrow> bool" where
  "call_respects F r \<longleftrightarrow> (\<forall>t c d v c'. corr (F\<lparr>table := t\<rparr>) c d \<and> r c = Inr (v, c') \<longrightarrow>
     (\<exists>d'. r d = Inr (v, d') \<and> corr (F\<lparr>table := t\<rparr>) (resumed_by F c') (resumed_by F d')))"

definition calls_respect :: "machine \<Rightarrow> frame \<Rightarrow> bool" where
  "calls_respect m F \<longleftrightarrow> (may_call F \<longrightarrow>
     (\<forall>k ob sel vs. call_respects F (m_method m k ob sel vs)) \<and>
     (\<forall>k C vs. call_respects F (m_closure m k C vs)))"

definition machine_fits :: "machine \<Rightarrow> frame \<Rightarrow> bool" where
  "machine_fits m F \<longleftrightarrow> allocator_ok (m_env m) \<and> calls_respect m F"

lemma call_respectsD:
  assumes "call_respects F r" and "corr F c d" and "r c = Inr (v, c')"
  obtains d' where "r d = Inr (v, d')" and "corr F (resumed_by F c') (resumed_by F d')"
proof -
  have "corr (F\<lparr>table := table F\<rparr>) c d" using assms(2) by simp
  then obtain d' where "r d = Inr (v, d')" "corr (F\<lparr>table := table F\<rparr>) (resumed_by F c') (resumed_by F d')"
    using assms(1,3) unfolding call_respects_def by blast
  then show thesis using that by simp
qed

text \<open>Where the variables of the caller are does not matter.\<close>

lemma corr_place: "corr (F\<lparr>syms := s, base_ident := n, table := t\<rparr>) c d \<longleftrightarrow> corr (F\<lparr>table := t\<rparr>) c d"
  by (simp add: corr_def constants_hold_def known_ok_def)

lemma calls_respect_place: "calls_respect m (F\<lparr>table := t, syms := s, base_ident := n\<rparr>) \<longleftrightarrow> calls_respect m F"
proof -
  have "call_respects (F\<lparr>table := t, syms := s, base_ident := n\<rparr>) r \<longleftrightarrow> call_respects F r" for r
    by (simp add: corr_place call_respects_def resumed_by_def)
  then show ?thesis by (simp add: calls_respect_def)
qed

text \<open>The same for the calls of the interpreter.\<close>

lemma saving_respects:
  assumes "call_respects F r" and "corr F c d" and "saving_jit r c = Inr (v, c')"
  shows "\<exists>d'. saving_jit r d = Inr (v, d') \<and> corr F c' d'"
proof -
  obtain e where e: "r c = Inr (v, e)" "c' = resumed_by F e"
    using assms(3) corr_constants(6) [OF assms(2)] by (auto simp: saving_jit_def sem_simps resumed_by_def split: sum.splits)
  obtain d' where d': "r d = Inr (v, d')" "corr F (resumed_by F e) (resumed_by F d')"
    by (rule call_respectsD [OF assms(1,2) e(1)])
  have "cur_jit_function d = owner F" using corr_constants(6) [OF assms(2)] corr_fields(4) [OF assms(2)] by simp
  then have "saving_jit r d = Inr (v, resumed_by F d')" using d'(1) by (simp add: saving_jit_def sem_simps resumed_by_def)
  then show ?thesis using d'(2) e(2) by blast
qed

lemma load_method_same:
  assumes "classes d = classes c" and "load_method_ptr mp c = Inr (f, c')"
  shows "c' = c \<and> load_method_ptr mp d = Inr (f, d)"
  using assms by (cases mp) (auto simp: load_method_ptr_def method_at_def class_at_def sem_simps split: option.splits if_splits sum.splits)

lemma call_through_corr:
  assumes "calls_respect m F" and "may_call F" and "corr F c d" and "call_through m mp w sel vs c = Inr (v, c')"
  shows "\<exists>d'. call_through m mp w sel vs d = Inr (v, d') \<and> corr F c' d'"
proof -
  obtain f c1 where f: "load_method_ptr mp c = Inr (f, c1)" "saving_jit (callCompiledMethod m f w sel vs) c1 = Inr (v, c')"
    using assms(4) unfolding call_through_def by (rule bind_InrE)
  note l = load_method_same [OF corr_fields(2) [OF assms(3)] f(1)]
  have "call_respects F (callCompiledMethod m f w sel vs)"
    using assms(1,2) by (auto simp: callCompiledMethod_def calls_respect_def call_respects_def sem_simps split: option.splits)
  from saving_respects [OF this assms(3)] f(2) l show ?thesis by (auto simp: call_through_def sem_simps)
qed

lemma isa_same:
  assumes "mem d = mem c" and "isa w c = Inr (k, c')"
  shows "c' = c \<and> isa w d = Inr (k, d)"
  using assms by (auto simp: isa_def block_at_def sem_simps split: option.splits block.splits sum.splits if_splits)

lemma closure_value_corr:
  assumes "calls_respect m F" and "may_call F" and "corr F c d" and "call_closure_value m w vs c = Inr (v, c')"
  shows "\<exists>d'. call_closure_value m w vs d = Inr (v, d') \<and> corr F c' d'"
proof -
  have mem: "mem d = mem c" by (rule corr_fields(1) [OF assms(3)])
  obtain cl where cl: "isa w c = Inr (ClosureClass, c)" "closure_at w c = Inr (cl, c)"
    "saving_jit (callCompiledClosure m (invoke cl) w vs) c = Inr (v, c')"
    using assms(4)
    by (auto simp: call_closure_value_def closure_at_def isa_def block_at_def sem_simps
        split: sum.splits if_splits option.splits block.splits)
  have "isa w d = Inr (ClosureClass, d)" using isa_same [OF mem cl(1)] by simp
  moreover have "closure_at w d = Inr (cl, d)"
    using cl(2) mem by (auto simp: closure_at_def block_at_def sem_simps split: option.splits block.splits)
  moreover have "call_respects F (callCompiledClosure m (invoke cl) w vs)"
    using assms(1,2) by (auto simp: callCompiledClosure_def calls_respect_def call_respects_def sem_simps split: option.splits)
  from saving_respects [OF this assms(3) cl(3)] obtain d'
    where "saving_jit (callCompiledClosure m (invoke cl) w vs) d = Inr (v, d')" "corr F c' d'" by blast
  ultimately show ?thesis by (auto simp: call_closure_value_def sem_simps)
qed

section \<open>The code of a call\<close>

abbreviation args_hold :: "operand list \<Rightarrow> obj list \<Rightarrow> builder \<Rightarrow> activation \<Rightarrow> bool" where
  "args_hold as vs B r \<equiv> list_all2 (\<lambda>a v. holds a (Word v) B r) as vs"

lemma stable_args: "stable (args_hold as vs)"
  unfolding stable_def by (auto intro: args_later)

lemma method_call_part: "within part (compile_method_call n ob sel as)" "within part (compile_closure_call ob as)"
  by (intro partI emits_method_call numbering.walk_method_call going_calls emits_helpers numbering.walk_helpers going_helpers)+

text \<open>A selector that compiled code knows is the interpreter's selector for the name.\<close>

lemma selector_known:
  fixes c0 :: ctx
  assumes "Runtime.lookupSelector name c0 = Inr (sel, c1)" and "rt_grows c1 cf" and "length (selectors cf) + 1 < 2 ^ 32"
    and "selectors_grow cf c"
  shows "Runtime.lookupSelector name c = Inr (sel, c)"
proof -
  obtain sels names where R: "register_static (selectors c0, selNames c0) = (sels, names)" by fastforce
  let ?found = "case map_of sels name of None \<Rightarrow> 0 | Some k \<Rightarrow> k"
  have run: "sel = (if ?found = 0 then word_of_nat (length sels + 1) else ?found)"
    "selectors c1 = (if ?found = 0 then AList.update name sel sels else sels)"
    using assms(1) by (auto simp: Runtime.lookupSelector_def intern_selector_def Let_def R split: prod.splits option.splits if_splits)
  have "length sels \<le> length (selectors c1)" using run(2) update_longer [of sels name] by auto
  then have "length sels + 1 < 2 ^ 32" using assms(2,3) by (auto simp: rt_grows_def selectors_grow_def)
  then have "word_of_nat (length sels + 1) \<noteq> (0 :: selector)"
    by (auto simp: word_of_nat_eq_0_iff simp del: of_nat_add of_nat_Suc dest!: dvd_imp_le)
  then have sel: "sel \<noteq> 0" "map_of (selectors c1) name = Some sel"
    using run by (auto simp: update_conv' split: option.splits if_splits)
  then have "map_of (selectors c) name = Some sel" using assms(2,4) by (auto simp: rt_grows_def selectors_grow_def)
  moreover from this have "selectors c \<noteq> []" by auto
  ultimately show ?thesis
    using sel(1) by (simp add: Runtime.lookupSelector_def intern_selector_def register_static_def Let_def)
qed

text \<open>A receiver whose class the interpreter can read hits, departs, or departs at the guard.\<close>

lemma receiver_cases:
  assumes "class_of_receiver w d = Inr (k, d)" and "w \<noteq> 0"
  obtains (hit) "hits a w d" and "k = a" | (miss) "misses a w d \<or> guard_parts a w"
proof (cases "isInteger w")
  case True
  then have "k = SmallIntClass" using assms(1) by (simp add: class_of_receiver_def sem_simps)
  then show thesis using that assms True by (cases "a = SmallIntClass") (auto simp: hits_def guard_parts_def)
next
  case False
  then have k: "isa w d = Inr (k, d)" using assms(1) by (simp add: class_of_receiver_def)
  show thesis
  proof (cases "a = SmallIntClass")
    case True
    then show thesis using that(2) False by (auto simp: misses_def guard_says_def guard_parts_def)
  next
    case a: False
    show thesis
    proof (cases "k = a")
      case True
      then show thesis using that(1) assms a False by (simp add: hits_def)
    next
      case ne: False
      then show thesis using that(2) k a by (auto simp: misses_def guard_says_def)
    qed
  qed
qed

lemma class_of_receiver_same:
  assumes "mem d = mem c" and "class_of_receiver w c = Inr (k, c')"
  shows "c' = c \<and> class_of_receiver w d = Inr (k, d)"
  using assms isa_same [OF assms(1)] by (auto simp: class_of_receiver_def sem_simps split: if_splits)

lemma code_method_call:
  assumes resp: "calls_respect m F" "may_call F" and n: "n \<in> inner F" and w: "w \<noteq> 0"
    and sel: "Runtime.lookupSelector name c = Inr (sel, c)" and call: "call_method_value m n name w vs c = Inr (x, c')"
  shows "code m f (linked F) (\<lambda>B r d. (holds ob (Word w) B r \<and> args_hold as vs B r \<and> located F B r) \<and> corr F c d)
    (compile_method_call n ob (Const (Word (ucast sel))) as)
    (\<lambda>v B r d. (holds v (Word x) B r \<and> located F B r) \<and> corr F c' d)"
proof (rule codeI)
  fix B v B' r d
  assume run: "compile_method_call n ob (Const (Word (ucast sel))) as B = Inr (v, B')" and wf: "wf_builder B" "insert_point B \<noteq> None"
    and fin: "final B' f" and rt: "rt_grows (rt B') (linked F)"
    and P: "(holds ob (Word w) B r \<and> args_hold as vs B r \<and> located F B r) \<and> corr F c d"
  note pt = withinD [OF method_call_part(1) run]
  note bk = part_back [OF pt wf(1) fin rt]
  let ?st = "call_sites (rt B) n"
  have st: "?st = call_sites (linked F) n" using bk(2) by (simp add: rt_grows_def)
  have cd: "corr F c d" using P by simp
  note same = corr_fields [OF cd]
  have site: "type_assumption (call_sites c n) = type_assumption ?st" "cachedMethod (call_sites c n) = cachedMethod ?st"
    using corr_constants(8) [OF cd n] by (simp_all add: st site_kept_def)
  obtain k where k: "class_of_receiver w c = Inr (k, c)"
    using call sel class_of_receiver_same [OF HOL.refl, of w c]
    by (fastforce simp: call_method_value_def sem_simps split: if_splits sum.splits)
  have kd: "class_of_receiver w d = Inr (k, d)" using class_of_receiver_same [OF same(1) k] by simp
  show "(\<exists>r' d'. reaches m f (point B r) d (point B' r') d' \<and> agree (next_ident B) r r' \<and>
      (holds v (Word x) B' r' \<and> located F B' r') \<and> corr F c' d') \<or> departs m f (point B r) d"
  proof (rule receiver_cases [OF kd w, of "type_assumption ?st"])
    assume "misses (type_assumption ?st) w d \<or> guard_parts (type_assumption ?st) w"
    then show ?thesis using call_departs [OF run wf fin] P by blast
  next
    assume hit: "hits (type_assumption ?st) w d" "k = type_assumption ?st"
    show ?thesis
    proof (cases "cachedMethod ?st")
      case None
      obtain H r2 where H: "compile_fast_path n ?st ob (Const (Word (ucast sel))) as H = Inr (v, B')"
        "wf_builder H" "insert_point H \<noteq> None" "reaches m f (point B r) d (point H r2) d"
        by (rule call_to_fast_path [OF run wf fin _ hit(1), where m = m]) (use P in auto)
      show ?thesis using departs_later [OF H(4) fast_path_departs [OF H(1-3) fin None]] by blast
    next
      case (Some mp)
      let ?new = "(call_sites c n)\<lparr>alternative_type_count := 0\<rparr>"
      let ?c = "c\<lparr>call_sites := (call_sites c)(n := ?new)\<rparr>" and ?d = "d\<lparr>call_sites := (call_sites d)(n := ?new)\<rparr>"
      have "call_through m mp w sel vs ?c = Inr (x, c')"
        using call sel k hit(2) site Some by (auto simp: call_method_value_def sem_simps site_step_def split: if_splits)
      moreover have "corr F ?c ?d" by (rule corr_site [OF cd]) (simp add: site_kept_def)
      ultimately obtain d' where d': "call_through m mp w sel vs ?d = Inr (x, d')" "corr F c' d'"
        using call_through_corr [OF resp] by blast
      have "cur_jit_function d = decl_node (compiling B)"
        using P same(4) corr_constants(6) [OF cd] by (simp add: located_def)
      moreover have "seq (set_site n ((call_sites d n)\<lparr>alternative_type_count := 0\<rparr>)) (call_through m mp w sel vs) d = Inr (x, d')"
        using d'(1) same(3) by (simp add: sem_simps)
      ultimately obtain r' where r': "reaches m f (point B r) d (point B' r') d'" "agree (next_ident B) r r'" "holds v (Word x) B' r'"
        using call_hits [OF run wf fin _ _ hit(1) Some] P by blast
      have "located F B' r'" by (rule stableD [OF stable_located _ r'(2) bk(4-6)]) (use P in simp)
      then show ?thesis using r' d'(2) by blast
    qed
  qed
qed

lemma code_closure_call:
  assumes resp: "calls_respect m F" "may_call F" and call: "call_closure_value m w vs c = Inr (x, c')"
  shows "code m f (linked F) (\<lambda>B r d. (holds ob (Word w) B r \<and> args_hold as vs B r \<and> located F B r) \<and> corr F c d)
    (compile_closure_call ob as) (\<lambda>v B r d. (holds v (Word x) B r \<and> located F B r) \<and> corr F c' d)"
proof (rule codeI)
  fix B v B' r d
  assume run: "compile_closure_call ob as B = Inr (v, B')" and wf: "wf_builder B" "insert_point B \<noteq> None"
    and fin: "final B' f" and rt: "rt_grows (rt B') (linked F)"
    and P: "(holds ob (Word w) B r \<and> args_hold as vs B r \<and> located F B r) \<and> corr F c d"
  note bk = part_back [OF withinD [OF method_call_part(2) run] wf(1) fin rt]
  have cd: "corr F c d" using P by simp
  obtain d' where d': "call_closure_value m w vs d = Inr (x, d')" "corr F c' d'"
    using closure_value_corr [OF resp cd call] by blast
  have "cur_jit_function d = decl_node (compiling B)"
    using P corr_fields(4) [OF cd] corr_constants(6) [OF cd] by (simp add: located_def)
  then obtain r' where r': "reaches m f (point B r) d (point B' r') d'" "agree (next_ident B) r r'" "holds v (Word x) B' r'"
    using closure_call_runs [OF run wf fin _ _ _ d'(1)] P by blast
  have "located F B' r'" by (rule stableD [OF stable_located _ r'(2) bk(4-6)]) (use P in simp)
  then show "(\<exists>r' d'. reaches m f (point B r) d (point B' r') d' \<and> agree (next_ident B) r r' \<and>
      (holds v (Word x) B' r' \<and> located F B' r') \<and> corr F c' d') \<or> departs m f (point B r) d"
    using r' d'(2) by blast
qed

end
