(* ===== verification/Compile_Correct.thy ===== *)
theory Compile_Correct
  imports Compiled_Calls
begin

text \<open>
  Compiled expressions compute what the interpreter computes, in the frame of the function; \<open>departs\<close>
  names the points at which compiled and interpreted code may part.
\<close>

section \<open>Straight-line code\<close>

lemma code_create_pure:
  assumes "\<And>B r d. S B r \<Longrightarrow> \<not> parting r ins \<Longrightarrow> execute_instr m r ins d = Inr (y, d)" and "stable S"
  shows "code m f cf (\<lambda>B r d. S B r \<and> R d) (create ins) (\<lambda>v B r d. (holds v y B r \<and> S B r) \<and> R d)"
  by (rule code_weaken [OF code_create [where P = "\<lambda>B r d. S B r \<and> R d" and R = "\<lambda>x d. x = y \<and> R d" and S = S]])
    (use assms in auto)

lemma code_alu:
  assumes "stable S" and "\<And>B r. S B r \<Longrightarrow> holds a (Word x) B r"
  shows "code m f cf (\<lambda>B r d. S B r \<and> R d) (create (Alu op a (Const (Word y))))
    (\<lambda>v B r d. (holds v (Word (alu_value op x y)) B r \<and> S B r) \<and> R d)"
  by (rule code_create_pure)
    (use assms(1) in \<open>auto simp: sem_simps word_operand_value word_operand_Const dest!: assms(2) holdsD\<close>)

lemma code_cast:
  assumes "stable S" and "\<And>B r. S B r \<Longrightarrow> holds a x B r"
  shows "code m f cf (\<lambda>B r d. S B r \<and> R d) (create (Cast a)) (\<lambda>v B r d. (holds v x B r \<and> S B r) \<and> R d)"
  by (rule code_create_pure) (use assms(1) in \<open>auto simp: sem_simps dest!: assms(2) holdsD\<close>)

lemma code_small_int:
  assumes "stable S" and "\<And>B r. S B r \<Longrightarrow> holds a (Word x) B r"
  shows "code m f cf (\<lambda>B r d. S B r \<and> R d) (small_int_of a)
    (\<lambda>v B r d. (holds v (Word (compileSmallInt x)) B r \<and> S B r) \<and> R d)"
  unfolding small_int_of_def
proof (rule code_bind [OF code_alu [OF assms]])
  fix v
  have "code m f cf (\<lambda>B r d. (holds v (Word (alu_value ShlOp x 3)) B r \<and> S B r) \<and> R d)
      (create (Alu OrOp v (Const (Word 1))))
      (\<lambda>w B r d. (holds w (Word (alu_value OrOp (alu_value ShlOp x 3) 1)) B r \<and> holds v (Word (alu_value ShlOp x 3)) B r \<and> S B r) \<and> R d)"
    by (rule code_alu) (intro stable_intros assms | simp)+
  then show "code m f cf (\<lambda>B r d. (holds v (Word (alu_value ShlOp x 3)) B r \<and> S B r) \<and> R d)
      (create (Alu OrOp v (Const (Word 1))))
      (\<lambda>v B r d. (holds v (Word (compileSmallInt x)) B r \<and> S B r) \<and> R d)"
    by (rule code_weaken) (auto simp: compileSmallInt_def)
qed (auto intro: part_steps dest: assms(2))

text \<open>Comparisons agree where two different words differ in more than their tags.\<close>

lemma icmp_agrees:
  assumes "isComparison op" and "x = y \<or> asr3 x \<noteq> asr3 y"
  shows "integerOp op x y = Inr (compileSmallInt (of_bool (icmp op x y)))"
proof -
  have "evaluateWithIntegers op (asr3 x) (asr3 y) = Inr (of_bool (icmp op x y))"
  proof (cases "x = y")
    case True
    then show ?thesis using integerOp_compare [OF assms(1), of x y] by simp
  next
    case False
    then have ne: "sint (asr3 x) \<noteq> sint (asr3 y)" using assms(2) by (auto dest: signed_word_eqI)
    have "0 \<le> sint x mod 8" "sint x mod 8 < 8" "0 \<le> sint y mod 8" "sint y mod 8 < 8" by simp_all
    then have "sint x < sint y \<longleftrightarrow> sint (asr3 x) < sint (asr3 y)" "sint x \<le> sint y \<longleftrightarrow> sint (asr3 x) \<le> sint (asr3 y)"
      "sint y < sint x \<longleftrightarrow> sint (asr3 y) < sint (asr3 x)" "sint y \<le> sint x \<longleftrightarrow> sint (asr3 y) \<le> sint (asr3 x)"
      using sint_split [of x] sint_split [of y] ne by linarith+
    then show ?thesis using assms(1) False ne by (cases op) simp_all
  qed
  then show ?thesis by (simp add: integerOp_def createSmallInteger_bool)
qed

lemma code_compare:
  assumes "stable S" and "\<And>B r. S B r \<Longrightarrow> holds a (Word x) B r \<and> holds b (Word y) B r"
    and "isComparison op" and "integerOp op x y = Inr z"
  shows "code m f cf (\<lambda>B r d. S B r \<and> R d) (compile_compare op a b)
    (\<lambda>v B r d. (holds v (Word z) B r \<and> S B r) \<and> R d)"
  unfolding compile_compare_def getAsSmallInt_def
proof (rule code_bind [OF code_cast])
  fix l
  let ?S1 = "\<lambda>B r. holds l (Word x) B r \<and> S B r"
  show "code m f cf (\<lambda>B r d. ?S1 B r \<and> R d)
     (bind (create (Cast b)) (\<lambda>r. bind (create (ICmp op l r)) (\<lambda>cmp. bind (create (ZExt cmp)) small_int_of)))
     (\<lambda>v B r d. (holds v (Word z) B r \<and> S B r) \<and> R d)"
  proof (rule code_bind [OF code_cast])
    fix k
    let ?S2 = "\<lambda>B r. holds k (Word y) B r \<and> ?S1 B r"
    let ?t = "icmp op x y"
    have cmp: "code m f cf (\<lambda>B r d. ?S2 B r \<and> R d) (create (ICmp op l k))
        (\<lambda>v B r d. \<exists>w. holds v w B r \<and> ((w = Bit ?t \<and> z = compileSmallInt (of_bool ?t)) \<and> R d) \<and> S B r)"
    proof (rule code_create)
      fix B r d
      assume P: "?S2 B r \<and> R d" and "\<not> parting r (ICmp op l k)"
      then have "x = y \<or> asr3 x \<noteq> asr3 y" by (auto simp: holds_def)
      then have "z = compileSmallInt (of_bool ?t)" using icmp_agrees [OF assms(3)] assms(4) by auto
      then show "\<exists>w d'. execute_instr m r (ICmp op l k) d = Inr (w, d') \<and> (w = Bit ?t \<and> z = compileSmallInt (of_bool ?t)) \<and> R d'"
        using P by (auto simp: sem_simps word_operand_value dest!: holdsD)
    qed (auto intro!: stable_intros assms(1))
    show "code m f cf (\<lambda>B r d. ?S2 B r \<and> R d)
      (bind (create (ICmp op l k)) (\<lambda>cmp. bind (create (ZExt cmp)) small_int_of))
      (\<lambda>v B r d. (holds v (Word z) B r \<and> S B r) \<and> R d)"
    proof (rule code_bind [OF cmp])
      fix c
      let ?S3 = "\<lambda>B r. (holds c (Bit ?t) B r \<and> S B r) \<and> z = compileSmallInt (of_bool ?t)"
      have "code m f cf (\<lambda>B r d. ?S3 B r \<and> R d) (bind (create (ZExt c)) small_int_of)
        (\<lambda>v B r d. (holds v (Word z) B r \<and> S B r) \<and> R d)"
      proof (rule code_bind [OF code_create_pure])
        fix B r d
        show "?S3 B r \<Longrightarrow> execute_instr m r (ZExt c) d = Inr (Word (of_bool ?t), d)"
          by (simp add: sem_simps holds_def)
      next
        show st: "stable ?S3" by (intro stable_intros assms(1))
        fix e
        show "code m f cf (\<lambda>B r d. (holds e (Word (of_bool ?t)) B r \<and> ?S3 B r) \<and> R d) (small_int_of e)
          (\<lambda>v B r d. (holds v (Word z) B r \<and> S B r) \<and> R d)"
          by (rule code_weaken [OF code_small_int [where x = "of_bool ?t" and R = R and
              S = "\<lambda>B r. holds e (Word (of_bool ?t)) B r \<and> ?S3 B r"]])
            (use stable_conj [OF stable_holds st] in auto)
      qed (intro part_steps)+
      then show "code m f cf (\<lambda>B r d. \<exists>w. holds c w B r \<and> ((w = Bit ?t \<and> z = compileSmallInt (of_bool ?t)) \<and> R d) \<and> S B r)
        (bind (create (ZExt c)) small_int_of) (\<lambda>v B r d. (holds v (Word z) B r \<and> S B r) \<and> R d)"
        by (rule code_weaken) auto
    qed (intro parts.within_intros part_steps)+
  qed (auto intro!: parts.within_intros part_steps stable_intros assms(1) dest: assms(2))
qed (auto intro!: parts.within_intros part_steps stable_intros assms(1) dest: assms(2))

lemma code_helper:
  assumes "stable S" and "\<And>B r. S B r \<Longrightarrow> holds a (Word x) B r \<and> holds b (Word y) B r"
    and "\<not> isComparison op" and "isInteger x \<and> isInteger y \<Longrightarrow> integerOp op x y = Inr z \<and> (\<forall>d. R d \<longrightarrow> R' d)"
  shows "code m f cf (\<lambda>B r d. S B r \<and> R d) (compileBinaryOp op a b)
    (\<lambda>v B r d. (holds v (Word z) B r \<and> S B r) \<and> R' d)"
  unfolding compileBinaryOp_def getAsObject_def
proof (rule code_bind [OF code_cast])
  fix l
  let ?S1 = "\<lambda>B r. holds l (Word x) B r \<and> S B r"
  show "code m f cf (\<lambda>B r d. ?S1 B r \<and> R d) (bind (create (Cast b)) (\<lambda>r. create (CallHelper op l r)))
     (\<lambda>v B r d. (holds v (Word z) B r \<and> S B r) \<and> R' d)"
  proof (rule code_bind [OF code_cast])
    fix k
    let ?S2 = "\<lambda>B r. holds k (Word y) B r \<and> ?S1 B r"
    show "code m f cf (\<lambda>B r d. ?S2 B r \<and> R d) (create (CallHelper op l k))
        (\<lambda>v B r d. (holds v (Word z) B r \<and> S B r) \<and> R' d)"
    proof (rule code_weaken [OF code_create [where R = "\<lambda>w d. w = Word z \<and> R' d" and S = ?S2]])
      fix B r d
      assume P: "?S2 B r \<and> R d" and "\<not> parting r (CallHelper op l k)"
      then have i: "isInteger x \<and> isInteger y" by (auto simp: holds_def)
      then have "helperOp op x y = Inr z" "R' d"
        using assms(3,4) P by (auto simp: helperOp_def integerOp_def getInteger_def)
      then show "\<exists>w d'. execute_instr m r (CallHelper op l k) d = Inr (w, d') \<and> w = Word z \<and> R' d'"
        using P i by (auto simp: sem_simps word_operand_value word_result_def mysoreScriptOp_def dest!: holdsD)
    qed (auto intro!: stable_intros assms(1))
  qed (auto intro!: parts.within_intros part_steps stable_intros assms(1) dest: assms(2))
qed (auto intro!: parts.within_intros part_steps stable_intros assms(1) dest: assms(2))

lemma code_op:
  assumes "stable S" and "\<And>B r. S B r \<Longrightarrow> holds a (Word x) B r \<and> holds b (Word y) B r"
    and "isComparison op \<or> isInteger x \<and> isInteger y \<Longrightarrow> integerOp op x y = Inr z \<and> (\<forall>d. R d \<longrightarrow> R' d)"
  shows "code m f cf (\<lambda>B r d. S B r \<and> R d) (compileBinOp op a b)
    (\<lambda>v B r d. (holds v (Word z) B r \<and> S B r) \<and> R' d)"
proof (cases "isComparison op")
  case True
  then show ?thesis
    unfolding compileBinOp_def using assms(3) by (auto intro: code_weaken [OF code_compare [OF assms(1,2)]])
next
  case False
  then show ?thesis
    using code_helper [OF assms(1,2) False, of z R R'] assms(3) by (simp add: compileBinOp_def)
qed

section \<open>What is covered\<close>

text \<open>The value of a constant expression on integers.\<close>

fun const_value :: "expr \<Rightarrow> obj option" where
  "const_value (Number n v) = Some (literalObject v)"
| "const_value (BinOp n op l r) = (case (const_value l, const_value r) of
     (Some x, Some y) \<Rightarrow> (case integerOp op x y of Inl e \<Rightarrow> None | Inr z \<Rightarrow> Some z) | _ \<Rightarrow> None)"
| "const_value _ = None"

text \<open>The expressions that the theory covers, with what is known of their cached values.\<close>

fun fits :: "frame \<Rightarrow> expr \<Rightarrow> bool" where
  "fits F (Number n v) \<longleftrightarrow> n \<in> inner F \<and> known F n = literalObject v"
| "fits F (StringLiteral n st) \<longleftrightarrow> n \<in> inner F \<and> n \<in> warm F \<and> known F n \<noteq> 0 \<and>
     known F n = object (cache (linked F) n)"
| "fits F (BinOp n op l r) \<longleftrightarrow> n \<in> inner F \<and> fits F l \<and> fits F r \<and>
     (if isConstantExpression l \<and> isConstantExpression r then const_value (BinOp n op l r) = Some (known F n)
      else known F n = 0)"
| "fits F (VarRef n x) \<longleftrightarrow> n \<in> inner F \<and> known F n = 0"
| "fits F (NewExpr n cname) \<longleftrightarrow> n \<in> inner F \<and> known F n = 0"
| "fits F (Call n callee meth args) \<longleftrightarrow> n \<in> inner F \<and> known F n = 0 \<and> may_call F \<and> fits F callee \<and>
     (\<forall>a \<in> set args. fits F a) \<and> (meth \<noteq> None \<longrightarrow> length (selectors (linked F)) + 1 < 2 ^ 32)"
| "fits F (ClosureExpr D) \<longleftrightarrow> False"

lemma integerOp_integer: "integerOp op x y = Inr z \<Longrightarrow> isInteger z"
  by (auto simp: integerOp_def createSmallInteger_eq split: sum.splits if_splits)

lemma const_value_integer: "const_value e = Some z \<Longrightarrow> isInteger z \<and> isConstantExpression e"
  by (induction e arbitrary: z rule: const_value.induct)
    (auto split: option.splits sum.splits dest: integerOp_integer)

lemma fits_const_value: "fits F e \<Longrightarrow> const_value e = Some z \<Longrightarrow> known F (expr_node e) = z"
  using const_value_integer by (cases e) (auto split: if_splits option.splits sum.splits)

lemma integer_nonzero: "isInteger z \<Longrightarrow> z \<noteq> 0" "isInteger z \<Longrightarrow> \<not> needsGC z"
  by (auto simp: isInteger_def needsGC_def)

lemma fits_nonzero: "fits F e \<Longrightarrow> known F (expr_node e) \<noteq> 0 \<longleftrightarrow> isConstantExpression e"
proof (cases e)
  case (BinOp n op l r)
  assume "fits F e"
  then show ?thesis
    using BinOp const_value_integer [of "BinOp n op l r"] integer_nonzero(1) by (auto split: if_splits)
qed auto

lemma fits_inner: "fits F e \<Longrightarrow> expr_node e \<in> inner F"
  by (cases e) auto

section \<open>Cached values\<close>

lemma corr_cache:
  assumes "corr F c d" and "object k = known F n" and "n \<in> inner F" and "n \<notin> warm F"
  shows "corr F (c\<lparr>cache := (cache c)(n := k)\<rparr>) d"
proof -
  obtain S where S: "symbols c = table F # S" and d: "d = c\<lparr>symbols := S, cache := cache d\<rparr>"
    using assms(1) unfolding corr_def by blast
  have "d = (c\<lparr>cache := (cache c)(n := k)\<rparr>)\<lparr>symbols := S, cache := cache d\<rparr>" by (subst d) simp
  moreover have "constants_hold F (c\<lparr>cache := (cache c)(n := k)\<rparr>)"
    using corr_constants(9) [OF assms(1)] assms(2-4) by (simp add: constants_hold_def known_ok_def selectors_grow_def)
  ultimately show ?thesis using assms(1,3,4) S by (simp add: corr_def)
qed

text \<open>An expression that is not constant is evaluated, and nothing is cached.\<close>

lemma cached_other:
  assumes "fits F e" and "corr F c d" and "\<not> isConstantExpression e"
  shows "cached m e ev c = ev c"
proof -
  have "cache c (expr_node e) = no_value \<or> object (cache c (expr_node e)) = known F (expr_node e)"
    using corr_constants(1) [OF assms(2)] fits_inner [OF assms(1)] by (auto simp: known_ok_def)
  then have "object (cache c (expr_node e)) = 0"
    using fits_nonzero [OF assms(1)] assms(3) by (auto simp: no_value_def)
  then show ?thesis using assms(3) by (auto simp: cached_def sem_simps split: sum.splits)
qed

text \<open>A constant integer has its value whether it comes out of the cache or not.\<close>

lemma cached_integer:
  assumes "fits F e" and "corr F c d" and "const_value e = Some z"
    and "\<And>x c'. evaluateExpr m e c = Inr (x, c') \<Longrightarrow> x = z \<and> corr F c' d"
    and "cached m e (evaluateExpr m e) c = Inr (x, c')"
  shows "x = z \<and> corr F c' d"
proof -
  let ?n = "expr_node e"
  note z = const_value_integer [OF assms(3)] fits_const_value [OF assms(1,3)]
  show ?thesis
  proof (cases "object (cache c ?n) = 0")
    case False
    then have "object (cache c ?n) = z"
      using corr_constants(1) [OF assms(2)] fits_inner [OF assms(1)] z by (auto simp: known_ok_def no_value_def)
    then show ?thesis using assms(2,5) False by (simp add: cached_def sem_simps)
  next
    case True
    then obtain c1 k c2 where ev: "evaluateExpr m e c = Inr (x, c1)" "value_set (m_env m) (cache c1 ?n) x c1 = Inr (k, c2)"
      "c' = c2\<lparr>cache := (cache c2)(?n := k)\<rparr>"
      using assms(5) z(1) by (auto simp: cached_def set_cache_def sem_simps split: sum.splits)
    note x = assms(4) [OF ev(1)]
    have cold: "?n \<notin> warm F"
      using corr_constants(1) [OF assms(2)] True z integer_nonzero(1) by (auto simp: known_ok_def)
    have "object (cache c1 ?n) = 0 \<or> object (cache c1 ?n) = z" "cache c1 ?n = no_value \<or> object (cache c1 ?n) = z"
      using corr_constants(1) [of F c1 d] x fits_inner [OF assms(1)] z by (auto simp: known_ok_def no_value_def)
    then have "\<not> needsGC (object (cache c1 ?n))" using integer_nonzero(2) z(1) by (auto simp: needsGC_def)
    then have "k = (cache c1 ?n)\<lparr>object := z\<rparr>" "c2 = c1"
      using ev(2) x integer_nonzero(2) z(1) by (auto simp: value_set_def sem_simps)
    then show ?thesis using x ev(3) corr_cache [of F c1 d k ?n] z fits_inner [OF assms(1)] cold by simp
  qed
qed

lemma evaluate_integer:
  assumes "fits F e" and "corr F c d" and "const_value e = Some z"
    and "cached m e (evaluateExpr m e) c = Inr (x, c')"
  shows "x = z \<and> corr F c' d"
  using assms
proof (induction e arbitrary: c c' x z rule: const_value.induct)
  case (1 n v)
  then show ?case by (intro cached_integer [OF 1(1,2,3) _ 1(4)]) (simp add: evaluation_simps sem_simps)
next
  case (2 n op l r)
  obtain a b where ab: "const_value l = Some a" "const_value r = Some b" "integerOp op a b = Inr z"
    using 2(5) by (auto split: option.splits sum.splits)
  show ?case
  proof (rule cached_integer [OF 2(3,4,5) _ 2(6)])
    fix y c1
    assume "evaluateExpr m (BinOp n op l r) c = Inr (y, c1)"
    then obtain u c2 w c3 where e: "cached m l (evaluateExpr m l) c = Inr (u, c2)" "cached m r (evaluateExpr m r) c2 = Inr (w, c3)"
      "performOp m op u w c3 = Inr (y, c1)"
      unfolding evaluation_simps by (elim bind_InrE)
    have u: "u = a \<and> corr F c2 d" using 2(1) [OF _ 2(4) ab(1) e(1)] 2(3) by simp
    have w: "w = b \<and> corr F c3 d" using 2(2) [OF _ _ ab(2) e(2)] 2(3) u by simp
    show "y = z \<and> corr F c1 d"
      using e(3) u w ab const_value_integer by (auto simp: performOp_def sem_simps)
  qed
qed simp_all

section \<open>Expressions\<close>

lemma code_vacuous: "(\<And>B r d. \<not> P B r d) \<Longrightarrow> code m f cf P p Q"
  by (rule codeI) simp

lemma code_const:
  assumes "const_value e = Some z" and "stable S"
  shows "code m f cf (\<lambda>B r d. S B r \<and> R d) (compile_expr E e) (\<lambda>v B r d. (holds v (Word z) B r \<and> S B r) \<and> R d)"
  using assms
proof (induction e arbitrary: z S rule: const_value.induct)
  case (1 n v)
  have "code m f cf (\<lambda>B r d. S B r \<and> R d) (return (Const (Word z)))
      (\<lambda>v B r d. (holds v (Word z) B r \<and> S B r) \<and> R d)"
    by (rule code_weaken [OF code_return]) auto
  then show ?case using 1 by simp
next
  case (2 n op l r)
  obtain a b where ab: "const_value l = Some a" "const_value r = Some b" "integerOp op a b = Inr z"
    using 2(3) by (auto split: option.splits sum.splits)
  show ?case
    unfolding compile_expr.simps
  proof (rule code_bind [OF 2(1) [OF ab(1) 2(4)]])
    fix u
    let ?S = "\<lambda>B r. holds u (Word a) B r \<and> S B r"
    have st: "stable ?S" by (intro stable_intros 2(4))
    show "code m f cf (\<lambda>B r d. ?S B r \<and> R d) (bind (compile_expr E r) (compileBinOp op u))
      (\<lambda>v B r d. (holds v (Word z) B r \<and> S B r) \<and> R d)"
    proof (rule code_bind [OF 2(2) [OF ab(2) st]])
      fix w
      let ?S2 = "\<lambda>B r. holds w (Word b) B r \<and> ?S B r"
      have "code m f cf (\<lambda>B r d. ?S2 B r \<and> R d) (compileBinOp op u w) (\<lambda>v B r d. (holds v (Word z) B r \<and> ?S2 B r) \<and> R d)"
        by (rule code_op [where x = a and y = b]) (use ab stable_conj [OF stable_holds st] in auto)
      then show "code m f cf (\<lambda>B r d. ?S2 B r \<and> R d) (compileBinOp op u w) (\<lambda>v B r d. (holds v (Word z) B r \<and> S B r) \<and> R d)"
        by (rule code_weaken) auto
    qed (intro part_steps)+
  qed (intro parts.within_intros part_steps)+
qed simp_all

text \<open>Variables of the frame and globals.\<close>

lemma code_lookup:
  "code m f (linked F) (\<lambda>B r d. located F B r \<and> corr F c d) (lookupSymbolAddr x)
     (\<lambda>v B r d. \<exists>p. lookup_in (symbols c) (globalSymbols c) x = Some p \<and>
        (holds v (Ptr (Cell p)) B r \<and> located F B r) \<and> corr F c d)"
proof (rule codeI)
  fix B v B' r d
  assume run: "lookupSymbolAddr x B = Inr (v, B')" and lnk: "rt_grows (rt B') (linked F)"
    and P: "located F B r \<and> corr F c d"
  have var: "var_at F r x" "csymbols B = syms F" "base_ident F \<le> next_ident B" using P by (simp_all add: located_def)
  obtain S where c: "symbols c = table F # S" "globalSymbols (linked F) \<subseteq>\<^sub>m globalSymbols c"
    using P by (auto simp: corr_def constants_hold_def)
  have B': "B' = B" using run by (auto simp: lookupSymbolAddr_def sem_simps split: option.splits if_splits)
  have "\<exists>p. lookup_in (symbols c) (globalSymbols c) x = Some p \<and> holds v (Ptr (Cell p)) B r"
  proof (cases "syms F x")
    case None
    then obtain p where "globalSymbols (rt B) x = Some p" "p \<noteq> null_loc" "v = Const (Ptr (Cell p))"
      using run var(2) by (auto simp: lookupSymbolAddr_def sem_simps split: option.splits if_splits)
    moreover from this have "globalSymbols c x = Some p"
      using c(2) lnk B' by (simp add: rt_grows_def map_le_def dom_def)
    ultimately show ?thesis
      using None var(1) c(1) by (simp add: lookup_in_def var_at_def)
  next
    case (Some w)
    then show ?thesis
      using run var c operand_below_mono [of "base_ident F" w "next_ident B"]
      by (auto simp: lookup_in_def var_at_def lookupSymbolAddr_def sem_simps holds_def)
  qed
  then show "(\<exists>r' d'. reaches m f (point B r) d (point B' r') d' \<and> agree (next_ident B) r r' \<and>
      (\<exists>p. lookup_in (symbols c) (globalSymbols c) x = Some p \<and> (holds v (Ptr (Cell p)) B' r' \<and> located F B' r') \<and> corr F c d')) \<or>
    departs m f (point B r) d"
    using P B' by (blast intro: reaches.here agree_refl)
qed

lemma code_variable:
  assumes "eval_var x c = Inr (w, c')"
  shows "code m f (linked F) (\<lambda>B r d. located F B r \<and> corr F c d) (compile_expr E (VarRef n x))
     (\<lambda>v B r d. (holds v (Word w) B r \<and> located F B r) \<and> corr F c' d)"
  unfolding compile_expr.simps
proof (rule code_bind [OF code_lookup])
  fix a
  show "code m f (linked F)
     (\<lambda>B r d. \<exists>p. lookup_in (symbols c) (globalSymbols c) x = Some p \<and>
        (holds a (Ptr (Cell p)) B r \<and> located F B r) \<and> corr F c d) (create (Load a))
     (\<lambda>v B r d. (holds v (Word w) B r \<and> located F B r) \<and> corr F c' d)"
  proof (rule code_weaken [OF code_create [where R = "\<lambda>y d. y = Word w \<and> corr F c' d" and S = "located F"]])
    fix B r d
    assume "\<exists>p. lookup_in (symbols c) (globalSymbols c) x = Some p \<and>
      (holds a (Ptr (Cell p)) B r \<and> located F B r) \<and> corr F c d"
    then obtain p where p: "lookup_in (symbols c) (globalSymbols c) x = Some p" "operand_value r a = Inr (Ptr (Cell p))" "corr F c d"
      by (auto dest: holdsD)
    then have "load p c = Inr (w, c')" using assms by (simp add: eval_var_def sem_simps)
    from load_corr [OF this p(3)] show "\<exists>y d'. execute_instr m r (Load a) d = Inr (y, d') \<and> y = Word w \<and> corr F c' d'"
      using p by (auto simp: sem_simps place_operand_def)
  qed (auto intro: stable_located)
qed (intro part_steps)+

lemma lookupClass_known:
  assumes "lookupClass nm c0 = Inr (cls, c1)" and "rt_grows c1 cf"
    and "classTable cf \<noteq> [] \<longrightarrow> classTable c \<noteq> [] \<and> map_of (classTable cf) \<subseteq>\<^sub>m map_of (classTable c)"
  shows "lookupClass nm c = Inr (cls, c)"
proof -
  let ?t = "registerClasses (classTable c0)"
  have t: "classTable c1 \<noteq> []" "map_of (classTable c1) nm = Some cls"
  proof -
    have "?t \<noteq> []" by (simp add: registerClasses_def)
    then have "AList.update nm 0 ?t \<noteq> []" by (cases ?t) (auto split: if_splits)
    then show "classTable c1 \<noteq> []" "map_of (classTable c1) nm = Some cls"
      using assms(1) \<open>?t \<noteq> []\<close> by (auto simp: lookupClass_def Let_def update_conv' split: option.splits)
  qed
  then have "classTable c \<noteq> []" "map_of (classTable c) nm = Some cls"
    using assms(2,3) by (auto simp: rt_grows_def map_le_def dom_def)
  then show ?thesis by (simp add: lookupClass_def Let_def registerClasses_def)
qed

lemma code_new:
  assumes "eval_new (m_env m) cname c = Inr (w, c')"
  shows "code m f (linked F) (\<lambda>B r d. located F B r \<and> corr F c d) (compile_new cname)
     (\<lambda>v B r d. (holds v (Word w) B r \<and> located F B r) \<and> corr F c' d)"
  unfolding compile_new_def
proof (rule code_bind)
  show "code m f (linked F) (\<lambda>B r d. located F B r \<and> corr F c d) (on_runtime (lookupClass cname))
    (\<lambda>cls B r d. (lookupClass cname c = Inr (cls, c) \<and> corr F c d) \<and> located F B r)"
  proof (rule codeI)
    fix B cls B' r d
    assume run: "on_runtime (lookupClass cname) B = Inr (cls, B')" and lnk: "rt_grows (rt B') (linked F)"
      and P: "located F B r \<and> corr F c d"
    obtain c1 where c1: "lookupClass cname (rt B) = Inr (cls, c1)" "B' = B\<lparr>rt := c1\<rparr>"
      using run by (auto simp: on_runtime_def split: sum.splits)
    have "lookupClass cname c = Inr (cls, c)"
      by (rule lookupClass_known [OF c1(1), of "linked F"]) (use lnk P c1(2) in \<open>simp_all add: corr_def constants_hold_def\<close>)
    moreover have "point B' r = point B r" "located F B' r" using P by (simp_all add: c1(2) point_def located_def Let_def)
    ultimately show "(\<exists>r' d'. reaches m f (point B r) d (point B' r') d' \<and> agree (next_ident B) r r' \<and>
        (lookupClass cname c = Inr (cls, c) \<and> corr F c d') \<and> located F B' r') \<or> departs m f (point B r) d"
      using P reaches.here [of m f "point B r" d] by (metis agree_refl)
  qed
next
  fix cls
  show "code m f (linked F) (\<lambda>B r d. (lookupClass cname c = Inr (cls, c) \<and> corr F c d) \<and> located F B r)
     (create (CallNewObject (Const (Word cls)))) (\<lambda>v B r d. (holds v (Word w) B r \<and> located F B r) \<and> corr F c' d)"
  proof (rule code_weaken [OF code_create [where R = "\<lambda>y d. y = Word w \<and> corr F c' d" and S = "located F"]])
    fix B r d
    assume P: "(lookupClass cname c = Inr (cls, c) \<and> corr F c d) \<and> located F B r"
    then have "newObject (m_env m) cls c = Inr (w, c')" using assms by (simp add: eval_new_def sem_simps)
    then obtain M where "newObject (m_env m) cls d = Inr (w, d\<lparr>mem := M\<rparr>)" "c' = c\<lparr>mem := M\<rparr>"
      using corr_fields(1,2) [OF conjunct2 [OF conjunct1 [OF P]]]
      by (auto simp: newObject_def class_at_def sem_simps split: option.splits)
    then show "\<exists>y d'. execute_instr m r (CallNewObject (Const (Word cls))) d = Inr (y, d') \<and> y = Word w \<and> corr F c' d'"
      using P corr_fields(6) by (auto simp: sem_simps word_result_def word_operand_Const)
  qed (auto intro: stable_located)
qed (intro part_steps growing_steps)+

text \<open>A string literal is a constant of the code: the cached object.\<close>

lemma cached_string_result:
  assumes "allocator_ok E" and "cached_string E n st c = Inr (v, c1)"
  shows "v = object (cache c1 n)" and "v \<noteq> 0"
proof -
  show v: "v = object (cache c1 n)"
    using assms(2) by (auto simp: cached_string_def sem_simps split: sum.splits if_splits)
  show "v \<noteq> 0"
  proof (cases "object (cache c n) = 0")
    case True
    obtain w c2 k c3 where s: "eval_string E st c = Inr (w, c2)" "value_set E (cache c2 n) w c2 = Inr (k, c3)"
      "c1 = c3\<lparr>cache := (cache c3)(n := k)\<rparr>"
      using assms(2) True by (auto simp: cached_string_def set_cache_def sem_simps split: sum.splits)
    then have "v = w" using v value_set_object [OF s(2)] by simp
    then show ?thesis
      using s(1) allocator_okD(2) [OF assms(1)]
      by (auto simp: eval_string_def new_string_def sem_simps split: sum.splits option.splits)
  next
    case False
    then show ?thesis using assms(2) by (auto simp: cached_string_def sem_simps)
  qed
qed

lemma code_string:
  assumes "allocator_ok E" and "fits F (StringLiteral n st)"
  shows "code m f (linked F) (\<lambda>B r d. located F B r \<and> corr F c d) (compile_string E n st)
     (\<lambda>v B r d. (holds v (Word (known F n)) B r \<and> located F B r) \<and> corr F c d)"
proof (rule codeI)
  fix B v B' r d
  assume run: "compile_string E n st B = Inr (v, B')" and lnk: "rt_grows (rt B') (linked F)"
    and P: "located F B r \<and> corr F c d"
  obtain w c1 where c1: "cached_string E n st (rt B) = Inr (w, c1)" "B' = B\<lparr>rt := c1\<rparr>" "v = Const (Word w)"
    using run by (auto simp: compile_string_def on_runtime_def sem_simps split: sum.splits)
  have "w = known F n"
    using cached_string_result [OF assms(1) c1(1)] lnk assms(2) c1(2) by (auto simp: rt_grows_def)
  moreover have "point B' r = point B r" "located F B' r" using P by (simp_all add: c1(2) point_def located_def Let_def)
  ultimately show "(\<exists>r' d'. reaches m f (point B r) d (point B' r') d' \<and> agree (next_ident B) r r' \<and>
      (holds v (Word (known F n)) B' r' \<and> located F B' r') \<and> corr F c d') \<or> departs m f (point B r) d"
    using P reaches.here [of m f "point B r" d] c1(3) by (metis agree_refl holds_Const)
qed

text \<open>
  The code of an expression computes the value that the interpreter gets, and leaves the context
  as the interpreter leaves it.
\<close>

lemma code_args:
  assumes "\<And>a c c' x. a \<in> set as \<Longrightarrow> cached m a (evaluateExpr m a) c = Inr (x, c') \<Longrightarrow>
      code m f (linked F) (\<lambda>B r d. located F B r \<and> corr F c d) (compile_expr E a)
        (\<lambda>v B r d. (holds v (Word x) B r \<and> located F B r) \<and> corr F c' d)"
    and "evaluate_args m as i c = Inr (vs, c')"
  shows "code m f (linked F) (\<lambda>B r d. located F B r \<and> corr F c d) (compile_args E as)
    (\<lambda>ops B r d. (args_hold ops vs B r \<and> located F B r) \<and> corr F c' d)"
  using assms
proof (induction as arbitrary: i c vs)
  case Nil
  then have "vs = [] \<and> c' = c" by (simp add: evaluation_simps sem_simps)
  then show ?case unfolding compile_args.simps by (auto intro: code_done)
next
  case (Cons a as)
  obtain x c1 ws where e: "cached m a (evaluateExpr m a) c = Inr (x, c1)" "evaluate_args m as (Suc i) c1 = Inr (ws, c')" "vs = x # ws"
    using Cons.prems(2) by (auto simp: evaluation_simps sem_simps split: sum.splits if_splits)
  have rest: "code m f (linked F) (\<lambda>B r d. located F B r \<and> corr F c1 d) (compile_args E as)
      (\<lambda>ops B r d. (args_hold ops ws B r \<and> located F B r) \<and> corr F c' d)"
    by (rule Cons.IH [OF Cons.prems(1) e(2)]) auto
  show ?case
    unfolding compile_args.simps
  proof (rule code_bind [OF Cons.prems(1) [OF _ e(1)]])
    fix u
    let ?S = "\<lambda>B r. holds u (Word x) B r \<and> located F B r"
    have "stable ?S" by (intro stable_intros stable_located)
    then have cast: "code m f (linked F) (\<lambda>B r d. ?S B r \<and> corr F c1 d) (getAsObject u)
        (\<lambda>v B r d. (holds v (Word x) B r \<and> ?S B r) \<and> corr F c1 d)"
      unfolding getAsObject_def by (rule code_cast) simp
    show "code m f (linked F) (\<lambda>B r d. ?S B r \<and> corr F c1 d)
        (bind (getAsObject u) (\<lambda>v. bind (compile_args E as) (\<lambda>vs. return (v # vs))))
        (\<lambda>ops B r d. (args_hold ops vs B r \<and> located F B r) \<and> corr F c' d)"
    proof (rule code_bind [OF cast])
      fix v
      note code_frame [OF rest stable_holds [of v "Word x"] part_steps(4)]
      then have more: "code m f (linked F) (\<lambda>B r d. (holds v (Word x) B r \<and> ?S B r) \<and> corr F c1 d) (compile_args E as)
          (\<lambda>ops B r d. (args_hold ops ws B r \<and> located F B r) \<and> holds v (Word x) B r \<and> corr F c' d)"
        by (rule code_weaken) auto
      show "code m f (linked F) (\<lambda>B r d. (holds v (Word x) B r \<and> ?S B r) \<and> corr F c1 d)
          (bind (compile_args E as) (\<lambda>vs. return (v # vs)))
          (\<lambda>ops B r d. (args_hold ops vs B r \<and> located F B r) \<and> corr F c' d)"
        by (rule code_bind [OF more]) (auto intro!: code_done parts.within_intros part_steps simp: e(3))
    qed (auto intro!: parts.within_intros part_steps)
  qed (auto intro!: parts.within_intros part_steps)
qed

lemma code_call:
  assumes resp: "calls_respect m F" "may_call F" and n: "n \<in> inner F"
    and room: "meth \<noteq> None \<longrightarrow> length (selectors (linked F)) + 1 < 2 ^ 32"
    and callee: "code m f (linked F) (\<lambda>B r d. located F B r \<and> corr F c d) (compile_expr E e)
      (\<lambda>v B r d. (holds v (Word w) B r \<and> located F B r) \<and> corr F c1 d)"
    and args: "evaluate_args m as 0 c1 = Inr (vs, c2)"
      "code m f (linked F) (\<lambda>B r d. located F B r \<and> corr F c1 d) (compile_args E as)
        (\<lambda>ops B r d. (args_hold ops vs B r \<and> located F B r) \<and> corr F c2 d)"
    and call: "do_call m n meth (return vs) w c2 = Inr (x, c')"
  shows "code m f (linked F) (\<lambda>B r d. located F B r \<and> corr F c d) (compile_expr E (Call n e meth as))
    (\<lambda>v B r d. (holds v (Word x) B r \<and> located F B r) \<and> corr F c' d)"
  unfolding compile_expr.simps
proof (rule code_bind [OF callee])
  fix u
  let ?S = "\<lambda>B r. holds u (Word w) B r \<and> located F B r"
  have w: "w \<noteq> 0" using call by (auto simp: do_call_def sem_simps split: if_splits)
  have "stable ?S" by (intro stable_intros stable_located)
  then have cast: "code m f (linked F) (\<lambda>B r d. ?S B r \<and> corr F c1 d) (getAsObject u)
      (\<lambda>v B r d. (holds v (Word w) B r \<and> ?S B r) \<and> corr F c1 d)"
    unfolding getAsObject_def by (rule code_cast) simp
  show "code m f (linked F) (\<lambda>B r d. ?S B r \<and> corr F c1 d)
      (bind (getAsObject u) (\<lambda>ob. case meth of None \<Rightarrow> bind (compile_args E as) (compile_closure_call ob)
        | Some name \<Rightarrow> bind (on_runtime (Runtime.lookupSelector name)) (\<lambda>sel.
            bind (compile_args E as) (compile_method_call n ob (Const (Word (ucast sel)))))))
      (\<lambda>v B r d. (holds v (Word x) B r \<and> located F B r) \<and> corr F c' d)"
  proof (rule code_bind [OF cast])
    fix ob
    note code_frame [OF args(2) stable_holds [of ob "Word w"] part_steps(4)]
    then have args': "code m f (linked F) (\<lambda>B r d. (holds ob (Word w) B r \<and> ?S B r) \<and> corr F c1 d) (compile_args E as)
        (\<lambda>ops B r d. (holds ob (Word w) B r \<and> args_hold ops vs B r \<and> located F B r) \<and> corr F c2 d)"
      by (rule code_weaken) auto
    show "code m f (linked F) (\<lambda>B r d. (holds ob (Word w) B r \<and> ?S B r) \<and> corr F c1 d)
        (case meth of None \<Rightarrow> bind (compile_args E as) (compile_closure_call ob)
          | Some name \<Rightarrow> bind (on_runtime (Runtime.lookupSelector name)) (\<lambda>sel.
              bind (compile_args E as) (compile_method_call n ob (Const (Word (ucast sel))))))
        (\<lambda>v B r d. (holds v (Word x) B r \<and> located F B r) \<and> corr F c' d)"
    proof (cases meth)
      case None
      then have "call_closure_value m w vs c2 = Inr (x, c')" using call w by (simp add: do_call_def sem_simps)
      then show ?thesis
        unfolding None option.case
        by (rule code_bind [OF args' code_closure_call [OF resp]]) (intro part_steps method_call_part)+
    next
      case (Some name)
      let ?known = "\<lambda>sel. \<forall>c. selectors_grow (linked F) c \<longrightarrow> Runtime.lookupSelector name c = Inr (sel, c)"
      show ?thesis
        unfolding Some option.case
      proof (rule code_bind)
        show "code m f (linked F) (\<lambda>B r d. (holds ob (Word w) B r \<and> ?S B r) \<and> corr F c1 d) (on_runtime (Runtime.lookupSelector name))
          (\<lambda>sel B r d. ?known sel \<and> (holds ob (Word w) B r \<and> ?S B r) \<and> corr F c1 d)"
        proof (rule codeI)
          fix B sel B' r d
          assume run: "on_runtime (Runtime.lookupSelector name) B = Inr (sel, B')" and lnk: "rt_grows (rt B') (linked F)"
            and P: "(holds ob (Word w) B r \<and> ?S B r) \<and> corr F c1 d"
          obtain c0 where c0: "Runtime.lookupSelector name (rt B) = Inr (sel, c0)" "B' = B\<lparr>rt := c0\<rparr>"
            using run by (auto simp: on_runtime_def split: sum.splits)
          have "?known sel"
            using selector_known [OF c0(1), of "linked F"] lnk c0(2) room Some by simp
          moreover have "point B' r = point B r" "(holds ob (Word w) B' r \<and> ?S B' r) \<and> corr F c1 d"
            using P by (simp_all add: c0(2) point_def located_def holds_def Let_def)
          ultimately show "(\<exists>r' d'. reaches m f (point B r) d (point B' r') d' \<and> agree (next_ident B) r r' \<and>
              ?known sel \<and> (holds ob (Word w) B' r' \<and> ?S B' r') \<and> corr F c1 d') \<or> departs m f (point B r) d"
            using reaches.here [of m f "point B r" d] by (metis agree_refl)
        qed
      next
        fix sel
        show "code m f (linked F) (\<lambda>B r d. ?known sel \<and> (holds ob (Word w) B r \<and> ?S B r) \<and> corr F c1 d)
          (bind (compile_args E as) (compile_method_call n ob (Const (Word (ucast sel)))))
          (\<lambda>v B r d. (holds v (Word x) B r \<and> located F B r) \<and> corr F c' d)"
        proof (cases "?known sel \<and> (\<exists>d. corr F c2 d)")
          case True
          then have sel: "Runtime.lookupSelector name c2 = Inr (sel, c2)" using corr_constants(7) by blast
          have "call_method_value m n name w vs c2 = Inr (x, c')" using call w Some by (simp add: do_call_def sem_simps)
          note after = code_method_call [OF resp n w sel this, of f ob]
          show ?thesis
            by (rule code_weaken [OF code_bind [OF args' after]]) (auto intro!: part_steps method_call_part)
        next
          case False
          show ?thesis
          proof (cases "?known sel")
            case True
            with False have no: "\<not> corr F c2 d" for d by blast
            show ?thesis
              by (rule code_weaken [OF code_bind [OF args', where R = "\<lambda>_ _ _ _. False"]])
                (auto intro!: part_steps method_call_part code_vacuous simp: no)
          qed (auto intro: code_vacuous)
        qed
      qed (intro parts.within_intros part_steps growing_steps method_call_part)+
    qed
  qed (auto intro!: parts.within_intros part_steps growing_steps method_call_part split: option.split)
qed (auto intro!: parts.within_intros part_steps growing_steps method_call_part split: option.split)

text \<open>
  The code of an expression computes the value that the interpreter gets, and leaves the context
  as the interpreter leaves it.
\<close>

lemma code_expr:
  assumes "fits F e" and "machine_fits m F" and "cached m e (evaluateExpr m e) c = Inr (x, c')"
  shows "code m f (linked F) (\<lambda>B r d. located F B r \<and> corr F c d) (compile_expr (m_env m) e)
     (\<lambda>v B r d. (holds v (Word x) B r \<and> located F B r) \<and> corr F c' d)"
  using assms
proof (induction F e arbitrary: c c' x rule: fits.induct)
  case (1 F n v)
  show ?case
  proof (rule code_weaken [OF code_const [where e = "Number n v" and R = "\<lambda>d. corr F c d"]])
    fix u B r d
    assume "(holds u (Word (literalObject v)) B r \<and> located F B r) \<and> corr F c d"
    moreover from this have "x = literalObject v \<and> corr F c' d"
      using evaluate_integer [OF 1(1) _ _ 1(3), of d "literalObject v"] by auto
    ultimately show "(holds u (Word x) B r \<and> located F B r) \<and> corr F c' d" by simp
  qed (auto intro: stable_located)
next
  case (2 F n st)
  show ?case
    unfolding compile_expr.simps
  proof (rule code_weaken [OF code_string [OF _ 2(1)]])
    fix u B r d
    assume a: "(holds u (Word (known F n)) B r \<and> located F B r) \<and> corr F c d"
    then have "object (cache c n) = known F n" using 2(1) corr_constants(1) [of F c d] by (auto simp: known_ok_def)
    then have "x = known F n" "c' = c" using 2 by (auto simp: cached_def sem_simps)
    then show "(holds u (Word x) B r \<and> located F B r) \<and> corr F c' d" using a by simp
  qed (use 2(2) in \<open>auto simp: machine_fits_def\<close>)
next
  case (3 F n op l r)
  show ?case
  proof (cases "isConstantExpression l \<and> isConstantExpression r")
    case True
    then have z: "const_value (BinOp n op l r) = Some (known F n)" using 3(3) by simp
    show ?thesis
    proof (rule code_weaken [OF code_const [OF z, where R = "\<lambda>d. corr F c d"]])
      fix u B k d
      assume "(holds u (Word (known F n)) B k \<and> located F B k) \<and> corr F c d"
      moreover from this have "x = known F n \<and> corr F c' d"
        using evaluate_integer [OF 3(3) _ z 3(5), of d] by auto
      ultimately show "(holds u (Word x) B k \<and> located F B k) \<and> corr F c' d" by simp
    qed (auto intro: stable_located)
  next
    case False
    show ?thesis
    proof (cases "\<exists>d. corr F c d")
      case no: False
      then show ?thesis by (intro code_vacuous) auto
    next
      case True
      then obtain d0 where "corr F c d0" by auto
      then have "evaluateExpr m (BinOp n op l r) c = Inr (x, c')"
        using cached_other [OF 3(3)] False 3(5) by simp
      then obtain a c1 b c2 where e: "cached m l (evaluateExpr m l) c = Inr (a, c1)"
        "cached m r (evaluateExpr m r) c1 = Inr (b, c2)" "performOp m op a b c2 = Inr (x, c')"
        unfolding evaluation_simps by (elim bind_InrE)
      show ?thesis
        unfolding compile_expr.simps
      proof (rule code_bind [OF 3(1) [OF _ 3(4) e(1)]])
        fix u
        let ?S = "\<lambda>B r. holds u (Word a) B r \<and> located F B r"
        have "fits F r" using 3(3) by simp
        note code_frame [OF 3(2) [OF this 3(4) e(2)] stable_holds [of u "Word a"] part_steps(3)]
        then have right: "code m f (linked F) (\<lambda>B k d. ?S B k \<and> corr F c1 d) (compile_expr (m_env m) r)
            (\<lambda>w B k d. (holds w (Word b) B k \<and> ?S B k) \<and> corr F c2 d)"
          by (rule code_weaken) auto
        show "code m f (linked F) (\<lambda>B k d. ?S B k \<and> corr F c1 d)
            (bind (compile_expr (m_env m) r) (compileBinOp op u))
            (\<lambda>v B k d. (holds v (Word x) B k \<and> located F B k) \<and> corr F c' d)"
        proof (rule code_bind [OF right])
          fix w
          let ?S2 = "\<lambda>B r. holds w (Word b) B r \<and> ?S B r"
          have op: "isComparison op \<or> isInteger a \<and> isInteger b \<Longrightarrow>
              integerOp op a b = Inr x \<and> (\<forall>d. corr F c2 d \<longrightarrow> corr F c' d)"
            using e(3) by (auto simp: performOp_def sem_simps lift_def split: sum.splits)
          have st: "stable ?S2" by (intro stable_intros stable_located)
          show "code m f (linked F) (\<lambda>B k d. ?S2 B k \<and> corr F c2 d) (compileBinOp op u w)
            (\<lambda>v B k d. (holds v (Word x) B k \<and> located F B k) \<and> corr F c' d)"
            by (rule code_weaken [OF code_op [where S = ?S2 and x = a and y = b and R = "corr F c2", OF st _ op]]) auto
        qed (intro part_steps)+
      qed (use 3(3) in \<open>auto intro!: parts.within_intros part_steps\<close>)
    qed
  qed
next
  case (4 F n x')
  show ?case
  proof (cases "\<exists>d. corr F c d")
    case True
    then obtain d0 where "corr F c d0" by auto
    then have "eval_var x' c = Inr (x, c')"
      using cached_other [OF 4(1)] 4(3) by (simp add: evaluation_simps)
    then show ?thesis by (rule code_variable)
  qed (auto intro: code_vacuous)
next
  case (5 F n cname)
  show ?case
  proof (cases "\<exists>d. corr F c d")
    case True
    then obtain d0 where "corr F c d0" by auto
    then have "eval_new (m_env m) cname c = Inr (x, c')"
      using cached_other [OF 5(1)] 5(3) by (simp add: evaluation_simps)
    then show ?thesis unfolding compile_expr.simps by (rule code_new)
  qed (auto intro: code_vacuous)
next
  case (6 F n callee meth args)
  show ?case
  proof (cases "\<exists>d. corr F c d")
    case True
    then obtain d0 where "corr F c d0" by auto
    then have "evaluateExpr m (Call n callee meth args) c = Inr (x, c')"
      using cached_other [OF 6(3)] 6(5) by simp
    then obtain w c1 vs c2 where e: "cached m callee (evaluateExpr m callee) c = Inr (w, c1)"
      "evaluate_args m args 0 c1 = Inr (vs, c2)" "do_call m n meth (return vs) w c2 = Inr (x, c')"
      by (auto simp: evaluation_simps do_call_def sem_simps split: sum.splits if_splits)
    have f: "may_call F" "n \<in> inner F" "fits F callee" "meth \<noteq> None \<longrightarrow> length (selectors (linked F)) + 1 < 2 ^ 32"
      using 6(3) by auto
    have args: "code m f (linked F) (\<lambda>B r d. located F B r \<and> corr F c1 d) (compile_args (m_env m) args)
        (\<lambda>ops B r d. (args_hold ops vs B r \<and> located F B r) \<and> corr F c2 d)"
      by (rule code_args [OF 6(2) [OF _ _ 6(4)] e(2)]) (use 6(3) in auto)
    show ?thesis by (rule code_call [OF _ f(1,2,4) 6(1) [OF f(3) 6(4) e(1)] e(2) args e(3)]) (use 6(4) in \<open>simp add: machine_fits_def\<close>)
  qed (auto intro: code_vacuous)
qed simp_all

end
