(* ===== verification/Compile_Runs.thy ===== *)
theory Compile_Runs
  imports Compile_Correct
begin

text \<open>
  Statements, bodies and whole functions: the simulation of \<open>Compile_Correct\<close> across branches and
  loops.
\<close>

section \<open>Outcomes\<close>

text \<open>
  What the code of a statement does if the interpreter takes \<open>c\<close> to \<open>c'\<close>: it goes on behind the
  statement, or returns the value that the interpreter leaves as the return value, or departs.
\<close>

definition returned :: "machine \<Rightarrow> ir \<Rightarrow> frame \<Rightarrow> config \<Rightarrow> ctx \<Rightarrow> ctx \<Rightarrow> bool" where
  "returned m f F cfg d c' \<longleftrightarrow> (\<exists>c1 v d'. seq (set_retVal (m_env m) v) (set_returning True) c1 = Inr ((), c') \<and>
     corr F c1 d' \<and> reaches m f cfg d (Returned v) d')"

definition simulates :: "machine \<Rightarrow> ir \<Rightarrow> frame \<Rightarrow> ctx \<Rightarrow> unit build \<Rightarrow> ctx \<Rightarrow> bool" where
  "simulates m f F c p c' \<longleftrightarrow> (\<forall>B B' r d. p B = Inr ((), B') \<and> wf_builder B \<and> insert_point B \<noteq> None \<and>
     final B' f \<and> rt_grows (rt B') (linked F) \<and> located F B r \<and> corr F c d \<longrightarrow>
     departs m f (point B r) d \<or> returned m f F (point B r) d c' \<or>
     insert_point B' \<noteq> None \<and> (\<exists>r' d'. reaches m f (point B r) d (point B' r') d' \<and>
        agree (next_ident B) r r' \<and> located F B' r' \<and> corr F c' d'))"

lemma simulatesE:
  assumes "simulates m f F c p c'" and "p B = Inr ((), B')" and "wf_builder B" and "insert_point B \<noteq> None"
    and "final B' f" and "rt_grows (rt B') (linked F)" and "located F B r" and "corr F c d"
  obtains (departs) "departs m f (point B r) d" | (returned) "returned m f F (point B r) d c'"
  | (normal) r' d' where "insert_point B' \<noteq> None" and "reaches m f (point B r) d (point B' r') d'"
      and "agree (next_ident B) r r'" and "located F B' r'" and "corr F c' d'"
  using assms unfolding simulates_def by blast

lemma returned_later: "reaches m f cfg d cfg' d' \<Longrightarrow> returned m f F cfg' d' c' \<Longrightarrow> returned m f F cfg d c'"
  unfolding returned_def by (blast intro: reaches_trans)

lemma simulates_code:
  assumes "code m f (linked F) (\<lambda>B r d. located F B r \<and> corr F c d) p (\<lambda>u B r d. located F B r \<and> corr F c' d)"
    and "within part p"
  shows "simulates m f F c p c'"
  unfolding simulates_def
proof (intro allI impI)
  fix B B' r d
  assume a: "p B = Inr ((), B') \<and> wf_builder B \<and> insert_point B \<noteq> None \<and> final B' f \<and>
    rt_grows (rt B') (linked F) \<and> located F B r \<and> corr F c d"
  then have "insert_point B' \<noteq> None" using withinD [OF assms(2), of B "()" B'] by (simp add: part_def)
  moreover have "(\<exists>r' d'. reaches m f (point B r) d (point B' r') d' \<and> agree (next_ident B) r r' \<and>
      located F B' r' \<and> corr F c' d') \<or> departs m f (point B r) d"
    using assms(1) a unfolding code_def by blast
  ultimately show "departs m f (point B r) d \<or> returned m f F (point B r) d c' \<or>
     insert_point B' \<noteq> None \<and> (\<exists>r' d'. reaches m f (point B r) d (point B' r') d' \<and>
        agree (next_ident B) r r' \<and> located F B' r' \<and> corr F c' d')"
    by blast
qed

lemma simulates_vacuous: "\<nexists>d. corr F c d \<Longrightarrow> simulates m f F c p c'"
  by (simp add: simulates_def)

section \<open>Assignments\<close>

lemma store_corr:
  assumes "store p v c = Inr ((), c')" and "corr F c d"
  shows "\<exists>d'. store p v d = Inr ((), d') \<and> corr F c' d'"
  using assms corr_fields [OF assms(2)] by (auto simp: store_eq)

lemma code_symbol:
  "code m f cf (\<lambda>B r d. (holds v x B r \<and> located F B r) \<and> R d) (the_symbol y)
     (\<lambda>a B r d. (\<exists>p. table F y = Some p \<and> p \<noteq> null_loc \<and> holds a (Ptr (Cell p)) B r) \<and> (holds v x B r \<and> located F B r) \<and> R d)"
proof (rule codeI)
  fix B a B' r d
  assume run: "the_symbol y B = Inr (a, B')" and P: "(holds v x B r \<and> located F B r) \<and> R d"
  have B': "B' = B" "csymbols B y = Some a" using run by (auto simp: the_symbol_def sem_simps split: option.splits)
  then have "\<exists>p. table F y = Some p \<and> p \<noteq> null_loc \<and> holds a (Ptr (Cell p)) B r"
    using P operand_below_mono [of "base_ident F" a "next_ident B"]
    by (auto simp: located_def var_at_def holds_def dest!: spec [of _ y])
  then show "(\<exists>r' d'. reaches m f (point B r) d (point B' r') d' \<and> agree (next_ident B) r r' \<and>
      (\<exists>p. table F y = Some p \<and> p \<noteq> null_loc \<and> holds a (Ptr (Cell p)) B' r') \<and> (holds v x B' r' \<and> located F B' r') \<and> R d') \<or>
      departs m f (point B r) d"
    using P B'(1) by (blast intro: reaches.here agree_refl)
qed

lemma setSymbol_frame:
  assumes "setSymbol E y w c = Inr ((), c')" and "corr F c d" and "table F y = Some p" and "p \<noteq> null_loc"
  shows "\<exists>d'. store p w d = Inr ((), d') \<and> corr F c' d'"
proof -
  obtain S where "symbols c = table F # S" using assms(2) by (auto simp: corr_def)
  then have "store p w c = Inr ((), c')"
    using assms by (simp add: setSymbol_def sem_simps lookup_in_def)
  then show ?thesis by (rule store_corr [OF _ assms(2)])
qed

lemma code_assign:
  assumes "fits F e" and "machine_fits m F" and "cached m e (evaluateExpr m e) c = Inr (w, c1)"
    and "setSymbol (m_env m) y w c1 = Inr ((), c')"
  shows "code m f (linked F) (\<lambda>B r d. located F B r \<and> corr F c d)
    (bind (compile_expr (m_env m) e) (\<lambda>v. bind (getAsObject v) (\<lambda>v. bind (the_symbol y) (create_store v))))
    (\<lambda>u B r d. located F B r \<and> corr F c' d)"
proof (rule code_bind [OF code_expr [OF assms(1-3)]])
  fix v
  have st: "stable (\<lambda>B r. holds v (Word w) B r \<and> located F B r)" by (intro stable_intros stable_located)
  show "code m f (linked F) (\<lambda>B r d. (holds v (Word w) B r \<and> located F B r) \<and> corr F c1 d)
    (bind (getAsObject v) (\<lambda>v. bind (the_symbol y) (create_store v))) (\<lambda>u B r d. located F B r \<and> corr F c' d)"
  proof -
    have cast: "code m f (linked F) (\<lambda>B r d. (holds v (Word w) B r \<and> located F B r) \<and> corr F c1 d) (getAsObject v)
        (\<lambda>k B r d. (holds k (Word w) B r \<and> located F B r) \<and> corr F c1 d)"
      unfolding getAsObject_def by (rule code_weaken [OF code_cast [OF st, where R = "corr F c1"]]) auto
    show ?thesis
    proof (rule code_bind [OF cast])
      fix k
      show "code m f (linked F) (\<lambda>B r d. (holds k (Word w) B r \<and> located F B r) \<and> corr F c1 d)
        (bind (the_symbol y) (create_store k)) (\<lambda>u B r d. located F B r \<and> corr F c' d)"
      proof (rule code_bind [OF code_symbol])
        fix a
        have "code m f (linked F) (\<lambda>B r d. (\<exists>p. table F y = Some p \<and> p \<noteq> null_loc \<and> holds a (Ptr (Cell p)) B r) \<and>
            (holds k (Word w) B r \<and> located F B r) \<and> corr F c1 d) (create (Store k a))
            (\<lambda>v B r d. \<exists>x. holds v x B r \<and> corr F c' d \<and> located F B r)"
        proof (rule code_create)
          fix B r d
          assume P: "(\<exists>p. table F y = Some p \<and> p \<noteq> null_loc \<and> holds a (Ptr (Cell p)) B r) \<and>
            (holds k (Word w) B r \<and> located F B r) \<and> corr F c1 d"
          then obtain p where p: "table F y = Some p" "p \<noteq> null_loc" "operand_value r a = Inr (Ptr (Cell p))"
            "operand_value r k = Inr (Word w)" by (auto dest: holdsD)
          then obtain d' where "store p w d = Inr ((), d')" "corr F c' d'"
            using setSymbol_frame [OF assms(4)] P by blast
          then show "\<exists>x d'. execute_instr m r (Store k a) d = Inr (x, d') \<and> corr F c' d'"
            using p by (auto simp: sem_simps place_operand_def)
        qed (auto intro: stable_located)
        then have "code m f (linked F) (\<lambda>B r d. (\<exists>p. table F y = Some p \<and> p \<noteq> null_loc \<and> holds a (Ptr (Cell p)) B r) \<and>
            (holds k (Word w) B r \<and> located F B r) \<and> corr F c1 d) (create (Store k a))
            (\<lambda>v B r d. located F B r \<and> corr F c' d)"
          by (rule code_weaken) auto
        then show "code m f (linked F) (\<lambda>B r d. (\<exists>p. table F y = Some p \<and> p \<noteq> null_loc \<and> holds a (Ptr (Cell p)) B r) \<and>
            (holds k (Word w) B r \<and> located F B r) \<and> corr F c1 d) (create_store k a)
            (\<lambda>u B r d. located F B r \<and> corr F c' d)"
          unfolding create_store_def
          by (rule code_bind) (auto intro!: part_steps parts.within_intros code_done)
      qed (auto intro!: part_steps parts.within_intros simp: create_store_def)
    qed (auto intro!: parts.within_intros part_steps simp: create_store_def)
  qed
qed (auto intro!: parts.within_intros part_steps simp: create_store_def)

section \<open>Returning\<close>

lemma code_object:
  assumes "fits F e" and "machine_fits m F" and "cached m e (evaluateExpr m e) c = Inr (w, c1)"
  shows "code m f (linked F) (\<lambda>B r d. located F B r \<and> corr F c d) (bind (compile_expr (m_env m) e) getAsObject)
    (\<lambda>k B r d. (holds k (Word w) B r \<and> located F B r) \<and> corr F c1 d)"
proof (rule code_bind [OF code_expr [OF assms]])
  fix v
  have "stable (\<lambda>B r. holds v (Word w) B r \<and> located F B r)" by (intro stable_intros stable_located)
  then show "code m f (linked F) (\<lambda>B r d. (holds v (Word w) B r \<and> located F B r) \<and> corr F c1 d) (getAsObject v)
    (\<lambda>k B r d. (holds k (Word w) B r \<and> located F B r) \<and> corr F c1 d)"
    unfolding getAsObject_def by (rule code_weaken [OF code_cast [where R = "corr F c1"]]) auto
qed (intro part_steps)+

lemma located_walked: "located F B r \<Longrightarrow> walks B B' \<Longrightarrow> agree (next_ident B) r r' \<Longrightarrow> located F B' r'"
  by (rule stableD [OF stable_located]) (auto simp: walks_def numbers_def)

lemma simulates_return:
  assumes "fits F e" and "machine_fits m F" and "interpret_stmt m (Return n e) c = Inr ((), c')"
  shows "simulates m f F c (compile_stmt (m_env m) (Return n e)) c'"
  unfolding simulates_def
proof (intro allI impI)
  fix B B' r d
  assume a: "compile_stmt (m_env m) (Return n e) B = Inr ((), B') \<and> wf_builder B \<and> insert_point B \<noteq> None \<and> final B' f \<and>
    rt_grows (rt B') (linked F) \<and> located F B r \<and> corr F c d"
  obtain w c1 where e: "cached m e (evaluateExpr m e) c = Inr (w, c1)"
    and ret: "seq (set_retVal (m_env m) w) (set_returning True) c1 = Inr ((), c')"
    using assms(3) unfolding evaluation_simps by (rule bind_InrE)
  obtain k B2 B3 where b: "bind (compile_expr (m_env m) e) getAsObject B = Inr (k, B2)"
    "create_terminator (Ret k) B2 = Inr ((), B3)" "B' = B3\<lparr>insert_point := None\<rparr>"
    using a by (auto simp: sem_simps split: sum.splits)
  have p: "within part (bind (compile_expr (m_env m) e) getAsObject)" by (intro parts.within_intros part_steps)
  have part: "part B B2" by (rule withinD [OF p b(1)])
  then have B2: "wf_builder B2" "insert_point B2 \<noteq> None" using a by (auto simp: part_def intro: emitting_wf)
  have fin: "final (B3\<lparr>insert_point := None\<rparr>) f" using a b(3) by simp
  have fin2: "final B2 f" by (rule final_leave [OF b(2) fin B2(1)]) simp
  have rt2: "rt_grows (rt B2) (linked F)" using control_same(1) [OF b(2)] a b(3) by simp
  have "departs m f (point B r) d \<or> returned m f F (point B r) d c'"
  proof (rule codeE [OF code_object [OF assms(1,2) e] b(1) _ _ fin2 rt2, of r d])
    fix r2 d2
    assume r2: "reaches m f (point B r) d (point B2 r2) d2"
      "(holds k (Word w) B2 r2 \<and> located F B2 r2) \<and> corr F c1 d2"
    have "take_terminator r2 (Some (Ret k)) d2 = Inr (Returned w, d2)"
      using r2(2) by (simp add: sem_simps word_operand_value holds_def)
    then have "reaches m f (point B2 r2) d2 (Returned w) d2"
      by (intro leave_step [OF b(2) B2(2,1) fin]) auto
    then show ?thesis using r2 ret reaches_trans unfolding returned_def by blast
  qed (use a in auto)
  then show "departs m f (point B r) d \<or> returned m f F (point B r) d c' \<or>
     insert_point B' \<noteq> None \<and> (\<exists>r' d'. reaches m f (point B r) d (point B' r') d' \<and>
        agree (next_ident B) r r' \<and> located F B' r' \<and> corr F c' d')"
    by blast
qed

section \<open>Conditions and branches\<close>

lemma code_test:
  assumes "stable S" and "\<And>B r. S B r \<Longrightarrow> holds v (Word x) B r"
  shows "code m f cf (\<lambda>B r d. S B r \<and> R d) (condition_test v)
    (\<lambda>t B r d. (holds t (Bit (interpretedTruth x)) B r \<and> S B r) \<and> R d)"
  unfolding condition_test_def getAsSmallInt_def
proof (rule code_bind [OF code_cast [OF assms]])
  fix k
  let ?S = "\<lambda>B r. holds k (Word x) B r \<and> S B r"
  show "code m f cf (\<lambda>B r d. ?S B r \<and> R d) (bind (create (Alu LShrOp k (Const (Word 3)))) (\<lambda>c. create (IsNotNull c)))
    (\<lambda>t B r d. (holds t (Bit (interpretedTruth x)) B r \<and> S B r) \<and> R d)"
  proof (rule code_bind [OF code_alu])
    fix w
    let ?T = "\<lambda>B r. holds w (Word (alu_value LShrOp x 3)) B r \<and> ?S B r"
    have "code m f cf (\<lambda>B r d. ?T B r \<and> R d) (create (IsNotNull w))
      (\<lambda>t B r d. (holds t (Bit (interpretedTruth x)) B r \<and> ?T B r) \<and> R d)"
      by (rule code_create_pure)
        (auto intro!: stable_intros assms(1) simp: sem_simps word_operand_value truth_drop_bit compiledTruth_def dest!: holdsD)
    then show "code m f cf (\<lambda>B r d. ?T B r \<and> R d) (create (IsNotNull w))
      (\<lambda>t B r d. (holds t (Bit (interpretedTruth x)) B r \<and> S B r) \<and> R d)"
      by (rule code_weaken) auto
  qed (auto intro!: stable_intros part_steps assms(1))
qed (auto intro!: parts.within_intros part_steps)

lemma returned_returning: "returned m f F cfg d c' \<Longrightarrow> isReturning c'"
  unfolding returned_def by (fastforce elim: seq_InrE simp: set_returning_def modify_def)

lemma corr_returning: "corr F c d \<Longrightarrow> \<not> isReturning c"
  by (rule corr_constants(3))

lemma condition_runs:
  assumes "fits F e" and "machine_fits m F" and "cached m e (evaluateExpr m e) c = Inr (x, c1)"
    and run: "compile_expr (m_env m) e B = Inr (v, B1)" "condition_test v B3 = Inr (t, B4)"
      "create_terminator (CondBr t b1 b2) B4 = Inr ((), B5)"
    and wf: "wf_builder B" "insert_point B \<noteq> None" "wf_builder B3" "insert_point B3 \<noteq> None"
    and same: "walks B1 B3" "\<And>r. point B3 r = point B1 r"
    and fin: "final B1 f" "final (B5\<lparr>insert_point := Some p\<rparr>) f" "p \<in> pending B4" "rt_grows (rt B5) (linked F)"
    and P: "located F B r \<and> corr F c d"
  shows "departs m f (point B r) d \<or> (\<exists>r' d'. reaches m f (point B r) d (At (if interpretedTruth x then b1 else b2) 0 r') d' \<and>
    agree (next_ident B) r r' \<and> located F B4 r' \<and> corr F c1 d')"
proof -
  have w: "walks B B1" "walks B3 B4" "rt B5 = rt B4"
    using withinD [OF walked.walking_within(1) run(1)] withinD [OF test_walks run(2)] control_same(1) [OF run(3)] by auto
  have p4: "part B3 B4" by (rule withinD [OF part_steps(5) run(2)])
  then have wf4: "wf_builder B4" "insert_point B4 \<noteq> None" using wf by (auto simp: part_def intro: emitting_wf)
  have fin4: "final B4 f" by (rule final_leave [OF run(3) fin(2) wf4(1)]) (use fin(3) in simp)
  have rt4: "rt_grows (rt B4) (linked F)" using fin(4) w(3) by simp
  note rt3 = walked_back(1) [OF w(2) rt4]
  note rt1 = walked_back(1) [OF same(1) rt3]
  show ?thesis
  proof (rule codeE [OF code_expr [OF assms(1-3)] run(1) wf(1,2) fin(1) rt1 P])
    fix r1 d1
    assume r1: "reaches m f (point B r) d (point B1 r1) d1" "agree (next_ident B) r r1"
      "(holds v (Word x) B1 r1 \<and> located F B1 r1) \<and> corr F c1 d1"
    have st: "stable (\<lambda>B r. holds v (Word x) B r \<and> located F B r)" by (intro stable_intros stable_located)
    note test = code_test [OF st, of v x m f "linked F" "corr F c1"]
    have P3: "(holds v (Word x) B3 r1 \<and> located F B3 r1) \<and> corr F c1 d1"
      using stableD [OF st _ agree_refl, of B1 r1 B3] r1(3) same(1) by (simp add: walks_def numbers_def)
    show ?thesis
    proof (rule codeE [OF test run(2) wf(3,4) fin4 rt4 P3])
      fix r4 d4
      assume r4: "reaches m f (point B3 r1) d1 (point B4 r4) d4" "agree (next_ident B3) r1 r4"
        "(holds t (Bit (interpretedTruth x)) B4 r4 \<and> holds v (Word x) B4 r4 \<and> located F B4 r4) \<and> corr F c1 d4"
      have "reaches m f (point B4 r4) d4 (At (if interpretedTruth x then b1 else b2) 0 r4) d4"
        by (rule branch_step [OF run(3) wf4(2,1) fin(2)]) (use fin(3) r4(3) in auto)
      then have "reaches m f (point B r) d (At (if interpretedTruth x then b1 else b2) 0 r4) d4"
        using r1(1) r4(1) same(2) reaches_trans by metis
      moreover have "agree (next_ident B) r r4"
        by (rule agree_trans [OF r1(2) r4(2)]) (use w(1) same(1) in \<open>simp add: walks_def numbers_def\<close>)
      ultimately show ?thesis using r4(3) by blast
    next
      assume "departs m f (point B3 r1) d1"
      then show ?thesis using departs_later [OF r1(1)] same(2) by simp
    qed simp
  qed blast
qed

text \<open>The steps of a conditional, and the final form of the blocks between them.\<close>

lemma if_shape:
  assumes run: "compile_stmt E (IfStatement n e body) B = Inr ((), B')" and wf: "wf_builder B" "insert_point B \<noteq> None"
    and fin: "final B' f"
  obtains v B1 cont B2 ifBody B3 t B4 B5 A B6 B7 where
    "compile_expr E e B = Inr (v, B1)" and "create_block B1 = Inr (cont, B2)" and "create_block B2 = Inr (ifBody, B3)"
    and "condition_test v B3 = Inr (t, B4)" and "create_terminator (CondBr t ifBody cont) B4 = Inr ((), B5)"
    and "A = B5\<lparr>insert_point := Some ifBody\<rparr>" and "compile_stmts E body A = Inr ((), B6)"
    and "create_terminator (Br cont) B6 = Inr ((), B7)" and "B' = B7\<lparr>insert_point := Some cont\<rparr>"
    and "wf_builder B3" and "insert_point B3 \<noteq> None" and "walks B1 B3" and "\<And>k. point B3 k = point B1 k"
    and "\<And>g. final A g \<Longrightarrow> final B1 g" and "ifBody \<in> pending B4" and "emitting {} B B1" and "emitting {cont} B1 A" and "\<And>k. point A k = At ifBody 0 k"
    and "final A f" and "final B6 f" and "wf_builder B6" and "cont \<in> pending B6" and "\<And>k. point B' k = At cont 0 k"
    and "walks B B4" and "walks B4 A" and "walks A B6" and "walks B6 B'"
proof -
  obtain v B1 cont B2 ifBody B3 t B4 B5 B6 B7 where b:
    "compile_expr E e B = Inr (v, B1)" "create_block B1 = Inr (cont, B2)"
    "create_block B2 = Inr (ifBody, B3)" "condition_test v B3 = Inr (t, B4)"
    "create_terminator (CondBr t ifBody cont) B4 = Inr ((), B5)"
    "compile_stmts E body (B5\<lparr>insert_point := Some ifBody\<rparr>) = Inr ((), B6)"
    "create_terminator (Br cont) B6 = Inr ((), B7)" "B' = B7\<lparr>insert_point := Some cont\<rparr>"
    by (rule if_steps [OF run])
  let ?A = "B5\<lparr>insert_point := Some ifBody\<rparr>"
  have e1: "emitting {} B B1" by (rule withinD [OF compiling_emits(1) b(1)])
  note wf1 = emitting_wf [OF e1 wf(1)]
  note k2 = emitting_block [OF emitting_refl b(2) wf1]
  note wf2 = emitting_wf [OF k2 [THEN conjunct1] wf1]
  note k3 = emitting_block [OF emitting_refl b(3) wf2]
  have e3: "emitting {ifBody, cont} B1 B3" by (rule emitting_block [OF k2 [THEN conjunct1] b(3) wf1, THEN conjunct1])
  have ne: "cont \<noteq> ifBody" using k2 k3 by auto
  have e4: "emitting {ifBody, cont} B1 B4" by (rule emitting_step [OF e3 withinD [OF emits_test b(4)]])
  note wf4 = emitting_wf [OF e4 wf1]
  note g5 = emitting_goto [OF e4 b(5) HOL.refl _ _ wf1, of ifBody]
  have e5: "emitting {cont} B1 ?A" using g5(1) ne emitting_reserved [OF e4 wf1] by (simp add: insert_Diff_if)
  note wf5 = emitting_wf [OF e5 wf1]
  have e56: "emitting {} ?A B6" by (rule withinD [OF compiling_emits(5) b(6)])
  have e6: "emitting {cont} B1 B6" by (rule emitting_step [OF e5 e56])
  note wf6 = emitting_wf [OF e6 wf1]
  note g7 = emitting_goto [OF e6 b(7) b(8) _ _ wf1]
  have ip1: "insert_point B1 \<noteq> None" using withinD [OF part_steps(3) b(1)] wf(2) by (simp add: part_def)
  have behind: "final B1 g" if "final ?A g" for g
    by (rule final_back [OF e4 final_leave [OF b(5) that wf4] wf1]) (use reserved_pending [OF e4 wf1] in simp)
  have fin7: "final (B7\<lparr>insert_point := Some cont\<rparr>) f" using fin b(8) by simp
  have fin6: "final B6 f" by (rule final_leave [OF b(7) fin7 wf6]) (use reserved_pending [OF e6 wf1] in simp)
  show thesis
  proof (rule that [OF b(1-5) HOL.refl b(6-8)])
    show "wf_builder B3" by (rule emitting_wf [OF e3 wf1])
    show "insert_point B3 \<noteq> None" using k2 k3 ip1 by simp
    show "walks B1 B3" by (rule walked.Q_trans [OF withinD [OF walked.block_Q b(2)] withinD [OF walked.block_Q b(3)]])
    then show "walks B B4"
      using withinD [OF walked.walking_within(1) b(1)] withinD [OF test_walks b(4)] by (blast intro: walked.Q_trans)
    show "point B3 k = point B1 k" for k using point_block [OF b(2) wf1 ip1] point_block [OF b(3) wf2] k2 ip1 by simp
    show "final ?A g \<Longrightarrow> final B1 g" for g by (rule behind)
    show "ifBody \<in> pending B4" "cont \<in> pending B6" using reserved_pending [OF e4 wf1] reserved_pending [OF e6 wf1] by simp_all
    show "point ?A k = At ifBody 0 k" for k
      using g5(4) [of ifBody] emitting_reserved [OF e4 wf1] by (simp add: point_empty)
    show "point B' k = At cont 0 k" for k
      using g7(4) [of cont] emitting_reserved [OF e6 wf1] by (simp add: point_empty b(8))
    show "final ?A f" by (rule final_back [OF e56 fin6 wf5])
    show "walks B4 ?A" by (rule walks_leave [OF b(5)])
    show "walks ?A B6" by (rule withinD [OF walked.walking_within(5) b(6)])
    show "walks B6 B'" unfolding b(8) by (rule walks_leave [OF b(7)])
  qed (fact e1 e5 fin6 wf6)+
qed

lemma simulates_if:
  assumes "fits F e" and "machine_fits m F" and "interpret_stmt m (IfStatement n e body) c = Inr ((), c')"
    and body: "\<And>c. interpret_stmts m body c = Inr ((), c') \<Longrightarrow> simulates m f F c (compile_stmts (m_env m) body) c'"
  shows "simulates m f F c (compile_stmt (m_env m) (IfStatement n e body)) c'"
  unfolding simulates_def
proof (intro allI impI)
  fix B B' r d
  assume "compile_stmt (m_env m) (IfStatement n e body) B = Inr ((), B') \<and> wf_builder B \<and> insert_point B \<noteq> None \<and> final B' f \<and>
    rt_grows (rt B') (linked F) \<and> located F B r \<and> corr F c d"
  then have run: "compile_stmt (m_env m) (IfStatement n e body) B = Inr ((), B')" and wf: "wf_builder B" "insert_point B \<noteq> None"
    and fin: "final B' f" and rt: "rt_grows (rt B') (linked F)" and P: "located F B r \<and> corr F c d" by auto
  obtain x c1 where ev: "cached m e (evaluateExpr m e) c = Inr (x, c1)"
    and rest: "(if interpretedTruth x then interpret_stmts m body else return ()) c1 = Inr ((), c')"
    using assms(3) unfolding evaluation_simps by (rule bind_InrE)
  obtain v B1 cont B2 ifBody B3 t B4 B5 A B6 B7 where s:
    "compile_expr (m_env m) e B = Inr (v, B1)" "condition_test v B3 = Inr (t, B4)"
    "create_terminator (CondBr t ifBody cont) B4 = Inr ((), B5)" "A = B5\<lparr>insert_point := Some ifBody\<rparr>"
    "compile_stmts (m_env m) body A = Inr ((), B6)" "create_terminator (Br cont) B6 = Inr ((), B7)"
    "B' = B7\<lparr>insert_point := Some cont\<rparr>" "wf_builder B3" "insert_point B3 \<noteq> None" "walks B1 B3"
    "\<And>k. point B3 k = point B1 k" "\<And>g. final A g \<Longrightarrow> final B1 g" "ifBody \<in> pending B4" "emitting {} B B1"
    "emitting {cont} B1 A" "\<And>k. point A k = At ifBody 0 k" "final A f" "final B6 f" "wf_builder B6" "cont \<in> pending B6"
    "\<And>k. point B' k = At cont 0 k" "walks B B4" "walks B4 A" "walks A B6" "walks B6 B'"
    by (rule if_shape [OF run wf fin]) (rule that; assumption)
  have wfA: "wf_builder A" by (rule emitting_wf [OF s(15) emitting_wf [OF s(14) wf(1)]])
  note rt6 = walked_back(1) [OF s(25) rt]
  note rtA = walked_back(1) [OF s(24) rt6]
  have rt5: "rt_grows (rt B5) (linked F)" using rtA by (simp add: s(4))
  have next4: "next_ident B \<le> next_ident A" using s(22,23) by (simp add: walks_def numbers_def)
  consider (departs) "departs m f (point B r) d" | (test) r4 d4
    where "reaches m f (point B r) d (At (if interpretedTruth x then ifBody else cont) 0 r4) d4"
      "agree (next_ident B) r r4" "located F B4 r4" "corr F c1 d4"
    using condition_runs [OF assms(1,2) ev s(1-3) wf s(8-11) s(12) [OF s(17)] s(17) [unfolded s(4)] s(13) rt5 P] by blast
  then show "departs m f (point B r) d \<or> returned m f F (point B r) d c' \<or>
     insert_point B' \<noteq> None \<and> (\<exists>r' d'. reaches m f (point B r) d (point B' r') d' \<and>
        agree (next_ident B) r r' \<and> located F B' r' \<and> corr F c' d')"
  proof cases
    case test
    show ?thesis
    proof (cases "interpretedTruth x")
      case False
      have "located F B' r4"
        by (rule located_walked [OF test(3) walked.Q_trans [OF s(23) walked.Q_trans [OF s(24,25)]] agree_refl])
      moreover have "c' = c1" "insert_point B' \<noteq> None" using rest False s(7) by (simp_all add: sem_simps)
      moreover have "reaches m f (point B r) d (point B' r4) d4" using test(1) False by (simp add: s(21))
      ultimately show ?thesis using test(2,4) by blast
    next
      case True
      have lA: "located F A r4" by (rule located_walked [OF test(3) s(23) agree_refl])
      have sim: "simulates m f F c1 (compile_stmts (m_env m) body) c'" using body rest True by simp
      have toA: "reaches m f (point B r) d (point A r4) d4" using test(1) True by (simp add: s(16))
      have ipA: "insert_point A \<noteq> None" by (simp add: s(4))
      show ?thesis
      proof (rule simulatesE [OF sim s(5) wfA ipA s(18) rt6 lA test(4)])
        fix r6 d6
        assume r6: "insert_point B6 \<noteq> None" "reaches m f (point A r4) d4 (point B6 r6) d6"
          "agree (next_ident A) r4 r6" "located F B6 r6" "corr F c' d6"
        have "reaches m f (point B6 r6) d6 (At cont 0 r6) d6"
          by (rule jump_step [OF s(6) r6(1) s(19) fin [unfolded s(7)]]) (use s(20) in simp)
        then have "reaches m f (point B r) d (point B' r6) d6" using toA r6(2) s(21) by (metis reaches_trans)
        moreover have "agree (next_ident B) r r6" by (rule agree_trans [OF test(2) r6(3) next4])
        moreover have "located F B' r6" by (rule located_walked [OF r6(4) s(25) agree_refl])
        ultimately show ?thesis using r6(5) s(7) by auto
      qed (use toA in \<open>auto intro: departs_later returned_later\<close>)
    qed
  qed blast
qed

section \<open>Loops\<close>

lemma while_shape:
  assumes b: "create_block B = Inr (cond, B1)" "create_block B1 = Inr (cont, B2)"
      "create_block B2 = Inr (whileBody, B3)" "create_terminator (Br cond) B3 = Inr ((), B4)"
      "compile_expr E e (B4\<lparr>insert_point := Some cond\<rparr>) = Inr (v, B5)" "condition_test v B5 = Inr (t, B6)"
      "create_terminator (CondBr t whileBody cont) B6 = Inr ((), B7)"
      "compile_stmts E body (B7\<lparr>insert_point := Some whileBody\<rparr>) = Inr ((), B8)"
      "create_terminator (Br cond) B8 = Inr ((), B9)" "B' = B9\<lparr>insert_point := Some cont\<rparr>"
    and wf: "wf_builder B" "insert_point B \<noteq> None"
    and fin: "final B' f"
  shows "wf_builder B3" and "insert_point B3 \<noteq> None" and "point B3 r = point B r" and "walks B B3"
    and "wf_builder (B4\<lparr>insert_point := Some cond\<rparr>)" and "cond \<in> pending B3" and "final (B4\<lparr>insert_point := Some cond\<rparr>) f"
    and "wf_builder B5" and "insert_point B5 \<noteq> None" and "final B5 f" and "whileBody \<in> pending B6"
    and "final (B7\<lparr>insert_point := Some whileBody\<rparr>) f" and "wf_builder (B7\<lparr>insert_point := Some whileBody\<rparr>)"
    and "wf_builder B8" and "final B8 f" and "cont \<in> pending B8" and "final (B9\<lparr>insert_point := Some cont\<rparr>) f"
    and "point (B4\<lparr>insert_point := Some cond\<rparr>) r = At cond 0 r"
    and "point (B7\<lparr>insert_point := Some whileBody\<rparr>) r = At whileBody 0 r"
    and "point (B9\<lparr>insert_point := Some cont\<rparr>) r = At cont 0 r"
proof -
  let ?H = "B4\<lparr>insert_point := Some cond\<rparr>" and ?W = "B7\<lparr>insert_point := Some whileBody\<rparr>"
  note k1 = emitting_block [OF emitting_refl b(1) wf(1)]
  note wf1 = emitting_wf [OF k1 [THEN conjunct1] wf(1)]
  note k2 = emitting_block [OF k1 [THEN conjunct1] b(2) wf(1)]
  note wf2 = emitting_wf [OF k2 [THEN conjunct1] wf(1)]
  note k3 = emitting_block [OF k2 [THEN conjunct1] b(3) wf(1)]
  then have e3: "emitting {whileBody, cont, cond} B B3" by (rule conjunct1)
  show wf3: "wf_builder B3" by (rule emitting_wf [OF e3 wf(1)])
  show ip3: "insert_point B3 \<noteq> None" using k1 k2 k3 wf(2) by simp
  show "point B3 r = point B r"
    using point_block [OF b(1) wf] point_block [OF b(2) wf1] point_block [OF b(3) wf2] k1 k2 wf(2) by simp
  show "walks B B3"
    by (rule walked.Q_trans [OF withinD [OF walked.block_Q b(1)]
          walked.Q_trans [OF withinD [OF walked.block_Q b(2)] withinD [OF walked.block_Q b(3)]]])
  have ne: "cont \<noteq> cond" "whileBody \<noteq> cond" "whileBody \<noteq> cont" using k1 k2 k3 by auto
  have r3: "cond < length (function_blocks B3)" using emitting_reserved [OF e3 wf(1)] by simp
  note g4 = emitting_goto [OF e3 b(4) HOL.refl _ _ wf(1), of cond]
  have e4: "emitting {whileBody, cont} B ?H" using g4(1) ne r3 by (simp add: insert_Diff_if)
  show wf4: "wf_builder ?H" by (rule emitting_wf [OF e4 wf(1)])
  show "point ?H r = At cond 0 r" using g4(4) [of cond] r3 by (simp add: point_empty)
  have e5: "emitting {whileBody, cont} B B5" by (rule emitting_step [OF e4 withinD [OF compiling_emits(1) b(5)]])
  show wf5: "wf_builder B5" by (rule emitting_wf [OF e5 wf(1)])
  show "insert_point B5 \<noteq> None" using withinD [OF part_steps(3) b(5)] by (simp add: part_def)
  have e6: "emitting {whileBody, cont} B B6" by (rule emitting_step [OF e5 withinD [OF emits_test b(6)]])
  note wf6 = emitting_wf [OF e6 wf(1)]
  note g7 = emitting_goto [OF e6 b(7) HOL.refl _ _ wf(1), of whileBody]
  have e7: "emitting {cont} B ?W" using g7(1) ne emitting_reserved [OF e6 wf(1)] by (simp add: insert_Diff_if)
  show wf7: "wf_builder ?W" by (rule emitting_wf [OF e7 wf(1)])
  show "point ?W r = At whileBody 0 r"
    using g7(4) [of whileBody] emitting_reserved [OF e6 wf(1)] by (simp add: point_empty)
  have e8: "emitting {cont} B B8" by (rule emitting_step [OF e7 withinD [OF compiling_emits(5) b(8)]])
  show wf8: "wf_builder B8" by (rule emitting_wf [OF e8 wf(1)])
  have "length (function_blocks B3) \<le> length (function_blocks B8)"
    using g4(3) r3 emitting_length [OF withinD [OF compiling_emits(1) b(5)] wf4] emitting_length [OF withinD [OF emits_test b(6)] wf5]
      g7(3) emitting_reserved [OF e6 wf(1)] emitting_length [OF withinD [OF compiling_emits(5) b(8)] wf7] by simp
  then show "point (B9\<lparr>insert_point := Some cont\<rparr>) r = At cont 0 r"
    using emitting_goto(4) [OF e8 b(9) HOL.refl _ _ wf(1), of cont cont] r3 by (simp add: point_empty)
  show pend: "cond \<in> pending B3" "whileBody \<in> pending B6" "cont \<in> pending B8"
    using reserved_pending [OF e3 wf(1)] reserved_pending [OF e6 wf(1)] reserved_pending [OF e8 wf(1)] by simp_all
  show fin9: "final (B9\<lparr>insert_point := Some cont\<rparr>) f" using fin b(10) by simp
  show fin8: "final B8 f" by (rule final_leave [OF b(9) fin9 wf8]) (use pend in simp)
  show fin7: "final ?W f" by (rule final_back [OF withinD [OF compiling_emits(5) b(8)] fin8 wf7])
  have fin6: "final B6 f" by (rule final_leave [OF b(7) fin7 wf6]) (use pend in simp)
  show fin5: "final B5 f" by (rule final_back [OF withinD [OF emits_test b(6)] fin6 wf5])
  show "final ?H f" by (rule final_back [OF withinD [OF compiling_emits(1) b(5)] fin5 wf4])
qed

definition loop_test :: "machine \<Rightarrow> expr \<Rightarrow> bool run" where
  "loop_test m e = bind (gets isReturning) (\<lambda>r. if r then return False
     else bind (cached m e (evaluateExpr m e)) (\<lambda>v. return (interpretedTruth v)))"

lemma loop_testD: "\<not> isReturning c \<Longrightarrow> loop_test m e c = Inr (t, c1) \<Longrightarrow>
    \<exists>x. cached m e (evaluateExpr m e) c = Inr (x, c1) \<and> t = interpretedTruth x"
  by (auto simp: loop_test_def sem_simps split: sum.splits)

lemma loop_test_done: "isReturning c \<Longrightarrow> loop_test m e c = Inr (False, c)"
  by (simp add: loop_test_def sem_simps)

text \<open>One round after the other, from the block of the condition to the block after the loop.\<close>

lemma while_rounds:
  assumes "fits F e" and "machine_fits m F"
    and b: "compile_expr (m_env m) e (B4\<lparr>insert_point := Some cond\<rparr>) = Inr (v, B5)" "condition_test v B5 = Inr (t, B6)"
      "create_terminator (CondBr t whileBody cont) B6 = Inr ((), B7)"
      "compile_stmts (m_env m) body (B7\<lparr>insert_point := Some whileBody\<rparr>) = Inr ((), B8)"
      "create_terminator (Br cond) B8 = Inr ((), B9)"
    and body: "\<And>c c'. interpret_stmts m body c = Inr ((), c') \<Longrightarrow> simulates m f F c (compile_stmts (m_env m) body) c'"
    and wf: "wf_builder (B4\<lparr>insert_point := Some cond\<rparr>)" "wf_builder B5" "insert_point B5 \<noteq> None"
      "wf_builder (B7\<lparr>insert_point := Some whileBody\<rparr>)" "wf_builder B8"
    and fin: "final B5 f" "final (B7\<lparr>insert_point := Some whileBody\<rparr>) f" "whileBody \<in> pending B6" "final B8 f"
      "final (B9\<lparr>insert_point := Some cont\<rparr>) f" "cont \<in> pending B8"
    and at: "\<And>r. point (B4\<lparr>insert_point := Some cond\<rparr>) r = At cond 0 r"
      "\<And>r. point (B7\<lparr>insert_point := Some whileBody\<rparr>) r = At whileBody 0 r"
    and rt: "rt_grows (rt B8) (linked F)"
  shows "while_sem k (loop_test m e) (interpret_stmts m body) c = Inr ((), c') \<Longrightarrow>
     located F (B4\<lparr>insert_point := Some cond\<rparr>) r \<Longrightarrow> corr F c d \<Longrightarrow>
     departs m f (At cond 0 r) d \<or> returned m f F (At cond 0 r) d c' \<or>
     (\<exists>r' d'. reaches m f (At cond 0 r) d (At cont 0 r') d' \<and> agree (next_ident B4) r r' \<and> corr F c' d')"
proof (induction k arbitrary: c r d)
  case 0
  then show ?case by (simp add: sem_simps)
next
  case (Suc k)
  let ?H = "B4\<lparr>insert_point := Some cond\<rparr>" and ?W = "B7\<lparr>insert_point := Some whileBody\<rparr>"
  note nr = corr_returning [OF Suc.prems(3)]
  obtain x c1 where ev: "cached m e (evaluateExpr m e) c = Inr (x, c1)"
    and rest: "(if interpretedTruth x then seq (interpret_stmts m body) (while_sem k (loop_test m e) (interpret_stmts m body)) else return ()) c1 = Inr ((), c')"
    using Suc.prems(1) unfolding while_sem.simps by (elim bind_InrE) (auto dest: loop_testD [OF nr])
  have w: "walks ?H B5" "walks B5 B6" "walks B6 ?W" "walks ?W B8"
    by (rule withinD [OF walked.walking_within(1) b(1)] withinD [OF test_walks b(2)] walks_leave [OF b(3)]
        withinD [OF walked.walking_within(5) b(4)])+
  have rt7: "rt_grows (rt B7) (linked F)" using walked_back(1) [OF w(4) rt] by simp
  have upto: "next_ident B4 \<le> next_ident B7"
    using w(1-3) by (simp add: walks_def numbers_def)
  consider (departs) "departs m f (At cond 0 r) d" | (test) r4 d4
    where "reaches m f (At cond 0 r) d (At (if interpretedTruth x then whileBody else cont) 0 r4) d4"
      "agree (next_ident B4) r r4" "located F B6 r4" "corr F c1 d4"
    using condition_runs [OF assms(1,2) ev b(1-3) wf(1) _ wf(2,3) walked.Q_refl HOL.refl fin(1-3) rt7, of r d] Suc.prems(2,3)
    unfolding at(1) by auto
  then show ?case
  proof cases
    case test
    show ?thesis
    proof (cases "interpretedTruth x")
      case False
      then show ?thesis using test rest by (auto simp: sem_simps)
    next
      case True
      then obtain c2 where c2: "interpret_stmts m body c1 = Inr ((), c2)"
        and loop: "while_sem k (loop_test m e) (interpret_stmts m body) c2 = Inr ((), c')"
        using rest by (auto elim: seq_InrE)
      have l7: "located F ?W r4" by (rule located_walked [OF test(3) w(3) agree_refl])
      have to7: "reaches m f (At cond 0 r) d (point ?W r4) d4" using test(1) True at(2) by simp
      show ?thesis
      proof (rule simulatesE [OF body [OF c2] b(4) wf(4) _ fin(4) rt l7 test(4)])
        assume ret: "returned m f F (point ?W r4) d4 c2"
        then have "c' = c2" using loop returned_returning [OF ret] by (cases k) (simp_all add: sem_simps loop_test_done)
        then show ?thesis using returned_later [OF to7 ret] by simp
      next
        fix r8 d8
        assume r8: "insert_point B8 \<noteq> None" "reaches m f (point ?W r4) d4 (point B8 r8) d8"
          "agree (next_ident ?W) r4 r8" "located F B8 r8" "corr F c2 d8"
        have "reaches m f (point B8 r8) d8 (At cond 0 r8) d8"
          by (rule jump_step [OF b(5) r8(1) wf(5) fin(5)]) (use fin(6) in simp)
        then have round: "reaches m f (At cond 0 r) d (At cond 0 r8) d8"
          by (rule reaches_trans [OF reaches_trans [OF to7 r8(2)]])
        have agr: "agree (next_ident B4) r r8" by (rule agree_trans [OF test(2) r8(3)]) (use upto in simp)
        have "located F ?H r8" by (rule located_walked [OF Suc.prems(2) walked.Q_refl]) (use agr in simp)
        from Suc.IH [OF loop this r8(5)] show ?thesis
          using departs_later [OF round] returned_later [OF round] reaches_trans [OF round] agree_trans [OF agr _ order_refl]
          by blast
      qed (use to7 in \<open>auto intro: departs_later\<close>)
    qed
  qed blast
qed

lemma simulates_while:
  assumes "fits F e" and "machine_fits m F" and "interpret_stmt m (WhileLoop n e body) c = Inr ((), c')"
    and body: "\<And>c c'. interpret_stmts m body c = Inr ((), c') \<Longrightarrow> simulates m f F c (compile_stmts (m_env m) body) c'"
  shows "simulates m f F c (compile_stmt (m_env m) (WhileLoop n e body)) c'"
  unfolding simulates_def
proof (intro allI impI)
  fix B B' r d
  assume "compile_stmt (m_env m) (WhileLoop n e body) B = Inr ((), B') \<and> wf_builder B \<and> insert_point B \<noteq> None \<and> final B' f \<and>
    rt_grows (rt B') (linked F) \<and> located F B r \<and> corr F c d"
  then have run: "compile_stmt (m_env m) (WhileLoop n e body) B = Inr ((), B')" and wf: "wf_builder B" "insert_point B \<noteq> None"
    and fin: "final B' f" and rt: "rt_grows (rt B') (linked F)" and P: "located F B r" "corr F c d" by auto
  obtain cond B1 cont B2 whileBody B3 B4 v B5 t B6 B7 B8 B9 where b:
    "create_block B = Inr (cond, B1)" "create_block B1 = Inr (cont, B2)"
    "create_block B2 = Inr (whileBody, B3)" "create_terminator (Br cond) B3 = Inr ((), B4)"
    "compile_expr (m_env m) e (B4\<lparr>insert_point := Some cond\<rparr>) = Inr (v, B5)" "condition_test v B5 = Inr (t, B6)"
    "create_terminator (CondBr t whileBody cont) B6 = Inr ((), B7)"
    "compile_stmts (m_env m) body (B7\<lparr>insert_point := Some whileBody\<rparr>) = Inr ((), B8)"
    "create_terminator (Br cond) B8 = Inr ((), B9)" "B' = B9\<lparr>insert_point := Some cont\<rparr>"
    by (rule while_steps [OF run])
  note s = while_shape [OF b wf fin]
  let ?H = "B4\<lparr>insert_point := Some cond\<rparr>"
  have w3: "walks B3 ?H" by (rule walks_leave [OF b(4)])
  have w8: "walks B8 B'" unfolding b(10) by (rule walks_leave [OF b(9)])
  have wl: "walks ?H B8"
    by (rule walked.Q_trans [OF withinD [OF walked.walking_within(1) b(5)] walked.Q_trans [OF withinD [OF test_walks b(6)]
          walked.Q_trans [OF walks_leave [OF b(7)] withinD [OF walked.walking_within(5) b(8)]]]])
  have rt8: "rt_grows (rt B8) (linked F)" by (rule walked_back(1) [OF w8 rt])
  have enter: "reaches m f (point B r) d (At cond 0 r) d"
    using jump_step [OF b(4) s(2) s(1) s(7)] s(3,6) by simp
  have w: "walks B ?H" by (rule walked.Q_trans [OF s(4) w3])
  have lH: "located F ?H r" by (rule located_walked [OF P(1) w agree_refl])
  note rounds = while_rounds [OF assms(1,2) b(5-9) body s(5,8,9,13,14,10,12,11,15,17,16,18,19) rt8
      assms(3) [unfolded evaluation_simps loop_test_def [symmetric]] lH P(2)]
  have agr: "agree (next_ident B4) r r' \<Longrightarrow> agree (next_ident B) r r'" for r'
    using w by (auto simp: agree_def walks_def numbers_def)
  have "located F B' r'" if "agree (next_ident B4) r r'" for r'
    by (rule located_walked [OF lH walked.Q_trans [OF wl w8]]) (use that in simp)
  then show "departs m f (point B r) d \<or> returned m f F (point B r) d c' \<or>
     insert_point B' \<noteq> None \<and> (\<exists>r' d'. reaches m f (point B r) d (point B' r') d' \<and>
        agree (next_ident B) r r' \<and> located F B' r' \<and> corr F c' d')"
    using rounds departs_later [OF enter] returned_later [OF enter] reaches_trans [OF enter] s(20) agr b(10)
    by auto blast
qed

end
