(* ===== verification/Compiled_Function.thy ===== *)
theory Compiled_Function
  imports Compile_Runs
begin

text \<open>
  Statements, bodies and whole functions: the compiled function against the interpreted body.
\<close>

section \<open>Statements\<close>

text \<open>
  The statements covered.  A declaration without an initial value resets the variable in the
  interpreter only, and a class is declared in the interpreter only.
\<close>

fun fits_stmt :: "frame \<Rightarrow> stmt \<Rightarrow> bool" and fits_stmts :: "frame \<Rightarrow> stmt list \<Rightarrow> bool" where
  "fits_stmt F (ExprStmt e) = fits F e"
| "fits_stmt F (Assignment n x e) = fits F e"
| "fits_stmt F (Decl n x (Some e)) = fits F e"
| "fits_stmt F (Decl n x None) = False"
| "fits_stmt F (Return n e) = fits F e"
| "fits_stmt F (IfStatement n e body) = (fits F e \<and> fits_stmts F body)"
| "fits_stmt F (WhileLoop n e body) = (fits F e \<and> fits_stmts F body)"
| "fits_stmt F (ClassDecl n nm superName ivs ms) = False"
| "fits_stmts F [] = True"
| "fits_stmts F (s # ss) = (fits_stmt F s \<and> fits_stmts F ss)"

lemma simulates_live:
  assumes "\<not> isReturning c \<Longrightarrow> simulates m f F c p c'"
  shows "simulates m f F c p c'"
  using assms by (cases "isReturning c") (auto simp: simulates_def dest: corr_returning)

lemma simulates_checked:
  assumes "simulates m f F c p c'"
  shows "simulates m f F c (bind (gets (\<lambda>B. csymbols B x)) (\<lambda>a. seq (assert (a \<noteq> None)) p)) c'"
proof -
  have "bind (gets (\<lambda>B. csymbols B x)) (\<lambda>a. seq (assert (a \<noteq> None)) p) B = Inr ((), B') \<Longrightarrow> p B = Inr ((), B')" for B B'
    by (auto simp: sem_simps split: if_splits)
  then show ?thesis using assms unfolding simulates_def by blast
qed

lemma simulates_assign:
  assumes "fits F e" and "machine_fits m F" and "cached m e (evaluateExpr m e) c = Inr (w, c1)"
    and "setSymbol (m_env m) y w c1 = Inr ((), c')"
  shows "simulates m f F c (bind (compile_expr (m_env m) e) (\<lambda>v. bind (getAsObject v) (\<lambda>v. bind (the_symbol y) (create_store v)))) c'"
  by (rule simulates_code [OF code_assign [OF assms]])
    (auto intro!: parts.within_intros part_steps simp: create_store_def)

lemma simulates_sequence:
  assumes "simulates m f F c p c1" and "interpret_stmts m ss c1 = Inr ((), c')" and "\<not> isReturning c"
    and "simulates m f F c1 (compile_stmts (m_env m) ss) c'" and "within (emitting {}) p" and "within walks p"
  shows "simulates m f F c (bind (gets insert_point) (\<lambda>i. if i = None then return () else seq p (compile_stmts (m_env m) ss))) c'"
  unfolding simulates_def
proof (intro allI impI)
  fix B B' r d
  assume "bind (gets insert_point) (\<lambda>i. if i = None then return () else seq p (compile_stmts (m_env m) ss)) B = Inr ((), B') \<and>
    wf_builder B \<and> insert_point B \<noteq> None \<and> final B' f \<and> rt_grows (rt B') (linked F) \<and> located F B r \<and> corr F c d"
  then have a: "seq p (compile_stmts (m_env m) ss) B = Inr ((), B')" "wf_builder B" "insert_point B \<noteq> None" "final B' f"
    "rt_grows (rt B') (linked F)" "located F B r" "corr F c d" by (auto simp: sem_simps)
  obtain B1 where b: "p B = Inr ((), B1)" "compile_stmts (m_env m) ss B1 = Inr ((), B')" using a(1) by (rule seq_InrE)
  have wf1: "wf_builder B1" by (rule emitting_wf [OF withinD [OF assms(5) b(1)] a(2)])
  have fin1: "final B1 f" by (rule final_back [OF withinD [OF compiling_emits(5) b(2)] a(4) wf1])
  have rt1: "rt_grows (rt B1) (linked F)"
    by (rule walked_back(1) [OF withinD [OF walked.walking_within(5) b(2)] a(5)])
  have w: "walks B B1" by (rule withinD [OF assms(6) b(1)])
  show "departs m f (point B r) d \<or> returned m f F (point B r) d c' \<or>
     insert_point B' \<noteq> None \<and> (\<exists>r' d'. reaches m f (point B r) d (point B' r') d' \<and>
        agree (next_ident B) r r' \<and> located F B' r' \<and> corr F c' d')"
  proof (rule simulatesE [OF assms(1) b(1) a(2,3) fin1 rt1 a(6,7)])
    assume ret: "returned m f F (point B r) d c1"
    then have "c' = c1" using assms(2) returned_returning [OF ret] by (cases ss) (simp_all add: evaluation_simps sem_simps)
    then show ?thesis using ret by simp
  next
    fix r1 d1
    assume r1: "insert_point B1 \<noteq> None" "reaches m f (point B r) d (point B1 r1) d1" "agree (next_ident B) r r1"
      "located F B1 r1" "corr F c1 d1"
    have "next_ident B \<le> next_ident B1" using w by (simp add: walks_def numbers_def)
    then show ?thesis
      using simulatesE [OF assms(4) b(2) wf1 r1(1) a(4,5) r1(4,5)] departs_later [OF r1(2)] returned_later [OF r1(2)]
        reaches_trans [OF r1(2)] agree_trans [OF r1(3)] by metis
  qed blast
qed

text \<open>The code of a statement does what the interpreter does.\<close>

lemma simulates_statements:
  shows "fits_stmt F s \<Longrightarrow> interpret_stmt m s c = Inr ((), c') \<Longrightarrow> \<not> isReturning c \<Longrightarrow> machine_fits m F \<Longrightarrow>
      simulates m f F c (compile_stmt (m_env m) s) c'"
    and "fits_stmts F ss \<Longrightarrow> interpret_stmts m ss c = Inr ((), c') \<Longrightarrow> \<not> isReturning c \<Longrightarrow> machine_fits m F \<Longrightarrow>
      simulates m f F c (compile_stmts (m_env m) ss) c'"
proof (induction F s and F ss arbitrary: c c' and c c' rule: fits_stmt_fits_stmts.induct)
  case (1 F e)
  then obtain w where "cached m e (evaluateExpr m e) c = Inr (w, c')"
    by (auto simp: evaluation_simps sem_simps split: sum.splits)
  then show ?case
    unfolding compile_stmt.simps
    by (intro simulates_code [OF code_bind [OF code_expr [OF _ 1(4)]]])
      (use 1 in \<open>auto intro!: parts.within_intros part_steps code_done\<close>)
next
  case (2 F n x e)
  obtain w c1 where "cached m e (evaluateExpr m e) c = Inr (w, c1)" "setSymbol (m_env m) x w c1 = Inr ((), c')"
    using 2(2) unfolding evaluation_simps by (rule bind_InrE)
  then show ?case
    unfolding compile_stmt.simps by (intro simulates_checked simulates_assign [OF _ 2(4)]) (use 2 in auto)
next
  case (3 F n x e)
  obtain w c1 where "cached m e (evaluateExpr m e) c = Inr (w, c1)" "setSymbol (m_env m) x w c1 = Inr ((), c')"
    using 3(2) unfolding evaluation_simps by (rule bind_InrE)
  then show ?case
    unfolding compile_stmt.simps compile_init.simps by (intro simulates_checked simulates_assign [OF _ 3(4)]) (use 3 in auto)
next
  case (5 F n e)
  then show ?case by (intro simulates_return [OF _ 5(4)]) auto
next
  case (6 F n e body)
  show ?case
  proof (cases "\<exists>d. corr F c d")
    case True
    show ?thesis
      by (rule simulates_if [OF _ 6(5) 6(3)]) (use 6 in \<open>auto intro: simulates_live\<close>)
  qed (simp add: simulates_vacuous)
next
  case (7 F n e body)
  show ?case
    by (rule simulates_while [OF _ 7(5) 7(3)]) (use 7 in \<open>auto intro: simulates_live\<close>)
next
  case (9 F)
  then have "c' = c" by (simp add: evaluation_simps sem_simps)
  then show ?case
    unfolding compile_stmts.simps by (intro simulates_code parts.within_leaf code_done) simp
next
  case (10 F s ss)
  obtain c1 where c1: "interpret_stmt m s c = Inr ((), c1)" "interpret_stmts m ss c1 = Inr ((), c')"
    using 10(4,5) by (auto simp: evaluation_simps sem_simps split: sum.splits)
  show ?case
    unfolding compile_stmts.simps
    by (rule simulates_sequence [OF 10(1) c1(2)])
      (use 10 c1 in \<open>auto intro: simulates_live compiling_emits walked.walking_within\<close>)
qed simp_all

section \<open>Bodies\<close>

lemma final_built: "final (B\<lparr>insert_point := None\<rparr>) (function_blocks B)"
  by (simp add: final_def)

text \<open>The interpreter's last steps: the holder of the return value is given back.\<close>

lemma return_value:
  assumes "allocator_ok E" and "set_retVal E v c = Inr ((), c1)" and "retVal c = no_value"
  shows "object (retVal c1) = v" and "set_retVal E 0 (c1\<lparr>isReturning := b\<rparr>) = Inr ((), c\<lparr>isReturning := b\<rparr>)"
proof -
  have held: "held (mem c) (retVal c)" by (simp add: assms(3))
  have "object (retVal c1) = v \<and> set_retVal E 0 (c1\<lparr>isReturning := b\<rparr>) = Inr ((), c\<lparr>isReturning := b\<rparr>)"
  proof (cases "needsGC v")
    case False
    then have "c1 = c\<lparr>retVal := \<lparr>holder = 0, object = v\<rparr>\<rparr>"
      using assms(2) by (auto simp: set_retVal_def sem_simps assms(3) value_set_def no_value_def needsGC_def)
    then show ?thesis using False assms(3)
      by (simp add: set_retVal_def sem_simps value_set_def no_value_def needsGC_def)
  next
    case True
    then obtain h where h: "e_alloc E (mem c) = Some h"
      "c1 = c\<lparr>mem := (mem c)(h \<mapsto> CellBlock [v]), retVal := \<lparr>holder = h, object = v\<rparr>\<rparr>"
      using assms(2) by (auto simp: set_retVal_def sem_simps assms(3) value_set_def no_value_def needsGC_def split: option.splits)
    note fresh = allocator_okD [OF assms(1) h(1)]
    then have "(mem c)(h := None) = mem c" by auto
    then show ?thesis using True fresh h assms(3)
      by (simp add: set_retVal_def sem_simps value_set_def no_value_def GC_free_def tag_eval)
  qed
  then show "object (retVal c1) = v" "set_retVal E 0 (c1\<lparr>isReturning := b\<rparr>) = Inr ((), c\<lparr>isReturning := b\<rparr>)" by simp_all
qed

text \<open>
  The states at the end agree in everything but the cache, and there too outside the body and at its warm
  nodes.  At the other nodes of the body, which compiled code never looks up, each of the two has nothing
  or the value of the constant.
\<close>

definition same_but_cache :: "frame \<Rightarrow> ctx \<Rightarrow> ctx \<Rightarrow> bool" where
  "same_but_cache F d e \<longleftrightarrow> d = e\<lparr>cache := cache d\<rparr> \<and>
     (\<forall>n. n \<notin> inner F \<or> n \<in> warm F \<longrightarrow> cache d n = cache e n) \<and> known_ok F (cache d) \<and> known_ok F (cache e)"

lemma same_but_cache_frame [simp]:
  "same_but_cache (F\<lparr>table := t, syms := s, base_ident := k\<rparr>) d e \<longleftrightarrow> same_but_cache F d e"
  by (simp add: same_but_cache_def known_ok_def)

lemma corr_end:
  assumes "corr F c d" and "symbols c = t # S"
  shows "same_but_cache F d (c\<lparr>symbols := S\<rparr>)"
proof -
  have "d = c\<lparr>symbols := S, cache := cache d\<rparr>" using assms by (auto simp: corr_def)
  then show ?thesis using assms(1) corr_constants(1,2) [OF assms(1)] by (simp add: corr_def same_but_cache_def)
qed

lemma body_runs:
  assumes "machine_fits m F" and "fits_stmts F (decl_body D)" and "run_body m (decl_body D) c = Inr (v, e)"
    and "compile_body (m_env m) D B = Inr ((), B')" and "wf_builder B" and "insert_point B \<noteq> None"
    and "rt_grows (rt B') (linked F)" and "located F B r" and "corr F c d"
  shows "departs m (function_blocks B') (point B r) d \<or>
    (\<exists>d'. reaches m (function_blocks B') (point B r) d (Returned v) d' \<and> same_but_cache F d' e)"
proof -
  let ?f = "function_blocks B'"
  have alloc: "allocator_ok (m_env m)" using assms(1) by (simp add: machine_fits_def)
  obtain S where S: "symbols c = table F # S" using assms(9) by (auto simp: corr_def)
  obtain c1 where c1: "interpret_stmts m (decl_body D) c = Inr ((), c1)"
    and rest: "bind (gets (\<lambda>c. object (retVal c))) (\<lambda>v. seq (set_retVal (m_env m) 0)
      (seq (set_returning False) (seq popSymbols (return v)))) c1 = Inr (v, e)"
    using assms(3) unfolding run_body_def by (rule seq_InrE)
  obtain B2 where b: "compile_stmts (m_env m) (decl_body D) B = Inr ((), B2)"
    "create_terminator (Ret (Const (Word 0))) B2 = Inr ((), B')"
    using assms(4) unfolding compile_body_def by (rule seq_InrE)
  have wf2: "wf_builder B2" by (rule emitting_wf [OF withinD [OF compiling_emits(5) b(1)] assms(5)])
  have fin2: "final B2 ?f" by (rule final_leave [OF b(2) final_built wf2]) simp
  have rt2: "rt_grows (rt B2) (linked F)" using assms(7) control_same(1) [OF b(2)] by simp
  note sim = simulates_statements(2) [OF assms(2) c1 corr_returning [OF assms(9)] assms(1), of ?f]
  show ?thesis
  proof (rule simulatesE [OF sim b(1) assms(5,6) fin2 rt2 assms(8,9)])
    assume "returned m ?f F (point B r) d c1"
    then obtain c2 w d' where r: "seq (set_retVal (m_env m) w) (set_returning True) c2 = Inr ((), c1)"
      "corr F c2 d'" "reaches m ?f (point B r) d (Returned w) d'" unfolding returned_def by blast
    obtain c3 where c3: "set_retVal (m_env m) w c2 = Inr ((), c3)" "c1 = c3\<lparr>isReturning := True\<rparr>"
      using r(1) by (auto simp: sem_simps split: sum.splits)
    have live: "retVal c2 = no_value" "\<not> isReturning c2" using corr_constants(3,4) [OF r(2)] by auto
    note ret = return_value(1) [OF alloc c3(1) live(1)] return_value(2) [OF alloc c3(1) live(1), of True]
    obtain S2 where S2: "symbols c2 = table F # S2" using r(2) by (auto simp: corr_def)
    have "v = w \<and> e = c2\<lparr>symbols := S2\<rparr>"
      using rest live S2 ret by (auto simp: sem_simps c3(2))
    then show ?thesis using r(3) corr_end [OF r(2) S2] by blast
  next
    fix r' d'
    assume n: "insert_point B2 \<noteq> None" "reaches m ?f (point B r) d (point B2 r') d'" "corr F c1 d'"
    have live: "retVal c1 = no_value" "\<not> isReturning c1" using corr_constants(3,4) [OF n(3)] by auto
    obtain S1 where S1: "symbols c1 = table F # S1" using n(3) by (auto simp: corr_def)
    have "v = 0 \<and> e = c1\<lparr>symbols := S1\<rparr>"
      using rest live S1 by (auto simp: sem_simps set_retVal_def value_set_def no_value_def needsGC_def split: list.splits)
    moreover have "reaches m ?f (point B2 r') d' (Returned 0) d'"
      by (rule leave_step [OF b(2) n(1) wf2 final_built]) (simp_all add: sem_simps word_operand_Const)
    ultimately show ?thesis using corr_end [OF n(3) S1] reaches_trans [OF n(2)] by blast
  qed blast
qed

end
