(* ===== verification/Compiled_Entry.thy ===== *)
theory Compiled_Entry
  imports Compiled_Function
begin

text \<open>
  The entry of a compiled function builds the frame: storage for \<open>self\<close>, \<open>cmd\<close>, the parameters and
  the locals, and the variables that live in the closure or in the receiver.
\<close>

section \<open>The frame\<close>

fun fresh_cells :: "env \<Rightarrow> nat \<Rightarrow> addr list run" where
  "fresh_cells E 0 = return []"
| "fresh_cells E (Suc n) = bind (alloc E (CellBlock [0])) (\<lambda>a. bind (fresh_cells E n) (\<lambda>as. return (a # as)))"

fun fill_cells :: "string list \<Rightarrow> addr list \<Rightarrow> obj list \<Rightarrow> symbol_table \<Rightarrow> symbol_table run" where
  "fill_cells (x # xs) (a # as) (w # ws) tab = seq (store (a, 0) w) (fill_cells xs as ws (tab(x \<mapsto> (a, 0))))"
| "fill_cells _ _ _ tab = return tab"

fun element_table :: "string list \<Rightarrow> addr \<Rightarrow> nat \<Rightarrow> symbol_table \<Rightarrow> symbol_table" where
  "element_table [] a i tab = tab"
| "element_table (x # xs) a i tab = element_table xs a (Suc i) (tab(x \<mapsto> (a, i)))"

definition closure_entry :: "env \<Rightarrow> cdecl \<Rightarrow> decl_info \<Rightarrow> addr \<Rightarrow> obj list \<Rightarrow> symbol_table run" where
  "closure_entry E D info C ws =
     seq (set_jit (decl_node D))
     (bind (alloc E (CellBlock [0])) (\<lambda>s.
      bind (fresh_cells E (length (decl_params D))) (\<lambda>ps.
      bind (fresh_cells E (length (di_decls info))) (\<lambda>ls.
      seq (store (s, 0) C)
      (bind (fill_cells (decl_params D) ps ws [''self'' \<mapsto> (s, 0)]) (\<lambda>tab.
       bind (fill_cells (di_decls info) ls (replicate (length (di_decls info)) 0) tab) (\<lambda>tab.
       return (element_table (di_boundVars info) C 0 tab))))))))"

definition method_entry ::
  "env \<Rightarrow> cdecl \<Rightarrow> decl_info \<Rightarrow> string list \<Rightarrow> obj \<Rightarrow> selector \<Rightarrow> obj list \<Rightarrow> symbol_table run" where
  "method_entry E D info ivs ob sel ws =
     seq (set_jit (decl_node D))
     (bind (alloc E (CellBlock [0])) (\<lambda>s.
      bind (alloc E (CellBlock [0])) (\<lambda>k.
      bind (fresh_cells E (length (decl_params D))) (\<lambda>ps.
      bind (fresh_cells E (length (di_decls info))) (\<lambda>ls.
      seq (store (s, 0) ob)
      (seq (store (k, 0) (compileSmallInt (ucast sel)))
      (bind (fill_cells (decl_params D) ps ws [''self'' \<mapsto> (s, 0), ''cmd'' \<mapsto> (k, 0)]) (\<lambda>tab.
       bind (fill_cells (di_decls info) ls (replicate (length (di_decls info)) 0) tab) (\<lambda>tab.
       return (element_table ivs ob 0 tab))))))))))"

section \<open>What holds while the frame is built\<close>

definition symbol_at :: "symbol_table \<Rightarrow> builder \<Rightarrow> activation \<Rightarrow> string \<Rightarrow> bool" where
  "symbol_at tab B r x \<longleftrightarrow> (case csymbols B x of
     None \<Rightarrow> tab x = None
   | Some v \<Rightarrow> \<exists>p. p \<noteq> null_loc \<and> tab x = Some p \<and> holds v (Ptr (Cell p)) B r)"

definition entry :: "rvalue list \<Rightarrow> symbol_table \<Rightarrow> (operand \<times> rvalue) set \<Rightarrow> builder \<Rightarrow> activation \<Rightarrow> bool" where
  "entry A tab vs B r \<longleftrightarrow> arguments r = A \<and> (\<forall>v x. (v, x) \<in> vs \<longrightarrow> holds v x B r) \<and> (\<forall>x. symbol_at tab B r x)"

lemma stable_entry: "stable (entry A tab vs)"
  unfolding stable_def entry_def
proof (intro allI impI, elim conjE, intro conjI)
  fix B B' r r'
  assume "agree (next_ident B) r r'" and "arguments r = A"
  then show "arguments r' = A" by (simp add: agree_def)
next
  fix B B' :: builder and r r'
  assume "\<forall>x. symbol_at tab B r x" and "agree (next_ident B) r r'" "next_ident B \<le> next_ident B'" "csymbols B' = csymbols B"
  then show "\<forall>x. symbol_at tab B' r' x"
    unfolding symbol_at_def by (fastforce split: option.splits intro: holds_later)
qed (auto intro: holds_later)

lemma entry_value: "entry A tab vs B r \<Longrightarrow> (v, x) \<in> vs \<Longrightarrow> operand_value r v = Inr x"
  by (auto simp: entry_def holds_def)

lemma entry_insert: "entry A tab (insert (v, x) vs) B r \<longleftrightarrow> holds v x B r \<and> entry A tab vs B r"
  by (auto simp: entry_def)

abbreviation entering where
  "entering m f cf A tab vs d0 p tab' vs' d1 \<equiv>
     code m f cf (\<lambda>B r d. entry A tab vs B r \<and> d = d0) p (\<lambda>v B r d. entry A (tab' v) (vs' v) B r \<and> d = d1)"

lemma enter_create:
  assumes "\<And>r. arguments r = A \<Longrightarrow> (\<And>v x. (v, x) \<in> vs \<Longrightarrow> operand_value r v = Inr x) \<Longrightarrow>
     execute_instr m r ins d0 = Inr (x, d1)"
  shows "entering m f cf A tab vs d0 (create ins) (\<lambda>_. tab) (\<lambda>v. insert (v, x) vs) d1"
  by (rule code_weaken [OF code_create [where P = "\<lambda>B r d. entry A tab vs B r \<and> d = d0" and S = "entry A tab vs"
        and R = "\<lambda>y d. y = x \<and> d = d1"]])
    (use assms in \<open>auto simp: entry_insert entry_def holds_def intro: stable_entry\<close>)

lemma enter_symbol:
  assumes "(v, Ptr (Cell p)) \<in> vs" and "p \<noteq> null_loc"
  shows "entering m f cf A tab vs d0 (set_csymbol x v) (\<lambda>_. tab(x \<mapsto> p)) (\<lambda>_. vs) d0"
proof (rule codeI)
  fix B u B' r d
  assume run: "set_csymbol x v B = Inr (u, B')" and P: "entry A tab vs B r \<and> d = d0"
  have B': "B' = B\<lparr>csymbols := (csymbols B)(x \<mapsto> v)\<rparr>" using run by (simp add: set_csymbol_def sem_simps)
  have h: "holds w y B' r \<longleftrightarrow> holds w y B r" for w y by (simp add: holds_def B')
  have "symbol_at (tab(x \<mapsto> p)) B' r y" for y
  proof (cases "y = x")
    case True
    then show ?thesis using P assms unfolding symbol_at_def h by (cases p) (simp add: B' entry_def)
  next
    case False
    then have "symbol_at (tab(x \<mapsto> p)) B' r y \<longleftrightarrow> symbol_at tab B r y"
      unfolding symbol_at_def h by (cases "csymbols B y") (simp_all add: B')
    then show ?thesis using P by (simp add: entry_def)
  qed
  then have "entry A (tab(x \<mapsto> p)) vs B' r" using P by (simp add: entry_def h)
  moreover have "point B' r = point B r" by (simp add: point_def B')
  ultimately show "(\<exists>r' d'. reaches m f (point B r) d (point B' r') d' \<and> agree (next_ident B) r r' \<and>
      entry A (tab(x \<mapsto> p)) vs B' r' \<and> d' = d0) \<or> departs m f (point B r) d"
    using P reaches.here agree_refl by metis
qed

lemma moving_steps: "within moves (create ins)" "within moves (set_csymbol x v)" "within moves (create_store v p)"
proof -
  show c: "within moves (create ins)" for ins by (rule part_moves [OF part_steps(1)])
  show "within moves (create_store v p)" unfolding create_store_def by (intro moving.within_intros c)
  show "within moves (set_csymbol x v)"
    using withinD [OF numbers_symbol] withinD [OF set_csymbol_emits]
    by (auto simp: moves_def within_def) (auto simp: set_csymbol_def sem_simps)
qed

section \<open>The steps of the entry\<close>

lemma enter_alloca:
  assumes "alloc (m_env m) (CellBlock [0]) d0 = Inr (a, d1)"
  shows "entering m f cf A tab vs d0 (create Alloca) (\<lambda>_. tab) (\<lambda>v. insert (v, Ptr (Cell (a, 0))) vs) d1"
  by (rule enter_create) (simp add: bind_def return_def assms)

abbreviation cell_ptr :: "addr \<Rightarrow> rvalue" where
  "cell_ptr a \<equiv> Ptr (Cell (a, 0))"

definition cells_in :: "operand list \<Rightarrow> addr list \<Rightarrow> (operand \<times> rvalue) set" where
  "cells_in ops as = set (zip ops (map cell_ptr as))"

lemma moving_allocas: "within moves (create_allocas n)"
  by (induction n) (simp_all add: moving.within_intros moving_steps)

lemma entry_weaken: "entry A tab vs B r \<Longrightarrow> vs' \<subseteq> vs \<Longrightarrow> entry A tab vs' B r"
  by (auto simp: entry_def)

lemma enter_allocas:
  assumes "fresh_cells (m_env m) n d0 = Inr (as, d1)"
  shows "code m f cf (\<lambda>B r d. entry A tab vs B r \<and> d = d0) (create_allocas n)
    (\<lambda>ops B r d. (length ops = n \<and> length as = n \<and> entry A tab (cells_in ops as \<union> vs) B r) \<and> d = d1)"
  using assms
proof (induction n arbitrary: vs d0 as)
  case 0
  then have "as = []" "d1 = d0" by (simp_all add: sem_simps)
  then show ?case unfolding create_allocas.simps by (intro code_done) (simp add: cells_in_def)
next
  case (Suc n)
  obtain a d2 as' where a: "alloc (m_env m) (CellBlock [0]) d0 = Inr (a, d2)" "fresh_cells (m_env m) n d2 = Inr (as', d1)"
    "as = a # as'"
    using Suc.prems by (auto simp: bind_def return_def split: sum.splits)
  show ?case
    unfolding create_allocas.simps
  proof (rule code_bind_moves [OF enter_alloca [OF a(1)]])
    fix v
    show "code m f cf (\<lambda>B r d. entry A tab (insert (v, cell_ptr a) vs) B r \<and> d = d2)
      (bind (create_allocas n) (\<lambda>as. return (v # as)))
      (\<lambda>ops B r d. (length ops = Suc n \<and> length as = Suc n \<and> entry A tab (cells_in ops as \<union> vs) B r) \<and> d = d1)"
      by (rule code_bind_moves [OF Suc.IH [OF a(2)]])
        (auto simp: a(3) cells_in_def intro!: code_done moving.within_leaf moving_allocas elim: entry_weaken)
  qed (intro moving.within_intros moving_steps moving_allocas)+
qed

lemma entry_drop: "entry A tab (insert x vs) B r \<Longrightarrow> entry A tab vs B r"
  by (auto simp: entry_def)

lemma enter_allocas_bind:
  assumes "fresh_cells (m_env m) n d0 = Inr (as, d1)"
    and "\<And>ops. length ops = n \<Longrightarrow> entering m f cf A tab (cells_in ops as \<union> vs) d1 (g ops) (\<lambda>_. tab') (\<lambda>_. vs') d2"
    and "\<And>ops. within moves (g ops)"
  shows "entering m f cf A tab vs d0 (bind (create_allocas n) g) (\<lambda>_. tab') (\<lambda>_. vs') d2"
proof (rule code_bind_moves [OF enter_allocas [OF assms(1)]])
  fix ops
  show "code m f cf (\<lambda>B r d. (length ops = n \<and> length as = n \<and> entry A tab (cells_in ops as \<union> vs) B r) \<and> d = d1)
    (g ops) (\<lambda>_ B r d. entry A tab' vs' B r \<and> d = d2)"
  proof (cases "length ops = n")
    case True
    show ?thesis by (rule code_weaken [OF assms(2) [OF True]]) auto
  qed (auto intro: code_vacuous)
qed (intro moving_allocas assms(3))+

text \<open>A store to a cell of the frame.\<close>

lemma enter_store:
  assumes "(p, cell_ptr a) \<in> vs" and "store (a, 0) w d0 = Inr ((), d1)"
    and "\<And>r. arguments r = A \<Longrightarrow> (\<And>v x. (v, x) \<in> vs \<Longrightarrow> operand_value r v = Inr x) \<Longrightarrow> operand_value r v = Inr (Word w)"
  shows "entering m f cf A tab vs d0 (create_store v p) (\<lambda>_. tab) (\<lambda>_. vs) d1"
  unfolding create_store_def
proof (rule code_bind_moves)
  show "entering m f cf A tab vs d0 (create (Store v p)) (\<lambda>_. tab) (\<lambda>k. insert (k, Word w) vs) d1"
  proof (rule enter_create)
    fix r
    assume a: "arguments r = A" "\<And>v x. (v, x) \<in> vs \<Longrightarrow> operand_value r v = Inr x"
    show "execute_instr m r (Store v p) d0 = Inr (Word w, d1)"
      using assms(2) assms(3) [OF a] a(2) [OF assms(1)] by (simp add: sem_simps place_operand_def)
  qed
qed (auto intro!: code_done moving_steps moving.within_leaf elim: entry_weaken)

lemma enter_params:
  assumes "fill_cells xs as ws tab d0 = Inr (tab', d1)" and "cells_in ops as \<subseteq> vs" and "length ops = length xs"
    and "length as = length xs" and "length ws = length xs" and "A = pre @ map Word ws @ post" and "0 \<notin> set as"
  shows "entering m f cf A tab vs d0 (store_params xs ops (length pre)) (\<lambda>_. tab') (\<lambda>_. vs) d1"
  using assms
proof (induction xs arbitrary: as ws ops tab d0 pre)
  case Nil
  then have "tab' = tab" "d1 = d0" by (simp_all add: sem_simps)
  then show ?case by (simp add: code_done)
next
  case (Cons x xs)
  obtain a as' where as: "as = a # as'" using Cons.prems(4) by (cases as) auto
  obtain w ws' where ws: "ws = w # ws'" using Cons.prems(5) by (cases ws) auto
  obtain p ops' where ops: "ops = p # ops'" using Cons.prems(3) by (cases ops) auto
  obtain d2 where d2: "store (a, 0) w d0 = Inr ((), d2)" "fill_cells xs as' ws' (tab(x \<mapsto> (a, 0))) d2 = Inr (tab', d1)"
    using Cons.prems(1) unfolding as ws fill_cells.simps by (rule seq_InrE)
  have p: "(p, cell_ptr a) \<in> vs" "a \<noteq> 0" using Cons.prems(2,7) by (simp_all add: cells_in_def as ops)
  have rest: "cells_in ops' as' \<subseteq> vs" "length ops' = length xs" "length as' = length xs" "length ws' = length xs"
    "A = (pre @ [Word w]) @ map Word ws' @ post" "0 \<notin> set as'"
    using Cons.prems by (simp_all add: cells_in_def as ops ws)
  have st: "entering m f cf A tab vs d0 (create_store (Argument (length pre)) p) (\<lambda>_. tab) (\<lambda>_. vs) d2"
    by (rule enter_store [OF p(1) d2(1)]) (simp add: Cons.prems(6) ws nth_append)
  have sy: "entering m f cf A tab vs d2 (set_csymbol x p) (\<lambda>_. tab(x \<mapsto> (a, 0))) (\<lambda>_. vs) d2"
    by (rule enter_symbol [OF p(1)]) (use p(2) in simp)
  have mv: "within moves (store_params xs ops' k)" for k
    by (induction xs ops' k rule: store_params.induct) (simp_all add: moving.within_intros moving_steps)
  note ih = Cons.IH [OF d2(2) rest, unfolded length_append_singleton]
  show ?case
    unfolding ops store_params.simps seq_def
    by (intro code_bind_moves [OF st] code_bind_moves [OF sy] ih moving.within_intros moving_steps mv)
qed

lemma enter_locals:
  assumes "fill_cells xs as (replicate (length xs) 0) tab d0 = Inr (tab', d1)" and "cells_in ops as \<subseteq> vs"
    and "length ops = length xs" and "length as = length xs" and "0 \<notin> set as"
  shows "entering m f cf A tab vs d0 (store_locals xs ops) (\<lambda>_. tab') (\<lambda>_. vs) d1"
  using assms
proof (induction xs arbitrary: as ops tab d0)
  case Nil
  then have "tab' = tab" "d1 = d0" by (simp_all add: sem_simps)
  then show ?case by (simp add: code_done)
next
  case (Cons x xs)
  obtain a as' where as: "as = a # as'" using Cons.prems(4) by (cases as) auto
  obtain p ops' where ops: "ops = p # ops'" using Cons.prems(3) by (cases ops) auto
  obtain d2 where d2: "store (a, 0) 0 d0 = Inr ((), d2)"
    "fill_cells xs as' (replicate (length xs) 0) (tab(x \<mapsto> (a, 0))) d2 = Inr (tab', d1)"
    using Cons.prems(1) unfolding as list.size replicate_Suc add_Suc_right add_0_right fill_cells.simps by (rule seq_InrE)
  have p: "(p, cell_ptr a) \<in> vs" "a \<noteq> 0" using Cons.prems(2,5) by (simp_all add: cells_in_def as ops)
  have st: "entering m f cf A tab vs d0 (create_store (Const (Word 0)) p) (\<lambda>_. tab) (\<lambda>_. vs) d2"
    by (rule enter_store [OF p(1) d2(1)]) simp
  have sy: "entering m f cf A tab vs d2 (set_csymbol x p) (\<lambda>_. tab(x \<mapsto> (a, 0))) (\<lambda>_. vs) d2"
    by (rule enter_symbol [OF p(1)]) (use p(2) in simp)
  have rest: "cells_in ops' as' \<subseteq> vs" "length ops' = length xs" "length as' = length xs" "0 \<notin> set as'"
    using Cons.prems by (simp_all add: cells_in_def as ops)
  note ih = Cons.IH [OF d2(2) rest]
  have mv: "within moves (store_locals xs ops')"
    by (induction xs ops' rule: store_locals.induct) (simp_all add: moving.within_intros moving_steps)
  show ?case
    unfolding ops store_locals.simps seq_def
    by (intro code_bind_moves [OF st] code_bind_moves [OF sy] ih moving.within_intros moving_steps mv)
qed

lemma moving_elements: "within moves (element_symbols xs arr i)"
  by (induction xs arbitrary: i) (simp_all add: moving.within_intros moving_steps)

lemma enter_elements:
  assumes "(arr, cell_ptr C) \<in> vs" and "C \<noteq> 0"
  shows "code m f cf (\<lambda>B r d. entry A tab vs B r \<and> d = d0) (element_symbols xs arr i)
    (\<lambda>_ B r d. entry A (element_table xs C i tab) vs B r \<and> d = d0)"
  using assms(1)
proof (induction xs arbitrary: vs tab i)
  case Nil
  then show ?case by (simp add: code_done)
next
  case (Cons x xs)
  have el: "entering m f cf A tab vs d0 (create (ElementPtr arr i)) (\<lambda>_. tab) (\<lambda>v. insert (v, Ptr (Cell (C, i))) vs) d0"
    by (rule enter_create) (use Cons.prems in \<open>simp add: sem_simps place_operand_def\<close>)
  show ?case
    unfolding element_symbols.simps
  proof (rule code_bind_moves [OF el])
    fix p
    let ?vs = "insert (p, Ptr (Cell (C, i))) vs"
    have sy: "entering m f cf A tab ?vs d0 (set_csymbol x p) (\<lambda>_. tab(x \<mapsto> (C, i))) (\<lambda>_. ?vs) d0"
      by (rule enter_symbol) (use assms(2) in auto)
    have "(arr, cell_ptr C) \<in> ?vs" using Cons.prems by simp
    note ih = Cons.IH [OF this, of "tab(x \<mapsto> (C, i))" "Suc i"]
    show "entering m f cf A tab ?vs d0 (seq (set_csymbol x p) (element_symbols xs arr (Suc i)))
      (\<lambda>_. element_table (x # xs) C i tab) (\<lambda>_. vs) d0"
      unfolding seq_def element_table.simps
      by (intro code_bind_moves [OF sy] code_weaken [OF ih] moving_steps moving_elements) (blast intro: entry_drop)+
  qed (intro moving.within_intros moving_steps moving_elements)+
qed

lemma enter_array:
  assumes "C \<noteq> 0" and "A \<noteq> []" and "A ! 0 = Word C"
  shows "entering m f cf A tab vs d0 (array_symbols xs) (\<lambda>_. element_table xs C 0 tab) (\<lambda>_. vs) d0"
proof (cases "xs = []")
  case True
  then show ?thesis unfolding array_symbols_def by (simp add: code_done)
next
  case False
  have arr: "entering m f cf A tab vs d0 (create (ArrayPtr (Argument 0))) (\<lambda>_. tab) (\<lambda>v. insert (v, cell_ptr C) vs) d0"
    by (rule enter_create) (use assms in \<open>auto simp: sem_simps word_operand_def\<close>)
  have "entering m f cf A tab (insert (p, cell_ptr C) vs) d0 (element_symbols xs p 0) (\<lambda>_. element_table xs C 0 tab) (\<lambda>_. vs) d0" for p
    by (rule code_weaken [OF enter_elements [where vs = "insert (p, cell_ptr C) vs", OF _ assms(1)]])
      (auto dest: entry_drop)
  then show ?thesis
    using False unfolding array_symbols_def by (simp add: code_bind_moves [OF arr] moving_steps moving_elements)
qed

lemma moving_array: "within moves (array_symbols xs)"
  unfolding array_symbols_def by (intro moving.within_intros moving_steps moving_elements)

lemma moving_stores: "within moves (store_params xs ops i)" "within moves (store_locals xs ops)"
proof -
  show "within moves (store_params xs ops i)"
    by (induction xs ops i rule: store_params.induct) (simp_all add: moving.within_intros moving_steps)
  show "within moves (store_locals xs ops)"
    by (induction xs ops rule: store_locals.induct) (simp_all add: moving.within_intros moving_steps)
qed

lemma fresh_nonzero:
  assumes "allocator_ok E"
  shows "alloc E b d = Inr (a, d') \<Longrightarrow> a \<noteq> 0" and "fresh_cells E n d = Inr (as, d') \<Longrightarrow> 0 \<notin> set as"
proof -
  show al: "alloc E b d = Inr (a, d') \<Longrightarrow> a \<noteq> 0" for a b d d'
    using allocator_okD(2) [OF assms] by (auto simp: sem_simps split: option.splits)
  show "fresh_cells E n d = Inr (as, d') \<Longrightarrow> 0 \<notin> set as"
  proof (induction n arbitrary: d as)
    case (Suc n)
    then obtain a d2 as' where "alloc E (CellBlock [0]) d = Inr (a, d2)" "fresh_cells E n d2 = Inr (as', d')" "as = a # as'"
      by (auto simp: bind_def return_def split: sum.splits)
    then show ?case using Suc.IH al by fastforce
  qed (simp add: sem_simps)
qed

section \<open>The whole entry\<close>

lemma fresh_length: "fresh_cells E n d = Inr (as, d') \<Longrightarrow> length as = n"
  by (induction n arbitrary: d as) (auto simp: bind_def return_def split: sum.splits)

lemma enter_jit:
  assumes "set_jit (decl_node D) d0 = Inr ((), d1)"
  shows "code m f cf (\<lambda>B r d. compiling B = D \<and> entry A tab vs B r \<and> d = d0) reset_jit_function
    (\<lambda>_ B r d. entry A tab vs B r \<and> d = d1)"
proof -
  have st: "entering m f cf A tab vs d0 (create (Store (Const (Word (decl_node D))) (Const (Ptr CurJitFunction)))) (\<lambda>_. tab)
      (\<lambda>v. insert (v, Word (decl_node D)) vs) d1"
    by (rule enter_create) (use assms in \<open>simp add: sem_simps place_operand_def\<close>)
  have "entering m f cf A tab vs d0 (bind (create (Store (Const (Word (decl_node D))) (Const (Ptr CurJitFunction)))) (\<lambda>_. return ()))
      (\<lambda>_. tab) (\<lambda>_. vs) d1"
    by (intro code_bind_moves [OF st] code_done moving_steps moving.within_leaf) (blast intro: entry_drop)
  note stored = this
  show ?thesis
  proof (rule codeI)
    fix B v B' r d
    assume a: "reset_jit_function B = Inr (v, B')" "wf_builder B" "insert_point B \<noteq> None" "final B' f" "rt_grows (rt B') cf"
      "compiling B = D \<and> entry A tab vs B r \<and> d = d0"
    then have "bind (create (Store (Const (Word (decl_node D))) (Const (Ptr CurJitFunction)))) (\<lambda>_. return ()) B = Inr (v, B')"
      by (simp add: reset_jit_function_def bind_apply [of "gets compiling"] leaf_apply)
    then show "(\<exists>r' d'. reaches m f (point B r) d (point B' r') d' \<and> agree (next_ident B) r r' \<and>
        entry A tab vs B' r' \<and> d' = d1) \<or> departs m f (point B r) d"
      using stored a unfolding code_def by blast
  qed
qed

lemma moving_reset: "within moves reset_jit_function"
  unfolding reset_jit_function_def by (intro moving.within_intros moving_steps)

text \<open>The arguments and the locals go to their cells, and the variables of the object follow.\<close>

lemma enter_variables:
  assumes fill: "fill_cells ps pas ws tab d0 = Inr (tab1, d1)"
      "fill_cells ls las (replicate (length ls) 0) tab1 d1 = Inr (tab2, d2)"
    and "length ops = length ps" "length ops' = length ls" "length pas = length ps" "length las = length ls"
      "length ws = length ps" "0 \<notin> set pas" "0 \<notin> set las"
    and A: "A = pre @ map Word ws" "A \<noteq> []" "A ! 0 = Word C" and "C \<noteq> 0"
    and vs: "cells_in ops pas \<union> cells_in ops' las \<subseteq> vs" and "i = length pre"
  shows "entering m f cf A tab vs d0
    (seq (store_params ps ops i) (seq (store_locals ls ops') (array_symbols xs)))
    (\<lambda>_. element_table xs C 0 tab2) (\<lambda>_. {}) d2"
proof -
  have 1: "entering m f cf A tab vs d0 (store_params ps ops i) (\<lambda>_. tab1) (\<lambda>_. vs) d1"
    unfolding \<open>i = length pre\<close> by (rule enter_params [OF fill(1)]) (use assms in auto)
  have 2: "entering m f cf A tab1 vs d1 (store_locals ls ops') (\<lambda>_. tab2) (\<lambda>_. vs) d2"
    by (rule enter_locals [OF fill(2)]) (use assms in auto)
  have 3: "entering m f cf A tab2 vs d2 (array_symbols xs) (\<lambda>_. element_table xs C 0 tab2) (\<lambda>_. {}) d2"
    by (rule code_weaken [OF enter_array [OF \<open>C \<noteq> 0\<close> A(2,3)]]) (auto elim: entry_weaken)
  show ?thesis
    unfolding seq_def by (intro code_bind_moves [OF 1] code_bind_moves [OF 2] 3 moving.within_intros moving_stores moving_array)
qed

lemma closure_prologue_runs:
  assumes "closure_entry (m_env m) D info C ws d0 = Inr (tab, d1)" and "allocator_ok (m_env m)"
    and "length ws = length (decl_params D)" and "C \<noteq> 0"
  shows "code m f cf (\<lambda>B r d. compiling B = D \<and> entry (Word C # map Word ws) Map.empty {} B r \<and> d = d0) (closure_prologue D info)
    (\<lambda>_ B r d. entry (Word C # map Word ws) tab {} B r \<and> d = d1)"
proof -
  let ?A = "Word C # map Word ws"
  obtain d2 s d3 ps d4 ls d5 d6 tab1 d7 tab2 where
    j: "set_jit (decl_node D) d0 = Inr ((), d2)" and s: "alloc (m_env m) (CellBlock [0]) d2 = Inr (s, d3)"
    and ps: "fresh_cells (m_env m) (length (decl_params D)) d3 = Inr (ps, d4)"
    and ls: "fresh_cells (m_env m) (length (di_decls info)) d4 = Inr (ls, d5)"
    and st: "store (s, 0) C d5 = Inr ((), d6)"
    and fp: "fill_cells (decl_params D) ps ws [''self'' \<mapsto> (s, 0)] d6 = Inr (tab1, d7)"
    and fl: "fill_cells (di_decls info) ls (replicate (length (di_decls info)) 0) tab1 d7 = Inr (tab2, d1)"
    and tab: "tab = element_table (di_boundVars info) C 0 tab2"
    using assms(1) unfolding closure_entry_def return_def by (elim bind_InrE seq_InrE) auto
  note len = fresh_length [OF ps] fresh_length [OF ls]
  note nz = fresh_nonzero(1) [OF assms(2) s] fresh_nonzero(2) [OF assms(2) ps] fresh_nonzero(2) [OF assms(2) ls]
  show ?thesis
    unfolding closure_prologue_def seq_def [of reset_jit_function]
  proof (rule code_bind_moves [OF enter_jit [OF j]], rule code_bind_moves [OF enter_alloca [OF s]])
    fix p
    let ?v1 = "{(p :: operand, cell_ptr s)}" and ?T = "[''self'' \<mapsto> (s, 0)] :: symbol_table"
    have sy: "entering m f cf ?A Map.empty ?v1 d3 (set_csymbol ''self'' p) (\<lambda>_. ?T) (\<lambda>_. ?v1) d3"
      by (rule enter_symbol) (use nz in auto)
    have vars: "entering m f cf ?A ?T (cells_in ops' ls \<union> (cells_in ops ps \<union> ?v1)) d5
        (bind (create (Cast (Argument 0))) (\<lambda>self. seq (create_store self p)
         (seq (store_params (decl_params D) ops 1)
         (seq (store_locals (di_decls info) ops') (array_symbols (di_boundVars info))))))
        (\<lambda>_. tab) (\<lambda>_. {}) d1"
      if "length ops = length (decl_params D)" "length ops' = length (di_decls info)" for ops ops'
    proof -
      let ?V = "cells_in ops' ls \<union> (cells_in ops ps \<union> ?v1)"
      have self: "entering m f cf ?A ?T ?V d5 (create (Cast (Argument 0))) (\<lambda>_. ?T) (\<lambda>v. insert (v, Word C) ?V) d5"
        by (rule enter_create) (simp add: sem_simps)
      have stored: "entering m f cf ?A ?T (insert (v, Word C) ?V) d5 (create_store v p) (\<lambda>_. ?T) (\<lambda>_. insert (v, Word C) ?V) d6" for v
        by (rule enter_store [OF _ st]) auto
      have rest: "entering m f cf ?A ?T (insert (v, Word C) ?V) d6 (seq (store_params (decl_params D) ops 1)
         (seq (store_locals (di_decls info) ops') (array_symbols (di_boundVars info)))) (\<lambda>_. tab) (\<lambda>_. {}) d1" for v
        unfolding tab by (rule enter_variables [OF fp fl that len assms(3) nz(2,3), where pre = "[Word C]"]) (use assms(4) in auto)
      show ?thesis
        unfolding seq_def [of "create_store _ _"]
        by (intro code_bind_moves [OF self] code_bind_moves [OF stored] rest moving.within_intros moving_steps moving_stores moving_array)
    qed
    show "entering m f cf ?A Map.empty ?v1 d3
      (seq (set_csymbol ''self'' p) (bind (create_allocas (length (decl_params D))) (\<lambda>paramAllocas.
       bind (create_allocas (length (di_decls info))) (\<lambda>localAllocas.
       bind (create (Cast (Argument 0))) (\<lambda>self. seq (create_store self p)
         (seq (store_params (decl_params D) paramAllocas 1)
         (seq (store_locals (di_decls info) localAllocas) (array_symbols (di_boundVars info)))))))))
      (\<lambda>_. tab) (\<lambda>_. {}) d1"
      unfolding seq_def [of "set_csymbol _ _"]
      by (intro code_bind_moves [OF sy] enter_allocas_bind [OF ps] enter_allocas_bind [OF ls] vars
          moving.within_intros moving_steps moving_allocas moving_stores moving_array)
  qed (intro moving.within_intros moving_steps moving_allocas moving_stores moving_array moving_reset)+
qed

lemma enter_alu:
  assumes "(v, Word x) \<in> vs"
  shows "entering m f cf A tab vs d0 (create (Alu op v (Const (Word y)))) (\<lambda>_. tab) (\<lambda>w. insert (w, Word (alu_value op x y)) vs) d0"
proof (rule enter_create)
  fix r
  assume "\<And>v x. (v, x) \<in> vs \<Longrightarrow> operand_value r v = Inr x"
  from word_operand_value [OF this [OF assms]]
  show "execute_instr m r (Alu op v (Const (Word y))) d0 = Inr (Word (alu_value op x y), d0)"
    by (simp add: sem_simps word_operand_Const)
qed

lemma enter_cast:
  assumes "(v, x) \<in> vs"
  shows "entering m f cf A tab vs d0 (create (Cast v)) (\<lambda>_. tab) (\<lambda>w. insert (w, x) vs) d0"
proof (rule enter_create)
  fix r
  assume "\<And>v x. (v, x) \<in> vs \<Longrightarrow> operand_value r v = Inr x"
  from this [OF assms] show "execute_instr m r (Cast v) d0 = Inr (x, d0)" by (simp add: sem_simps)
qed

text \<open>The selector reaches the code as a number and goes to \<open>cmd\<close> as a small integer.\<close>

lemma enter_selector:
  assumes "A ! 1 = Word x" and "1 < length A" and "(p, cell_ptr a) \<in> vs" and "store (a, 0) (compileSmallInt x) d0 = Inr ((), d1)"
    and rest: "entering m f cf A tab vs d1 g (\<lambda>_. tab') (\<lambda>_. {}) d2" and mv: "within moves g"
  shows "entering m f cf A tab vs d0
    (bind (create (ZExt (Argument 1))) (\<lambda>sel. bind (small_int_of sel) (\<lambda>sel. bind (getAsObject sel) (\<lambda>sel.
     seq (create_store sel p) g)))) (\<lambda>_. tab') (\<lambda>_. {}) d2"
proof (rule code_bind_moves [where Q = "\<lambda>v B r d. entry A tab (insert (v, Word x) vs) B r \<and> d = d0"])
  show "entering m f cf A tab vs d0 (create (ZExt (Argument 1))) (\<lambda>_. tab) (\<lambda>v. insert (v, Word x) vs) d0"
    by (rule enter_create) (use assms(1,2) in \<open>simp add: sem_simps\<close>)
next
  fix v
  let ?V = "insert (v, Word x) vs"
  have shl: "entering m f cf A tab ?V d0 (create (Alu ShlOp v (Const (Word 3)))) (\<lambda>_. tab)
      (\<lambda>w. insert (w, Word (push_bit 3 x)) ?V) d0"
    using enter_alu [of v x ?V m f cf A tab d0 ShlOp 3] by simp
  have or: "entering m f cf A tab (insert (w, Word (push_bit 3 x)) ?V) d0 (create (Alu OrOp w (Const (Word 1)))) (\<lambda>_. tab)
      (\<lambda>u. insert (u, Word (compileSmallInt x)) (insert (w, Word (push_bit 3 x)) ?V)) d0" for w
    using enter_alu [of w "push_bit 3 x" "insert (w, Word (push_bit 3 x)) ?V" m f cf A tab d0 OrOp 1]
    by (simp add: compileSmallInt_def)
  have small: "entering m f cf A tab ?V d0 (small_int_of v) (\<lambda>_. tab) (\<lambda>u. insert (u, Word (compileSmallInt x)) vs) d0"
    unfolding small_int_of_def
    by (intro code_bind_moves [OF shl] code_weaken [OF or] moving_steps) (auto elim: entry_weaken)
  let ?W = "\<lambda>u. insert (u, Word (compileSmallInt x)) vs"
  have cast': "entering m f cf A tab (?W u) d0 (create (Cast u)) (\<lambda>_. tab) (\<lambda>w. insert (w, Word (compileSmallInt x)) (?W u)) d0" for u
    by (rule enter_cast) simp
  have cast: "entering m f cf A tab (?W u) d0 (getAsObject u) (\<lambda>_. tab) ?W d0" for u
    unfolding getAsObject_def by (rule code_weaken [OF cast']) (auto elim: entry_weaken)
  have st': "entering m f cf A tab (?W w) d0 (create_store w p) (\<lambda>_. tab) (\<lambda>_. ?W w) d1" for w
    by (rule enter_store [OF _ assms(4)]) (use assms(3) in auto)
  have st: "entering m f cf A tab (?W w) d0 (create_store w p) (\<lambda>_. tab) (\<lambda>_. vs) d1" for w
    by (rule code_weaken [OF st']) (auto elim: entry_weaken)
  show "entering m f cf A tab ?V d0
    (bind (small_int_of v) (\<lambda>sel. bind (getAsObject sel) (\<lambda>sel. seq (create_store sel p) g))) (\<lambda>_. tab') (\<lambda>_. {}) d2"
    unfolding seq_def
    by (intro code_bind_moves [OF small] code_bind_moves [OF cast] code_bind_moves [OF st] rest mv
        moving.within_intros moving_steps part_moves [OF part_steps(11)] part_moves [OF part_steps(9)])
qed (intro moving.within_intros moving_steps mv part_moves [OF part_steps(11)] part_moves [OF part_steps(9)])+

lemma method_prologue_runs:
  assumes "method_entry (m_env m) D info ivs ob sel ws d0 = Inr (tab, d1)" and "allocator_ok (m_env m)"
    and "length ws = length (decl_params D)" and "ob \<noteq> 0"
  shows "code m f cf (\<lambda>B r d. compiling B = D \<and> entry (Word ob # Word (ucast sel) # map Word ws) Map.empty {} B r \<and> d = d0)
    (method_prologue D info ivs)
    (\<lambda>_ B r d. entry (Word ob # Word (ucast sel) # map Word ws) tab {} B r \<and> d = d1)"
proof -
  let ?A = "Word ob # Word (ucast sel) # map Word ws"
  obtain d2 s d3 k d3' ps d4 ls d5 d6 d6' tab1 d7 tab2 where
    j: "set_jit (decl_node D) d0 = Inr ((), d2)" and s: "alloc (m_env m) (CellBlock [0]) d2 = Inr (s, d3)"
    and k: "alloc (m_env m) (CellBlock [0]) d3 = Inr (k, d3')"
    and ps: "fresh_cells (m_env m) (length (decl_params D)) d3' = Inr (ps, d4)"
    and ls: "fresh_cells (m_env m) (length (di_decls info)) d4 = Inr (ls, d5)"
    and st: "store (s, 0) ob d5 = Inr ((), d6)" and st': "store (k, 0) (compileSmallInt (ucast sel)) d6 = Inr ((), d6')"
    and fp: "fill_cells (decl_params D) ps ws [''self'' \<mapsto> (s, 0), ''cmd'' \<mapsto> (k, 0)] d6' = Inr (tab1, d7)"
    and fl: "fill_cells (di_decls info) ls (replicate (length (di_decls info)) 0) tab1 d7 = Inr (tab2, d1)"
    and tab: "tab = element_table ivs ob 0 tab2"
    using assms(1) unfolding method_entry_def return_def by (elim bind_InrE seq_InrE) auto
  note len = fresh_length [OF ps] fresh_length [OF ls]
  note nz = fresh_nonzero(2) [OF assms(2) ps] fresh_nonzero(2) [OF assms(2) ls]
    fresh_nonzero(1) [OF assms(2) s] fresh_nonzero(1) [OF assms(2) k]
  note moving = moving.within_intros moving_steps moving_allocas moving_stores moving_array moving_reset
    part_moves [OF part_steps(11)] part_moves [OF part_steps(9)]
  show ?thesis
    unfolding method_prologue_def seq_def [of reset_jit_function]
  proof (rule code_bind_moves [OF enter_jit [OF j]], rule code_bind_moves [OF enter_alloca [OF s]],
      rule code_bind_moves [OF enter_alloca [OF k]])
    fix p q
    let ?v = "{(q :: operand, cell_ptr k), (p, cell_ptr s)}"
      and ?T = "[''self'' \<mapsto> (s, 0), ''cmd'' \<mapsto> (k, 0)] :: symbol_table"
    have sy: "entering m f cf ?A Map.empty ?v d3' (set_csymbol ''self'' p) (\<lambda>_. [''self'' \<mapsto> (s, 0)]) (\<lambda>_. ?v) d3'"
      by (rule enter_symbol) (use nz in auto)
    have sy': "entering m f cf ?A [''self'' \<mapsto> (s, 0)] ?v d3' (set_csymbol ''cmd'' q) (\<lambda>_. ?T) (\<lambda>_. ?v) d3'"
      by (rule enter_symbol) (use nz in auto)
    have vars: "entering m f cf ?A ?T (cells_in ops' ls \<union> (cells_in ops ps \<union> ?v)) d5
        (bind (create (Cast (Argument 0))) (\<lambda>self. seq (create_store self p)
         (bind (create (ZExt (Argument 1))) (\<lambda>sel. bind (small_int_of sel) (\<lambda>sel. bind (getAsObject sel) (\<lambda>sel.
         seq (create_store sel q) (seq (store_params (decl_params D) ops 2)
         (seq (store_locals (di_decls info) ops') (array_symbols ivs)))))))))
        (\<lambda>_. tab) (\<lambda>_. {}) d1"
      if "length ops = length (decl_params D)" "length ops' = length (di_decls info)" for ops ops'
    proof -
      let ?V = "cells_in ops' ls \<union> (cells_in ops ps \<union> ?v)"
      have self: "entering m f cf ?A ?T ?V d5 (create (Cast (Argument 0))) (\<lambda>_. ?T) (\<lambda>v. insert (v, Word ob) ?V) d5"
        by (rule enter_create) (simp add: sem_simps)
      have stored: "entering m f cf ?A ?T (insert (v, Word ob) ?V) d5 (create_store v p) (\<lambda>_. ?T) (\<lambda>_. insert (v, Word ob) ?V) d6" for v
        by (rule enter_store [OF _ st]) auto
      have rest: "entering m f cf ?A ?T (insert (v, Word ob) ?V) d6' (seq (store_params (decl_params D) ops 2)
         (seq (store_locals (di_decls info) ops') (array_symbols ivs))) (\<lambda>_. tab) (\<lambda>_. {}) d1" for v
        unfolding tab by (rule enter_variables [OF fp fl that len assms(3) nz(1,2), where pre = "[Word ob, Word (ucast sel)]"])
          (use assms(4) in auto)
      show ?thesis
        unfolding seq_def [of "create_store _ p"]
        by (intro code_bind_moves [OF self] code_bind_moves [OF stored] enter_selector [OF _ _ _ st' rest] moving) auto
    qed
    show "entering m f cf ?A Map.empty ?v d3'
      (seq (set_csymbol ''self'' p) (seq (set_csymbol ''cmd'' q) (bind (create_allocas (length (decl_params D))) (\<lambda>paramAllocas.
       bind (create_allocas (length (di_decls info))) (\<lambda>localAllocas.
       bind (create (Cast (Argument 0))) (\<lambda>self. seq (create_store self p)
         (bind (create (ZExt (Argument 1))) (\<lambda>sel. bind (small_int_of sel) (\<lambda>sel. bind (getAsObject sel) (\<lambda>sel.
         seq (create_store sel q) (seq (store_params (decl_params D) paramAllocas 2)
         (seq (store_locals (di_decls info) localAllocas) (array_symbols ivs)))))))))))))
      (\<lambda>_. tab) (\<lambda>_. {}) d1"
      unfolding seq_def [of "set_csymbol _ _"]
      by (intro code_bind_moves [OF sy] code_bind_moves [OF sy'] enter_allocas_bind [OF ps] enter_allocas_bind [OF ls] vars moving)
  qed (intro moving)+
qed

lemma moving_prologue: "within moves (method_prologue D info ivs)" "within moves (closure_prologue D info)"
  unfolding method_prologue_def closure_prologue_def
  by (intro moving.within_intros moving_steps moving_allocas moving_stores moving_array moving_reset
      part_moves [OF part_steps(11)] part_moves [OF part_steps(9)])+

section \<open>Compiled functions\<close>

lemma fits_frame: "fits (F\<lparr>table := t, syms := s, base_ident := n\<rparr>) e \<longleftrightarrow> fits F e"
  by (induction F e rule: fits.induct) auto

lemma fits_stmts_frame:
  "fits_stmt (F\<lparr>table := t, syms := s, base_ident := n\<rparr>) st \<longleftrightarrow> fits_stmt F st"
  "fits_stmts (F\<lparr>table := t, syms := s, base_ident := n\<rparr>) ss \<longleftrightarrow> fits_stmts F ss"
  by (induction F st and F ss rule: fits_stmt_fits_stmts.induct) (simp_all add: fits_frame)

lemma entry_located:
  assumes "entry A tab vs B r" and "decl_node (compiling B) = owner F"
  shows "located (F\<lparr>table := tab, syms := csymbols B, base_ident := next_ident B\<rparr>) B r"
proof -
  have "symbol_at tab B r x" for x using assms by (simp add: entry_def)
  then show ?thesis
    using assms(2) unfolding located_def var_at_def symbol_at_def holds_def by (fastforce split: option.splits)
qed

text \<open>
  What a function finds in the context that enters it: the constants of its code are still those of
  the program.  Building the frame keeps them.
\<close>

definition entered :: "ctx \<Rightarrow> ctx \<Rightarrow> bool" where
  "entered d d' \<longleftrightarrow> cache d' = cache d \<and> isReturning d' = isReturning d \<and> retVal d' = retVal d \<and>
     globalSymbols d' = globalSymbols d \<and> classTable d' = classTable d \<and> symbols d' = symbols d \<and>
     selectors d' = selectors d \<and> call_sites d' = call_sites d \<and> cur_jit_function d' = cur_jit_function d"

lemma entered_constants: "entered d d' \<Longrightarrow> constants_hold F d \<Longrightarrow> constants_hold F d'"
  by (erule constants_hold_cong) (simp_all add: entered_def site_kept_def)

lemma constants_frame: "constants_hold (F\<lparr>table := t, syms := s, base_ident := n\<rparr>) c \<longleftrightarrow> constants_hold F c"
  "known_ok (F\<lparr>table := t, syms := s, base_ident := n\<rparr>) k \<longleftrightarrow> known_ok F k"
  by (simp_all add: constants_hold_def known_ok_def)

interpretation entered: effect entered
  by unfold_locales (auto simp: entered_def)

lemma entered_steps: "within entered (alloc E b)" "within entered (store p v)"
proof -
  have "only_mem c c' \<Longrightarrow> entered c c'" for c c' by (auto simp: only_mem_def entered_def)
  then show "within entered (alloc E b)" "within entered (store p v)" using only_mem_steps(3,4) by (auto simp: within_def)
qed

lemma entered_frame: "within entered (fresh_cells E n)" "within entered (fill_cells xs as ws tab)"
proof -
  show "within entered (fresh_cells E n)" by (induction n) (simp_all add: entered.within_intros entered_steps)
  show "within entered (fill_cells xs as ws tab)"
    by (induction xs as ws tab rule: fill_cells.induct)
      (simp_all only: fill_cells.simps, (intro entered.within_intros entered_steps | assumption)+)
qed

lemma entered_after: "seq (set_jit n) r d = Inr (x, d') \<Longrightarrow> within entered r \<Longrightarrow> entered (d\<lparr>cur_jit_function := n\<rparr>) d'"
  by (auto simp: sem_simps dest: withinD)

lemma entered_entries:
  "closure_entry E D info C ws d = Inr (tab, d') \<Longrightarrow> entered (d\<lparr>cur_jit_function := decl_node D\<rparr>) d'"
  "method_entry E D info ivs ob sel ws d = Inr (tab, d') \<Longrightarrow> entered (d\<lparr>cur_jit_function := decl_node D\<rparr>) d'"
  unfolding closure_entry_def method_entry_def
  by (erule entered_after, intro entered.within_intros entered_steps entered_frame)+

lemma entered_corr:
  assumes "constants_hold F d0" and "entered (d0\<lparr>cur_jit_function := owner F\<rparr>) d1"
  shows "corr (F\<lparr>table := tab, syms := s, base_ident := k\<rparr>) (d1\<lparr>symbols := tab # symbols d1\<rparr>) d1"
proof -
  have "constants_hold F (d0\<lparr>cur_jit_function := owner F\<rparr>)"
    by (rule constants_hold_cong [OF assms(1)]) (simp_all add: site_kept_def)
  then have "constants_hold F d1" by (rule entered_constants [OF assms(2)])
  moreover from this have "constants_hold F (d1\<lparr>symbols := tab # symbols d1\<rparr>)"
    by (rule constants_hold_cong) (simp_all add: site_kept_def)
  moreover have "cur_jit_function d1 = owner F" using assms(2) by (simp add: entered_def)
  ultimately show ?thesis by (simp add: corr_def constants_frame) (simp add: constants_hold_def)
qed

lemma function_runs:
  assumes pro: "\<And>f. code m f c1 (\<lambda>B r d. compiling B = D \<and> entry A Map.empty {} B r \<and> d = d0) p
      (\<lambda>_ B r d. entry A tab {} B r \<and> d = d1)" and "within moves p"
    and build: "build_function D (seq p (compile_body (m_env m) D)) c0 = Inr (f, c1)"
    and "machine_fits m F" and "fits_stmts F (decl_body D)" and "linked F = c1"
    and "owner F = decl_node D" and "constants_hold F d0" and "entered (d0\<lparr>cur_jit_function := decl_node D\<rparr>) d1"
    and body: "seq (pushSymbols tab) (run_body m (decl_body D)) d1 = Inr (v, e)"
  shows "departs m f (At 0 0 \<lparr>arguments = A, registers = Map.empty\<rparr>) d0 \<or>
    (\<exists>k d'. run_function k m f A d0 = Inr (v, d') \<and> same_but_cache F d' e)"
proof -
  let ?B = "new_builder D c0" and ?r = "\<lparr>arguments = A, registers = Map.empty\<rparr>"
  obtain B1 B2 where b: "p ?B = Inr ((), B1)" "compile_body (m_env m) D B1 = Inr ((), B2)"
    "f = function_blocks B2" "c1 = rt B2"
    using build by (auto simp: build_function_def sem_simps split: sum.splits)
  have wf: "wf_builder ?B" "insert_point ?B \<noteq> None" by (auto simp: wf_builder_def new_builder_def)
  have mv: "moves ?B B1" by (rule withinD [OF assms(2) b(1)])
  then have wf1: "wf_builder B1" "insert_point B1 \<noteq> None" using wf by (auto simp: moves_def intro: emitting_wf)
  obtain B3 where b3: "compile_stmts (m_env m) (decl_body D) B1 = Inr ((), B3)"
    "create_terminator (Ret (Const (Word 0))) B3 = Inr ((), B2)"
    using b(2) unfolding compile_body_def by (rule seq_InrE)
  have e13: "emitting {} B1 B3" by (rule withinD [OF compiling_emits(5) b3(1)])
  have fin3: "final B3 f" unfolding b(3) by (rule final_leave [OF b3(2) final_built emitting_wf [OF e13 wf1(1)]]) simp
  have fin1: "final B1 f" by (rule final_back [OF e13 fin3 wf1(1)])
  have "rt_grows (rt B1) (rt B2)"
    using walked_back(1) [OF withinD [OF walked.walking_within(5) b3(1)]] control_same(1) [OF b3(2)] growing.refl by metis
  then have rt1: "rt_grows (rt B1) c1" by (simp add: b(4))
  have start: "compiling ?B = D \<and> entry A Map.empty {} ?B ?r \<and> d0 = d0"
    by (simp add: entry_def new_builder_def symbol_at_def)
  have at: "point ?B ?r = At 0 0 ?r" by (simp add: point_def new_builder_def Let_def)
  show ?thesis
  proof (rule codeE [OF pro b(1) wf fin1 rt1 start])
    fix r' d'
    assume r': "reaches m f (point ?B ?r) d0 (point B1 r') d'" "entry A tab {} B1 r' \<and> d' = d1"
    let ?F = "F\<lparr>table := tab, syms := csymbols B1, base_ident := next_ident B1\<rparr>"
    let ?c = "d1\<lparr>symbols := tab # symbols d1\<rparr>"
    have body': "run_body m (decl_body D) ?c = Inr (v, e)" using body by (simp add: sem_simps)
    have "corr ?F ?c d1" by (rule entered_corr [OF assms(8)]) (use assms(7,9) in simp)
    moreover have "machine_fits m ?F" using assms(4) by (simp add: machine_fits_def calls_respect_place)
    moreover have "decl_node (compiling B1) = owner F"
      using mv assms(7) by (simp add: moves_def numbers_def new_builder_def)
    ultimately have "departs m f (point B1 r') d1 \<or> (\<exists>d'. reaches m f (point B1 r') d1 (Returned v) d' \<and> same_but_cache F d' e)"
      using body_runs [OF _ _ body' b(2) wf1, of ?F r' d1] assms(5,6) entry_located [OF conjunct1 [OF r'(2)], of F]
      by (simp add: fits_stmts_frame b(3) b(4) growing.refl)
    then show ?thesis
      using r' departs_later [OF r'(1)] reaches_execute [OF reaches_trans [OF r'(1)]]
      unfolding run_function_def at by blast
  qed (simp add: at)
qed

end
