(* ===== verification/Leaving.thy ===== *)
theory Leaving
  imports Compiled_Entry
begin

text \<open>
  The way out of compiled code: a call guard that fails takes the slow path, whose patchpoint hands
  the frame of the function to the interpreter.
\<close>

section \<open>The frame that a patchpoint hands over\<close>

definition frame_loc :: "frame \<Rightarrow> string \<Rightarrow> loc" where
  "frame_loc F x = (case table F x of Some p \<Rightarrow> p | None \<Rightarrow> null_loc)"

lemma bind_cells_table:
  "bind_cells xs (map (\<lambda>x. Ptr (Cell (h x))) xs) (table_on zs h) c = Inr (table_on (zs @ xs) h, c)"
proof (induction xs arbitrary: zs)
  case (Cons x xs)
  from Cons.IH [of "zs @ [x]"] show ?case by (simp add: sem_simps table_on_append [symmetric])
qed (simp add: sem_simps)

lemma leave_frame:
  assumes "m_records m (cur_jit_function d) = Some 1" and "m_decls m (cur_jit_function d) = Some D" and "receiver_cells h ivs d"
    and "place_cell self d = Inr (h ''self'', d)" and "place_cell cmd d = Inr (h ''cmd'', d)"
  shows "leave m (Word n # self # cmd # map (\<lambda>x. Ptr (Cell (h x)))
      (decl_params D @ di_decls (closure_decls d (cur_jit_function d)) @ di_boundVars (closure_decls d (cur_jit_function d)))) d =
    resume_frame m (table_on (frame_names D (closure_decls d (cur_jit_function d)) ivs) h) (h ''self'') (h ''cmd'') n d"
  using receiver_table_eq [OF assms(3) [unfolded receiver_cells_def]]
  by (simp add: leave_def sem_simps the_decl_def assms bind_cells_table frame_names_def del: map_append)

text \<open>
  The model of the patchpoint's call against the function that the trampoline calls: on a stack map with
  one record they do the same, on any other number of records both return null.
\<close>

lemma leave_is_reconstruction:
  assumes "describes_frame m maps regs csyms n ret c" and "m_records m (cur_jit_function c) = Some 1"
    and "receiver_cells h ivs c" and "h = address_of cell_at csyms" and "m_decls m (cur_jit_function c) = Some D"
    and "place_cell self c = Inr (h ''self'', c)" and "place_cell cmd c = Inr (h ''cmd'', c)"
  shows "reconstructInterpreterContext m maps cell_at regs c =
    bind (leave m (Word n # self # cmd # map (\<lambda>x. Ptr (Cell (h x))) (decl_params D @
        di_decls (closure_decls c (cur_jit_function c)) @ di_boundVars (closure_decls c (cur_jit_function c)))))
      (\<lambda>v. return (Some ret, v)) c"
  unfolding frame_rebuilt [OF assms(1,3,4,5)]
  using leave_frame [OF assms(2,5,3,6,7), of n] by (simp add: bind_def del: map_append)

lemma several_records_refused:
  assumes "maps (cur_jit_function c) = Some (smp, sec)" and "newStackMapParser 0 sec = Inr (smp, sec)"
    and "sec = encode_section fs cs rs" and "length fs = 3" and "length cs * 8 < 2 ^ 32" and "length rs < 2 ^ 32"
    and "length rs \<noteq> 1" and "m_records m (cur_jit_function c) = Some (length rs)"
  shows "reconstructInterpreterContext m maps cell_at regs c =
    bind (leave m vals) (\<lambda>v. return (None, v)) c"
proof -
  have smp: "base smp = 0" and read: "getNumRecords 0 sec = Inr (word_of_nat (length rs), sec)"
    "getNumFunctions 0 sec = Inr (1, sec)"
    using section_read [of fs 1 cs rs] assms(2-6) by simp_all
  have "(word_of_nat (length rs) :: 32 word) \<noteq> 1"
  proof
    assume "(word_of_nat (length rs) :: 32 word) = 1"
    then have "unat (word_of_nat (length rs) :: 32 word) = 1" by simp
    then show False using assms(6,7) unat32 [of "length rs"] by simp
  qed
  then show ?thesis
    using assms(1,7,8)
    by (simp add: reconstructInterpreterContext_def getStackMap_def leave_def sem_simps reading_from_apply smp read)
qed

text \<open>
  The variables of a function, as its analysis found them; the other fields of its record change while
  the program runs.
\<close>

definition same_variables :: "decl_info \<Rightarrow> decl_info \<Rightarrow> bool" where
  "same_variables info info' \<longleftrightarrow> di_decls info = di_decls info' \<and> di_boundVars info = di_boundVars info'"

lemma values_apply: "list_all2 (\<lambda>v x. operand_value r v = Inr x) vs xs \<Longrightarrow> operand_values r vs d = Inr (xs, d)"
  by (induction vs xs rule: list_all2_induct) (simp_all add: sem_simps)

lemma patchpoint_values:
  assumes "patchpoint_operands n B = Inr (ops, B')" and "located F B r" and "compiling B = D"
    and "same_variables (closure_decls (rt B) (decl_node D)) info"
  obtains self cmd where "B' = B" and "place_cell self d = Inr (frame_loc F ''self'', d)"
    and "place_cell cmd d = Inr (frame_loc F ''cmd'', d)"
    and "operand_values r ops d = Inr (Word n # self # cmd # map (\<lambda>x. Ptr (Cell (frame_loc F x)))
      (decl_params D @ di_decls info @ di_boundVars info), d)"
proof -
  let ?or = "\<lambda>x. case csymbols B x of Some v \<Rightarrow> v | None \<Rightarrow> Const (Word 0)"
    and ?names = "decl_params D @ di_decls info @ di_boundVars info"
  have "the_operands ([Some (Const (Word n)), Some (?or ''self''), Some (?or ''cmd'')] @ map (csymbols B) ?names) B = Inr (ops, B')"
    using assms(1,3,4) by (simp add: patchpoint_operands_def on_runtime_def sem_simps same_variables_def)
  from operands_apply [OF this] obtain rest where B': "B' = B"
    and ops: "ops = Const (Word n) # ?or ''self'' # ?or ''cmd'' # rest" "map Some rest = map (csymbols B) ?names"
    by (auto simp: map_eq_Cons_conv)
  have var: "var_at F r x" "csymbols B = syms F" for x using assms(2) by (simp_all add: located_def)
  have val: "operand_value r v = Inr (Ptr (Cell (frame_loc F x)))" if "csymbols B x = Some v" for x v
    using var(1) [of x] that by (auto simp: var(2) var_at_def frame_loc_def)
  have one: "\<exists>w. operand_value r (?or x) = Inr w \<and> place_cell w d = Inr (frame_loc F x, d)" for x
    using val [of x] var(1) [of x]
    by (cases "csymbols B x") (auto simp: var(2) var_at_def frame_loc_def sem_simps)
  have "list_all2 (\<lambda>v x. operand_value r v = Inr x) rest (map (\<lambda>x. Ptr (Cell (frame_loc F x))) ?names)"
    unfolding list_all2_conv_all_nth
  proof (intro conjI allI impI)
    show len: "length rest = length (map (\<lambda>x. Ptr (Cell (frame_loc F x))) ?names)"
      using arg_cong [OF ops(2), of length] by simp
    fix i
    assume i: "i < length rest"
    then have "csymbols B (?names ! i) = Some (rest ! i)"
      using arg_cong [OF ops(2), of "\<lambda>xs. xs ! i"] len by (simp del: map_append)
    from val [OF this] show "operand_value r (rest ! i) = Inr (map (\<lambda>x. Ptr (Cell (frame_loc F x))) ?names ! i)"
      using i len by (simp del: map_append)
  qed
  moreover obtain self cmd where sc: "operand_value r (?or ''self'') = Inr self" "place_cell self d = Inr (frame_loc F ''self'', d)"
    "operand_value r (?or ''cmd'') = Inr cmd" "place_cell cmd d = Inr (frame_loc F ''cmd'', d)"
    using one by metis
  ultimately have "operand_values r ops d = Inr (Word n # self # cmd # map (\<lambda>x. Ptr (Cell (frame_loc F x))) ?names, d)"
    unfolding ops(1) by (intro values_apply) simp
  then show thesis by (rule that [OF B' sc(2,4)])
qed

section \<open>The slow path\<close>

text \<open>What the call of the trampoline returns for the operands that describe the frame of the function.\<close>

definition leaves_with :: "machine \<Rightarrow> frame \<Rightarrow> cdecl \<Rightarrow> node \<Rightarrow> ctx \<Rightarrow> obj \<Rightarrow> ctx \<Rightarrow> bool" where
  "leaves_with m F D n d v d' \<longleftrightarrow> (\<forall>self cmd. place_cell self d = Inr (frame_loc F ''self'', d) \<and>
     place_cell cmd d = Inr (frame_loc F ''cmd'', d) \<longrightarrow>
     leave m (Word n # self # cmd # map (\<lambda>x. Ptr (Cell (frame_loc F x))) (decl_params D @
       di_decls (closure_decls d (decl_node D)) @ di_boundVars (closure_decls d (decl_node D)))) d = Inr (v, d'))"

lemma leaves_resumed:
  assumes "m_records m (decl_node D) = Some 1" and "cur_jit_function d = decl_node D" and "m_decls m (decl_node D) = Some D"
    and "receiver_cells (frame_loc F) ivs d"
    and "resume_frame m (table_on (frame_names D (closure_decls d (decl_node D)) ivs) (frame_loc F))
        (frame_loc F ''self'') (frame_loc F ''cmd'') n d = Inr (v, d')"
  shows "leaves_with m F D n d v d'"
  using leave_frame [of m d D "frame_loc F" ivs] assms by (simp add: leaves_with_def)

lemma leaves_refused:
  assumes "m_records m (cur_jit_function d) = Some k" and "k \<noteq> 1"
  shows "leaves_with m F D n d 0
    (d\<lparr>console := console d @ [Diagnostic ''More than 1 record in this stackmap! UNIMPLIMENTED.'']\<rparr>)"
  using assms by (simp add: leaves_with_def leave_def sem_simps)

lemma slow_path_runs:
  assumes run: "compile_slow_path n B = Inr ((), B')" and wf: "wf_builder B" "insert_point B \<noteq> None"
    and fin: "final (B'\<lparr>insert_point := p\<rparr>) f" "set_option p \<subseteq> pending B"
    and "located F B r" and "compiling B = D" and "same_variables (closure_decls (rt B) (decl_node D)) (closure_decls d (decl_node D))"
    and res: "leaves_with m F D n d v d'"
  shows "reaches m f (point B r) d (Returned v) d'"
proof -
  obtain ops P1 k P2 k' P3 where b: "patchpoint_operands n B = Inr (ops, P1)" "create (Patchpoint ops) P1 = Inr (k, P2)"
    "create (Cast k) P2 = Inr (k', P3)" "create_terminator (Ret k') P3 = Inr ((), B')"
    using run unfolding compile_slow_path_def getAsObject_def by (elim bind_InrE) (rule that; assumption)
  obtain self cmd where P1: "P1 = B" and sc: "place_cell self d = Inr (frame_loc F ''self'', d)"
      "place_cell cmd d = Inr (frame_loc F ''cmd'', d)"
    and vals: "operand_values r ops d = Inr (Word n # self # cmd # map (\<lambda>x. Ptr (Cell (frame_loc F x)))
      (decl_params D @ di_decls (closure_decls d (decl_node D)) @ di_boundVars (closure_decls d (decl_node D))), d)"
    by (rule patchpoint_values [OF b(1) assms(6-8), of d]) 
  have e1: "emitting {} B P2" "emitting {} P2 P3" using withinD [OF create_emits] b(2,3) P1 by blast+
  have wf2: "wf_builder P2" "wf_builder P3" using emitting_wf e1 wf(1) by blast+
  have ip: "insert_point P2 \<noteq> None" "insert_point P3 \<noteq> None"
    using withinD [OF going_steps(1) b(2)] withinD [OF going_steps(1) b(3)] wf(2) P1 by (auto simp: goes_on_def)
  have "pending P3 = pending B" using e1 wf wf2 by (simp add: emitting_def)
  then have p: "set_option p \<subseteq> pending P3" using fin(2) by simp
  have fin3: "final P3 f" by (rule final_leave [OF b(4) fin(1) wf2(2) p])
  have fin2: "final P2 f" by (rule final_back [OF e1(2) fin3 wf2(1)])
  have "execute_instr m r (Patchpoint ops) d = Inr (Word v, d')"
    using vals res sc by (simp add: sem_simps word_result_def leaves_with_def del: map_append)
  note 2 = create_step [OF b(2) [unfolded P1] wf(2,1) fin2 this]
  let ?r2 = "define_result (next_ident B) (Word v) r"
  have "execute_instr m ?r2 (Cast k) d' = Inr (Word v, d')" using 2(2) by (simp add: sem_simps holds_def)
  note 3 = create_step [OF b(3) ip(1) wf2(1) fin3 this]
  have "reaches m f (point P3 (define_result (next_ident P2) (Word v) ?r2)) d' (Returned v) d'"
    by (rule leave_step [OF b(4) ip(2) wf2(2) fin(1) p]) (use 3(2) in \<open>simp add: sem_simps word_operand_value holds_def\<close>)
  then show ?thesis by (rule reaches_trans [OF 2(1) reaches_trans [OF 3(1)]])
qed

section \<open>The whole call\<close>

lemma call_misses:
  assumes run: "compile_method_call n ob sel as B = Inr (res, B')" and wf: "wf_builder B" "insert_point B \<noteq> None"
    and fin: "final B' f" and loc: "located F B r" and ob: "holds ob (Word w) B r"
    and miss: "misses (type_assumption (call_sites (rt B) n)) w d"
    and D: "compiling B = D" "same_variables (closure_decls (rt B) (decl_node D)) (closure_decls d (decl_node D))"
    and res: "leaves_with m F D n d v d'"
  shows "reaches m f (point B r) d (Returned v) d'"
proof -
  obtain hit missed B7 g G B8 B9 r1 where s: "wf_builder B7" "insert_point B7 \<noteq> None" "walks B B7" "same_program B B7"
    "guard_test (type_assumption (call_sites (rt B) n)) ob B7 = Inr (g, G)"
    "create_terminator (CondBr g hit missed) G = Inr ((), B8)" "wf_builder G" "insert_point G \<noteq> None" "final G f"
    "final (B8\<lparr>insert_point := Some missed\<rparr>) f" "missed \<in> pending G" "wf_builder (B8\<lparr>insert_point := Some missed\<rparr>)"
    "\<And>r. point (B8\<lparr>insert_point := Some missed\<rparr>) r = At missed 0 r"
    "compile_slow_path n (B8\<lparr>insert_point := Some missed\<rparr>) = Inr ((), B9)"
    "final (B9\<lparr>insert_point := Some hit\<rparr>) f" "hit \<in> pending (B8\<lparr>insert_point := Some missed\<rparr>)"
    and r1: "agree (next_ident B) r r1" "holds ob (Word w) B7 r1"
    "reaches m f (point B r) d (if w = 0 then At missed 0 r1 else point B7 r1) d"
    by (rule call_to_guard [OF run wf fin ob, of m d]) (rule that; assumption)
  let ?M = "B8\<lparr>insert_point := Some missed\<rparr>"
  have "\<exists>r2. reaches m f (point B r) d (At missed 0 r2) d \<and> agree (next_ident B) r r2"
  proof (cases "w = 0")
    case True
    then show ?thesis using r1 by auto
  next
    case False
    obtain r2 x where r2: "reaches m f (point B7 r1) d (point G r2) d" "agree (next_ident B7) r1 r2" "holds g x G r2"
      "branch_on x = Inr False"
      using guard_test_runs [OF s(5,1,2,9) r1(2), of d False m] miss False by (auto simp: misses_def)
    have "take_terminator r2 (Some (CondBr g hit missed)) d = Inr (At missed 0 r2, d)"
      using r2(3,4) by (simp add: sem_simps holds_def)
    then have "reaches m f (point G r2) d (At missed 0 r2) d"
      by (intro leave_step [OF s(6,8,7,10)]) (use s(11) in auto)
    moreover have "agree (next_ident B) r r2"
      by (rule agree_trans [OF r1(1) r2(2)]) (use s(3) in \<open>simp add: walks_def numbers_def\<close>)
    moreover have "reaches m f (point B r) d (point B7 r1) d" using r1(3) False by simp
    ultimately show ?thesis using reaches_trans [OF _ reaches_trans [OF r2(1)]] by blast
  qed
  then obtain r2 where r2: "reaches m f (point B r) d (At missed 0 r2) d" "agree (next_ident B) r r2" by blast
  have same: "same_program B ?M"
    using s(4) withinD [OF guard_test_same s(5)] withinD [OF unchanged_steps(3) s(6)] by (simp add: same_program_def)
  have "walks B7 G" using withinD [OF guard_test_part s(5)] by (simp add: part_def walks_def)
  then have "walks B ?M" using s(3) walks_leave [OF s(6)] by (blast intro: walked.Q_trans)
  then have "located F ?M r2" by (rule located_walked [OF loc _ r2(2)])
  moreover have "compiling ?M = D" "same_variables (closure_decls (rt ?M) (decl_node D)) (closure_decls d (decl_node D))"
    using same D(1,2) by (simp_all add: same_program_def)
  ultimately have "reaches m f (point ?M r2) d (Returned v) d'"
    using slow_path_runs [OF s(14,12) _ s(15) _ _ _ _ res] s(16) by simp
  then show ?thesis using reaches_trans [OF r2(1)] by (simp add: s(13))
qed

section \<open>Properties\<close>

text \<open>
  C2. A failing guard leaves the compiled function for the interpreter, which completes the run: if
  the receiver is null or not of the class that the call site assumed when it was compiled, the code
  of the call takes the slow path, and the function returns the value and ends in the state of the
  interpreted body, provided that it came to the call as the interpreter would have and that its call is
  the only one of the function: the stack map then has one record.
\<close>

theorem failed_guard_completes_run:
  assumes "compile_method_call n ob sel as B = Inr (res, B')" and "wf_builder B" "insert_point B \<noteq> None"
    and "final B' f" and "located F B r" and "holds ob (Word w) B r"
    and "misses (type_assumption (call_sites (rt B) n)) w c"
    and "compiling B = D" and "same_variables (closure_decls (rt B) (decl_node D)) (closure_decls c (decl_node D))"
    and "receiver_cells (frame_loc F) ivs c"
    and "m = machine_at P (Suc k)" and "jit_blind P" and "jit_in call_balanced P"
    and "p_decls P (cur_jit_function c) = Some D" and "D = ClosureDecl (cur_jit_function c) nm ps body"
    and "T = table_on (frame_names D (closure_decls c (cur_jit_function c)) ivs) (frame_loc F)"
    and "c1 = c\<lparr>symbols := T # symbols c\<rparr>"
    and "resumable_all n body" and "\<not> astNodeFound c"
    and "\<forall>j \<in> set (resume_spine_all n body). object (cache c j) = 0"
    and "search_all m n body c1 = Inr ((), c1)" and "reach m n body c0 c1"
    and "interpret_stmts m body c0 = Inr ((), e)"
    and "\<not> recompile (closure_decls e (cur_jit_function e))"
    and "p_records P (cur_jit_function c) = Some (patchpoints f)" and "patchpoints f = 1"
  shows "\<exists>j. execute j m f (point B r) c =
    Inr (object (retVal e), e\<lparr>isReturning := False, symbols := symbols c\<rparr>)"
proof -
  have D: "cur_jit_function c = decl_node D" "m_decls m (decl_node D) = Some D" using assms(11,14,15) by simp_all
  have "resume_frame m T (frame_loc F ''self'') (frame_loc F ''cmd'') n c =
      Inr (object (retVal e), e\<lparr>isReturning := False, symbols := symbols c\<rparr>)"
    by (rule frame_resumed [OF assms(11-15,17-24)])
  then have "leaves_with m F D n c (object (retVal e)) (e\<lparr>isReturning := False, symbols := symbols c\<rparr>)"
    using assms(11,16,25,26) D by (intro leaves_resumed [OF _ D assms(10)]) simp_all
  from call_misses [OF assms(1-9) this] show ?thesis by (rule reaches_execute)
qed

text \<open>
  C23. Several call sites: the function that the trampoline calls handles stack maps with one record only.
  A function with more patchpoints than one returns null when the guard of a call fails, after a
  message, and the rest of its body is never run.
\<close>

theorem several_call_sites_return_null:
  assumes "compile_method_call n ob sel as B = Inr (res, B')" and "wf_builder B" "insert_point B \<noteq> None"
    and "final B' f" and "located F B r" and "holds ob (Word w) B r"
    and "misses (type_assumption (call_sites (rt B) n)) w c"
    and "compiling B = D" and "same_variables (closure_decls (rt B) (decl_node D)) (closure_decls c (decl_node D))"
    and "m_records m (cur_jit_function c) = Some (patchpoints f)" and "patchpoints f \<noteq> 1"
  shows "\<exists>j. execute j m f (point B r) c = Inr (0,
    c\<lparr>console := console c @ [Diagnostic ''More than 1 record in this stackmap! UNIMPLIMENTED.'']\<rparr>)"
  by (rule reaches_execute [OF call_misses [OF assms(1-9) leaves_refused [OF assms(10,11)]]])

text \<open>A run that faults does so with enough fuel.\<close>

lemma reaches_fault: "reaches m f cfg d cfg' d' \<Longrightarrow> cfg' = At b i r \<Longrightarrow> Generated_Code.step m f b i r d' = Inl e \<Longrightarrow>
    \<exists>k. execute k m f cfg d = Inl e"
proof (induction rule: reaches.induct)
  case (here cfg d)
  then show ?case by (intro exI [of _ "Suc 0"]) (simp add: sem_simps)
next
  case (step b' i' r' d cfg d' cfg' d'')
  then obtain k where "execute k m f cfg d' = Inl e" by blast
  then show ?case using step(1) by (intro exI [of _ "Suc k"]) (simp add: sem_simps)
qed

text \<open>
  C15. The guard takes every receiver for an address unless the call site assumed small integers: a
  small integer as the receiver is dereferenced to read its class, which faults, where the
  interpreter calls the method of the small integer.
\<close>

theorem guard_dereferences_integer:
  assumes "compile_method_call n ob sel as B = Inr (res, B')" and "wf_builder B" and "insert_point B \<noteq> None"
    and "final B' f" and "holds ob (Word w) B r"
    and "type_assumption (call_sites (rt B) n) \<noteq> SmallIntClass" and "isInteger w" and "mem d w = None"
  shows "\<exists>k. execute k m f (point B r) d = Inl BadPointer"
proof -
  obtain hit missed B7 g G B8 r1 where s: "wf_builder B7" "insert_point B7 \<noteq> None"
    "guard_test (type_assumption (call_sites (rt B) n)) ob B7 = Inr (g, G)" "final G f"
    and r1: "holds ob (Word w) B7 r1" "reaches m f (point B r) d (if w = 0 then At missed 0 r1 else point B7 r1) d"
    by (rule call_to_guard [OF assms(1-5), of m d]) (rule that; assumption)
  have w: "w \<noteq> 0" using assms(7) by (auto simp: isInteger_def)
  obtain k B1 where b: "create (IsaPtr ob) B7 = Inr (k, B1)"
    "bind (create (Load k)) (\<lambda>c. create (ICmp CmpEq (Const (Word (type_assumption (call_sites (rt B) n)))) c)) B1 = Inr (g, G)"
    using s(3) assms(6) unfolding guard_test_def by (auto elim: bind_InrE)
  obtain k' B2 where b2: "create (Load k) B1 = Inr (k', B2)"
    "create (ICmp CmpEq (Const (Word (type_assumption (call_sites (rt B) n)))) k') B2 = Inr (g, G)"
    using b(2) by (rule bind_InrE)
  have p: "part B7 B1" "part B1 B2" "part B2 G" using withinD [OF part_steps(1)] b(1) b2 by blast+
  have wfs: "wf_builder B1" "wf_builder B2" "insert_point B1 \<noteq> None"
    using p s(1,2) by (auto simp: part_def intro: emitting_wf)
  have fin2: "final B2 f" using p(3) s(4) wfs(2) by (auto simp: part_def intro: final_back)
  have fin1: "final B1 f" using p(2) fin2 wfs(1) by (auto simp: part_def intro: final_back)
  have "execute_instr m r1 (IsaPtr ob) d = Inr (Ptr (IsaField w), d)"
    using r1(1) by (simp add: sem_simps word_operand_value holds_def)
  note 1 = create_step [OF b(1) s(2,1) fin1 this]
  let ?r = "define_result (next_ident B7) (Ptr (IsaField w)) r1"
  obtain l where l: "insert_point B1 = Some l" using wfs(3) by auto
  note pos = create_position [OF b2(1) l wfs(1) fin2]
  have "execute_instr m ?r (Load k) d = Inl BadPointer"
    using 1(2) assms(8) w by (simp add: sem_simps place_operand_def holds_def isa_def block_at_def)
  then have "Generated_Code.step m f l (length (instrs (function_blocks B1 ! l))) ?r d = Inl BadPointer"
    using pos by (simp add: Generated_Code.step_def sem_simps)
  moreover have "reaches m f (point B r) d (At l (length (instrs (function_blocks B1 ! l))) ?r) d"
    using r1(2) w reaches_trans [OF _ 1(1)] by (simp add: point_def [of B1] l Let_def)
  ultimately show ?thesis by (blast intro: reaches_fault)
qed

section \<open>The call of \<open>print\<close>\<close>

definition printing_decl :: cdecl where
  "printing_decl = ClosureDecl 0x5000 ''f'' [''x''] printing_body"

text \<open>The builder at the call, with the storage of the parameter.\<close>

definition printing_builder :: builder where
  "printing_builder = (new_builder printing_decl compiled_context)\<lparr>csymbols := [''x'' \<mapsto> Const (Ptr (Cell (0x1000, 0)))]\<rparr>"

definition printing_function :: frame where
  "printing_function = \<lparr>table = [''x'' \<mapsto> (0x1000, 0)], syms = csymbols printing_builder, base_ident = 0,
     owner = 0x5000, linked = compiled_context, known = (\<lambda>_. 0), inner = {}, warm = {}, may_call = False\<rparr>"

lemma printing_call:
  "\<exists>res B'. compile_method_call 0x5020 (Const (Word w)) (Const (Word 1)) [] printing_builder = Inr (res, B') \<and>
     patchpoints (function_blocks B') = 1"
  by (simp add: patchpoints_def compile_method_call_def printing_builder_def new_builder_def sem_simps compile_guard_def
      compile_slow_path_def compile_fast_path_def patchpoint_operands_def on_runtime_def create_def append_instr_def
      create_block_def create_terminator_def empty_block_def getAsObject_def create_store_def reset_jit_function_def
      printing_decl_def compiled_context_def resumed_context_def initial_context_def fresh_decl_def fresh_site_def)

lemma printing_calls:
  "\<exists>res B' res' B''. compile_method_call 0x5020 (Const (Word 0)) (Const (Word 1)) [] printing_builder = Inr (res, B') \<and>
     compile_method_call 0x5028 (Const (Word 0)) (Const (Word 1)) [] B' = Inr (res', B'') \<and> patchpoints (function_blocks B'') = 2"
  by (simp add: patchpoints_def compile_method_call_def printing_builder_def new_builder_def sem_simps compile_guard_def
      compile_slow_path_def compile_fast_path_def patchpoint_operands_def on_runtime_def create_def append_instr_def
      create_block_def create_terminator_def empty_block_def getAsObject_def create_store_def reset_jit_function_def
      printing_decl_def compiled_context_def resumed_context_def initial_context_def fresh_decl_def fresh_site_def)

lemma printing_located:
  "wf_builder printing_builder" "insert_point printing_builder \<noteq> None"
  "located printing_function printing_builder r" "compiling printing_builder = printing_decl"
  "rt printing_builder = compiled_context" "point printing_builder r = At 0 0 r"
  by (auto simp: wf_builder_def located_def var_at_def printing_function_def printing_builder_def new_builder_def point_def printing_decl_def)

lemma final_same: "final B (function_blocks B)"
  by (simp add: final_def)

lemma failed_guard_completes_run_witness:
  "\<exists>res B' k e. compile_method_call 0x5020 (Const (Word 0)) (Const (Word 1)) [] printing_builder = Inr (res, B') \<and>
     execute k (machine_at (resumed_program printing_body) 1) (function_blocks B')
       (At 0 0 \<lparr>arguments = [], registers = Map.empty\<rparr>) compiled_context = Inr (literalObject 5, e) \<and>
     console e = [PrintInt Stdout 5]"
proof -
  let ?m = "machine_at (resumed_program printing_body) (Suc 0)"
    and ?r = "\<lparr>arguments = [], registers = Map.empty\<rparr> :: activation"
  obtain res B' where b: "compile_method_call 0x5020 (Const (Word 0)) (Const (Word 1)) [] printing_builder = Inr (res, B')"
    "patchpoints (function_blocks B') = 1"
    using printing_call by blast
  obtain e where e: "interpret_stmts ?m printing_body resumed_context = Inr ((), e)"
    "console e = [PrintInt Stdout 5]" "retVal e = \<lparr>holder = 0, object = literalObject 5\<rparr>"
    "\<not> recompile (closure_decls e (cur_jit_function e))"
    using printing_run [of printing_body 0] by (elim exE conjE)
  have jit: "jit_in call_balanced (resumed_program printing_body)"
    by (simp add: jit_in_def resumed_program_def interpreted_program_def call_balance.within_leaf)
  have c: "cur_jit_function compiled_context = 0x5000" "closure_decls compiled_context 0x5000 = fresh_decl"
    "\<not> astNodeFound compiled_context" "cache compiled_context = (\<lambda>_. no_value)"
    using resumed_setting(4,6) by (simp_all add: compiled_context_def resumed_context_def initial_context_def)
  have T: "table_on (frame_names printing_decl (closure_decls compiled_context (cur_jit_function compiled_context)) [])
      (frame_loc printing_function) = [''self'' \<mapsto> null_loc, ''cmd'' \<mapsto> null_loc, ''x'' \<mapsto> (0x1000, 0)]"
    by (auto simp: c table_on_def frame_names_def frame_loc_def printing_function_def printing_decl_def fresh_decl_def)
  have frame: "resumed_context = compiled_context\<lparr>symbols :=
      [''self'' \<mapsto> null_loc, ''cmd'' \<mapsto> null_loc, ''x'' \<mapsto> (0x1000, 0)] # symbols compiled_context\<rparr>"
    by (simp add: compiled_context_def resumed_context_def)
  have cells: "receiver_cells (frame_loc printing_function) [] compiled_context"
    by (simp add: receiver_cells_def is_method_def frame_loc_def printing_function_def)
  have decl: "p_decls (resumed_program printing_body) (cur_jit_function compiled_context) = Some printing_decl"
    "printing_decl = ClosureDecl (cur_jit_function compiled_context) ''f'' [''x''] printing_body"
    by (simp_all add: c printing_decl_def resumed_program_def)
  have records: "p_records (resumed_program printing_body) (cur_jit_function compiled_context) = Some (patchpoints (function_blocks B'))"
    by (simp add: c b(2) resumed_program_def)
  have cold: "\<forall>j \<in> set (resume_spine_all 0x5020 printing_body). object (cache compiled_context j) = 0"
    by (simp add: c no_value_def)
  have miss: "holds (Const (Word 0)) (Word 0) printing_builder ?r"
    "misses (type_assumption (call_sites (rt printing_builder) 0x5020)) 0 compiled_context"
    "same_variables (closure_decls (rt printing_builder) (decl_node printing_decl)) (closure_decls compiled_context (decl_node printing_decl))"
    by (simp_all add: misses_def printing_located(5) same_variables_def)
  have "\<exists>k. execute k ?m (function_blocks B') (point printing_builder ?r) compiled_context =
      Inr (object (retVal e), e\<lparr>isReturning := False, symbols := symbols compiled_context\<rparr>)"
    by (rule failed_guard_completes_run [OF b(1) printing_located(1,2) final_same printing_located(3) miss(1,2) printing_located(4) miss(3) cells
          HOL.refl resumed_setting(1) jit decl T [symmetric] frame printing_resumable c(3) cold printing_search printing_reach e(1,4) records b(2)])
  then obtain k where "execute k ?m (function_blocks B') (At 0 0 ?r) compiled_context =
      Inr (literalObject 5, e\<lparr>isReturning := False, symbols := symbols compiled_context\<rparr>)"
    by (auto simp: e(3) printing_located(6))
  with b e(2) show ?thesis
    by (intro exI [of _ res] exI [of _ B'] exI [of _ k] exI [of _ "e\<lparr>isReturning := False, symbols := symbols compiled_context\<rparr>"]) simp
qed

text \<open>The same call twice in a row: the guard of the first one fails.\<close>

lemma several_call_sites_return_null_witness:
  "\<exists>res B' res' B'' k. compile_method_call 0x5020 (Const (Word 0)) (Const (Word 1)) [] printing_builder = Inr (res, B') \<and>
     compile_method_call 0x5028 (Const (Word 0)) (Const (Word 1)) [] B' = Inr (res', B'') \<and>
     execute k (machine_at (resumed_program printing_body\<lparr>p_records := [0x5000 \<mapsto> 2]\<rparr>) 1) (function_blocks B'')
       (At 0 0 \<lparr>arguments = [], registers = Map.empty\<rparr>) compiled_context =
     Inr (0, compiled_context\<lparr>console := [Diagnostic ''More than 1 record in this stackmap! UNIMPLIMENTED.'']\<rparr>)"
proof -
  let ?m = "machine_at (resumed_program printing_body\<lparr>p_records := [0x5000 \<mapsto> 2]\<rparr>) 1"
  obtain res B' res' B'' where b: "compile_method_call 0x5020 (Const (Word 0)) (Const (Word 1)) [] printing_builder = Inr (res, B')"
    "compile_method_call 0x5028 (Const (Word 0)) (Const (Word 1)) [] B' = Inr (res', B'')" "patchpoints (function_blocks B'') = 2"
    using printing_calls by blast
  have "final B' (function_blocks B'')"
    by (rule final_back [OF withinD [OF emits_method_call b(2)] final_same emitting_wf [OF withinD [OF emits_method_call b(1)] printing_located(1)]])
  moreover have "misses (type_assumption (call_sites (rt printing_builder) 0x5020)) 0 compiled_context" by (simp add: misses_def)
  moreover have "same_variables (closure_decls (rt printing_builder) (decl_node printing_decl)) (closure_decls compiled_context (decl_node printing_decl))"
    by (simp add: printing_located(5) same_variables_def)
  moreover have "m_records ?m (cur_jit_function compiled_context) = Some (patchpoints (function_blocks B''))"
    by (simp add: b(3) compiled_context_def resumed_context_def)
  ultimately have "\<exists>k. execute k ?m (function_blocks B'') (point printing_builder \<lparr>arguments = [], registers = Map.empty\<rparr>) compiled_context =
      Inr (0, compiled_context\<lparr>console := console compiled_context @ [Diagnostic ''More than 1 record in this stackmap! UNIMPLIMENTED.'']\<rparr>)"
    by (intro several_call_sites_return_null [OF b(1) printing_located(1,2) _ printing_located(3) _ _ printing_located(4)])
      (simp_all add: b(3))
  moreover have "console compiled_context = []" by (simp add: compiled_context_def resumed_context_def initial_context_def)
  ultimately show ?thesis using b(1,2) by (auto simp: printing_located(6))
qed

lemma guard_dereferences_integer_witness:
  "\<exists>res B' k. compile_method_call 0x5020 (Const (Word (literalObject 5))) (Const (Word 1)) [] printing_builder = Inr (res, B') \<and>
     execute k (machine_at (resumed_program printing_body) 1) (function_blocks B')
       (At 0 0 \<lparr>arguments = [], registers = Map.empty\<rparr>) compiled_context = Inl BadPointer"
proof -
  obtain res B' where b: "compile_method_call 0x5020 (Const (Word (literalObject 5))) (Const (Word 1)) [] printing_builder = Inr (res, B')"
    using printing_call by blast
  have "type_assumption (call_sites (rt printing_builder) 0x5020) \<noteq> SmallIntClass" "isInteger (literalObject 5)"
    "mem compiled_context (literalObject 5) = None"
    by (simp_all add: printing_located(5) compiled_context_def resumed_context_def initial_context_def fresh_site_def
        isInteger_def literalObject_def)
  from guard_dereferences_integer [OF b printing_located(1,2) final_same _ this]
  have "\<exists>k. execute k (machine_at (resumed_program printing_body) 1) (function_blocks B')
      (point printing_builder \<lparr>arguments = [], registers = Map.empty\<rparr>) compiled_context = Inl BadPointer"
    by simp
  then show ?thesis using b by (auto simp: printing_located(6))
qed

end
