(* ===== verification/Staying.thy ===== *)
theory Staying
  imports Leaving
begin

text \<open>
  The way through a compiled call: a guard that holds calls the method that the call site had cached
  when the function was compiled, with the effect that the interpreter's call has at that site.
\<close>

section \<open>Properties\<close>

text \<open>
  C8. A compiled call whose guard holds is the interpreter's call: if the receiver is of the class
  that the call site assumed when the function was compiled, and the site still caches the method it
  cached then, the code reaches the instructions behind the call with the value and in the state that
  the interpreter's call gives, and keeps all values computed before.
\<close>

theorem passing_guard_calls:
  assumes "compile_method_call n ob (Const (Word (ucast sel))) as B = Inr (res, B')" and "wf_builder B" "insert_point B \<noteq> None"
    and "final B' f" and "holds ob (Word w) B r" and "list_all2 (\<lambda>a v. holds a (Word v) B r) as vs"
    and "hits (type_assumption (call_sites (rt B) n)) w d" and "cachedMethod (call_sites (rt B) n) = Some mp"
    and "type_assumption (call_sites d n) = type_assumption (call_sites (rt B) n)" and "cachedMethod (call_sites d n) = Some mp"
    and "cur_jit_function d = decl_node (compiling B)"
    and "Runtime.lookupSelector name d = Inr (sel, d)"
    and "do_call m n (Some name) (return vs) w d = Inr (v, d')"
  shows "\<exists>r'. reaches m f (point B r) d (point B' r') d' \<and> holds res (Word v) B' r' \<and> agree (next_ident B) r r'"
proof -
  have "w \<noteq> 0" "class_of_receiver w d = Inr (type_assumption (call_sites d n), d)"
    using assms(7,9) by (simp_all add: hits_def)
  then have "seq (set_site n ((call_sites d n)\<lparr>alternative_type_count := 0\<rparr>)) (call_through m mp w sel vs) d = Inr (v, d')"
    using assms(10,12,13) by (simp add: do_call_def call_method_value_def sem_simps site_step_def split: if_splits)
  from call_hits [OF assms(1-8,11) this] show ?thesis by blast
qed

text \<open>
  A compiled call of a closure is the interpreter's call: whenever the interpreter's call gives a
  value, the code reaches the instructions behind the call with this value and in the same state.
\<close>

theorem closure_calls_agree:
  assumes "compile_closure_call ob as B = Inr (res, B')" and "wf_builder B" "insert_point B \<noteq> None" and "final B' f"
    and "holds ob (Word w) B r" and "list_all2 (\<lambda>a v. holds a (Word v) B r) as vs"
    and "cur_jit_function d = decl_node (compiling B)" and "do_call m n None (return vs) w d = Inr (v, d')"
  shows "\<exists>r'. reaches m f (point B r) d (point B' r') d' \<and> holds res (Word v) B' r' \<and> agree (next_ident B) r r'"
proof -
  have "call_closure_value m w vs d = Inr (v, d')"
    using assms(8) by (auto simp: do_call_def sem_simps split: if_splits)
  from closure_call_runs [OF assms(1-7) this] show ?thesis by blast
qed

section \<open>The call of \<open>print\<close>, once more\<close>

text \<open>The call of \<open>print\<close> on 5, compiled after its call site has seen a small integer.\<close>

definition hot_context :: ctx where
  "hot_context = compiled_context\<lparr>call_sites := (call_sites compiled_context)(0x5020 :=
     \<lparr>type_assumption = SmallIntClass, alternative_type = 0, alternative_type_count = 0,
      cachedMethod = Some (MethodSlot (SmallIntClass, 1))\<rparr>)\<rparr>"

lemma passing_guard_calls_witness:
  "\<exists>res B' r' d'. compile_method_call 0x5020 (Const (Word (literalObject 5))) (Const (Word (ucast sel_print))) []
       (printing_builder\<lparr>rt := hot_context\<rparr>) = Inr (res, B') \<and>
     reaches (machine_at (resumed_program printing_body) 1) (function_blocks B')
       (At 0 0 \<lparr>arguments = [], registers = Map.empty\<rparr>) hot_context (point B' r') d' \<and>
     operand_value r' res = Inr (Word 0) \<and> console d' = [PrintInt Stdout 5]"
proof -
  let ?B = "printing_builder\<lparr>rt := hot_context\<rparr>" and ?r = "\<lparr>arguments = [], registers = Map.empty\<rparr> :: activation"
    and ?m = "machine_at (resumed_program printing_body) (Suc 0)"
  have "\<exists>res B'. compile_method_call 0x5020 (Const (Word (literalObject 5))) (Const (Word (ucast sel_print))) [] ?B = Inr (res, B')"
    by (simp add: compile_method_call_def printing_builder_def new_builder_def sem_simps compile_guard_def
      compile_slow_path_def compile_fast_path_def patchpoint_operands_def on_runtime_def create_def append_instr_def
      create_block_def create_terminator_def empty_block_def getAsObject_def create_store_def reset_jit_function_def
      printing_decl_def compiled_context_def resumed_context_def initial_context_def fresh_decl_def fresh_site_def hot_context_def)
  then obtain res B' where b: "compile_method_call 0x5020 (Const (Word (literalObject 5))) (Const (Word (ucast sel_print))) [] ?B
      = Inr (res, B')" by blast
  have B: "wf_builder ?B" "insert_point ?B \<noteq> None" "holds (Const (Word (literalObject 5))) (Word (literalObject 5)) ?B ?r"
    "cur_jit_function hot_context = decl_node (compiling ?B)" "point ?B ?r = At 0 0 ?r" "rt ?B = hot_context"
    using printing_located(1,2,6)
    by (simp_all add: wf_builder_def holds_def printing_builder_def new_builder_def printing_decl_def point_def hot_context_def
        compiled_context_def resumed_context_def)
  have st: "type_assumption (call_sites hot_context 0x5020) = SmallIntClass"
    "cachedMethod (call_sites hot_context 0x5020) = Some (MethodSlot (SmallIntClass, 1))"
    by (simp_all add: hot_context_def)
  have hit: "hits (type_assumption (call_sites (rt ?B) 0x5020)) (literalObject 5) hot_context"
    by (simp add: hits_def st B(6) class_of_receiver_def sem_simps literalObject_def isInteger_def)
  have sel: "Runtime.lookupSelector ''print'' hot_context = Inr (sel_print, hot_context)"
    by (rule print_is_known) (simp_all add: hot_context_def compiled_context_def resumed_context_def)
  have "\<exists>d'. do_call ?m 0x5020 (Some ''print'') (return []) (literalObject 5) hot_context = Inr (0, d') \<and> console d' = [PrintInt Stdout 5]"
    by (simp add: run_simps sel site_step_def st)
      (simp add: hot_context_def compiled_context_def resumed_context_def initial_context_def run_simps
        load_method_ptr_def method_at_def static_classes_def static_SmallIntClass_def root_class_def
        NumberMethods_def native_method_def NumberPrint_def getInteger_def)
  then obtain d' where d': "do_call ?m 0x5020 (Some ''print'') (return []) (literalObject 5) hot_context = Inr (0, d')"
    "console d' = [PrintInt Stdout 5]" by blast
  have "\<exists>r'. reaches ?m (function_blocks B') (point ?B ?r) hot_context (point B' r') d' \<and> holds res (Word 0) B' r' \<and>
      agree (next_ident ?B) ?r r'"
    by (rule passing_guard_calls [OF b B(1,2) final_same B(3) list_all2_Nil [THEN iffD2] hit _ _ st(2) B(4) sel d'(1)])
      (simp_all add: st B(6))
  then obtain r' where "reaches ?m (function_blocks B') (At 0 0 ?r) hot_context (point B' r') d'" "holds res (Word 0) B' r'"
    by (auto simp: B(5))
  then show ?thesis using b d'(2) by (intro exI [of _ res] exI [of _ B'] exI [of _ r'] exI [of _ d']) (simp add: holds_def)
qed


text \<open>The call of a closure whose function is compiled and returns its argument.\<close>

definition closure_context :: ctx where
  "closure_context = compiled_context\<lparr>mem := (mem compiled_context)(0x2000 \<mapsto> CloBlock \<lparr>parameters = literalObject 1,
     invoke = Some (JitCode 0), cl_AST = 0x5000, boundVars = []\<rparr>)\<rparr>"

definition returning_program :: program where
  "returning_program = interpreted_program\<lparr>p_jit_closure := (\<lambda>m k C vs. return (hd vs))\<rparr>"

lemma closure_calls_agree_witness:
  "\<exists>res B' r'. compile_closure_call (Const (Word 0x2000)) [Const (Word (literalObject 7))] printing_builder = Inr (res, B') \<and>
     reaches (machine_at returning_program 1) (function_blocks B')
       (At 0 0 \<lparr>arguments = [], registers = Map.empty\<rparr>) closure_context (point B' r') closure_context \<and>
     operand_value r' res = Inr (Word (literalObject 7))"
proof -
  let ?r = "\<lparr>arguments = [], registers = Map.empty\<rparr> :: activation" and ?m = "machine_at returning_program (Suc 0)"
  have "\<exists>res B'. compile_closure_call (Const (Word 0x2000)) [Const (Word (literalObject 7))] printing_builder = Inr (res, B')"
    by (simp add: compile_closure_call_def printing_builder_def new_builder_def sem_simps create_def append_instr_def
      empty_block_def reset_jit_function_def)
  then obtain res B' where b: "compile_closure_call (Const (Word 0x2000)) [Const (Word (literalObject 7))] printing_builder
      = Inr (res, B')" by blast
  have B: "holds (Const (Word 0x2000)) (Word 0x2000) printing_builder ?r"
    "list_all2 (\<lambda>a v. holds a (Word v) printing_builder ?r) [Const (Word (literalObject 7))] [literalObject 7]"
    "cur_jit_function closure_context = decl_node (compiling printing_builder)"
    by (simp_all add: holds_def printing_builder_def new_builder_def printing_decl_def closure_context_def
        compiled_context_def resumed_context_def)
  have "do_call ?m 0x5020 None (return [literalObject 7]) 0x2000 closure_context = Inr (literalObject 7, closure_context)"
    by (simp add: run_simps closure_context_def returning_program_def)
  from closure_calls_agree [OF b printing_located(1,2) final_same B this]
  obtain r' where "reaches ?m (function_blocks B') (At 0 0 ?r) closure_context (point B' r') closure_context"
    "holds res (Word (literalObject 7)) B' r'"
    by (auto simp: printing_located(6))
  then show ?thesis using b by (intro exI [of _ res] exI [of _ B'] exI [of _ r']) (simp add: holds_def)
qed

end
