(* ===== verification/Caller_Blind.thy ===== *)
theory Caller_Blind
  imports Blindness
begin

text \<open>
  What a call sees of its callers: nothing.  A function looks up its variables in the symbol table on
  top of the stack, which it has pushed itself, or among the globals; the tables below belong to its
  callers, and the whole machine is blind to them.
\<close>

abbreviation below :: "symbol_table list \<Rightarrow> ctx \<Rightarrow> ctx" where
  "below S c \<equiv> c\<lparr>symbols := symbols c @ S\<rparr>"

abbreviation stack_depth :: "ctx \<Rightarrow> nat" where
  "stack_depth c \<equiv> length (symbols c)"

interpretation callers: hidden_from_variables below stack_depth 1
  by unfold_locales (auto simp: blind_to_def sem_simps lookup_in_def neq_Nil_conv Suc_le_length_iff split: list.splits)

text \<open>Between the push and the pop of a frame its own table is on top of the stack.\<close>

lemma framed_blind:
  assumes "blind_to below stack_depth 1 fr" and "calls_blind_to below stack_depth 0 m"
  shows "blind_to below stack_depth 0 (seq (seq (pushSymbols t) fr) (run_body m body))"
proof -
  let ?inner = "seq (interpret_stmts m body) (bind (gets (\<lambda>c. object (retVal c))) (\<lambda>v.
      seq (set_retVal (m_env m) 0) (seq (set_returning False) (return v))))"
  have split: "seq (seq (pushSymbols t) fr) (run_body m body) = seq (pushSymbols t) (bind (seq fr ?inner) (\<lambda>v. seq popSymbols (return v)))"
    by (simp add: run_body_def seq_def bind_assoc)
  have "calls_blind_to below stack_depth 1 m" by (rule calls_blind_deeper [OF assms(2)]) simp
  then have inner: "blind_to below stack_depth 1 (seq fr ?inner)"
    by (intro blind_seq [OF assms(1)] callers.body_blind)
  show ?thesis
    unfolding blind_to_def split
  proof (intro allI impI conjI)
    fix c :: ctx and S :: "symbol_table list"
    let ?c = "c\<lparr>symbols := t # symbols c\<rparr>"
    have "seq fr ?inner (below S ?c) = lift_result (below S) (seq fr ?inner ?c)" by (rule blind_toD(1) [OF inner]) simp
    moreover have "seq fr ?inner ?c = Inr (a, c1) \<Longrightarrow> length (symbols c1) = Suc (length (symbols c))" for a c1
      using blind_toD(2) [OF inner, of ?c a c1] by simp
    ultimately show "seq (pushSymbols t) (bind (seq fr ?inner) (\<lambda>v. seq popSymbols (return v))) (below S c) =
        lift_result (below S) (seq (pushSymbols t) (bind (seq fr ?inner) (\<lambda>v. seq popSymbols (return v))) c)"
      by (cases "seq fr ?inner ?c") (auto simp: sem_simps tl_append split: list.split)
  next
    fix c :: ctx and a c'
    assume "seq (pushSymbols t) (bind (seq fr ?inner) (\<lambda>v. seq popSymbols (return v))) c = Inr (a, c')"
    then obtain c1 where "seq fr ?inner (c\<lparr>symbols := t # symbols c\<rparr>) = Inr (a, c1)" "symbols c' = tl (symbols c1)"
      by (auto simp: sem_simps split: sum.splits if_splits)
    then show "length (symbols c') = length (symbols c)"
      using blind_toD(2) [OF inner, of "c\<lparr>symbols := t # symbols c\<rparr>" a c1] by simp
  qed
qed

interpretation callers_calls: hidden_from_calls below stack_depth
proof unfold_locales
  fix m E D ls cls self sel args i C body
  assume "calls_blind_to below stack_depth 0 m"
  note framed = framed_blind [OF _ this]
  show "blind_to below stack_depth 0 (seq (method_frame E D ls cls self sel args) (run_body m body))"
    unfolding method_frame_def by (rule framed [OF callers.frame_rest_blind(2)])
  show "blind_to below stack_depth 0 (seq (closure_frame E D i C args) (run_body m body))"
    unfolding closure_frame_def by (rule framed [OF callers.frame_rest_blind(3)])
qed

text \<open>A blind call gives the same result on any stack, which it leaves as it is.\<close>

lemma blind_call:
  assumes "blind_to below stack_depth 0 r"
  shows "r (c\<lparr>symbols := S\<rparr>) = lift_result (\<lambda>d. d\<lparr>symbols := S\<rparr>) (r c)"
proof -
  let ?c = "c\<lparr>symbols := []\<rparr>"
  have on: "r (?c\<lparr>symbols := T\<rparr>) = lift_result (\<lambda>d. d\<lparr>symbols := T\<rparr>) (r ?c)" for T
  proof -
    have "r (below T ?c) = lift_result (below T) (r ?c)" by (rule blind_toD(1) [OF assms]) simp
    also have "\<dots> = lift_result (\<lambda>d. d\<lparr>symbols := T\<rparr>) (r ?c)"
      using blind_toD(2) [OF assms, of ?c] by (cases "r ?c") (auto simp: lift_result_def)
    finally show ?thesis by simp
  qed
  have "r c = lift_result (\<lambda>d. d\<lparr>symbols := symbols c\<rparr>) (r ?c)" using on [of "symbols c"] by simp
  then show ?thesis using on [of S] by (cases "r ?c") (auto simp: lift_result_def)
qed

end
