(* ===== verification/Native_Effects.thy ===== *)
theory Native_Effects
  imports Call_Discipline
begin

text \<open>
  The effects of the built-in methods: they change the heap, write to the console and read from the
  input, and touch nothing else of the context.
\<close>

definition io_only :: "ctx \<Rightarrow> ctx \<Rightarrow> bool" where
  "io_only c c' \<longleftrightarrow> (\<exists>M k i. c' = c\<lparr>mem := M, console := k, input := i\<rparr>)"

interpretation io: effect io_only
proof unfold_locales
  fix c d e :: ctx
  show "io_only c c" unfolding io_only_def by (intro exI [of _ "mem c"] exI [of _ "console c"] exI [of _ "input c"]) simp
  show "io_only c d \<Longrightarrow> io_only d e \<Longrightarrow> io_only c e" by (auto simp: io_only_def) blast
qed

lemma io_fields: "io_only c (c\<lparr>mem := M\<rparr>)" "io_only c (c\<lparr>console := k\<rparr>)" "io_only c (c\<lparr>input := i\<rparr>)"
proof -
  have "c\<lparr>mem := M\<rparr> = c\<lparr>mem := M, console := console c, input := input c\<rparr>"
    "c\<lparr>console := k\<rparr> = c\<lparr>mem := mem c, console := k, input := input c\<rparr>"
    "c\<lparr>input := i\<rparr> = c\<lparr>mem := mem c, console := console c, input := i\<rparr>" by simp_all
  then show "io_only c (c\<lparr>mem := M\<rparr>)" "io_only c (c\<lparr>console := k\<rparr>)" "io_only c (c\<lparr>input := i\<rparr>)"
    unfolding io_only_def by blast+
qed

named_theorems io_steps \<open>operations within \<open>io_only\<close>\<close>

lemma heap_io [io_steps]:
  "within io_only (block_at a)" "within io_only (set_block a b)" "within io_only (load p)"
  "within io_only (store p v)" "within io_only (alloc E b)" "within io_only (isa a)" "within io_only (emit ev)"
proof -
  show b: "within io_only (block_at a)" for a
    by (simp add: within_def sem_simps io.refl split: option.splits)
  show s: "within io_only (set_block a b)" for a b
    by (simp add: within_def sem_simps io_fields)
  show "within io_only (load p)" "within io_only (isa a)"
    by (auto simp: within_def sem_simps load_def isa_def io.refl split: option.splits block.splits if_splits)
  show "within io_only (store p v)"
    unfolding store_def by (intro io.within_intros b s)
  show "within io_only (alloc E b)"
    by (auto simp: within_def sem_simps io_fields split: option.splits)
  show "within io_only (emit ev)"
    by (auto simp: within_def sem_simps io_fields)
qed

lemma string_io [io_steps]:
  "within io_only (as_string a)" "within io_only (string_bytes st)" "within io_only (is_string_arg ob)"
  "within io_only (new_string E bs)" "within io_only (fd_of f)"
  unfolding as_string_def string_bytes_def is_string_arg_def new_string_def fd_of_def
  by (intro io.within_intros io_steps | simp split: block.split list.split add: io.within_leaf)+

lemma array_io [io_steps]:
  "within io_only (index_buffer buf i)" "within io_only (copied_prefix buf len)"
  "within io_only (grow_buffer E arr i n)" "within io_only (arg args j)"
  unfolding index_buffer_def copied_prefix_def grow_buffer_def Let_def arg_def
  by (intro io.within_intros io_steps)+

lemma primitive_io [io_steps]:
  "within io_only (FileOpen E f sel a)" "within io_only (FileClose f sel)"
  "within io_only (FileReadLine E f sel)" "within io_only (FileWrite f sel a)"
  "within io_only (StringLength f sel)" "within io_only (StringCharAt f sel a)"
  "within io_only (StringDump f sel)" "within io_only (StringPrint f sel)"
  "within io_only (StringAdd E f sel a)" "within io_only (StringCmp E f sel a)"
  "within io_only (NumberDump f sel)" "within io_only (NumberPrint f sel)"
  "within io_only (ArrayLength f sel)" "within io_only (ArrayAt f sel a)"
  "within io_only (ArrayAtPut E f sel a v)"
  unfolding FileOpen_def FileClose_def FileReadLine_def FileWrite_def StringLength_def
    StringCharAt_def StringDump_def StringPrint_def StringAdd_def StringCmp_def NumberDump_def
    NumberPrint_def ArrayLength_def ArrayAt_def ArrayAtPut_def Let_def
  by (intro io.within_intros io_steps io.within_modify io_fields)+

lemma native_io: "within io_only (call_native E b ob sel args)"
  by (cases b) (simp_all only: call_native.simps, (intro io.within_bind io_steps)+)

end
