(* ===== verification/Whole_Functions.thy ===== *)
theory Whole_Functions
  imports Staying Caller_Blind Native_Effects
begin

text \<open>
  Compiled functions against interpreted ones, calls included.  A machine that is blind to the tables
  of its callers, and that keeps what the constants of the code rest on, meets what the simulation
  asks of the functions that are called.
\<close>

section \<open>Calls of a blind machine\<close>

text \<open>
  A call that cannot see its callers does the same for the interpreted and the compiled caller, as long
  as it leaves the constants of the caller's code alone and the cached constants of the caller are
  already cached.
\<close>

definition keeps_constants :: "frame \<Rightarrow> ctx \<Rightarrow> ctx \<Rightarrow> bool" where
  "keeps_constants F c c' \<longleftrightarrow> (constants_hold F c \<longrightarrow> constants_hold F c')"

lemma blind_respects:
  assumes "blind_to below stack_depth 0 r" and "within (keeps_constants F) r" and "inner F \<subseteq> warm F"
  shows "call_respects F r"
  unfolding call_respects_def
proof (intro allI impI)
  fix t c d v c'
  assume a: "corr (F\<lparr>table := t\<rparr>) c d \<and> r c = Inr (v, c')"
  obtain S where S: "symbols c = t # S" "d = c\<lparr>symbols := S, cache := cache d\<rparr>"
    using a by (auto simp: corr_def)
  have "cache d = cache c" using a assms(3) by (auto simp: corr_def fun_eq_iff)
  then have d: "d = c\<lparr>symbols := S\<rparr>" using S(2) by simp
  have "r d = Inr (v, c'\<lparr>symbols := S\<rparr>)" using blind_call [OF assms(1), where c = c and S = S] a d by simp
  moreover have "symbols c' = t # S"
  proof -
    have "c' = c'\<lparr>symbols := symbols c\<rparr>"
      using blind_call [OF assms(1), where c = c and S = "symbols c"] a by simp
    then have "symbols c' = symbols (c'\<lparr>symbols := symbols c\<rparr>)" by (rule arg_cong)
    then show ?thesis using S(1) by simp
  qed
  moreover have "constants_hold F c" using corr_constants(9) [of "F\<lparr>table := t\<rparr>" c d] a by (simp add: constants_hold_def known_ok_def)
  then have "constants_hold F c'" using withinD [OF assms(2) conjunct2 [OF a]] by (simp add: keeps_constants_def)
  then have "constants_hold F (resumed_by F c')"
    by (rule constants_hold_cong) (simp_all add: resumed_by_def site_kept_def)
  ultimately show "\<exists>d'. r d = Inr (v, d') \<and> corr (F\<lparr>table := t\<rparr>) (resumed_by F c') (resumed_by F d')"
    by (intro exI [of _ "c'\<lparr>symbols := S\<rparr>"])
      (simp add: corr_def resumed_by_def constants_hold_def known_ok_def)
qed

lemma blind_machine_respects:
  assumes "calls_blind_to below stack_depth 0 m" and "calls_in (keeps_constants F) m" and "inner F \<subseteq> warm F"
  shows "calls_respect m F"
  using assms by (auto simp: calls_respect_def calls_blind_to_def calls_in_def intro: blind_respects)

text \<open>The built-in methods keep the constants of every function.\<close>

lemma io_constants: "io_only c c' \<Longrightarrow> keeps_constants F c c'"
  unfolding keeps_constants_def
proof
  assume "io_only c c'" and c: "constants_hold F c"
  then obtain M k i where "c' = c\<lparr>mem := M, console := k, input := i\<rparr>" by (auto simp: io_only_def)
  then show "constants_hold F c'" by (intro constants_hold_cong [OF c]) (simp_all add: site_kept_def)
qed

interpretation constant_keeping: effect "keeps_constants F" for F
  by unfold_locales (auto simp: keeps_constants_def)

lemma native_constants: "within (keeps_constants F) (call_native E b ob sel args)"
  by (rule within_weaken [OF native_io io_constants])

section \<open>Properties\<close>

text \<open>
  C9. A call cannot tell who calls it: with other symbol tables below its own it faults in the same
  way or returns the same value in the same state, and it leaves these tables as they are.
\<close>

theorem call_ignores_callers:
  assumes "jit_blind_to below stack_depth P"
  shows "m_method (machine_at P n) k ob sel vs (c\<lparr>symbols := S\<rparr>) =
      lift_result (\<lambda>d. d\<lparr>symbols := S\<rparr>) (m_method (machine_at P n) k ob sel vs c) \<and>
    m_closure (machine_at P n) k C vs (c\<lparr>symbols := S\<rparr>) =
      lift_result (\<lambda>d. d\<lparr>symbols := S\<rparr>) (m_closure (machine_at P n) k C vs c)"
  using callers_calls.machine_blind [OF assms, of n] by (simp_all add: calls_blind_to_def blind_call)

text \<open>
  C3. A compiled closure against its interpretation.  Suppose that the interpreter runs the body to its
  end, that the body is made of what \<open>fits_stmts\<close> covers (everything but literals of closures, class
  declarations and declarations without an initial value), and that the run of the code comes to no
  instruction at which compiled and interpreted code part: no patchpoint, no comparison of two words that
  differ in their tags only, no operator on something else than two small integers, no guard that takes
  one kind of object for another, no call through a cached method that is not there.  Then the code ends,
  returns the interpreter's value, and leaves the interpreter's state, except that the values of constants
  need not be cached at the same nodes of the body.
\<close>

theorem compiled_closure_correct:
  assumes "compileClosure (m_env m) D c0 = Inr (f, c1)" and "machine_fits m F"
    and "fits_stmts F (decl_body D)" and "linked F = c1" and "owner F = decl_node D" and "constants_hold F d"
    and "length ws = length (decl_params D)" and "C \<noteq> 0"
    and "bind (closure_entry (m_env m) D (closure_decls c0 (decl_node D)) C ws)
      (\<lambda>tab. seq (pushSymbols tab) (run_body m (decl_body D))) d = Inr (v, e)"
    and "\<not> departs m f (At 0 0 \<lparr>arguments = Word C # map Word ws, registers = Map.empty\<rparr>) d"
  shows "\<exists>k d'. run_function k m f (Word C # map Word ws) d = Inr (v, d') \<and> same_but_cache F d' e"
proof -
  obtain tab d1 where en: "closure_entry (m_env m) D (closure_decls c0 (decl_node D)) C ws d = Inr (tab, d1)"
    and body: "seq (pushSymbols tab) (run_body m (decl_body D)) d1 = Inr (v, e)"
    using assms(9) by (rule bind_InrE)
  have alloc: "allocator_ok (m_env m)" using assms(2) by (simp add: machine_fits_def)
  have b: "build_function D (seq (closure_prologue D (closure_decls c0 (decl_node D))) (compile_body (m_env m) D)) c0 = Inr (f, c1)"
    using assms(1) by (simp add: compileClosure_def sem_simps)
  show ?thesis
    using function_runs [OF closure_prologue_runs [OF en alloc assms(7,8)] moving_prologue(2) b assms(2-6)
      entered_entries(1) [OF en] body] assms(10) by blast
qed

text \<open>
  C5. The same, under the same conditions, for a compiled method: its entry binds \<open>self\<close>, \<open>cmd\<close>, the
  parameters and locals, and the instance variables of the class that it was compiled for.
\<close>

theorem compiled_method_correct:
  assumes "compileMethod (m_env m) D cls c0 = Inr (f, c1)" and "classes c0 cls = Some k" and "machine_fits m F"
    and "fits_stmts F (decl_body D)" and "linked F = c1" and "owner F = decl_node D" and "constants_hold F d"
    and "length ws = length (decl_params D)" and "ob \<noteq> 0"
    and "bind (method_entry (m_env m) D (closure_decls c0 (decl_node D)) (indexedIVarNames k) ob sel ws)
      (\<lambda>tab. seq (pushSymbols tab) (run_body m (decl_body D))) d = Inr (v, e)"
    and "\<not> departs m f (At 0 0 \<lparr>arguments = Word ob # Word (ucast sel) # map Word ws, registers = Map.empty\<rparr>) d"
  shows "\<exists>k d'. run_function k m f (Word ob # Word (ucast sel) # map Word ws) d = Inr (v, d') \<and> same_but_cache F d' e"
proof -
  let ?info = "closure_decls c0 (decl_node D)"
  obtain tab d1 where en: "method_entry (m_env m) D ?info (indexedIVarNames k) ob sel ws d = Inr (tab, d1)"
    and body: "seq (pushSymbols tab) (run_body m (decl_body D)) d1 = Inr (v, e)"
    using assms(10) by (rule bind_InrE)
  have alloc: "allocator_ok (m_env m)" using assms(3) by (simp add: machine_fits_def)
  have b: "build_function D (seq (method_prologue D ?info (indexedIVarNames k)) (compile_body (m_env m) D)) c0 = Inr (f, c1)"
    using assms(1,2) by (simp add: compileMethod_def class_at_def sem_simps)
  show ?thesis
    using function_runs [OF method_prologue_runs [OF en alloc assms(8,9)] moving_prologue(1) b assms(3-7)
      entered_entries(2) [OF en] body] assms(11) by blast
qed

section \<open>A function that prints its argument\<close>

text \<open>
  \<open>printing_decl\<close>, compiled after its call of \<open>print\<close> has seen small integers, on the machine whose
  calls reach built-in methods only.
\<close>

definition printing_frame :: frame where
  "printing_frame = \<lparr>table = Map.empty, syms = Map.empty, base_ident = 0, owner = 0x5000, linked = hot_context,
     known = (\<lambda>_. 0), inner = {0x5018, 0x5020, 0x5028, 0x5038}, warm = {0x5018, 0x5020, 0x5028, 0x5038}, may_call = True\<rparr>"

lemma native_machine: "calls_in (keeps_constants F) (machine_at interpreted_program (Suc 0))"
proof -
  have never: "bind r (\<lambda>x. fail BadPointer) c \<noteq> Inr y" for r :: "'a run" and c and y :: "'b \<times> ctx"
    by (auto simp: sem_simps split: sum.splits)
  have "within (keeps_constants F) (methodTrampoline (machine_at interpreted_program 0) k ob sel vs)" for k ob sel vs
    unfolding methodTrampoline_def the_decl_def
    by (auto simp: within_def interpreted_program_def sem_simps split: sum.splits option.splits if_splits)
  moreover have "within (keeps_constants F) (closureTrampoline (machine_at interpreted_program 0) k C vs)" for k C vs
    unfolding closureTrampoline_def the_decl_def
    by (auto simp: within_def interpreted_program_def sem_simps split: sum.splits option.splits if_splits)
  ultimately have "within (keeps_constants F) (enter_method interpreted_program (machine_at interpreted_program 0) k ob sel vs)"
    "within (keeps_constants F) (enter_closure interpreted_program (machine_at interpreted_program 0) k C vs)" for k ob sel C vs
    by (cases k; simp add: native_constants interpreted_program_def)+
  moreover have "within (keeps_constants F) (p_compile interpreted_program e)" for e
    by (simp add: interpreted_program_def constant_keeping.within_leaf)
  ultimately show ?thesis by (simp add: calls_in_def)
qed

lemma printing_fits: "machine_fits (machine_at interpreted_program (Suc 0)) printing_frame"
proof -
  have "jit_blind_to below stack_depth interpreted_program"
    by (simp add: jit_blind_to_def interpreted_program_def blind_leaf)
  then have "calls_respect (machine_at interpreted_program (Suc 0)) printing_frame"
    by (intro blind_machine_respects callers_calls.machine_blind native_machine) (simp_all add: printing_frame_def)
  then show ?thesis by (simp add: machine_fits_def sample_allocator_ok interpreted_fields)
qed

lemma printing_covered: "fits_stmts printing_frame (decl_body printing_decl)" "constants_hold printing_frame hot_context"
proof -
  have "length (selectors hot_context) + 1 < 2 ^ 32"
    by (simp add: hot_context_def compiled_context_def resumed_context_def register_static_def StaticSelectorNames_def)
  then show "fits_stmts printing_frame (decl_body printing_decl)"
    by (simp add: printing_frame_def printing_decl_def printing_body_def call_print_def)
  show "constants_hold printing_frame hot_context"
    by (simp add: constants_hold_def printing_frame_def known_ok_def selectors_grow_refl site_kept_def hot_context_def
      compiled_context_def resumed_context_def initial_context_def no_value_def)
qed

lemma hot:
  "closure_decls hot_context d = fresh_decl" "cache hot_context n = no_value" "isReturning hot_context \<longleftrightarrow> False"
  "retVal hot_context = no_value" "symbols hot_context = []" "globalSymbols hot_context = Map.empty"
  "mem hot_context = [0x1000 \<mapsto> CellBlock [literalObject 5]]" "classes hot_context = static_classes" "console hot_context = []"
  "selectors hot_context = fst (register_static ([], []))" "selNames hot_context = snd (register_static ([], []))"
  "call_sites hot_context 0x5020 = \<lparr>type_assumption = SmallIntClass, alternative_type = 0, alternative_type_count = 0,
      cachedMethod = Some (MethodSlot (SmallIntClass, 1))\<rparr>"
  by (simp_all add: hot_context_def compiled_context_def resumed_context_def initial_context_def)

text \<open>Whether a run departs, one step at a time.\<close>

lemma departs_iff:
  "departs m f (At b i r) d \<longleftrightarrow>
    b < length f \<and> i < length (instrs (f ! b)) \<and> parting r (snd (instrs (f ! b) ! i)) \<or>
    (\<exists>cfg d'. Generated_Code.step m f b i r d = Inr (cfg, d') \<and> departs m f cfg d')"
  (is "?l \<longleftrightarrow> ?h \<or> ?s")
proof
  assume ?l
  then obtain b' i' r' d' where c: "reaches m f (At b i r) d (At b' i' r') d'" "b' < length f \<and> i' < length (instrs (f ! b')) \<and> parting r' (snd (instrs (f ! b') ! i'))"
    unfolding departs_def by blast
  from c(1) show "?h \<or> ?s"
    by (cases rule: reaches.cases) (use c(2) in \<open>auto simp: departs_def\<close>)
next
  assume "?h \<or> ?s"
  then show ?l
  proof
    assume ?h
    then show ?l unfolding departs_def by (blast intro: reaches.here)
  next
    assume ?s
    then show ?l by (meson departs_later reaches_one)
  qed
qed

lemma departs_returned: "\<not> departs m f (Returned v) d"
  unfolding departs_def by (auto elim: reaches.cases)

text \<open>
  The code of \<open>printing_decl\<close>: block 2 tests the receiver, blocks 5 and 3 are the guard and the call, block 4
  leaves.
\<close>

definition printing_code :: ir where
  "printing_code =
   [\<lparr>instrs =
       [(0, Store (Const (Word 0x5000)) (Const (Ptr CurJitFunction))),
        (1, Alloca), (2, Alloca),
        (3, Cast (Argument 0)), (4, Store (Result 3) (Result 1)),
        (5, Store (Argument 1) (Result 2)),
        (6, Load (Result 2)), (7, Cast (Result 6)),
        (8, Alu LShrOp (Result 7) (Const (Word 3))), (9, IsNotNull (Result 8))],
     terminator = Some (CondBr (Result 9) 2 1)\<rparr>,
    \<lparr>instrs = [(22, Load (Result 2)), (23, Cast (Result 22))], terminator = Some (Ret (Result 23))\<rparr>,
    \<lparr>instrs = [(10, Load (Result 2)), (11, Cast (Result 10)), (12, IsNotNull (Result 11))],
     terminator = Some (CondBr (Result 12) 5 4)\<rparr>,
    \<lparr>instrs =
       [(17, Cast (Const (Word 0))), (18, Store (Result 17) (Const (Ptr (AlternativeCount 0x5020)))),
        (19, Load (method_pointer (Some (MethodSlot (SmallIntClass, 1))))),
        (20, CallMethod (Result 19) [Result 11, Const (Word 4)]),
        (21, Store (Const (Word 0x5000)) (Const (Ptr CurJitFunction)))],
     terminator = Some (Br 1)\<rparr>,
    \<lparr>instrs = [(15, Patchpoint [Const (Word 0x5020), Result 1, Const (Word 0), Result 2]), (16, Cast (Result 15))],
     terminator = Some (Ret (Result 16))\<rparr>,
    \<lparr>instrs = [(13, Cast (Result 11)), (14, Alu AndOp (Result 13) (Const (Word 7)))],
     terminator = Some (CondBr (Result 14) 3 4)\<rparr>]"

lemma printing_compiled: "compileClosure sample_env printing_decl hot_context = Inr (printing_code, hot_context)"
    by (simp add: compileClosure_def build_function_def printing_decl_def printing_body_def call_print_def new_builder_def closure_prologue_def
      compile_body_def sem_simps fresh_decl_def reset_jit_function_def create_def append_instr_def compile_method_call_def
      compile_guard_def compile_slow_path_def compile_fast_path_def patchpoint_operands_def on_runtime_def hot print_is_known
      empty_block_def set_csymbol_def create_store_def array_symbols_def lookupSymbolAddr_def create_block_def
      getAsSmallInt_def getAsObject_def create_terminator_def)
     (simp add: printing_code_def eval_nat_numeral)

lemma printing_blocks:
  "length printing_code = 6"
  "instrs (printing_code ! 0) = [(0, Store (Const (Word 0x5000)) (Const (Ptr CurJitFunction))),
        (1, Alloca), (2, Alloca),
        (3, Cast (Argument 0)), (4, Store (Result 3) (Result 1)),
        (5, Store (Argument 1) (Result 2)),
        (6, Load (Result 2)), (7, Cast (Result 6)),
        (8, Alu LShrOp (Result 7) (Const (Word 3))), (9, IsNotNull (Result 8))]"
  "terminator (printing_code ! 0) = Some (CondBr (Result 9) 2 1)"
  "instrs (printing_code ! Suc 0) = [(22, Load (Result 2)), (23, Cast (Result 22))]"
  "terminator (printing_code ! Suc 0) = Some (Ret (Result 23))"
  "instrs (printing_code ! 2) = [(10, Load (Result 2)), (11, Cast (Result 10)), (12, IsNotNull (Result 11))]"
  "terminator (printing_code ! 2) = Some (CondBr (Result 12) 5 4)"
  "instrs (printing_code ! 3) =
       [(17, Cast (Const (Word 0))), (18, Store (Result 17) (Const (Ptr (AlternativeCount 0x5020)))),
        (19, Load (method_pointer (Some (MethodSlot (SmallIntClass, 1))))),
        (20, CallMethod (Result 19) [Result 11, Const (Word 4)]),
        (21, Store (Const (Word 0x5000)) (Const (Ptr CurJitFunction)))]"
  "terminator (printing_code ! 3) = Some (Br 1)"
  "instrs (printing_code ! 5) = [(13, Cast (Result 11)), (14, Alu AndOp (Result 13) (Const (Word 7)))]"
  "terminator (printing_code ! 5) = Some (CondBr (Result 14) 3 4)"
  by (simp_all add: printing_code_def)

lemma seven: "literalObject 7 AND 7 = 1" "drop_bit 3 (literalObject 7) \<noteq> 0" "literalObject 7 \<noteq> 0" "isInteger (literalObject 7)"
  by (simp_all add: literalObject_def isInteger_def)

lemma printing_stays: "\<not> departs (machine_at interpreted_program 1) printing_code
    (At 0 0 \<lparr>arguments = [Word 0x4000, Word (literalObject 7)], registers = Map.empty\<rparr>) hot_context"
  by (simp add: departs_iff departs_returned Generated_Code.step_def printing_blocks run_simps hot define_result_def first_free_eval
      place_operand_def word_operand_def enter_def word_result_def method_pointer_def seven)
    (simp add: load_method_ptr_def method_at_def static_classes_def static_SmallIntClass_def root_class_def
      NumberMethods_def native_method_def NumberPrint_def getInteger_def run_simps hot departs_iff departs_returned
      Generated_Code.step_def printing_blocks define_result_def
      place_operand_def word_operand_def enter_def word_result_def method_pointer_def seven)

lemma compiled_closure_correct_witness:
  "compileClosure sample_env printing_decl hot_context = Inr (printing_code, hot_context) \<and>
    (\<exists>k d'. run_function k (machine_at interpreted_program 1) printing_code [Word 0x4000, Word (literalObject 7)] hot_context
      = Inr (literalObject 7, d') \<and> console d' = [PrintInt Stdout 7])"
proof -
  let ?m = "machine_at interpreted_program (Suc 0)"
  have env: "m_env ?m = sample_env" by simp
  have "\<exists>e. bind (closure_entry sample_env printing_decl (closure_decls hot_context (decl_node printing_decl)) 0x4000 [literalObject 7])
      (\<lambda>tab. seq (pushSymbols tab) (run_body ?m (decl_body printing_decl))) hot_context = Inr (literalObject 7, e) \<and>
      console e = [PrintInt Stdout 7]"
    by (simp add: printing_decl_def printing_body_def call_print_def closure_entry_def hot fresh_decl_def run_body_def run_simps
        first_free_eval print_is_known site_step_def)
      (simp add: hot run_simps run_body_def load_method_ptr_def method_at_def static_classes_def static_SmallIntClass_def root_class_def
        NumberMethods_def native_method_def NumberPrint_def getInteger_def)
  then obtain e where e: "bind (closure_entry sample_env printing_decl (closure_decls hot_context (decl_node printing_decl)) 0x4000 [literalObject 7])
      (\<lambda>tab. seq (pushSymbols tab) (run_body ?m (decl_body printing_decl))) hot_context = Inr (literalObject 7, e)"
    "console e = [PrintInt Stdout 7]" by blast
  have "\<exists>k d'. run_function k ?m printing_code (Word 0x4000 # map Word [literalObject 7]) hot_context = Inr (literalObject 7, d') \<and>
      same_but_cache printing_frame d' e"
    by (rule compiled_closure_correct [where m = ?m, unfolded env, OF printing_compiled printing_fits printing_covered(1) _ _ printing_covered(2) _ _ e(1)])
      (use printing_stays in \<open>simp_all add: printing_frame_def printing_decl_def\<close>)
  moreover have "console d' = [PrintInt Stdout 7]" if "same_but_cache printing_frame d' e" for d'
  proof -
    have "console d' = console (e\<lparr>cache := cache d'\<rparr>)"
      by (rule arg_cong) (use that in \<open>simp only: same_but_cache_def\<close>)
    then show ?thesis using e(2) by simp
  qed
  ultimately show ?thesis using printing_compiled by auto
qed

text \<open>The call of \<open>print\<close>, from a caller with a local variable and from one without.\<close>

lemma call_ignores_callers_witness:
  "m_method (machine_at interpreted_program 1) (Native B_NumberPrint) (literalObject 7) sel_print []
     (initial_context\<lparr>symbols := [[''x'' \<mapsto> (0x1000, 0)]]\<rparr>) =
   lift_result (\<lambda>d. d\<lparr>symbols := [[''x'' \<mapsto> (0x1000, 0)]]\<rparr>)
     (m_method (machine_at interpreted_program 1) (Native B_NumberPrint) (literalObject 7) sel_print [] initial_context)"
proof -
  have "jit_blind_to below stack_depth interpreted_program"
    by (simp add: jit_blind_to_def interpreted_program_def blind_leaf)
  from call_ignores_callers [OF this] show ?thesis by blast
qed

section \<open>A function that returns its argument\<close>

text \<open>
  \<open>identity_decl\<close>: no constants, no calls, and the variable is never the name of anything else.  Its code
  has no instruction at which it could depart.
\<close>

fun never_parts :: "instr \<Rightarrow> bool" where
  "never_parts (Alu op a b) \<longleftrightarrow> op \<noteq> AndOp"
| "never_parts (Load a) \<longleftrightarrow> a \<noteq> Const (Word 0)"
| "never_parts (ICmp op a b) \<longleftrightarrow> False"
| "never_parts (CallHelper op a b) \<longleftrightarrow> False"
| "never_parts (Patchpoint vs) \<longleftrightarrow> False"
| "never_parts (IsaPtr a) \<longleftrightarrow> False"
| "never_parts _ \<longleftrightarrow> True"

lemma never_parts: "never_parts ins \<Longrightarrow> \<not> parting r ins"
proof (cases ins)
  fix op a b assume "never_parts ins" and "ins = Alu op a b"
  then show "\<not> parting r ins" by (cases op) simp_all
qed simp_all

lemma never_departs:
  assumes "list_all (\<lambda>b. list_all (\<lambda>p. never_parts (snd p)) (instrs b)) f"
  shows "\<not> departs m f cfg d"
  using assms never_parts by (fastforce simp: departs_def list_all_length)

definition identity_frame :: "ctx \<Rightarrow> frame" where
  "identity_frame c = \<lparr>table = Map.empty, syms = Map.empty, base_ident = 0, owner = 0x5000, linked = c, known = (\<lambda>_. 0),
     inner = {0x5018, 0x5028}, warm = {}, may_call = False\<rparr>"

lemma identity_fits:
  "fits_stmts (identity_frame c) (decl_body identity_decl)" "constants_hold (identity_frame initial_context) initial_context"
  by (simp_all add: identity_frame_def identity_decl_def constants_hold_def known_ok_def initial_context_def selectors_grow_def site_kept_def)

lemma compiled_method_correct_witness:
  "\<exists>f c1. compileMethod sample_env identity_decl SmallIntClass initial_context = Inr (f, c1) \<and>
    (\<exists>k d'. run_function k (machine_at interpreted_program 1) f [Word (literalObject 3), Word 9, Word (literalObject 7)] initial_context
        = Inr (literalObject 7, d'))"
proof -
  let ?m = "machine_at interpreted_program 1"
  have env: "m_env ?m = sample_env" by simp
  have "\<exists>k. classes initial_context SmallIntClass = Some k \<and> indexedIVarNames k = []"
    by (simp add: initial_context_def static_classes_def static_SmallIntClass_def root_class_def)
  then obtain k where k: "classes initial_context SmallIntClass = Some k" "indexedIVarNames k = []" by (elim exE conjE)
  have "\<exists>f. compileMethod sample_env identity_decl SmallIntClass initial_context = Inr (f, initial_context) \<and>
      list_all (\<lambda>b. list_all (\<lambda>p. never_parts (snd p)) (instrs b)) f"
    by (simp add: compileMethod_def class_at_def static_classes_def static_SmallIntClass_def root_class_def build_function_def identity_decl_def new_builder_def method_prologue_def
      compile_body_def sem_simps initial_context_def fresh_decl_def reset_jit_function_def create_def append_instr_def
      empty_block_def set_csymbol_def create_store_def array_symbols_def lookupSymbolAddr_def create_block_def
      getAsSmallInt_def getAsObject_def create_terminator_def small_int_of_def)
  then obtain f where f: "compileMethod sample_env identity_decl SmallIntClass initial_context = Inr (f, initial_context)"
    and stays: "list_all (\<lambda>b. list_all (\<lambda>p. never_parts (snd p)) (instrs b)) f" by blast
  have "\<exists>e. bind (method_entry sample_env identity_decl (closure_decls initial_context (decl_node identity_decl)) [] (literalObject 3) 9 [literalObject 7])
      (\<lambda>tab. seq (pushSymbols tab) (run_body ?m (decl_body identity_decl))) initial_context = Inr (literalObject 7, e)"
    by (simp add: identity_decl_def method_entry_def initial_context_def fresh_decl_def run_body_def run_simps first_free_eval)
  then obtain e where e: "bind (method_entry sample_env identity_decl (closure_decls initial_context (decl_node identity_decl)) (indexedIVarNames k) (literalObject 3) 9 [literalObject 7])
      (\<lambda>tab. seq (pushSymbols tab) (run_body ?m (decl_body identity_decl))) initial_context = Inr (literalObject 7, e)"
    by (auto simp: k(2))
  have "\<exists>k d'. run_function k ?m f (Word (literalObject 3) # Word (ucast (9 :: selector)) # map Word [literalObject 7]) initial_context
        = Inr (literalObject 7, d') \<and> same_but_cache (identity_frame initial_context) d' e"
    by (rule compiled_method_correct [where m = ?m, unfolded env, OF f k(1) _ identity_fits(1) _ _ identity_fits(2) _ _ e never_departs [OF stays]])
      (simp_all add: machine_fits_def calls_respect_def identity_frame_def identity_decl_def sample_allocator_ok literalObject_def)
  then show ?thesis using f by auto
qed

end
