(* ===== verification/Code_Types.thy ===== *)
theory Code_Types
  imports Compile
begin

text \<open>
  The LLVM types that \<open>compiler.cc\<close> gives to methods and closures, and where the fields of the structures
  are that these types describe.
\<close>

section \<open>Types\<close>

text \<open>
  The types that \<open>getMethodType\<close> and \<open>getClosureType\<close> build.  A structure is named by its number; its
  fields are unknown until \<open>setBody\<close>.
\<close>

datatype ir_type =
    IntegerType nat
  | PointerType ir_type
  | ArrayType nat ir_type
  | FunctionType ir_type "ir_type list"
  | StructType nat

type_synonym struct_table = "ir_type list option list"

definition ObjPtrTy :: ir_type where "ObjPtrTy = PointerType (IntegerType 8)"
definition ObjIntTy :: ir_type where "ObjIntTy = IntegerType 64"
definition SelTy :: ir_type where "SelTy = IntegerType 32"

definition create_struct :: "struct_table \<Rightarrow> nat \<times> struct_table" where
  "create_struct T = (length T, T @ [None])"

definition setBody :: "nat \<Rightarrow> ir_type list \<Rightarrow> struct_table \<Rightarrow> struct_table" where
  "setBody s fs T = T[s := Some fs]"

definition getMethodType :: "nat \<Rightarrow> nat \<Rightarrow> struct_table \<Rightarrow> ir_type \<times> struct_table" where
  "getMethodType ivars args T =
     (let (ObjTy, T) =
        (if ivars \<noteq> 0
         then (case create_struct T of (s, T) \<Rightarrow>
           (PointerType (StructType s), setBody s [ObjPtrTy, ArrayType ivars ObjPtrTy] T))
         else (ObjPtrTy, T))
      in (FunctionType ObjPtrTy ([ObjTy, SelTy] @ replicate args ObjPtrTy), T))"

definition getClosureType :: "nat \<Rightarrow> nat \<Rightarrow> struct_table \<Rightarrow> ir_type \<times> struct_table" where
  "getClosureType bound args T =
     (case create_struct T of (ClosureTy, T) \<Rightarrow>
      let invokeTy = FunctionType ObjPtrTy (PointerType (StructType ClosureTy) # replicate args ObjPtrTy)
      in (invokeTy, setBody ClosureTy
           ([ObjPtrTy, ObjPtrTy, PointerType invokeTy, ObjPtrTy] @ (if bound \<noteq> 0 then [ArrayType bound ObjPtrTy] else [])) T))"

fun parameter_types :: "ir_type \<Rightarrow> ir_type list" where
  "parameter_types (FunctionType t ts) = ts"
| "parameter_types _ = []"

section \<open>Layout\<close>

text \<open>
  Sizes and alignments in bytes on x86-64.  Functions and structures are not laid out inside others
  here.
\<close>

fun type_align :: "ir_type \<Rightarrow> nat option" where
  "type_align (IntegerType n) = Some ((n + 7) div 8)"
| "type_align (PointerType t) = Some 8"
| "type_align (ArrayType n t) = type_align t"
| "type_align _ = None"

fun type_size :: "ir_type \<Rightarrow> nat option" where
  "type_size (IntegerType n) = Some ((n + 7) div 8)"
| "type_size (PointerType t) = Some 8"
| "type_size (ArrayType n t) = map_option ((*) n) (type_size t)"
| "type_size _ = None"

definition align_up :: "nat \<Rightarrow> nat \<Rightarrow> nat" where
  "align_up k n = (n + k - 1) div k * k"

text \<open>The offset of field \<open>k\<close>, when the first one may start at \<open>start\<close>.\<close>

fun field_offset :: "nat \<Rightarrow> ir_type list \<Rightarrow> nat \<Rightarrow> nat option" where
  "field_offset start [] k = None"
| "field_offset start (t # ts) k = (case (type_align t, type_size t) of
      (Some a, Some s) \<Rightarrow> if k = 0 then Some (align_up a start) else field_offset (align_up a start + s) ts (k - 1)
    | _ \<Rightarrow> None)"

text \<open>The distance that \<open>CreateStructGEP\<close> adds to a pointer.\<close>

definition struct_gep :: "struct_table \<Rightarrow> ir_type \<Rightarrow> nat \<Rightarrow> nat option" where
  "struct_gep T t k = (case t of
       StructType s \<Rightarrow> (if s < length T then Option.bind (T ! s) (\<lambda>fs. field_offset 0 fs k) else None)
     | ArrayType n t \<Rightarrow> map_option ((*) k) (type_size t)
     | _ \<Rightarrow> None)"

text \<open>
  \<open>runtime.hh\<close>: the fields of \<open>Object\<close> and \<open>Closure\<close>, all of pointer size, the array of bound variables
  with no elements of its own; the size that \<open>compileExpression\<close> asks of \<open>GC_malloc\<close>.
\<close>

definition Closure_fields :: "ir_type list" where
  "Closure_fields = [ObjPtrTy, ObjPtrTy, ObjPtrTy, ObjPtrTy, ArrayType 0 ObjPtrTy]"

definition closureSize :: "nat \<Rightarrow> nat" where
  "closureSize n = the (field_offset 0 Closure_fields 4) + n * 8"

lemma pointer_sizes [simp]:
  "type_size ObjPtrTy = Some 8" "type_align ObjPtrTy = Some 8"
  by (simp_all add: ObjPtrTy_def)

lemma aligned [simp]: "align_up 8 0 = 0" "align_up 8 8 = 8" "align_up 8 16 = 16" "align_up 8 24 = 24" "align_up 8 32 = 32"
  by (simp_all add: align_up_def)

lemma closure_size: "closureSize n = 32 + n * 8"
  by (simp add: closureSize_def Closure_fields_def)

lemma closure_fields_at:
  "field_offset 0 ([ObjPtrTy, ObjPtrTy, PointerType t, ObjPtrTy] @ rest) k =
    (if k < 4 then Some (8 * k) else field_offset 32 rest (k - 4))"
proof -
  have "k = 0 \<or> k = 1 \<or> k = 2 \<or> k = 3 \<or> (\<exists>j. k = Suc (Suc (Suc (Suc j))))" by presburger
  then show ?thesis by (elim disjE exE) simp_all
qed

lemma closure_gep:
  "struct_gep (snd (getClosureType bound args T)) (StructType (length T)) k =
    (if k < 4 then Some (8 * k) else if k = 4 \<and> bound \<noteq> 0 then Some 32 else None)"
proof -
  let ?rest = "if bound \<noteq> 0 then [ArrayType bound ObjPtrTy] else []"
  obtain t where "snd (getClosureType bound args T) =
      T @ [Some ([ObjPtrTy, ObjPtrTy, PointerType t, ObjPtrTy] @ ?rest)]"
    by (simp add: getClosureType_def create_struct_def setBody_def Let_def)
  then have "struct_gep (snd (getClosureType bound args T)) (StructType (length T)) k =
      (if k < 4 then Some (8 * k) else field_offset 32 ?rest (k - 4))"
    by (simp only: struct_gep_def ir_type.case) (simp add: nth_append closure_fields_at [unfolded append.simps])
  then show ?thesis by simp
qed

lemma object_gep:
  "ivars \<noteq> 0 \<Longrightarrow> struct_gep (snd (getMethodType ivars args T)) (StructType (length T)) 1 = Some 8"
  by (simp add: struct_gep_def getMethodType_def create_struct_def setBody_def)

section \<open>Properties\<close>

text \<open>
  C12. The structures of generated code are laid out as the runtime declares them: each of the first four
  fields of a closure is where \<open>struct Closure\<close> has it, whatever the numbers of bound variables and
  arguments, every bound variable lies behind them, inside the memory that is allocated for the closure;
  and the instance variables of a receiver follow its class pointer.
\<close>

theorem structures_laid_out:
  "(\<exists>s. parameter_types (fst (getClosureType bound args T)) = PointerType (StructType s) # replicate args ObjPtrTy \<and>
    (\<forall>k \<in> {..<4}. struct_gep (snd (getClosureType bound args T)) (StructType s) k = field_offset 0 Closure_fields k) \<and>
    (\<forall>i \<in> {..<bound}. \<exists>a e. struct_gep (snd (getClosureType bound args T)) (StructType s) 4 = Some a \<and>
      struct_gep (snd (getClosureType bound args T)) (ArrayType bound ObjPtrTy) i = Some e \<and>
      a + e = 32 + 8 * i \<and> a + e + 8 \<le> closureSize bound)) \<and>
   (\<forall>i \<in> {..<ivars}. \<exists>s a e. parameter_types (fst (getMethodType ivars args T)) =
        [PointerType (StructType s), SelTy] @ replicate args ObjPtrTy \<and>
      struct_gep (snd (getMethodType ivars args T)) (StructType s) 1 = Some a \<and>
      struct_gep (snd (getMethodType ivars args T)) (ArrayType ivars ObjPtrTy) i = Some e \<and> a + e = 8 * Suc i)"
proof (intro conjI ballI)
  have "field_offset 0 Closure_fields k = Some (8 * k)" if "k < 4" for k
    using closure_fields_at [of "IntegerType 8" "[ArrayType 0 ObjPtrTy]" k] that by (simp add: Closure_fields_def ObjPtrTy_def)
  moreover have "struct_gep U (ArrayType n ObjPtrTy) i = Some (8 * i)" for U n i
    by (simp add: struct_gep_def)
  ultimately show "\<exists>s. parameter_types (fst (getClosureType bound args T)) = PointerType (StructType s) # replicate args ObjPtrTy \<and>
    (\<forall>k \<in> {..<4}. struct_gep (snd (getClosureType bound args T)) (StructType s) k = field_offset 0 Closure_fields k) \<and>
    (\<forall>i \<in> {..<bound}. \<exists>a e. struct_gep (snd (getClosureType bound args T)) (StructType s) 4 = Some a \<and>
      struct_gep (snd (getClosureType bound args T)) (ArrayType bound ObjPtrTy) i = Some e \<and>
      a + e = 32 + 8 * i \<and> a + e + 8 \<le> closureSize bound)"
    by (intro exI [of _ "length T"]) (simp add: closure_gep closure_size, simp add: getClosureType_def create_struct_def Let_def)
next
  fix i
  assume i: "i \<in> {..<ivars}"
  show "\<exists>s a e. parameter_types (fst (getMethodType ivars args T)) =
        [PointerType (StructType s), SelTy] @ replicate args ObjPtrTy \<and>
      struct_gep (snd (getMethodType ivars args T)) (StructType s) 1 = Some a \<and>
      struct_gep (snd (getMethodType ivars args T)) (ArrayType ivars ObjPtrTy) i = Some e \<and> a + e = 8 * Suc i"
    by (rule exI [of _ "length T"], rule exI [of _ 8], rule exI [of _ "8 * i"])
      (use i in \<open>simp add: object_gep [simplified], simp add: getMethodType_def create_struct_def struct_gep_def\<close>)
qed

lemma structures_laid_out_witness:
  "\<exists>s a. struct_gep (snd (getClosureType 3 1 [])) (StructType s) 2 = field_offset 0 Closure_fields 2 \<and>
     struct_gep (snd (getClosureType 3 1 [])) (StructType s) 4 = Some a \<and> a + 16 + 8 \<le> closureSize 3"
proof -
  have e: "struct_gep U (ArrayType 3 ObjPtrTy) 2 = Some 16" for U by (simp add: struct_gep_def)
  obtain s where s: "\<forall>k \<in> {..<4}. struct_gep (snd (getClosureType 3 1 [])) (StructType s) k = field_offset 0 Closure_fields k"
    "\<forall>i \<in> {..<3}. \<exists>a e. struct_gep (snd (getClosureType 3 1 [])) (StructType s) 4 = Some a \<and>
      struct_gep (snd (getClosureType 3 1 [])) (ArrayType 3 ObjPtrTy) i = Some e \<and>
      a + e = 32 + 8 * i \<and> a + e + 8 \<le> closureSize 3"
    using structures_laid_out [of 3 1 "[]"] by blast
  from bspec [OF s(1), of 2] bspec [OF s(2), of 2] have "struct_gep (snd (getClosureType 3 1 [])) (StructType s) 2 =
      field_offset 0 Closure_fields 2 \<and> (\<exists>a. struct_gep (snd (getClosureType 3 1 [])) (StructType s) 4 = Some a \<and>
      a + 16 + 8 \<le> closureSize 3)"
    by (auto simp: e)
  then show ?thesis by blast
qed

end
