(* ===== verification/Code_Scope.thy ===== *)
theory Code_Scope
  imports Compile_Shape Code_Types
begin

text \<open>
  Scopes in generated code: every operand is a constant, an argument that the type of the function
  has, or the result of an instruction of the function.
\<close>

section \<open>Operands in scope\<close>

fun instr_operands :: "instr \<Rightarrow> operand set" where
  "instr_operands Alloca = {}"
| "instr_operands (Load p) = {p}"
| "instr_operands (Store v p) = {v, p}"
| "instr_operands (Alu f a b) = {a, b}"
| "instr_operands (ICmp op a b) = {a, b}"
| "instr_operands (IsNotNull a) = {a}"
| "instr_operands (ZExt a) = {a}"
| "instr_operands (Cast a) = {a}"
| "instr_operands (FieldPtr a k) = {a}"
| "instr_operands (ArrayPtr a) = {a}"
| "instr_operands (ElementPtr a i) = {a}"
| "instr_operands (IsaPtr a) = {a}"
| "instr_operands (MallocClosure n) = {}"
| "instr_operands (CallNewObject c) = {c}"
| "instr_operands (CallHelper op a b) = {a, b}"
| "instr_operands (CallMethod f as) = insert f (set as)"
| "instr_operands (CallClosure f as) = insert f (set as)"
| "instr_operands (Patchpoint as) = set as"

fun terminator_operands :: "terminator \<Rightarrow> operand set" where
  "terminator_operands (Br b) = {}"
| "terminator_operands (CondBr v b1 b2) = {v}"
| "terminator_operands (Ret v) = {v}"

definition block_operands :: "basic_block \<Rightarrow> operand set" where
  "block_operands b = (\<Union>p \<in> set (instrs b). instr_operands (snd p)) \<union>
     \<Union> (terminator_operands ` set_option (terminator b))"

fun in_scope :: "nat \<Rightarrow> ir \<Rightarrow> operand \<Rightarrow> bool" where
  "in_scope n f (Const v) \<longleftrightarrow> True"
| "in_scope n f (Argument k) \<longleftrightarrow> k < n"
| "in_scope n f (Result i) \<longleftrightarrow> i \<in> set (idents f)"

definition code_scoped :: "nat \<Rightarrow> ir \<Rightarrow> bool" where
  "code_scoped n f \<longleftrightarrow> list_all (\<lambda>b. \<forall>v \<in> block_operands b. in_scope n f v) f"

section \<open>Compiling keeps scopes\<close>

text \<open>
  \<open>yields n l l' A p R\<close>: if all operands of the code and in the symbol table are in scope, and those of
  \<open>A\<close> as well, then they are in scope after \<open>p\<close>, those of its result (\<open>R\<close>) included.  The flags say
  whether there is an insert point before and after.
\<close>

abbreviation scope :: "nat \<Rightarrow> builder \<Rightarrow> operand set" where
  "scope n B \<equiv> {v. in_scope n (function_blocks B) v}"

definition scoped :: "nat \<Rightarrow> builder \<Rightarrow> bool" where
  "scoped n B \<longleftrightarrow> \<Union> (block_operands ` set (function_blocks B)) \<union> ran (csymbols B) \<subseteq> scope n B"

definition yields :: "nat \<Rightarrow> bool \<Rightarrow> bool \<Rightarrow> operand set \<Rightarrow> 'a build \<Rightarrow> ('a \<Rightarrow> operand set) \<Rightarrow> bool" where
  "yields n l l' A p R \<longleftrightarrow> (\<forall>B v B'. scoped n B \<and> A \<subseteq> scope n B \<and> (l \<longrightarrow> insert_point B \<noteq> None) \<and> p B = Inr (v, B') \<longrightarrow>
     scoped n B' \<and> scope n B \<subseteq> scope n B' \<and> R v \<subseteq> scope n B' \<and> (l' \<longrightarrow> insert_point B' \<noteq> None))"

text \<open>What may be used when \<open>A\<close> is in scope.\<close>

definition usable :: "nat \<Rightarrow> operand set \<Rightarrow> operand set" where
  "usable n A = A \<union> range Const \<union> Argument ` {..<n}"

lemma usable_simps [simp]:
  "Const v \<in> usable n A" "Argument k \<in> usable n A \<longleftrightarrow> k < n \<or> Argument k \<in> A" "w \<in> A \<Longrightarrow> w \<in> usable n A"
  by (auto simp: usable_def)

lemma usable_more [simp]:
  "w \<in> usable n (insert v A) \<longleftrightarrow> w = v \<or> w \<in> usable n A"
  "w \<in> usable n (A \<union> B) \<longleftrightarrow> w \<in> usable n A \<or> w \<in> usable n B"
  "S \<subseteq> A \<Longrightarrow> S \<subseteq> usable n A"
  "S \<subseteq> usable n A \<Longrightarrow> S \<subseteq> usable n (insert v A)"
  "S \<subseteq> usable n A \<Longrightarrow> S \<subseteq> usable n (A \<union> B)"
  "S \<subseteq> usable n B \<Longrightarrow> S \<subseteq> usable n (A \<union> B)"
  by (auto simp: usable_def)

lemma usable_scope: "A \<subseteq> scope n B \<Longrightarrow> usable n A \<subseteq> scope n B"
  by (auto simp: usable_def)

lemma yields_bind:
  assumes "yields n l k A p R" and "\<And>v. yields n k l' (A \<union> R v) (q v) S"
  shows "yields n l l' A (bind p q) S"
  unfolding yields_def
proof (intro allI impI)
  fix B w B2
  assume a: "scoped n B \<and> A \<subseteq> scope n B \<and> (l \<longrightarrow> insert_point B \<noteq> None) \<and> bind p q B = Inr (w, B2)"
  then obtain v B1 where p: "p B = Inr (v, B1)" and q: "q v B1 = Inr (w, B2)" by (elim conjE bind_InrE)
  have 1: "scoped n B1" "scope n B \<subseteq> scope n B1" "R v \<subseteq> scope n B1" "k \<longrightarrow> insert_point B1 \<noteq> None"
    using assms(1) a p unfolding yields_def by blast+
  then have "A \<union> R v \<subseteq> scope n B1" using a by blast
  then have "scoped n B2 \<and> scope n B1 \<subseteq> scope n B2 \<and> S w \<subseteq> scope n B2 \<and> (l' \<longrightarrow> insert_point B2 \<noteq> None)"
    using assms(2) [of v] 1(1,4) q unfolding yields_def by blast
  then show "scoped n B2 \<and> scope n B \<subseteq> scope n B2 \<and> S w \<subseteq> scope n B2 \<and> (l' \<longrightarrow> insert_point B2 \<noteq> None)"
    using 1(2) by blast
qed

lemma yields_seq: "yields n l k A p (\<lambda>_. {}) \<Longrightarrow> yields n k l' A q S \<Longrightarrow> yields n l l' A (seq p q) S"
  unfolding seq_def by (rule yields_bind [where R = "\<lambda>_. {}"]) simp_all

lemma yields_return: "S v \<subseteq> usable n A \<Longrightarrow> yields n l l A (return v) S"
  unfolding yields_def using order_trans [OF _ usable_scope] by (simp add: sem_simps)

lemma yields_fail: "yields n l l' A (fail e) S"
  by (simp add: yields_def sem_simps)

lemma yields_if: "(b \<Longrightarrow> yields n l l' A p S) \<Longrightarrow> (\<not> b \<Longrightarrow> yields n l l' A q S) \<Longrightarrow> yields n l l' A (if b then p else q) S"
  by simp

lemma yields_option: "(x = None \<Longrightarrow> yields n l l' A p S) \<Longrightarrow> (\<And>v. x = Some v \<Longrightarrow> yields n l l' A (q v) S) \<Longrightarrow>
    yields n l l' A (case x of None \<Rightarrow> p | Some v \<Rightarrow> q v) S"
  by (cases x) simp_all

lemma yields_assert: "yields n l l A (assert b) (\<lambda>_. {})"
  by (simp add: yields_def assert_def sem_simps)

lemma yields_gets: "yields n l l A (gets f) (\<lambda>_. {})"
  by (simp add: yields_def sem_simps)

lemma yields_symbols:
  "yields n l l A (gets csymbols) ran" "yields n l l A (gets (\<lambda>B. csymbols B x)) set_option"
  by (auto simp: yields_def scoped_def sem_simps ran_def)

lemma yields_runtime: "yields n l l A (on_runtime r) (\<lambda>_. {})"
  by (auto simp: yields_def scoped_def on_runtime_def split: sum.splits)

lemma yields_points:
  "yields n l l' A (SetInsertPoint b) (\<lambda>_. {})" "yields n l False A ClearInsertionPoint (\<lambda>_. {})"
  by (auto simp: yields_def scoped_def sem_simps)

lemma idents_snoc: "idents (f @ [empty_block]) = idents f"
  by (simp add: idents_def)

lemma in_scope_mono: "set (idents f) \<subseteq> set (idents g) \<Longrightarrow> in_scope n f v \<Longrightarrow> in_scope n g v"
  by (cases v) auto

lemma in_scope_idents: "idents f = idents g \<Longrightarrow> in_scope n f v = in_scope n g v"
  by (cases v) simp_all

lemma yields_block: "yields n l l A create_block (\<lambda>_. {})"
  unfolding yields_def
proof (intro allI impI)
  fix B v B'
  assume a: "scoped n B \<and> A \<subseteq> scope n B \<and> (l \<longrightarrow> insert_point B \<noteq> None) \<and> create_block B = Inr (v, B')"
  then have B': "function_blocks B' = function_blocks B @ [empty_block]" "csymbols B' = csymbols B" "insert_point B' = insert_point B"
    by (auto simp: create_block_def sem_simps)
  have "scope n B' = scope n B"
    by (auto simp: B'(1) idents_snoc intro: in_scope_mono [rotated])
  moreover have "block_operands empty_block = {}" by (simp add: block_operands_def)
  ultimately show "scoped n B' \<and> scope n B \<subseteq> scope n B' \<and> {} \<subseteq> scope n B' \<and> (l \<longrightarrow> insert_point B' \<noteq> None)"
    using a by (simp add: scoped_def B' idents_snoc)
qed

text \<open>An instruction whose operands are in scope; its result is in scope behind it.\<close>

lemma idents_update: "b < length f \<Longrightarrow> set (idents (f[b := (f ! b)\<lparr>instrs := instrs (f ! b) @ [(i, ins)]\<rparr>])) = insert i (set (idents f))"
  by (rule mset_append_new(1) [OF idents_append])

lemma yields_create:
  assumes "instr_operands ins \<subseteq> usable n A"
  shows "yields n True True A (create ins) (\<lambda>v. {v})"
  unfolding yields_def
proof (intro allI impI)
  fix B v B'
  assume a: "scoped n B \<and> A \<subseteq> scope n B \<and> (True \<longrightarrow> insert_point B \<noteq> None) \<and> create ins B = Inr (v, B')"
  then obtain b where b: "insert_point B = Some b" by auto
  let ?f = "function_blocks B" and ?i = "next_ident B"
  let ?b = "(?f ! b)\<lparr>instrs := instrs (?f ! b) @ [(?i, ins)]\<rparr>"
  from a b have B': "b < length ?f" "function_blocks B' = ?f[b := ?b]" "insert_point B' = Some b" "csymbols B' = csymbols B" "v = Result ?i"
    by (auto simp: create_def append_instr_def sem_simps split: if_splits)
  have ids: "set (idents (function_blocks B')) = insert ?i (set (idents ?f))"
    unfolding B'(2) by (rule idents_update [OF B'(1)])
  then have mono: "scope n B \<subseteq> scope n B'" by (auto intro: in_scope_mono [rotated])
  have "block_operands ?b = instr_operands ins \<union> block_operands (?f ! b)"
    by (simp add: block_operands_def) blast
  moreover have "instr_operands ins \<subseteq> scope n B'"
    using assms a mono usable_scope [of A n B] by blast
  moreover have "block_operands (?f ! b) \<subseteq> scope n B'"
    using a B'(1) mono unfolding scoped_def by (meson UN_subset_iff Un_subset_iff nth_mem order_trans)
  ultimately have "block_operands ?b \<subseteq> scope n B'" by simp
  moreover have "set (function_blocks B') \<subseteq> insert ?b (set ?f)"
    unfolding B'(2) by (rule set_update_subset_insert)
  moreover have "\<Union> (block_operands ` set ?f) \<union> ran (csymbols B) \<subseteq> scope n B'"
    using a mono unfolding scoped_def by blast
  ultimately have "scoped n B'" unfolding scoped_def B'(4) by blast
  then show "scoped n B' \<and> scope n B \<subseteq> scope n B' \<and> {v} \<subseteq> scope n B' \<and> (True \<longrightarrow> insert_point B' \<noteq> None)"
    using mono by (simp add: B'(3,5) ids)
qed

lemma yields_terminator:
  assumes "terminator_operands t \<subseteq> usable n A"
  shows "yields n l l A (create_terminator t) (\<lambda>_. {})"
  unfolding yields_def
proof (intro allI impI)
  fix B v B'
  assume a: "scoped n B \<and> A \<subseteq> scope n B \<and> (l \<longrightarrow> insert_point B \<noteq> None) \<and> create_terminator t B = Inr (v, B')"
  show "scoped n B' \<and> scope n B \<subseteq> scope n B' \<and> {} \<subseteq> scope n B' \<and> (l \<longrightarrow> insert_point B' \<noteq> None)"
  proof (cases "insert_point B")
    case None
    then have "B' = B" using a by (simp add: create_terminator_def sem_simps)
    then show ?thesis using a by simp
  next
    case (Some b)
    let ?f = "function_blocks B"
    let ?b = "(?f ! b)\<lparr>terminator := Some t\<rparr>"
    from a Some have B': "b < length ?f" "function_blocks B' = ?f[b := ?b]" "insert_point B' = Some b" "csymbols B' = csymbols B"
      by (auto simp: create_terminator_def sem_simps split: if_splits)
    have mono: "scope n B' = scope n B"
      unfolding B'(2) by (simp add: in_scope_idents [OF idents_terminator [OF B'(1)]])
    have "block_operands ?b \<subseteq> terminator_operands t \<union> block_operands (?f ! b)"
      by (auto simp: block_operands_def)
    moreover have "terminator_operands t \<subseteq> scope n B" using assms a usable_scope [of A n B] by blast
    moreover have "block_operands (?f ! b) \<subseteq> scope n B"
      using a B'(1) unfolding scoped_def by (meson UN_subset_iff Un_subset_iff nth_mem)
    moreover have "set (function_blocks B') \<subseteq> insert ?b (set ?f)"
      unfolding B'(2) by (rule set_update_subset_insert)
    moreover have "\<Union> (block_operands ` set ?f) \<union> ran (csymbols B) \<subseteq> scope n B" using a unfolding scoped_def by simp
    ultimately have "\<Union> (block_operands ` set (function_blocks B')) \<union> ran (csymbols B) \<subseteq> scope n B" by blast
    then have "scoped n B'" unfolding scoped_def B'(4) mono .
    then show ?thesis using mono by (simp add: B'(3))
  qed
qed

lemma yields_set_csymbol:
  assumes "v \<in> usable n A"
  shows "yields n l l A (set_csymbol x v) (\<lambda>_. {})"
  unfolding yields_def
proof (intro allI impI)
  fix B u B'
  assume a: "scoped n B \<and> A \<subseteq> scope n B \<and> (l \<longrightarrow> insert_point B \<noteq> None) \<and> set_csymbol x v B = Inr (u, B')"
  then have B': "B' = B\<lparr>csymbols := (csymbols B)(x \<mapsto> v)\<rparr>" by (simp add: set_csymbol_def sem_simps)
  have "v \<in> scope n B" using assms a usable_scope [of A n B] by blast
  moreover have "ran ((csymbols B)(x \<mapsto> v)) \<subseteq> insert v (ran (csymbols B))" by (auto simp: ran_def split: if_splits)
  ultimately show "scoped n B' \<and> scope n B \<subseteq> scope n B' \<and> {} \<subseteq> scope n B' \<and> (l \<longrightarrow> insert_point B' \<noteq> None)"
    using a by (auto simp: B' scoped_def)
qed

text \<open>A statement need not leave an insert point.\<close>

lemma yields_end: "yields n l True A p R \<Longrightarrow> yields n l False A p R"
  unfolding yields_def by blast

section \<open>Expressions\<close>

lemmas yields_intros = yields_bind yields_seq yields_if yields_option yields_create yields_terminator yields_block yields_points
  yields_runtime yields_assert yields_fail

lemma yields_leaf: "yields n l l A (return v) (\<lambda>_. {})"
  by (rule yields_return) simp

lemma yields_skip: "yields n l False A (return v) (\<lambda>_. {})"
  by (simp add: yields_def sem_simps)

lemmas yields_rules = yields_intros yields_symbols yields_gets yields_leaf yields_return

lemma yields_helpers:
  "v \<in> usable n A \<Longrightarrow> p \<in> usable n A \<Longrightarrow> yields n True True A (create_store v p) (\<lambda>_. {})"
  "yields n True True A reset_jit_function (\<lambda>_. {})"
  "v \<in> usable n A \<Longrightarrow> yields n True True A (getAsObject v) (\<lambda>v. {v})"
  "v \<in> usable n A \<Longrightarrow> yields n True True A (getAsSmallInt v) (\<lambda>v. {v})"
  "v \<in> usable n A \<Longrightarrow> yields n True True A (small_int_of v) (\<lambda>v. {v})"
  unfolding create_store_def reset_jit_function_def getAsObject_def getAsSmallInt_def small_int_of_def
  by (rule yields_rules | simp)+

lemma yields_symbol:
  "yields n l l A (the_symbol x) (\<lambda>v. {v})" "yields n l l A (lookupSymbolAddr x) (\<lambda>v. {v})"
  unfolding the_symbol_def lookupSymbolAddr_def by (rule yields_rules | simp)+

lemma yields_leaves:
  "yields n l l A (compile_string E m st) (\<lambda>v. {v})"
  "yields n True True A (compile_new cname) (\<lambda>v. {v})"
  unfolding compile_string_def compile_new_def by (rule yields_rules | simp)+

lemma yields_binop:
  "a \<in> usable n A \<Longrightarrow> b \<in> usable n A \<Longrightarrow> yields n True True A (compileBinOp op a b) (\<lambda>v. {v})"
  unfolding compileBinOp_def compile_compare_def compileBinaryOp_def by (rule yields_rules yields_helpers | simp)+

lemma yields_captured:
  "arr \<in> usable n A \<Longrightarrow> yields n True True A (copy_captured xs arr i) (\<lambda>_. {})"
proof (induction xs arbitrary: i A)
  case (Cons x xs)
  show ?case unfolding copy_captured.simps
    by (rule yields_rules yields_helpers yields_symbol Cons.IH | simp add: Cons.prems)+
qed (simp add: yields_leaf)

lemma yields_closure: "yields n True True A (compile_closure D) (\<lambda>v. {v})"
  unfolding compile_closure_def Let_def
  by (rule yields_rules yields_helpers yields_symbol yields_captured | simp)+

lemma yields_closure_call:
  "ob \<in> usable n A \<Longrightarrow> set as \<subseteq> usable n A \<Longrightarrow> yields n True True A (compile_closure_call ob as) (\<lambda>v. {v})"
  unfolding compile_closure_call_def by (rule yields_rules yields_helpers | simp)+

lemma yields_guard: "ob \<in> usable n A \<Longrightarrow> yields n True True A (compile_guard a ob h miss) (\<lambda>_. {})"
  unfolding compile_guard_def by (rule yields_rules yields_helpers | simp)+

lemma yields_operands:
  "\<Union> (set_option ` set vs) \<subseteq> usable n A \<Longrightarrow> yields n l l A (the_operands vs) set"
proof (induction vs arbitrary: A)
  case (Cons v vs)
  show ?case unfolding the_operands.simps
    by (rule yields_rules Cons.IH | use Cons.prems in auto)+
qed (simp add: yields_return)

lemma yields_slow_path: "yields n True True A (compile_slow_path k) (\<lambda>_. {})"
proof -
  have operands: "yields n True True A (patchpoint_operands k) set"
    unfolding patchpoint_operands_def Let_def
    by (rule yields_bind yields_symbols(1) yields_gets yields_runtime yields_operands
      | force simp: usable_def ran_def split: option.splits)+
  show ?thesis
    unfolding compile_slow_path_def by (rule operands yields_rules yields_helpers | simp)+
qed

lemma yields_fast_path:
  "ob \<in> usable n A \<Longrightarrow> sel \<in> usable n A \<Longrightarrow> set as \<subseteq> usable n A \<Longrightarrow>
    yields n True True A (compile_fast_path k st ob sel as) (\<lambda>v. {v})"
  unfolding compile_fast_path_def by (rule yields_rules yields_helpers | simp add: method_pointer_def)+

lemma yields_method_call:
  "ob \<in> usable n A \<Longrightarrow> sel \<in> usable n A \<Longrightarrow> set as \<subseteq> usable n A \<Longrightarrow>
    yields n True True A (compile_method_call k ob sel as) (\<lambda>v. {v})"
  unfolding compile_method_call_def
  by (rule yields_rules yields_guard yields_slow_path yields_fast_path | simp)+

section \<open>Statements and functions\<close>

text \<open>The statements behind a return are not compiled.\<close>

lemma yields_live: "yields n True False A q (\<lambda>_. {}) \<Longrightarrow>
    yields n l False A (bind (gets insert_point) (\<lambda>p. if p = None then return () else q)) (\<lambda>_. {})"
  unfolding yields_def by (auto simp: sem_simps)

lemma yields_walk:
  "yields n True True A (compile_expr E e) (\<lambda>v. {v})" "(D :: cdecl) = D"
  "yields n True False A (compile_stmt E s) (\<lambda>_. {})" "yields n True True A (compile_args E es) set"
  "yields n l False A (compile_stmts E ss) (\<lambda>_. {})" "yields n True True A (compile_init E i x) (\<lambda>_. {})"
proof (induction e and D and s and es and ss and i arbitrary: A and and A and A and A l and A x rule: syntax_induct)
  case (Call k e meth es)
  show ?case unfolding compile_expr.simps
    by (rule Call.IH yields_rules yields_helpers yields_closure_call yields_method_call | simp)+
qed (simp_all only: compile_expr.simps compile_args.simps compile_init.simps compile_stmt.simps compile_stmts.simps,
  (assumption | rule yields_rules yields_helpers yields_symbol yields_leaves yields_binop yields_closure yields_live yields_skip | simp | rule yields_end)+)

lemma yields_body: "yields n True False {} (compile_body E D) (\<lambda>_. {})"
  unfolding compile_body_def by (rule yields_rules yields_walk | simp)+

lemma yields_allocas: "yields n True True A (create_allocas k) set"
  by (induction k arbitrary: A) (simp only: create_allocas.simps, (assumption | rule yields_rules | simp)+)+

lemma yields_store_params:
  "i + length xs \<le> n \<Longrightarrow> set as \<subseteq> usable n A \<Longrightarrow> yields n True True A (store_params xs as i) (\<lambda>_. {})"
proof (induction xs as i arbitrary: A rule: store_params.induct)
  case (1 x xs a as i)
  show ?case unfolding store_params.simps
    by (rule yields_rules yields_helpers yields_set_csymbol "1.IH" | use "1.prems" in simp)+
qed (simp_all add: yields_leaf)

lemma yields_store_locals:
  "set as \<subseteq> usable n A \<Longrightarrow> yields n True True A (store_locals xs as) (\<lambda>_. {})"
proof (induction xs as arbitrary: A rule: store_locals.induct)
  case (1 x xs a as)
  show ?case unfolding store_locals.simps
    by (rule yields_rules yields_helpers yields_set_csymbol "1.IH" | use "1.prems" in simp)+
qed (simp_all add: yields_leaf)

lemma yields_elements:
  "arr \<in> usable n A \<Longrightarrow> yields n True True A (element_symbols xs arr i) (\<lambda>_. {})"
proof (induction xs arbitrary: i A)
  case (Cons x xs)
  show ?case unfolding element_symbols.simps
    by (rule yields_rules yields_set_csymbol Cons.IH | simp add: Cons.prems)+
qed (simp add: yields_leaf)

lemma yields_prologue:
  "length (decl_params D) + 2 \<le> n \<Longrightarrow> yields n True True A (method_prologue D info ivs) (\<lambda>_. {})"
  "length (decl_params D) + 1 \<le> n \<Longrightarrow> yields n True True A (closure_prologue D info) (\<lambda>_. {})"
  unfolding method_prologue_def closure_prologue_def array_symbols_def
  by (rule yields_rules yields_helpers yields_allocas yields_set_csymbol yields_store_params yields_store_locals
      yields_elements | simp)+

lemma build_scoped:
  assumes "build_function D m c = Inr (f, c')" and "yields n True False {} m (\<lambda>_. {})"
  shows "code_scoped n f"
proof -
  let ?B = "new_builder D c"
  obtain u B where m: "m ?B = Inr (u, B)" "f = function_blocks B"
    using assms(1) by (auto simp: build_function_def split: sum.splits)
  have "scoped n ?B \<and> {} \<subseteq> scope n ?B \<and> (True \<longrightarrow> insert_point ?B \<noteq> None) \<and> m ?B = Inr (u, B)"
    by (simp add: m(1)) (simp add: scoped_def new_builder_def block_operands_def)
  then have "scoped n B" using assms(2) unfolding yields_def by blast
  then show ?thesis by (auto simp: scoped_def code_scoped_def list_all_iff m(2))
qed

section \<open>Properties\<close>

text \<open>
  C11. Every operand in the code of a compiled method or closure is a constant, the result of one of its
  instructions, or an argument that its LLVM type has.
\<close>

theorem operands_in_scope:
  "(compileMethod E D cls c = Inr (f, c') \<longrightarrow>
      code_scoped (length (parameter_types (fst (getMethodType ivars (length (decl_params D)) T)))) f) \<and>
   (compileClosure E D c = Inr (f, c') \<longrightarrow>
      code_scoped (length (parameter_types (fst (getClosureType bound (length (decl_params D)) T)))) f)"
proof (intro conjI impI)
  assume "compileMethod E D cls c = Inr (f, c')"
  then obtain info ks c1 where "build_function D (seq (method_prologue D info ks) (compile_body E D)) c1 = Inr (f, c')"
    unfolding compileMethod_def by (elim bind_InrE) (rule that)
  then have "code_scoped (length (decl_params D) + 2) f"
    by (rule build_scoped) (rule yields_seq [OF yields_prologue(1) yields_body], simp)
  moreover have "length (parameter_types (fst (getMethodType ivars (length (decl_params D)) T))) = length (decl_params D) + 2"
    by (simp add: getMethodType_def create_struct_def)
  ultimately show "code_scoped (length (parameter_types (fst (getMethodType ivars (length (decl_params D)) T)))) f" by simp
next
  assume "compileClosure E D c = Inr (f, c')"
  then obtain info c1 where "build_function D (seq (closure_prologue D info) (compile_body E D)) c1 = Inr (f, c')"
    unfolding compileClosure_def by (elim bind_InrE) (rule that)
  then have "code_scoped (length (decl_params D) + 1) f"
    by (rule build_scoped) (rule yields_seq [OF yields_prologue(2) yields_body], simp)
  moreover have "length (parameter_types (fst (getClosureType bound (length (decl_params D)) T))) = length (decl_params D) + 1"
    by (simp add: getClosureType_def create_struct_def Let_def)
  ultimately show "code_scoped (length (parameter_types (fst (getClosureType bound (length (decl_params D)) T)))) f" by simp
qed

lemma operands_in_scope_witness:
  "\<exists>f c'. compileClosure sample_env identity_decl initial_context = Inr (f, c') \<and> code_scoped 2 f"
proof -
  have "\<exists>f c'. compileClosure sample_env identity_decl initial_context = Inr (f, c')"
    by (simp add: compileClosure_def build_function_def identity_decl_def new_builder_def closure_prologue_def
      compile_body_def sem_simps initial_context_def fresh_decl_def reset_jit_function_def create_def append_instr_def
      empty_block_def set_csymbol_def create_store_def array_symbols_def lookupSymbolAddr_def create_block_def
      getAsSmallInt_def getAsObject_def create_terminator_def)
  then obtain f c' where f: "compileClosure sample_env identity_decl initial_context = Inr (f, c')" by blast
  have "length (parameter_types (fst (getClosureType 0 (length (decl_params identity_decl)) []))) = 2"
    by (simp add: getClosureType_def create_struct_def Let_def identity_decl_def)
  then have "code_scoped 2 f"
    using operands_in_scope [where E = sample_env and D = identity_decl and c = initial_context and f = f and c' = c'
      and bound = 0 and T = "[]"] f by simp
  then show ?thesis using f by blast
qed

end
