(* ===== verification/Code_Emission.thy ===== *)
theory Code_Emission
  imports Reconstruct Compile
begin

text \<open>
  \<open>Context::compile\<close>: a finished function goes to LLVM, and the stack map of its code to the runtime.
  What LLVM does is the record \<open>llvm\<close>: its optimisations, whether an execution engine can be made
  for a module, the sections of the object that it emits for the code, and the address of the code.
\<close>

section \<open>LLVM\<close>

record 'e llvm =
  module_passes :: "ir \<Rightarrow> ir"
  function_passes :: "ir \<Rightarrow> ir"
  has_target :: bool
  create_engine :: "ir \<Rightarrow> 'e option"
  object_sections :: "'e \<Rightarrow> (string \<times> bytes) list"
  function_address :: "'e \<Rightarrow> code option"

text \<open>The stack maps that the runtime knows, and the messages on the error stream.\<close>

record jit_state =
  stackmaps :: "node \<rightharpoonup> stackmap"
  messages :: "string list"

type_synonym 'a emitting_run = "('a, jit_state) sem"

section \<open>The listener\<close>

definition registerStackMap :: "node \<Rightarrow> stackmap \<Rightarrow> unit emitting_run" where
  "registerStackMap func smp = modify (\<lambda>s. s\<lparr>stackmaps := (stackmaps s)(func \<mapsto> smp)\<rparr>)"

text \<open>For each section of the object that holds stack maps, a parser of the section is registered.\<close>

fun NotifyObjectEmitted :: "node \<Rightarrow> (string \<times> bytes) list \<Rightarrow> unit emitting_run" where
  "NotifyObjectEmitted currentlyCompiling [] = return ()"
| "NotifyObjectEmitted currentlyCompiling ((name, sec) # secs) =
     seq (if name = ''.llvm_stackmaps''
          then bind (lift (case newStackMapParser 0 sec of Inl e \<Rightarrow> Inl e | Inr (smp, _) \<Rightarrow> Inr smp))
                 (\<lambda>smp. registerStackMap currentlyCompiling (smp, sec))
          else return ())
     (NotifyObjectEmitted currentlyCompiling secs)"

section \<open>\<open>Context::compile\<close>\<close>

text \<open>
  The target machine and the engine are pointers.  The listener is registered with the engine before
  the engine is tested.
\<close>

definition register_listener :: "'e option \<Rightarrow> unit emitting_run" where
  "register_listener EE = (case EE of None \<Rightarrow> fail NullDeref | Some _ \<Rightarrow> return ())"

definition context_compile :: "'e llvm \<Rightarrow> node \<Rightarrow> ir \<Rightarrow> code option emitting_run" where
  "context_compile L currentlyCompiling F =
     (let M = function_passes L (module_passes L F)
      in seq (if has_target L then return () else fail NullDeref)
         (let EE = create_engine L M
          in seq (register_listener EE)
             (case EE of
                None \<Rightarrow> seq (modify (\<lambda>s. s\<lparr>messages := messages s @ [''Failed to construct Execution Engine'']\<rparr>)) (return None)
              | Some EE \<Rightarrow>
                  seq (NotifyObjectEmitted currentlyCompiling (object_sections L EE)) (return (function_address L EE)))))"

section \<open>Sections without stack maps\<close>

lemma other_sections:
  "\<forall>s \<in> set secs. fst s \<noteq> ''.llvm_stackmaps'' \<Longrightarrow> NotifyObjectEmitted d secs s0 = Inr ((), s0)"
  by (induction secs) (auto simp: sem_simps)

lemma notify_append:
  "NotifyObjectEmitted d (xs @ ys) = seq (NotifyObjectEmitted d xs) (NotifyObjectEmitted d ys)"
proof (induction xs)
  case (Cons x xs)
  then show ?case by (cases x) (simp add: sem_simps fun_eq_iff split: sum.split)
qed (simp add: sem_simps fun_eq_iff)

lemma registers_section:
  assumes "\<forall>z \<in> set (xs @ ys). fst z \<noteq> ''.llvm_stackmaps''" and "newStackMapParser 0 sec = Inr (smp, sec')"
  shows "NotifyObjectEmitted d (xs @ (''.llvm_stackmaps'', sec) # ys) s = Inr ((), s\<lparr>stackmaps := (stackmaps s)(d \<mapsto> (smp, sec))\<rparr>)"
proof -
  have "NotifyObjectEmitted d xs s = Inr ((), s)" for s using assms(1) by (intro other_sections) simp
  moreover have "NotifyObjectEmitted d ys s = Inr ((), s)" for s using assms(1) by (intro other_sections) simp
  ultimately show ?thesis by (simp add: notify_append sem_simps assms(2) registerStackMap_def)
qed

section \<open>Properties\<close>

text \<open>
  C13. Compiling a function hands its stack map to the runtime: if the emitted object has one section of
  stack maps, in the format that LLVM documents, then afterwards the function, when it gives up, finds
  the parser of this section, and from it the values of the first record; the stack maps of other
  functions stay.
\<close>

theorem stack_map_registered:
  assumes "context_compile L n F s = Inr (a, s')" and "create_engine L (function_passes L (module_passes L F)) = Some EE"
    and "object_sections L EE = xs @ (''.llvm_stackmaps'', sec) # ys"
    and "\<forall>z \<in> set (xs @ ys). fst z \<noteq> ''.llvm_stackmaps''"
    and "length fs = 3 * nf" and "nf * 24 < 2 ^ 32" and "length cs * 8 < 2 ^ 32" and "length (r # rs) < 2 ^ 32"
    and "locations r = first # ls" and "length (locations r) < 2 ^ 16"
    and "list_all2 (\<lambda>l v. location_value regs l = Inr v) ls vs"
    and "sec = encode_section fs cs (r # rs)" and "cur_jit_function c = n"
  shows "a = function_address L EE \<and> (\<forall>k. k \<noteq> n \<longrightarrow> stackmaps s' k = stackmaps s k) \<and>
    (\<exists>smp p q q'. getStackMap (stackmaps s') c = Inr ((smp, sec), c) \<and> getNthRecord smp 0 sec = Inr (p, sec) \<and>
      newSMRecordParser p sec = Inr (q, sec) \<and>
      next_values regs q (Suc (length ls)) sec = Inr ((ucast (regnum first) # vs, q'), sec))"
proof -
  note read = section_values [OF assms(5-12) HOL.refl HOL.refl HOL.refl]
  have "a = function_address L EE \<and> s' = s\<lparr>stackmaps := (stackmaps s)(n \<mapsto> (\<lparr>base = 0,
      records_base = 16 + nf * 24 + length cs * 8\<rparr>, sec))\<rparr>"
    using assms(1) by (auto simp: context_compile_def Let_def assms(2,3) register_listener_def sem_simps
        registers_section [OF assms(4) read(1)] split: if_splits)
  moreover from this have "getStackMap (stackmaps s') c = Inr ((\<lparr>base = 0, records_base = 16 + nf * 24 + length cs * 8\<rparr>, sec), c)"
    by (simp add: getStackMap_def sem_simps assms(13))
  ultimately show ?thesis using read(2,4,6) by auto
qed

text \<open>
  Without an execution engine, compiling a function faults: the listener is registered through the null
  pointer before the test that reports the error, so that the report is never made.
\<close>

theorem missing_engine_faults:
  "(create_engine L (function_passes L (module_passes L F)) = None \<longrightarrow> context_compile L n F s = Inl NullDeref) \<and>
   (\<forall>a s'. context_compile L n F s = Inr (a, s') \<longrightarrow> messages s' = messages s)"
proof (intro conjI allI impI)
  assume "create_engine L (function_passes L (module_passes L F)) = None"
  then show "context_compile L n F s = Inl NullDeref"
    by (simp add: context_compile_def Let_def register_listener_def sem_simps)
next
  fix a s'
  have quiet: "NotifyObjectEmitted n secs s = Inr ((), s') \<Longrightarrow> messages s' = messages s" for secs s s'
  proof (induction secs arbitrary: s)
    case (Cons z secs)
    then show ?case by (cases z) (fastforce simp: sem_simps registerStackMap_def split: if_splits sum.splits)
  qed (simp add: sem_simps)
  assume "context_compile L n F s = Inr (a, s')"
  then show "messages s' = messages s"
    by (auto simp: context_compile_def Let_def register_listener_def sem_simps dest: quiet split: if_splits option.splits sum.splits)
qed

section \<open>An object\<close>

text \<open>LLVM that changes nothing, and emits the section of \<open>Stack_Map\<close> behind the code.\<close>

definition sample_llvm :: "unit llvm" where
  "sample_llvm = \<lparr>module_passes = (\<lambda>f. f), function_passes = (\<lambda>f. f), has_target = True,
     create_engine = (\<lambda>f. if f = [] then None else Some ()),
     object_sections = (\<lambda>_. [(''.text'', [0xC3]), (''.llvm_stackmaps'', sample_section)]),
     function_address = (\<lambda>_. Some (JitCode 0))\<rparr>"

definition no_stackmaps :: jit_state where
  "no_stackmaps = \<lparr>stackmaps = Map.empty, messages = []\<rparr>"

lemma stack_map_registered_witness:
  "\<exists>s' smp p q q'. context_compile sample_llvm 0x5000 [empty_block] no_stackmaps = Inr (Some (JitCode 0), s') \<and>
     getStackMap (stackmaps s') (initial_context\<lparr>cur_jit_function := 0x5000\<rparr>) =
       Inr ((smp, sample_section), initial_context\<lparr>cur_jit_function := 0x5000\<rparr>) \<and>
     getNthRecord smp 0 sample_section = Inr (p, sample_section) \<and>
     newSMRecordParser p sample_section = Inr (q, sample_section) \<and>
     next_values sample_registers q 4 sample_section = Inr (([3, 0x5020, 0x7500, 0x75F0], q'), sample_section)"
proof -
  have vals: "list_all2 (\<lambda>l v. location_value sample_registers l = Inr v) (tl (locations sample_record))
      [0x5020, 0x7500, 0x75F0]"
    by code_simp
  have first: "newStackMapParser 0 sample_section = Inr (\<lparr>base = 0, records_base = 40\<rparr>, sample_section)"
    using section_read(1) [of "[0x1000, 64, 1]" 1 "[]" "[sample_record]"] by (simp add: sample_section_def)
  have "\<exists>s'. context_compile sample_llvm 0x5000 [empty_block] no_stackmaps = Inr (Some (JitCode 0), s')"
    by (simp add: context_compile_def Let_def sample_llvm_def register_listener_def sem_simps first registerStackMap_def)
  then obtain s' where s': "context_compile sample_llvm 0x5000 [empty_block] no_stackmaps = Inr (Some (JitCode 0), s')" ..
  have "\<exists>smp p q q'. getStackMap (stackmaps s') (initial_context\<lparr>cur_jit_function := 0x5000\<rparr>) =
       Inr ((smp, sample_section), initial_context\<lparr>cur_jit_function := 0x5000\<rparr>) \<and>
     getNthRecord smp 0 sample_section = Inr (p, sample_section) \<and>
     newSMRecordParser p sample_section = Inr (q, sample_section) \<and>
     next_values sample_registers q (Suc (length (tl (locations sample_record)))) sample_section =
       Inr ((ucast (regnum (hd (locations sample_record))) # [0x5020, 0x7500, 0x75F0], q'), sample_section)"
    using stack_map_registered [OF s', where EE = "()" and xs = "[(''.text'', [0xC3])]" and ys = "[]" and nf = 1 and rs = "[]",
        OF _ _ _ _ _ _ _ sample_record_locations(1) _ vals sample_section_def]
    by (simp add: sample_llvm_def sample_record_def)
  then show ?thesis unfolding sample_record_locations(2,3) using s' by simp
qed

lemma missing_engine_faults_witness:
  "context_compile sample_llvm 0x5000 [] no_stackmaps = Inl NullDeref"
  by (rule missing_engine_faults [THEN conjunct1, rule_format]) (simp add: sample_llvm_def)

end
