(* ===== verification/Trampoline.thy ===== *)
theory Trampoline
  imports Reconstruct
begin

text \<open>
  The function that compiled code calls when it gives up (\<open>asm_generate/x86_trampoline.cpp\<close> and the
  assembly made from it that is linked, \<open>x86_trampoline_final.s\<close>): it saves the registers where the
  parser of stack maps reads them, calls \<open>reconstructInterpreterPassthrough\<close>, restores the registers
  and moves the result to the register that the stack map names.
\<close>

section \<open>The machine\<close>

text \<open>The general registers, in the order of their DWARF numbers.\<close>

datatype reg =
    RAX | RDX | RCX | RBX | RSI | RDI | RBP | RSP | R8 | R9 | R10 | R11 | R12 | R13 | R14 | R15

definition dwarf_reg_names :: "reg list" where
  "dwarf_reg_names = [RAX, RDX, RCX, RBX, RSI, RDI, RBP, RSP, R8, R9, R10, R11, R12, R13, R14, R15]"

text \<open>
  The state: the registers, the 64-bit words of the stack and of the static variables by their
  addresses, what the last addition or subtraction says for \<open>ja\<close>, and the state of the program.
\<close>

record host =
  gpr :: "reg \<Rightarrow> 64 word"
  memory :: "64 word \<Rightarrow> 64 word"
  above :: bool
  program_state :: ctx

type_synonym 'a on_host = "('a, host) sem"

definition aligned :: "64 word \<Rightarrow> bool" where
  "aligned a \<longleftrightarrow> unat a mod 8 = 0"

definition load_quad :: "64 word \<Rightarrow> 64 word on_host" where
  "load_quad a = (if aligned a then gets (\<lambda>s. memory s a) else fail BadPointer)"

definition store_quad :: "64 word \<Rightarrow> 64 word \<Rightarrow> unit on_host" where
  "store_quad a v = (if aligned a then modify (\<lambda>s. s\<lparr>memory := (memory s)(a := v)\<rparr>) else fail BadPointer)"

definition get_reg :: "reg \<Rightarrow> 64 word on_host" where
  "get_reg r = gets (\<lambda>s. gpr s r)"

definition set_reg :: "reg \<Rightarrow> 64 word \<Rightarrow> unit on_host" where
  "set_reg r v = modify (\<lambda>s. s\<lparr>gpr := (gpr s)(r := v)\<rparr>)"

text \<open>
  The instructions of the function, with the operands in the order of the assembly: source, then
  destination.  \<open>FromFrame k r\<close> is \<open>movq k(%rbp), r\<close>, \<open>ToFrame r k\<close> its converse, \<open>FromStatic\<close> and
  \<open>ToStatic\<close> access a static variable.  A push of \<open>%rsp\<close> stores the value before the push, a pop of
  it keeps the value popped.
\<close>

datatype insn =
    Push reg
  | Pop reg
  | Mov reg reg
  | MovL "32 word" reg
  | FromFrame "64 word" reg
  | ToFrame reg "64 word"
  | FromStatic "64 word" reg
  | ToStatic reg "64 word"
  | Add "64 word" reg
  | Sub "64 word" reg

fun run_insn :: "insn \<Rightarrow> unit on_host" where
  "run_insn (Push r) =
     bind (get_reg r) (\<lambda>v. bind (get_reg RSP) (\<lambda>sp. seq (set_reg RSP (sp - 8)) (store_quad (sp - 8) v)))"
| "run_insn (Pop r) =
     bind (get_reg RSP) (\<lambda>sp. bind (load_quad sp) (\<lambda>v. seq (set_reg RSP (sp + 8)) (set_reg r v)))"
| "run_insn (Mov r d) = bind (get_reg r) (set_reg d)"
| "run_insn (MovL i d) = set_reg d (ucast i)"
| "run_insn (FromFrame k d) = bind (get_reg RBP) (\<lambda>bp. bind (load_quad (bp + k)) (set_reg d))"
| "run_insn (ToFrame r k) = bind (get_reg r) (\<lambda>v. bind (get_reg RBP) (\<lambda>bp. store_quad (bp + k) v))"
| "run_insn (FromStatic a d) = bind (load_quad a) (set_reg d)"
| "run_insn (ToStatic r a) = bind (get_reg r) (store_quad a)"
| "run_insn (Add i d) =
     bind (get_reg d) (\<lambda>v. seq (set_reg d (v + i)) (modify (\<lambda>s. s\<lparr>above := v \<le> v + i \<and> v + i \<noteq> 0\<rparr>)))"
| "run_insn (Sub i d) =
     bind (get_reg d) (\<lambda>v. seq (set_reg d (v - i)) (modify (\<lambda>s. s\<lparr>above := i < v\<rparr>)))"

fun run_insns :: "insn list \<Rightarrow> unit on_host" where
  "run_insns [] = return ()"
| "run_insns (i # is) = seq (run_insn i) (run_insns is)"

section \<open>\<open>x86_trampoline\<close>\<close>

text \<open>The addresses that the linker gives to the two static variables.\<close>

record statics =
  return_register :: "64 word"
  return_value :: "64 word"

definition frame_entry :: "insn list" where
  "frame_entry = [Push RBP, Mov RSP RBP, Sub 176 RSP]"

definition saveregs :: "insn list" where
  "saveregs =
     [Push RAX, Push RDX, Push RCX, Push RBX, Push RSI, Push RDI, Push RBP, Push RSP,
      Push R8, Push R9, Push R10, Push R11, Push R12, Push R13, Push R14, Push R15]"

definition pass_arguments :: "statics \<Rightarrow> insn list" where
  "pass_arguments A =
     [Mov RSP R15, ToFrame R15 (- 168), Mov RSP R13, Add 120 R13, Mov R13 R14, ToFrame R14 (- 160),
      Mov RBP R11, ToFrame R11 (- 152),
      FromFrame (- 152) RDI, FromFrame (- 160) RSI, FromFrame (- 168) RDX, MovL (ucast (return_register A)) RCX]"

definition restoreregs :: "insn list" where
  "restoreregs =
     [Pop R15, Pop R14, Pop R13, Pop R12, Pop R11, Pop R10, Pop R9, Pop R8,
      Pop RSP, Pop RBP, Pop RDI, Pop RSI, Pop RBX, Pop RCX, Pop RDX, Pop RAX]"

text \<open>The cases of the \<open>switch\<close>: a slot for the variable bound to a register, and that register.\<close>

definition return_cases :: "(64 word \<times> reg) list" where
  "return_cases =
     [(- 24, RAX), (- 32, RDX), (- 40, RCX), (- 48, RBX), (- 56, RSI), (- 64, RDI), (- 72, RBP), (- 80, RSP),
      (- 88, R8), (- 96, R9), (- 104, R10), (- 112, R11), (- 120, R12), (- 128, R13), (- 136, R14), (- 144, R15)]"

fun return_case :: "statics \<Rightarrow> 64 word \<times> reg \<Rightarrow> insn list" where
  "return_case A (k, r) = [FromStatic (return_value A) RAX, ToFrame RAX k, FromFrame k r]"

definition switch_return_register :: "statics \<Rightarrow> unit on_host" where
  "switch_return_register A =
     seq (run_insns [FromStatic (return_register A) RAX, Mov RAX RCX, Sub 15 RCX])
     (bind (gets above) (\<lambda>a. if a then return ()
      else bind (get_reg RAX) (\<lambda>n. run_insns (return_case A (return_cases ! unat n)))))"

definition frame_exit :: "insn list" where
  "frame_exit = [Add 176 RSP, Pop RBP]"

text \<open>The result is the address that \<open>retq\<close> returns to.\<close>

definition retq :: "64 word on_host" where
  "retq = bind (get_reg RSP) (\<lambda>sp. bind (load_quad sp) (\<lambda>a. seq (set_reg RSP (sp + 8)) (return a)))"

definition x86_trampoline :: "statics \<Rightarrow> unit on_host \<Rightarrow> 64 word on_host" where
  "x86_trampoline A passthrough =
     seq (run_insns (frame_entry @ saveregs @ pass_arguments A))
     (seq passthrough
     (seq (run_insns (ToStatic RAX (return_value A) # restoreregs))
     (seq (switch_return_register A)
     (seq (run_insns frame_exit) retq))))"

section \<open>Calling \<open>reconstructInterpreterPassthrough\<close>\<close>

text \<open>
  The function gets the base pointer, the address of the first saved register, the address of the
  last and the address of \<open>return_register\<close>.  It leaves the frames of its callers alone and the
  registers that the System V interface makes it preserve; the others hold anything (\<open>junk\<close>).
\<close>

definition caller_saved :: "reg list" where
  "caller_saved = [RAX, RCX, RDX, RSI, RDI, R8, R9, R10, R11]"

definition after_call :: "64 word \<Rightarrow> (reg \<Rightarrow> 64 word) \<Rightarrow> (reg \<Rightarrow> 64 word) \<Rightarrow> reg \<Rightarrow> 64 word" where
  "after_call v junk g = (\<lambda>r. if r = RAX then v else if r \<in> set caller_saved then junk r else g r)"

definition saved_words :: "64 word \<Rightarrow> host \<Rightarrow> 64 word list" where
  "saved_words start s = map (\<lambda>i. memory s (start - 8 * word_of_nat i)) [0..<16]"

definition on_program :: "'a run \<Rightarrow> 'a on_host" where
  "on_program f = (\<lambda>s. case f (program_state s) of Inl e \<Rightarrow> Inl e | Inr (a, c) \<Rightarrow> Inr (a, s\<lparr>program_state := c\<rparr>))"

definition reconstructInterpreterPassthrough ::
  "(64 word list \<Rightarrow> (64 word option \<times> obj) run) \<Rightarrow> (reg \<Rightarrow> 64 word) \<Rightarrow> unit on_host" where
  "reconstructInterpreterPassthrough reconstruct junk =
     bind (get_reg RSI) (\<lambda>regs_start. bind (get_reg RCX) (\<lambda>return_reg.
     bind (gets (saved_words regs_start)) (\<lambda>regs.
     bind (on_program (reconstruct regs)) (\<lambda>(ret, v).
     seq (case ret of None \<Rightarrow> return () | Some n \<Rightarrow> store_quad return_reg n)
     (modify (\<lambda>s. s\<lparr>gpr := after_call v junk (gpr s)\<rparr>))))))"

section \<open>What is saved\<close>

text \<open>The words that the parser of stack maps finds for the registers, from the state at the call.\<close>

definition registers_seen :: "host \<Rightarrow> 64 word list" where
  "registers_seen s =
     map (\<lambda>r. if r = RBP then gpr s RSP - 8 else if r = RSP then gpr s RSP - 240 else gpr s r) dwarf_reg_names"

text \<open>The stack is aligned, and the frame of the trampoline does not reach the static variables.\<close>

definition statics_apart :: "statics \<Rightarrow> host \<Rightarrow> bool" where
  "statics_apart A s \<longleftrightarrow> aligned (gpr s RSP) \<and> aligned (return_register A) \<and> aligned (return_value A) \<and>
     return_register A \<noteq> return_value A \<and> return_register A < 2 ^ 32 \<and>
     (\<forall>k \<in> set [0..<40]. return_register A \<noteq> gpr s RSP - 8 * word_of_nat k \<and> return_value A \<noteq> gpr s RSP - 8 * word_of_nat k)"

lemma aligned_sub: "aligned a \<Longrightarrow> aligned b \<Longrightarrow> aligned (a - b)"
  unfolding aligned_def unat_sub_if' by (auto simp: mod_eq_0_iff_dvd)

named_theorems host_simps \<open>equations that run an instruction on a state\<close>

lemmas [host_simps] = load_quad_def store_quad_def get_reg_def set_reg_def

lemma run_insns_append: "run_insns (is @ js) = seq (run_insns is) (run_insns js)"
  by (induction "is") (simp_all add: seq_assoc)

lemma statics_apartD:
  assumes "statics_apart A s" and "k < 40"
  shows "return_register A \<noteq> gpr s RSP - 8 * word_of_nat k" and "return_value A \<noteq> gpr s RSP - 8 * word_of_nat k"
  using assms by (simp_all add: statics_apart_def)

lemma statics_not_slots:
  assumes "statics_apart A s"
  shows "return_register A \<noteq> gpr s RSP" "return_value A \<noteq> gpr s RSP"
    "return_register A \<noteq> gpr s RSP - 8" "return_value A \<noteq> gpr s RSP - 8"
    "i < 16 \<Longrightarrow> return_register A \<noteq> gpr s RSP - 192 - 8 * word_of_nat i"
    "i < 16 \<Longrightarrow> return_value A \<noteq> gpr s RSP - 192 - 8 * word_of_nat i"
  using statics_apartD [OF assms, of 0] statics_apartD [OF assms, of 1] statics_apartD [OF assms, of "24 + i"]
  by (simp_all add: algebra_simps)

lemma upto_16: "[0..<16] = [0, 1, 2, 3, 4, 5, 6, 7, 8, 9, 10, 11, 12, 13, 14, 15]"
  by code_simp

lemma saved:
  assumes "statics_apart A s"
  obtains s1 where "run_insns (frame_entry @ saveregs @ pass_arguments A) s = Inr ((), s1)"
    and "saved_words (gpr s RSP - 192) s1 = registers_seen s" and "gpr s1 RSI = gpr s RSP - 192"
    and "gpr s1 RCX = return_register A" and "gpr s1 RSP = gpr s RSP - 312" and "gpr s1 RBP = gpr s RSP - 8"
    and "memory s1 (gpr s RSP) = memory s (gpr s RSP)" and "memory s1 (gpr s RSP - 8) = gpr s RBP"
    and "program_state s1 = program_state s"
proof -
  have "aligned (gpr s RSP)" using assms by (simp add: statics_apart_def)
  then have al: "aligned (gpr s RSP - n)" if "unat n mod 8 = 0" for n
    using that by (intro aligned_sub) (simp_all add: aligned_def)
  have "unat (return_register A) < 2 ^ 32" using assms by (simp add: statics_apart_def word_less_nat_alt)
  then have rr: "ucast (ucast (return_register A) :: 32 word) = return_register A"
    by (simp add: word_unat_eq_iff unsigned_ucast_eq unsigned_take_bit_eq take_bit_nat_eq_self)
  show thesis
    by (rule that, simp add: frame_entry_def saveregs_def pass_arguments_def sem_simps host_simps al)
      (simp_all add: saved_words_def registers_seen_def dwarf_reg_names_def upto_16 rr)
qed

lemma restored:
  assumes "statics_apart A s" and "saved_words (gpr s RSP - 192) s2 = registers_seen s" and "gpr s2 RSP = gpr s RSP - 312"
  shows "run_insns (ToStatic RAX (return_value A) # restoreregs) s2 = Inr ((), s2\<lparr>
    memory := (memory s2)(return_value A := gpr s2 RAX), gpr := (gpr s)(RSP := gpr s RSP - 184, RBP := gpr s RSP - 8)\<rparr>)"
proof -
  have "aligned (gpr s RSP)" "aligned (return_value A)" using assms(1) by (simp_all add: statics_apart_def)
  then have al: "aligned (gpr s RSP - n)" if "unat n mod 8 = 0" for n
    using that by (intro aligned_sub) (simp_all add: aligned_def)
  have apart: "\<forall>k \<in> set [0..<40]. gpr s RSP - 8 * word_of_nat k \<noteq> return_value A"
    using assms(1) by (metis statics_apart_def)
  define M where "M = (memory s2)(return_value A := gpr s2 RAX)"
  have "map (\<lambda>i. M (gpr s RSP - 192 - 8 * word_of_nat i)) [0..<16] = registers_seen s"
    unfolding assms(2) [symmetric] saved_words_def M_def
    by (intro map_cong HOL.refl fun_upd_other) (use statics_not_slots(6) [OF assms(1), THEN not_sym] in simp)
  note words = this [unfolded upto_16 registers_seen_def dwarf_reg_names_def, simplified]
  have regs: "(gpr s2)(R15 := gpr s R15, R14 := gpr s R14, R13 := gpr s R13, R12 := gpr s R12, R11 := gpr s R11,
      R10 := gpr s R10, R9 := gpr s R9, R8 := gpr s R8, RBP := gpr s RSP - 8, RDI := gpr s RDI, RSI := gpr s RSI,
      RBX := gpr s RBX, RCX := gpr s RCX, RDX := gpr s RDX, RSP := gpr s RSP - 184, RAX := gpr s RAX) =
      (gpr s)(RSP := gpr s RSP - 184, RBP := gpr s RSP - 8)"
    by (rule ext, case_tac x) simp_all
  show ?thesis
    by (simp add: restoreregs_def sem_simps host_simps al \<open>aligned (return_value A)\<close> assms(3) M_def [symmetric] words regs)
qed


lemma dwarf_numbers:
  assumes "i < 16"
  shows "dwarf_reg_names ! i = RBP \<longleftrightarrow> i = 6" "dwarf_reg_names ! i = RSP \<longleftrightarrow> i = 7" "dwarf_reg_offset ! i = i"
proof -
  have "i \<in> set [0..<16]" using assms by simp
  then show "dwarf_reg_names ! i = RBP \<longleftrightarrow> i = 6" "dwarf_reg_names ! i = RSP \<longleftrightarrow> i = 7" "dwarf_reg_offset ! i = i"
    unfolding upto_16 by (auto simp: dwarf_reg_names_def dwarf_reg_offset_def)
qed

lemma not_frame_register:
  fixes n :: "64 word"
  assumes "n < 16" and "n \<noteq> 6" and "n \<noteq> 7"
  shows "dwarf_reg_names ! unat n \<noteq> RSP" and "dwarf_reg_names ! unat n \<noteq> RBP"
proof -
  have "unat n < 16" "unat n \<noteq> 6" "unat n \<noteq> 7"
    using assms by (simp_all add: word_less_nat_alt word_unat_eq_iff)
  then show "dwarf_reg_names ! unat n \<noteq> RSP" "dwarf_reg_names ! unat n \<noteq> RBP"
    by (simp_all add: dwarf_numbers)
qed

lemma return_cases_facts:
  "length return_cases = 16" "map snd return_cases = dwarf_reg_names"
  "(k, r) \<in> set return_cases \<Longrightarrow> unat k mod 8 = 0 \<and> k \<noteq> 0 \<and> k \<noteq> 8"
  by (auto simp: return_cases_def dwarf_reg_names_def)

text \<open>The \<open>switch\<close> sets the register to the result, and leaves other values in \<open>%rax\<close> and \<open>%rcx\<close>.\<close>

lemma switched:
  assumes "statics_apart A s" and "gpr s3 RBP = gpr s RSP - 8" and "memory s3 (return_register A) = n"
    and "memory s3 (return_value A) = v" and "n < 16"
  obtains s4 where "switch_return_register A s3 = Inr ((), s4)"
    and "gpr s4 = (gpr s3)(RAX := v, RCX := n - 15, dwarf_reg_names ! unat n := v)"
    and "memory s4 (gpr s RSP) = memory s3 (gpr s RSP)" and "memory s4 (gpr s RSP - 8) = memory s3 (gpr s RSP - 8)"
    and "program_state s4 = program_state s3"
proof -
  have al: "aligned (gpr s RSP)" "aligned (return_value A)" "aligned (return_register A)"
    using assms(1) by (simp_all add: statics_apart_def)
  have n: "unat n < 16" "\<not> 15 < n" using assms(5) by (simp_all add: word_less_nat_alt)
  obtain k r where kr: "return_cases ! unat n = (k, r)" by fastforce
  then have "(k, r) \<in> set return_cases" using nth_mem [of "unat n" return_cases] n(1) by (simp add: return_cases_facts(1))
  from return_cases_facts(3) [OF this] have k: "unat k mod 8 = 0" "k \<noteq> 0" "k \<noteq> 8" by simp_all
  have r: "dwarf_reg_names ! unat n = r"
    using nth_map [of "unat n" return_cases snd] n(1) kr by (simp add: return_cases_facts(1,2))
  have "aligned (gpr s RSP - (8 - k))"
    by (intro aligned_sub al(1)) (use k(1) in \<open>simp_all add: aligned_def\<close>)
  then have slot: "aligned (k + gpr s RSP - 8)" by (simp add: algebra_simps)
  show thesis
    by (rule that [of "s3\<lparr>above := False, memory := (memory s3)(gpr s RSP - 8 + k := v),
        gpr := (gpr s3)(RAX := v, RCX := n - 15, dwarf_reg_names ! unat n := v)\<rparr>"])
      (use k in \<open>simp_all add: switch_return_register_def sem_simps host_simps al slot assms(2-4) n kr r fun_upd_twist algebra_simps\<close>)
qed


lemma trampoline_runs:
  assumes "statics_apart A s" and "reconstruct (registers_seen s) (program_state s) = Inr ((Some n, v), c')"
    and "n < 16" and "n \<noteq> 6" and "n \<noteq> 7"
  obtains s' where "x86_trampoline A (reconstructInterpreterPassthrough reconstruct junk) s = Inr (memory s (gpr s RSP), s')"
    and "gpr s' = (gpr s)(RSP := gpr s RSP + 8, RAX := v, RCX := n - 15, dwarf_reg_names ! unat n := v)"
    and "program_state s' = c'"
proof -
  have al: "aligned (gpr s RSP)" "aligned (return_register A)" "return_register A \<noteq> return_value A"
    using assms(1) by (simp_all add: statics_apart_def)
  have al8: "aligned (gpr s RSP - 8)" by (intro aligned_sub al(1)) (simp add: aligned_def)
  note apart = statics_not_slots [OF assms(1), THEN not_sym]
  obtain s1 where s1: "run_insns (frame_entry @ saveregs @ pass_arguments A) s = Inr ((), s1)"
    "saved_words (gpr s RSP - 192) s1 = registers_seen s" "gpr s1 RSI = gpr s RSP - 192"
    "gpr s1 RCX = return_register A" "gpr s1 RSP = gpr s RSP - 312" "gpr s1 RBP = gpr s RSP - 8"
    "memory s1 (gpr s RSP) = memory s (gpr s RSP)" "memory s1 (gpr s RSP - 8) = gpr s RBP"
    "program_state s1 = program_state s"
    using saved [OF assms(1)] .
  define s2 where "s2 = s1\<lparr>program_state := c', memory := (memory s1)(return_register A := n),
      gpr := after_call v junk (gpr s1)\<rparr>"
  have 2: "reconstructInterpreterPassthrough reconstruct junk s1 = Inr ((), s2)"
    using assms(2) by (simp add: reconstructInterpreterPassthrough_def on_program_def sem_simps host_simps s1 al s2_def)
  have "saved_words (gpr s RSP - 192) s2 = registers_seen s"
    unfolding s1(2) [symmetric] saved_words_def s2_def by (intro map_cong HOL.refl) (simp add: apart(5))
  note 3 = restored [OF assms(1) this]
  have sp: "gpr s2 RSP = gpr s RSP - 312" by (simp add: s2_def after_call_def caller_saved_def s1)
  define s3 where "s3 = s2\<lparr>memory := (memory s2)(return_value A := gpr s2 RAX),
      gpr := (gpr s)(RSP := gpr s RSP - 184, RBP := gpr s RSP - 8)\<rparr>"
  have s3: "gpr s3 RBP = gpr s RSP - 8" "memory s3 (return_register A) = n" "memory s3 (return_value A) = v"
    using al(3) by (simp_all add: s3_def s2_def after_call_def)
  obtain s4 where s4: "switch_return_register A s3 = Inr ((), s4)"
    "gpr s4 = (gpr s3)(RAX := v, RCX := n - 15, dwarf_reg_names ! unat n := v)"
    "memory s4 (gpr s RSP) = memory s3 (gpr s RSP)" "memory s4 (gpr s RSP - 8) = memory s3 (gpr s RSP - 8)"
    "program_state s4 = program_state s3"
    using switched [OF assms(1) s3 assms(3)] .
  note r = not_frame_register [OF assms(3-5)]
  have exit: "run_insns frame_exit s4 = Inr ((), s4\<lparr>above := gpr s RSP - 184 \<le> gpr s RSP - 8 \<and> gpr s RSP \<noteq> 8,
      gpr := (gpr s)(RSP := gpr s RSP, RAX := v, RCX := n - 15, dwarf_reg_names ! unat n := v)\<rparr>)"
    using r by (simp add: frame_exit_def sem_simps host_simps s4 s3_def s2_def s1 al8 apart(3,4))
      (intro arg_cong2 [where f = gpr_update] ext; simp)
  have c': "program_state s4 = c'" and ra: "memory s3 (gpr s RSP) = memory s (gpr s RSP)"
    by (simp_all add: s4 s3_def s2_def s1(7) apart(1,2))
  have sp': "(gpr s)(RAX := v, RCX := n - 15, dwarf_reg_names ! unat n := v, RSP := a) =
      (gpr s)(RSP := a, RAX := v, RCX := n - 15, dwarf_reg_names ! unat n := v)" for a
    by (rule ext) (use r in simp)
  show thesis
    by (rule that [of "s4\<lparr>above := gpr s RSP - 184 \<le> gpr s RSP - 8 \<and> gpr s RSP \<noteq> 8,
        gpr := (gpr s)(RSP := gpr s RSP + 8, RAX := v, RCX := n - 15, dwarf_reg_names ! unat n := v)\<rparr>"])
      (use r in \<open>simp_all add: x86_trampoline_def seq_apply s1(1) 2 3 [OF sp] s3_def [symmetric] s4(1) exit c' retq_def
        sem_simps host_simps al s4(3) ra sp' del: run_insns.simps\<close>)
qed

text \<open>The words that stand for the registers, by their numbers.\<close>

lemma register_seen:
  "saved_register (registers_seen s) r = saved_register (map (gpr s) dwarf_reg_names) r \<longleftrightarrow>
     \<not> (r = 7 \<or> r = 6 \<and> gpr s RBP \<noteq> gpr s RSP - 8)"
proof (cases "unat r < 16")
  case True
  have "dwarf_reg_names ! unat r = RBP \<longleftrightarrow> r = 6" "dwarf_reg_names ! unat r = RSP \<longleftrightarrow> r = 7"
    using dwarf_numbers(1,2) [OF True] by (simp_all add: word_unat_eq_iff)
  moreover have "length dwarf_reg_names = 16" "length dwarf_reg_offset = 16"
    by (simp_all add: dwarf_reg_names_def dwarf_reg_offset_def)
  ultimately show ?thesis
    using True dwarf_numbers(3) [OF True] by (auto simp: saved_register_def registers_seen_def)
next
  case False
  then show ?thesis by (auto simp: saved_register_def dwarf_reg_offset_def)
qed

section \<open>Properties\<close>


text \<open>
  The frame registers are not those of the compiled code: the trampoline saves \<open>%rbp\<close> after it
  has set up its own frame, and \<open>%rsp\<close> below it.  The parser of stack maps finds what the compiled
  code recorded exactly if the location is not relative to \<open>%rbp\<close> or \<open>%rsp\<close>, or \<open>%rbp\<close> happens to
  point eight bytes below the stack pointer of the call.
\<close>

theorem frame_registers_misread:
  "location_value (registers_seen s) l = location_value (map (gpr s) dwarf_reg_names) l \<longleftrightarrow>
     \<not> ((loc_type l = 1 \<or> loc_type l = 2) \<and> (regnum l = 7 \<or> regnum l = 6 \<and> gpr s RBP \<noteq> gpr s RSP - 8))"
  using register_seen [of s "regnum l"] by (auto simp: location_value_def saved_register_def split: sum.splits if_splits)

section \<open>Leaving the call of \<open>print\<close> through the trampoline\<close>

text \<open>The call of \<open>print\<close> in the closure of \<open>printing_body\<close>, with the storage of \<open>x\<close> in \<open>%rdi\<close>.\<close>

definition register_record :: stackmap_record where
  "register_record = printing_record\<lparr>locations := butlast (locations printing_record) @
     [\<lparr>loc_type = 1, loc_size = 8, regnum = 5, loc_offset = 0\<rparr>]\<rparr>"

definition register_maps :: "node \<rightharpoonup> stackmap" where
  "register_maps = [0x5000 \<mapsto> (\<lparr>base = 0, records_base = 40\<rparr>, encode_section [0x1000, 64, 1] [] [register_record])]"

definition sample_statics :: statics where
  "sample_statics = \<lparr>return_register = 0x6000, return_value = 0x6008\<rparr>"

definition leaving_host :: host where
  "leaving_host = \<lparr>gpr = (\<lambda>_. 0)(RSP := 0x10000, RBP := 0x10080, RDI := 0x75F0), memory = (\<lambda>_. 0)(0x10000 := 0x1028),
     above = False, program_state = compiled_context\<rparr>"

lemma sample_statics_apart:
  "\<forall>k \<in> set [0..<40]. (0x6000 :: 64 word) \<noteq> 0x10000 - 8 * word_of_nat k \<and> (0x6008 :: 64 word) \<noteq> 0x10000 - 8 * word_of_nat k"
  by code_simp

lemma leaving_host_facts:
  "statics_apart sample_statics leaving_host" "program_state leaving_host = compiled_context"
  "gpr leaving_host RSP = 0x10000" "memory leaving_host 0x10000 = 0x1028"
  using sample_statics_apart
  by (simp_all add: statics_apart_def leaving_host_def sample_statics_def aligned_def word_less_nat_alt del: set_upt)

lemma register_frame:
  "describes_frame (machine_at (resumed_program printing_body) (Suc k)) register_maps (registers_seen leaving_host)
     [''x'' \<mapsto> 0x75F0] 0x5020 3 compiled_context"
proof (rule describes_frameI [where first = "hd (locations register_record)"])
  have d: "cur_jit_function compiled_context = 0x5000" "closure_decls compiled_context 0x5000 = fresh_decl"
    by (simp_all add: compiled_context_def resumed_context_def initial_context_def)
  show "register_maps (cur_jit_function compiled_context) =
      Some (\<lparr>base = 0, records_base = 40\<rparr>, encode_section [0x1000, 64, 1] [] [register_record])"
    by (simp add: d register_maps_def)
  show "m_decls (machine_at (resumed_program printing_body) (Suc k)) (cur_jit_function compiled_context) =
      Some (ClosureDecl 0x5000 ''f'' [''x''] printing_body)"
    by (simp add: d resumed_program_def)
  show "list_all2 (\<lambda>l v. location_value (registers_seen leaving_host) l = Inr v) (tl (locations register_record))
      [0x5020, 0, 0, 0x75F0]"
    by (simp add: register_record_def printing_record_def location_value_def saved_register_def registers_seen_def
        dwarf_reg_names_def dwarf_reg_offset_def leaving_host_def)
  show "map Some [0x5020, 0, 0, 0x75F0] = patchpoint_args [''x'' \<mapsto> 0x75F0] 0x5020
      (ClosureDecl 0x5000 ''f'' [''x''] printing_body) (closure_decls compiled_context (cur_jit_function compiled_context))"
    by (simp add: d patchpoint_args_def fresh_decl_def)
qed (simp_all add: register_record_def printing_record_def)


end
