(* ===== verification/Driver.thy ===== *)
theory Driver
  imports Run_Invariants Fuel
begin

text \<open>
  The command line driver (\<open>main.cc\<close>): its options, a program from a file, and the loop that reads a
  line, parses it and interprets it.  The parser is made by a library that is not part of the sources,
  and the clock and the collector's statistics belong to the system: they are parameters.
\<close>

section \<open>The driver's surroundings\<close>

text \<open>
  Parsing the \<open>k\<close>-th input gives the tree, whose nodes are new, or the line and column of each
  syntax error that is reported.
\<close>

datatype parsed = Tree "stmt list" | SyntaxErrors "(nat \<times> nat) list"

record surroundings =
  d_parse :: "nat \<Rightarrow> string \<Rightarrow> parsed"
  d_contents :: "string \<Rightarrow> string"                  \<comment> \<open>what reading the named file gives\<close>
  d_timing :: "event list \<Rightarrow> string \<Rightarrow> string"       \<comment> \<open>the line that \<open>logTimeSince\<close> prints for a message\<close>
  d_memory :: "event list \<Rightarrow> string list"            \<comment> \<open>the memory statistics, line by line\<close>

fun decimal :: "nat \<Rightarrow> string" where
  "decimal n = (if n < 10 then [char_of (48 + n)] else decimal (n div 10) @ [char_of (48 + n mod 10)])"

declare decimal.simps [simp del]

definition syntax_error :: "nat \<times> nat \<Rightarrow> string" where
  "syntax_error p = ''Syntax error: '' @ [CHR 0x0A] @ '' line '' @ decimal (fst p) @ '', column '' @ decimal (snd p)"

fun report_errors :: "(nat \<times> nat) list \<Rightarrow> unit run" where
  "report_errors [] = return ()"
| "report_errors (p # ps) = seq (emit (Diagnostic (syntax_error p))) (report_errors ps)"

section \<open>Options\<close>

record options =
  o_repl :: bool
  o_memstats :: bool
  o_file :: "string option"
  o_timing :: bool
  o_force :: bool

definition no_options :: options where
  "no_options = \<lparr>o_repl = False, o_memstats = False, o_file = None, o_timing = False, o_force = False\<rparr>"

definition usage_text :: "string \<Rightarrow> string list" where
  "usage_text cmd =
     [''usage: '' @ cmd @ '' [-himt] [-f {file name}]'',
      '' -h          Display this help'', '' -c          Force compilation'',
      '' -i          Interpreter, enable REPL mode'', '' -m          Display memory usage stats on exit'',
      '' -t          Display timing information'', '' -f {file}   Load and execute file'']"

fun print_lines :: "string list \<Rightarrow> unit run" where
  "print_lines [] = return ()"
| "print_lines (l # ls) = seq (emit (Diagnostic l)) (print_lines ls)"

text \<open>What \<open>getopt\<close> returns, one option with its argument after the other.\<close>

fun read_options :: "string \<Rightarrow> (char \<times> string) list \<Rightarrow> options \<Rightarrow> options run" where
  "read_options cmd [] opts = return opts"
| "read_options cmd ((c, optarg) # rest) opts =
     (if c = CHR ''i'' then read_options cmd rest (opts\<lparr>o_repl := True\<rparr>)
      else if c = CHR ''f'' then read_options cmd rest (opts\<lparr>o_file := Some optarg\<rparr>)
      else if c = CHR ''t'' then read_options cmd rest (opts\<lparr>o_timing := True\<rparr>)
      else if c = CHR ''m'' then read_options cmd rest (opts\<lparr>o_memstats := True\<rparr>)
      else if c = CHR ''h'' then seq (print_lines (usage_text cmd)) (read_options cmd rest opts)
      else if c = CHR ''c'' then read_options cmd rest (opts\<lparr>o_force := True\<rparr>)
      else read_options cmd rest opts)"

definition logTimeSince :: "surroundings \<Rightarrow> options \<Rightarrow> string \<Rightarrow> unit run" where
  "logTimeSince D opts msg =
     (if \<not> o_timing opts then return ()
      else bind (gets console) (\<lambda>h. emit (Diagnostic (d_timing D h msg))))"

section \<open>The file and the loop\<close>

text \<open>\<open>None\<close> is the exit with \<open>EXIT_FAILURE\<close>.\<close>

definition run_file :: "surroundings \<Rightarrow> options \<Rightarrow> machine \<Rightarrow> string \<Rightarrow> stmt list option run" where
  "run_file D opts m name =
     (case d_parse D 0 (d_contents D name) of
        SyntaxErrors ps \<Rightarrow> seq (report_errors ps) (return None)
      | Tree t \<Rightarrow>
          seq (logTimeSince D opts ''Parsing program'')
          (seq (interpret_stmts m t)
          (seq (logTimeSince D opts ''Executing program'') (return (Some t)))))"

definition prompt :: "unit run" where
  "prompt = emit (PrintBytes Stdout (map of_char ([CHR 0x0A] @ ''MysoreScript> '')))"

text \<open>\<open>getline\<close> on the standard input: at its end, and ever after, it leaves an empty line.\<close>

fun getline :: "string list \<Rightarrow> string \<times> string list" where
  "getline [] = ('''', [])"
| "getline (buffer # rest) = (buffer, rest)"

text \<open>
  The loop \<open>while (repl)\<close>, which nothing but an empty line ends, with a bound on its iterations; the result
  is the trees that are kept.  \<open>k\<close> counts the inputs parsed before.
\<close>

fun repl_loop :: "nat \<Rightarrow> surroundings \<Rightarrow> options \<Rightarrow> machine \<Rightarrow> nat \<Rightarrow> string list \<Rightarrow> stmt list list run" where
  "repl_loop 0 D opts m k lines = fail Timeout"
| "repl_loop (Suc n) D opts m k lines =
     seq (logTimeSince D opts ''Garbage collection'')
     (seq prompt
     (case getline lines of (buffer, rest) \<Rightarrow>
        if buffer = '''' then return []
        else (case d_parse D k buffer of
            SyntaxErrors ps \<Rightarrow> seq (report_errors ps) (repl_loop n D opts m (Suc k) rest)
          | Tree t \<Rightarrow>
              seq (logTimeSince D opts ''Parsing program'')
              (seq (interpret_stmts m t)
              (seq (logTimeSince D opts ''Executing program'')
              (bind (repl_loop n D opts m (Suc k) rest) (\<lambda>asts. return (t # asts))))))))"

declare repl_loop.simps [simp del]

section \<open>\<open>main\<close>\<close>

datatype exit_status = EXIT_SUCCESS | EXIT_FAILURE

definition with_options :: "options \<Rightarrow> program \<Rightarrow> program" where
  "with_options opts P = P\<lparr>p_env := (p_env P)\<lparr>forceCompiler := o_force opts \<or> forceCompiler (p_env P)\<rparr>\<rparr>"

definition run_session :: "surroundings \<Rightarrow> options \<Rightarrow> machine \<Rightarrow> string list \<Rightarrow> exit_status run" where
  "run_session D opts m lines =
     seq (logTimeSince D opts ''Setup'')
     (bind (case o_file opts of None \<Rightarrow> return (Some []) | Some f \<Rightarrow> run_file D opts m f) (\<lambda>ast.
      if ast = None then return EXIT_FAILURE
      else seq (if o_repl opts
                then bind (repl_loop (m_fuel m) D opts m (if o_file opts = None then 0 else 1) lines) (\<lambda>_. return ())
                else return ())
           (seq (if o_memstats opts then bind (gets console) (\<lambda>h. print_lines (d_memory D h)) else return ())
                (return EXIT_SUCCESS))))"

text \<open>\<open>argv\<close> is the command line; with no command name, the code reads \<open>argv[0]\<close>, a null pointer.\<close>

definition run_main ::
  "surroundings \<Rightarrow> program \<Rightarrow> nat \<Rightarrow> string list \<Rightarrow> (char \<times> string) list \<Rightarrow> string list \<Rightarrow> exit_status run" where
  "run_main D P n argv getopt lines =
     (if argv = [] then fail NullDeref
      else bind (read_options (hd argv) getopt no_options)
        (\<lambda>opts. run_session D opts (machine_at (with_options opts P) n) lines))"

section \<open>Output leaves the rest alone\<close>

lemma report_errors_apply: "\<exists>h. report_errors ps c = Inr ((), c\<lparr>console := h\<rparr>)"
proof (induction ps arbitrary: c)
  case Nil
  then show ?case by (intro exI [of _ "console c"]) (simp add: sem_simps)
next
  case (Cons p ps)
  show ?case
    using Cons.IH [of "c\<lparr>console := console c @ [Diagnostic (syntax_error p)]\<rparr>"]
    by (simp add: sem_simps)
qed

lemma print_lines_apply: "\<exists>h. print_lines ls c = Inr ((), c\<lparr>console := h\<rparr>)"
proof (induction ls arbitrary: c)
  case Nil
  then show ?case by (intro exI [of _ "console c"]) (simp add: sem_simps)
next
  case (Cons l ls)
  show ?case using Cons.IH [of "c\<lparr>console := console c @ [Diagnostic l]\<rparr>"] by (simp add: sem_simps)
qed

lemma logTimeSince_apply: "\<exists>h. logTimeSince D opts msg c = Inr ((), c\<lparr>console := h\<rparr>)"
proof (cases "o_timing opts")
  case True
  then show ?thesis by (auto simp: logTimeSince_def sem_simps)
next
  case False
  then show ?thesis by (intro exI [of _ "console c"]) (simp add: logTimeSince_def sem_simps)
qed

lemma prompt_apply: "\<exists>h. prompt c = Inr ((), c\<lparr>console := h\<rparr>)"
  by (auto simp: prompt_def sem_simps)

lemma read_options_apply:
  "\<exists>opts' h. read_options cmd os opts c = Inr (opts', c\<lparr>console := h\<rparr>) \<and>
    (o_force opts' \<longleftrightarrow> o_force opts \<or> CHR ''c'' \<in> fst ` set os)"
proof (induction cmd os opts arbitrary: c rule: read_options.induct)
  case (1 cmd opts)
  then show ?case by (intro exI [of _ opts] exI [of _ "console c"]) (simp add: sem_simps)
next
  case (2 cmd ch optarg rest opts)
  show ?case
  proof (cases "ch = CHR ''h''")
    case True
    obtain h where h: "print_lines (usage_text cmd) c = Inr ((), c\<lparr>console := h\<rparr>)"
      using print_lines_apply by blast
    show ?thesis using 2(5) [of "c\<lparr>console := h\<rparr>"] True h by (auto simp: sem_simps)
  next
    case False
    then show ?thesis
      using 2(1) [of c] 2(2) [of c] 2(3) [of c] 2(4) [of c] 2(6) [of c] 2(7) [of c]
      by (simp split: if_splits)
  qed
qed

section \<open>Runs that end\<close>

text \<open>
  \<open>f j\<close> is a run with the bound \<open>j\<close>.  It ends from \<open>c\<close> keeping \<open>I\<close> when all large enough bounds give
  the same result, in a context where \<open>I\<close> holds.
\<close>

definition ends :: "(ctx \<Rightarrow> bool) \<Rightarrow> (nat \<Rightarrow> 'a run) \<Rightarrow> ctx \<Rightarrow> bool" where
  "ends I f c \<longleftrightarrow> (\<exists>n v d. I d \<and> (\<forall>j\<ge>n. f j c = Inr (v, d)))"

lemma ends_now: "f c = Inr (v, d) \<Longrightarrow> I d \<Longrightarrow> ends I (\<lambda>j. f) c"
  by (auto simp: ends_def)

lemma ends_bind:
  assumes "ends I f c" and "\<And>v d. I d \<Longrightarrow> ends I (\<lambda>j. g j v) d"
  shows "ends I (\<lambda>j. bind (f j) (g j)) c"
proof -
  obtain n v d where f: "I d" "\<And>j. j \<ge> n \<Longrightarrow> f j c = Inr (v, d)" using assms(1) by (auto simp: ends_def)
  from assms(2) [OF f(1), of v] obtain n' w e where
    g: "I e" "\<And>j. j \<ge> n' \<Longrightarrow> g j v d = Inr (w, e)" by (auto simp: ends_def)
  have "bind (f j) (g j) c = Inr (w, e)" if "j \<ge> max n n'" for j
    using f(2) [of j] g(2) [of j] that by (simp add: sem_simps)
  with g(1) show ?thesis unfolding ends_def by blast
qed

lemma ends_seq:
  "ends I f c \<Longrightarrow> (\<And>d. I d \<Longrightarrow> ends I g d) \<Longrightarrow> ends I (\<lambda>j. seq (f j) (g j)) c"
  for f :: "nat \<Rightarrow> unit run"
  using ends_bind [of I f c "\<lambda>j u. g j"] by (simp add: seq_def)

lemma ends_return: "I c \<Longrightarrow> ends I (\<lambda>j. return v) c"
  by (rule ends_now [where d = c]) (simp_all add: sem_simps)

text \<open>Output keeps \<open>I\<close>.\<close>

definition ignores_console :: "(ctx \<Rightarrow> bool) \<Rightarrow> bool" where
  "ignores_console I \<longleftrightarrow> (\<forall>c h. I c \<longrightarrow> I (c\<lparr>console := h\<rparr>))"

lemma ends_output:
  "ignores_console I \<Longrightarrow> I c \<Longrightarrow> \<exists>h. f c = Inr (v, c\<lparr>console := h\<rparr>) \<Longrightarrow> ends I (\<lambda>j. f) c"
  by (auto simp: ignores_console_def intro: ends_now)

lemmas outputs_end =
  ends_output [where f = "report_errors ps" for ps, OF _ _ report_errors_apply]
  ends_output [where f = "print_lines ls" for ls, OF _ _ print_lines_apply]
  ends_output [where f = "logTimeSince D opts msg" for D opts msg, OF _ _ logTimeSince_apply]
  ends_output [where f = prompt, OF _ _ prompt_apply]

lemma ends_later: "(\<And>j. n \<le> j \<Longrightarrow> f j = g j) \<Longrightarrow> ends I g c \<Longrightarrow> ends I f c"
proof -
  assume f: "\<And>j. n \<le> j \<Longrightarrow> f j = g j" and "ends I g c"
  then obtain n' v d where "I d" "\<forall>j\<ge>n'. g j c = Inr (v, d)" by (auto simp: ends_def)
  then show "ends I f c" using f unfolding ends_def by (intro exI [of _ "max n n'"] exI [of _ v] exI [of _ d]) simp
qed

lemma ends_console: "(\<And>h. ends I (\<lambda>j. g j h) c) \<Longrightarrow> ends I (\<lambda>j. bind (gets console) (g j)) c"
  unfolding ends_def by (simp add: sem_simps)

text \<open>The programs that the driver runs end and keep \<open>I\<close>.\<close>

definition trees_end :: "surroundings \<Rightarrow> (ctx \<Rightarrow> bool) \<Rightarrow> program \<Rightarrow> bool" where
  "trees_end D I Q \<longleftrightarrow> (\<forall>k s t c. d_parse D k s = Tree t \<longrightarrow> I c \<longrightarrow>
     (\<exists>n c'. run_program Q n t c = Inr ((), c') \<and> I c'))"

lemma tree_ends:
  assumes "jit_monotone Q" and "trees_end D I Q" and "d_parse D k s = Tree t" and "I c"
  shows "ends I (\<lambda>j. interpret_stmts (machine_at Q j) t) c"
proof -
  obtain n d where d: "run_program Q n t c = Inr ((), d)" "I d"
    using assms(2-4) unfolding trees_end_def by blast
  have "interpret_stmts (machine_at Q j) t c = Inr ((), d)" if "j \<ge> n" for j
    using returns_moreD [OF evaluation_more(5) [OF machine_le [OF assms(1) that]]] d(1)
    unfolding run_program_def by blast
  with d(2) show ?thesis by (auto simp: ends_def)
qed

lemma repl_ends:
  assumes "jit_monotone Q" and "trees_end D I Q" and io: "ignores_console I"
  shows "I c \<Longrightarrow> ends I (\<lambda>j. repl_loop (j - i) D opts (machine_at Q j) k lines) c"
proof (induction lines arbitrary: k c i)
  case Nil
  show ?case
  proof (rule ends_later [where n = "Suc i"])
    fix j assume "Suc i \<le> j"
    then obtain n where "j - i = Suc n" by (metis Suc_le_D Suc_diff_le Suc_leI diff_Suc_Suc le_SucI)
    then show "repl_loop (j - i) D opts (machine_at Q j) k [] =
        seq (logTimeSince D opts ''Garbage collection'') (seq prompt (return []))"
      by (simp add: repl_loop.simps)
  next
    show "ends I (\<lambda>j. seq (logTimeSince D opts ''Garbage collection'') (seq prompt (return []))) c"
      using Nil by (intro ends_seq outputs_end io ends_return)
  qed
next
  case (Cons buffer rest)
  let ?loop = "\<lambda>j. repl_loop (j - Suc i) D opts (machine_at Q j) (Suc k) rest"
  let ?line = "\<lambda>j. seq (logTimeSince D opts ''Garbage collection'') (seq prompt
      (if buffer = '''' then return []
       else (case d_parse D k buffer of
          SyntaxErrors ps \<Rightarrow> seq (report_errors ps) (?loop j)
        | Tree t \<Rightarrow> seq (logTimeSince D opts ''Parsing program'') (seq (interpret_stmts (machine_at Q j) t)
            (seq (logTimeSince D opts ''Executing program'') (bind (?loop j) (\<lambda>asts. return (t # asts))))))))"
  show ?case
  proof (rule ends_later [where n = "Suc i"])
    fix j assume "Suc i \<le> j"
    then have "j - i = Suc (j - Suc i)" by simp
    then show "repl_loop (j - i) D opts (machine_at Q j) k (buffer # rest) = ?line j"
      by (simp add: repl_loop.simps)
  next
    show "ends I ?line c"
    proof (cases "buffer = ''''")
      case True
      then show ?thesis using Cons.prems by (simp, intro ends_seq outputs_end io ends_return)
    next
      case False
      show ?thesis
      proof (cases "d_parse D k buffer")
        case (Tree t)
        show ?thesis
          using Cons.prems False Tree
          by (simp, intro ends_seq ends_bind outputs_end io ends_return tree_ends [OF assms(1,2) Tree] Cons.IH)
      next
        case (SyntaxErrors ps)
        show ?thesis using Cons.prems False SyntaxErrors by (simp, intro ends_seq outputs_end io Cons.IH)
      qed
    qed
  qed
qed

lemma file_ends:
  assumes "jit_monotone Q" and "trees_end D I Q" and io: "ignores_console I" and "I c"
  shows "ends I (\<lambda>j. run_file D opts (machine_at Q j) name) c"
proof (cases "d_parse D 0 (d_contents D name)")
  case (Tree t)
  then show ?thesis
    using assms(4) unfolding run_file_def
    by (simp, intro ends_seq outputs_end io ends_return tree_ends [OF assms(1,2) Tree])
next
  case (SyntaxErrors ps)
  then show ?thesis
    using assms(4) unfolding run_file_def by (simp, intro ends_seq outputs_end io ends_return)
qed

lemma session_runs_end:
  assumes "jit_monotone Q" and "trees_end D I Q" and io: "ignores_console I" and "I c"
  shows "ends I (\<lambda>j. run_session D opts (machine_at Q j) lines) c"
proof -
  note run = assms(1-3)
  have loaded: "ends I (\<lambda>j. case o_file opts of None \<Rightarrow> return (Some [])
      | Some f \<Rightarrow> run_file D opts (machine_at Q j) f) d" if "I d" for d
    using that by (cases "o_file opts") (simp_all add: ends_return file_ends [OF run])
  have repl: "ends I (\<lambda>j. if o_repl opts then bind (repl_loop j D opts (machine_at Q j) k lines) (\<lambda>_. return ())
      else return ()) d" if "I d" for d k
    using that repl_ends [OF run, of d 0 opts k lines]
    by (cases "o_repl opts") (simp_all, intro ends_bind ends_return, assumption+, rule ends_return)
  have stats: "ends I (\<lambda>j. if o_memstats opts then bind (gets console) (\<lambda>h. print_lines (d_memory D h))
      else return ()) d" if "I d" for d
    using that by (cases "o_memstats opts") (simp_all add: ends_return ends_console outputs_end io)
  have rest: "ends I (\<lambda>j. if ast = None then return EXIT_FAILURE
      else seq (if o_repl opts
                then bind (repl_loop j D opts (machine_at Q j) (if o_file opts = None then 0 else 1) lines) (\<lambda>_. return ())
                else return ())
           (seq (if o_memstats opts then bind (gets console) (\<lambda>h. print_lines (d_memory D h)) else return ())
                (return EXIT_SUCCESS))) d" if "I d" for d and ast :: "stmt list option"
    using that
    by (cases "ast = None") (simp_all only: if_True if_False simp_thms, intro ends_return,
        assumption, intro ends_seq repl stats ends_return)
  show ?thesis
    unfolding run_session_def machine_fields by (intro ends_seq ends_bind outputs_end io loaded rest assms(4))
qed

lemma jit_monotone_options: "jit_monotone P \<Longrightarrow> jit_monotone (with_options opts P)"
  by (simp add: jit_monotone_def with_options_def)

section \<open>After a return\<close>

lemma returning_skips: "isReturning c \<Longrightarrow> interpret_stmts m ss c = Inr ((), c)"
  by (cases ss) (simp_all add: evaluation_apply)

text \<open>What the loop keeps when it executes nothing.\<close>

fun trees_of :: "surroundings \<Rightarrow> nat \<Rightarrow> string list \<Rightarrow> stmt list list" where
  "trees_of D k [] = []"
| "trees_of D k (buffer # rest) =
     (if buffer = '''' then []
      else (case d_parse D k buffer of
          SyntaxErrors ps \<Rightarrow> trees_of D (Suc k) rest
        | Tree t \<Rightarrow> t # trees_of D (Suc k) rest))"

lemma repl_returning:
  "isReturning c \<Longrightarrow> length lines < n \<Longrightarrow>
    \<exists>h. repl_loop n D opts m k lines c = Inr (trees_of D k lines, c\<lparr>console := h\<rparr>)"
proof (induction lines arbitrary: k c n)
  case Nil
  obtain n' where n: "n = Suc n'" using Nil by (cases n) simp_all
  obtain h where h: "logTimeSince D opts ''Garbage collection'' c = Inr ((), c\<lparr>console := h\<rparr>)"
    using logTimeSince_apply by blast
  show ?case
    unfolding n by (subst repl_loop.simps) (simp add: h prompt_def sem_simps, intro exI, rule refl)
next
  case (Cons buffer rest)
  obtain n' where n: "n = Suc n'" "length rest < n'" using Cons.prems by (cases n) simp_all
  obtain h where h: "seq (logTimeSince D opts ''Garbage collection'') prompt c = Inr ((), c\<lparr>console := h\<rparr>)"
    using logTimeSince_apply [of D opts "''Garbage collection''" c] by (auto simp: prompt_def sem_simps)
  then have front: "seq (logTimeSince D opts ''Garbage collection'') (seq prompt k) c = k (c\<lparr>console := h\<rparr>)"
    for k :: "stmt list list run"
    by (simp add: seq_assoc [symmetric] sem_simps split: sum.splits)
  show ?case
  proof (cases "d_parse D k buffer")
    case (Tree t)
    obtain h1 where h1: "logTimeSince D opts ''Parsing program'' (c\<lparr>console := h\<rparr>) = Inr ((), c\<lparr>console := h1\<rparr>)"
      using logTimeSince_apply [of D opts _ "c\<lparr>console := h\<rparr>"] by force
    obtain h2 where h2: "logTimeSince D opts ''Executing program'' (c\<lparr>console := h1\<rparr>) = Inr ((), c\<lparr>console := h2\<rparr>)"
      using logTimeSince_apply [of D opts _ "c\<lparr>console := h1\<rparr>"] by force
    show ?thesis
      using Cons.IH [of "c\<lparr>console := h2\<rparr>" n' "Suc k"] Cons.prems n(2) Tree h1 h2
      unfolding n(1) by (subst repl_loop.simps) (simp only: front, auto simp: returning_skips sem_simps)
  next
    case (SyntaxErrors ps)
    obtain h1 where h1: "report_errors ps (c\<lparr>console := h\<rparr>) = Inr ((), c\<lparr>console := h1\<rparr>)"
      using report_errors_apply [of ps "c\<lparr>console := h\<rparr>"] by force
    show ?thesis
      using Cons.IH [of "c\<lparr>console := h1\<rparr>" n' "Suc k"] Cons.prems n(2) SyntaxErrors h1
      unfolding n(1) by (subst repl_loop.simps) (simp only: front, auto simp: sem_simps)
  qed
qed

section \<open>Properties\<close>

text \<open>
  C21. A session ends at the end of its input: the loop has no other exit than an empty line, and at the
  end of the input \<open>getline\<close> leaves one, for ever.  If every program that the parser gives ends and keeps
  an invariant that does not look at the console, compiled at once where the options ask for it, then the
  whole session ends, with the same result for every bound that is large enough, whatever the options and
  the lines are, empty ones among them or none.
\<close>

theorem session_ends:
  assumes "jit_monotone P" and "ignores_console I" and "argv \<noteq> []" and "I c"
    and trees: "\<And>opts. (o_force opts \<longleftrightarrow> CHR ''c'' \<in> fst ` set getopt) \<Longrightarrow>
      trees_end D I (with_options opts P)"
  shows "\<exists>n st c'. I c' \<and> (\<forall>j\<ge>n. run_main D P j argv getopt lines c = Inr (st, c'))"
proof -
  obtain opts h where opts: "read_options (hd argv) getopt no_options c = Inr (opts, c\<lparr>console := h\<rparr>)"
    "o_force opts \<longleftrightarrow> CHR ''c'' \<in> fst ` set getopt"
    using read_options_apply [of "hd argv" getopt no_options c] by (auto simp: no_options_def)
  have "I (c\<lparr>console := h\<rparr>)" using assms(2,4) by (simp add: ignores_console_def)
  then have "ends I (\<lambda>j. run_session D opts (machine_at (with_options opts P) j) lines) (c\<lparr>console := h\<rparr>)"
    by (rule session_runs_end [OF jit_monotone_options [OF assms(1)] trees [OF opts(2)] assms(2)])
  moreover have "run_main D P j argv getopt lines c =
      run_session D opts (machine_at (with_options opts P) j) lines (c\<lparr>console := h\<rparr>)" for j
    using assms(3) opts(1) by (simp add: run_main_def bind_def)
  ultimately show ?thesis by (auto simp: ends_def)
qed

text \<open>
  C39. Nothing ends a return that is made outside every function: the loop goes on reading and parsing
  lines, and executes none of them, whatever they say.
\<close>

theorem return_ends_session:
  assumes "isReturning c"
  shows "\<exists>h. repl_loop (Suc (length lines + n)) D opts m k lines c =
    Inr (trees_of D k lines, c\<lparr>console := h\<rparr>)"
  by (rule repl_returning [OF assms]) simp

section \<open>A concrete session\<close>

definition sample_surroundings :: surroundings where
  "sample_surroundings = \<lparr>
     d_parse = (\<lambda>k s. if s = ''x'' then SyntaxErrors [(1, 1)]
       else if s = ''return 42;'' then Tree [Return 0x5000 (Number 0x5008 42)]
       else Tree [ExprStmt (Number 0x5010 1)]),
     d_contents = (\<lambda>_. ''1''), d_timing = (\<lambda>_ msg. msg), d_memory = (\<lambda>_. [])\<rparr>"

definition numbers_only :: surroundings where
  "numbers_only = sample_surroundings\<lparr>d_parse :=
     (\<lambda>k s. if s = ''x'' then SyntaxErrors [(1, 1)] else Tree [ExprStmt (Number 0x5010 1)])\<rparr>"

lemma numbers_end:
  "trees_end numbers_only (\<lambda>c. \<not> isReturning c) (with_options opts interpreted_program)"
  by (auto simp: trees_end_def numbers_only_def run_program_def with_options_def run_simps
      split: if_splits)

lemma session_ends_witness:
  "\<exists>n st c'. \<not> isReturning c' \<and>
     (\<forall>j\<ge>n. run_main numbers_only interpreted_program j [''mysorescript''] [(CHR ''i'', '''')]
       [''1;'', ''x'', ''2;''] initial_context = Inr (st, c'))"
  by (rule session_ends [where I = "\<lambda>c. \<not> isReturning c", OF interpreted_jit _ _ _ numbers_end])
    (simp_all add: ignores_console_def)

lemma return_ends_session_witness:
  "\<exists>d h. run_program interpreted_program 1 [Return 0x5000 (Number 0x5008 42)] initial_context = Inr ((), d) \<and>
     repl_loop 2 sample_surroundings no_options (machine_at interpreted_program 1) 1 [''1;''] d
       = Inr ([[ExprStmt (Number 0x5010 1)]], d\<lparr>console := h\<rparr>)"
proof -
  have "\<exists>d. run_program interpreted_program 1 [Return 0x5000 (Number 0x5008 42)] initial_context = Inr ((), d) \<and>
      isReturning d"
    by (simp add: run_program_def initial_context_def run_simps first_free_eval)
  then obtain d where d: "run_program interpreted_program 1 [Return 0x5000 (Number 0x5008 42)] initial_context
      = Inr ((), d)" "isReturning d"
    by (elim exE conjE)
  have "trees_of sample_surroundings 1 [''1;''] = [[ExprStmt (Number 0x5010 1)]]"
    by (simp add: sample_surroundings_def)
  with d return_ends_session [OF d(2), of "[''1;'']" 0 sample_surroundings no_options "machine_at interpreted_program 1" 1]
  show ?thesis by (intro exI [of _ d]) (simp add: numeral_2_eq_2)
qed

end
