(* ===== verification/Split_Arithmetic.thy ===== *)
theory Split_Arithmetic
  imports Interpreter
begin

text \<open>
  The pass that splits arithmetic into a fast and a slow path (\<open>SplitArithmeticPass.cc\<close>): the scan that
  finds runs of calls to the arithmetic helpers, and the rewriting that puts a path without calls next
  to each of them.  A function is a list of labelled blocks; an instruction is named by its address,
  which is also the register of its result.
\<close>

section \<open>Functions\<close>

datatype ir_value =
    Arg nat                       \<comment> \<open>an argument of the function\<close>
  | Reg nat                       \<comment> \<open>the result of the instruction\<close>
  | PtrConst "64 word"            \<comment> \<open>the constant expression \<open>inttoptr\<close> of an integer\<close>
  | NullConst                     \<comment> \<open>\<open>ConstantPointerNull\<close>\<close>
  | IntConst "64 word"

datatype ir_binary = IrAdd | IrSub | IrMul | IrSDiv | IrAShr | IrShl | IrAnd | IrOr | IrEq

datatype ir_inst =
    CallInst "string option" "ir_value list"     \<comment> \<open>the name of the called function, unless the call is indirect\<close>
  | PtrToInt ir_value
  | IntToPtr ir_value
  | BinaryOperator ir_binary ir_value ir_value
  | PHINode "(ir_value \<times> nat) list"
  | OtherInst nat "ir_value list"                \<comment> \<open>loads, stores, \<dots>, told apart by a number\<close>
  | IrBr nat
  | IrCondBr ir_value nat nat
  | IrRet ir_value

type_synonym ir_block = "(nat \<times> ir_inst) list"
type_synonym ir_function = "(nat \<times> ir_block) list"

fun inst_operands :: "ir_inst \<Rightarrow> ir_value list" where
  "inst_operands (CallInst f as) = as"
| "inst_operands (PtrToInt v) = [v]"
| "inst_operands (IntToPtr v) = [v]"
| "inst_operands (BinaryOperator b v w) = [v, w]"
| "inst_operands (PHINode vs) = map fst vs"
| "inst_operands (OtherInst k vs) = vs"
| "inst_operands (IrBr l) = []"
| "inst_operands (IrCondBr v l l') = [v]"
| "inst_operands (IrRet v) = [v]"

definition instructions :: "ir_function \<Rightarrow> (nat \<times> ir_inst) list" where
  "instructions F = concat (map snd F)"

text \<open>The users of a value, one entry for each use.\<close>

definition users :: "ir_function \<Rightarrow> ir_value \<Rightarrow> (nat \<times> ir_inst) list" where
  "users F v = concat (map (\<lambda>I. replicate (count_list (inst_operands (snd I)) v) I) (instructions F))"

section \<open>Helpers\<close>

fun isMysoreCall :: "string \<Rightarrow> ir_inst \<Rightarrow> bool" where
  "isMysoreCall name (CallInst f as) \<longleftrightarrow> f = Some name"
| "isMysoreCall name _ \<longleftrightarrow> False"

definition isMysoreAdd :: "ir_inst \<Rightarrow> bool" where
  "isMysoreAdd = isMysoreCall ''mysoreScriptAdd''"

definition isMysoreSub :: "ir_inst \<Rightarrow> bool" where
  "isMysoreSub = isMysoreCall ''mysoreScriptSub''"

definition isMysoreDiv :: "ir_inst \<Rightarrow> bool" where
  "isMysoreDiv = isMysoreCall ''mysoreScriptDiv''"

definition isMysoreMul :: "ir_inst \<Rightarrow> bool" where
  "isMysoreMul = isMysoreCall ''mysoreScriptMul''"

definition isArithmeticCall :: "ir_inst \<Rightarrow> bool" where
  "isArithmeticCall i \<longleftrightarrow> isMysoreAdd i \<or> isMysoreSub i \<or> isMysoreDiv i \<or> isMysoreMul i"

datatype pass_error =
    NullOperator       \<comment> \<open>\<open>dyn_cast<Operator>\<close> gives null, which is dereferenced\<close>
  | NoOperand          \<comment> \<open>\<open>getArgOperand\<close> out of range\<close>
  | PastTheEnd         \<comment> \<open>the end of a block is dereferenced\<close>
  | UnknownCall        \<comment> \<open>the pass gives up halfway\<close>
  | NoResult           \<comment> \<open>the result of the fast path is not initialised\<close>

text \<open>The first two operands of a call.\<close>

fun two_operands :: "ir_inst \<Rightarrow> pass_error + ir_value \<times> ir_value" where
  "two_operands (CallInst f (a # b # _)) = Inr (a, b)"
| "two_operands _ = Inl NoOperand"

text \<open>
  Whether the opcode of a value is 46, \<open>inttoptr\<close>; \<open>None\<close> where the value is neither an instruction nor
  a constant expression.
\<close>

fun is_inttoptr :: "ir_function \<Rightarrow> ir_value \<Rightarrow> bool option" where
  "is_inttoptr F (PtrConst w) = Some True"
| "is_inttoptr F (Reg r) =
     Some (case map_of (instructions F) r of Some (IntToPtr v) \<Rightarrow> True | _ \<Rightarrow> False)"
| "is_inttoptr F _ = None"

section \<open>The scan\<close>

text \<open>\<open>visitCallInst\<close> on every call of the function.\<close>

fun is_call :: "ir_inst \<Rightarrow> bool" where
  "is_call (CallInst f as) \<longleftrightarrow> True"
| "is_call _ \<longleftrightarrow> False"

definition visitCallInst :: "ir_function \<Rightarrow> nat \<Rightarrow> 32 word" where
  "visitCallInst F r = of_nat (length (users F (Reg r)))"

definition count_uses :: "ir_function \<Rightarrow> nat \<rightharpoonup> 32 word" where
  "count_uses F r = (case map_of (instructions F) r of
       Some i \<Rightarrow> if is_call i then Some (visitCallInst F r) else None
     | None \<Rightarrow> None)"

text \<open>What is recorded of a run: its first call, the values to check and the instruction at which it ended.\<close>

type_synonym arithmetic_block = "nat \<times> ir_value list \<times> nat"

record scan =
  use_counts :: "nat \<rightharpoonup> 32 word"
  block_start :: "nat option"
  args_to_check :: "ir_value list"
  arithmetic_blocks :: "arithmetic_block list"

definition check_value :: "ir_value \<Rightarrow> scan \<Rightarrow> scan" where
  "check_value v st = st\<lparr>args_to_check := (if v \<in> set (args_to_check st) then args_to_check st else args_to_check st @ [v])\<rparr>"

definition note_first :: "ir_function \<Rightarrow> ir_value \<Rightarrow> scan \<Rightarrow> scan" where
  "note_first F v st = (if is_inttoptr F v = Some True then st else check_value v st)"

text \<open>An operand of a later call of the run: whether it ends the run, and the new state.\<close>

fun note_later :: "ir_function \<Rightarrow> ir_value \<Rightarrow> bool \<times> scan \<Rightarrow> pass_error + bool \<times> scan" where
  "note_later F v (ended, st) =
     (case (case v of Reg r \<Rightarrow> map_option (\<lambda>n. (r, n)) (use_counts st r) | _ \<Rightarrow> None) of
        Some (r, n) \<Rightarrow> Inr (ended \<or> n - 1 > 0, st\<lparr>use_counts := (use_counts st)(r \<mapsto> n - 1)\<rparr>)
      | None \<Rightarrow> (case is_inttoptr F v of
            None \<Rightarrow> Inl NullOperator
          | Some b \<Rightarrow> Inr (ended, if b then st else check_value v st)))"

text \<open>
  Looking forward from a call, over the run it belongs to: whether the run must end because there are
  uses of the result after it.
\<close>

fun uses_left :: "nat \<Rightarrow> 32 word \<Rightarrow> ir_block \<Rightarrow> pass_error + bool" where
  "uses_left r n [] = Inl PastTheEnd"
| "uses_left r n ((q, i) # is) =
     (if isArithmeticCall i
      then (case two_operands i of
          Inl e \<Rightarrow> Inl e
        | Inr (a, b) \<Rightarrow> uses_left r (n - of_bool (a = Reg r) - of_bool (b = Reg r)) is)
      else Inr (n > 0))"

definition scan_call :: "ir_function \<Rightarrow> nat \<Rightarrow> ir_inst \<Rightarrow> scan \<Rightarrow> pass_error + bool \<times> scan" where
  "scan_call F r i st =
     (case two_operands i of Inl e \<Rightarrow> Inl e | Inr (a, b) \<Rightarrow>
        if block_start st = None
        then Inr (False, note_first F b (note_first F a (st\<lparr>block_start := Some r\<rparr>)))
        else (case note_later F a (False, st) of Inl e \<Rightarrow> Inl e | Inr s \<Rightarrow> note_later F b s))"

definition end_run :: "nat \<Rightarrow> scan \<Rightarrow> scan" where
  "end_run r st = st\<lparr>arithmetic_blocks := arithmetic_blocks st @ [(the (block_start st), args_to_check st, r)],
     block_start := None, args_to_check := []\<rparr>"

fun scan_block :: "ir_function \<Rightarrow> ir_block \<Rightarrow> scan \<Rightarrow> pass_error + scan" where
  "scan_block F [] st = Inr st"
| "scan_block F ((r, i) # is) st =
     (case (if isArithmeticCall i
            then (case scan_call F r i st of
                Inl e \<Rightarrow> Inl e
              | Inr (True, st1) \<Rightarrow> Inr (True, st1)
              | Inr (False, st1) \<Rightarrow>
                  (case uses_left r (case use_counts st1 r of Some n \<Rightarrow> n | None \<Rightarrow> 0) ((r, i) # is) of
                     Inl e \<Rightarrow> Inl e | Inr ended \<Rightarrow> Inr (ended, st1)))
            else Inr (False, st)) of
        Inl e \<Rightarrow> Inl e
      | Inr (ended, st1) \<Rightarrow>
          scan_block F is (if ended \<or> block_start st1 \<noteq> None \<and> \<not> isArithmeticCall i then end_run r st1 else st1))"

text \<open>A run that is still open at the end of its block is dropped.\<close>

fun scan_blocks :: "ir_function \<Rightarrow> ir_function \<Rightarrow> scan \<Rightarrow> pass_error + scan" where
  "scan_blocks F [] st = Inr st"
| "scan_blocks F ((l, BB) # BBs) st =
     (case scan_block F BB (st\<lparr>block_start := None, args_to_check := []\<rparr>) of
        Inl e \<Rightarrow> Inl e | Inr st1 \<Rightarrow> scan_blocks F BBs st1)"

definition scan_function :: "ir_function \<Rightarrow> pass_error + scan" where
  "scan_function F = scan_blocks F F
     \<lparr>use_counts = count_uses F, block_start = None, args_to_check = [], arithmetic_blocks = []\<rparr>"

section \<open>The rewriting\<close>

text \<open>A builder at the end of a block: the instructions inserted so far and the next address.\<close>

type_synonym builder = "ir_block \<times> nat"

definition create :: "ir_inst \<Rightarrow> builder \<Rightarrow> ir_value \<times> builder" where
  "create i B = (Reg (snd B), (fst B @ [(snd B, i)], Suc (snd B)))"

text \<open>
  The check of the values: the conjunction of their words and 1.  (The builder's folding of constants
  does not change what is computed.)
\<close>

fun and_all :: "ir_value list \<Rightarrow> ir_value \<Rightarrow> builder \<Rightarrow> ir_value \<times> builder" where
  "and_all [] anded B = (anded, B)"
| "and_all (v # vs) anded B =
     (let (val, B1) = create (PtrToInt v) B;
          (anded', B2) = create (BinaryOperator IrAnd anded val) B1
      in and_all vs anded' B2)"

definition are_all_ints :: "ir_value list \<Rightarrow> builder \<Rightarrow> ir_value \<times> builder" where
  "are_all_ints vs B = (let (anded, B1) = and_all vs (IntConst 1) B
      in create (BinaryOperator IrEq anded (IntConst 1)) B1)"

definition untag :: "ir_value \<Rightarrow> builder \<Rightarrow> ir_value \<times> builder" where
  "untag v B = (let (w, B1) = create (PtrToInt v) B in create (BinaryOperator IrAShr w (IntConst 3)) B1)"

fun untag_args :: "ir_value list \<Rightarrow> (ir_value \<times> ir_value) list \<Rightarrow> builder \<Rightarrow> (ir_value \<times> ir_value) list \<times> builder" where
  "untag_args [] arg_map B = (arg_map, B)"
| "untag_args (a # as) arg_map B =
     (let (val, B1) = untag a B in untag_args as (AList.update a val arg_map) B1)"

text \<open>
  The operand of a call on the fast path: a checked value, the result of an earlier call, or else it is
  taken for a constant.
\<close>

definition fast_operand ::
  "(ir_value \<times> ir_value) list \<Rightarrow> (ir_value \<times> ir_value) list \<Rightarrow> ir_value \<Rightarrow> builder \<Rightarrow> ir_value \<times> builder" where
  "fast_operand arg_map arg_dependencies v B =
     (case map_of arg_map v of Some w \<Rightarrow> (w, B)
      | None \<Rightarrow> (case map_of arg_dependencies v of Some w \<Rightarrow> (w, B) | None \<Rightarrow> untag v B))"

definition fast_opcode :: "ir_inst \<Rightarrow> ir_binary option" where
  "fast_opcode i = (if isMysoreAdd i then Some IrAdd else if isMysoreSub i then Some IrSub
     else if isMysoreMul i then Some IrMul else if isMysoreDiv i then Some IrSDiv else None)"

text \<open>The calls that use a result get the fast result in its place.\<close>

fun redirect ::
  "ir_value \<Rightarrow> ir_value \<Rightarrow> (nat \<times> ir_inst) list \<Rightarrow> (ir_value \<times> ir_value) list \<Rightarrow> pass_error + (ir_value \<times> ir_value) list" where
  "redirect slow fast [] deps = Inr deps"
| "redirect slow fast ((q, U) # Us) deps =
     (if is_call U
      then (case two_operands U of
          Inl e \<Rightarrow> Inl e
        | Inr (a, b) \<Rightarrow> redirect slow fast Us
            (if a = slow \<or> b = slow then AList.update slow fast deps else deps))
      else redirect slow fast Us deps)"

text \<open>The loop over the slow block, up to its first instruction that is no call: the last call and its fast result.\<close>

fun fast_calls ::
  "ir_function \<Rightarrow> (ir_value \<times> ir_value) list \<Rightarrow> ir_block \<Rightarrow> (ir_value \<times> ir_value) list \<Rightarrow> (nat \<times> ir_value) option \<Rightarrow> builder
     \<Rightarrow> pass_error + (nat \<times> ir_value) option \<times> builder" where
  "fast_calls F arg_map [] deps out B = Inr (out, B)"
| "fast_calls F arg_map ((r, i) # is) deps out B =
     (if \<not> is_call i then Inr (out, B)
      else (case two_operands i of Inl e \<Rightarrow> Inl e | Inr (lhs, rhs) \<Rightarrow>
        (let (lhs_int, B1) = fast_operand arg_map deps lhs B;
             (rhs_int, B2) = fast_operand arg_map deps rhs B1
         in (case fast_opcode i of
             None \<Rightarrow> Inl UnknownCall
           | Some b \<Rightarrow>
               (let (op, B3) = create (BinaryOperator b lhs_int rhs_int) B2
                in (case redirect (Reg r) op (users F (Reg r)) deps of
                    Inl e \<Rightarrow> Inl e
                  | Inr deps' \<Rightarrow> fast_calls F arg_map is deps' (Some (r, op)) B3))))))"

definition retag :: "ir_value \<Rightarrow> builder \<Rightarrow> ir_value \<times> builder" where
  "retag v B = (let (shifted, B1) = create (BinaryOperator IrShl v (IntConst 3)) B;
                    (ored, B2) = create (BinaryOperator IrOr shifted (IntConst 1)) B1
                in create (IntToPtr ored) B2)"

fun subst_value :: "ir_value \<Rightarrow> ir_value \<Rightarrow> ir_value \<Rightarrow> ir_value" where
  "subst_value v w x = (if x = v then w else x)"

fun replaceUsesOfWith :: "ir_value \<Rightarrow> ir_value \<Rightarrow> ir_inst \<Rightarrow> ir_inst" where
  "replaceUsesOfWith v w (CallInst f as) = CallInst f (map (subst_value v w) as)"
| "replaceUsesOfWith v w (PtrToInt x) = PtrToInt (subst_value v w x)"
| "replaceUsesOfWith v w (IntToPtr x) = IntToPtr (subst_value v w x)"
| "replaceUsesOfWith v w (BinaryOperator b x y) = BinaryOperator b (subst_value v w x) (subst_value v w y)"
| "replaceUsesOfWith v w (PHINode vs) = PHINode (map (map_prod (subst_value v w) id) vs)"
| "replaceUsesOfWith v w (OtherInst k xs) = OtherInst k (map (subst_value v w) xs)"
| "replaceUsesOfWith v w (IrBr l) = IrBr l"
| "replaceUsesOfWith v w (IrCondBr x l l') = IrCondBr (subst_value v w x) l l'"
| "replaceUsesOfWith v w (IrRet x) = IrRet (subst_value v w x)"

definition replace_all :: "ir_value \<Rightarrow> ir_value \<Rightarrow> ir_block \<Rightarrow> ir_block" where
  "replace_all v w = map (map_prod id (replaceUsesOfWith v w))"

text \<open>Splitting a block moves its successors' phi nodes to the new block.\<close>

fun move_phis :: "nat \<Rightarrow> nat \<Rightarrow> ir_inst \<Rightarrow> ir_inst" where
  "move_phis l l' (PHINode vs) = PHINode (map (map_prod id (\<lambda>k. if k = l then l' else k)) vs)"
| "move_phis l l' i = i"

text \<open>The parts of a block: before the first call of a run, the run, after the instruction that ended it.\<close>

definition split_at :: "nat \<Rightarrow> nat \<Rightarrow> ir_block \<Rightarrow> ir_block \<times> ir_block \<times> ir_block" where
  "split_at first split_after BB =
     (let rest = dropWhile (\<lambda>I. fst I \<noteq> first) BB;
          after = dropWhile (\<lambda>I. fst I \<noteq> split_after) rest
      in (takeWhile (\<lambda>I. fst I \<noteq> first) BB, takeWhile (\<lambda>I. fst I \<noteq> split_after) rest @ take 1 after, drop 1 after))"

text \<open>What becomes of a block: the block itself, the two paths and the block where they join.\<close>

record split_result =
  s_block :: ir_block
  s_slow :: ir_block
  s_fast :: ir_block
  s_phi :: "nat \<times> ir_inst"
  s_rest :: ir_block
  s_last :: nat

text \<open>
  \<open>n\<close> is the next address; the new blocks have the labels \<open>k\<close> (slow), \<open>k + 1\<close> (rejoin) and \<open>k + 2\<close>
  (fast).
\<close>

definition split_run ::
  "ir_function \<Rightarrow> arithmetic_block \<Rightarrow> ir_block \<Rightarrow> nat \<Rightarrow> nat \<Rightarrow> pass_error + split_result \<times> nat" where
  "split_run F entry BB k n =
     (let (first, vs, split_after) = entry;
          (before, calls, rest) = split_at first split_after BB in
      if rest = [] then Inl PastTheEnd
      else
       (let (cond, (checks, n1)) = are_all_ints vs (before, n);
            (arg_map, B) = untag_args vs [] ([], n1 + 2)
        in (case fast_calls F arg_map calls [] None B of
            Inl e \<Rightarrow> Inl e
          | Inr (None, B1) \<Rightarrow> Inl NoResult
          | Inr (Some (slow_last, fast_result), B1) \<Rightarrow>
              (let (result, (fast, n2)) = retag fast_result B1
               in Inr (\<lparr>s_block = checks @ [(n1, IrCondBr cond (k + 2) k)],
                    s_slow = calls @ [(n2, IrBr (k + 1))],
                    s_fast = fast @ [(Suc n2, IrBr (k + 1))],
                    s_phi = (Suc n1, PHINode [(result, k + 2), (Reg slow_last, k)]),
                    s_rest = rest, s_last = slow_last\<rparr>, n2 + 2)))))"

text \<open>
  The users of the last result, the new phi node apart, get the phi node's; the block that the phi nodes
  of the successors name is the one where the paths join.
\<close>

definition patch :: "nat \<Rightarrow> nat \<Rightarrow> split_result \<Rightarrow> ir_block \<Rightarrow> ir_block" where
  "patch l k S BB = map (map_prod id (move_phis l (k + 1)))
     (replace_all (Reg (s_last S)) (Reg (fst (s_phi S))) BB)"

definition split_blocks :: "nat \<Rightarrow> nat \<Rightarrow> split_result \<Rightarrow> ir_function" where
  "split_blocks l k S = [(l, patch l k S (s_block S)), (k, patch l k S (s_slow S)),
     (k + 2, patch l k S (s_fast S)), (k + 1, s_phi S # patch l k S (s_rest S))]"

fun put_blocks :: "nat \<Rightarrow> nat \<Rightarrow> split_result \<Rightarrow> ir_function \<Rightarrow> ir_function" where
  "put_blocks l k S [] = []"
| "put_blocks l k S ((l', BB) # F) =
     (if l' = l then split_blocks l k S else [(l', patch l k S BB)]) @ put_blocks l k S F"

definition rewrite_run ::
  "arithmetic_block \<Rightarrow> ir_function \<Rightarrow> nat \<Rightarrow> nat \<Rightarrow> pass_error + ir_function \<times> nat" where
  "rewrite_run entry F k n =
     (case find (\<lambda>(l, BB). fst entry \<in> fst ` set BB) F of
        None \<Rightarrow> Inl PastTheEnd
      | Some (l, BB) \<Rightarrow>
          (case split_run F entry BB k n of
             Inl e \<Rightarrow> Inl e
           | Inr (S, n') \<Rightarrow> Inr (put_blocks l k S F, n')))"

fun rewrite_runs ::
  "arithmetic_block list \<Rightarrow> ir_function \<Rightarrow> nat \<Rightarrow> nat \<Rightarrow> pass_error + ir_function" where
  "rewrite_runs [] F k n = Inr F"
| "rewrite_runs (e # es) F k n = (case rewrite_run e F k n of
       Inl err \<Rightarrow> Inl err | Inr (F', n') \<Rightarrow> rewrite_runs es F' (k + 3) n')"

definition runOnFunction :: "ir_function \<Rightarrow> nat \<Rightarrow> nat \<Rightarrow> pass_error + ir_function" where
  "runOnFunction F k n = (case scan_function F of
       Inl e \<Rightarrow> Inl e | Inr st \<Rightarrow> rewrite_runs (arithmetic_blocks st) F k n)"

section \<open>What a function computes\<close>

text \<open>
  The arithmetic helpers are those of the runtime; the other calls and the other instructions are
  given by \<open>rt\<close>.  A register that has not been written is read as \<open>Unreachable\<close>.
\<close>

record ir_runtime =
  rt_machine :: machine
  rt_args :: "64 word list"
  rt_call :: "string option \<Rightarrow> 64 word list \<Rightarrow> 64 word run"
  rt_other :: "nat \<Rightarrow> 64 word list \<Rightarrow> 64 word run"

type_synonym ir_registers = "nat \<rightharpoonup> 64 word"

fun ir_eval :: "ir_runtime \<Rightarrow> ir_registers \<Rightarrow> ir_value \<Rightarrow> fault + 64 word" where
  "ir_eval rt \<rho> (Arg i) = (if i < length (rt_args rt) then Inr (rt_args rt ! i) else Inl MissingArgument)"
| "ir_eval rt \<rho> (Reg r) = (case \<rho> r of None \<Rightarrow> Inl Unreachable | Some w \<Rightarrow> Inr w)"
| "ir_eval rt \<rho> (PtrConst w) = Inr w"
| "ir_eval rt \<rho> NullConst = Inr 0"
| "ir_eval rt \<rho> (IntConst w) = Inr w"

fun ir_evals :: "ir_runtime \<Rightarrow> ir_registers \<Rightarrow> ir_value list \<Rightarrow> fault + 64 word list" where
  "ir_evals rt \<rho> [] = Inr []"
| "ir_evals rt \<rho> (v # vs) = (case ir_eval rt \<rho> v of Inl e \<Rightarrow> Inl e
     | Inr w \<Rightarrow> (case ir_evals rt \<rho> vs of Inl e \<Rightarrow> Inl e | Inr ws \<Rightarrow> Inr (w # ws)))"

text \<open>\<open>sdiv\<close> by zero and its overflow have no meaning.\<close>

fun ir_binary_op :: "ir_binary \<Rightarrow> 64 word \<Rightarrow> 64 word \<Rightarrow> fault + 64 word" where
  "ir_binary_op IrAdd x y = Inr (x + y)"
| "ir_binary_op IrSub x y = Inr (x - y)"
| "ir_binary_op IrMul x y = Inr (x * y)"
| "ir_binary_op IrSDiv x y = evaluateWithIntegers Divide x y"
| "ir_binary_op IrAShr x y = Inr (signed_drop_bit (unat y) x)"
| "ir_binary_op IrShl x y = Inr (push_bit (unat y) x)"
| "ir_binary_op IrAnd x y = Inr (x AND y)"
| "ir_binary_op IrOr x y = Inr (x OR y)"
| "ir_binary_op IrEq x y = Inr (of_bool (x = y))"

definition helper_named :: "string \<Rightarrow> binop option" where
  "helper_named f = (if f = ''mysoreScriptAdd'' then Some Add else if f = ''mysoreScriptSub'' then Some Subtract
     else if f = ''mysoreScriptMul'' then Some Multiply else if f = ''mysoreScriptDiv'' then Some Divide else None)"

definition run_call :: "ir_runtime \<Rightarrow> string option \<Rightarrow> 64 word list \<Rightarrow> 64 word run" where
  "run_call rt f ws = (case (Option.bind f helper_named, ws) of
       (Some op, x # y # _) \<Rightarrow> mysoreScriptOp (rt_machine rt) op x y
     | _ \<Rightarrow> rt_call rt f ws)"

text \<open>The value of an instruction, coming from the block \<open>prev\<close>.\<close>

fun ir_value_of :: "ir_runtime \<Rightarrow> nat \<Rightarrow> ir_registers \<Rightarrow> ir_inst \<Rightarrow> 64 word run" where
  "ir_value_of rt prev \<rho> (CallInst f as) = bind (lift (ir_evals rt \<rho> as)) (run_call rt f)"
| "ir_value_of rt prev \<rho> (PtrToInt v) = lift (ir_eval rt \<rho> v)"
| "ir_value_of rt prev \<rho> (IntToPtr v) = lift (ir_eval rt \<rho> v)"
| "ir_value_of rt prev \<rho> (BinaryOperator b v w) =
     bind (lift (ir_eval rt \<rho> v)) (\<lambda>x. bind (lift (ir_eval rt \<rho> w)) (\<lambda>y. lift (ir_binary_op b x y)))"
| "ir_value_of rt prev \<rho> (PHINode vs) =
     (case find (\<lambda>(v, l). l = prev) vs of None \<Rightarrow> fail Unreachable | Some (v, l) \<Rightarrow> lift (ir_eval rt \<rho> v))"
| "ir_value_of rt prev \<rho> (OtherInst k vs) = bind (lift (ir_evals rt \<rho> vs)) (rt_other rt k)"
| "ir_value_of rt prev \<rho> _ = fail Unreachable"

datatype ir_exit = GoTo nat | Finished "64 word"

fun is_terminator :: "ir_inst \<Rightarrow> bool" where
  "is_terminator (IrBr l) \<longleftrightarrow> True"
| "is_terminator (IrCondBr v l l') \<longleftrightarrow> True"
| "is_terminator (IrRet v) \<longleftrightarrow> True"
| "is_terminator _ \<longleftrightarrow> False"

fun ir_exit_of :: "ir_runtime \<Rightarrow> ir_registers \<Rightarrow> ir_inst \<Rightarrow> fault + ir_exit" where
  "ir_exit_of rt \<rho> (IrBr l) = Inr (GoTo l)"
| "ir_exit_of rt \<rho> (IrCondBr v l l') = (case ir_eval rt \<rho> v of Inl e \<Rightarrow> Inl e
     | Inr w \<Rightarrow> Inr (GoTo (if w \<noteq> 0 then l else l')))"
| "ir_exit_of rt \<rho> (IrRet v) = (case ir_eval rt \<rho> v of Inl e \<Rightarrow> Inl e | Inr w \<Rightarrow> Inr (Finished w))"
| "ir_exit_of rt \<rho> _ = Inl Unreachable"

fun run_block :: "ir_runtime \<Rightarrow> nat \<Rightarrow> ir_block \<Rightarrow> ir_registers \<Rightarrow> (ir_registers \<times> ir_exit) run" where
  "run_block rt prev [] \<rho> = fail Unreachable"
| "run_block rt prev ((r, i) # is) \<rho> =
     (if is_terminator i then bind (lift (ir_exit_of rt \<rho> i)) (\<lambda>x. return (\<rho>, x))
      else bind (ir_value_of rt prev \<rho> i) (\<lambda>w. run_block rt prev is (\<rho>(r \<mapsto> w))))"

fun run_ir :: "ir_runtime \<Rightarrow> ir_function \<Rightarrow> nat \<Rightarrow> nat \<Rightarrow> nat \<Rightarrow> ir_registers \<Rightarrow> 64 word run" where
  "run_ir rt F 0 prev l \<rho> = fail Timeout"
| "run_ir rt F (Suc fuel) prev l \<rho> =
     (case map_of F l of None \<Rightarrow> fail Unreachable
      | Some BB \<Rightarrow> bind (run_block rt prev BB \<rho>) (\<lambda>(\<rho>', x).
          case x of Finished w \<Rightarrow> return w | GoTo l' \<Rightarrow> run_ir rt F fuel l l' \<rho>'))"

end
