(* ===== verification/Split_Paths.thy ===== *)
theory Split_Paths
  imports Split_Arithmetic
begin

text \<open>
  The fast path of the arithmetic pass computes what the helper calls compute: the run of the emitted
  instructions, next to the run of the calls they stand for.
\<close>

section \<open>Straight-line code\<close>

fun steps :: "ir_runtime \<Rightarrow> nat \<Rightarrow> ir_block \<Rightarrow> ir_registers \<Rightarrow> ir_registers run" where
  "steps rt prev [] \<rho> = return \<rho>"
| "steps rt prev ((r, i) # is) \<rho> = bind (ir_value_of rt prev \<rho> i) (\<lambda>w. steps rt prev is (\<rho>(r \<mapsto> w)))"

definition straight :: "ir_block \<Rightarrow> bool" where
  "straight xs \<longleftrightarrow> (\<forall>I \<in> set xs. \<not> is_terminator (snd I))"

lemma straight_simps [simp]:
  "straight []" "straight (I # xs) \<longleftrightarrow> \<not> is_terminator (snd I) \<and> straight xs"
  "straight (xs @ ys) \<longleftrightarrow> straight xs \<and> straight ys"
  by (auto simp: straight_def)

lemma run_block_append:
  "straight xs \<Longrightarrow> run_block rt prev (xs @ ys) \<rho> = bind (steps rt prev xs \<rho>) (run_block rt prev ys)"
  by (induction xs arbitrary: \<rho>) (auto simp: bind_assoc)

lemma steps_append: "steps rt prev (xs @ ys) \<rho> = bind (steps rt prev xs \<rho>) (steps rt prev ys)"
  by (induction xs arbitrary: \<rho>) (auto simp: bind_assoc)

lemma steps_Cons_InrE:
  assumes "steps rt prev ((r, i) # xs) \<rho> c = Inr (\<rho>', c')"
  obtains w d where "ir_value_of rt prev \<rho> i c = Inr (w, d)" and "steps rt prev xs (\<rho>(r \<mapsto> w)) d = Inr (\<rho>', c')"
  using assms by (auto elim: bind_InrE)

lemma steps_other:
  assumes "steps rt prev xs \<rho> c = Inr (\<rho>', c')" and "r \<notin> fst ` set xs"
  shows "\<rho>' r = \<rho> r"
  using assms
proof (induction xs arbitrary: \<rho> c)
  case Nil
  then show ?case by (simp add: sem_simps)
next
  case (Cons I xs)
  then show ?case by (cases I) (fastforce elim: steps_Cons_InrE)
qed

section \<open>Arithmetic without tags\<close>

fun binop_of :: "ir_binary \<Rightarrow> binop" where
  "binop_of IrSub = Subtract"
| "binop_of IrMul = Multiply"
| "binop_of IrSDiv = Divide"
| "binop_of _ = Add"

lemma word_of_sint_ops:
  "word_of_int (sint x + sint y) = (x + y :: 64 word)" "word_of_int (sint x - sint y) = (x - y :: 64 word)"
  "word_of_int (sint x * sint y) = (x * y :: 64 word)"
  by (simp_all add: wi_hom_syms)

lemma fast_helper:
  assumes "helperOp (binop_of b) x y = Inr ob" and "isInteger x" and "b \<in> {IrAdd, IrSub, IrMul, IrSDiv}"
  shows "isInteger y" and "isInteger ob" and "ir_binary_op b (asr3 x) (asr3 y) = Inr (asr3 ob)"
proof -
  show y: "isInteger y" using assms by (auto simp: helperOp_def getInteger_def split: if_splits sum.splits)
  obtain i where i: "evaluateWithIntegers (binop_of b) (asr3 x) (asr3 y) = Inr i" "createSmallInteger i = Inr ob"
    using assms(1,2) y by (auto simp: helperOp_def getInteger_def split: sum.splits)
  have ob: "ob = literalObject i" "small i" using i(2) by (auto simp: createSmallInteger_eq split: if_splits)
  then show "isInteger ob" by simp
  have "asr3 ob = i" using ob by (simp add: asr3_literalObject)
  moreover have "ir_binary_op b (asr3 x) (asr3 y) = Inr i"
    using i(1) assms(3) by (auto simp: checked64_def word_of_sint_ops split: if_splits)
  ultimately show "ir_binary_op b (asr3 x) (asr3 y) = Inr (asr3 ob)" by simp
qed

lemma fast_opcode_call:
  assumes "isArithmeticCall i" and "two_operands i = Inr (a, b)"
  obtains f as q where "i = CallInst (Some f) (a # b # as)" and "fast_opcode i = Some q"
    and "helper_named f = Some (binop_of q)" and "q \<in> {IrAdd, IrSub, IrMul, IrSDiv}"
proof -
  obtain g as where i: "i = CallInst g (a # b # as)" using assms(2)
    by (cases i rule: two_operands.cases) auto
  then show thesis
    using assms(1) that
    by (auto simp: isArithmeticCall_def isMysoreAdd_def isMysoreSub_def isMysoreMul_def isMysoreDiv_def
        fast_opcode_def helper_named_def)
qed

section \<open>Emitted instructions\<close>

fun regs_of :: "ir_value \<Rightarrow> nat set" where
  "regs_of (Reg r) = {r}"
| "regs_of _ = {}"

definition below :: "nat \<Rightarrow> ir_value \<Rightarrow> bool" where
  "below n v \<longleftrightarrow> (\<forall>q \<in> regs_of v. q < n)"

definition extends :: "nat \<Rightarrow> ir_registers \<Rightarrow> ir_registers \<Rightarrow> bool" where
  "extends n \<rho> \<rho>' \<longleftrightarrow> (\<forall>q < n. \<rho>' q = \<rho> q)"

lemma below_mono: "below n v \<Longrightarrow> n \<le> n' \<Longrightarrow> below n' v"
  by (auto simp: below_def)

lemma below_simps [simp]:
  "below n (Reg q) \<longleftrightarrow> q < n" "below n (Arg i)" "below n (PtrConst w)" "below n NullConst" "below n (IntConst w)"
  by (simp_all add: below_def)

lemma extends_eval: "extends n \<rho> \<rho>' \<Longrightarrow> below n v \<Longrightarrow> ir_eval rt \<rho>' v = ir_eval rt \<rho> v"
  by (cases v) (auto simp: extends_def below_def)

lemma extends_refl [simp]: "extends n \<rho> \<rho>"
  by (simp add: extends_def)

lemma extends_trans: "extends n \<rho> \<rho>' \<Longrightarrow> extends n' \<rho>' \<rho>'' \<Longrightarrow> n \<le> n' \<Longrightarrow> extends n \<rho> \<rho>''"
  by (simp add: extends_def)

lemma extends_upd [simp]: "n \<le> q \<Longrightarrow> extends n \<rho> (\<rho>(q \<mapsto> w)) \<longleftrightarrow> True"
  by (auto simp: extends_def)

text \<open>
  The instructions inserted by \<open>B\<close>, at addresses from \<open>m\<close> on, take \<open>\<rho>0\<close> to \<open>\<rho>\<close>, change nothing else
  and mention no value \<open>x\<close>.
\<close>

definition emits :: "nat \<Rightarrow> ir_runtime \<Rightarrow> nat \<Rightarrow> ctx \<Rightarrow> ir_value \<Rightarrow> ir_registers \<Rightarrow> builder \<Rightarrow> ir_registers \<Rightarrow> bool" where
  "emits m rt p c x \<rho>0 B \<rho> \<longleftrightarrow> m \<le> snd B \<and> (\<forall>I \<in> set (fst B). m \<le> fst I) \<and> straight (fst B) \<and> steps rt p (fst B) \<rho>0 c = Inr (\<rho>, c) \<and>
     (\<forall>I \<in> set (fst B). x \<notin> set (inst_operands (snd I)) \<and> (\<forall>vs. snd I \<noteq> PHINode vs))"

lemma emits_empty: "m \<le> n \<Longrightarrow> emits m rt p c x \<rho> ([], n) \<rho>"
  by (simp add: emits_def sem_simps)

text \<open>Each of the builder's sequences: the value it leaves, and that it reads what is there.\<close>

definition leaves ::
  "nat \<Rightarrow> ir_runtime \<Rightarrow> nat \<Rightarrow> ctx \<Rightarrow> ir_value \<Rightarrow> ir_registers \<Rightarrow> builder \<Rightarrow> ir_registers \<Rightarrow> ir_value \<times> builder \<Rightarrow> 64 word \<Rightarrow> ir_registers \<Rightarrow> bool" where
  "leaves m rt p c x \<rho>0 B \<rho> out w \<rho>' \<longleftrightarrow> emits m rt p c x \<rho>0 (snd out) \<rho>' \<and> snd B \<le> snd (snd out) \<and>
     extends (snd B) \<rho> \<rho>' \<and> below (snd (snd out)) (fst out) \<and> fst out \<noteq> x \<and> ir_eval rt \<rho>' (fst out) = Inr w"

lemma leaves_create:
  assumes "emits m rt p c x \<rho>0 B \<rho>" and "\<not> is_terminator i" and "x \<notin> set (inst_operands i)"
    and "\<And>vs. i \<noteq> PHINode vs" and "x \<noteq> Reg (snd B)" and "ir_value_of rt p \<rho> i c = Inr (w, c)"
  shows "leaves m rt p c x \<rho>0 B \<rho> (create i B) w (\<rho>(snd B \<mapsto> w))"
  using assms by (auto simp: leaves_def create_def emits_def steps_append sem_simps)

lemma leaves_then:
  assumes "leaves m rt p c x \<rho>0 B \<rho> (v, B1) w \<rho>1" and "leaves m rt p c x \<rho>0 B1 \<rho>1 out w' \<rho>2"
  shows "leaves m rt p c x \<rho>0 B \<rho> out w' \<rho>2"
  using assms by (auto simp: leaves_def intro: extends_trans)

lemma leaves_emits:
  assumes "leaves m rt p c x \<rho>0 B \<rho> (v, B1) w \<rho>1"
  shows "emits m rt p c x \<rho>0 B1 \<rho>1" and "snd B \<le> snd B1" and "extends (snd B) \<rho> \<rho>1"
    and "below (snd B1) v" and "ir_eval rt \<rho>1 v = Inr w" and "v \<noteq> x"
  using assms by (simp_all add: leaves_def)

lemma leaves_untag:
  assumes "emits m rt p c (Reg t) \<rho>0 B \<rho>" and "t < snd B" and "v \<noteq> Reg t" and "ir_eval rt \<rho> v = Inr w"
  shows "\<exists>\<rho>'. leaves m rt p c (Reg t) \<rho>0 B \<rho> (untag v B) (asr3 w) \<rho>'"
proof -
  obtain u B1 where u: "create (PtrToInt v) B = (u, B1)" by (rule prod.exhaust)
  then have us: "u = Reg (snd B)" "snd B1 = Suc (snd B)" by (auto simp: create_def)
  have 1: "leaves m rt p c (Reg t) \<rho>0 B \<rho> (u, B1) w (\<rho>(snd B \<mapsto> w))"
    unfolding u [symmetric] using assms by (intro leaves_create) (auto simp: sem_simps)
  have "leaves m rt p c (Reg t) \<rho>0 B1 (\<rho>(snd B \<mapsto> w)) (create (BinaryOperator IrAShr u (IntConst 3)) B1) (asr3 w)
      (\<rho>(snd B \<mapsto> w, snd B1 \<mapsto> asr3 w))"
    using leaves_emits [OF 1] assms us by (intro leaves_create) (auto simp: sem_simps asr3_def)
  from leaves_then [OF 1 this] show ?thesis by (auto simp: untag_def u)
qed

lemma leaves_retag:
  assumes "emits m rt p c (Reg t) \<rho>0 B \<rho>" and "t < snd B" and "v \<noteq> Reg t"
    and "ir_eval rt \<rho> v = Inr (asr3 w)" and "isInteger w"
  shows "\<exists>\<rho>'. leaves m rt p c (Reg t) \<rho>0 B \<rho> (retag v B) w \<rho>'"
proof -
  obtain u B1 where u: "create (BinaryOperator IrShl v (IntConst 3)) B = (u, B1)" by (rule prod.exhaust)
  obtain s B2 where s: "create (BinaryOperator IrOr u (IntConst 1)) B1 = (s, B2)" by (rule prod.exhaust)
  have us: "u = Reg (snd B)" "s = Reg (snd B1)" "snd B1 = Suc (snd B)" "snd B2 = Suc (Suc (snd B))"
    using u s by (auto simp: create_def)
  let ?s = "push_bit 3 (asr3 w)"
  have w: "?s OR 1 = w" using assms(5) by (rule isInteger_rebuild)
  have 1: "leaves m rt p c (Reg t) \<rho>0 B \<rho> (u, B1) ?s (\<rho>(snd B \<mapsto> ?s))"
    unfolding u [symmetric] using assms by (intro leaves_create) (auto simp: sem_simps)
  have 2: "leaves m rt p c (Reg t) \<rho>0 B1 (\<rho>(snd B \<mapsto> ?s)) (s, B2) w (\<rho>(snd B \<mapsto> ?s, snd B1 \<mapsto> w))"
    unfolding s [symmetric] using leaves_emits [OF 1] assms(2) us w
    by (intro leaves_create) (auto simp: sem_simps)
  have "leaves m rt p c (Reg t) \<rho>0 B2 (\<rho>(snd B \<mapsto> ?s, snd B1 \<mapsto> w)) (create (IntToPtr s) B2) w
      (\<rho>(snd B \<mapsto> ?s, snd B1 \<mapsto> w, snd B2 \<mapsto> w))"
    using leaves_emits [OF 2] assms(2) us by (intro leaves_create) (auto simp: sem_simps)
  from leaves_then [OF 1 leaves_then [OF 2 this]] show ?thesis by (auto simp: retag_def u s)
qed

section \<open>The check\<close>

lemma of_bool_and: "(of_bool b :: 64 word) AND w = of_bool (b \<and> odd w)"
  by (cases b) (simp_all add: one_and_eq mod_2_eq_odd)

lemma integer_odd: "isInteger w \<Longrightarrow> odd w"
proof -
  assume "isInteger w"
  then have "take_bit 3 w = 1" by (simp add: isInteger_take_bit)
  then have "bit (take_bit 3 w) 0" by simp
  then show ?thesis by (simp add: bit_take_bit_iff bit_0)
qed

lemma leaves_and_all:
  assumes "emits m rt p c (Reg t) \<rho>0 B \<rho>" and "t < snd B" and "below (snd B) a" and "a \<noteq> Reg t"
    and "ir_eval rt \<rho> a = Inr (of_bool b)"
    and "\<And>v. v \<in> set vs \<Longrightarrow> below (snd B) v \<and> v \<noteq> Reg t \<and> ir_eval rt \<rho> v = Inr (val v)"
  shows "\<exists>\<rho>'. leaves m rt p c (Reg t) \<rho>0 B \<rho> (and_all vs a B) (of_bool (b \<and> (\<forall>v \<in> set vs. odd (val v)))) \<rho>'"
  using assms
proof (induction vs arbitrary: a b B \<rho>)
  case Nil
  then show ?case by (intro exI [of _ \<rho>]) (simp add: leaves_def)
next
  case (Cons v vs)
  obtain u B1 where u: "create (PtrToInt v) B = (u, B1)" by (rule prod.exhaust)
  obtain s B2 where s: "create (BinaryOperator IrAnd a u) B1 = (s, B2)" by (rule prod.exhaust)
  have us: "u = Reg (snd B)" "s = Reg (snd B1)" "snd B1 = Suc (snd B)" "snd B2 = Suc (Suc (snd B))"
    using u s by (auto simp: create_def)
  have v: "below (snd B) v" "v \<noteq> Reg t" "ir_eval rt \<rho> v = Inr (val v)" using Cons.prems(6) [of v] by simp_all
  let ?\<rho>1 = "\<rho>(snd B \<mapsto> val v)" and ?w = "of_bool (b \<and> odd (val v))"
  have 1: "leaves m rt p c (Reg t) \<rho>0 B \<rho> (u, B1) (val v) ?\<rho>1"
    unfolding u [symmetric] using Cons.prems(1,2) v by (intro leaves_create) (auto simp: sem_simps)
  have a: "ir_eval rt ?\<rho>1 a = Inr (of_bool b)"
    using extends_eval [of "snd B" \<rho> ?\<rho>1 a] Cons.prems(3,5) by simp
  have 2: "leaves m rt p c (Reg t) \<rho>0 B1 ?\<rho>1 (s, B2) ?w (?\<rho>1(snd B1 \<mapsto> ?w))"
    unfolding s [symmetric] using leaves_emits [OF 1] Cons.prems(2,4) us a
    by (intro leaves_create) (auto simp: sem_simps of_bool_and)
  note 12 = leaves_then [OF 1 2]
  have "\<exists>\<rho>'. leaves m rt p c (Reg t) \<rho>0 B2 (?\<rho>1(snd B1 \<mapsto> ?w)) (and_all vs s B2)
      (of_bool ((b \<and> odd (val v)) \<and> (\<forall>v \<in> set vs. odd (val v)))) \<rho>'"
  proof (rule Cons.IH)
    show "emits m rt p c (Reg t) \<rho>0 B2 (?\<rho>1(snd B1 \<mapsto> ?w))" by (rule leaves_emits(1) [OF 12])
    show "ir_eval rt (?\<rho>1(snd B1 \<mapsto> ?w)) s = Inr (of_bool (b \<and> odd (val v)))" by (rule leaves_emits(5) [OF 12])
    fix v' assume "v' \<in> set vs"
    then have v': "below (snd B) v' \<and> v' \<noteq> Reg t \<and> ir_eval rt \<rho> v' = Inr (val v')" by (intro Cons.prems(6)) simp
    then show "below (snd B2) v' \<and> v' \<noteq> Reg t \<and> ir_eval rt (?\<rho>1(snd B1 \<mapsto> ?w)) v' = Inr (val v')"
      using extends_eval [OF leaves_emits(3) [OF 12], of v'] us by (auto intro: below_mono)
  qed (use Cons.prems(2) us in auto)
  then obtain \<rho>' where "leaves m rt p c (Reg t) \<rho>0 B2 (?\<rho>1(snd B1 \<mapsto> ?w)) (and_all vs s B2)
      (of_bool (b \<and> (\<forall>v \<in> set (v # vs). odd (val v)))) \<rho>'"
    by (auto simp: conj_assoc)
  from leaves_then [OF 12 this] show ?case by (simp only: and_all.simps u s prod.case Let_def) (rule exI)
qed

lemma leaves_are_all_ints:
  assumes "emits m rt p c (Reg t) \<rho>0 B \<rho>" and "t < snd B"
    and "\<And>v. v \<in> set vs \<Longrightarrow> below (snd B) v \<and> v \<noteq> Reg t \<and> ir_eval rt \<rho> v = Inr (val v)"
  shows "\<exists>\<rho>'. leaves m rt p c (Reg t) \<rho>0 B \<rho> (are_all_ints vs B) (of_bool (\<forall>v \<in> set vs. odd (val v))) \<rho>'"
proof -
  obtain a B1 where a: "and_all vs (IntConst 1) B = (a, B1)" by (rule prod.exhaust)
  obtain \<rho>1 where "leaves m rt p c (Reg t) \<rho>0 B \<rho> (and_all vs (IntConst 1) B)
      (of_bool (True \<and> (\<forall>v \<in> set vs. odd (val v)))) \<rho>1"
    using leaves_and_all [OF assms(1,2), of "IntConst 1" True vs val] assms(3) by auto
  then have 1: "leaves m rt p c (Reg t) \<rho>0 B \<rho> (a, B1) (of_bool (\<forall>v \<in> set vs. odd (val v))) \<rho>1"
    by (simp add: a)
  have "leaves m rt p c (Reg t) \<rho>0 B1 \<rho>1 (create (BinaryOperator IrEq a (IntConst 1)) B1)
      (of_bool (\<forall>v \<in> set vs. odd (val v))) (\<rho>1(snd B1 \<mapsto> of_bool (\<forall>v \<in> set vs. odd (val v))))"
    using leaves_emits [OF 1] assms(2) by (intro leaves_create) (auto simp: sem_simps)
  from leaves_then [OF 1 this] show ?thesis unfolding are_all_ints_def by (simp only: a prod.case Let_def) (rule exI)
qed

section \<open>The fast path\<close>

text \<open>A map of the builder: its values are the integers of its keys, without the tag.\<close>

definition untagged ::
  "ir_runtime \<Rightarrow> ir_registers \<Rightarrow> ir_registers \<Rightarrow> nat \<Rightarrow> nat \<Rightarrow> (ir_value \<times> ir_value) list \<Rightarrow> bool" where
  "untagged rt \<rho>o \<rho>f n t am \<longleftrightarrow> (\<forall>v u. map_of am v = Some u \<longrightarrow> below n u \<and> u \<noteq> Reg t \<and>
     (\<exists>x. ir_eval rt \<rho>o v = Inr x \<and> isInteger x \<and> ir_eval rt \<rho>f u = Inr (asr3 x)))"

lemma untagged_extends:
  assumes "untagged rt \<rho>o \<rho>f n t am" and "extends n \<rho>f \<rho>f'" and "n \<le> n'"
  shows "untagged rt \<rho>o \<rho>f' n' t am"
  using assms extends_eval [OF assms(2)] unfolding untagged_def by (auto intro: below_mono)

lemma untagged_original:
  assumes "untagged rt \<rho>o \<rho>f n t am" and "\<And>v. v \<in> dom (map_of am) \<Longrightarrow> ir_eval rt \<rho>o' v = ir_eval rt \<rho>o v"
  shows "untagged rt \<rho>o' \<rho>f n t am"
  using assms unfolding untagged_def by (metis domI)

lemma untagged_update:
  assumes "untagged rt \<rho>o \<rho>f n t am" and "below n u" and "u \<noteq> Reg t"
    and "ir_eval rt \<rho>o v = Inr x" and "isInteger x" and "ir_eval rt \<rho>f u = Inr (asr3 x)"
  shows "untagged rt \<rho>o \<rho>f n t (AList.update v u am)"
  using assms unfolding untagged_def by (auto simp: update_conv')

lemma untagged_choice:
  assumes "untagged rt \<rho>o \<rho>f n t deps" and "untagged rt \<rho>o \<rho>f n t [(s, u)]"
    and "map_of deps' = map_of deps \<or> map_of deps' = (map_of deps)(s \<mapsto> u)"
  shows "untagged rt \<rho>o \<rho>f n t deps'"
  unfolding untagged_def
proof (intro allI impI)
  fix v u' assume "map_of deps' v = Some u'"
  then consider "map_of deps v = Some u'" | "v = s" "u' = u"
    using assms(3) by (cases "v = s") auto
  then show "below n u' \<and> u' \<noteq> Reg t \<and>
      (\<exists>x. ir_eval rt \<rho>o v = Inr x \<and> isInteger x \<and> ir_eval rt \<rho>f u' = Inr (asr3 x))"
  proof cases
    case 1
    then show ?thesis by (rule assms(1) [unfolded untagged_def, rule_format])
  next
    case 2
    have "map_of [(s, u)] s = Some u" by simp
    from assms(2) [unfolded untagged_def, rule_format, OF this] show ?thesis unfolding 2 .
  qed
qed

lemma untag_args_run:
  assumes "untag_args vs am B = (am', B')" and "emits m rt p c (Reg t) \<rho>0 B \<rho>" and "t < snd B"
    and "untagged rt \<rho>o \<rho> (snd B) t am"
    and "\<And>v. v \<in> set vs \<Longrightarrow> below (snd B) v \<and> v \<noteq> Reg t \<and> isInteger (val v) \<and>
      ir_eval rt \<rho> v = Inr (val v) \<and> ir_eval rt \<rho>o v = Inr (val v)"
  shows "\<exists>\<rho>'. emits m rt p c (Reg t) \<rho>0 B' \<rho>' \<and> snd B \<le> snd B' \<and> untagged rt \<rho>o \<rho>' (snd B') t am' \<and>
    dom (map_of am') = set vs \<union> dom (map_of am)"
  using assms
proof (induction vs arbitrary: am B \<rho>)
  case Nil
  then show ?case by auto
next
  case (Cons v vs)
  obtain u B1 where u: "untag v B = (u, B1)" by (rule prod.exhaust)
  have v: "v \<noteq> Reg t" "isInteger (val v)" "ir_eval rt \<rho> v = Inr (val v)" "ir_eval rt \<rho>o v = Inr (val v)"
    using Cons.prems(5) [of v] by simp_all
  obtain \<rho>1 where 1: "leaves m rt p c (Reg t) \<rho>0 B \<rho> (u, B1) (asr3 (val v)) \<rho>1"
    using leaves_untag [OF Cons.prems(2,3) v(1,3)] by (auto simp: u)
  note 1 = leaves_emits [OF 1]
  have "\<exists>\<rho>'. emits m rt p c (Reg t) \<rho>0 B' \<rho>' \<and> snd B1 \<le> snd B' \<and> untagged rt \<rho>o \<rho>' (snd B') t am' \<and>
      dom (map_of am') = set vs \<union> dom (map_of (AList.update v u am))"
  proof (rule Cons.IH [OF _ 1(1)])
    show "untagged rt \<rho>o \<rho>1 (snd B1) t (AList.update v u am)"
      using untagged_extends [OF Cons.prems(4) 1(3,2)] 1(4-6) v by (intro untagged_update)
    fix v' assume "v' \<in> set vs"
    then have "below (snd B) v' \<and> v' \<noteq> Reg t \<and> isInteger (val v') \<and>
      ir_eval rt \<rho> v' = Inr (val v') \<and> ir_eval rt \<rho>o v' = Inr (val v')" by (intro Cons.prems(5)) simp
    then show "below (snd B1) v' \<and> v' \<noteq> Reg t \<and> isInteger (val v') \<and>
      ir_eval rt \<rho>1 v' = Inr (val v') \<and> ir_eval rt \<rho>o v' = Inr (val v')"
      using extends_eval [OF 1(3)] 1(2) by (auto intro: below_mono)
  qed (use Cons.prems(1,3) 1(2) u in auto)
  then show ?case using 1(2) by (auto simp: update_conv')
qed

lemma fast_operand_run:
  assumes "emits m rt p c (Reg t) \<rho>0 B \<rho>f" and "t < snd B"
    and "untagged rt \<rho>o \<rho>f (snd B) t am" and "untagged rt \<rho>o \<rho>f (snd B) t deps"
    and "v \<in> dom (map_of am) \<or> v \<in> dom (map_of deps) \<or> (\<exists>w. v = PtrConst w \<and> isInteger w)"
  shows "\<exists>x \<rho>'. ir_eval rt \<rho>o v = Inr x \<and> isInteger x \<and>
    leaves m rt p c (Reg t) \<rho>0 B \<rho>f (fast_operand am deps v B) (asr3 x) \<rho>'"
proof -
  have known: ?thesis if "untagged rt \<rho>o \<rho>f (snd B) t m" "map_of m v = Some u"
    "fast_operand am deps v B = (u, B)" for m u
    using that assms(1) extends_refl [of "snd B" \<rho>f] unfolding untagged_def leaves_def by fastforce
  consider u where "map_of am v = Some u" | u where "map_of am v = None" "map_of deps v = Some u"
    | w where "map_of am v = None" "map_of deps v = None" "v = PtrConst w" "isInteger w"
    using assms(5) by (cases "map_of am v"; cases "map_of deps v") auto
  then show ?thesis
  proof cases
    case 1
    then show ?thesis using assms(3) by (intro known [of am]) (simp_all add: fast_operand_def)
  next
    case 2
    then show ?thesis using assms(4) by (intro known [of deps]) (simp_all add: fast_operand_def)
  next
    case 3
    then show ?thesis
      using leaves_untag [OF assms(1,2), of v w] by (auto simp: fast_operand_def)
  qed
qed

lemma redirect_map:
  "redirect s u Us deps = Inr deps' \<Longrightarrow>
    map_of deps' = map_of deps \<or> map_of deps' = (map_of deps)(s \<mapsto> u)"
proof (induction Us arbitrary: deps)
  case (Cons I Us)
  have "redirect s u Us deps = Inr deps' \<or> redirect s u Us (AList.update s u deps) = Inr deps'"
    using Cons.prems by (cases I) (auto split: if_splits sum.splits)
  then show ?case using Cons.IH by (elim disjE) (fastforce simp: update_conv')+
qed simp

lemma redirect_user:
  assumes "redirect s u Us deps = Inr deps'"
    and "(q, U) \<in> set Us" and "is_call U" and "two_operands U = Inr (a, b)" and "a = s \<or> b = s"
  shows "map_of deps' = (map_of deps)(s \<mapsto> u)"
  using assms
proof (induction Us arbitrary: deps)
  case (Cons I Us)
  obtain q' U' where I: "I = (q', U')" by (cases I)
  show ?case
  proof (cases "I = (q, U)")
    case True
    then have "redirect s u Us (AList.update s u deps) = Inr deps'" using Cons.prems by auto
    from redirect_map [OF this] show ?thesis by (auto simp: update_conv')
  next
    case False
    then have U: "(q, U) \<in> set Us" using Cons.prems(2) by simp
    have "redirect s u Us deps = Inr deps' \<or> redirect s u Us (AList.update s u deps) = Inr deps'"
      using Cons.prems(1) I by (auto split: if_splits sum.splits)
    then show ?thesis using Cons.IH [OF _ U Cons.prems(3-5)] by (auto simp: update_conv')
  qed
qed simp

text \<open>
  What is known of the operands of a run of calls: each is checked, a small integer constant or the
  result of an earlier call of the run.
\<close>

fun integer_const :: "ir_value \<Rightarrow> bool" where
  "integer_const (PtrConst w) \<longleftrightarrow> isInteger w"
| "integer_const _ \<longleftrightarrow> False"

fun operands_known :: "ir_value list \<Rightarrow> ir_value list \<Rightarrow> ir_block \<Rightarrow> bool" where
  "operands_known vs earlier [] \<longleftrightarrow> True"
| "operands_known vs earlier ((r, i) # is) \<longleftrightarrow>
     (\<forall>a \<in> set (inst_operands i). a \<in> set vs \<or> a \<in> set earlier \<or> integer_const a) \<and>
     operands_known vs (Reg r # earlier) is"

definition helper_calls :: "ir_block \<Rightarrow> bool" where
  "helper_calls calls \<longleftrightarrow> (\<forall>(r, i) \<in> set calls. isArithmeticCall i \<and> length (inst_operands i) = 2)"

lemma users_instructions: "I \<in> set (instructions F) \<Longrightarrow> v \<in> set (inst_operands (snd I)) \<Longrightarrow> I \<in> set (users F v)"
  using count_list_0_iff [of "inst_operands (snd I)" v] by (auto simp: users_def)

lemma helper_call_step:
  assumes "helper_calls ((r, i) # is)" and "steps rt p ((r, i) # is) \<rho> c = Inr (\<rho>', c')"
  obtains f a b q x y w d where "i = CallInst (Some f) [a, b]" and "two_operands i = Inr (a, b)"
    and "fast_opcode i = Some q" and "q \<in> {IrAdd, IrSub, IrMul, IrSDiv}"
    and "ir_eval rt \<rho> a = Inr x" and "ir_eval rt \<rho> b = Inr y"
    and "mysoreScriptOp (rt_machine rt) (binop_of q) x y c = Inr (w, d)"
    and "steps rt p is (\<rho>(r \<mapsto> w)) d = Inr (\<rho>', c')"
proof -
  have i: "isArithmeticCall i" "length (inst_operands i) = 2" using assms(1) by (auto simp: helper_calls_def)
  then obtain f as where "i = CallInst f as"
    by (cases i) (auto simp: isArithmeticCall_def isMysoreAdd_def isMysoreSub_def isMysoreMul_def isMysoreDiv_def)
  then obtain a b where ab: "two_operands i = Inr (a, b)" "inst_operands i = [a, b]"
    using i(2) by (auto simp: length_Suc_conv numeral_2_eq_2)
  from fast_opcode_call [OF i(1) ab(1)] obtain g q as' where
    g: "i = CallInst (Some g) (a # b # as')" "fast_opcode i = Some q" "helper_named g = Some (binop_of q)"
      "q \<in> {IrAdd, IrSub, IrMul, IrSDiv}" by metis
  obtain w d where w: "ir_value_of rt p \<rho> i c = Inr (w, d)" "steps rt p is (\<rho>(r \<mapsto> w)) d = Inr (\<rho>', c')"
    using assms(2) by (rule steps_Cons_InrE)
  from w(1) g(1,3) ab(2) obtain x y where
    "ir_eval rt \<rho> a = Inr x" "ir_eval rt \<rho> b = Inr y"
    "mysoreScriptOp (rt_machine rt) (binop_of q) x y c = Inr (w, d)"
    by (auto simp: sem_simps run_call_def split: sum.splits)
  then show thesis using that g ab w(2) by simp
qed

lemma fast_calls_run:
  assumes "fast_calls F am calls deps out B = Inr (Some (lst, u), B')"
    and "steps rt p calls \<rho>o c = Inr (\<rho>o', c')" and "helper_calls calls"
    and "operands_known vs earlier calls" and "dom (map_of am) = set vs"
    and "\<And>a I. a \<in> set earlier \<Longrightarrow> I \<in> set calls \<Longrightarrow> a \<in> set (inst_operands (snd I)) \<Longrightarrow> a \<in> dom (map_of deps)"
    and "distinct (map fst calls)" and "set calls \<subseteq> set (instructions F)"
    and "\<And>r. r \<in> fst ` set calls \<Longrightarrow> Reg r \<notin> set vs \<and> Reg r \<notin> dom (map_of deps)"
    and "emits m rt p' c (Reg t) \<rho>0 B \<rho>f" and "t < snd B"
    and "untagged rt \<rho>o \<rho>f (snd B) t am" and "untagged rt \<rho>o \<rho>f (snd B) t deps"
    and "\<And>r v. out = Some (r, v) \<Longrightarrow> untagged rt \<rho>o \<rho>f (snd B) t [(Reg r, v)]"
  shows "c' = c \<and> (\<exists>\<rho>f'. emits m rt p' c (Reg t) \<rho>0 B' \<rho>f' \<and> snd B \<le> snd B' \<and>
    untagged rt \<rho>o' \<rho>f' (snd B') t [(Reg lst, u)]) \<and> (calls \<noteq> [] \<longrightarrow> lst = fst (last calls))"
  using assms
proof (induction calls arbitrary: deps out B earlier \<rho>o \<rho>f)
  case Nil
  then show ?case by (auto simp: sem_simps)
next
  case (Cons I calls)
  obtain r i where I: "I = (r, i)" by (cases I)
  obtain f a b q x y w d where i: "i = CallInst (Some f) [a, b]" "two_operands i = Inr (a, b)"
      "fast_opcode i = Some q" "q \<in> {IrAdd, IrSub, IrMul, IrSDiv}"
    and xy: "ir_eval rt \<rho>o a = Inr x" "ir_eval rt \<rho>o b = Inr y"
    and w: "mysoreScriptOp (rt_machine rt) (binop_of q) x y c = Inr (w, d)"
    and rest: "steps rt p calls (\<rho>o(r \<mapsto> w)) d = Inr (\<rho>o', c')"
    using helper_call_step [OF Cons.prems(3) [unfolded I] Cons.prems(2) [unfolded I]] by metis
  have known: "v \<in> dom (map_of am) \<or> v \<in> dom (map_of deps) \<or> (\<exists>w. v = PtrConst w \<and> isInteger w)"
    if "v \<in> {a, b}" for v
    using that Cons.prems(4,5) Cons.prems(6) [of v I] unfolding I i(1)
    by (cases v rule: integer_const.cases) auto
  obtain u1 B1 where u1: "fast_operand am deps a B = (u1, B1)" by (rule prod.exhaust)
  obtain u2 B2 where u2: "fast_operand am deps b B1 = (u2, B2)" by (rule prod.exhaust)
  obtain op B3 where op: "create (BinaryOperator q u1 u2) B2 = (op, B3)" by (rule prod.exhaust)
  obtain \<rho>1 where x: "isInteger x" and 1: "leaves m rt p' c (Reg t) \<rho>0 B \<rho>f (u1, B1) (asr3 x) \<rho>1"
    using fast_operand_run [OF Cons.prems(10-13) known [of a]] xy(1) by (auto simp: u1)
  note l1 = leaves_emits [OF 1]
  obtain \<rho>2 where y: "isInteger y" and 2: "leaves m rt p' c (Reg t) \<rho>0 B1 \<rho>1 (u2, B2) (asr3 y) \<rho>2"
    using fast_operand_run [OF l1(1) _ untagged_extends [OF Cons.prems(12) l1(3,2)]
        untagged_extends [OF Cons.prems(13) l1(3,2)] known [of b]] xy(2) Cons.prems(11) l1(2) by (auto simp: u2)
  note l2 = leaves_emits [OF 2]
  have helper: "helperOp (binop_of q) x y = Inr w" "d = c"
    using w x by (auto simp: mysoreScriptOp_def lift_def split: sum.splits)
  note fast = fast_helper [OF helper(1) x i(4)]
  have "ir_eval rt \<rho>2 u1 = Inr (asr3 x)" using extends_eval [OF l2(3) l1(4)] l1(5) by simp
  then have "leaves m rt p' c (Reg t) \<rho>0 B2 \<rho>2 (create (BinaryOperator q u1 u2) B2) (asr3 w) (\<rho>2(snd B2 \<mapsto> asr3 w))"
    using l1 l2 Cons.prems(11) fast(3) by (intro leaves_create) (auto simp: sem_simps)
  then have 3: "leaves m rt p' c (Reg t) \<rho>0 B \<rho>f (op, B3) (asr3 w) (\<rho>2(snd B2 \<mapsto> asr3 w))"
    unfolding op by (rule leaves_then [OF 1 leaves_then [OF 2]])
  note l3 = leaves_emits [OF 3]
  have call: "is_call i" by (simp add: i(1))
  obtain deps' where deps': "redirect (Reg r) op (users F (Reg r)) deps = Inr deps'"
    and next_calls: "fast_calls F am calls deps' (Some (r, op)) B3 = Inr (Some (lst, u), B')"
    using Cons.prems(1) call unfolding I by (auto simp: i(2,3) u1 u2 op Let_def split: sum.splits)
  let ?\<rho>3 = "\<rho>2(snd B2 \<mapsto> asr3 w)"
  have r: "Reg r \<notin> set vs" "Reg r \<notin> dom (map_of deps)" using Cons.prems(9) [of r] by (auto simp: I)
  have same: "ir_eval rt (\<rho>o(r \<mapsto> w)) v = ir_eval rt \<rho>o v" if "v \<noteq> Reg r" for v
    using that by (cases v) auto
  have am: "untagged rt (\<rho>o(r \<mapsto> w)) ?\<rho>3 (snd B3) t am"
    using Cons.prems(5) r by (intro untagged_original [OF untagged_extends [OF Cons.prems(12) l3(3,2)]] same) auto
  have "untagged rt (\<rho>o(r \<mapsto> w)) ?\<rho>3 (snd B3) t deps"
    using r by (intro untagged_original [OF untagged_extends [OF Cons.prems(13) l3(3,2)]] same) auto
  moreover have new: "untagged rt (\<rho>o(r \<mapsto> w)) ?\<rho>3 (snd B3) t [(Reg r, op)]"
    using l3(4-6) fast(2) unfolding untagged_def by simp
  ultimately have deps: "untagged rt (\<rho>o(r \<mapsto> w)) ?\<rho>3 (snd B3) t deps'"
    using redirect_map [OF deps'] by (rule untagged_choice)
  have users: "v \<in> dom (map_of deps')"
    if v: "v \<in> set (Reg r # earlier)" "J \<in> set calls" "v \<in> set (inst_operands (snd J))" for v J
  proof (cases "v = Reg r")
    case True
    obtain s U where J: "J = (s, U)" by (cases J)
    then obtain g a' b' where U: "U = CallInst g [a', b']"
      using Cons.prems(3) v(2) unfolding I helper_calls_def
      by (cases U) (auto simp: isArithmeticCall_def isMysoreAdd_def isMysoreSub_def isMysoreMul_def
          isMysoreDiv_def length_Suc_conv numeral_2_eq_2)
    have "(s, U) \<in> set (users F (Reg r))"
      using users_instructions [of J F v] Cons.prems(8) v True J by auto
    from redirect_user [OF deps' this, of a' b'] show ?thesis using v(3) True U J by auto
  next
    case False
    then have "v \<in> dom (map_of deps)" using Cons.prems(6) [of v J] v by auto
    then show ?thesis using redirect_map [OF deps'] by auto
  qed
  have "c' = c \<and> (\<exists>\<rho>f'. emits m rt p' c (Reg t) \<rho>0 B' \<rho>f' \<and> snd B3 \<le> snd B' \<and>
    untagged rt \<rho>o' \<rho>f' (snd B') t [(Reg lst, u)]) \<and> (calls \<noteq> [] \<longrightarrow> lst = fst (last calls))"
  proof (rule Cons.IH [OF next_calls rest [unfolded helper(2)]])
    show "helper_calls calls" using Cons.prems(3) by (auto simp: helper_calls_def)
    show "operands_known vs (Reg r # earlier) calls" using Cons.prems(4) by (simp add: I)
    show "distinct (map fst calls)" "set calls \<subseteq> set (instructions F)" using Cons.prems(7,8) by simp_all
    show "Reg s \<notin> set vs \<and> Reg s \<notin> dom (map_of deps')" if "s \<in> fst ` set calls" for s
    proof -
      have "s \<noteq> r" using that Cons.prems(7) by (auto simp: I)
      then show ?thesis using that Cons.prems(9) [of s] redirect_map [OF deps'] by (auto simp: I)
    qed
    show "t < snd B3" using Cons.prems(11) l3(2) by simp
    show "v \<in> dom (map_of deps')"
      if "v \<in> set (Reg r # earlier)" "J \<in> set calls" "v \<in> set (inst_operands (snd J))" for v J
      using that by (rule users)
    show "untagged rt (\<rho>o(r \<mapsto> w)) ?\<rho>3 (snd B3) t [(Reg s, v)]" if "Some (r, op) = Some (s, v)" for s v
      using new that by (simp del: fun_upd_apply)
  qed (rule Cons.prems(5) l3(1) am deps)+
  moreover have "calls = [] \<Longrightarrow> lst = r" using next_calls by simp
  ultimately show ?case using l3(2) by (auto simp: I)
qed

end
