(* ===== verification/Split_Correct.thy ===== *)
theory Split_Correct
  imports Split_Paths Fuel
begin

text \<open>
  Rewriting one run of arithmetic calls keeps the result of every execution of the function that has
  one: a simulation between the registers of the function and of its rewriting.
\<close>

section \<open>Which runs can be split\<close>

fun phi_labels :: "ir_inst \<Rightarrow> nat list" where
  "phi_labels (PHINode vs) = map snd vs"
| "phi_labels _ = []"

fun is_phi :: "ir_inst \<Rightarrow> bool" where
  "is_phi (PHINode vs) \<longleftrightarrow> True"
| "is_phi _ \<longleftrightarrow> False"

text \<open>The labels are less than \<open>k\<close>, the addresses less than \<open>n\<close>, and none is used twice.\<close>

definition well_numbered :: "ir_function \<Rightarrow> nat \<Rightarrow> nat \<Rightarrow> bool" where
  "well_numbered F k n \<longleftrightarrow> distinct (map fst F) \<and> (\<forall>l \<in> set (map fst F). l < k) \<and>
     distinct (map fst (instructions F)) \<and>
     (\<forall>(r, i) \<in> set (instructions F). r < n \<and> (\<forall>v \<in> set (inst_operands i). below n v) \<and>
        (\<forall>l \<in> set (phi_labels i). l < k))"

text \<open>
  The run consists of helper calls on checked values, constants and earlier results, nothing else
  uses a result but the last, and no phi node follows the run in its block.
\<close>

definition closed_run :: "ir_function \<Rightarrow> nat \<Rightarrow> ir_value list \<Rightarrow> ir_block \<Rightarrow> ir_block \<Rightarrow> ir_block \<Rightarrow> bool" where
  "closed_run F n vs before calls rest \<longleftrightarrow>
     straight before \<and> (\<forall>I \<in> set rest. \<not> is_phi (snd I)) \<and> calls \<noteq> [] \<and> helper_calls calls \<and> operands_known vs [] calls \<and>
     (\<forall>v \<in> set vs. below n v \<and> regs_of v \<inter> fst ` set calls = {} \<and>
        (\<exists>I \<in> set calls. v \<in> set (inst_operands (snd I)))) \<and>
     (\<forall>I \<in> set (instructions F). fst I \<notin> fst ` set calls \<longrightarrow>
        (\<forall>v \<in> set (inst_operands (snd I)). regs_of v \<inter> (fst ` set calls - {fst (last calls)}) = {}))"

section \<open>Registers that agree\<close>

definition alike :: "nat \<Rightarrow> nat set \<Rightarrow> nat \<Rightarrow> nat \<Rightarrow> ir_registers \<Rightarrow> ir_registers \<Rightarrow> bool" where
  "alike n own t phi \<rho> \<rho>' \<longleftrightarrow> (\<forall>q < n. q \<notin> own \<longrightarrow> \<rho>' q = \<rho> q) \<and> (\<forall>w. \<rho> t = Some w \<longrightarrow> \<rho>' phi = Some w)"

definition moved :: "nat \<Rightarrow> nat \<Rightarrow> nat \<Rightarrow> nat" where
  "moved l k q = (if q = l then k + 1 else q)"

definition patch_inst :: "nat \<Rightarrow> nat \<Rightarrow> nat \<Rightarrow> nat \<Rightarrow> ir_inst \<Rightarrow> ir_inst" where
  "patch_inst l k t phi i = move_phis l (k + 1) (replaceUsesOfWith (Reg t) (Reg phi) i)"

lemma patch_map:
  "patch l k S BB = map (map_prod id (patch_inst l k (s_last S) (fst (s_phi S)))) BB"
  by (auto simp: patch_def replace_all_def patch_inst_def)

lemma patch_terminator [simp]: "is_terminator (patch_inst l k t phi i) \<longleftrightarrow> is_terminator i"
  by (cases i) (simp_all add: patch_inst_def)

definition reads_well :: "nat \<Rightarrow> nat \<Rightarrow> nat set \<Rightarrow> nat \<Rightarrow> ir_inst \<Rightarrow> bool" where
  "reads_well n k own t i \<longleftrightarrow> (\<forall>v \<in> set (inst_operands i). below n v \<and> regs_of v \<inter> (own - {t}) = {}) \<and>
     (\<forall>l \<in> set (phi_labels i). l < k)"

lemma alike_eval:
  assumes "alike n own t phi \<rho> \<rho>'" and "below n v" and "regs_of v \<inter> (own - {t}) = {}"
    and "ir_eval rt \<rho> v = Inr w"
  shows "ir_eval rt \<rho>' (subst_value (Reg t) (Reg phi) v) = Inr w"
  using assms by (cases v) (auto simp: alike_def split: option.splits)

declare subst_value.simps [simp del]

lemma alike_evals:
  assumes "alike n own t phi \<rho> \<rho>'" and "\<forall>v \<in> set vs. below n v \<and> regs_of v \<inter> (own - {t}) = {}"
    and "ir_evals rt \<rho> vs = Inr ws"
  shows "ir_evals rt \<rho>' (map (subst_value (Reg t) (Reg phi)) vs) = Inr ws"
  using assms(2,3)
  by (induction vs arbitrary: ws) (auto split: sum.splits dest!: alike_eval [OF assms(1)])

lemma find_phi:
  assumes "\<forall>l \<in> snd ` set vs. l < (k :: nat)" and "prev < k"
  shows "find (\<lambda>(v, q). q = (moved l k prev))
      (map (map_prod id (moved l k)) (map (map_prod f id) vs)) =
    map_option (map_prod f (moved l k)) (find (\<lambda>(v, q). q = prev) vs)"
  using assms by (induction vs) (auto simp: moved_def)

lemma alike_value:
  assumes "alike n own t phi \<rho> \<rho>'" and "reads_well n k own t i" and "prev < k"
    and "ir_value_of rt prev \<rho> i c = Inr (w, d)"
  shows "ir_value_of rt (moved l k prev) \<rho>' (patch_inst l k t phi i) c = Inr (w, d)"
proof (cases i)
  case (PHINode vs)
  obtain v q where v: "find (\<lambda>(v, q). q = prev) vs = Some (v, q)" "ir_eval rt \<rho> v = Inr w" "c = d"
    using assms(4) PHINode by (auto simp: sem_simps lift_def split: option.splits sum.splits)
  then have "(v, q) \<in> set vs" by (fastforce simp: find_Some_iff in_set_conv_nth)
  then have "ir_eval rt \<rho>' (subst_value (Reg t) (Reg phi) v) = Inr w"
    using assms(2) PHINode v(2) by (intro alike_eval [OF assms(1)]) (fastforce simp: reads_well_def)+
  moreover have "\<forall>l \<in> snd ` set vs. l < k" using assms(2) PHINode by (auto simp: reads_well_def)
  from find_phi [OF this assms(3)] have
    "find (\<lambda>(v, q). q = (moved l k prev))
      (map (map_prod id (moved l k)) (map (map_prod (subst_value (Reg t) (Reg phi)) id) vs))
    = Some (subst_value (Reg t) (Reg phi) v, moved l k q)"
    using v(1) by simp
  moreover have moved: "(\<lambda>q. if q = l then k + 1 else q) = moved l k" by (simp add: fun_eq_iff moved_def)
  ultimately show ?thesis
    using v(3) by (simp only: PHINode patch_inst_def replaceUsesOfWith.simps move_phis.simps ir_value_of.simps
        moved
        option.case prod.case) (simp add: sem_simps)
next
  case (CallInst f vs)
  then show ?thesis
    using assms(2,4) alike_evals [OF assms(1), of vs rt]
    by (auto simp: patch_inst_def sem_simps lift_def reads_well_def split: sum.splits)
next
  case (OtherInst f vs)
  then show ?thesis
    using assms(2,4) alike_evals [OF assms(1), of vs rt]
    by (auto simp: patch_inst_def sem_simps lift_def reads_well_def split: sum.splits)
qed (use assms(2,4) alike_eval [OF assms(1)] in
    \<open>auto simp: patch_inst_def sem_simps lift_def reads_well_def split: sum.splits\<close>)

lemma alike_exit:
  assumes "alike n own t phi \<rho> \<rho>'" and "reads_well n k own t i" and "ir_exit_of rt \<rho> i = Inr x"
  shows "ir_exit_of rt \<rho>' (patch_inst l k t phi i) = Inr x"
  using assms(2,3) alike_eval [OF assms(1)]
  by (cases i) (auto simp: patch_inst_def reads_well_def split: sum.splits)

lemma alike_upd:
  "alike n own t phi \<rho> \<rho>' \<Longrightarrow> r < n \<Longrightarrow> r \<notin> own \<Longrightarrow> n \<le> phi \<Longrightarrow> t \<in> own \<Longrightarrow>
    alike n own t phi (\<rho>(r \<mapsto> w)) (\<rho>'(r \<mapsto> w))"
  by (auto simp: alike_def)

definition ordinary :: "nat \<Rightarrow> nat \<Rightarrow> nat set \<Rightarrow> nat \<Rightarrow> ir_block \<Rightarrow> bool" where
  "ordinary n k own t BB \<longleftrightarrow> (\<forall>I \<in> set BB. fst I < n \<and> fst I \<notin> own \<and> reads_well n k own t (snd I))"

lemma alike_steps:
  assumes "alike n own t phi \<rho> \<rho>'" and "ordinary n k own t xs" and "prev < k" and "n \<le> phi" and "t \<in> own"
    and "steps rt prev xs \<rho> c = Inr (\<rho>1, d)"
  shows "\<exists>\<rho>1'. steps rt (moved l k prev) (map (map_prod id (patch_inst l k t phi)) xs) \<rho>' c
      = Inr (\<rho>1', d) \<and> alike n own t phi \<rho>1 \<rho>1'"
  using assms(1,2,6)
proof (induction xs arbitrary: \<rho> \<rho>' c)
  case Nil
  then show ?case by (simp add: sem_simps)
next
  case (Cons I xs)
  obtain r i where I: "I = (r, i)" by (cases I)
  from Cons.prems(3) [unfolded I] obtain w e where w: "ir_value_of rt prev \<rho> i c = Inr (w, e)"
    "steps rt prev xs (\<rho>(r \<mapsto> w)) e = Inr (\<rho>1, d)" by (rule steps_Cons_InrE)
  have o: "r < n" "r \<notin> own" "reads_well n k own t i" "ordinary n k own t xs"
    using Cons.prems(2) by (auto simp: ordinary_def I)
  show ?case
    using alike_value [OF Cons.prems(1) o(3) assms(3) w(1)]
      Cons.IH [OF alike_upd [OF Cons.prems(1) o(1,2) assms(4,5)] o(4) w(2)]
    by (simp add: I sem_simps del: fun_upd_apply)
qed

lemma alike_run_block:
  assumes "alike n own t phi \<rho> \<rho>'" and "ordinary n k own t xs" and "prev < k" and "n \<le> phi" and "t \<in> own"
    and "run_block rt prev xs \<rho> c = Inr ((\<rho>1, x), d)"
  shows "\<exists>\<rho>1'. run_block rt (moved l k prev) (map (map_prod id (patch_inst l k t phi)) xs) \<rho>' c
      = Inr ((\<rho>1', x), d) \<and> alike n own t phi \<rho>1 \<rho>1'"
  using assms(1,2,6)
proof (induction xs arbitrary: \<rho> \<rho>' c)
  case Nil
  then show ?case by (simp add: sem_simps)
next
  case (Cons I xs)
  obtain r i where I: "I = (r, i)" by (cases I)
  have o: "r < n" "r \<notin> own" "reads_well n k own t i" "ordinary n k own t xs"
    using Cons.prems(2) by (auto simp: ordinary_def I)
  show ?case
  proof (cases "is_terminator i")
    case True
    then show ?thesis
      using Cons.prems(1,3) alike_exit [OF Cons.prems(1) o(3)]
      by (auto simp: I sem_simps lift_def split: sum.splits)
  next
    case False
    then obtain w e where w: "ir_value_of rt prev \<rho> i c = Inr (w, e)"
      "run_block rt prev xs (\<rho>(r \<mapsto> w)) e = Inr ((\<rho>1, x), d)"
      using Cons.prems(3) by (auto simp: I elim: bind_InrE)
    show ?thesis
      using False alike_value [OF Cons.prems(1) o(3) assms(3) w(1)]
        Cons.IH [OF alike_upd [OF Cons.prems(1) o(1,2) assms(4,5)] o(4) w(2)]
      by (simp add: I sem_simps del: fun_upd_apply)
  qed
qed

section \<open>The calls, on either path\<close>

lemma integer_constE:
  assumes "integer_const v"
  obtains w where "v = PtrConst w" and "isInteger w"
  using assms by (cases v rule: integer_const.cases) auto

lemma slow_steps:
  assumes "steps rt p calls \<rho> c = Inr (\<rho>1, d)" and "helper_calls calls" and "operands_known vs earlier calls"
    and "\<And>v. v \<in> set vs \<union> set earlier \<Longrightarrow> ir_eval rt \<rho>' v = ir_eval rt \<rho> v"
  shows "\<exists>\<rho>1'. steps rt p' calls \<rho>' c = Inr (\<rho>1', d) \<and> (\<forall>r \<in> fst ` set calls. \<rho>1' r = \<rho>1 r)"
proof -
  have "\<exists>\<rho>1'. steps rt p' calls \<rho>' c = Inr (\<rho>1', d) \<and> (\<forall>r. \<rho> r = \<rho>' r \<or> r \<in> fst ` set calls \<longrightarrow> \<rho>1' r = \<rho>1 r)"
    using assms
  proof (induction calls arbitrary: \<rho> \<rho>' c earlier)
    case Nil
    then show ?case by (simp add: sem_simps)
  next
    case (Cons I calls)
    obtain r i where I: "I = (r, i)" by (cases I)
    obtain f a b q x y w e where i: "i = CallInst (Some f) [a, b]" and xy: "ir_eval rt \<rho> a = Inr x" "ir_eval rt \<rho> b = Inr y"
      and rest: "steps rt p calls (\<rho>(r \<mapsto> w)) e = Inr (\<rho>1, d)"
      using helper_call_step [OF Cons.prems(2,1) [unfolded I]] by metis
    obtain w' e' where w': "ir_value_of rt p \<rho> i c = Inr (w', e')" "steps rt p calls (\<rho>(r \<mapsto> w')) e' = Inr (\<rho>1, d)"
      using Cons.prems(1) [unfolded I] by (rule steps_Cons_InrE)
    have "ir_eval rt \<rho>' v = ir_eval rt \<rho> v" if "v \<in> {a, b}" for v
    proof -
      have "v \<in> set vs \<union> set earlier \<or> integer_const v" using that Cons.prems(3) by (auto simp: I i)
      then show ?thesis using Cons.prems(4) [of v] by (auto elim: integer_constE)
    qed
    then have same: "ir_value_of rt p' \<rho>' i c = Inr (w', e')" using w'(1) xy by (simp add: i sem_simps)
    have "ir_eval rt (\<rho>'(r \<mapsto> w')) v = ir_eval rt (\<rho>(r \<mapsto> w')) v" if "v \<in> set vs \<union> set (Reg r # earlier)" for v
      using that Cons.prems(4) [of v] by (cases v) auto
    moreover have "helper_calls calls" "operands_known vs (Reg r # earlier) calls"
      using Cons.prems(2,3) by (auto simp: helper_calls_def I)
    ultimately obtain \<rho>1' where "steps rt p' calls (\<rho>'(r \<mapsto> w')) e' = Inr (\<rho>1', d)"
      "\<forall>s. (\<rho>(r \<mapsto> w')) s = (\<rho>'(r \<mapsto> w')) s \<or> s \<in> fst ` set calls \<longrightarrow> \<rho>1' s = \<rho>1 s"
      using Cons.IH [OF w'(2)] by metis
    then show ?case using same by (auto simp: I sem_simps)
  qed
  then show ?thesis by blast
qed

lemma operands_evaluated:
  assumes "steps rt p calls \<rho> c = Inr (\<rho>1, d)" and "helper_calls calls"
    and "I \<in> set calls" and "v \<in> set (inst_operands (snd I))" and "regs_of v \<inter> fst ` set calls = {}"
  shows "\<exists>x. ir_eval rt \<rho> v = Inr x"
  using assms
proof (induction calls arbitrary: \<rho> c)
  case (Cons J calls)
  obtain r i where J: "J = (r, i)" by (cases J)
  obtain f a b q x y w e where i: "i = CallInst (Some f) [a, b]" and xy: "ir_eval rt \<rho> a = Inr x" "ir_eval rt \<rho> b = Inr y"
    and rest: "steps rt p calls (\<rho>(r \<mapsto> w)) e = Inr (\<rho>1, d)"
    using helper_call_step [OF Cons.prems(2,1) [unfolded J]] by metis
  show ?case
  proof (cases "I = J")
    case True
    then show ?thesis using Cons.prems(4) xy by (auto simp: J i)
  next
    case False
    have "helper_calls calls" using Cons.prems(2) by (auto simp: helper_calls_def)
    then have "\<exists>x. ir_eval rt (\<rho>(r \<mapsto> w)) v = Inr x"
      using False Cons.prems(3-5) by (intro Cons.IH [OF rest]) auto
    then show ?thesis using Cons.prems(5) by (cases v) (auto simp: J)
  qed
qed simp

text \<open>
  \<open>J\<close> is kept by all calls and instructions, and there is no block at an odd address: the allocator
  aligns its blocks.
\<close>

definition tagged_receivers :: "ir_runtime \<Rightarrow> (ctx \<Rightarrow> bool) \<Rightarrow> bool" where
  "tagged_receivers rt J \<longleftrightarrow> (\<forall>c a. J c \<longrightarrow> odd a \<longrightarrow> mem c a = None) \<and>
     (\<forall>f ws c w d. J c \<longrightarrow> run_call rt f ws c = Inr (w, d) \<longrightarrow> J d) \<and>
     (\<forall>k ws c w d. J c \<longrightarrow> rt_other rt k ws c = Inr (w, d) \<longrightarrow> J d)"

lemma odd_receiver:
  assumes "odd x" and "\<not> isInteger x" and "mem c x = None"
  shows "mysoreScriptOp m op x y c \<noteq> Inr r"
proof -
  have "x \<noteq> 0" using assms(1) by auto
  then show ?thesis
    using assms(2,3) by (simp add: mysoreScriptOp_def compiledMethodForSelector_def
        ptrToCompiledMethodForSelector_def getClassFor_def isa_def block_at_def sem_simps)
qed

lemma calls_integers:
  assumes "steps rt p calls \<rho> c = Inr (\<rho>1, d)" and "helper_calls calls" and "operands_known vs earlier calls"
    and J: "tagged_receivers rt J" "J c"
    and "\<And>v. v \<in> set vs \<Longrightarrow> regs_of v \<inter> fst ` set calls = {} \<and> (\<exists>x. ir_eval rt \<rho> v = Inr x \<and> odd x)"
    and "\<And>v. v \<in> set earlier \<Longrightarrow> \<exists>x. ir_eval rt \<rho> v = Inr x \<and> isInteger x"
    and "I \<in> set calls" and "v \<in> set (inst_operands (snd I))" and "v \<in> set vs"
  shows "\<exists>x. ir_eval rt \<rho> v = Inr x \<and> isInteger x"
  using assms(1-3,6-9)
proof (induction calls arbitrary: \<rho> earlier)
  case (Cons K calls)
  obtain r i where K: "K = (r, i)" by (cases K)
  obtain f a b q x y w e where i: "i = CallInst (Some f) [a, b]" "q \<in> {IrAdd, IrSub, IrMul, IrSDiv}"
    and xy: "ir_eval rt \<rho> a = Inr x" "ir_eval rt \<rho> b = Inr y"
    and w: "mysoreScriptOp (rt_machine rt) (binop_of q) x y c = Inr (w, e)"
    and rest: "steps rt p calls (\<rho>(r \<mapsto> w)) e = Inr (\<rho>1, d)"
    using helper_call_step [OF Cons.prems(2,1) [unfolded K]] by metis
  have "a \<in> set vs \<or> a \<in> set earlier \<or> integer_const a" using Cons.prems(3) by (simp add: K i)
  then have "odd x"
    using Cons.prems(4) [of a] Cons.prems(5) [of a] xy(1) integer_odd [of x] by (auto elim!: integer_constE)
  then have x: "isInteger x" using odd_receiver [of x c] J w unfolding tagged_receivers_def by blast
  then have h: "helperOp (binop_of q) x y = Inr w" "e = c"
    using w by (auto simp: mysoreScriptOp_def lift_def split: sum.splits)
  note fast = fast_helper [OF h(1) x i(2)]
  show ?case
  proof (cases "I = K")
    case True
    then show ?thesis using Cons.prems(7) xy x fast(1) by (auto simp: K i)
  next
    case False
    have same: "ir_eval rt (\<rho>(r \<mapsto> w)) u = ir_eval rt \<rho> u" if "u \<in> set vs" for u
      using Cons.prems(4) [OF that] by (cases u) (auto simp: K)
    have "\<exists>x. ir_eval rt (\<rho>(r \<mapsto> w)) v = Inr x \<and> isInteger x"
    proof (rule Cons.IH [OF rest [unfolded h(2)]])
      show "helper_calls calls" "operands_known vs (Reg r # earlier) calls"
        using Cons.prems(2,3) by (auto simp: helper_calls_def K)
      show "regs_of u \<inter> fst ` set calls = {} \<and> (\<exists>x. ir_eval rt (\<rho>(r \<mapsto> w)) u = Inr x \<and> odd x)"
        if "u \<in> set vs" for u
        using Cons.prems(4) [OF that] same [OF that] by auto
      show "\<exists>x. ir_eval rt (\<rho>(r \<mapsto> w)) u = Inr x \<and> isInteger x" if "u \<in> set (Reg r # earlier)" for u
      proof (cases "u = Reg r")
        case False
        then have "ir_eval rt (\<rho>(r \<mapsto> w)) u = ir_eval rt \<rho> u" by (cases u) auto
        then show ?thesis using that False Cons.prems(5) [of u] by auto
      qed (use fast(2) in simp)
    qed (use False Cons.prems(6,7) in auto)
    then show ?thesis using same [OF assms(10)] by simp
  qed
qed simp

section \<open>The rewritten block\<close>

lemma and_all_append:
  "and_all vs a (xs @ ys, n) = (let (v, (zs, q)) = and_all vs a (ys, n) in (v, (xs @ zs, q)))"
proof (induction vs arbitrary: a ys n)
  case (Cons v vs)
  then show ?case by (simp add: create_def Let_def)
qed simp

lemma are_all_ints_append:
  "are_all_ints vs (xs, n) = (let (v, (zs, q)) = are_all_ints vs ([], n) in (v, (xs @ zs, q)))"
  using and_all_append [of vs "IntConst 1" xs "[]" n]
  by (simp add: are_all_ints_def create_def Let_def split: prod.splits)

lemma are_all_ints_next: "are_all_ints vs (xs, n) = (v, (ys, n')) \<Longrightarrow> n \<le> n'"
proof -
  have "and_all vs a (xs, n) = (v, (ys, n')) \<Longrightarrow> n \<le> n'" for a v xs n ys n'
    by (induction vs arbitrary: a xs n) (force simp: create_def Let_def)+
  then show "are_all_ints vs (xs, n) = (v, (ys, n')) \<Longrightarrow> n \<le> n'"
    by (fastforce simp: are_all_ints_def create_def Let_def split: prod.splits)
qed

lemma straight_patch [simp]: "straight (map (map_prod id (patch_inst l k t phi)) xs) \<longleftrightarrow> straight xs"
  by (auto simp: straight_def)

lemma patch_unused:
  "\<forall>I \<in> set xs. Reg t \<notin> set (inst_operands (snd I)) \<and> (\<forall>vs. snd I \<noteq> PHINode vs) \<Longrightarrow>
    map (map_prod id (patch_inst l k t phi)) xs = xs"
proof (induction xs)
  case (Cons I xs)
  have "patch_inst l k t phi (snd I) = snd I"
    using Cons.prems by (cases "snd I") (auto simp: patch_inst_def subst_value.simps intro: map_idI)
  then show ?case using Cons by (cases I) auto
qed simp

lemma run_block_prev:
  "\<forall>I \<in> set xs. \<not> is_phi (snd I) \<Longrightarrow> run_block rt p xs \<rho> = run_block rt p' xs \<rho>"
proof (induction xs arbitrary: \<rho>)
  case (Cons I xs)
  obtain r i where I: "I = (r, i)" by (cases I)
  have "ir_value_of rt p \<rho> i = ir_value_of rt p' \<rho> i" using Cons.prems by (cases i) (auto simp: I)
  then show ?case using Cons by (simp add: I)
qed simp

lemma split_run_parts:
  assumes "split_run F (first, vs, after) BB k n = Inr (S, n')"
    and "split_at first after BB = (before, calls, rest)"
  obtains cond ch n1 am B u B1 res fast n2 where "are_all_ints vs ([], n) = (cond, (ch, n1))"
    and "untag_args vs [] ([], n1 + 2) = (am, B)"
    and "fast_calls F am calls [] None B = Inr (Some (s_last S, u), B1)"
    and "retag u B1 = (res, (fast, n2))"
    and "s_block S = before @ ch @ [(n1, IrCondBr cond (k + 2) k)]"
    and "s_slow S = calls @ [(n2, IrBr (k + 1))]" and "s_fast S = fast @ [(Suc n2, IrBr (k + 1))]"
    and "s_phi S = (Suc n1, PHINode [(res, k + 2), (Reg (s_last S), k)])" and "s_rest S = rest"
proof -
  obtain cond ch n1 where c: "are_all_ints vs ([], n) = (cond, (ch, n1))" by (metis prod.exhaust)
  obtain am B where a: "untag_args vs [] ([], n1 + 2) = (am, B)" by (rule prod.exhaust)
  have "are_all_ints vs (before, n) = (cond, (before @ ch, n1))"
    by (simp add: are_all_ints_append [of vs before n] c)
  then show thesis
    using assms that c a unfolding split_run_def
    by (auto simp: Let_def split: if_splits sum.splits option.splits prod.splits)
qed

lemma fast_calls_last:
  "fast_calls F am calls deps out B = Inr (Some (t, u), B1) \<Longrightarrow> helper_calls calls \<Longrightarrow>
    (if calls = [] then out = Some (t, u) else t = fst (last calls))"
proof (induction calls arbitrary: deps out B)
  case (Cons I calls)
  obtain r i where I: "I = (r, i)" by (cases I)
  have h: "helper_calls calls" "is_call i"
    using Cons.prems(2) by (cases i; auto simp: helper_calls_def I isArithmeticCall_def isMysoreAdd_def
      isMysoreSub_def isMysoreMul_def isMysoreDiv_def)+
  obtain deps' op B' where "fast_calls F am calls deps' (Some (r, op)) B' = Inr (Some (t, u), B1)"
    using Cons.prems(1) h(2) by (auto simp: I Let_def split: sum.splits option.splits prod.splits)
  from Cons.IH [OF this h(1)] show ?case by (auto simp: I)
qed simp

lemma split_run_last:
  assumes "split_run F (first, vs, after) BB k n = Inr (S, n')" and "split_at first after BB = (before, calls, rest)"
    and cl: "closed_run F n vs before calls rest"
  shows "s_last S = fst (last calls)" and "n \<le> fst (s_phi S)"
proof -
  have c: "helper_calls calls" "calls \<noteq> []" using cl by (auto simp: closed_run_def)
  obtain cond ch n1 am B u B1 where parts: "are_all_ints vs ([], n) = (cond, (ch, n1))"
    "fast_calls F am calls [] None B = Inr (Some (s_last S, u), B1)" "fst (s_phi S) = Suc n1"
    using split_run_parts [OF assms(1,2)] by (metis fst_conv)
  show "s_last S = fst (last calls)" using fast_calls_last [OF parts(2) c(1)] c(2) by simp
  show "n \<le> fst (s_phi S)" using are_all_ints_next [OF parts(1)] parts(3) by simp
qed

text \<open>One block after the other.\<close>

definition follows :: "ir_runtime \<Rightarrow> ir_function \<Rightarrow> nat \<Rightarrow> nat \<Rightarrow> ir_registers \<Rightarrow> ctx \<Rightarrow> nat \<Rightarrow> nat \<Rightarrow> ir_registers \<Rightarrow> ctx \<Rightarrow> bool" where
  "follows rt F p l \<rho> c p' l' \<rho>' c' \<longleftrightarrow> p' = l \<and>
     (\<exists>BB. map_of F l = Some BB \<and> run_block rt p BB \<rho> c = Inr ((\<rho>', GoTo l'), c'))"

lemma follows_run: "follows rt F p l \<rho> c p' l' \<rho>' c' \<Longrightarrow> run_ir rt F (Suc m) p l \<rho> c = run_ir rt F m p' l' \<rho>' c'"
  by (auto simp: follows_def sem_simps)

lemma run_phi:
  assumes rest: "run_block rt prev rest \<rho>c c = Inr ((\<rho>1, x), d)" "\<forall>I \<in> set rest. \<not> is_phi (snd I)"
    and ord: "ordinary n k own t rest" and n: "n \<le> phi" "t \<in> own" "l < k"
    and env: "\<And>r. r < n \<Longrightarrow> r \<notin> own \<Longrightarrow> \<rho>s r = \<rho>c r" and w: "\<rho>c t = Some w"
    and v: "q = k + 2 \<and> ir_eval rt \<rho>s res = Inr w \<or> q = k \<and> \<rho>s t = Some w"
  shows "\<exists>\<rho>1'. run_block rt q ((phi, PHINode [(res, k + 2), (Reg t, k)]) #
      map (map_prod id (patch_inst l k t phi)) rest) \<rho>s c = Inr ((\<rho>1', x), d) \<and> alike n own t phi \<rho>1 \<rho>1'"
proof -
  have a: "alike n own t phi \<rho>c (\<rho>s(phi \<mapsto> w))" using env w n(1) by (auto simp: alike_def)
  have p: "run_block rt l rest \<rho>c c = Inr ((\<rho>1, x), d)"
    using run_block_prev [OF rest(2), of rt l \<rho>c prev] rest(1) by simp
  obtain \<rho>1' where r: "run_block rt (moved l k l) (map (map_prod id (patch_inst l k t phi)) rest)
      (\<rho>s(phi \<mapsto> w)) c = Inr ((\<rho>1', x), d)" "alike n own t phi \<rho>1 \<rho>1'"
    using alike_run_block [OF a ord n(3,1,2) p] by blast
  have "\<forall>I \<in> set (map (map_prod id (patch_inst l k t phi)) rest). \<not> is_phi (snd I)"
  proof
    fix I assume "I \<in> set (map (map_prod id (patch_inst l k t phi)) rest)"
    then obtain J where "J \<in> set rest" "I = map_prod id (patch_inst l k t phi) J" by auto
    then show "\<not> is_phi (snd I)" using rest(2) by (cases "snd J") (auto simp: patch_inst_def)
  qed
  from run_block_prev [OF this, of rt q _ "moved l k l"] r v show ?thesis
    by (auto simp: sem_simps)
qed

lemma blocks_apart:
  assumes "distinct (map fst (concat (map snd F)))" and "(l, A) \<in> set F" and "(l', B) \<in> set F" and "l \<noteq> l'"
  shows "fst ` set A \<inter> fst ` set B = {}"
  using assms
proof (induction F)
  case (Cons K F)
  have in_rest: "fst ` set C \<subseteq> fst ` set (concat (map snd F))" if "(m, C) \<in> set F" for m C
    using that by force
  have K: "fst ` set (snd K) \<inter> fst ` set (concat (map snd F)) = {}" using Cons.prems(1) by simp
  consider "K = (l, A)" "(l', B) \<in> set F" | "K = (l', B)" "(l, A) \<in> set F" | "(l, A) \<in> set F" "(l', B) \<in> set F"
    using Cons.prems(2-4) by auto
  then show ?case
  proof cases
    case 1
    then show ?thesis using K in_rest [OF 1(2)] by (simp only: snd_conv) blast
  next
    case 2
    then show ?thesis using K in_rest [OF 2(2)] by (simp only: snd_conv) blast
  next
    case 3
    then show ?thesis using Cons.prems(1,4) by (intro Cons.IH) simp_all
  qed
qed simp

lemma block_instructions:
  assumes "(l, BB) \<in> set F"
  shows "set BB \<subseteq> set (instructions F)" and "distinct (map fst (instructions F)) \<Longrightarrow> distinct (map fst BB)"
proof -
  obtain F1 F2 where "F = F1 @ (l, BB) # F2" using assms by (meson split_list)
  then show "set BB \<subseteq> set (instructions F)"
    "distinct (map fst (instructions F)) \<Longrightarrow> distinct (map fst BB)"
    by (auto simp: instructions_def)
qed

lemma closed_run_ordinary:
  assumes wn: "well_numbered F k n" and cl: "closed_run F n vs before calls rest" and own: "own = fst ` set calls"
    and t: "t = fst (last calls)" and BB: "(l, before @ calls @ rest) \<in> set F"
  shows "l' \<noteq> l \<Longrightarrow> (l', B) \<in> set F \<Longrightarrow> ordinary n k own t B"
    and "ordinary n k own t before" and "ordinary n k own t rest"
    and "t \<in> own" and "distinct (map fst calls)"
proof -
  have num: "distinct (map fst (instructions F))"
    "\<And>I. I \<in> set (instructions F) \<Longrightarrow> fst I < n \<and> (\<forall>v \<in> set (inst_operands (snd I)). below n v) \<and>
      (\<forall>l \<in> set (phi_labels (snd I)). l < k)"
    using wn by (auto simp: well_numbered_def)
  have ord: "ordinary n k own t xs" if "set xs \<subseteq> set (instructions F)" "fst ` set xs \<inter> own = {}" for xs
    unfolding ordinary_def reads_well_def
  proof (intro ballI conjI)
    fix I assume I: "I \<in> set xs"
    then have I': "I \<in> set (instructions F)" "fst I \<notin> own" using that by auto
    show "fst I < n" "fst I \<notin> own" using num(2) [OF I'(1)] I'(2) by simp_all
    fix v assume v: "v \<in> set (inst_operands (snd I))"
    show "below n v" using num(2) [OF I'(1)] v by simp
    show "regs_of v \<inter> (own - {t}) = {}" using cl I' v unfolding closed_run_def own t by simp
  next
    fix I q assume "I \<in> set xs" and "q \<in> set (phi_labels (snd I))"
    then show "q < k" using num(2) [of I] that(1) by auto
  qed
  have parts: "distinct (map fst (before @ calls @ rest))" by (rule block_instructions(2) [OF BB num(1)])
  show "ordinary n k own t B" if "l' \<noteq> l" "(l', B) \<in> set F"
  proof (rule ord [OF block_instructions(1) [OF that(2)]])
    show "fst ` set B \<inter> own = {}"
      using blocks_apart [OF num(1) [unfolded instructions_def] that(2) BB that(1)] unfolding own by auto
  qed
  show "ordinary n k own t before" "ordinary n k own t rest"
    using parts block_instructions(1) [OF BB] own by (intro ord; auto)+
  show "distinct (map fst calls)" using parts by simp
  show "t \<in> own" using cl unfolding closed_run_def own t by auto
qed

lemma extends_steps:
  assumes "steps rt p xs \<rho> c = Inr (\<rho>', d)" and "\<forall>I \<in> set xs. m \<le> fst I" and "q < m"
  shows "\<rho>' q = \<rho> q"
proof -
  have "q \<notin> fst ` set xs" using assms(2,3) by auto
  then show ?thesis by (rule steps_other [OF assms(1)])
qed

lemma run_then_jump:
  assumes "straight xs" and "steps rt p xs \<rho> c = Inr (\<rho>', d)" and "is_terminator i"
    and "ir_exit_of rt \<rho>' i = Inr x"
  shows "run_block rt p (xs @ [(r, i)]) \<rho> c = Inr ((\<rho>', x), d)"
  using assms by (simp add: run_block_append sem_simps)

lemma patch_Cons_append:
  "map (map_prod id f) (xs @ [(r, i)]) = map (map_prod id f) xs @ [(r, f i)]"
  by simp

lemma patch_jumps [simp]:
  "patch_inst l k t phi (IrBr q) = IrBr q"
  "v \<noteq> Reg t \<Longrightarrow> patch_inst l k t phi (IrCondBr v q q') = IrCondBr v q q'"
  by (simp_all add: patch_inst_def subst_value.simps)

lemma calls_unused:
  assumes "operands_known vs earlier calls" and "Reg t \<notin> set vs" and "Reg t \<notin> set earlier"
    and "distinct (map fst calls)" and "calls \<noteq> [] \<Longrightarrow> t = fst (last calls)" and "I \<in> set calls"
  shows "Reg t \<notin> set (inst_operands (snd I))"
  using assms
proof (induction calls arbitrary: earlier)
  case (Cons K calls)
  obtain r i where K: "K = (r, i)" by (cases K)
  show ?case
  proof (cases "I = K")
    case True
    then show ?thesis using Cons.prems(1-3) by (auto simp: K)
  next
    case False
    then have I: "I \<in> set calls" using Cons.prems(6) by simp
    then have "t \<in> fst ` set calls" using Cons.prems(5) by (cases "calls = []") auto
    then have "t \<noteq> r" using Cons.prems(4) by (auto simp: K)
    then show ?thesis using Cons.prems I by (intro Cons.IH [of "Reg r # earlier"]) (auto simp: K)
  qed
qed simp

lemma helper_calls_shape:
  assumes "helper_calls calls"
  shows "straight calls" and "I \<in> set calls \<Longrightarrow> snd I \<noteq> PHINode ws"
  using assms by (auto simp: straight_def helper_calls_def isArithmeticCall_def isMysoreAdd_def isMysoreSub_def
      isMysoreMul_def isMysoreDiv_def elim!: is_terminator.elims)

text \<open>The two paths from the registers \<open>\<rho>k\<close> after the check.\<close>

lemma slow_block_runs:
  assumes "steps rt prev calls \<rho>b c = Inr (\<rho>c, d)" and cl: "closed_run F n vs before calls rest"
    and own: "own = fst ` set calls" and t: "t = fst (last calls)" and dis: "distinct (map fst calls)"
    and env: "\<And>r. r < n \<Longrightarrow> r \<notin> own \<Longrightarrow> \<rho>k r = \<rho>b r"
  shows "\<exists>\<rho>s. run_block rt p (map (map_prod id (patch_inst l k t phi)) (calls @ [(n2, IrBr q)])) \<rho>k c
      = Inr ((\<rho>s, GoTo q), d) \<and> \<rho>s t = \<rho>c t \<and> (\<forall>r < n. r \<notin> own \<longrightarrow> \<rho>s r = \<rho>c r)"
proof -
  have c: "helper_calls calls" "operands_known vs [] calls" "calls \<noteq> []"
    "\<And>v. v \<in> set vs \<Longrightarrow> below n v \<and> regs_of v \<inter> own = {}"
    using cl own by (auto simp: closed_run_def)
  have ev: "ir_eval rt \<rho>k v = ir_eval rt \<rho>b v" if "v \<in> set vs \<union> set []" for v
    using c(4) [of v] that env by (cases v) auto
  obtain \<rho>s where s: "steps rt p calls \<rho>k c = Inr (\<rho>s, d)" "\<And>r. r \<in> own \<Longrightarrow> \<rho>s r = \<rho>c r"
    using slow_steps [OF assms(1) c(1,2) ev] own by blast
  have unused: "Reg t \<notin> set (inst_operands (snd I)) \<and> (\<forall>ws. snd I \<noteq> PHINode ws)" if "I \<in> set calls" for I
    using calls_unused [OF c(2), of t I] c(4) [of "Reg t"] helper_calls_shape(2) [OF c(1) that] that dis t own c(3)
    by auto
  have "run_block rt p (calls @ [(n2, IrBr q)]) \<rho>k c = Inr ((\<rho>s, GoTo q), d)"
    using s(1) helper_calls_shape(1) [OF c(1)] by (intro run_then_jump) simp_all
  moreover have "map (map_prod id (patch_inst l k t phi)) calls = calls"
    using unused by (intro patch_unused) blast
  moreover have "\<rho>s r = \<rho>c r" if "r < n" "r \<notin> own" for r
    using steps_other [OF s(1), of r] steps_other [OF assms(1), of r] env [OF that] that own by simp
  moreover have "\<rho>s t = \<rho>c t" using c(3) by (intro s(2)) (simp add: own t)
  ultimately show ?thesis by (intro exI [of _ \<rho>s]) (simp add: patch_Cons_append)
qed

lemma untagged_single:
  assumes "untagged rt \<rho>o \<rho>f n t [(v, u)]"
  shows "u \<noteq> Reg t" and "\<exists>x. ir_eval rt \<rho>o v = Inr x \<and> isInteger x \<and> ir_eval rt \<rho>f u = Inr (asr3 x)"
proof -
  have "map_of [(v, u)] v = Some u" by simp
  from assms [unfolded untagged_def, rule_format, OF this]
  show "u \<noteq> Reg t" "\<exists>x. ir_eval rt \<rho>o v = Inr x \<and> isInteger x \<and> ir_eval rt \<rho>f u = Inr (asr3 x)" by blast+
qed

lemma fast_path_result:
  assumes st: "steps rt prev calls \<rho>b c = Inr (\<rho>c, d)" and cl: "closed_run F n vs before calls rest"
    and own: "own = fst ` set calls" and dis: "distinct (map fst calls)" and sub: "set calls \<subseteq> set (instructions F)"
    and env: "\<And>r. r < n \<Longrightarrow> r \<notin> own \<Longrightarrow> \<rho>k r = \<rho>b r"
    and J: "tagged_receivers rt J" "J c"
    and odd: "\<And>v. v \<in> set vs \<Longrightarrow> \<exists>x. ir_eval rt \<rho>b v = Inr x \<and> odd x"
    and args: "untag_args vs [] ([], m) = (am, B)" and "n \<le> m" and t: "t = fst (last calls)" "t < n"
    and fast: "fast_calls F am calls [] None B = Inr (Some (t', u), B1)"
    and tag: "retag u B1 = (res, (xs, n2))"
  shows "\<exists>\<rho>f w. run_block rt p (map (map_prod id (patch_inst l k t phi)) (xs @ [(n3, IrBr q)])) \<rho>k c
      = Inr ((\<rho>f, GoTo q), d) \<and> ir_eval rt \<rho>f res = Inr w \<and> \<rho>c t = Some w \<and> t' = t \<and>
      (\<forall>r < n. r \<notin> own \<longrightarrow> \<rho>f r = \<rho>c r)"
proof -
  have c: "helper_calls calls" "operands_known vs [] calls" "calls \<noteq> []"
    "\<And>v. v \<in> set vs \<Longrightarrow> below n v \<and> regs_of v \<inter> own = {} \<and> (\<exists>I \<in> set calls. v \<in> set (inst_operands (snd I)))"
    using cl own by (auto simp: closed_run_def)
  have "\<exists>x. ir_eval rt \<rho>b v = Inr x \<and> isInteger x" if v: "v \<in> set vs" for v
  proof -
    obtain I where "I \<in> set calls" "v \<in> set (inst_operands (snd I))" using c(4) [OF v] by blast
    from calls_integers [OF st c(1,2) J _ _ this v] show ?thesis using c(4) odd own by auto
  qed
  then obtain val where val: "\<And>v. v \<in> set vs \<Longrightarrow> ir_eval rt \<rho>b v = Inr (val v) \<and> isInteger (val v)" by metis
  have same: "ir_eval rt \<rho>k v = ir_eval rt \<rho>b v" if "v \<in> set vs" for v
    using c(4) [OF that] env by (cases v) auto
  have t_own: "t \<in> own" using c(3) by (simp add: t own)
  have e0: "emits n rt p c (Reg t) \<rho>k ([], m) \<rho>k" using \<open>n \<le> m\<close> by (rule emits_empty)
  obtain \<rho>1 where 1: "emits n rt p c (Reg t) \<rho>k B \<rho>1" "m \<le> snd B" "untagged rt \<rho>b \<rho>1 (snd B) t am"
    "dom (map_of am) = set vs"
  proof -
    have "\<exists>\<rho>'. emits n rt p c (Reg t) \<rho>k B \<rho>' \<and> snd ([] :: ir_block, m) \<le> snd B \<and> untagged rt \<rho>b \<rho>' (snd B) t am \<and>
        dom (map_of am) = set vs \<union> dom (map_of ([] :: (ir_value \<times> ir_value) list))"
    proof (rule untag_args_run [OF args e0])
      show "below (snd ([], m)) v \<and> v \<noteq> Reg t \<and> isInteger (val v) \<and> ir_eval rt \<rho>k v = Inr (val v) \<and>
          ir_eval rt \<rho>b v = Inr (val v)" if "v \<in> set vs" for v
        using c(4) [OF that] val [OF that] same [OF that] t_own \<open>n \<le> m\<close> by (auto intro: below_mono)
    qed (use t(2) \<open>n \<le> m\<close> in \<open>simp_all add: untagged_def\<close>)
    then show thesis using that by auto
  qed
  have nv: "Reg r \<notin> set vs" if "(r, i) \<in> set calls" for r i
    using c(4) [of "Reg r"] that own by force
  have "d = c \<and> (\<exists>\<rho>f'. emits n rt p c (Reg t) \<rho>k B1 \<rho>f' \<and> snd B \<le> snd B1 \<and>
      untagged rt \<rho>c \<rho>f' (snd B1) t [(Reg t', u)]) \<and> (calls \<noteq> [] \<longrightarrow> t' = fst (last calls))"
  proof (rule fast_calls_run [OF fast st c(1,2) 1(4) _ dis sub _ 1(1) _ 1(3)])
    show "Reg r \<notin> set vs \<and> Reg r \<notin> dom (map_of ([] :: (ir_value \<times> ir_value) list))" if "r \<in> fst ` set calls" for r
      using that nv by auto
    show "t < snd B" using t(2) \<open>n \<le> m\<close> 1(2) by simp
  qed (simp_all add: untagged_def)
  then obtain \<rho>2 where 2: "d = c" "emits n rt p c (Reg t) \<rho>k B1 \<rho>2" "snd B \<le> snd B1"
      "untagged rt \<rho>c \<rho>2 (snd B1) t [(Reg t, u)]" and t': "t' = t"
    using c(3) t(1) by auto
  then obtain w where w: "\<rho>c t = Some w" "isInteger w" "ir_eval rt \<rho>2 u = Inr (asr3 w)" "u \<noteq> Reg t"
    using untagged_single [OF 2(4)] by (auto split: option.splits)
  have "t < snd B1" using t(2) \<open>n \<le> m\<close> 1(2) 2(3) by simp
  from leaves_retag [OF 2(2) this w(4,3,2)] obtain \<rho>f where
    f: "leaves n rt p c (Reg t) \<rho>k B1 \<rho>2 (res, (xs, n2)) w \<rho>f" by (auto simp: tag)
  have e: "straight xs" "steps rt p xs \<rho>k c = Inr (\<rho>f, c)" "\<forall>I \<in> set xs. n \<le> fst I"
    "\<forall>I \<in> set xs. Reg t \<notin> set (inst_operands (snd I)) \<and> (\<forall>ws. snd I \<noteq> PHINode ws)"
    using leaves_emits(1) [OF f] by (auto simp: emits_def)
  have "run_block rt p (xs @ [(n3, IrBr q)]) \<rho>k c = Inr ((\<rho>f, GoTo q), d)"
    using e(1,2) 2(1) by (intro run_then_jump) simp_all
  moreover have "map (map_prod id (patch_inst l k t phi)) xs = xs" by (rule patch_unused [OF e(4)])
  moreover have "\<rho>f r = \<rho>c r" if "r < n" "r \<notin> own" for r
    using extends_steps [OF e(2,3) that(1)] steps_other [OF st, of r] env [OF that] that(2) own by simp
  ultimately show ?thesis
    using leaves_emits(5) [OF f] w(1) t' by (intro exI [of _ \<rho>f] exI [of _ w]) (simp add: patch_Cons_append)
qed

lemma steps_writes:
  "steps rt p xs \<rho> c = Inr (\<rho>', d) \<Longrightarrow> r \<in> fst ` set xs \<Longrightarrow> \<exists>w. \<rho>' r = Some w"
proof (induction xs arbitrary: \<rho> c)
  case (Cons I xs)
  obtain s i where I: "I = (s, i)" by (cases I)
  from Cons.prems(1) [unfolded I] obtain w e where st: "steps rt p xs (\<rho>(s \<mapsto> w)) e = Inr (\<rho>', d)"
    by (rule steps_Cons_InrE)
  show ?case
  proof (cases "r \<in> fst ` set xs")
    case True
    then show ?thesis by (rule Cons.IH [OF st])
  next
    case False
    then show ?thesis using Cons.prems(2) steps_other [OF st False] by (simp add: I)
  qed
qed simp

text \<open>The whole block: three blocks of the rewritten function do what it does.\<close>

lemma block_simulated:
  assumes wn: "well_numbered F k n" and cl: "closed_run F n vs before calls rest"
    and BB: "(l, before @ calls @ rest) \<in> set F" and own: "own = fst ` set calls"
    and sp: "split_run F (first, vs, after) BB k n = Inr (S, n')" "split_at first after BB = (before, calls, rest)"
    and new: "map_of F' l = Some (patch l k S (s_block S))" "map_of F' k = Some (patch l k S (s_slow S))"
      "map_of F' (k + 2) = Some (patch l k S (s_fast S))"
      "map_of F' (k + 1) = Some (s_phi S # patch l k S (s_rest S))"
    and J: "tagged_receivers rt J" "J cb" and cb: "steps rt prev before \<rho> c = Inr (\<rho>b, cb)"
    and cc: "steps rt prev calls \<rho>b cb = Inr (\<rho>c, cc)"
    and run: "run_block rt prev rest \<rho>c cc = Inr ((\<rho>1, x), d)"
    and prev: "prev < k" and al: "alike n own (s_last S) (fst (s_phi S)) \<rho> \<rho>'"
  shows "\<exists>\<rho>1'. alike n own (s_last S) (fst (s_phi S)) \<rho>1 \<rho>1' \<and>
    (\<forall>m. run_ir rt F' (Suc (Suc (Suc m))) (moved l k prev) l \<rho>' c =
      (case x of Finished w \<Rightarrow> Inr (w, d) | GoTo l' \<Rightarrow> run_ir rt F' m (k + 1) l' \<rho>1' d))"
proof -
  obtain cond ch n1 am B u B1 res fast n2 where parts: "are_all_ints vs ([], n) = (cond, (ch, n1))"
    "untag_args vs [] ([], n1 + 2) = (am, B)"
    "fast_calls F am calls [] None B = Inr (Some (s_last S, u), B1)" "retag u B1 = (res, (fast, n2))"
    "s_block S = before @ ch @ [(n1, IrCondBr cond (k + 2) k)]" "s_slow S = calls @ [(n2, IrBr (k + 1))]"
    "s_fast S = fast @ [(Suc n2, IrBr (k + 1))]"
    "s_phi S = (Suc n1, PHINode [(res, k + 2), (Reg (s_last S), k)])" "s_rest S = rest"
    by (rule split_run_parts [OF sp])
  let ?t = "s_last S" and ?phi = "fst (s_phi S)"
  have c: "helper_calls calls" "operands_known vs [] calls" "calls \<noteq> []" "straight before"
    "\<forall>I \<in> set rest. \<not> is_phi (snd I)"
    "\<And>v. v \<in> set vs \<Longrightarrow> below n v \<and> regs_of v \<inter> own = {} \<and> (\<exists>I \<in> set calls. v \<in> set (inst_operands (snd I)))"
    using cl own by (auto simp: closed_run_def)
  have t: "?t = fst (last calls)" using fast_calls_last [OF parts(3) c(1)] c(3) by simp
  note ord = closed_run_ordinary [OF wn cl own t BB]
  have num: "l < k" "\<And>I. I \<in> set (instructions F) \<Longrightarrow> fst I < n"
    using wn BB by (auto simp: well_numbered_def)
  have sub: "set calls \<subseteq> set (instructions F)" using block_instructions(1) [OF BB] by auto
  have "last calls \<in> set calls" using c(3) by simp
  then have tn: "?t < n" using sub num(2) [of "last calls"] by (auto simp: t)
  have phi: "n \<le> ?phi" using are_all_ints_next [OF parts(1)] by (simp add: parts(8))
  obtain \<rho>b' where b': "steps rt (moved l k prev) (map (map_prod id (patch_inst l k ?t ?phi)) before) \<rho>' c
      = Inr (\<rho>b', cb)" "alike n own ?t ?phi \<rho>b \<rho>b'"
    using alike_steps [OF al ord(2) prev phi ord(4) cb, of l] by blast
  have eb: "\<rho>b' r = \<rho>b r" if "r < n" "r \<notin> own" for r using b'(2) that by (simp add: alike_def)
  have ev: "ir_eval rt \<rho>b' v = ir_eval rt \<rho>b v" if "v \<in> set vs" for v
    using c(6) [OF that] eb by (cases v) auto
  have "\<exists>x. ir_eval rt \<rho>b v = Inr x" if v: "v \<in> set vs" for v
    using c(6) [OF v] operands_evaluated [OF cc c(1), of _ v] own by auto
  then obtain val where val: "\<And>v. v \<in> set vs \<Longrightarrow> ir_eval rt \<rho>b v = Inr (val v)" by metis
  let ?ok = "\<forall>v \<in> set vs. odd (val v)"
  have "\<exists>\<rho>k. leaves n rt (moved l k prev) cb (Reg ?t) \<rho>b' ([], n) \<rho>b' (are_all_ints vs ([], n)) (of_bool ?ok) \<rho>k"
  proof (rule leaves_are_all_ints)
    show "below (snd ([], n)) v \<and> v \<noteq> Reg ?t \<and> ir_eval rt \<rho>b' v = Inr (val v)" if "v \<in> set vs" for v
      using c(6) [OF that] ev [OF that] val [OF that] ord(4) by auto
  qed (simp_all add: emits_empty tn)
  then obtain \<rho>k where k: "leaves n rt (moved l k prev) cb (Reg ?t) \<rho>b' ([], n) \<rho>b' (cond, (ch, n1)) (of_bool ?ok) \<rho>k"
    by (auto simp: parts(1))
  note k' = leaves_emits [OF k]
  have e: "straight ch" "steps rt (moved l k prev) ch \<rho>b' cb = Inr (\<rho>k, cb)"
    "\<forall>I \<in> set ch. Reg ?t \<notin> set (inst_operands (snd I)) \<and> (\<forall>ws. snd I \<noteq> PHINode ws)"
    using k'(1) by (auto simp: emits_def)
  have ek: "\<rho>k r = \<rho>b r" if "r < n" "r \<notin> own" for r
    using k'(3) eb [OF that] that(1) by (simp add: extends_def)
  have head: "run_block rt (moved l k prev) (patch l k S (s_block S)) \<rho>' c
      = Inr ((\<rho>k, GoTo (if ?ok then k + 2 else k)), cb)"
  proof -
    have "patch l k S (s_block S) = map (map_prod id (patch_inst l k ?t ?phi)) before @ ch @ [(n1, IrCondBr cond (k + 2) k)]"
      using patch_unused [OF e(3), of l k ?phi] k'(6) by (simp add: patch_map parts(5))
    moreover have "run_block rt (moved l k prev) (ch @ [(n1, IrCondBr cond (k + 2) k)]) \<rho>b' cb
        = Inr ((\<rho>k, GoTo (if ?ok then k + 2 else k)), cb)"
      using e(1,2) k'(5) by (intro run_then_jump) auto
    ultimately show ?thesis using c(4) b'(1) by (simp add: run_block_append sem_simps)
  qed
  have phi_eq: "s_phi S = (?phi, PHINode [(res, k + 2), (Reg ?t, k)])" by (simp add: parts(8))
  have rejoin: "\<exists>\<rho>1'. run_block rt q (s_phi S # patch l k S (s_rest S)) \<rho>s cc = Inr ((\<rho>1', x), d) \<and>
      alike n own ?t ?phi \<rho>1 \<rho>1'"
    if "q = k + 2 \<and> ir_eval rt \<rho>s res = Inr w \<or> q = k \<and> \<rho>s ?t = Some w" "\<rho>c ?t = Some w"
      "\<And>r. r < n \<Longrightarrow> r \<notin> own \<Longrightarrow> \<rho>s r = \<rho>c r" for q \<rho>s w
    using run_phi [OF run c(5) ord(3) phi ord(4) num(1) that(3,2,1)]
    by (simp only: patch_map parts(9)) (subst phi_eq, simp)
  have finish: "\<exists>\<rho>1'. alike n own ?t ?phi \<rho>1 \<rho>1' \<and>
    (\<forall>m. run_ir rt F' (Suc (Suc (Suc m))) (moved l k prev) l \<rho>' c =
      (case x of Finished w \<Rightarrow> Inr (w, d) | GoTo l' \<Rightarrow> run_ir rt F' m (k + 1) l' \<rho>1' d))"
    if path: "map_of F' q = Some Q" "q = (if ?ok then k + 2 else k)" "run_block rt l Q \<rho>k cb = Inr ((\<rho>s, GoTo (k + 1)), cc)"
      and v: "q = k + 2 \<and> ir_eval rt \<rho>s res = Inr w \<or> q = k \<and> \<rho>s ?t = Some w" "\<rho>c ?t = Some w"
      "\<And>r. r < n \<Longrightarrow> r \<notin> own \<Longrightarrow> \<rho>s r = \<rho>c r" for q Q \<rho>s w
  proof -
    obtain \<rho>1' where j: "run_block rt q (s_phi S # patch l k S (s_rest S)) \<rho>s cc = Inr ((\<rho>1', x), d)"
      "alike n own ?t ?phi \<rho>1 \<rho>1'"
      using rejoin [OF v] by blast
    have "follows rt F' (moved l k prev) l \<rho>' c l q \<rho>k cb"
      using new(1) head path(2) by (auto simp: follows_def)
    moreover have "follows rt F' l q \<rho>k cb q (k + 1) \<rho>s cc"
      using path(1,3) by (simp add: follows_def)
    ultimately have "run_ir rt F' (Suc (Suc (Suc m))) (moved l k prev) l \<rho>' c =
        run_ir rt F' (Suc m) q (k + 1) \<rho>s cc" for m
      by (metis follows_run)
    moreover have "run_ir rt F' (Suc m) q (k + 1) \<rho>s cc =
        (case x of Finished w \<Rightarrow> Inr (w, d) | GoTo l' \<Rightarrow> run_ir rt F' m (k + 1) l' \<rho>1' d)" for m
      using new(4) j(1) by (cases x) (simp_all only: run_ir.simps option.case, simp_all add: sem_simps del: run_block.simps)
    ultimately show ?thesis using j(2) by (intro exI [of _ \<rho>1']) simp
  qed
  show ?thesis
  proof (cases ?ok)
    case False
    obtain \<rho>s where s: "run_block rt l (patch l k S (s_slow S)) \<rho>k cb = Inr ((\<rho>s, GoTo (k + 1)), cc)"
      "\<rho>s ?t = \<rho>c ?t" "\<And>r. r < n \<Longrightarrow> r \<notin> own \<Longrightarrow> \<rho>s r = \<rho>c r"
      using slow_block_runs [OF cc cl own t ord(5) ek] unfolding patch_map parts(6) by blast
    have "?t \<in> fst ` set calls" using ord(4) own by simp
    then obtain w where w: "\<rho>c ?t = Some w" using steps_writes [OF cc] by blast
    show ?thesis using False new(2) s w by (intro finish [of k _ \<rho>s w]) simp_all
  next
    case True
    then have odd: "\<exists>x. ir_eval rt \<rho>b v = Inr x \<and> odd x" if "v \<in> set vs" for v
      using val [OF that] that by auto
    have le: "n \<le> n1 + 2" using phi by (simp add: parts(8))
    from fast_path_result [OF cc cl own ord(5) sub ek J odd parts(2) le t tn parts(3,4), of l l k ?phi "Suc n2" "k + 1"]
    obtain \<rho>f w where f: "run_block rt l (patch l k S (s_fast S)) \<rho>k cb = Inr ((\<rho>f, GoTo (k + 1)), cc)"
      "ir_eval rt \<rho>f res = Inr w" "\<rho>c ?t = Some w" "\<And>r. r < n \<Longrightarrow> r \<notin> own \<Longrightarrow> \<rho>f r = \<rho>c r"
      unfolding patch_map parts(7) by blast
    show ?thesis using True new(3) f by (intro finish [of "k + 2" _ \<rho>f w]) simp_all
  qed
qed

section \<open>Whole functions\<close>

lemma run_ir_mono: "run_ir rt F f p l \<rho> c = Inr r \<Longrightarrow> f \<le> g \<Longrightarrow> run_ir rt F g p l \<rho> c = Inr r"
proof (induction f arbitrary: p l \<rho> c g)
  case 0
  then show ?case by (simp add: sem_simps)
next
  case (Suc f)
  obtain g' where g: "g = Suc g'" "f \<le> g'" using Suc.prems(2) by (cases g) auto
  show ?case
    using Suc.prems(1) Suc.IH [OF _ g(2)]
    by (auto simp: g(1) sem_simps split: option.splits sum.splits ir_exit.splits)
qed

lemma map_of_put_blocks:
  assumes "distinct (map fst F)" and "\<forall>l \<in> set (map fst F). l < k"
  shows "l' < k \<Longrightarrow> l' \<noteq> l \<Longrightarrow> map_of (put_blocks l k S F) l' = map_option (patch l k S) (map_of F l')"
    and "l \<in> fst ` set F \<Longrightarrow> map_of (put_blocks l k S F) l = Some (patch l k S (s_block S))"
    and "l \<in> fst ` set F \<Longrightarrow> map_of (put_blocks l k S F) k = Some (patch l k S (s_slow S))"
    and "l \<in> fst ` set F \<Longrightarrow> map_of (put_blocks l k S F) (k + 1) = Some (s_phi S # patch l k S (s_rest S))"
    and "l \<in> fst ` set F \<Longrightarrow> map_of (put_blocks l k S F) (k + 2) = Some (patch l k S (s_fast S))"
  using assms by (induction l k S F rule: put_blocks.induct) (auto simp: split_blocks_def)

text \<open>What the calls and the other instructions of a block keep.\<close>

lemma value_keeps:
  assumes J: "tagged_receivers rt J" and c: "J c" and v: "ir_value_of rt p \<rho> i c = Inr (w, d)"
  shows "J d"
proof -
  have call: "run_call rt f ws c = Inr (w, d) \<Longrightarrow> J d" "rt_other rt q ws c = Inr (w, d) \<Longrightarrow> J d" for f ws q
    using J c unfolding tagged_receivers_def by blast+
  show ?thesis
    using v c by (cases i) (auto simp: sem_simps lift_def split: sum.splits option.splits intro: call)
qed

lemma steps_keep:
  assumes "tagged_receivers rt J"
  shows "J c \<Longrightarrow> steps rt p xs \<rho> c = Inr (\<rho>', d) \<Longrightarrow> J d"
proof (induction xs arbitrary: \<rho> c)
  case (Cons I xs)
  obtain r i where I: "I = (r, i)" by (cases I)
  from Cons.prems(2) [unfolded I] obtain w e where "ir_value_of rt p \<rho> i c = Inr (w, e)"
    and st: "steps rt p xs (\<rho>(r \<mapsto> w)) e = Inr (\<rho>', d)" by (rule steps_Cons_InrE)
  then have "J e" using value_keeps [OF assms Cons.prems(1)] by blast
  then show ?case using st by (rule Cons.IH)
qed (simp add: sem_simps)

lemma block_keeps:
  assumes "tagged_receivers rt J"
  shows "J c \<Longrightarrow> run_block rt p xs \<rho> c = Inr ((\<rho>', x), d) \<Longrightarrow> J d"
proof (induction xs arbitrary: \<rho> c)
  case (Cons I xs)
  show ?case
  proof (cases "is_terminator (snd I)")
    case True
    then show ?thesis using Cons.prems by (cases I) (auto simp: sem_simps lift_def split: sum.splits)
  next
    case False
    obtain r i where I: "I = (r, i)" by (cases I)
    obtain w e where "ir_value_of rt p \<rho> i c = Inr (w, e)"
      and st: "run_block rt p xs (\<rho>(r \<mapsto> w)) e = Inr ((\<rho>', x), d)"
      using Cons.prems(2) False by (auto simp: I elim: bind_InrE)
    then have "J e" using value_keeps [OF assms Cons.prems(1)] by blast
    then show ?thesis using st by (rule Cons.IH)
  qed
qed (simp add: sem_simps)

text \<open>The simulation over whole runs.\<close>

lemma function_simulated:
  assumes wn: "well_numbered F k n" and cl: "closed_run F n vs before calls rest"
    and BB: "(l, before @ calls @ rest) \<in> set F" and own: "own = fst ` set calls"
    and sp: "split_run F (first, vs, after) (before @ calls @ rest) k n = Inr (S, n')"
      "split_at first after (before @ calls @ rest) = (before, calls, rest)"
    and J: "tagged_receivers rt J"
  shows "J c \<Longrightarrow> alike n own (s_last S) (fst (s_phi S)) \<rho> \<rho>' \<Longrightarrow> prev < k \<Longrightarrow>
    run_ir rt F fuel prev l0 \<rho> c = Inr r \<Longrightarrow>
    run_ir rt (put_blocks l k S F) (3 * fuel) (moved l k prev) l0 \<rho>' c = Inr r"
proof (induction fuel arbitrary: prev l0 \<rho> \<rho>' c)
  case 0
  then show ?case by (simp add: sem_simps)
next
  case (Suc fuel)
  have num: "distinct (map fst F)" "\<forall>l \<in> set (map fst F). l < k" using wn by (auto simp: well_numbered_def)
  have l: "l \<in> fst ` set F" using BB by force
  obtain B \<rho>1 x d where B: "map_of F l0 = Some B" "run_block rt prev B \<rho> c = Inr ((\<rho>1, x), d)"
    and rest: "(case x of Finished w \<Rightarrow> Inr (w, d) | GoTo l' \<Rightarrow> run_ir rt F fuel l0 l' \<rho>1 d) = Inr r"
    using Suc.prems(4) by (auto simp: sem_simps split: option.splits sum.splits ir_exit.splits)
  have l0: "l0 < k" using B(1) num(2) by (force dest: map_of_SomeD)
  have Jd: "J d" by (rule block_keeps [OF J Suc.prems(1) B(2)])
  let ?F' = "put_blocks l k S F"
  have cont: "run_ir rt ?F' (3 * fuel) (moved l k l0) l' \<rho>1' d = Inr r"
    if "x = GoTo l'" "alike n own (s_last S) (fst (s_phi S)) \<rho>1 \<rho>1'" for l' \<rho>1'
    using that rest by (intro Suc.IH [OF Jd _ l0]) simp_all
  show ?case
  proof (cases "l0 = l")
    case True
    have "B = before @ calls @ rest" using B(1) BB num(1) True by (simp add: map_of_eq_Some_iff)
    moreover have "straight before" "straight calls"
      using cl helper_calls_shape(1) by (auto simp: closed_run_def)
    ultimately obtain \<rho>b cb \<rho>c cc where parts: "steps rt prev before \<rho> c = Inr (\<rho>b, cb)"
      "steps rt prev calls \<rho>b cb = Inr (\<rho>c, cc)" "run_block rt prev rest \<rho>c cc = Inr ((\<rho>1, x), d)"
      using B(2) by (auto simp: run_block_append elim!: bind_InrE)
    have "J cb" by (rule steps_keep [OF J Suc.prems(1) parts(1)])
    from block_simulated [OF wn cl BB own sp map_of_put_blocks(2,3,5,4) [OF num l] J this parts Suc.prems(3,2)]
    obtain \<rho>1' where \<rho>1': "alike n own (s_last S) (fst (s_phi S)) \<rho>1 \<rho>1'"
      and go: "run_ir rt ?F' (Suc (Suc (Suc (3 * fuel)))) (moved l k prev) l \<rho>' c =
        (case x of Finished w \<Rightarrow> Inr (w, d) | GoTo l' \<Rightarrow> run_ir rt ?F' (3 * fuel) (k + 1) l' \<rho>1' d)"
      by blast
    have fuel: "3 * Suc fuel = Suc (Suc (Suc (3 * fuel)))" by simp
    show ?thesis
      unfolding fuel using go rest cont [OF _ \<rho>1'] True
      by (cases x) (simp_all add: moved_def del: run_ir.simps)
  next
    case False
    note S = split_run_last [OF sp cl]
    note ord = closed_run_ordinary [OF wn cl own S(1) BB]
    have "(l0, B) \<in> set F" using B(1) by (rule map_of_SomeD)
    from ord(1) [OF False this] obtain \<rho>1' where
      b: "run_block rt (moved l k prev) (patch l k S B) \<rho>' c = Inr ((\<rho>1', x), d)"
        "alike n own (s_last S) (fst (s_phi S)) \<rho>1 \<rho>1'"
      using alike_run_block [OF Suc.prems(2) _ Suc.prems(3) S(2) ord(4) B(2), of l] unfolding patch_map by blast
    have F': "map_of ?F' l0 = Some (patch l k S B)"
      using map_of_put_blocks(1) [OF num l0 False] B(1) by simp
    have "run_ir rt ?F' (Suc (3 * fuel)) (moved l k prev) l0 \<rho>' c = Inr r"
      using F' b(1) rest cont [OF _ b(2)] False
      by (cases x) (simp_all add: sem_simps moved_def)
    then show ?thesis by (rule run_ir_mono) simp
  qed
qed

lemma split_at_parts: "split_at first after BB = (before, calls, rest) \<Longrightarrow> BB = before @ calls @ rest"
  by (auto simp: split_at_def Let_def)

section \<open>Properties\<close>

text \<open>
  C6. The split keeps results: if a run consists of helper calls on checked values, small integer
  constants and earlier results, if nothing else uses any result but the last and the run is followed by
  another instruction, then every execution of the function that returns a value returns the same
  value, with the same effects, after the rewriting: along the fast path where all checked values are
  small integers, and along the slow path otherwise.
\<close>

theorem split_preserves_result:
  assumes "rewrite_run (first, vs, after) F k n = Inr (F', n')"
    and "find (\<lambda>(l, BB). first \<in> fst ` set BB) F = Some (l, BB)"
    and "split_at first after BB = (before, calls, rest)"
    and "well_numbered F k n" and "closed_run F n vs before calls rest"
    and "tagged_receivers rt J" and "J c" and "prev < k" and "prev \<noteq> l"
    and "run_ir rt F fuel prev l0 Map.empty c = Inr (w, d)"
  shows "run_ir rt F' (3 * fuel) prev l0 Map.empty c = Inr (w, d)"
proof -
  have BB: "BB = before @ calls @ rest" using assms(3) by (rule split_at_parts)
  have l: "(l, before @ calls @ rest) \<in> set F"
    using assms(2) by (fastforce simp: find_Some_iff BB [symmetric] in_set_conv_nth)
  obtain S where S: "split_run F (first, vs, after) BB k n = Inr (S, n')" "F' = put_blocks l k S F"
    using assms(1,2) by (auto simp: rewrite_run_def split: sum.splits)
  have al: "alike n (fst ` set calls) (s_last S) (fst (s_phi S)) Map.empty Map.empty" by (simp add: alike_def)
  show ?thesis
    using function_simulated [OF assms(4,5) l HOL.refl S(1) [unfolded BB] assms(3) [unfolded BB] assms(6,7)
        al assms(8,10)] assms(9)
    by (simp add: S(2) moved_def)
qed

text \<open>\<open>(a + b) * 2\<close>, stored and returned.\<close>

definition sum_doubled :: ir_function where
  "sum_doubled = [(0, [(1, CallInst (Some ''mysoreScriptAdd'') [Arg 0, Arg 1]),
     (2, CallInst (Some ''mysoreScriptMul'') [Reg 1, PtrConst 17]),
     (3, OtherInst 0 [Reg 2]), (4, IrRet (Reg 2))])]"

definition sample_runtime :: "64 word list \<Rightarrow> ir_runtime" where
  "sample_runtime ws = \<lparr>rt_machine = machine_at interpreted_program 0, rt_args = ws,
     rt_call = (\<lambda>f vs. fail Unreachable), rt_other = (\<lambda>k vs. return 0)\<rparr>"

lemma machine_zero_fails:
  "\<not> isInteger x \<Longrightarrow> mysoreScriptOp (machine_at P 0) op x y c \<noteq> Inr r"
  by (auto simp: mysoreScriptOp_def callCompiledMethod_def machine_at.simps(1) sem_simps split: sum.splits option.splits)

lemma sample_tagged: "tagged_receivers (sample_runtime ws) (\<lambda>c. \<forall>a. odd a \<longrightarrow> mem c a = None)"
proof -
  have "d = c" if "mysoreScriptOp (machine_at interpreted_program 0) op x y c = Inr (w, d)" for op x y c w d
    using that machine_zero_fails [of x interpreted_program op y c "(w, d)"]
    by (cases "isInteger x") (auto simp: mysoreScriptOp_def lift_def split: sum.splits)
  note same = this
  show ?thesis
    by (auto dest!: same simp: tagged_receivers_def sample_runtime_def run_call_def sem_simps split: option.splits list.splits)
qed

lemma small_sums:
  "isInteger 25" "isInteger 33" "isInteger 17" "isInteger 57" "asr3 25 = 3" "asr3 33 = 4" "asr3 17 = 2" "asr3 57 = 7"
  "asr3 56 = 7" "asr3 112 = 14"
  by (simp_all add: tag_eval asr3_def)

lemma sum_doubled_runs:
  "run_ir (sample_runtime [25, 33]) sum_doubled 1 7 0 Map.empty initial_context = Inr (113, initial_context)"
  by (simp add: sum_doubled_def sample_runtime_def run_call_def helper_named_def mysoreScriptOp_def helperOp_def
      getInteger_def small_sums checked64_def fits64_def createSmallInteger_def sem_simps)

definition sum_doubled_split :: ir_function where
  "sum_doubled_split =
    [(0, [(100, PtrToInt (Arg 0)), (101, BinaryOperator IrAnd (IntConst 1) (Reg 100)),
        (102, PtrToInt (Arg 1)), (103, BinaryOperator IrAnd (Reg 101) (Reg 102)),
        (104, BinaryOperator IrEq (Reg 103) (IntConst 1)), (105, IrCondBr (Reg 104) 12 10)]),
     (10, [(1, CallInst (Some ''mysoreScriptAdd'') [Arg 0, Arg 1]),
        (2, CallInst (Some ''mysoreScriptMul'') [Reg 1, PtrConst 17]), (118, IrBr 11)]),
     (12, [(107, PtrToInt (Arg 0)), (108, BinaryOperator IrAShr (Reg 107) (IntConst 3)),
        (109, PtrToInt (Arg 1)), (110, BinaryOperator IrAShr (Reg 109) (IntConst 3)),
        (111, BinaryOperator IrAdd (Reg 108) (Reg 110)), (112, PtrToInt (PtrConst 17)),
        (113, BinaryOperator IrAShr (Reg 112) (IntConst 3)), (114, BinaryOperator IrMul (Reg 111) (Reg 113)),
        (115, BinaryOperator IrShl (Reg 114) (IntConst 3)), (116, BinaryOperator IrOr (Reg 115) (IntConst 1)),
        (117, IntToPtr (Reg 116)), (119, IrBr 11)]),
     (11, [(106, PHINode [(Reg 117, 12), (Reg 2, 10)]), (3, OtherInst 0 [Reg 106]), (4, IrRet (Reg 106))])]"

lemmas pass_simps = rewrite_run_def split_run_def split_at_def are_all_ints_def create_def untag_def retag_def
  fast_operand_def fast_opcode_def users_def instructions_def isMysoreAdd_def isMysoreSub_def isMysoreMul_def
  isMysoreDiv_def isArithmeticCall_def split_blocks_def patch_def replace_all_def subst_value.simps

lemma sum_doubled_rewritten:
  "rewrite_run (1, [Arg 0, Arg 1], 2) sum_doubled 10 100 = Inr (sum_doubled_split, 120)"
  by (simp add: sum_doubled_def sum_doubled_split_def pass_simps)

lemmas scan_simps = scan_function_def scan_call_def count_uses_def visitCallInst_def users_def instructions_def
  note_first_def check_value_def end_run_def isMysoreAdd_def isMysoreSub_def isMysoreMul_def
  isMysoreDiv_def isArithmeticCall_def

lemma sum_doubled_scanned:
  "\<exists>u. scan_function sum_doubled = Inr \<lparr>use_counts = u, block_start = None, args_to_check = [],
     arithmetic_blocks = [(1, [Arg 0, Arg 1], 2)]\<rparr>"
  by (simp add: sum_doubled_def scan_simps)

lemma sum_doubled_whole: "runOnFunction sum_doubled 10 100 = Inr sum_doubled_split"
  using sum_doubled_scanned sum_doubled_rewritten by (auto simp: runOnFunction_def)

lemma split_preserves_result_witness:
  "runOnFunction sum_doubled 10 100 = Inr sum_doubled_split \<and>
   run_ir (sample_runtime [25, 33]) sum_doubled_split 3 7 0 Map.empty initial_context = Inr (113, initial_context)"
proof -
  have "run_ir (sample_runtime [25, 33]) sum_doubled_split (3 * 1) 7 0 Map.empty initial_context
      = Inr (113, initial_context)"
    by (rule split_preserves_result [OF sum_doubled_rewritten, where l = 0 and BB = "snd (hd sum_doubled)" and before = "[]" and
          calls = "[(1, CallInst (Some ''mysoreScriptAdd'') [Arg 0, Arg 1]),
            (2, CallInst (Some ''mysoreScriptMul'') [Reg 1, PtrConst 17])]"
          and rest = "[(3, OtherInst 0 [Reg 2]), (4, IrRet (Reg 2))]",
          OF _ _ _ _ sample_tagged _ _ _ sum_doubled_runs])
      (simp_all add: sum_doubled_def split_at_def Let_def well_numbered_def closed_run_def instructions_def
        helper_calls_def isArithmeticCall_def isMysoreAdd_def isMysoreMul_def small_sums below_def initial_context_def)
  then show ?thesis using sum_doubled_whole by simp
qed

end
