(* ===== verification/Split_Scan.thy ===== *)
theory Split_Scan
  imports Split_Correct
begin

text \<open>What the scan of the arithmetic pass records: stretches of helper calls whose operands it has looked at.\<close>

section \<open>Recorded runs\<close>

text \<open>
  An operand that the fast path may use: it is checked, its opcode is \<open>inttoptr\<close>, or it is the result of
  a call, which the scan takes for a call of the run.
\<close>

definition covered :: "ir_function \<Rightarrow> ir_value list \<Rightarrow> ir_value \<Rightarrow> bool" where
  "covered F vs v \<longleftrightarrow> v \<in> set vs \<or> is_inttoptr F v = Some True \<or> (\<exists>r. v = Reg r \<and> count_uses F r \<noteq> None)"

definition call_covered :: "ir_function \<Rightarrow> ir_value list \<Rightarrow> ir_inst \<Rightarrow> bool" where
  "call_covered F vs i \<longleftrightarrow> (\<exists>a b. two_operands i = Inr (a, b) \<and> covered F vs a \<and> covered F vs b)"

definition open_run :: "ir_function \<Rightarrow> ir_value list \<Rightarrow> ir_block \<Rightarrow> bool" where
  "open_run F vs run \<longleftrightarrow> (\<forall>I \<in> set run. isArithmeticCall (snd I) \<and> call_covered F vs (snd I))"

text \<open>
  A recorded run: its calls, the last of them the instruction at which it ended, or all but that
  instruction.
\<close>

definition recorded :: "ir_function \<Rightarrow> arithmetic_block \<Rightarrow> ir_block \<Rightarrow> bool" where
  "recorded F e run \<longleftrightarrow> run \<noteq> [] \<and> fst (hd run) = fst e \<and> fst (last run) = snd (snd e) \<and>
     isArithmeticCall (snd (hd run)) \<and>
     (open_run F (fst (snd e)) run \<or>
      open_run F (fst (snd e)) (butlast run) \<and> \<not> isArithmeticCall (snd (last run)))"

definition scanning :: "ir_function \<Rightarrow> ir_block \<Rightarrow> scan \<Rightarrow> bool" where
  "scanning F run st \<longleftrightarrow> dom (use_counts st) = dom (count_uses F) \<and>
     (case block_start st of
        None \<Rightarrow> run = [] \<and> args_to_check st = []
      | Some f \<Rightarrow> run \<noteq> [] \<and> fst (hd run) = f \<and> open_run F (args_to_check st) run)"

lemma covered_mono: "covered F vs v \<Longrightarrow> set vs \<subseteq> set ws \<Longrightarrow> covered F ws v"
  by (auto simp: covered_def)

lemma open_run_mono: "open_run F vs run \<Longrightarrow> set vs \<subseteq> set ws \<Longrightarrow> open_run F ws run"
  unfolding open_run_def call_covered_def using covered_mono by blast

lemma check_value_fields [simp]:
  "use_counts (check_value v st) = use_counts st" "block_start (check_value v st) = block_start st"
  "arithmetic_blocks (check_value v st) = arithmetic_blocks st"
  "set (args_to_check (check_value v st)) = insert v (set (args_to_check st))"
  by (auto simp: check_value_def)

lemma note_first_result:
  shows "use_counts (note_first F v st) = use_counts st" "block_start (note_first F v st) = block_start st"
    "arithmetic_blocks (note_first F v st) = arithmetic_blocks st"
    "set (args_to_check st) \<subseteq> set (args_to_check (note_first F v st))"
    "covered F (args_to_check (note_first F v st)) v"
  by (auto simp: note_first_def covered_def)

lemma note_later_result:
  assumes "note_later F v (e, st) = Inr (e', st')" and "dom (use_counts st) = dom (count_uses F)"
  shows "dom (use_counts st') = dom (count_uses F)" "block_start st' = block_start st"
    "arithmetic_blocks st' = arithmetic_blocks st" "set (args_to_check st) \<subseteq> set (args_to_check st')"
    "covered F (args_to_check st') v"
proof -
  consider r n where "v = Reg r" "use_counts st r = Some n" "st' = st\<lparr>use_counts := (use_counts st)(r \<mapsto> n - 1)\<rparr>"
    | "is_inttoptr F v = Some True" "st' = st" | "st' = check_value v st"
  proof (cases "\<exists>r n. v = Reg r \<and> use_counts st r = Some n")
    case True
    then show thesis using assms(1) that(1) by auto
  next
    case False
    then have "(case v of Reg r \<Rightarrow> map_option (\<lambda>n. (r, n)) (use_counts st r) | _ \<Rightarrow> None) = None"
      by (cases v) auto
    then have "(case is_inttoptr F v of None \<Rightarrow> Inl NullOperator
        | Some b \<Rightarrow> Inr (e, if b then st else check_value v st)) = Inr (e', st')"
      using assms(1) by simp
    then show thesis using that(2,3) by (cases "is_inttoptr F v"; cases "is_inttoptr F v = Some True") auto
  qed
  then have "dom (use_counts st') = dom (count_uses F) \<and> block_start st' = block_start st \<and>
    arithmetic_blocks st' = arithmetic_blocks st \<and> set (args_to_check st) \<subseteq> set (args_to_check st') \<and>
    covered F (args_to_check st') v"
  proof cases
    case 1
    then have "r \<in> dom (count_uses F)" using assms(2) by auto
    then show ?thesis using 1 assms(2) by (auto simp: covered_def)
  qed (use assms(2) in \<open>auto simp: covered_def\<close>)
  then show "dom (use_counts st') = dom (count_uses F)" "block_start st' = block_start st"
    "arithmetic_blocks st' = arithmetic_blocks st" "set (args_to_check st) \<subseteq> set (args_to_check st')"
    "covered F (args_to_check st') v" by blast+
qed

lemma scan_call_result:
  assumes "scan_call F r i st = Inr (e, st')" and "scanning F run st" and "isArithmeticCall i"
  shows "scanning F (run @ [(r, i)]) st'" and "arithmetic_blocks st' = arithmetic_blocks st" and "block_start st' \<noteq> None"
proof -
  obtain a b where ab: "two_operands i = Inr (a, b)" using assms(1) by (auto simp: scan_call_def split: sum.splits)
  have dom: "dom (use_counts st) = dom (count_uses F)" using assms(2) by (simp add: scanning_def)
  have "scanning F (run @ [(r, i)]) st' \<and> arithmetic_blocks st' = arithmetic_blocks st \<and> block_start st' \<noteq> None"
  proof (cases "block_start st")
    case None
    let ?st = "note_first F a (st\<lparr>block_start := Some r\<rparr>)"
    have st': "st' = note_first F b ?st" and run: "run = []"
      using assms(1,2) None ab by (auto simp: scan_call_def scanning_def)
    note f = note_first_result [where F = F and v = a and st = "st\<lparr>block_start := Some r\<rparr>"] note_first_result [where F = F and v = b and st = ?st]
    have "call_covered F (args_to_check st') i"
      using f covered_mono [OF f(5,9)] ab unfolding st' call_covered_def by blast
    then show ?thesis using f dom run assms(3) by (simp add: st' scanning_def open_run_def)
  next
    case (Some f)
    obtain s1 e1 where l: "note_later F a (False, st) = Inr (e1, s1)" "note_later F b (e1, s1) = Inr (e, st')"
      using assms(1) Some ab by (auto simp: scan_call_def simp del: note_later.simps split: sum.splits)
    note n1 = note_later_result [OF l(1) dom]
    note n2 = note_later_result [OF l(2) n1(1)]
    have "call_covered F (args_to_check st') i"
      using covered_mono [OF n1(5) n2(4)] n2(5) ab unfolding call_covered_def by blast
    moreover have "open_run F (args_to_check st) run" "run \<noteq> []" "fst (hd run) = f"
      using assms(2) Some by (auto simp: scanning_def)
    moreover from this(1) have "open_run F (args_to_check st') run"
      using n1(4) n2(4) by (auto intro: open_run_mono)
    ultimately show ?thesis using n1 n2 Some assms(3) by (auto simp: scanning_def open_run_def)
  qed
  then show "scanning F (run @ [(r, i)]) st'" "arithmetic_blocks st' = arithmetic_blocks st" "block_start st' \<noteq> None"
    by blast+
qed

lemma recorded_end:
  assumes "scanning F run st" and "block_start st \<noteq> None" and "isArithmeticCall (snd (hd run))"
  shows "recorded F (the (block_start st), args_to_check st, fst (last run)) run"
    and "\<not> isArithmeticCall i \<Longrightarrow> recorded F (the (block_start st), args_to_check st, r) (run @ [(r, i)])"
  using assms by (auto simp: scanning_def recorded_def)

text \<open>One arithmetic call of a scan.\<close>

lemma scan_block_call:
  assumes "scan_block F ((r, i) # is) st = Inr st'" and "isArithmeticCall i"
  obtains e st1 ended where "scan_call F r i st = Inr (e, st1)"
    and "scan_block F is (if ended then end_run r st1 else st1) = Inr st'"
proof -
  obtain e st1 where sc: "scan_call F r i st = Inr (e, st1)"
    using assms by (auto split: sum.splits)
  show thesis
  proof (cases e)
    case True
    then have "scan_block F is (if True then end_run r st1 else st1) = Inr st'" using sc assms by simp
    with sc show thesis by (rule that)
  next
    case False
    let ?n = "case use_counts st1 r of Some n \<Rightarrow> n | None \<Rightarrow> 0"
    obtain ended where u: "uses_left r ?n ((r, i) # is) = Inr ended"
      using sc assms False by (cases "uses_left r ?n ((r, i) # is)") (simp_all del: uses_left.simps)
    then have "scan_block F is (if ended then end_run r st1 else st1) = Inr st'"
      using sc assms False by (simp del: uses_left.simps)
    with sc show thesis by (rule that)
  qed
qed

lemma scan_block_records:
  assumes "scan_block F is st = Inr st'" and "scanning F run st"
  shows "dom (use_counts st') = dom (count_uses F) \<and>
    (\<exists>new. arithmetic_blocks st' = arithmetic_blocks st @ new \<and>
      (\<forall>e \<in> set new. \<exists>before rn after. run @ is = before @ rn @ after \<and> recorded F e rn))"
  using assms
proof (induction "is" arbitrary: st run)
  case Nil
  then show ?case by (auto simp: scanning_def)
next
  case (Cons I "is")
  obtain r i where I: "I = (r, i)" by (cases I)
  have later: ?case if "scan_block F is (end_run r st1) = Inr st'" "arithmetic_blocks st1 = arithmetic_blocks st"
    "dom (use_counts st1) = dom (count_uses F)" "recorded F (the (block_start st1), args_to_check st1, r) (run @ [I])" for st1
  proof -
    have "scanning F [] (end_run r st1)" using that(3) by (simp add: scanning_def end_run_def)
    from Cons.IH [OF that(1) this] obtain new where dom: "dom (use_counts st') = dom (count_uses F)"
      and new: "arithmetic_blocks st' = arithmetic_blocks (end_run r st1) @ new"
      "\<forall>e \<in> set new. \<exists>before rn after. is = before @ rn @ after \<and> recorded F e rn" by auto
    have "\<exists>before rn after. run @ I # is = before @ rn @ after \<and> recorded F e rn" if e: "e \<in> set new" for e
    proof -
      obtain before rn after where "is = before @ rn @ after" "recorded F e rn" using new(2) e by blast
      then show ?thesis by (intro exI [of _ "run @ I # before"] exI [of _ rn] exI [of _ after]) simp
    qed
    note tail = this
    let ?e = "(the (block_start st1), args_to_check st1, r)"
    have "\<exists>before rn after. run @ I # is = before @ rn @ after \<and> recorded F ?e rn"
      using that(4) by (intro exI [of _ "[]"] exI [of _ "run @ [I]"] exI [of _ "is"]) simp
    with tail have "\<forall>e \<in> set (?e # new). \<exists>before rn after. run @ I # is = before @ rn @ after \<and> recorded F e rn"
      by simp
    moreover have "arithmetic_blocks st' = arithmetic_blocks st @ ?e # new" using new(1) that(2) by (simp add: end_run_def)
    ultimately show ?thesis using dom by blast
  qed
  show ?case
  proof (cases "isArithmeticCall i")
    case True
    obtain e0 st1 ended where sc: "scan_call F r i st = Inr (e0, st1)"
      and step: "scan_block F is (if ended then end_run r st1 else st1) = Inr st'"
      using scan_block_call [OF Cons.prems(1) [unfolded I] True] by blast
    note s1 = scan_call_result [OF sc Cons.prems(2) True]
    have hd: "isArithmeticCall (snd (hd (run @ [(r, i)])))"
      using s1(1,3) by (cases run) (auto simp: scanning_def open_run_def)
    show ?thesis
    proof (cases ended)
      case True
      have "recorded F (the (block_start st1), args_to_check st1, r) (run @ [I])"
        using recorded_end(1) [OF s1(1,3) hd] by (simp add: I)
      then show ?thesis using step True s1 by (intro later) (simp_all add: scanning_def)
    next
      case False
      then show ?thesis using Cons.IH [OF _ s1(1)] step s1(2) by (simp add: I)
    qed
  next
    case False
    show ?thesis
    proof (cases "block_start st")
      case None
      then have "scan_block F is st = Inr st'" "run = []"
        using Cons.prems False by (simp_all add: I scanning_def)
      from Cons.IH [OF this(1) Cons.prems(2)] obtain new where
        n: "dom (use_counts st') = dom (count_uses F)" "arithmetic_blocks st' = arithmetic_blocks st @ new"
        "\<forall>e \<in> set new. \<exists>before rn after. is = before @ rn @ after \<and> recorded F e rn" using \<open>run = []\<close> by auto
      have "\<exists>before rn after. I # is = before @ rn @ after \<and> recorded F e rn" if "e \<in> set new" for e
        using n(3) that by (metis append_Cons)
      then show ?thesis using n(1,2) \<open>run = []\<close> by auto
    next
      case (Some f)
      then have "scan_block F is (end_run r st) = Inr st'" using Cons.prems(1) False by (simp add: I)
      moreover have "isArithmeticCall (snd (hd run))"
        using Cons.prems(2) Some by (cases run) (auto simp: scanning_def open_run_def)
      ultimately show ?thesis
        using recorded_end(2) [OF Cons.prems(2) _ _ False, of r] Some Cons.prems(2)
        by (intro later) (auto simp: I scanning_def)
    qed
  qed
qed

lemma scan_blocks_record:
  assumes "scan_blocks F BBs st = Inr st'" and "dom (use_counts st) = dom (count_uses F)"
    and "e \<in> set (arithmetic_blocks st')" and "e \<notin> set (arithmetic_blocks st)"
  shows "\<exists>l before run after. (l, before @ run @ after) \<in> set BBs \<and> recorded F e run"
  using assms
proof (induction BBs arbitrary: st)
  case (Cons K BBs)
  obtain l BB where K: "K = (l, BB)" by (cases K)
  let ?st = "st\<lparr>block_start := None, args_to_check := []\<rparr>"
  obtain st1 where s: "scan_block F BB ?st = Inr st1" "scan_blocks F BBs st1 = Inr st'"
    using Cons.prems(1) by (auto simp: K split: sum.splits)
  have "scanning F [] ?st" using Cons.prems(2) by (simp add: scanning_def)
  from scan_block_records [OF s(1) this] obtain new where
    n: "dom (use_counts st1) = dom (count_uses F)" "arithmetic_blocks st1 = arithmetic_blocks st @ new"
    "\<forall>e \<in> set new. \<exists>before run after. BB = before @ run @ after \<and> recorded F e run" by auto
  show ?case
  proof (cases "e \<in> set (arithmetic_blocks st1)")
    case True
    then have "e \<in> set new" using n(2) Cons.prems(4) by auto
    then obtain before run after where "BB = before @ run @ after" "recorded F e run" using n(3) by blast
    then show ?thesis by (intro exI [of _ l] exI [of _ before] exI [of _ run] exI [of _ after]) (simp add: K)
  next
    case False
    then show ?thesis using Cons.IH [OF s(2) n(1) Cons.prems(3)] by (auto simp: K)
  qed
qed simp

section \<open>Properties\<close>

text \<open>
  C20. What the scan records: a stretch of a block that starts at a helper call, whose instructions are
  helper calls, up to the last, at which the run ended and which may be another instruction; both
  operands of every call are checked, integers cast to pointers, or results of calls.
\<close>

theorem recorded_runs:
  assumes "scan_function F = Inr st" and "e \<in> set (arithmetic_blocks st)"
  shows "\<exists>l before run after. (l, before @ run @ after) \<in> set F \<and> recorded F e run"
  using scan_blocks_record [OF assms(1) [unfolded scan_function_def] _ assms(2)] by simp

lemma recorded_runs_witness:
  "\<exists>l before run after. (l, before @ run @ after) \<in> set sum_doubled \<and> recorded sum_doubled (1, [Arg 0, Arg 1], 2) run"
proof -
  obtain u where u: "scan_function sum_doubled = Inr \<lparr>use_counts = u, block_start = None, args_to_check = [],
     arithmetic_blocks = [(1, [Arg 0, Arg 1], 2)]\<rparr>"
    using sum_doubled_scanned ..
  show ?thesis by (rule recorded_runs [OF u]) simp
qed

end
