(* ===== verification/Split_Faults.thy ===== *)
theory Split_Faults
  imports Split_Correct
begin

text \<open>
  What the arithmetic pass gets wrong, on the functions that it is given: results of other calls that it
  does not check, instructions that it drops, results that overflow, values that are not there.
\<close>

abbreviation call_add :: "ir_value \<Rightarrow> ir_value \<Rightarrow> ir_inst" where
  "call_add a b \<equiv> CallInst (Some ''mysoreScriptAdd'') [a, b]"

abbreviation call_mul :: "ir_value \<Rightarrow> ir_value \<Rightarrow> ir_inst" where
  "call_mul a b \<equiv> CallInst (Some ''mysoreScriptMul'') [a, b]"

lemmas run_pass = runOnFunction_def scan_simps pass_simps

section \<open>The result of another call\<close>

text \<open>\<open>t := f(); return (x + 2) * t;\<close>\<close>

definition times_call :: ir_function where
  "times_call = [(0, [(1, CallInst None []), (2, call_add (Arg 0) (PtrConst 17)),
     (3, call_mul (Reg 2) (Reg 1)), (4, IrRet (Reg 3))])]"

definition times_call_split :: ir_function where
  "times_call_split =
    [(0, [(1, CallInst None []), (100, PtrToInt (Arg 0)), (101, BinaryOperator IrAnd (IntConst 1) (Reg 100)),
        (102, BinaryOperator IrEq (Reg 101) (IntConst 1)), (103, IrCondBr (Reg 102) 12 10)]),
     (10, [(2, call_add (Arg 0) (PtrConst 17)), (3, call_mul (Reg 2) (Reg 1)), (116, IrBr 11)]),
     (12, [(105, PtrToInt (Arg 0)), (106, BinaryOperator IrAShr (Reg 105) (IntConst 3)),
        (107, PtrToInt (PtrConst 17)), (108, BinaryOperator IrAShr (Reg 107) (IntConst 3)),
        (109, BinaryOperator IrAdd (Reg 106) (Reg 108)), (110, PtrToInt (Reg 1)),
        (111, BinaryOperator IrAShr (Reg 110) (IntConst 3)), (112, BinaryOperator IrMul (Reg 109) (Reg 111)),
        (113, BinaryOperator IrShl (Reg 112) (IntConst 3)), (114, BinaryOperator IrOr (Reg 113) (IntConst 1)),
        (115, IntToPtr (Reg 114)), (117, IrBr 11)]),
     (11, [(104, PHINode [(Reg 115, 12), (Reg 3, 10)]), (4, IrRet (Reg 104))])]"

lemma times_call_rewritten: "runOnFunction times_call 10 100 = Inr times_call_split"
  by (simp add: run_pass times_call_def times_call_split_def)

lemmas run_simps_ir = run_call_def helper_named_def mysoreScriptOp_def sem_simps

lemma signed_shift: "signed_drop_bit 3 = asr3"
  by (simp add: fun_eq_iff asr3_def)

lemma run_ir_3: "run_ir rt F 3 = run_ir rt F (Suc (Suc (Suc 0)))"
  by (simp only: numeral_3_eq_3)

section \<open>Properties\<close>

text \<open>
  A result of another call that the run uses after its first call is not checked: where it is an
  object, the runtime has no integer to multiply with and stops, and the fast path multiplies with the
  object's address and returns an integer.
\<close>

theorem unchecked_call_result:
  assumes "rt_args rt = [x]" and "isInteger x" and "rt_call rt None [] c = Inr (p, c)" and "\<not> isInteger p"
  shows "\<exists>G. runOnFunction times_call 10 100 = Inr G \<and>
    run_ir rt G 3 7 0 Map.empty c = Inr (literalObject ((asr3 x + 2) * asr3 p), c) \<and>
    (\<exists>e. run_ir rt times_call 1 7 0 Map.empty c = Inl e)"
proof (intro exI conjI)
  show "runOnFunction times_call 10 100 = Inr times_call_split" by (rule times_call_rewritten)
  have "x AND 1 = 1" using integer_odd [OF assms(2)] by (simp add: and_one_eq mod_2_eq_odd)
  then show "run_ir rt times_call_split 3 7 0 Map.empty c = Inr (literalObject ((asr3 x + 2) * asr3 p), c)"
    using assms by (simp add: times_call_split_def run_ir_3 run_simps_ir signed_shift small_sums literalObject_def and.commute)
  show "run_ir rt times_call 1 7 0 Map.empty c = Inl
      (case run_ir rt times_call 1 7 0 Map.empty c of Inl e \<Rightarrow> e | Inr r \<Rightarrow> Unreachable)"
    using assms by (auto simp: times_call_def run_simps_ir helperOp_def getInteger_def small_sums lift_def
        createSmallInteger_eq split: sum.splits if_splits)
qed

lemma unchecked_call_result_witness:
  "run_ir ((sample_runtime [25])\<lparr>rt_call := \<lambda>f vs. return 0x2000\<rparr>) times_call_split 3 7 0 Map.empty initial_context
     = Inr (literalObject 5120, initial_context)"
proof -
  have "asr3 0x2000 = 1024" by (simp add: asr3_def)
  then show ?thesis
    using unchecked_call_result [where rt = "(sample_runtime [25])\<lparr>rt_call := \<lambda>f vs. return 0x2000\<rparr>"
        and x = 25 and p = "0x2000" and c = initial_context]
      times_call_rewritten
    by (simp add: sample_runtime_def sem_simps small_sums tag_eval)
qed

text \<open>\<open>x + y; f(x); return x;\<close>: the sum is not used.\<close>

definition discarded_sum :: ir_function where
  "discarded_sum = [(0, [(1, call_add (Arg 0) (Arg 1)), (2, OtherInst 7 [Arg 0]), (3, IrRet (Arg 0))])]"

definition discarded_sum_split :: ir_function where
  "discarded_sum_split =
    [(0, [(100, PtrToInt (Arg 0)), (101, BinaryOperator IrAnd (IntConst 1) (Reg 100)),
        (102, PtrToInt (Arg 1)), (103, BinaryOperator IrAnd (Reg 101) (Reg 102)),
        (104, BinaryOperator IrEq (Reg 103) (IntConst 1)), (105, IrCondBr (Reg 104) 12 10)]),
     (10, [(1, call_add (Arg 0) (Arg 1)), (2, OtherInst 7 [Arg 0]), (115, IrBr 11)]),
     (12, [(107, PtrToInt (Arg 0)), (108, BinaryOperator IrAShr (Reg 107) (IntConst 3)),
        (109, PtrToInt (Arg 1)), (110, BinaryOperator IrAShr (Reg 109) (IntConst 3)),
        (111, BinaryOperator IrAdd (Reg 108) (Reg 110)), (112, BinaryOperator IrShl (Reg 111) (IntConst 3)),
        (113, BinaryOperator IrOr (Reg 112) (IntConst 1)), (114, IntToPtr (Reg 113)), (116, IrBr 11)]),
     (11, [(106, PHINode [(Reg 114, 12), (Reg 1, 10)]), (3, IrRet (Arg 0))])]"

lemma discarded_sum_rewritten: "runOnFunction discarded_sum 10 100 = Inr discarded_sum_split"
  by (simp add: run_pass discarded_sum_def discarded_sum_split_def)

text \<open>
  Where the result of the last call of a run is not used, the run swallows the instruction after
  it: for two small integers, that instruction is executed by the function and never by its rewriting.
\<close>

theorem discarded_result_skips:
  assumes "rt_args rt = [x, y]" and "isInteger x" and "isInteger y" and "helperOp Add x y = Inr s"
    and "rt_other rt 7 [x] c = Inr (w, d)"
  shows "\<exists>G. runOnFunction discarded_sum 10 100 = Inr G \<and>
    run_ir rt G 3 7 0 Map.empty c = Inr (x, c) \<and> run_ir rt discarded_sum 1 7 0 Map.empty c = Inr (x, d)"
proof (intro exI conjI)
  show "runOnFunction discarded_sum 10 100 = Inr discarded_sum_split" by (rule discarded_sum_rewritten)
  have "x AND 1 = 1" "y AND 1 = 1"
    using integer_odd [OF assms(2)] integer_odd [OF assms(3)] by (simp_all add: and_one_eq mod_2_eq_odd)
  then show "run_ir rt discarded_sum_split 3 7 0 Map.empty c = Inr (x, c)"
    using assms by (simp add: discarded_sum_split_def run_ir_3 run_simps_ir and.commute)
  show "run_ir rt discarded_sum 1 7 0 Map.empty c = Inr (x, d)"
    using assms by (simp add: discarded_sum_def run_simps_ir)
qed

lemma discarded_result_skips_witness:
  "run_ir (sample_runtime [25, 33]) discarded_sum_split 3 7 0 Map.empty initial_context = Inr (25, initial_context)"
proof -
  have "helperOp Add 25 33 = Inr 57"
    by (simp add: helperOp_def getInteger_def small_sums checked64_def fits64_def createSmallInteger_def)
  then show ?thesis
    using discarded_result_skips [where rt = "sample_runtime [25, 33]" and x = "25" and y = "33" and s = "57"
        and c = initial_context and w = "0" and d = initial_context] discarded_sum_rewritten
    by (simp add: sample_runtime_def small_sums sem_simps)
qed

definition plain_sum :: ir_function where
  "plain_sum = [(0, [(1, call_add (Arg 0) (Arg 1)), (2, IrRet (Reg 1))])]"

definition plain_sum_split :: ir_function where
  "plain_sum_split =
    [(0, [(100, PtrToInt (Arg 0)), (101, BinaryOperator IrAnd (IntConst 1) (Reg 100)),
        (102, PtrToInt (Arg 1)), (103, BinaryOperator IrAnd (Reg 101) (Reg 102)),
        (104, BinaryOperator IrEq (Reg 103) (IntConst 1)), (105, IrCondBr (Reg 104) 12 10)]),
     (10, [(1, call_add (Arg 0) (Arg 1)), (115, IrBr 11)]),
     (12, [(107, PtrToInt (Arg 0)), (108, BinaryOperator IrAShr (Reg 107) (IntConst 3)),
        (109, PtrToInt (Arg 1)), (110, BinaryOperator IrAShr (Reg 109) (IntConst 3)),
        (111, BinaryOperator IrAdd (Reg 108) (Reg 110)), (112, BinaryOperator IrShl (Reg 111) (IntConst 3)),
        (113, BinaryOperator IrOr (Reg 112) (IntConst 1)), (114, IntToPtr (Reg 113)), (116, IrBr 11)]),
     (11, [(106, PHINode [(Reg 114, 12), (Reg 1, 10)]), (2, IrRet (Reg 106))])]"

lemma plain_sum_rewritten: "runOnFunction plain_sum 10 100 = Inr plain_sum_split"
  by (simp add: run_pass plain_sum_def plain_sum_split_def)

lemma sum_helper:
  assumes "isInteger x" and "isInteger y"
  shows "helperOp Add x y = (if - (2 ^ 60) \<le> sint (asr3 x) + sint (asr3 y) \<and> sint (asr3 x) + sint (asr3 y) < 2 ^ 60
    then Inr (literalObject (asr3 x + asr3 y)) else Inl AssertFailed)"
proof -
  let ?i = "sint (asr3 x) + sint (asr3 y)"
  have fits: "fits64 ?i" using asr3_range [of x] asr3_range [of y] by (simp add: fits64_def)
  then have "sint (word_of_int ?i :: 64 word) = ?i"
    unfolding sint_sbintrunc' by (intro signed_take_bit_int_eq_self) (simp_all add: fits64_def)
  then have "sint (asr3 x + asr3 y) = ?i" by (simp add: word_of_sint_ops)
  then show ?thesis
    using assms fits by (simp add: helperOp_def getInteger_def checked64_def word_of_sint_ops createSmallInteger_eq small_def)
qed

text \<open>
  C32. On the fast path the sum of two small integers wraps around to 61 bits, where the runtime's
  assertion stops the program: the rewritten function returns what the function returns exactly if the
  sum is a 61-bit integer.
\<close>

theorem fast_sum_wraps:
  assumes "rt_args rt = [x, y]" and "isInteger x" and "isInteger y"
  shows "\<exists>G. runOnFunction plain_sum 10 100 = Inr G \<and>
    run_ir rt G 3 7 0 Map.empty c = Inr (literalObject (asr3 x + asr3 y), c) \<and>
    (run_ir rt G 3 7 0 Map.empty c = run_ir rt plain_sum 1 7 0 Map.empty c \<longleftrightarrow>
      - (2 ^ 60) \<le> sint (asr3 x) + sint (asr3 y) \<and> sint (asr3 x) + sint (asr3 y) < 2 ^ 60)"
proof (intro exI conjI)
  show "runOnFunction plain_sum 10 100 = Inr plain_sum_split" by (rule plain_sum_rewritten)
  have "x AND 1 = 1" "y AND 1 = 1"
    using integer_odd [OF assms(2)] integer_odd [OF assms(3)] by (simp_all add: and_one_eq mod_2_eq_odd)
  then show G: "run_ir rt plain_sum_split 3 7 0 Map.empty c = Inr (literalObject (asr3 x + asr3 y), c)"
    using assms by (simp add: plain_sum_split_def run_ir_3 run_simps_ir signed_shift literalObject_def and.commute)
  have F: "run_ir rt plain_sum 1 7 0 Map.empty c = lift (helperOp Add x y) c"
    using assms by (simp add: plain_sum_def run_simps_ir lift_def split: sum.splits)
  show "run_ir rt plain_sum_split 3 7 0 Map.empty c = run_ir rt plain_sum 1 7 0 Map.empty c \<longleftrightarrow>
      - (2 ^ 60) \<le> sint (asr3 x) + sint (asr3 y) \<and> sint (asr3 x) + sint (asr3 y) < 2 ^ 60"
    using G F sum_helper [OF assms(2,3)] by (auto simp: lift_def)
qed

lemma fast_sum_wraps_witness:
  "run_ir (sample_runtime [literalObject (2 ^ 60 - 1), 33]) plain_sum_split 3 7 0 Map.empty initial_context
     = Inr (literalObject (- (2 ^ 60) + 3), initial_context)"
proof -
  have "asr3 (literalObject (2 ^ 60 - 1)) = 2 ^ 60 - 1" by (simp add: literalObject_def asr3_def)
  moreover have "literalObject (2 ^ 60 - 1 + 4) = literalObject (- (2 ^ 60) + 3)" by (simp add: literalObject_def)
  ultimately show ?thesis
    using fast_sum_wraps [where rt = "sample_runtime [literalObject (2 ^ 60 - 1), 33]"
        and x = "literalObject (2 ^ 60 - 1)" and y = "33" and c = initial_context] plain_sum_rewritten
    by (simp add: sample_runtime_def small_sums)
qed

section \<open>Values that are not there\<close>

text \<open>\<open>s := x + y; f(s); return s * 2;\<close>: the second run starts with the result of the first.\<close>

definition sum_reused :: ir_function where
  "sum_reused = [(0, [(1, call_add (Arg 0) (Arg 1)), (2, OtherInst 0 [Reg 1]),
     (3, call_mul (Reg 1) (PtrConst 17)), (4, IrRet (Reg 3))])]"

text \<open>
  The check of the second run reads the result that only the slow path of the first run computes, so
  that for two small integers the rewritten function reads a register that is not written.
\<close>

lemma second_run_reads_nothing:
  assumes "rt_args rt = [x, y]" and "isInteger x" and "isInteger y"
    and "rt_other rt 0 [literalObject (asr3 x + asr3 y)] c = Inr (w, d)"
  shows "\<exists>G. runOnFunction sum_reused 10 100 = Inr G \<and> run_ir rt G 3 7 0 Map.empty c = Inl Unreachable"
proof -
  obtain G where G: "runOnFunction sum_reused 10 100 = Inr G"
    by (cases "runOnFunction sum_reused 10 100") (simp_all add: run_pass sum_reused_def)
  have "x AND 1 = 1" "y AND 1 = 1"
    using integer_odd [OF assms(2)] integer_odd [OF assms(3)] by (simp_all add: and_one_eq mod_2_eq_odd)
  then have "run_ir rt G 3 7 0 Map.empty c = Inl Unreachable"
    using G assms
    by (auto simp: run_pass sum_reused_def run_ir_3 run_simps_ir signed_shift literalObject_def and.commute)
  with G show ?thesis by blast
qed

text \<open>An argument of the function in a later call of a run is no \<open>Operator\<close>: the pass dereferences null.\<close>

lemma argument_is_no_operator:
  "runOnFunction [(0, [(1, call_add (Arg 0) (Arg 1)), (2, call_mul (Reg 1) (Arg i)), (3, IrRet (Reg 2))])] k n
     = Inl NullOperator"
  by (simp add: run_pass)

end
