(* ===== verification/Split_Types.thy ===== *)
theory Split_Types
  imports Split_Scan
begin

text \<open>
  The rewritten function is well typed: every instruction that the arithmetic pass emits has operands of
  the types it needs, and the phi node that replaces the last result is an object pointer, as the result is.
\<close>

section \<open>Types\<close>

datatype ir_type = PtrTy | Int64Ty | Int1Ty

type_synonym ir_typing = "nat \<rightharpoonup> ir_type"

fun value_type :: "ir_typing \<Rightarrow> ir_value \<Rightarrow> ir_type option" where
  "value_type \<Gamma> (Reg r) = \<Gamma> r"
| "value_type \<Gamma> (IntConst w) = Some Int64Ty"
| "value_type \<Gamma> _ = Some PtrTy"

text \<open>The helpers take and return objects; other calls and instructions are taken as they are.\<close>

fun inst_typed :: "ir_typing \<Rightarrow> nat \<times> ir_inst \<Rightarrow> bool" where
  "inst_typed \<Gamma> (r, CallInst f as) \<longleftrightarrow>
     (if isArithmeticCall (CallInst f as) then \<Gamma> r = Some PtrTy \<and> (\<forall>a \<in> set as. value_type \<Gamma> a = Some PtrTy)
      else \<Gamma> r \<noteq> None \<and> (\<forall>a \<in> set as. value_type \<Gamma> a \<noteq> None))"
| "inst_typed \<Gamma> (r, PtrToInt v) \<longleftrightarrow> \<Gamma> r = Some Int64Ty \<and> value_type \<Gamma> v = Some PtrTy"
| "inst_typed \<Gamma> (r, IntToPtr v) \<longleftrightarrow> \<Gamma> r = Some PtrTy \<and> value_type \<Gamma> v = Some Int64Ty"
| "inst_typed \<Gamma> (r, BinaryOperator b v w) \<longleftrightarrow> \<Gamma> r = Some (if b = IrEq then Int1Ty else Int64Ty) \<and>
     value_type \<Gamma> v = Some Int64Ty \<and> value_type \<Gamma> w = Some Int64Ty"
| "inst_typed \<Gamma> (r, PHINode vs) \<longleftrightarrow> \<Gamma> r \<noteq> None \<and> (\<forall>v \<in> fst ` set vs. value_type \<Gamma> v = \<Gamma> r)"
| "inst_typed \<Gamma> (r, OtherInst k vs) \<longleftrightarrow> \<Gamma> r \<noteq> None \<and> (\<forall>v \<in> set vs. value_type \<Gamma> v \<noteq> None)"
| "inst_typed \<Gamma> (r, IrBr l) \<longleftrightarrow> True"
| "inst_typed \<Gamma> (r, IrCondBr v l l') \<longleftrightarrow> value_type \<Gamma> v = Some Int1Ty"
| "inst_typed \<Gamma> (r, IrRet v) \<longleftrightarrow> value_type \<Gamma> v = Some PtrTy"

definition function_typed :: "ir_typing \<Rightarrow> ir_function \<Rightarrow> bool" where
  "function_typed \<Gamma> F \<longleftrightarrow> (\<forall>I \<in> set (instructions F). inst_typed \<Gamma> I)"

lemma value_type_mono: "\<Gamma> \<subseteq>\<^sub>m \<Gamma>' \<Longrightarrow> value_type \<Gamma> v = Some ty \<Longrightarrow> value_type \<Gamma>' v = Some ty"
  by (cases v) (auto simp: map_le_def dest!: bspec)

lemma value_type_known: "\<Gamma> \<subseteq>\<^sub>m \<Gamma>' \<Longrightarrow> value_type \<Gamma> v \<noteq> None \<Longrightarrow> value_type \<Gamma>' v = value_type \<Gamma> v"
  by (cases "value_type \<Gamma> v") (auto dest: value_type_mono)

lemma inst_typed_mono:
  assumes "inst_typed \<Gamma> I" and "\<Gamma> \<subseteq>\<^sub>m \<Gamma>'"
  shows "inst_typed \<Gamma>' I"
proof -
  have r: "\<Gamma> r = Some ty \<Longrightarrow> \<Gamma>' r = Some ty" for r ty using value_type_mono [OF assms(2), of "Reg r"] by simp
  have k: "\<Gamma> r \<noteq> None \<Longrightarrow> \<Gamma>' r = \<Gamma> r" for r using value_type_known [OF assms(2), of "Reg r"] by simp
  have v: "value_type \<Gamma> v = Some ty \<Longrightarrow> value_type \<Gamma>' v = Some ty" for v ty by (rule value_type_mono [OF assms(2)])
  have kv: "value_type \<Gamma> v \<noteq> None \<Longrightarrow> value_type \<Gamma>' v = value_type \<Gamma> v" for v by (rule value_type_known [OF assms(2)])
  obtain q i where I: "I = (q, i)" by (cases I)
  show ?thesis
  proof (cases i)
    case (CallInst f as)
    then show ?thesis using assms(1) r k v kv by (cases "isArithmeticCall i") (simp_all add: I)
  next
    case (PHINode vs)
    then show ?thesis using assms(1) k kv by (simp add: I)
  next
    case (OtherInst f vs)
    then show ?thesis using assms(1) k kv by (simp add: I)
  qed (use assms(1) r v in \<open>simp_all add: I\<close>)
qed

section \<open>Emitted instructions\<close>

definition builder_typed :: "ir_typing \<Rightarrow> builder \<Rightarrow> bool" where
  "builder_typed \<Gamma> B \<longleftrightarrow> (\<forall>I \<in> set (fst B). inst_typed \<Gamma> I) \<and> (\<forall>q \<ge> snd B. \<Gamma> q = None)"

text \<open>A value of type \<open>ty\<close> is left by a sequence of the builder, in a larger typing.\<close>

definition gives :: "ir_typing \<Rightarrow> ir_value \<times> builder \<Rightarrow> ir_type \<Rightarrow> ir_typing \<Rightarrow> bool" where
  "gives \<Gamma> out ty \<Gamma>' \<longleftrightarrow> \<Gamma> \<subseteq>\<^sub>m \<Gamma>' \<and> builder_typed \<Gamma>' (snd out) \<and> value_type \<Gamma>' (fst out) = Some ty"

lemma gives_create:
  assumes "builder_typed \<Gamma> B" and "inst_typed (\<Gamma>(snd B \<mapsto> ty)) (snd B, i)"
  shows "gives \<Gamma> (create i B) ty (\<Gamma>(snd B \<mapsto> ty))"
proof -
  have le: "\<Gamma> \<subseteq>\<^sub>m \<Gamma>(snd B \<mapsto> ty)" using assms(1) by (auto simp: builder_typed_def map_le_def)
  show ?thesis
    using assms inst_typed_mono [OF _ le] le by (auto simp: gives_def create_def builder_typed_def)
qed

lemma fresh_type: "builder_typed \<Gamma> B \<Longrightarrow> value_type \<Gamma> v = Some ty \<Longrightarrow> value_type (\<Gamma>(snd B \<mapsto> ty')) v = Some ty"
  by (rule value_type_mono [of \<Gamma>]) (auto simp: builder_typed_def map_le_def)

lemma gives_then:
  "gives \<Gamma> (v, B) ty \<Gamma>1 \<Longrightarrow> gives \<Gamma>1 out ty' \<Gamma>2 \<Longrightarrow> gives \<Gamma> out ty' \<Gamma>2"
  by (auto simp: gives_def intro: map_le_trans)

lemma givesD:
  assumes "gives \<Gamma> (v, B) ty \<Gamma>'"
  shows "\<Gamma> \<subseteq>\<^sub>m \<Gamma>'" and "builder_typed \<Gamma>' B" and "value_type \<Gamma>' v = Some ty"
  using assms by (simp_all add: gives_def)

lemma gives_untag:
  assumes "builder_typed \<Gamma> B" and "value_type \<Gamma> v = Some PtrTy"
  shows "\<exists>\<Gamma>'. gives \<Gamma> (untag v B) Int64Ty \<Gamma>'"
proof -
  obtain u B1 where u: "create (PtrToInt v) B = (u, B1)" by (rule prod.exhaust)
  have 1: "gives \<Gamma> (u, B1) Int64Ty (\<Gamma>(snd B \<mapsto> Int64Ty))"
    unfolding u [symmetric] using assms fresh_type [OF assms] by (intro gives_create) auto
  note g = givesD [OF 1]
  have "gives (\<Gamma>(snd B \<mapsto> Int64Ty)) (create (BinaryOperator IrAShr u (IntConst 3)) B1) Int64Ty
      (\<Gamma>(snd B \<mapsto> Int64Ty, snd B1 \<mapsto> Int64Ty))"
    using g(2) fresh_type [OF g(2,3)] by (intro gives_create) auto
  from gives_then [OF 1 this] show ?thesis by (auto simp: untag_def u)
qed

lemma gives_binary:
  assumes "builder_typed \<Gamma> B" and "value_type \<Gamma> v = Some Int64Ty" and "value_type \<Gamma> w = Some Int64Ty"
  shows "gives \<Gamma> (create (BinaryOperator b v w) B) (if b = IrEq then Int1Ty else Int64Ty)
    (\<Gamma>(snd B \<mapsto> (if b = IrEq then Int1Ty else Int64Ty)))"
  using assms fresh_type [OF assms(1)] by (intro gives_create) (auto simp del: fun_upd_apply, auto)

lemma gives_and_all:
  assumes "builder_typed \<Gamma> B" and "value_type \<Gamma> a = Some Int64Ty" and "\<forall>v \<in> set vs. value_type \<Gamma> v = Some PtrTy"
  shows "\<exists>\<Gamma>'. gives \<Gamma> (and_all vs a B) Int64Ty \<Gamma>'"
  using assms
proof (induction vs arbitrary: \<Gamma> a B)
  case Nil
  then show ?case by (intro exI [of _ \<Gamma>]) (simp add: gives_def)
next
  case (Cons v vs)
  obtain u B1 where u: "create (PtrToInt v) B = (u, B1)" by (rule prod.exhaust)
  obtain s B2 where s: "create (BinaryOperator IrAnd a u) B1 = (s, B2)" by (rule prod.exhaust)
  have v: "value_type \<Gamma> v = Some PtrTy" using Cons.prems(3) by simp
  let ?\<Gamma>1 = "\<Gamma>(snd B \<mapsto> Int64Ty)"
  have 1: "gives \<Gamma> (u, B1) Int64Ty ?\<Gamma>1"
    unfolding u [symmetric] using Cons.prems(1) fresh_type [OF Cons.prems(1) v] by (intro gives_create) auto
  note g = givesD [OF 1]
  obtain \<Gamma>2 where 2: "gives ?\<Gamma>1 (s, B2) Int64Ty \<Gamma>2"
    using gives_binary [OF g(2) value_type_mono [OF g(1) Cons.prems(2)] g(3), of IrAnd] by (auto simp: s)
  note g2 = givesD [OF gives_then [OF 1 2]]
  have "\<forall>v \<in> set vs. value_type \<Gamma>2 v = Some PtrTy" using Cons.prems(3) value_type_mono [OF g2(1)] by simp
  from Cons.IH [OF g2(2,3) this] obtain \<Gamma>3 where "gives \<Gamma>2 (and_all vs s B2) Int64Ty \<Gamma>3" ..
  from gives_then [OF gives_then [OF 1 2] this] show ?case by (auto simp: u s)
qed

lemma gives_are_all_ints:
  assumes "builder_typed \<Gamma> B" and "\<forall>v \<in> set vs. value_type \<Gamma> v = Some PtrTy"
  shows "\<exists>\<Gamma>'. gives \<Gamma> (are_all_ints vs B) Int1Ty \<Gamma>'"
proof -
  obtain a B1 where a: "and_all vs (IntConst 1) B = (a, B1)" by (rule prod.exhaust)
  obtain \<Gamma>1 where 1: "gives \<Gamma> (a, B1) Int64Ty \<Gamma>1"
    using gives_and_all [OF assms(1) _ assms(2), of "IntConst 1"] by (auto simp: a)
  note g = givesD [OF 1]
  have "gives \<Gamma>1 (create (BinaryOperator IrEq a (IntConst 1)) B1) Int1Ty (\<Gamma>1(snd B1 \<mapsto> Int1Ty))"
    using gives_binary [OF g(2,3), of "IntConst 1" IrEq] by simp
  from gives_then [OF 1 this] show ?thesis by (auto simp: are_all_ints_def a)
qed

lemma gives_retag:
  assumes "builder_typed \<Gamma> B" and "value_type \<Gamma> v = Some Int64Ty"
  shows "\<exists>\<Gamma>'. gives \<Gamma> (retag v B) PtrTy \<Gamma>'"
proof -
  obtain u B1 where u: "create (BinaryOperator IrShl v (IntConst 3)) B = (u, B1)" by (rule prod.exhaust)
  obtain s B2 where s: "create (BinaryOperator IrOr u (IntConst 1)) B1 = (s, B2)" by (rule prod.exhaust)
  obtain \<Gamma>1 where 1: "gives \<Gamma> (u, B1) Int64Ty \<Gamma>1"
    using gives_binary [OF assms, of "IntConst 3" IrShl] by (auto simp: u)
  note g1 = givesD [OF 1]
  obtain \<Gamma>2 where 2: "gives \<Gamma>1 (s, B2) Int64Ty \<Gamma>2"
    using gives_binary [OF g1(2,3), of "IntConst 1" IrOr] by (auto simp: s)
  note g2 = givesD [OF 2]
  have "gives \<Gamma>2 (create (IntToPtr s) B2) PtrTy (\<Gamma>2(snd B2 \<mapsto> PtrTy))"
    using g2(2) fresh_type [OF g2(2,3)] by (intro gives_create) auto
  from gives_then [OF 1 gives_then [OF 2 this]] show ?thesis by (auto simp: retag_def u s)
qed

definition map_typed :: "ir_typing \<Rightarrow> (ir_value \<times> ir_value) list \<Rightarrow> bool" where
  "map_typed \<Gamma> am \<longleftrightarrow> (\<forall>u \<in> ran (map_of am). value_type \<Gamma> u = Some Int64Ty)"

lemma map_typed_mono: "map_typed \<Gamma> am \<Longrightarrow> \<Gamma> \<subseteq>\<^sub>m \<Gamma>' \<Longrightarrow> map_typed \<Gamma>' am"
  by (auto simp: map_typed_def intro: value_type_mono)

lemma map_typed_update:
  "map_typed \<Gamma> am \<Longrightarrow> value_type \<Gamma> u = Some Int64Ty \<Longrightarrow> map_typed \<Gamma> (AList.update v u am)"
  by (auto simp: map_typed_def update_conv' ran_def split: if_splits)

lemma untag_args_typed:
  assumes "untag_args vs am B = (am', B')" and "builder_typed \<Gamma> B" and "map_typed \<Gamma> am"
    and "\<forall>v \<in> set vs. value_type \<Gamma> v = Some PtrTy"
  shows "\<exists>\<Gamma>'. \<Gamma> \<subseteq>\<^sub>m \<Gamma>' \<and> builder_typed \<Gamma>' B' \<and> map_typed \<Gamma>' am'"
  using assms
proof (induction vs arbitrary: am B \<Gamma>)
  case Nil
  then show ?case by (intro exI [of _ \<Gamma>]) simp
next
  case (Cons v vs)
  obtain u B1 where u: "untag v B = (u, B1)" by (rule prod.exhaust)
  obtain \<Gamma>1 where 1: "gives \<Gamma> (u, B1) Int64Ty \<Gamma>1"
    using gives_untag [OF Cons.prems(2), of v] Cons.prems(4) by (auto simp: u)
  note g = givesD [OF 1]
  have "map_typed \<Gamma>1 (AList.update v u am)"
    using map_typed_update [OF map_typed_mono [OF Cons.prems(3) g(1)] g(3)] .
  moreover have "\<forall>v \<in> set vs. value_type \<Gamma>1 v = Some PtrTy" using Cons.prems(4) value_type_mono [OF g(1)] by simp
  moreover have "untag_args vs (AList.update v u am) B1 = (am', B')" using Cons.prems(1) by (simp add: u)
  ultimately obtain \<Gamma>' where "\<Gamma>1 \<subseteq>\<^sub>m \<Gamma>'" "builder_typed \<Gamma>' B'" "map_typed \<Gamma>' am'"
    using Cons.IH [OF _ g(2)] by blast
  then show ?case using g(1) by (blast intro: map_le_trans)
qed

lemma fast_operand_typed:
  assumes "builder_typed \<Gamma> B" and "map_typed \<Gamma> am" and "map_typed \<Gamma> deps" and "value_type \<Gamma> v = Some PtrTy"
  shows "\<exists>\<Gamma>'. gives \<Gamma> (fast_operand am deps v B) Int64Ty \<Gamma>'"
proof -
  have known: "\<exists>\<Gamma>'. gives \<Gamma> (u, B) Int64Ty \<Gamma>'" if "map_typed \<Gamma> m" "map_of m v = Some u" for m u
    using that assms(1) by (intro exI [of _ \<Gamma>]) (auto simp: gives_def map_typed_def ran_def)
  show ?thesis
    using known [OF assms(2)] known [OF assms(3)] gives_untag [OF assms(1,4)]
    by (cases "map_of am v"; cases "map_of deps v") (simp_all add: fast_operand_def)
qed

lemma redirect_typed:
  assumes "redirect s u Us deps = Inr deps'" and "map_typed \<Gamma> deps" and "value_type \<Gamma> u = Some Int64Ty"
  shows "map_typed \<Gamma> deps'"
  using redirect_map [OF assms(1)] assms(2,3) by (fastforce simp: map_typed_def ran_def split: if_splits)

lemma fast_calls_typed:
  assumes "fast_calls F am calls deps out B = Inr (Some (t, u), B')" and "\<forall>I \<in> set calls. inst_typed \<Gamma> I"
    and "builder_typed \<Gamma> B" and "map_typed \<Gamma> am" and "map_typed \<Gamma> deps"
    and "\<And>r v. out = Some (r, v) \<Longrightarrow> \<Gamma> r = Some PtrTy \<and> value_type \<Gamma> v = Some Int64Ty"
  shows "\<exists>\<Gamma>'. gives \<Gamma> (u, B') Int64Ty \<Gamma>' \<and> \<Gamma>' t = Some PtrTy"
  using assms
proof (induction calls arbitrary: \<Gamma> deps out B)
  case Nil
  then show ?case by (intro exI [of _ \<Gamma>]) (simp add: gives_def)
next
  case (Cons I calls)
  obtain r i where I: "I = (r, i)" by (cases I)
  show ?case
  proof (cases "is_call i")
    case False
    then show ?thesis using Cons.prems by (intro exI [of _ \<Gamma>]) (simp add: gives_def I)
  next
    case True
    obtain a b where ab: "two_operands i = Inr (a, b)"
      using Cons.prems(1) True by (auto simp: I split: sum.splits)
    obtain u1 B1 where u1: "fast_operand am deps a B = (u1, B1)" by (rule prod.exhaust)
    obtain u2 B2 where u2: "fast_operand am deps b B1 = (u2, B2)" by (rule prod.exhaust)
    obtain q where q: "fast_opcode i = Some q" "q \<noteq> IrEq"
      using Cons.prems(1) True ab by (auto simp: I u1 u2 fast_opcode_def split: option.splits if_splits)
    obtain op B3 where op: "create (BinaryOperator q u1 u2) B2 = (op, B3)" by (rule prod.exhaust)
    obtain deps' where deps': "redirect (Reg r) op (users F (Reg r)) deps = Inr deps'"
      and more: "fast_calls F am calls deps' (Some (r, op)) B3 = Inr (Some (t, u), B')"
      using Cons.prems(1) True ab q(1) by (auto simp: I u1 u2 op split: sum.splits)
    have arith: "isArithmeticCall i"
      using q(1) by (auto simp: fast_opcode_def isArithmeticCall_def split: if_splits)
    then have ty: "\<Gamma> r = Some PtrTy" "value_type \<Gamma> a = Some PtrTy" "value_type \<Gamma> b = Some PtrTy"
      using Cons.prems(2) ab by (cases i rule: two_operands.cases; auto simp: I)+
    obtain \<Gamma>1 where 1: "gives \<Gamma> (u1, B1) Int64Ty \<Gamma>1"
      using fast_operand_typed [OF Cons.prems(3-5) ty(2)] by (auto simp: u1)
    note g1 = givesD [OF 1]
    obtain \<Gamma>2 where 2: "gives \<Gamma>1 (u2, B2) Int64Ty \<Gamma>2"
      using fast_operand_typed [OF g1(2) map_typed_mono [OF Cons.prems(4) g1(1)]
          map_typed_mono [OF Cons.prems(5) g1(1)] value_type_mono [OF g1(1) ty(3)]] by (auto simp: u2)
    note g2 = givesD [OF 2]
    obtain \<Gamma>3 where 3: "gives \<Gamma>2 (op, B3) Int64Ty \<Gamma>3"
      using gives_binary [OF g2(2) value_type_mono [OF g2(1) g1(3)] g2(3), of q] q(2) by (auto simp: op)
    note g = givesD [OF gives_then [OF 1 gives_then [OF 2 3]]]
    have r: "\<Gamma>3 r = Some PtrTy" using value_type_mono [OF g(1), of "Reg r"] ty(1) by simp
    have "\<exists>\<Gamma>'. gives \<Gamma>3 (u, B') Int64Ty \<Gamma>' \<and> \<Gamma>' t = Some PtrTy"
    proof (rule Cons.IH [OF more _ g(2)])
      show "\<forall>I \<in> set calls. inst_typed \<Gamma>3 I" using Cons.prems(2) inst_typed_mono [OF _ g(1)] by simp
      show "map_typed \<Gamma>3 am" by (rule map_typed_mono [OF Cons.prems(4) g(1)])
      show "map_typed \<Gamma>3 deps'"
        by (rule redirect_typed [OF deps' map_typed_mono [OF Cons.prems(5) g(1)] g(3)])
    qed (use r g(3) in simp)
    then show ?thesis using gives_then [OF gives_then [OF 1 gives_then [OF 2 3]]] by blast
  qed
qed

section \<open>The function\<close>

lemma function_typed_simps [simp]:
  "function_typed \<Gamma> []" "function_typed \<Gamma> ((l, BB) # F) \<longleftrightarrow> (\<forall>I \<in> set BB. inst_typed \<Gamma> I) \<and> function_typed \<Gamma> F"
  "function_typed \<Gamma> (F @ G) \<longleftrightarrow> function_typed \<Gamma> F \<and> function_typed \<Gamma> G"
  by (auto simp: function_typed_def instructions_def)

lemma subst_type:
  "\<Gamma> t = Some PtrTy \<Longrightarrow> \<Gamma> phi = Some PtrTy \<Longrightarrow> value_type \<Gamma> (subst_value (Reg t) (Reg phi) v) = value_type \<Gamma> v"
  by (simp add: subst_value.simps)

lemma patch_typed:
  assumes "inst_typed \<Gamma> (r, i)" and "\<Gamma> t = Some PtrTy" and "\<Gamma> phi = Some PtrTy"
  shows "inst_typed \<Gamma> (r, patch_inst l k t phi i)"
proof (cases i)
  case (CallInst f as)
  then show ?thesis
    using assms(1) subst_type [OF assms(2,3)]
    by (auto simp: patch_inst_def isArithmeticCall_def isMysoreAdd_def isMysoreSub_def isMysoreMul_def
        isMysoreDiv_def split: if_splits)
next
  case (PHINode vs)
  then show ?thesis
    using assms(1) subst_type [OF assms(2,3)] by (auto simp: patch_inst_def)
qed (use assms(1) subst_type [OF assms(2,3)] in \<open>simp_all add: patch_inst_def\<close>)

lemma put_blocks_typed:
  assumes "function_typed \<Gamma> F" and "\<Gamma> (s_last S) = Some PtrTy" and "\<Gamma> (fst (s_phi S)) = Some PtrTy"
    and "\<forall>I \<in> set (s_block S) \<union> set (s_slow S) \<union> set (s_fast S) \<union> set (s_rest S) \<union> {s_phi S}. inst_typed \<Gamma> I"
  shows "function_typed \<Gamma> (put_blocks l k S F)"
proof -
  have p: "\<forall>I \<in> set (patch l k S BB). inst_typed \<Gamma> I" if BB: "\<forall>I \<in> set BB. inst_typed \<Gamma> I" for BB
  proof
    fix I assume "I \<in> set (patch l k S BB)"
    then obtain r i where i: "(r, i) \<in> set BB" "I = (r, patch_inst l k (s_last S) (fst (s_phi S)) i)"
      by (auto simp: patch_map)
    then show "inst_typed \<Gamma> I" using patch_typed [OF _ assms(2,3)] BB by blast
  qed
  have parts: "\<forall>I \<in> set (s_block S). inst_typed \<Gamma> I" "\<forall>I \<in> set (s_slow S). inst_typed \<Gamma> I"
    "\<forall>I \<in> set (s_fast S). inst_typed \<Gamma> I" "\<forall>I \<in> set (s_rest S). inst_typed \<Gamma> I" "inst_typed \<Gamma> (s_phi S)"
    using assms(4) by blast+
  have s: "function_typed \<Gamma> (split_blocks l k S)"
    unfolding split_blocks_def function_typed_simps(2,3) list.set ball_simps
    by (intro conjI p parts TrueI function_typed_simps(1))
  show ?thesis
    using assms(1) by (induction F) (auto simp: s p)
qed

lemma call_operands_typed: "inst_typed \<Gamma> (r, i) \<Longrightarrow> isArithmeticCall i \<Longrightarrow> v \<in> set (inst_operands i) \<Longrightarrow> value_type \<Gamma> v = Some PtrTy"
  by (cases i) (auto simp: isArithmeticCall_def isMysoreAdd_def isMysoreSub_def isMysoreMul_def isMysoreDiv_def)

lemma split_run_next: "split_run F e BB k n = Inr (S, n') \<Longrightarrow> n' = fst (last (s_slow S)) + 2"
  by (auto simp: split_run_def Let_def split: prod.splits if_splits sum.splits option.splits)

lemma split_run_typed:
  assumes S: "split_run F (first, vs, after) BB k n = Inr (S, n')" and BB: "\<forall>I \<in> set BB. inst_typed \<Gamma> I"
    and fresh: "\<forall>q \<ge> n. \<Gamma> q = None" and vs: "\<forall>v \<in> set vs. value_type \<Gamma> v = Some PtrTy"
  obtains \<Gamma>' where "\<Gamma> \<subseteq>\<^sub>m \<Gamma>'" and "\<forall>q \<ge> n'. \<Gamma>' q = None" and "\<Gamma>' (s_last S) = Some PtrTy"
    and "\<Gamma>' (fst (s_phi S)) = Some PtrTy"
    and "\<forall>I \<in> set (s_block S) \<union> set (s_slow S) \<union> set (s_fast S) \<union> set (s_rest S) \<union> {s_phi S}. inst_typed \<Gamma>' I"
proof -
  obtain before calls rest where parts: "split_at first after BB = (before, calls, rest)" by (rule prod_cases3)
  obtain cond ch n1 am B u B1 res fast n2 where c: "are_all_ints vs ([], n) = (cond, (ch, n1))"
    "untag_args vs [] ([], n1 + 2) = (am, B)"
    "fast_calls F am calls [] None B = Inr (Some (s_last S, u), B1)" "retag u B1 = (res, (fast, n2))"
    "s_block S = before @ ch @ [(n1, IrCondBr cond (k + 2) k)]" "s_slow S = calls @ [(n2, IrBr (k + 1))]"
    "s_fast S = fast @ [(Suc n2, IrBr (k + 1))]"
    "s_phi S = (Suc n1, PHINode [(res, k + 2), (Reg (s_last S), k)])" "s_rest S = rest"
    by (rule split_run_parts [OF S parts])
  have old: "\<forall>I \<in> set before \<union> set calls \<union> set rest. inst_typed \<Gamma> I" using BB split_at_parts [OF parts] by auto
  obtain \<Gamma>1 where 1: "gives \<Gamma> (cond, (ch, n1)) Int1Ty \<Gamma>1"
    using gives_are_all_ints [of \<Gamma> "([], n)" vs] fresh vs by (auto simp: builder_typed_def c(1))
  note g1 = givesD [OF 1]
  let ?\<Gamma>2 = "\<Gamma>1(Suc n1 \<mapsto> PtrTy)"
  have 2: "\<Gamma>1 \<subseteq>\<^sub>m ?\<Gamma>2" using g1(2) by (auto simp: builder_typed_def map_le_def)
  have "builder_typed ?\<Gamma>2 ([], n1 + 2)" using g1(2) by (auto simp: builder_typed_def)
  moreover have "\<forall>v \<in> set vs. value_type ?\<Gamma>2 v = Some PtrTy"
    using vs value_type_mono [OF map_le_trans [OF g1(1) 2]] by blast
  ultimately obtain \<Gamma>3 where 3: "?\<Gamma>2 \<subseteq>\<^sub>m \<Gamma>3" "builder_typed \<Gamma>3 B" "map_typed \<Gamma>3 am"
    using untag_args_typed [OF c(2), of ?\<Gamma>2] by (auto simp: map_typed_def)
  have up3: "\<Gamma> \<subseteq>\<^sub>m \<Gamma>3" using g1(1) 2 3(1) by (blast intro: map_le_trans)
  obtain \<Gamma>4 where 4: "gives \<Gamma>3 (u, B1) Int64Ty \<Gamma>4" "\<Gamma>4 (s_last S) = Some PtrTy"
    using fast_calls_typed [OF c(3) _ 3(2,3), of] old inst_typed_mono [OF _ up3] by (auto simp: map_typed_def)
  obtain \<Gamma>5 where "gives \<Gamma>4 (retag u B1) PtrTy \<Gamma>5" using gives_retag givesD [OF 4(1)] by blast
  then have 5: "gives \<Gamma>4 (res, (fast, n2)) PtrTy \<Gamma>5" by (simp add: c(4))
  note g5 = givesD [OF 5]
  have up: "\<Gamma> \<subseteq>\<^sub>m \<Gamma>5" "\<Gamma>1 \<subseteq>\<^sub>m \<Gamma>5" "?\<Gamma>2 \<subseteq>\<^sub>m \<Gamma>5"
    using up3 2 3(1) givesD(1) [OF 4(1)] g5(1) by (blast intro: map_le_trans)+
  have phi: "\<Gamma>5 (Suc n1) = Some PtrTy" using value_type_mono [OF up(3), of "Reg (Suc n1)"] by simp
  have last: "\<Gamma>5 (s_last S) = Some PtrTy" using value_type_mono [OF g5(1), of "Reg (s_last S)"] 4(2) by simp
  have "\<forall>I \<in> set ch \<union> set fast \<union> (set before \<union> set calls \<union> set rest). inst_typed \<Gamma>5 I"
    using g1(2) g5(2) inst_typed_mono [OF _ up(2)] inst_typed_mono [OF _ up(1)] old by (auto simp: builder_typed_def)
  moreover have "value_type \<Gamma>5 cond = Some Int1Ty" by (rule value_type_mono [OF up(2) g1(3)])
  moreover have "\<forall>q \<ge> n'. \<Gamma>5 q = None" using g5(2) split_run_next [OF S] c(6) by (simp add: builder_typed_def)
  ultimately show thesis
    using up(1) last phi g5(3) by (intro that [of \<Gamma>5]) (simp_all add: c ball_Un)
qed

lemma rewrite_run_typed:
  assumes "rewrite_run (first, vs, after) F k n = Inr (F', n')" and "function_typed \<Gamma> F"
    and "\<forall>q \<ge> n. \<Gamma> q = None" and "\<forall>v \<in> set vs. value_type \<Gamma> v = Some PtrTy"
  shows "\<exists>\<Gamma>'. \<Gamma> \<subseteq>\<^sub>m \<Gamma>' \<and> function_typed \<Gamma>' F' \<and> (\<forall>q \<ge> n'. \<Gamma>' q = None)"
proof -
  obtain l BB S where find: "find (\<lambda>(l, BB). first \<in> fst ` set BB) F = Some (l, BB)"
    and S: "split_run F (first, vs, after) BB k n = Inr (S, n')" and F': "F' = put_blocks l k S F"
    using assms(1) by (auto simp: rewrite_run_def split: sum.splits option.splits)
  have "(l, BB) \<in> set F" using find by (fastforce simp: find_Some_iff in_set_conv_nth)
  then have BB: "\<forall>I \<in> set BB. inst_typed \<Gamma> I"
    using assms(2) block_instructions(1) by (fastforce simp: function_typed_def)
  obtain \<Gamma>' where up: "\<Gamma> \<subseteq>\<^sub>m \<Gamma>'" "\<forall>q \<ge> n'. \<Gamma>' q = None"
    and new: "\<Gamma>' (s_last S) = Some PtrTy" "\<Gamma>' (fst (s_phi S)) = Some PtrTy"
      "\<forall>I \<in> set (s_block S) \<union> set (s_slow S) \<union> set (s_fast S) \<union> set (s_rest S) \<union> {s_phi S}. inst_typed \<Gamma>' I"
    by (rule split_run_typed [OF S BB assms(3,4)])
  have "function_typed \<Gamma>' F" using assms(2) inst_typed_mono [OF _ up(1)] by (auto simp: function_typed_def)
  then show ?thesis using put_blocks_typed [OF _ new] up F' by blast
qed

lemma rewrite_runs_typed:
  assumes "rewrite_runs es F k n = Inr G" and "function_typed \<Gamma> F" and "\<forall>q \<ge> n. \<Gamma> q = None"
    and "\<forall>e \<in> set es. \<forall>v \<in> set (fst (snd e)). value_type \<Gamma> v = Some PtrTy"
  shows "\<exists>\<Gamma>'. \<Gamma> \<subseteq>\<^sub>m \<Gamma>' \<and> function_typed \<Gamma>' G"
  using assms
proof (induction es arbitrary: F k n \<Gamma>)
  case (Cons e es)
  obtain first vs after where e: "e = (first, vs, after)" by (rule prod_cases3)
  obtain F' n' where step: "rewrite_run (first, vs, after) F k n = Inr (F', n')" and rest: "rewrite_runs es F' (k + 3) n' = Inr G"
    using Cons.prems(1) by (auto simp: e split: sum.splits)
  obtain \<Gamma>1 where 1: "\<Gamma> \<subseteq>\<^sub>m \<Gamma>1" "function_typed \<Gamma>1 F'" "\<forall>q \<ge> n'. \<Gamma>1 q = None"
    using rewrite_run_typed [OF step Cons.prems(2,3)] Cons.prems(4) by (auto simp: e)
  have "\<forall>e \<in> set es. \<forall>v \<in> set (fst (snd e)). value_type \<Gamma>1 v = Some PtrTy"
    using Cons.prems(4) value_type_mono [OF 1(1)] by simp
  from Cons.IH [OF rest 1(2,3) this] 1(1) show ?case by (blast intro: map_le_trans)
qed (auto intro: map_le_refl)

section \<open>The values to check\<close>

text \<open>The scan records operands of arithmetic calls only; \<open>Q\<close> is what they satisfy.\<close>

definition all_checked :: "(ir_value \<Rightarrow> bool) \<Rightarrow> scan \<Rightarrow> bool" where
  "all_checked Q st \<longleftrightarrow> (\<forall>v \<in> set (args_to_check st). Q v) \<and> (\<forall>e \<in> set (arithmetic_blocks st). \<forall>v \<in> set (fst (snd e)). Q v)"

lemma note_first_checked: "all_checked Q st \<Longrightarrow> Q v \<Longrightarrow> all_checked Q (note_first F v st)"
  by (simp add: all_checked_def note_first_def)

lemma note_later_checked:
  assumes "note_later F v (e, st) = Inr (e', st')" and "all_checked Q st" and "Q v"
  shows "all_checked Q st'"
  using assms by (auto simp: all_checked_def split: ir_value.splits option.splits if_splits)

lemma scan_call_checked:
  assumes "scan_call F r i st = Inr (e, st')" and "all_checked Q st" and "\<forall>v \<in> set (inst_operands i). Q v"
  shows "all_checked Q st'"
proof -
  obtain a b where ab: "two_operands i = Inr (a, b)" using assms(1) by (auto simp: scan_call_def split: sum.splits)
  then have Q: "Q a" "Q b" using assms(3) by (auto elim: two_operands.elims)
  show ?thesis
  proof (cases "block_start st")
    case None
    then have st': "st' = note_first F b (note_first F a (st\<lparr>block_start := Some r\<rparr>))"
      using assms(1) ab by (simp add: scan_call_def)
    have "all_checked Q (st\<lparr>block_start := Some r\<rparr>)" using assms(2) by (simp add: all_checked_def)
    then show ?thesis unfolding st' by (intro note_first_checked Q)
  next
    case (Some f)
    then obtain e1 s1 where "note_later F a (False, st) = Inr (e1, s1)" "note_later F b (e1, s1) = Inr (e, st')"
      using assms(1) ab by (auto simp: scan_call_def simp del: note_later.simps split: sum.splits)
    then show ?thesis using note_later_checked assms(2) Q by metis
  qed
qed

lemma end_run_checked: "all_checked Q st \<Longrightarrow> all_checked Q (end_run r st)"
  by (auto simp: all_checked_def end_run_def)

lemma scan_block_checked:
  assumes "scan_block F is st = Inr st'" and "all_checked Q st"
    and "\<forall>I \<in> set is. isArithmeticCall (snd I) \<longrightarrow> (\<forall>v \<in> set (inst_operands (snd I)). Q v)"
  shows "all_checked Q st'"
  using assms
proof (induction "is" arbitrary: st)
  case (Cons I "is")
  obtain r i where I: "I = (r, i)" by (cases I)
  obtain ended st1 where st1: "all_checked Q st1"
    and rest: "scan_block F is (if ended \<or> block_start st1 \<noteq> None \<and> \<not> isArithmeticCall i then end_run r st1 else st1) = Inr st'"
  proof (cases "isArithmeticCall i")
    case True
    obtain e0 st1 ended where sc: "scan_call F r i st = Inr (e0, st1)"
      and "scan_block F is (if ended then end_run r st1 else st1) = Inr st'"
      using scan_block_call [OF Cons.prems(1) [unfolded I] True] by blast
    moreover have "all_checked Q st1" by (rule scan_call_checked [OF sc Cons.prems(2)]) (use Cons.prems(3) True in \<open>simp add: I\<close>)
    ultimately show thesis using that [of st1 ended] True by simp
  next
    case False
    then show thesis using that [of st False] Cons.prems by (simp add: I)
  qed
  show ?case
    using Cons.IH [OF rest] Cons.prems(3) st1 by (simp add: end_run_checked)
qed simp

lemma scan_blocks_checked:
  assumes "scan_blocks F BBs st = Inr st'" and "all_checked Q st"
    and "\<forall>I \<in> set (instructions BBs). isArithmeticCall (snd I) \<longrightarrow> (\<forall>v \<in> set (inst_operands (snd I)). Q v)"
  shows "all_checked Q st'"
  using assms
proof (induction BBs arbitrary: st)
  case (Cons K BBs)
  obtain l BB where K: "K = (l, BB)" by (cases K)
  obtain st1 where s: "scan_block F BB (st\<lparr>block_start := None, args_to_check := []\<rparr>) = Inr st1" "scan_blocks F BBs st1 = Inr st'"
    using Cons.prems(1) by (auto simp: K split: sum.splits)
  have "all_checked Q (st\<lparr>block_start := None, args_to_check := []\<rparr>)" using Cons.prems(2) by (simp add: all_checked_def)
  then have "all_checked Q st1" by (rule scan_block_checked [OF s(1)]) (use Cons.prems(3) in \<open>auto simp: K instructions_def\<close>)
  then show ?case by (rule Cons.IH [OF s(2)]) (use Cons.prems(3) in \<open>auto simp: K instructions_def\<close>)
qed simp

section \<open>Properties\<close>

text \<open>
  C14. The pass takes well-typed functions to well-typed functions, however many runs it finds; no
  register of the function changes its type.
\<close>

theorem rewriting_well_typed:
  assumes "runOnFunction F k n = Inr G" and "function_typed \<Gamma> F" and "\<forall>q \<ge> n. \<Gamma> q = None"
  shows "\<exists>\<Gamma>'. \<Gamma> \<subseteq>\<^sub>m \<Gamma>' \<and> function_typed \<Gamma>' G"
proof -
  obtain st where st: "scan_function F = Inr st" "rewrite_runs (arithmetic_blocks st) F k n = Inr G"
    using assms(1) by (auto simp: runOnFunction_def split: sum.splits)
  have "all_checked (\<lambda>v. value_type \<Gamma> v = Some PtrTy) st"
    by (rule scan_blocks_checked [OF st(1) [unfolded scan_function_def]])
      (use assms(2) call_operands_typed in \<open>auto simp: all_checked_def function_typed_def\<close>)
  then show ?thesis using rewrite_runs_typed [OF st(2) assms(2,3)] by (simp add: all_checked_def)
qed

definition sum_doubled_typing :: ir_typing where
  "sum_doubled_typing = [1 \<mapsto> PtrTy, 2 \<mapsto> PtrTy, 3 \<mapsto> PtrTy]"

lemma rewriting_well_typed_witness:
  "\<exists>\<Gamma>'. sum_doubled_typing \<subseteq>\<^sub>m \<Gamma>' \<and> function_typed \<Gamma>' sum_doubled_split"
  by (rule rewriting_well_typed [OF sum_doubled_whole])
    (simp_all add: function_typed_def instructions_def sum_doubled_def sum_doubled_typing_def isArithmeticCall_def
      isMysoreAdd_def isMysoreMul_def)

end
