(* ===== verification/Grammar.thy ===== *)
theory Grammar
  imports Syntax
begin

text \<open>
  The grammar (\<open>grammar.hh\<close>) and the classes of nodes that the parser builds for its rules (\<open>parser.hh\<close>).
  A grammar is data: expressions put together with the operators of the parser library, and named
  rules.  The library is not part of the sources; \<open>Parsing\<close> states what is used of it.
\<close>

section \<open>Parsing expressions\<close>

text \<open>
  The operators in the order of their uses: literals, \<open>"+-"_S\<close>, character ranges, \<open>any()\<close>, \<open>nl\<close>, \<open>>>\<close>, \<open>|\<close>,
  \<open>*\<close>, \<open>+\<close>, \<open>-\<close>, \<open>!\<close>, \<open>term\<close>, and references to rules, which may be recursive.
\<close>

datatype rule =
    r_whitespace | r_comment | r_ignored | r_num | r_val | r_mul_op | r_div_op | r_mul
  | r_add_op | r_sub_op | r_ne_cmp | r_eq_cmp | r_lt_cmp | r_gt_cmp | r_le_cmp | r_ge_cmp
  | r_cmp | r_arith_expr | r_string_body | r_string | r_identifier | r_argList | r_closure
  | r_variable | r_assignment | r_callArgList | r_call | r_callable | r_expression
  | r_newExpr | r_decl | r_ret | r_ifStatement | r_whileLoop | r_cls | r_statement
  | r_statements

datatype peg =
    Lit string
  | OneOf string
  | Range char char
  | AnyChar
  | Nl peg
  | Seq peg peg
  | Alt peg peg
  | Star peg
  | Plus peg
  | Opt peg
  | Not peg
  | Term peg
  | Ref rule

abbreviation quote :: char where "quote \<equiv> CHR 0x22"
abbreviation tab :: char where "tab \<equiv> CHR 0x09"

text \<open>Longer sequences and choices associate to the right here; \<open>>>\<close> and \<open>|\<close> are associative.\<close>

fun seqs :: "peg list \<Rightarrow> peg" where
  "seqs [] = Lit []"
| "seqs [e] = e"
| "seqs (e # es) = Seq e (seqs es)"

fun alts :: "peg list \<Rightarrow> peg" where
  "alts [] = Not (Lit [])"
| "alts [e] = e"
| "alts (e # es) = Alt e (alts es)"

section \<open>The rules\<close>

definition whitespace_expr :: peg where
  "whitespace_expr = Alt (Alt (Lit '' '') (Lit [tab])) (Nl (Lit [newline]))"

definition comment_expr :: peg where
  "comment_expr = Alt (Seq (Lit ''/*'') (Seq (Star (Seq (Not (Lit ''*/'')) (Alt (Nl (Lit [newline])) AnyChar))) (Lit ''*/'')))
    (Seq (Lit ''//'') (Seq (Star (Seq (Not (Lit [newline])) AnyChar)) (Nl (Lit [newline]))))"

definition ignored_expr :: peg where
  "ignored_expr = Star (Alt (Ref r_comment) (Ref r_whitespace))"

definition digit :: peg where
  "digit = Range (CHR ''0'') (CHR ''9'')"

definition num_expr :: peg where
  "num_expr = Seq (Opt (OneOf ''+-'')) (Plus digit)"

definition val_expr :: peg where
  "val_expr = Alt (Ref r_num) (Seq (Lit ''('') (Seq (Ref r_arith_expr) (Lit '')'')))"

definition mul_op_expr :: peg where
  "mul_op_expr = Seq (Ref r_mul) (Seq (Lit ''*'') (Ref r_val))"

definition div_op_expr :: peg where
  "div_op_expr = Seq (Ref r_mul) (Seq (Lit ''/'') (Ref r_val))"

definition mul_expr :: peg where
  "mul_expr = Alt (Alt (Ref r_mul_op) (Ref r_div_op)) (Ref r_val)"

definition add_op_expr :: peg where
  "add_op_expr = Seq (Ref r_arith_expr) (Seq (Lit ''+'') (Ref r_arith_expr))"

definition sub_op_expr :: peg where
  "sub_op_expr = Seq (Ref r_arith_expr) (Seq (Lit ''-'') (Ref r_arith_expr))"

definition ne_cmp_expr :: peg where
  "ne_cmp_expr = Seq (Ref r_arith_expr) (Seq (Lit ''!='') (Ref r_arith_expr))"

definition eq_cmp_expr :: peg where
  "eq_cmp_expr = Seq (Ref r_arith_expr) (Seq (Lit ''=='') (Ref r_arith_expr))"

definition lt_cmp_expr :: peg where
  "lt_cmp_expr = Seq (Ref r_arith_expr) (Seq (Lit ''<'') (Ref r_arith_expr))"

definition gt_cmp_expr :: peg where
  "gt_cmp_expr = Seq (Ref r_arith_expr) (Seq (Lit ''>'') (Ref r_arith_expr))"

definition le_cmp_expr :: peg where
  "le_cmp_expr = Seq (Ref r_arith_expr) (Seq (Lit ''<='') (Ref r_arith_expr))"

definition ge_cmp_expr :: peg where
  "ge_cmp_expr = Seq (Ref r_arith_expr) (Seq (Lit ''>='') (Ref r_arith_expr))"

definition cmp_expr :: peg where
  "cmp_expr = alts [Ref r_eq_cmp, Ref r_ne_cmp, Ref r_lt_cmp, Ref r_gt_cmp, Ref r_le_cmp, Ref r_ge_cmp]"

definition arith_expr_expr :: peg where
  "arith_expr_expr = alts [Ref r_add_op, Ref r_sub_op, Ref r_mul, Ref r_cmp, Ref r_expression]"

definition character :: peg where
  "character = Term (Alt (Lit [backslash, quote]) (Seq (Not (Lit [quote])) (Alt (Nl (Lit [newline])) AnyChar)))"

definition string_body_expr :: peg where
  "string_body_expr = Star character"

definition string_expr :: peg where
  "string_expr = Term (Seq (Lit [quote]) (Seq (Ref r_string_body) (Lit [quote])))"

definition letter :: peg where
  "letter = Alt (Range (CHR ''a'') (CHR ''z'')) (Range (CHR ''A'') (CHR ''Z''))"

definition identifier_expr :: peg where
  "identifier_expr = Term (Seq (Alt letter (Lit ''_'')) (Star (alts [letter, digit, Lit ''_''])))"

definition argList_expr :: peg where
  "argList_expr = seqs [Lit ''('', Opt (Seq (Ref r_identifier) (Star (Seq (Lit '','') (Ref r_identifier)))), Lit '')'']"

definition closure_expr :: peg where
  "closure_expr = seqs [Lit ''func'', Ref r_identifier, Ref r_argList, Lit ''{'', Ref r_statements, Lit ''}'']"

definition variable_expr :: peg where
  "variable_expr = Ref r_identifier"

definition assignment_expr :: peg where
  "assignment_expr = seqs [Ref r_variable, Lit ''='', Ref r_expression]"

definition callArgList_expr :: peg where
  "callArgList_expr = seqs [Lit ''('', Opt (Seq (Ref r_expression) (Star (Seq (Lit '','') (Ref r_expression)))), Lit '')'']"

definition call_expr :: peg where
  "call_expr = seqs [Ref r_callable, Opt (Seq (Lit ''.'') (Ref r_identifier)), Ref r_callArgList]"

definition callable_expr :: peg where
  "callable_expr = alts [Ref r_closure, Ref r_newExpr, Ref r_arith_expr, Ref r_variable, Ref r_string, Ref r_call]"

definition expression_expr :: peg where
  "expression_expr = alts [Ref r_call, Ref r_closure, Ref r_newExpr, Ref r_arith_expr, Ref r_variable, Ref r_string]"

definition newExpr_expr :: peg where
  "newExpr_expr = Seq (Lit ''new'') (Ref r_identifier)"

definition decl_expr :: peg where
  "decl_expr = seqs [Lit ''var'', Ref r_identifier, Opt (Seq (Lit ''='') (Ref r_expression)), Lit '';'']"

definition ret_expr :: peg where
  "ret_expr = seqs [Lit ''return'', Ref r_expression, Lit '';'']"

definition ifStatement_expr :: peg where
  "ifStatement_expr = seqs [Lit ''if'', Lit ''('', Ref r_expression, Lit '')'', Lit ''{'', Ref r_statements, Lit ''}'']"

definition whileLoop_expr :: peg where
  "whileLoop_expr = seqs [Lit ''while'', Lit ''('', Ref r_expression, Lit '')'', Lit ''{'', Ref r_statements, Lit ''}'']"

definition cls_expr :: peg where
  "cls_expr = seqs [Lit ''class'', Ref r_identifier, Opt (Seq (Lit '':'') (Ref r_identifier)), Lit ''{'', Star (Ref r_decl), Star (Ref r_closure), Lit ''}'']"

definition statement_expr :: peg where
  "statement_expr = alts [Ref r_cls, Ref r_ret, Ref r_ifStatement, Ref r_whileLoop, Ref r_decl, Seq (Alt (Ref r_assignment) (Ref r_expression)) (Lit '';'')]"

definition statements_expr :: peg where
  "statements_expr = Star (Ref r_statement)"

text \<open>The bodies of the rules.\<close>

fun grammar :: "rule \<Rightarrow> peg" where
  "grammar r_whitespace = whitespace_expr"
| "grammar r_comment = comment_expr"
| "grammar r_ignored = ignored_expr"
| "grammar r_num = num_expr"
| "grammar r_val = val_expr"
| "grammar r_mul_op = mul_op_expr"
| "grammar r_div_op = div_op_expr"
| "grammar r_mul = mul_expr"
| "grammar r_add_op = add_op_expr"
| "grammar r_sub_op = sub_op_expr"
| "grammar r_ne_cmp = ne_cmp_expr"
| "grammar r_eq_cmp = eq_cmp_expr"
| "grammar r_lt_cmp = lt_cmp_expr"
| "grammar r_gt_cmp = gt_cmp_expr"
| "grammar r_le_cmp = le_cmp_expr"
| "grammar r_ge_cmp = ge_cmp_expr"
| "grammar r_cmp = cmp_expr"
| "grammar r_arith_expr = arith_expr_expr"
| "grammar r_string_body = string_body_expr"
| "grammar r_string = string_expr"
| "grammar r_identifier = identifier_expr"
| "grammar r_argList = argList_expr"
| "grammar r_closure = closure_expr"
| "grammar r_variable = variable_expr"
| "grammar r_assignment = assignment_expr"
| "grammar r_callArgList = callArgList_expr"
| "grammar r_call = call_expr"
| "grammar r_callable = callable_expr"
| "grammar r_expression = expression_expr"
| "grammar r_newExpr = newExpr_expr"
| "grammar r_decl = decl_expr"
| "grammar r_ret = ret_expr"
| "grammar r_ifStatement = ifStatement_expr"
| "grammar r_whileLoop = whileLoop_expr"
| "grammar r_cls = cls_expr"
| "grammar r_statement = statement_expr"
| "grammar r_statements = statements_expr"

section \<open>Nodes\<close>

text \<open>The class of the node that is built for a match of the rule.\<close>

datatype ast_class =
    AST_Number | AST_Multiply | AST_Divide | AST_Add | AST_Subtract
  | AST_CmpNe | AST_CmpEq | AST_CmpLt | AST_CmpGt | AST_CmpLE | AST_CmpGE
  | AST_StringLiteral | AST_Identifier | AST_ArgList | AST_ParamList | AST_ClosureDecl
  | AST_VarRef | AST_Assignment | AST_Call | AST_Decl | AST_Return | AST_IfStatement
  | AST_WhileLoop | AST_Statements | AST_ClassDecl | AST_NewExpr

fun CONNECT :: "rule \<Rightarrow> ast_class option" where
  "CONNECT r_num = Some AST_Number"
| "CONNECT r_mul_op = Some AST_Multiply"
| "CONNECT r_div_op = Some AST_Divide"
| "CONNECT r_add_op = Some AST_Add"
| "CONNECT r_sub_op = Some AST_Subtract"
| "CONNECT r_ne_cmp = Some AST_CmpNe"
| "CONNECT r_eq_cmp = Some AST_CmpEq"
| "CONNECT r_lt_cmp = Some AST_CmpLt"
| "CONNECT r_gt_cmp = Some AST_CmpGt"
| "CONNECT r_le_cmp = Some AST_CmpLE"
| "CONNECT r_ge_cmp = Some AST_CmpGE"
| "CONNECT r_string_body = Some AST_StringLiteral"
| "CONNECT r_identifier = Some AST_Identifier"
| "CONNECT r_callArgList = Some AST_ArgList"
| "CONNECT r_argList = Some AST_ParamList"
| "CONNECT r_closure = Some AST_ClosureDecl"
| "CONNECT r_variable = Some AST_VarRef"
| "CONNECT r_assignment = Some AST_Assignment"
| "CONNECT r_call = Some AST_Call"
| "CONNECT r_decl = Some AST_Decl"
| "CONNECT r_ret = Some AST_Return"
| "CONNECT r_ifStatement = Some AST_IfStatement"
| "CONNECT r_whileLoop = Some AST_WhileLoop"
| "CONNECT r_statements = Some AST_Statements"
| "CONNECT r_cls = Some AST_ClassDecl"
| "CONNECT r_newExpr = Some AST_NewExpr"
| "CONNECT _ = None"

text \<open>Every class of nodes is built by exactly one rule.\<close>

fun building_rule :: "ast_class \<Rightarrow> rule" where
  "building_rule AST_Number = r_num"
| "building_rule AST_Multiply = r_mul_op"
| "building_rule AST_Divide = r_div_op"
| "building_rule AST_Add = r_add_op"
| "building_rule AST_Subtract = r_sub_op"
| "building_rule AST_CmpNe = r_ne_cmp"
| "building_rule AST_CmpEq = r_eq_cmp"
| "building_rule AST_CmpLt = r_lt_cmp"
| "building_rule AST_CmpGt = r_gt_cmp"
| "building_rule AST_CmpLE = r_le_cmp"
| "building_rule AST_CmpGE = r_ge_cmp"
| "building_rule AST_StringLiteral = r_string_body"
| "building_rule AST_Identifier = r_identifier"
| "building_rule AST_ArgList = r_callArgList"
| "building_rule AST_ParamList = r_argList"
| "building_rule AST_ClosureDecl = r_closure"
| "building_rule AST_VarRef = r_variable"
| "building_rule AST_Assignment = r_assignment"
| "building_rule AST_Call = r_call"
| "building_rule AST_Decl = r_decl"
| "building_rule AST_Return = r_ret"
| "building_rule AST_IfStatement = r_ifStatement"
| "building_rule AST_WhileLoop = r_whileLoop"
| "building_rule AST_Statements = r_statements"
| "building_rule AST_ClassDecl = r_cls"
| "building_rule AST_NewExpr = r_newExpr"

lemma connected_once: "CONNECT r = Some k \<longleftrightarrow> r = building_rule k"
proof
  show "CONNECT r = Some k \<Longrightarrow> r = building_rule k" by (cases r) auto
  show "r = building_rule k \<Longrightarrow> CONNECT r = Some k" by (cases k) simp_all
qed

end
