(* ===== verification/Parsing.thy ===== *)
theory Parsing
  imports Grammar "HOL-Library.Sublist"
begin

text \<open>
  What the grammar accepts, for every parser library that does what parsing expression grammars are
  documented to do: ordered choice, greedy repetition without backtracking, and predicates that consume
  nothing.
\<close>

section \<open>Left recursion\<close>

text \<open>
  The rules that match the empty text, and the rules that an expression can call before it has
  consumed anything.
\<close>

fun nullable_rule :: "rule \<Rightarrow> bool" where
  "nullable_rule r_ignored = True"
| "nullable_rule r_string_body = True"
| "nullable_rule r_statements = True"
| "nullable_rule _ = False"

fun nullable :: "peg \<Rightarrow> bool" where
  "nullable (Lit w) \<longleftrightarrow> w = []"
| "nullable (Seq e1 e2) \<longleftrightarrow> nullable e1 \<and> nullable e2"
| "nullable (Alt e1 e2) \<longleftrightarrow> nullable e1 \<or> nullable e2"
| "nullable (Star e) \<longleftrightarrow> True"
| "nullable (Plus e) \<longleftrightarrow> nullable e"
| "nullable (Opt e) \<longleftrightarrow> True"
| "nullable (Not e) \<longleftrightarrow> True"
| "nullable (Term e) \<longleftrightarrow> nullable e"
| "nullable (Nl e) \<longleftrightarrow> nullable e"
| "nullable (Ref r) \<longleftrightarrow> nullable_rule r"
| "nullable _ \<longleftrightarrow> False"

fun heads :: "peg \<Rightarrow> rule set" where
  "heads (Seq e1 e2) = heads e1 \<union> (if nullable e1 then heads e2 else {})"
| "heads (Alt e1 e2) = heads e1 \<union> heads e2"
| "heads (Star e) = heads e"
| "heads (Plus e) = heads e"
| "heads (Opt e) = heads e"
| "heads (Not e) = heads e"
| "heads (Term e) = heads e"
| "heads (Nl e) = heads e"
| "heads (Ref r) = {r}"
| "heads _ = {}"

lemmas bodies = whitespace_expr_def comment_expr_def ignored_expr_def num_expr_def val_expr_def mul_op_expr_def
  div_op_expr_def mul_expr_def add_op_expr_def sub_op_expr_def ne_cmp_expr_def eq_cmp_expr_def lt_cmp_expr_def
  gt_cmp_expr_def le_cmp_expr_def ge_cmp_expr_def cmp_expr_def arith_expr_expr_def string_body_expr_def string_expr_def
  identifier_expr_def argList_expr_def closure_expr_def variable_expr_def assignment_expr_def callArgList_expr_def
  call_expr_def callable_expr_def expression_expr_def newExpr_expr_def decl_expr_def ret_expr_def ifStatement_expr_def
  whileLoop_expr_def cls_expr_def statement_expr_def statements_expr_def character_def digit_def letter_def

lemma nullable_fixpoint: "nullable_rule r \<longleftrightarrow> nullable (grammar r)"
  by (cases r) (simp_all add: bodies)

inductive calls_first :: "rule \<Rightarrow> rule \<Rightarrow> bool" where
  direct: "q \<in> heads (grammar r) \<Longrightarrow> calls_first r q"
| later: "q \<in> heads (grammar r) \<Longrightarrow> calls_first q p \<Longrightarrow> calls_first r p"

definition left_recursive :: "rule \<Rightarrow> bool" where
  "left_recursive r \<longleftrightarrow> calls_first r r"

text \<open>A rank that no call raises and that calls of other rules than those of the cycles lower.\<close>

fun rank :: "rule \<Rightarrow> nat" where
  "rank r_statements = 6"
| "rank r_statement = 5"
| "rank r_ignored = 5"
| "rank r_assignment = 4"
| "rank r_variable = 1"
| "rank r_val = 1"
| "rank r_mul = 2"
| "rank r_mul_op = 2"
| "rank r_div_op = 2"
| "rank r_add_op = 3"
| "rank r_sub_op = 3"
| "rank r_ne_cmp = 3"
| "rank r_eq_cmp = 3"
| "rank r_lt_cmp = 3"
| "rank r_gt_cmp = 3"
| "rank r_le_cmp = 3"
| "rank r_ge_cmp = 3"
| "rank r_cmp = 3"
| "rank r_arith_expr = 3"
| "rank r_call = 3"
| "rank r_callable = 3"
| "rank r_expression = 3"
| "rank _ = 0"

definition cyclic_rules :: "rule set" where
  "cyclic_rules = {r_mul, r_mul_op, r_div_op, r_add_op, r_sub_op, r_ne_cmp, r_eq_cmp, r_lt_cmp, r_gt_cmp, r_le_cmp, r_ge_cmp,
     r_cmp, r_arith_expr, r_call, r_callable, r_expression}"

lemma rank_falls: "q \<in> heads (grammar r) \<Longrightarrow> rank q \<le> rank r \<and> (r \<notin> cyclic_rules \<longrightarrow> rank q < rank r)"
  by (cases r) (auto simp: bodies cyclic_rules_def)

lemma calls_fall: "calls_first r q \<Longrightarrow> rank q \<le> rank r \<and> (r \<notin> cyclic_rules \<longrightarrow> rank q < rank r)"
proof (induction rule: calls_first.induct)
  case (direct q r)
  then show ?case by (rule rank_falls)
next
  case (later q r p)
  then show ?case using rank_falls [OF later.hyps(1)] by force
qed

lemma calls_trans: "calls_first r q \<Longrightarrow> calls_first q p \<Longrightarrow> calls_first r p"
  by (induction rule: calls_first.induct) (auto intro: calls_first.later)

lemma heads_of:
  "r_mul_op \<in> heads (grammar r_mul)" "r_div_op \<in> heads (grammar r_mul)" "r_mul \<in> heads (grammar r_mul_op)" "r_mul \<in> heads (grammar r_div_op)"
  "r_call \<in> heads (grammar r_expression)" "r_callable \<in> heads (grammar r_call)" "r_arith_expr \<in> heads (grammar r_callable)"
  "q \<in> {r_add_op, r_sub_op, r_cmp, r_expression} \<Longrightarrow> q \<in> heads (grammar r_arith_expr)"
  "q \<in> {r_ne_cmp, r_eq_cmp, r_lt_cmp, r_gt_cmp, r_le_cmp, r_ge_cmp} \<Longrightarrow> q \<in> heads (grammar r_cmp)"
  "q \<in> {r_add_op, r_sub_op, r_ne_cmp, r_eq_cmp, r_lt_cmp, r_gt_cmp, r_le_cmp, r_ge_cmp} \<Longrightarrow> r_arith_expr \<in> heads (grammar q)"
  by (auto simp: bodies)

lemma left_recursive_rules: "left_recursive r \<longleftrightarrow> r \<in> cyclic_rules"
proof
  assume "left_recursive r"
  then show "r \<in> cyclic_rules" using calls_fall [of r r] by (auto simp: left_recursive_def)
next
  note edges = heads_of [THEN calls_first.direct]
  have mul: "calls_first q q" if "q \<in> {r_mul, r_mul_op, r_div_op}" for q
    using that calls_trans [OF edges(1,3)] calls_trans [OF edges(3,1)] calls_trans [OF edges(4,2)] by auto
  have arith: "calls_first q q" if "q \<in> {r_add_op, r_sub_op}" for q
    using that calls_trans [OF edges(10) edges(8), of q q] by auto
  have cmp: "calls_first r_arith_expr r_cmp" by (rule edges(8)) simp
  have compare: "calls_first q q" if "q \<in> {r_ne_cmp, r_eq_cmp, r_lt_cmp, r_gt_cmp, r_le_cmp, r_ge_cmp}" for q
    by (rule calls_trans [OF edges(10) calls_trans [OF cmp edges(9)]]) (use that in auto)
  have call: "calls_first r_call r_arith_expr" "calls_first r_arith_expr r_expression"
    by (rule calls_trans [OF edges(6,7)], rule edges(8)) simp
  have rest: "calls_first q q" if "q \<in> {r_cmp, r_arith_expr, r_call, r_callable, r_expression}" for q
    using that calls_trans [OF calls_trans [OF edges(9,10) [of r_eq_cmp]] cmp]
      calls_trans [OF call(2) calls_trans [OF edges(5) call(1)]] calls_trans [OF call(1) calls_trans [OF call(2) edges(5)]]
      calls_trans [OF edges(7) calls_trans [OF call(2) calls_trans [OF edges(5,6)]]]
      calls_trans [OF edges(5) calls_trans [OF call]]
    by auto
  assume "r \<in> cyclic_rules"
  then show "left_recursive r"
    unfolding left_recursive_def cyclic_rules_def using mul arith compare rest by blast
qed

section \<open>Tokens\<close>

text \<open>Where a string literal, a comment or an identifier ends: the input behind it, if there is one.\<close>

fun to_quote :: "string \<Rightarrow> string" where
  "to_quote [] = []"
| "to_quote (c # cs) = (if prefix [backslash, quote] (c # cs) then to_quote (tl cs)
     else if c = quote then c # cs else to_quote cs)"

definition string_literal :: "string \<Rightarrow> string option" where
  "string_literal s = (if s \<noteq> [] \<and> hd s = quote \<and> to_quote (tl s) \<noteq> [] then Some (tl (to_quote (tl s))) else None)"

fun to_comment_end :: "string \<Rightarrow> string" where
  "to_comment_end [] = []"
| "to_comment_end (c # cs) = (if prefix ''*/'' (c # cs) then c # cs else to_comment_end cs)"

definition comment_end :: "string \<Rightarrow> string option" where
  "comment_end s =
     (if prefix ''/*'' s \<and> to_comment_end (drop 2 s) \<noteq> [] then Some (drop 2 (to_comment_end (drop 2 s)))
      else if prefix ''//'' s \<and> dropWhile (\<lambda>c. c \<noteq> newline) (drop 2 s) \<noteq> []
      then Some (tl (dropWhile (\<lambda>c. c \<noteq> newline) (drop 2 s)))
      else None)"

definition letter_char :: "char \<Rightarrow> bool" where
  "letter_char c \<longleftrightarrow> of_char c \<in> {97..122 :: nat} \<union> {65..90}"

definition name_char :: "char \<Rightarrow> bool" where
  "name_char c \<longleftrightarrow> letter_char c \<or> of_char c \<in> {48..57 :: nat} \<or> c = CHR ''_''"

definition identifier_end :: "string \<Rightarrow> string option" where
  "identifier_end s = (if s \<noteq> [] \<and> (letter_char (hd s) \<or> hd s = CHR ''_'') then Some (dropWhile name_char (tl s)) else None)"

lemma to_quote_head: "to_quote s = [] \<or> (\<exists>cs. to_quote s = quote # cs)"
  by (induction s rule: to_quote.induct) auto

lemma to_comment_end_head: "to_comment_end s = [] \<or> prefix ''*/'' (to_comment_end s)"
  by (induction s) auto

section \<open>Parser libraries\<close>

text \<open>
  \<open>m t e s x\<close>: on the input \<open>s\<close>, the expression \<open>e\<close> leaves \<open>x\<close>, or fails if \<open>x\<close> is None; \<open>t\<close> says whether the
  expression is a part of a \<open>term\<close>.  Outside a \<open>term\<close> the library may skip what the grammar ignores; the laws
  speak of inputs that do not start with anything to skip.  Nothing is said of rules that are
  left-recursive.
\<close>

definition solid :: "string \<Rightarrow> bool" where
  "solid s \<longleftrightarrow> (case s of [] \<Rightarrow> True | c # cs \<Rightarrow> c \<notin> {CHR '' '', tab, newline, CHR ''/''})"

locale parser_library =
  fixes m :: "bool \<Rightarrow> peg \<Rightarrow> string \<Rightarrow> string option \<Rightarrow> bool"
  assumes unambiguous: "m t e s x \<Longrightarrow> m t e s y \<Longrightarrow> x = y"
    and lit: "t \<or> solid s \<Longrightarrow> m t (Lit w) s (if prefix w s then Some (drop (length w) s) else None)"
    and one_of: "t \<or> solid s \<Longrightarrow> m t (OneOf w) s (if s \<noteq> [] \<and> hd s \<in> set w then Some (tl s) else None)"
    and range: "t \<or> solid s \<Longrightarrow> m t (Range a b) s (if s \<noteq> [] \<and> of_char a \<le> (of_char (hd s) :: nat) \<and> (of_char (hd s) :: nat) \<le> of_char b
        then Some (tl s) else None)"
    and any: "t \<or> solid s \<Longrightarrow> m t AnyChar s (if s \<noteq> [] then Some (tl s) else None)"
    and nl: "m t e s x \<Longrightarrow> m t (Nl e) s x"
    and sequence: "m t e1 s (Some s1) \<Longrightarrow> t \<or> solid s1 \<Longrightarrow> m t e2 s1 x \<Longrightarrow> m t (Seq e1 e2) s x"
    and sequence_fails: "m t e1 s None \<Longrightarrow> m t (Seq e1 e2) s None"
    and choice_first: "m t e1 s (Some s1) \<Longrightarrow> m t (Alt e1 e2) s (Some s1)"
    and choice_second: "m t e1 s None \<Longrightarrow> m t e2 s x \<Longrightarrow> m t (Alt e1 e2) s x"
    and star_end: "t \<or> solid s \<Longrightarrow> m t e s None \<Longrightarrow> m t (Star e) s (Some s)"
    and star_more: "m t e s (Some s1) \<Longrightarrow> t \<or> solid s1 \<Longrightarrow> m t (Star e) s1 x \<Longrightarrow> m t (Star e) s x"
    and plus: "m t (Seq e (Star e)) s x \<Longrightarrow> m t (Plus e) s x"
    and opt_present: "m t e s (Some s1) \<Longrightarrow> m t (Opt e) s (Some s1)"
    and opt_absent: "t \<or> solid s \<Longrightarrow> m t e s None \<Longrightarrow> m t (Opt e) s (Some s)"
    and not_holds: "t \<or> solid s \<Longrightarrow> m t e s None \<Longrightarrow> m t (Not e) s (Some s)"
    and not_fails: "m t e s (Some s1) \<Longrightarrow> m t (Not e) s None"
    and as_term: "t \<or> solid s \<Longrightarrow> m True e s x \<Longrightarrow> m t (Term e) s x"
    and rule_body: "\<not> left_recursive r \<Longrightarrow> m t (grammar r) s x \<Longrightarrow> m t (Ref r) s x"
begin

lemma by_body: "r \<notin> cyclic_rules \<Longrightarrow> m t (grammar r) s x \<Longrightarrow> m t (Ref r) s x"
  by (rule rule_body) (simp_all add: left_recursive_rules)

lemma literal: "t \<or> solid s \<Longrightarrow> prefix w s \<Longrightarrow> x = Some (drop (length w) s) \<Longrightarrow> m t (Lit w) s x"
  "t \<or> solid s \<Longrightarrow> \<not> prefix w s \<Longrightarrow> m t (Lit w) s None"
  using lit [of t s w] by auto

lemma unique: "m t e s x \<Longrightarrow> m t e s y \<longleftrightarrow> y = x"
  using unambiguous by blast

text \<open>A repetition is decided by a function on the input that says what one more round leaves.\<close>

lemma repeat:
  assumes "\<And>s. m True e s (f s)" and "\<And>s s'. f s = Some s' \<Longrightarrow> length s' < length s"
    and "\<And>s. g s = (case f s of None \<Rightarrow> s | Some s' \<Rightarrow> g s')"
  shows "m True (Star e) s (Some (g s))"
proof (induction s rule: measure_induct_rule [of length])
  case (less s)
  show ?case
  proof (cases "f s")
    case None
    then have "g s = s" "m True e s None" using assms(1) [of s] assms(3) [of s] by simp_all
    then show ?thesis by (simp add: star_end)
  next
    case (Some s')
    then have "g s = g s'" "m True e s (Some s')" using assms(1) [of s] assms(3) [of s] by simp_all
    moreover have "m True (Star e) s' (Some (g s'))" by (rule less) (rule assms(2) [OF Some])
    ultimately show ?thesis by (simp add: star_more)
  qed
qed

text \<open>Comments and strings are matched as one term.\<close>

lemma char_step:
  "m True (Alt (Nl (Lit [newline])) AnyChar) s (if s = [] then None else Some (tl s))"
proof (cases "prefix [newline] s")
  case True
  then have "m True (Nl (Lit [newline])) s (Some (tl s))" by (intro nl literal(1)) (auto simp: prefix_def)
  then show ?thesis using True by (auto intro: choice_first)
next
  case False
  then have "m True (Nl (Lit [newline])) s None" by (intro nl literal(2)) simp_all
  then show ?thesis using any [of True s] by (auto intro: choice_second split: if_splits)
qed

lemma unless:
  assumes "m True e s (if b then None else Some s')"
  shows "m True (Seq (Not (Lit w)) e) s (if prefix w s \<or> b then None else Some s')"
proof (cases "prefix w s")
  case True
  then have "m True (Not (Lit w)) s None" by (intro not_fails literal(1)) simp_all
  then show ?thesis using True by (simp add: sequence_fails)
next
  case False
  then have "m True (Not (Lit w)) s (Some s)" by (intro not_holds literal(2)) simp_all
  then show ?thesis using False assms by (simp add: sequence)
qed

lemma literal_then:
  assumes "m True e (drop (length w) s) x"
  shows "m True (Seq (Lit w) e) s (if prefix w s then x else None)"
proof (cases "prefix w s")
  case True
  then have "m True (Lit w) s (Some (drop (length w) s))" by (intro literal(1)) simp_all
  then show ?thesis using True assms by (simp add: sequence)
next
  case False
  then have "m True (Lit w) s None" by (intro literal(2)) simp_all
  then show ?thesis using False by (simp add: sequence_fails)
qed

lemma string_rest: "m True (Ref r_string) s (string_literal s)"
proof -
  let ?f = "\<lambda>s. if prefix [backslash, quote] s then Some (drop 2 s) else if prefix [quote] s \<or> s = [] then None else Some (tl s)"
  have step: "m True character s (?f s)" for s
  proof (cases "prefix [backslash, quote] s")
    case True
    then have "m True (Lit [backslash, quote]) s (Some (drop 2 s))" by (intro literal(1)) (simp_all add: numeral_2_eq_2)
    then show ?thesis using True by (simp add: character_def as_term choice_first)
  next
    case False
    then have "m True (Lit [backslash, quote]) s None" by (intro literal(2)) simp_all
    then show ?thesis using False unless [OF char_step, of "[quote]" s]
      by (simp add: character_def as_term choice_second)
  qed
  have shorter: "?f s = Some s' \<Longrightarrow> length s' < length s" for s s'
    by (cases s) (auto split: if_splits)
  have round: "to_quote s = (case ?f s of None \<Rightarrow> s | Some s' \<Rightarrow> to_quote s')" for s
    by (cases s) (auto simp: drop_Suc)
  have "m True (Star character) s (Some (to_quote s))" for s
    by (rule repeat [where f = ?f, OF step shorter round])
  then have body: "m True (Ref r_string_body) s (Some (to_quote s))" for s
    by (intro by_body) (simp_all only: cyclic_rules_def grammar.simps string_body_expr_def, simp)
  have "m True (Seq (Ref r_string_body) (Lit [quote])) s (if to_quote s = [] then None else Some (tl (to_quote s)))" for s
    using to_quote_head [of s] by (intro sequence [OF body]) (auto intro: literal)
  from literal_then [OF this, of "[quote]" s]
  have "m True (Seq (Lit [quote]) (Seq (Ref r_string_body) (Lit [quote]))) s (string_literal s)"
    by (cases s) (auto simp: string_literal_def split: if_splits)
  then have "m True string_expr s (string_literal s)" unfolding string_expr_def by (simp add: as_term)
  then show ?thesis by (intro by_body) (simp_all add: cyclic_rules_def)
qed

lemma comment_rest: "m True (Ref r_comment) s (comment_end s)"
proof -
  let ?f = "\<lambda>s. if prefix ''*/'' s \<or> s = [] then None else Some (tl s)"
    and ?g = "\<lambda>s. if prefix [newline] s \<or> s = [] then None else Some (tl s)"
    and ?line = "dropWhile (\<lambda>c. c \<noteq> newline)"
  have shorter: "?f s = Some s' \<Longrightarrow> length s' < length s" "?g s = Some s' \<Longrightarrow> length s' < length s" for s s'
    by (cases s; auto split: if_splits)+
  have rounds: "to_comment_end s = (case ?f s of None \<Rightarrow> s | Some s' \<Rightarrow> to_comment_end s')"
    "?line s = (case ?g s of None \<Rightarrow> s | Some s' \<Rightarrow> ?line s')" for s
    by (cases s; auto)+
  have "m True (Star (Seq (Not (Lit ''*/'')) (Alt (Nl (Lit [newline])) AnyChar))) s (Some (to_comment_end s))" for s
    by (rule repeat [where f = ?f, OF unless [OF char_step] shorter(1) rounds(1)])
  note inner = this
  have "m True (Lit ''*/'') (to_comment_end s) (if to_comment_end s = [] then None else Some (drop 2 (to_comment_end s)))" for s
    using to_comment_end_head [of s] by (auto intro: literal simp: numeral_2_eq_2)
  from sequence [OF inner _ this]
  have block: "m True (Seq (Star (Seq (Not (Lit ''*/'')) (Alt (Nl (Lit [newline])) AnyChar))) (Lit ''*/'')) s
      (if to_comment_end s = [] then None else Some (drop 2 (to_comment_end s)))" for s by simp
  have any: "m True AnyChar s (if s = [] then None else Some (tl s))" for s using any [of True s] by (simp split: if_splits)
  have "m True (Star (Seq (Not (Lit [newline])) AnyChar)) s (Some (?line s))" for s
    by (rule repeat [where f = ?g, OF unless [OF any] shorter(2) rounds(2)])
  note inner = this
  have "m True (Nl (Lit [newline])) (?line s) (if ?line s = [] then None else Some (tl (?line s)))" for s
  proof (cases "?line s")
    case (Cons c cs)
    then have "c = newline" using hd_dropWhile [of "\<lambda>c. c \<noteq> newline" s] by auto
    then show ?thesis using nl [OF lit [of True "?line s" "[newline]"]] Cons by simp
  next
    case Nil
    show ?thesis unfolding Nil using nl [OF lit [of True "[]" "[newline]"]] by simp
  qed
  from sequence [OF inner _ this]
  have line: "m True (Seq (Star (Seq (Not (Lit [newline])) AnyChar)) (Nl (Lit [newline]))) s
      (if ?line s = [] then None else Some (tl (?line s)))" for s by simp
  have "m True comment_expr s (comment_end s)"
  proof (cases "prefix ''/*'' s \<and> to_comment_end (drop 2 s) \<noteq> []")
    case True
    then show ?thesis
      unfolding comment_expr_def using literal_then [OF block, of "''/*''" s]
      by (auto simp: comment_end_def numeral_2_eq_2 intro: choice_first)
  next
    case False
    then have "m True (Seq (Lit ''/*'') (Seq (Star (Seq (Not (Lit ''*/'')) (Alt (Nl (Lit [newline])) AnyChar))) (Lit ''*/''))) s None"
      using literal_then [OF block, of "''/*''" s] by (auto simp: numeral_2_eq_2 split: if_splits)
    from choice_second [OF this literal_then [OF line, of "''//''" s]] False show ?thesis
      by (auto simp: comment_expr_def comment_end_def numeral_2_eq_2 split: if_splits)
  qed
  then show ?thesis by (intro by_body) (simp_all add: cyclic_rules_def)
qed

lemma letters: "m True letter s (if s \<noteq> [] \<and> letter_char (hd s) then Some (tl s) else None)"
proof (cases "s \<noteq> [] \<and> 97 \<le> (of_char (hd s) :: nat) \<and> (of_char (hd s) :: nat) \<le> 122")
  case True
  then have "m True (Range (CHR ''a'') (CHR ''z'')) s (Some (tl s))" using range [of True s "CHR ''a''" "CHR ''z''"] by simp
  then show ?thesis using True by (simp add: letter_def letter_char_def choice_first)
next
  case False
  then have "m True (Range (CHR ''a'') (CHR ''z'')) s None"
    using range [of True s "CHR ''a''" "CHR ''z''"] by (simp split: if_splits)
  from choice_second [OF this range [of True s "CHR ''A''" "CHR ''Z''"]] False show ?thesis
    by (auto simp: letter_def letter_char_def split: if_splits)
qed

text \<open>A choice between two tests of the first character.\<close>

lemma either:
  assumes "m True e1 s (if s \<noteq> [] \<and> P then Some (tl s) else None)" and "m True e2 s (if s \<noteq> [] \<and> Q then Some (tl s) else None)"
  shows "m True (Alt e1 e2) s (if s \<noteq> [] \<and> (P \<or> Q) then Some (tl s) else None)"
proof (cases "s \<noteq> [] \<and> P")
  case True
  then show ?thesis using assms(1) by (simp add: choice_first)
next
  case False
  then have "m True e1 s None" using assms(1) by (simp split: if_splits)
  from choice_second [OF this assms(2)] False show ?thesis by (auto split: if_splits)
qed

lemma underscore: "m True (Lit ''_'') s (if s \<noteq> [] \<and> hd s = CHR ''_'' then Some (tl s) else None)"
  using lit [of True s "''_''"] by (cases s) (auto split: if_splits)

lemma identifier_rest:
  assumes "t \<or> solid s"
  shows "m t (Ref r_identifier) s (identifier_end s)"
proof -
  let ?f = "\<lambda>s. if s \<noteq> [] \<and> name_char (hd s) then Some (tl s) else None"
  have digits: "m True digit s (if s \<noteq> [] \<and> of_char (hd s) \<in> {48..57 :: nat} then Some (tl s) else None)" for s
    using range [of True s "CHR ''0''" "CHR ''9''"] by (simp add: digit_def)
  have step: "m True (alts [letter, digit, Lit ''_'']) s (?f s)" for s
    using either [OF letters either [OF digits underscore], of s] by (simp add: name_char_def)
  have shorter: "?f s = Some s' \<Longrightarrow> length s' < length s" for s s' by (auto split: if_splits)
  have round: "dropWhile name_char s = (case ?f s of None \<Rightarrow> s | Some s' \<Rightarrow> dropWhile name_char s')" for s by (cases s) auto
  have names: "m True (Star (alts [letter, digit, Lit ''_''])) s (Some (dropWhile name_char s))" for s
    by (rule repeat [where f = ?f, OF step shorter round])
  have start: "m True (Alt letter (Lit ''_'')) s (if s \<noteq> [] \<and> (letter_char (hd s) \<or> hd s = CHR ''_'') then Some (tl s) else None)"
    by (rule either [OF letters underscore])
  have "m True (Seq (Alt letter (Lit ''_'')) (Star (alts [letter, digit, Lit ''_'']))) s (identifier_end s)"
  proof (cases "s \<noteq> [] \<and> (letter_char (hd s) \<or> hd s = CHR ''_'')")
    case True
    then show ?thesis using sequence [OF _ _ names, of "Alt letter (Lit ''_'')" s "tl s"] start by (simp add: identifier_end_def)
  next
    case False
    then have "m True (Alt letter (Lit ''_'')) s None" using start by (simp split: if_splits)
    then have "m True (Seq (Alt letter (Lit ''_'')) (Star (alts [letter, digit, Lit ''_'']))) s None" by (rule sequence_fails)
    moreover have "identifier_end s = None" using False by (simp add: identifier_end_def)
    ultimately show ?thesis by simp
  qed
  from as_term [OF assms this] have "m t identifier_expr s (identifier_end s)" unfolding identifier_expr_def .
  then show ?thesis by (intro by_body) (simp_all add: cyclic_rules_def)
qed

text \<open>Statements that start with a keyword.\<close>

lemma keyword_fails: "solid s \<Longrightarrow> \<not> prefix w s \<Longrightarrow> m False (Seq (Lit w) e) s None"
  by (intro sequence_fails literal(2)) simp_all

lemma split_name:
  fixes rest :: string
  assumes "letter_char c \<or> c = CHR ''_''" and "list_all name_char cs"
  defines "s \<equiv> ''var'' @ c # cs @ '';'' @ rest"
  shows "m False (Ref r_decl) s (Some rest)" and "m False (Ref r_statement) s (Some rest)"
proof -
  have stop: "dropWhile name_char (cs @ CHR '';'' # rest) = CHR '';'' # rest"
    using assms(2) by (induction cs) (auto simp: name_char_def letter_char_def)
  have sol: "solid s" "solid (CHR '';'' # rest)" by (simp_all add: s_def solid_def)
  have name: "solid (c # cs @ CHR '';'' # rest)" using assms(1) by (auto simp: solid_def letter_char_def)
  have assign: "m False (Opt (Seq (Lit ''='') (Ref r_expression))) (CHR '';'' # rest) (Some (CHR '';'' # rest))"
    by (intro opt_absent keyword_fails disjI2 sol) simp
  have semicolon: "m False (Lit '';'') (CHR '';'' # rest) (Some rest)" by (intro literal(1) disjI2 sol) simp_all
  have ident: "m False (Ref r_identifier) (c # cs @ CHR '';'' # rest) (Some (CHR '';'' # rest))"
    using identifier_rest [OF disjI2 [OF name], of False] assms(1) by (simp add: identifier_end_def stop)
  have "m False (Lit ''var'') s (Some (c # cs @ CHR '';'' # rest))"
    by (intro literal(1) disjI2 sol) (simp_all add: s_def)
  from sequence [OF this disjI2 [OF name] sequence [OF ident disjI2 [OF sol(2)]
      sequence [OF assign disjI2 [OF sol(2)] semicolon]]]
  have "m False decl_expr s (Some rest)" unfolding decl_expr_def seqs.simps .
  then show decl: "m False (Ref r_decl) s (Some rest)" by (intro by_body) (simp_all add: cyclic_rules_def)
  have "m False (grammar r) s None" if "r \<in> {r_cls, r_ret, r_ifStatement, r_whileLoop}" for r
    using that keyword_fails [OF sol(1)]
    by (auto simp: cls_expr_def ret_expr_def ifStatement_expr_def whileLoop_expr_def s_def)
  then have others: "m False (Ref r) s None" if "r \<in> {r_cls, r_ret, r_ifStatement, r_whileLoop}" for r
    using that by (intro by_body) (auto simp: cyclic_rules_def)
  have "m False statement_expr s (Some rest)"
    unfolding statement_expr_def alts.simps
    by (intro choice_second [OF others] choice_first decl) simp_all
  then show "m False (Ref r_statement) s (Some rest)" by (intro by_body) (simp_all add: cyclic_rules_def)
qed

end

section \<open>The least library\<close>

text \<open>The relation that the laws describe is such a library.\<close>

inductive peg_parses :: "bool \<Rightarrow> peg \<Rightarrow> string \<Rightarrow> string option \<Rightarrow> bool" where
  lit: "t \<or> solid s \<Longrightarrow> peg_parses t (Lit w) s (if prefix w s then Some (drop (length w) s) else None)"
| one_of: "t \<or> solid s \<Longrightarrow> peg_parses t (OneOf w) s (if s \<noteq> [] \<and> hd s \<in> set w then Some (tl s) else None)"
| range: "t \<or> solid s \<Longrightarrow> peg_parses t (Range a b) s (if s \<noteq> [] \<and> of_char a \<le> (of_char (hd s) :: nat) \<and>
    (of_char (hd s) :: nat) \<le> of_char b then Some (tl s) else None)"
| any: "t \<or> solid s \<Longrightarrow> peg_parses t AnyChar s (if s \<noteq> [] then Some (tl s) else None)"
| nl: "peg_parses t e s x \<Longrightarrow> peg_parses t (Nl e) s x"
| sequence: "peg_parses t e1 s (Some s1) \<Longrightarrow> t \<or> solid s1 \<Longrightarrow> peg_parses t e2 s1 x \<Longrightarrow> peg_parses t (Seq e1 e2) s x"
| sequence_fails: "peg_parses t e1 s None \<Longrightarrow> peg_parses t (Seq e1 e2) s None"
| choice_first: "peg_parses t e1 s (Some s1) \<Longrightarrow> peg_parses t (Alt e1 e2) s (Some s1)"
| choice_second: "peg_parses t e1 s None \<Longrightarrow> peg_parses t e2 s x \<Longrightarrow> peg_parses t (Alt e1 e2) s x"
| star_end: "t \<or> solid s \<Longrightarrow> peg_parses t e s None \<Longrightarrow> peg_parses t (Star e) s (Some s)"
| star_more: "peg_parses t e s (Some s1) \<Longrightarrow> t \<or> solid s1 \<Longrightarrow> peg_parses t (Star e) s1 x \<Longrightarrow> peg_parses t (Star e) s x"
| plus: "peg_parses t (Seq e (Star e)) s x \<Longrightarrow> peg_parses t (Plus e) s x"
| opt_present: "peg_parses t e s (Some s1) \<Longrightarrow> peg_parses t (Opt e) s (Some s1)"
| opt_absent: "t \<or> solid s \<Longrightarrow> peg_parses t e s None \<Longrightarrow> peg_parses t (Opt e) s (Some s)"
| not_holds: "t \<or> solid s \<Longrightarrow> peg_parses t e s None \<Longrightarrow> peg_parses t (Not e) s (Some s)"
| not_fails: "peg_parses t e s (Some s1) \<Longrightarrow> peg_parses t (Not e) s None"
| as_term: "t \<or> solid s \<Longrightarrow> peg_parses True e s x \<Longrightarrow> peg_parses t (Term e) s x"
| rule_body: "\<not> left_recursive r \<Longrightarrow> peg_parses t (grammar r) s x \<Longrightarrow> peg_parses t (Ref r) s x"

inductive_cases parse_cases:
  "peg_parses t (Lit w) s x" "peg_parses t (OneOf w) s x" "peg_parses t (Range a b) s x" "peg_parses t AnyChar s x"
  "peg_parses t (Nl e) s x" "peg_parses t (Seq e1 e2) s x" "peg_parses t (Alt e1 e2) s x" "peg_parses t (Star e) s x"
  "peg_parses t (Plus e) s x" "peg_parses t (Opt e) s x" "peg_parses t (Not e) s x" "peg_parses t (Term e) s x"
  "peg_parses t (Ref r) s x"

lemma peg_unambiguous: "peg_parses t e s x \<Longrightarrow> peg_parses t e s y \<Longrightarrow> x = y"
proof (induction arbitrary: y rule: peg_parses.induct)
  case (sequence t e1 s s1 e2 x)
  from sequence.prems show ?case by (rule parse_cases(6)) (auto dest!: sequence.IH)
next
  case (sequence_fails t e1 s e2)
  from sequence_fails.prems show ?case by (rule parse_cases(6)) (auto dest!: sequence_fails.IH)
next
  case (choice_first t e1 s s1 e2)
  from choice_first.prems show ?case by (rule parse_cases(7)) (auto dest!: choice_first.IH)
next
  case (choice_second t e1 s e2 x)
  from choice_second.prems show ?case by (rule parse_cases(7)) (auto dest!: choice_second.IH)
next
  case (star_end t s e)
  from star_end.prems show ?case by (rule parse_cases(8)) (auto dest!: star_end.IH)
next
  case (star_more t e s s1 x)
  from star_more.prems show ?case by (rule parse_cases(8)) (auto dest!: star_more.IH)
next
  case (opt_present t e s s1)
  from opt_present.prems show ?case by (rule parse_cases(10)) (auto dest!: opt_present.IH)
next
  case (opt_absent t s e)
  from opt_absent.prems show ?case by (rule parse_cases(10)) (auto dest!: opt_absent.IH)
next
  case (not_holds t s e)
  from not_holds.prems show ?case by (rule parse_cases(11)) (auto dest!: not_holds.IH)
next
  case (not_fails t e s s1)
  from not_fails.prems show ?case by (rule parse_cases(11)) (auto dest!: not_fails.IH)
next
  case (nl t e s x)
  from nl.prems show ?case by (rule parse_cases(5)) (rule nl.IH)
next
  case (plus t e s x)
  from plus.prems show ?case by (rule parse_cases(9)) (rule plus.IH)
next
  case (as_term t s e x)
  from as_term.prems show ?case by (rule parse_cases(12)) (rule as_term.IH)
next
  case (rule_body r t s x)
  from rule_body.prems show ?case by (rule parse_cases(13)) (rule rule_body.IH)
qed ((erule parse_cases(1) parse_cases(2) parse_cases(3) parse_cases(4); simp only:)+)

interpretation least: parser_library peg_parses
  by unfold_locales (fact peg_unambiguous peg_parses.intros)+

section \<open>Properties\<close>

text \<open>
  C35. A string literal ends at the first quote that no backslash precedes, where backslashes and quotes
  are paired from the left; without such a quote it is no literal.  So a literal cannot end in a
  backslash.
\<close>

theorem string_literal_extent:
  assumes "parser_library m"
  shows "m True (Ref r_string) s x \<longleftrightarrow> x = string_literal s"
  by (rule parser_library.unique [OF assms parser_library.string_rest [OF assms]])

lemma string_literal_extent_witness:
  "peg_parses True (Ref r_string) (quote # ''a'' @ [backslash, quote] @ ''b'' @ quote # '';'') (Some '';'') \<and>
   peg_parses True (Ref r_string) (quote # ''a'' @ [backslash, quote]) None"
  using string_literal_extent [OF least.parser_library_axioms] by (simp add: string_literal_def)

text \<open>
  C37. The escape for a quote is accepted and not replaced: the literal is matched to its last quote, and the
  string of its node still has the backslash.
\<close>

theorem escaped_quote_kept:
  assumes "parser_library m" and "list_all (\<lambda>c. c \<noteq> backslash \<and> c \<noteq> quote) (b1 @ b2)"
  shows "m True (Ref r_string) (quote # b1 @ [backslash, quote] @ b2 @ quote # rest) (Some rest) \<and>
    unescape (b1 @ [backslash, quote] @ b2) = b1 @ [backslash, quote] @ b2"
proof
  have skip: "list_all (\<lambda>c. c \<noteq> backslash \<and> c \<noteq> quote) b \<Longrightarrow> to_quote (b @ s) = to_quote s" for b s
    by (induction b) auto
  have "string_literal (quote # b1 @ [backslash, quote] @ b2 @ quote # rest) = Some rest"
    using assms(2) by (simp add: string_literal_def skip)
  then show "m True (Ref r_string) (quote # b1 @ [backslash, quote] @ b2 @ quote # rest) (Some rest)"
    using parser_library.string_rest [OF assms(1)] by metis
  have none: "list_all (\<lambda>c. c \<noteq> backslash) b \<Longrightarrow> find_escape b = None" for b
    by (induction b rule: find_escape.induct) auto
  have "list_all (\<lambda>c. c \<noteq> backslash) b1 \<Longrightarrow> find_escape (b1 @ backslash # quote # b2) = None"
    using assms(2) none [of "quote # b2"]
  proof (induction b1)
    case (Cons c b1)
    then show ?case by (cases b1) (auto simp: list_all_iff)
  qed (auto simp: list_all_iff)
  then have "find_escape (b1 @ [backslash, quote] @ b2) = None" using assms(2) by (simp add: list_all_iff)
  then show "unescape (b1 @ [backslash, quote] @ b2) = b1 @ [backslash, quote] @ b2"
    by (subst unescape.simps) simp
qed

lemma escaped_quote_kept_witness:
  "peg_parses True (Ref r_string) (quote # ''a'' @ [backslash, quote] @ ''b'' @ quote # '';'') (Some '';'') \<and>
   unescape (''a'' @ [backslash, quote] @ ''b'') = ''a'' @ [backslash, quote] @ ''b''"
  by (rule escaped_quote_kept [OF least.parser_library_axioms]) simp

text \<open>
  C36. What is a comment: from \<open>/*\<close> to the next \<open>*/\<close>, or from \<open>//\<close> to the end of the line, which has to be
  there.  So a line that the driver reads at its prompt, which has no end of line, cannot end in such a
  comment, nor can a file without a newline at its end.
\<close>

theorem comment_extent:
  assumes "parser_library m"
  shows "m True (Ref r_comment) s x \<longleftrightarrow> x = comment_end s"
  by (rule parser_library.unique [OF assms parser_library.comment_rest [OF assms]])

lemma comment_extent_witness:
  "peg_parses True (Ref r_comment) ''/* a // b */c'' (Some ''c'') \<and> peg_parses True (Ref r_comment) ''// c'' None"
  using comment_extent [OF least.parser_library_axioms] by (simp add: comment_end_def)

text \<open>
  A keyword ends where its letters end: a statement that consists of a variable whose name starts with
  \<open>var\<close> is read as the declaration of a variable with the rest of the name, although the whole name is an
  identifier.
\<close>

theorem keyword_splits_identifier:
  assumes "parser_library m" and "letter_char c \<or> c = CHR ''_''" and "list_all name_char cs"
  shows "m False (Ref r_decl) (''var'' @ c # cs @ '';'' @ rest) (Some rest) \<and>
    m False (Ref r_statement) (''var'' @ c # cs @ '';'' @ rest) (Some rest) \<and>
    m False (Ref r_identifier) (''var'' @ c # cs @ '';'' @ rest) (Some ('';'' @ rest))"
proof -
  have "name_char c" using assms(2) by (auto simp: name_char_def)
  moreover have "dropWhile name_char (cs @ '';'' @ rest) = '';'' @ rest"
    using assms(3) by (induction cs) (auto simp: name_char_def letter_char_def)
  ultimately have "identifier_end (''var'' @ c # cs @ '';'' @ rest) = Some ('';'' @ rest)"
    by (simp add: identifier_end_def) (simp add: name_char_def letter_char_def)
  then show ?thesis
    using parser_library.split_name [OF assms]
      parser_library.identifier_rest [OF assms(1), of False "''var'' @ c # cs @ '';'' @ rest"]
    by (simp add: solid_def)
qed

lemma keyword_splits_identifier_witness:
  "peg_parses False (Ref r_decl) ''variable;'' (Some []) \<and> peg_parses False (Ref r_statement) ''variable;'' (Some []) \<and>
   peg_parses False (Ref r_identifier) ''variable;'' (Some '';'')"
  using keyword_splits_identifier [OF least.parser_library_axioms, of "CHR ''i''" "''able''" "[]"]
  by (simp add: letter_char_def name_char_def)

end
