(* ===== verification/Departures.thy ===== *)
theory Departures
  imports Leaving
begin

text \<open>
  Where compiled code departs: the code that the compiler has emitted up to some point departs from
  the interpreter only at instructions emitted up to that point, and the patchpoint of a call is
  emitted with the code of that call.
\<close>

section \<open>The code emitted so far\<close>

text \<open>The blocks that are reserved are empty, and those that have been left are in their final form.\<close>

definition clean :: "builder \<Rightarrow> bool" where
  "clean B \<longleftrightarrow> wf_builder B \<and> (\<forall>b \<in> pending B. function_blocks B ! b = empty_block)"

lemma clean_emitting:
  assumes "emitting N B B'" and "clean B"
  shows "clean B'"
proof -
  have wf: "wf_builder B" using assms(2) by (simp add: clean_def)
  note e = assms(1) [unfolded emitting_def, rule_format, OF wf]
  have "function_blocks B' ! b = empty_block" if "b \<in> pending B'" for b
  proof (cases "b \<in> N")
    case False
    then have "b \<in> pending B" using that e by blast
    moreover from this have "function_blocks B' ! b = function_blocks B ! b" using e by (simp add: pending_def)
    ultimately show ?thesis using assms(2) by (simp add: clean_def)
  qed (use e in blast)
  then show ?thesis using e by (simp add: clean_def)
qed

lemma clean_new: "clean (new_builder D c)"
  by (auto simp: clean_def wf_builder_def new_builder_def pending_def)

text \<open>What runs in the code emitted so far runs the same in the final function.\<close>

lemma emitted_block:
  assumes "clean B" and "final B f" and "b < length (function_blocks B)"
  shows "b < length f" and "\<exists>ks. instrs (f ! b) = instrs (function_blocks B ! b) @ ks"
    and "terminator (function_blocks B ! b) \<noteq> None \<Longrightarrow> f ! b = function_blocks B ! b"
proof -
  let ?g = "function_blocks B"
  have wf: "wf_builder B" using assms(1) by (simp add: clean_def)
  have cases: "f ! b = ?g ! b \<or> terminator (?g ! b) = None \<and> (insert_point B = Some b \<or> ?g ! b = empty_block)"
    using assms wf
    by (cases "insert_point B = Some b"; cases "terminator (?g ! b)") (simp_all add: clean_def final_def pending_def wf_builder_def)
  show "b < length f" using assms(2,3) by (simp add: final_def)
  show "\<exists>ks. instrs (f ! b) = instrs (?g ! b) @ ks"
    using cases assms(2) by (cases "insert_point B = Some b") (auto simp: final_def)
  show "terminator (?g ! b) \<noteq> None \<Longrightarrow> f ! b = ?g ! b" using cases by auto
qed

lemma emitted_step:
  assumes "clean B" and "final B f" and "Generated_Code.step m (function_blocks B) b i r d = Inr (cfg, d')"
  shows "Generated_Code.step m f b i r d = Inr (cfg, d')"
proof -
  let ?g = "function_blocks B"
  have b: "b < length ?g" using assms(3) by (auto simp: Generated_Code.step_def sem_simps split: if_splits)
  note same = emitted_block [OF assms(1,2) b]
  show ?thesis
  proof (cases "i < length (instrs (?g ! b))")
    case True
    obtain ks where ks: "instrs (f ! b) = instrs (?g ! b) @ ks" using same(2) by blast
    then have "i < length (instrs (f ! b))" "instrs (f ! b) ! i = instrs (?g ! b) ! i"
      using True by (simp_all add: nth_append)
    then show ?thesis using assms(3) b same(1) True by (simp add: Generated_Code.step_def)
  next
    case False
    then have t: "take_terminator r (terminator (?g ! b)) d = Inr (cfg, d')"
      using assms(3) b by (simp add: Generated_Code.step_def)
    then have "f ! b = ?g ! b" by (intro same(3)) (cases "terminator (?g ! b)"; simp add: sem_simps)
    then show ?thesis using t False same(1) by (simp add: Generated_Code.step_def)
  qed
qed

lemma emitted_reaches:
  assumes "clean B" and "final B f"
  shows "reaches m (function_blocks B) cfg d cfg' d' \<Longrightarrow> reaches m f cfg d cfg' d'"
  by (induction rule: reaches.induct) (blast intro: reaches.intros emitted_step [OF assms])+

section \<open>Patchpoints\<close>

fun patches :: "node \<Rightarrow> instr \<Rightarrow> bool" where
  "patches n (Patchpoint vs) \<longleftrightarrow> vs \<noteq> [] \<and> hd vs = Const (Word n)"
| "patches n _ \<longleftrightarrow> False"

text \<open>The run departs at another instruction than the patchpoint of \<open>n\<close>.\<close>

definition departs_elsewhere :: "machine \<Rightarrow> ir \<Rightarrow> node \<Rightarrow> config \<Rightarrow> ctx \<Rightarrow> bool" where
  "departs_elsewhere m f n cfg d \<longleftrightarrow> (\<exists>b i r d'. reaches m f cfg d (At b i r) d' \<and> b < length f \<and>
     i < length (instrs (f ! b)) \<and> parting r (snd (instrs (f ! b) ! i)) \<and> \<not> patches n (snd (instrs (f ! b) ! i)))"

lemma elsewhere_later: "reaches m f cfg d cfg' d' \<Longrightarrow> departs_elsewhere m f n cfg' d' \<Longrightarrow> departs_elsewhere m f n cfg d"
  unfolding departs_elsewhere_def by (blast intro: reaches_trans)

definition unpatched :: "node \<Rightarrow> builder \<Rightarrow> bool" where
  "unpatched n B \<longleftrightarrow> (\<forall>b < length (function_blocks B). \<forall>p \<in> set (instrs (function_blocks B ! b)). \<not> patches n (snd p))"

lemma departs_before:
  assumes "departs m (function_blocks B) cfg d" and "clean B" and "final B f" and "unpatched n B"
  shows "departs_elsewhere m f n cfg d"
proof -
  let ?g = "function_blocks B"
  obtain b i r d' where a: "reaches m ?g cfg d (At b i r) d'" "b < length ?g" "i < length (instrs (?g ! b))"
    "parting r (snd (instrs (?g ! b) ! i))"
    using assms(1) unfolding departs_def by blast
  obtain ks where ks: "instrs (f ! b) = instrs (?g ! b) @ ks" using emitted_block(2) [OF assms(2,3) a(2)] by blast
  have "instrs (f ! b) ! i = instrs (?g ! b) ! i" "i < length (instrs (f ! b))"
    using a(3) by (simp_all add: ks nth_append)
  moreover have "\<not> patches n (snd (instrs (?g ! b) ! i))" using assms(4) a(2,3) by (simp add: unpatched_def)
  ultimately show ?thesis
    unfolding departs_elsewhere_def
    using emitted_reaches [OF assms(2,3) a(1)] emitted_block(1) [OF assms(2,3) a(2)] a(4) by metis
qed

section \<open>Code without the patchpoint of a call\<close>

text \<open>Parts of the walk that add no patchpoint of \<open>n\<close>, and leave what is known of the functions alone.\<close>

definition spares :: "node \<Rightarrow> builder \<Rightarrow> builder \<Rightarrow> bool" where
  "spares n B B' \<longleftrightarrow> (unpatched n B \<longrightarrow> unpatched n B') \<and> closure_decls (rt B') = closure_decls (rt B)"

interpretation sparing: effect "spares n" for n
  by unfold_locales (auto simp: spares_def)

definition same_decls :: "ctx \<Rightarrow> ctx \<Rightarrow> bool" where
  "same_decls c c' \<longleftrightarrow> closure_decls c' = closure_decls c"

interpretation deciding: effect same_decls
  by unfold_locales (auto simp: same_decls_def)

lemma spares_create:
  assumes "\<not> patches n ins"
  shows "within (spares n) (create ins)"
  using assms
  by (auto simp: within_def spares_def unpatched_def create_def append_instr_def sem_simps nth_list_update
      not_le split: option.splits if_splits)

lemma spares_control:
  "within (spares n) (create_terminator t)" "within (spares n) create_block" "within (spares n) (SetInsertPoint b)"
  "within (spares n) ClearInsertionPoint" "within (spares n) (set_csymbol x v)"
  by (auto simp: within_def spares_def unpatched_def create_terminator_def create_block_def set_csymbol_def sem_simps
      nth_list_update nth_append less_Suc_eq not_le split: option.splits if_splits)

lemma spares_runtime: "within same_decls r \<Longrightarrow> within (spares n) (on_runtime r)"
  by (auto simp: within_def spares_def unpatched_def same_decls_def on_runtime_def split: sum.splits)

lemma decls_kept:
  "within same_decls (decl_at k)" "within same_decls (lookupClass nm)"
  "within same_decls (Runtime.lookupSelector x)" "within same_decls (cached_string E k st)"
proof -
  have "only_mem c c' \<Longrightarrow> same_decls c c'" for c c' by (auto simp: only_mem_def same_decls_def)
  then have mem: "within only_mem r \<Longrightarrow> within same_decls r" for r :: "'b run" by (auto simp: within_def)
  show "within same_decls (cached_string E k st)"
    unfolding cached_string_def set_cache_def
    by (intro deciding.within_intros mem only_mem_steps deciding.within_modify) (simp add: same_decls_def)
  show "within same_decls (decl_at k)" by (simp add: decl_at_def deciding.within_leaf)
qed (auto simp: within_def same_decls_def lookupClass_def Runtime.lookupSelector_def Let_def split: option.splits prod.splits)


lemmas sparing_intros = sparing.within_intros spares_create spares_control
  decls_kept [THEN spares_runtime] deciding.within_leaf(2) [THEN spares_runtime]

lemma spares_helpers:
  "within (spares n) (create_store v p)" "within (spares n) reset_jit_function"
  "within (spares n) (getAsObject v)" "within (spares n) (getAsSmallInt v)"
  "within (spares n) (small_int_of v)" "within (spares n) (compileBinOp op l r)"
  "within (spares n) (compile_string E k st)" "within (spares n) (compile_new cname)"
  "within (spares n) (compile_closure_call ob as)" "within (spares n) (compile_guard a ob h miss)"
  "within (spares n) (compile_fast_path k s ob sel as)" "within (spares n) (the_symbol x)"
  "within (spares n) (lookupSymbolAddr x)" "within (spares n) (condition_test v)"
  unfolding create_store_def reset_jit_function_def getAsObject_def getAsSmallInt_def small_int_of_def
    compileBinOp_def compile_compare_def compileBinaryOp_def compile_string_def compile_new_def
    compile_closure_call_def compile_guard_def compile_fast_path_def the_symbol_def lookupSymbolAddr_def
    condition_test_def
  by (intro sparing_intros; simp)+

text \<open>The first operand of a patchpoint is the node of its call.\<close>

lemma patchpoint_node:
  assumes "patchpoint_operands k B = Inr (ops, B')"
  shows "hd ops = Const (Word k) \<and> ops \<noteq> [] \<and> B' = B"
proof -
  let ?or = "\<lambda>x. Some (case csymbols B x of Some v \<Rightarrow> v | None \<Rightarrow> Const (Word 0))"
    and ?info = "closure_decls (rt B) (decl_node (compiling B))"
  have "the_operands ([Some (Const (Word k)), ?or ''self'', ?or ''cmd''] @ map (csymbols B) (decl_params (compiling B)) @
      map (csymbols B) (di_decls ?info) @ map (csymbols B) (di_boundVars ?info)) B = Inr (ops, B')"
    using assms by (simp add: patchpoint_operands_def on_runtime_def sem_simps)
  from operands_apply [OF this] show ?thesis by (auto simp: map_eq_Cons_conv)
qed

lemma spares_call:
  assumes "k \<noteq> n"
  shows "within (spares n) (compile_method_call k ob sel as)"
proof -
  have "within (spares n) (compile_slow_path k)"
  proof (rule withinI)
    fix B B' u
    assume "compile_slow_path k B = Inr (u, B')"
    then obtain ops B1 where b: "patchpoint_operands k B = Inr (ops, B1)"
      "bind (create (Patchpoint ops)) (\<lambda>v. bind (getAsObject v) (\<lambda>v. create_terminator (Ret v))) B1 = Inr (u, B')"
      unfolding compile_slow_path_def by (rule bind_InrE)
    note ops = patchpoint_node [OF b(1)]
    have "within (spares n) (bind (create (Patchpoint ops)) (\<lambda>v. bind (getAsObject v) (\<lambda>v. create_terminator (Ret v))))"
      using ops assms by (intro sparing_intros spares_helpers) simp
    from withinD [OF this b(2)] show "spares n B B'" using ops by simp
  qed
  then show ?thesis unfolding compile_method_call_def by (intro sparing_intros spares_helpers) simp_all
qed

section \<open>The calls in a piece of the tree\<close>

primrec called :: "expr \<Rightarrow> node set"
  and called_init :: "expr option \<Rightarrow> node set"
  and called_args :: "expr list \<Rightarrow> node set"
  and called_stmt :: "stmt \<Rightarrow> node set"
  and called_all :: "stmt list \<Rightarrow> node set"
where
  "called (Number k v) = {}"
| "called (StringLiteral k st) = {}"
| "called (BinOp k op l r) = called l \<union> called r"
| "called (VarRef k x) = {}"
| "called (Call k callee meth args) = insert k (called callee \<union> called_args args)"
| "called (ClosureExpr D) = {}"
| "called (NewExpr k c) = {}"
| "called_init None = {}"
| "called_init (Some e) = called e"
| "called_args [] = {}"
| "called_args (a # as) = called a \<union> called_args as"
| "called_stmt (ExprStmt e) = called e"
| "called_stmt (Assignment k x e) = called e"
| "called_stmt (Decl k x init) = called_init init"
| "called_stmt (Return k e) = called e"
| "called_stmt (IfStatement k e body) = called e \<union> called_all body"
| "called_stmt (WhileLoop k e body) = called e \<union> called_all body"
| "called_stmt (ClassDecl k nm sn ivs Ds) = {}"
| "called_all [] = {}"
| "called_all (s # ss) = called_stmt s \<union> called_all ss"

lemma spares_args: "(\<And>a. a \<in> set as \<Longrightarrow> within (spares n) (compile_expr E a)) \<Longrightarrow> within (spares n) (compile_args E as)"
  by (induction as) (simp_all add: sparing_intros spares_helpers)

lemma called_argsD: "n \<notin> called_args as \<Longrightarrow> a \<in> set as \<Longrightarrow> n \<notin> called a"
  by (induction as) auto

lemma spares_expr: "fits F e \<Longrightarrow> n \<notin> called e \<Longrightarrow> within (spares n) (compile_expr E e)"
proof (induction F e rule: fits.induct)
  case (6 F k callee meth args)
  have "within (spares n) (compile_args E args)"
    by (rule spares_args) (use 6 called_argsD in auto)
  then show ?case
    using 6 unfolding compile_expr.simps by (intro sparing_intros spares_helpers spares_call) auto
qed (auto intro!: sparing_intros spares_helpers)

lemma spares_statements:
  "fits_stmt F s \<Longrightarrow> n \<notin> called_stmt s \<Longrightarrow> within (spares n) (compile_stmt E s)"
  "fits_stmts F ss \<Longrightarrow> n \<notin> called_all ss \<Longrightarrow> within (spares n) (compile_stmts E ss)"
  by (induction F s and F ss rule: fits_stmt_fits_stmts.induct)
    (auto intro!: sparing_intros spares_helpers spares_expr)

end
