(* ===== verification/Reaching_Calls.thy ===== *)
theory Reaching_Calls
  imports Departures
begin

text \<open>
  The way to a call: compiled code that runs the statements before a call as the interpreter does
  comes to the code of that call in the state in which the interpreter comes to the call, unless it
  departs before.
\<close>

section \<open>The call of a node\<close>

text \<open>The callee, the name of the method and the arguments of the call that the search resumes at.\<close>

type_synonym call = "expr \<times> string option \<times> expr list"

primrec spine_call :: "node \<Rightarrow> expr \<Rightarrow> call option" where
  "spine_call n (Number k v) = None"
| "spine_call n (StringLiteral k st) = None"
| "spine_call n (BinOp k op l r) = spine_call n l"
| "spine_call n (VarRef k x) = None"
| "spine_call n (Call k callee meth args) = (if k = n then Some (callee, meth, args) else spine_call n callee)"
| "spine_call n (ClosureExpr D) = None"
| "spine_call n (NewExpr k c) = None"

primrec call_of :: "node \<Rightarrow> stmt \<Rightarrow> call option"
  and call_of_all :: "node \<Rightarrow> stmt list \<Rightarrow> call option"
where
  "call_of n (ExprStmt e) = spine_call n e"
| "call_of n (Assignment k x e) = spine_call n e"
| "call_of n (Decl k x init) = (case init of None \<Rightarrow> None | Some e \<Rightarrow> spine_call n e)"
| "call_of n (Return k e) = spine_call n e"
| "call_of n (IfStatement k b body) = call_of_all n body"
| "call_of n (WhileLoop k b body) = call_of_all n body"
| "call_of n (ClassDecl k nm sn ivs Ds) = None"
| "call_of_all n [] = None"
| "call_of_all n (s # ss) = (if n \<in> visited s then call_of n s else call_of_all n ss)"

text \<open>The code of the call comes first in the code of its expression and of its statement.\<close>

definition compile_call :: "env \<Rightarrow> node \<Rightarrow> call \<Rightarrow> operand build" where
  "compile_call E n x = (case x of (callee, meth, args) \<Rightarrow> compile_expr E (Call n callee meth args))"

lemma call_part:
  "within part (case meth of None \<Rightarrow> bind (compile_args E args) (compile_closure_call ob)
     | Some name \<Rightarrow> bind (on_runtime (Runtime.lookupSelector name)) (\<lambda>sel.
         bind (compile_args E args) (compile_method_call n ob (Const (Word (ucast sel))))))"
  by (intro parts.within_intros part_steps growing_steps method_call_part)

lemma call_first:
  assumes "spine_call n e = Some x"
  shows "\<exists>g. compile_expr E e = bind (compile_call E n x) g \<and> (\<forall>v. within part (g v))"
  using assms
proof (induction e)
  case (BinOp k op l r)
  then obtain g where g: "compile_expr E l = bind (compile_call E n x) g" "\<And>v. within part (g v)" by auto
  show ?case
    by (rule exI [of _ "\<lambda>v. bind (g v) (\<lambda>LHS. bind (compile_expr E r) (\<lambda>RHS. compileBinOp op LHS RHS))"])
      (auto simp: g(1) bind_assoc intro!: parts.within_intros g(2) part_steps)
next
  case (Call k callee meth args)
  show ?case
  proof (cases "k = n")
    case True
    then have "compile_expr E (Call k callee meth args) = bind (compile_call E n x) return"
      using Call.prems by (auto simp: fun_eq_iff compile_call_def sem_simps split: sum.split)
    then show ?thesis using parts.within_leaf(1) by blast
  next
    case False
    then obtain g where g: "compile_expr E callee = bind (compile_call E n x) g" "\<And>v. within part (g v)"
      using Call by auto
    show ?thesis
      unfolding compile_expr.simps g(1) bind_assoc
      by (rule exI, rule conjI [OF HOL.refl]) (intro allI parts.within_intros g(2) part_steps call_part)
  qed
qed simp_all

lemma call_starts:
  assumes "call_of n s = Some x" and "\<not> is_block s" and "compile_stmt E s B = Inr ((), B')"
  obtains v C where "compile_call E n x B = Inr (v, C)" and "emitting {} C B'" and "rt_grows (rt C) (rt B')"
proof -
  have through: "\<exists>v C. compile_call E n x B = Inr (v, C) \<and> emitting {} C B1 \<and> rt_grows (rt C) (rt B1)"
    if e: "spine_call n e = Some x" and h: "bind (compile_expr E e) h B = Inr (u, B1)" "\<And>v. within part (h v)"
    for e B1 and h :: "operand \<Rightarrow> 'a build" and u
  proof -
    obtain g where g: "compile_expr E e = bind (compile_call E n x) g" "\<And>v. within part (g v)"
      using call_first [OF e, of E] by blast
    obtain v C where C: "compile_call E n x B = Inr (v, C)" "bind (g v) h C = Inr (u, B1)"
      using h(1) unfolding g(1) bind_assoc by (rule bind_InrE)
    have "part C B1" by (rule withinD [OF parts.within_bind [OF g(2) h(2)] C(2)])
    then show ?thesis using C(1) by (auto simp: part_def numbers_def)
  qed
  have assign: "\<exists>v C. compile_call E n x B = Inr (v, C) \<and> emitting {} C B' \<and> rt_grows (rt C) (rt B')"
    if "spine_call n e = Some x" "bind (gets (\<lambda>B. csymbols B y)) (\<lambda>a. seq (assert (a \<noteq> None))
     (bind (compile_expr E e) (\<lambda>v. bind (getAsObject v) (\<lambda>v. bind (the_symbol y) (create_store v))))) B = Inr ((), B')" for e y
    by (rule through [OF that(1), of "\<lambda>v. bind (getAsObject v) (\<lambda>v. bind (the_symbol y) (create_store v))" "()"])
      (use that(2) in \<open>auto simp: sem_simps intro!: parts.within_intros part_steps split: if_splits\<close>)
  have "\<exists>v C. compile_call E n x B = Inr (v, C) \<and> emitting {} C B' \<and> rt_grows (rt C) (rt B')"
  proof (cases s)
    case (ExprStmt e)
    then show ?thesis
      by (intro through [of e "\<lambda>_. return ()" "()"]) (use assms in \<open>auto intro: parts.within_leaf\<close>)
  next
    case (Return k e)
    obtain w B2 B3 where b: "bind (compile_expr E e) getAsObject B = Inr (w, B2)"
      "create_terminator (Ret w) B2 = Inr ((), B3)" "B' = B3\<lparr>insert_point := None\<rparr>"
      using assms(3) unfolding Return by (auto simp: sem_simps split: sum.splits)
    obtain v C where C: "compile_call E n x B = Inr (v, C)" "emitting {} C B2" "rt_grows (rt C) (rt B2)"
      using through [of e getAsObject w B2] assms(1) b(1) Return part_steps(9) by auto
    have "emitting {} C B'"
    proof (cases "wf_builder C")
      case True
      then show ?thesis using emitting_leave(1) [OF C(2) b(2,3)] by simp
    qed (simp add: emitting_def)
    then show ?thesis using C control_same(1) [OF b(2)] b(3) by auto
  qed (use assms assign in \<open>auto split: option.splits\<close>)
  then show thesis using that by blast
qed

section \<open>The statements before the call\<close>

text \<open>
  What lies before the call at \<open>n\<close> fits, and so do its callee and its arguments; there is no other call
  at \<open>n\<close>, and the call is in no loop.
\<close>

fun fits_call :: "frame \<Rightarrow> node \<Rightarrow> call option \<Rightarrow> bool" where
  "fits_call F n (Some (callee, meth, args)) \<longleftrightarrow>
     n \<in> inner F \<and> fits F callee \<and> (\<forall>a \<in> set args. fits F a) \<and> n \<notin> called callee \<and> n \<notin> called_args args"
| "fits_call F n None \<longleftrightarrow> False"

fun fits_to :: "frame \<Rightarrow> node \<Rightarrow> stmt \<Rightarrow> bool" and fits_before :: "frame \<Rightarrow> node \<Rightarrow> stmt list \<Rightarrow> bool" where
  "fits_to F n (IfStatement k e body) \<longleftrightarrow> fits F e \<and> n \<notin> called e \<and> n \<in> visited_all body \<and> fits_before F n body"
| "fits_to F n (WhileLoop k e body) \<longleftrightarrow> False"
| "fits_to F n s \<longleftrightarrow> fits_call F n (call_of n s)"
| "fits_before F n [] \<longleftrightarrow> False"
| "fits_before F n (s # ss) \<longleftrightarrow>
     (if n \<in> visited s then fits_to F n s else fits_stmt F s \<and> n \<notin> called_stmt s \<and> fits_before F n ss)"

lemma fits_to_simple: "\<not> is_block s \<Longrightarrow> fits_to F n s \<longleftrightarrow> fits_call F n (call_of n s)"
  by (cases s) auto

text \<open>A run that comes to \<open>n\<close> has gone through the statements before it.\<close>

lemma reach_starts: "reach m n ss c d \<Longrightarrow> \<not> isReturning c"
  by (cases rule: reach.cases) auto

lemma reach_past:
  assumes "reach m n ss' c d" and "ss' = s # ss" and "n \<notin> visited s" and "interpret_stmt m s c = Inr ((), e)"
  shows "reach m n ss e d"
  using assms
proof (induction)
  case (while_again c b v c1 body c2 k ss' d)
  obtain c3 where "interpret_stmts m body c1 = Inr ((), c3)" "interpret_stmt m (WhileLoop k b body) c3 = Inr ((), e)"
    using while_again.prems while_again.hyps by (auto elim: loop_iteration)
  then show ?case using while_again by simp
qed auto

lemma interpret_first:
  assumes "interpret_stmts m (s # ss) c = Inr r" and "\<not> isReturning c"
  obtains e where "interpret_stmt m s c = Inr ((), e)" and "interpret_stmts m ss e = Inr r"
  using assms by (auto simp: evaluation_simps sem_simps split: sum.splits)

text \<open>
  The run has come to the code of the call, in the state \<open>c\<close> of the interpreter; the code emitted so
  far has no patchpoint of \<open>n\<close>.
\<close>

definition arrives :: "machine \<Rightarrow> ir \<Rightarrow> frame \<Rightarrow> node \<Rightarrow> call \<Rightarrow> ctx \<Rightarrow> builder \<Rightarrow> config \<Rightarrow> ctx \<Rightarrow> bool" where
  "arrives m f F n x c A cfg d \<longleftrightarrow> (\<exists>B v B' r d'. compile_call (m_env m) n x B = Inr (v, B') \<and> clean B \<and>
     insert_point B \<noteq> None \<and> final B' f \<and> rt_grows (rt B') (linked F) \<and> unpatched n B \<and>
     closure_decls (rt B) = closure_decls (rt A) \<and> compiling B = compiling A \<and>
     reaches m f cfg d (point B r) d' \<and> located F B r \<and> corr F c d')"

lemma arrives_later:
  assumes "arrives m f F n x c A' cfg' d'" and "reaches m f cfg d cfg' d'"
    and "closure_decls (rt A') = closure_decls (rt A)" and "compiling A' = compiling A"
  shows "arrives m f F n x c A cfg d"
  using assms unfolding arrives_def by (metis reaches_trans)

lemma arrives_here:
  assumes "call_of n s = Some x" and "\<not> is_block s" and "n \<in> visited s" and "reach m n (s # ss) c0 c"
    and "compile_stmt (m_env m) s B = Inr ((), B')"
    and "clean B" "insert_point B \<noteq> None" and "final B' f" and "rt_grows (rt B') (linked F)" and "unpatched n B"
    and "located F B r" and "corr F c0 d"
  shows "arrives m f F n x c B (point B r) d"
proof -
  have "c = c0" using assms(4,2,3) by (cases rule: reach.cases) auto
  obtain v C where C: "compile_call (m_env m) n x B = Inr (v, C)" "emitting {} C B'" "rt_grows (rt C) (rt B')"
    by (rule call_starts [OF assms(1,2,5)])
  have "emitting {} B C"
    using withinD [OF compiling_emits(1)] C(1) by (cases x) (simp only: compile_call_def prod.case)
  then have "wf_builder C" using assms(6) emitting_wf by (auto simp: clean_def)
  then have "final C f" by (rule final_back [OF C(2) assms(8)])
  then show ?thesis
    unfolding arrives_def \<open>c = c0\<close> using C(1) growing.trans [OF C(3) assms(9)] assms(6,7,10-12) reaches.here by blast
qed

lemma if_entered:
  assumes "fits F e" and "machine_fits m F" and "cached m e (evaluateExpr m e) c = Inr (x, c1)" and "interpretedTruth x"
    and "n \<notin> called e" and run: "compile_stmt (m_env m) (IfStatement k e body) B = Inr ((), B')"
    and "clean B" "insert_point B \<noteq> None" and "final B' f" and "rt_grows (rt B') (linked F)" and "unpatched n B"
    and "located F B r" and "corr F c d"
  obtains (elsewhere) "departs_elsewhere m f n (point B r) d"
  | (body) A B6 r1 d1 where "compile_stmts (m_env m) body A = Inr ((), B6)" and "clean A" and "insert_point A \<noteq> None"
      and "final B6 f" and "rt_grows (rt B6) (linked F)" and "unpatched n A" and "closure_decls (rt A) = closure_decls (rt B)"
      and "compiling A = compiling B" and "reaches m f (point B r) d (point A r1) d1" and "located F A r1" and "corr F c1 d1"
proof -
  have wf: "wf_builder B" using assms(7) by (simp add: clean_def)
  obtain v B1 cont B2 ifBody B3 t B4 B5 A B6 B7 where s:
    "compile_expr (m_env m) e B = Inr (v, B1)" "create_block B1 = Inr (cont, B2)" "create_block B2 = Inr (ifBody, B3)"
    "condition_test v B3 = Inr (t, B4)" "create_terminator (CondBr t ifBody cont) B4 = Inr ((), B5)"
    "A = B5\<lparr>insert_point := Some ifBody\<rparr>" "compile_stmts (m_env m) body A = Inr ((), B6)"
    "wf_builder B3" "insert_point B3 \<noteq> None" "walks B1 B3" "\<And>k. point B3 k = point B1 k"
    "\<And>g. final A g \<Longrightarrow> final B1 g" "ifBody \<in> pending B4" "emitting {} B B1" "emitting {cont} B1 A"
    "\<And>k. point A k = At ifBody 0 k" "final A f" "final B6 f" "walks B B4" "walks B4 A" "walks A B6" "walks B6 B'"
    by (rule if_shape [OF run wf assms(8,9)]) (rule that; assumption)
  have "clean A" by (rule clean_emitting [OF s(15) clean_emitting [OF s(14) assms(7)]])
  have "spares n B B5"
    by (rule sparing.trans [OF sparing.trans [OF sparing.trans [OF sparing.trans [OF withinD [OF spares_expr [OF assms(1,5)] s(1)]
          withinD [OF spares_control(2) s(2)]] withinD [OF spares_control(2) s(3)]] withinD [OF spares_helpers(14) s(4)]]
          withinD [OF spares_control(1) s(5)]])
  moreover have "unpatched n A \<longleftrightarrow> unpatched n B5" "rt A = rt B5" by (simp_all add: s(6) unpatched_def)
  ultimately have spare: "unpatched n A" "closure_decls (rt A) = closure_decls (rt B)"
    using assms(11) unfolding spares_def by simp_all
  have same: "compiling A = compiling B" using s(19,20) by (simp add: walks_def numbers_def)
  note rt6 = walked_back(1) [OF s(22) assms(10)]
  note rtA = walked_back(1) [OF s(21) rt6]
  have rt5: "rt_grows (rt B5) (linked F)" using rtA by (simp add: s(6))
  have finA: "final (B5\<lparr>insert_point := Some ifBody\<rparr>) (function_blocks A)" by (simp add: s(6) final_def)
  have P: "located F B r \<and> corr F c d" using assms(12,13) by simp
  have fin1: "final B1 (function_blocks A)" by (rule s(12)) (simp add: final_def)
  let ?g = "function_blocks A"
  consider (departs) "departs m ?g (point B r) d" | (test) r1 d1
    where "reaches m ?g (point B r) d (At ifBody 0 r1) d1" "located F B4 r1" "corr F c1 d1"
    using condition_runs [OF assms(1-3) s(1,4,5) wf assms(8) s(8-11) fin1 finA s(13) rt5 P]
    unfolding if_P [OF assms(4)] by blast
  then show thesis
  proof cases
    case departs
    show thesis by (rule elsewhere [OF departs_before [OF departs \<open>clean A\<close> s(17) spare(1)]])
  next
    case test
    have "reaches m f (point B r) d (point A r1) d1"
      using emitted_reaches [OF \<open>clean A\<close> s(17) test(1)] by (simp add: s(16))
    moreover have "located F A r1" by (rule located_walked [OF test(2) s(20) agree_refl])
    ultimately show thesis
      by (intro body [OF s(7) \<open>clean A\<close> _ s(18) rt6 spare same _ _ test(3)]) (simp_all add: s(6))
  qed
qed

text \<open>The code comes to the call.\<close>

lemma comes_to_call:
  shows "fits_to F n s \<Longrightarrow> n \<in> visited s \<Longrightarrow> call_of n s = Some x \<Longrightarrow> reach m n (s # ss') c0 c \<Longrightarrow>
      interpret_stmt m s c0 = Inr ((), e) \<Longrightarrow> machine_fits m F \<Longrightarrow> compile_stmt (m_env m) s B = Inr ((), B') \<Longrightarrow> clean B \<Longrightarrow>
      insert_point B \<noteq> None \<Longrightarrow> final B' f \<Longrightarrow> rt_grows (rt B') (linked F) \<Longrightarrow> unpatched n B \<Longrightarrow> located F B r \<Longrightarrow> corr F c0 d \<Longrightarrow>
      departs_elsewhere m f n (point B r) d \<or> arrives m f F n x c B (point B r) d"
    and "fits_before F n ss \<Longrightarrow> call_of_all n ss = Some x \<Longrightarrow> reach m n ss c0 c \<Longrightarrow>
      interpret_stmts m ss c0 = Inr ((), e) \<Longrightarrow> machine_fits m F \<Longrightarrow> compile_stmts (m_env m) ss B = Inr ((), B') \<Longrightarrow> clean B \<Longrightarrow>
      insert_point B \<noteq> None \<Longrightarrow> final B' f \<Longrightarrow> rt_grows (rt B') (linked F) \<Longrightarrow> unpatched n B \<Longrightarrow> located F B r \<Longrightarrow> corr F c0 d \<Longrightarrow>
      departs_elsewhere m f n (point B r) d \<or> arrives m f F n x c B (point B r) d"
proof (induction F n s and F n ss arbitrary: ss' c0 e B B' r d and c0 e B B' r d rule: fits_to_fits_before.induct)
  case (1 F n k b body)
  have "n \<in> visited_all body" using 1(2) by simp
  with 1(5) obtain v c1 where v: "evaluate m b c0 = Inr (v, c1)" "interpretedTruth v" "reach m n body c1 c"
    by (cases rule: reach.cases) auto
  have "\<not> isReturning c0" by (rule reach_starts [OF 1(5)])
  then have ev: "cached m b (evaluateExpr m b) c0 = Inr (v, c1)" and body: "interpret_stmts m body c1 = Inr ((), e)"
    using v(1,2) 1(6) by (auto simp: evaluation_simps evaluate_def sem_simps)
  show ?case
  proof (rule if_entered [OF _ 1(7) ev v(2) _ 1(8-15)])
    fix A B6 r1 d1
    assume a: "compile_stmts (m_env m) body A = Inr ((), B6)" "clean A" "insert_point A \<noteq> None" "final B6 f"
      "rt_grows (rt B6) (linked F)" "unpatched n A" "closure_decls (rt A) = closure_decls (rt B)" "compiling A = compiling B"
      "reaches m f (point B r) d (point A r1) d1" "located F A r1" "corr F c1 d1"
    have "departs_elsewhere m f n (point A r1) d1 \<or> arrives m f F n x c A (point A r1) d1"
      by (rule 1(1) [OF _ _ v(3) body 1(7) a(1-6,10,11)]) (use 1(2,4) in simp_all)
    then show ?thesis using elsewhere_later [OF a(9)] arrives_later [OF _ a(9,7,8)] by blast
  qed (use 1(2) in auto)
next
  case (4 F n)
  then show ?case by simp
next
  case (5 F n s ss)
  obtain e1 where e1: "interpret_stmt m s c0 = Inr ((), e1)" "interpret_stmts m ss e1 = Inr ((), e)"
    by (rule interpret_first [OF 5(6) reach_starts [OF 5(5)]])
  obtain B1 where b: "compile_stmt (m_env m) s B = Inr ((), B1)" "compile_stmts (m_env m) ss B1 = Inr ((), B')"
    using 5(8,10) by (auto simp: sem_simps split: sum.splits)
  have wf: "wf_builder B" using 5(9) by (simp add: clean_def)
  have e01: "emitting {} B B1" by (rule withinD [OF compiling_emits(3) b(1)])
  note clean1 = clean_emitting [OF e01 5(9)]
  have fin1: "final B1 f" by (rule final_back [OF withinD [OF compiling_emits(5) b(2)] 5(11)]) (use clean1 in \<open>simp add: clean_def\<close>)
  note w = withinD [OF walked.walking_within(3) b(1)] withinD [OF walked.walking_within(5) b(2)]
  note rt1 = walked_back(1) [OF w(2) 5(12)]
  show ?case
  proof (cases "n \<in> visited s")
    case True
    show ?thesis
      by (rule 5(1) [OF True _ True _ 5(5) e1(1) 5(7) b(1) 5(9,10) fin1 rt1 5(13-15)]) (use 5(3,4) True in simp_all)
  next
    case False
    then have f: "fits_stmt F s" "n \<notin> called_stmt s" "fits_before F n ss" "call_of_all n ss = Some x" using 5(3,4) by simp_all
    have past: "reach m n ss e1 c" by (rule reach_past [OF 5(5) HOL.refl False e1(1)])
    have spare: "unpatched n B1" "closure_decls (rt B1) = closure_decls (rt B)"
      using withinD [OF spares_statements(1) [OF f(1,2)] b(1)] 5(13) by (auto simp: spares_def)
    have fin: "final B1 (function_blocks B1)" by (simp add: final_def)
    note sim = simulates_statements(1) [OF f(1) e1(1) reach_starts [OF 5(5)] 5(7), of "function_blocks B1"]
    show ?thesis
    proof (rule simulatesE [OF sim b(1) wf 5(10) fin rt1 5(14,15)])
      assume "departs m (function_blocks B1) (point B r) d"
      then show ?thesis using departs_before [OF _ clean1 fin1 spare(1)] by blast
    next
      assume "returned m (function_blocks B1) F (point B r) d e1"
      then show ?thesis using returned_returning reach_starts [OF past] by blast
    next
      fix r1 d1
      assume r1: "insert_point B1 \<noteq> None" "reaches m (function_blocks B1) (point B r) d (point B1 r1) d1"
        "located F B1 r1" "corr F e1 d1"
      note to1 = emitted_reaches [OF clean1 fin1 r1(2)]
      have "departs_elsewhere m f n (point B1 r1) d1 \<or> arrives m f F n x c B1 (point B1 r1) d1"
        by (rule 5(2) [OF False f(3,4) past e1(2) 5(7) b(2) clean1 r1(1) 5(11,12) spare(1) r1(3,4)])
      moreover have "compiling B1 = compiling B" using w(1) by (simp add: walks_def numbers_def)
      ultimately show ?thesis using elsewhere_later [OF to1] arrives_later [OF _ to1 spare(2)] by blast
    qed
  qed
qed (simp, (rule disjI2, rule arrives_here, assumption, simp, assumption+)+)

end
