(* ===== verification/Deoptimised.thy ===== *)
theory Deoptimised
  imports Reaching_Calls
begin

text \<open>
  A compiled method from its entry to its result when a call guard fails on the way: the code comes
  to the call, leaves it for the interpreter, and the interpreter completes the method.
\<close>

section \<open>The code of a call up to its guard\<close>

type_synonym operands = "operand \<times> selector \<times> operand list"

definition call_operands :: "env \<Rightarrow> expr \<Rightarrow> string \<Rightarrow> expr list \<Rightarrow> operands build" where
  "call_operands E callee name args =
     bind (compile_expr E callee) (\<lambda>v. bind (getAsObject v) (\<lambda>ob.
     bind (on_runtime (Runtime.lookupSelector name)) (\<lambda>sel.
     bind (compile_args E args) (\<lambda>as. return (ob, sel, as)))))"

lemma call_split:
  "compile_expr E (Call n callee (Some name) args) =
     bind (call_operands E callee name args) (\<lambda>(ob, sel, as). compile_method_call n ob (Const (Word (ucast sel))) as)"
  by (simp add: call_operands_def bind_assoc)

lemma operands_part: "within part (call_operands E callee name args)"
  unfolding call_operands_def by (intro parts.within_intros part_steps growing_steps)

lemma operands_spare:
  assumes "fits F callee" and "\<forall>a \<in> set args. fits F a" and "n \<notin> called callee" and "n \<notin> called_args args"
  shows "within (spares n) (call_operands E callee name args)"
proof -
  have "within (spares n) (compile_args E args)"
    by (rule spares_args) (use assms called_argsD spares_expr in blast)
  then show ?thesis
    unfolding call_operands_def by (intro sparing_intros spares_helpers spares_expr [OF assms(1,3)])
qed

lemma code_runtime:
  assumes "within rt_grows r" and "stable S"
  shows "code m f cf (\<lambda>B r d. S B r \<and> R d) (on_runtime r) (\<lambda>_ B r d. S B r \<and> R d)"
proof (rule codeI)
  fix B v B' k d
  assume run: "on_runtime r B = Inr (v, B')" and P: "S B k \<and> R d"
  obtain c where c: "B' = B\<lparr>rt := c\<rparr>" using run by (auto simp: on_runtime_def split: sum.splits)
  have "S B' k" by (rule stableD [OF assms(2) conjunct1 [OF P] agree_refl]) (simp_all add: c)
  moreover have "point B' k = point B k" by (simp add: c point_def)
  ultimately show "(\<exists>k' d'. reaches m f (point B k) d (point B' k') d' \<and> agree (next_ident B) k k' \<and> S B' k' \<and> R d') \<or>
      departs m f (point B k) d"
    using reaches.here [of m f "point B k" d] P by (metis agree_refl)
qed

lemma code_operands:
  assumes "fits F callee" and "\<forall>a \<in> set args. fits F a" and "machine_fits m F"
    and "cached m callee (evaluateExpr m callee) c = Inr (w, c1)" and "evaluate_args m args 0 c1 = Inr (vs, c')"
  shows "code m f (linked F) (\<lambda>B r d. located F B r \<and> corr F c d) (call_operands (m_env m) callee name args)
    (\<lambda>x B r d. (holds (fst x) (Word w) B r \<and> located F B r) \<and> corr F c' d)"
  unfolding call_operands_def
proof (rule code_bind [OF code_expr [OF assms(1,3,4)]])
  fix u
  let ?S = "\<lambda>B r. holds u (Word w) B r \<and> located F B r"
  have "stable ?S" by (intro stable_intros stable_located)
  then have cast: "code m f (linked F) (\<lambda>B r d. ?S B r \<and> corr F c1 d) (getAsObject u)
      (\<lambda>v B r d. (holds v (Word w) B r \<and> ?S B r) \<and> corr F c1 d)"
    unfolding getAsObject_def by (rule code_cast) simp
  show "code m f (linked F) (\<lambda>B r d. ?S B r \<and> corr F c1 d)
      (bind (getAsObject u) (\<lambda>ob. bind (on_runtime (Runtime.lookupSelector name)) (\<lambda>sel.
       bind (compile_args (m_env m) args) (\<lambda>as. return (ob, sel, as)))))
      (\<lambda>x B r d. (holds (fst x) (Word w) B r \<and> located F B r) \<and> corr F c' d)"
  proof (rule code_bind [OF cast])
    fix ob
    let ?O = "\<lambda>B r. holds ob (Word w) B r \<and> located F B r"
    have "stable ?O" by (intro stable_intros stable_located)
    then have look: "code m f (linked F) (\<lambda>B r d. (holds ob (Word w) B r \<and> ?S B r) \<and> corr F c1 d)
        (on_runtime (Runtime.lookupSelector name)) (\<lambda>_ B r d. ?O B r \<and> corr F c1 d)"
      by (rule code_weaken [OF code_runtime [OF growing_steps(4)]]) auto
    have "code m f (linked F) (\<lambda>B r d. located F B r \<and> corr F c1 d) (compile_args (m_env m) args)
        (\<lambda>ops B r d. (args_hold ops vs B r \<and> located F B r) \<and> corr F c' d)"
      by (rule code_args [OF code_expr [OF _ assms(3)] assms(5)]) (use assms(2) in auto)
    from code_frame [OF this stable_holds [of ob "Word w"] part_steps(4)]
    have args: "code m f (linked F) (\<lambda>B r d. ?O B r \<and> corr F c1 d) (compile_args (m_env m) args)
        (\<lambda>ops B r d. ?O B r \<and> corr F c' d)"
      by (rule code_weaken) auto
    show "code m f (linked F) (\<lambda>B r d. (holds ob (Word w) B r \<and> ?S B r) \<and> corr F c1 d)
        (bind (on_runtime (Runtime.lookupSelector name)) (\<lambda>sel.
         bind (compile_args (m_env m) args) (\<lambda>as. return (ob, sel, as))))
        (\<lambda>x B r d. (holds (fst x) (Word w) B r \<and> located F B r) \<and> corr F c' d)"
      by (intro code_bind [OF look] code_bind [OF args] code_done parts.within_intros part_steps growing_steps) auto
  qed (intro parts.within_intros part_steps growing_steps)+
qed (intro parts.within_intros part_steps growing_steps)+

text \<open>The run that comes to the call comes to its guard.\<close>

definition at_guard :: "machine \<Rightarrow> ir \<Rightarrow> frame \<Rightarrow> node \<Rightarrow> obj \<Rightarrow> ctx \<Rightarrow> builder \<Rightarrow> config \<Rightarrow> ctx \<Rightarrow> bool" where
  "at_guard m f F n w c A cfg d \<longleftrightarrow> (\<exists>ob sel as B res B' r d'. compile_method_call n ob sel as B = Inr (res, B') \<and>
     wf_builder B \<and> insert_point B \<noteq> None \<and> final B' f \<and> rt_grows (rt B) (linked F) \<and>
     closure_decls (rt B) = closure_decls (rt A) \<and> compiling B = compiling A \<and> reaches m f cfg d (point B r) d' \<and>
     located F B r \<and> holds ob (Word w) B r \<and> corr F c d')"

lemma comes_to_guard:
  assumes "arrives m f F n (callee, Some name, args) c A cfg d" and "fits_call F n (Some (callee, Some name, args))"
    and "machine_fits m F" and "cached m callee (evaluateExpr m callee) c = Inr (w, c)" and "evaluate_args m args 0 c = Inr (vs, c)"
  shows "departs_elsewhere m f n cfg d \<or> at_guard m f F n w c A cfg d"
proof -
  obtain B v B' r d' where a: "compile_expr (m_env m) (Call n callee (Some name) args) B = Inr (v, B')" "clean B"
    "insert_point B \<noteq> None" "final B' f" "rt_grows (rt B') (linked F)" "unpatched n B"
    "closure_decls (rt B) = closure_decls (rt A)" "compiling B = compiling A" "reaches m f cfg d (point B r) d'"
    "located F B r" "corr F c d'"
    using assms(1) unfolding arrives_def compile_call_def prod.case by blast
  obtain x B1 where b: "call_operands (m_env m) callee name args B = Inr (x, B1)"
    "compile_method_call n (fst x) (Const (Word (ucast (fst (snd x))))) (snd (snd x)) B1 = Inr (v, B')"
    using a(1) unfolding call_split by (elim bind_InrE) (auto split: prod.splits)
  have wf: "wf_builder B" using a(2) by (simp add: clean_def)
  have fits: "fits F callee" "\<forall>a \<in> set args. fits F a" "n \<notin> called callee" "n \<notin> called_args args" using assms(2) by auto
  have p: "part B B1" "part B1 B'" using withinD [OF operands_part b(1)] withinD [OF method_call_part(1) b(2)] by auto
  have clean1: "clean B1" using p(1) clean_emitting [OF _ a(2)] by (auto simp: part_def)
  then have wf1: "wf_builder B1" by (simp add: clean_def)
  note bk = part_back [OF p(2) wf1 a(4,5)]
  have ip1: "insert_point B1 \<noteq> None" using p(1) a(3) by (simp add: part_def)
  have spare: "unpatched n B1" "closure_decls (rt B1) = closure_decls (rt B)"
    using withinD [OF operands_spare [OF fits] b(1)] a(6) by (auto simp: spares_def)
  have fin: "final B1 (function_blocks B1)" by (simp add: final_def)
  have P: "located F B r \<and> corr F c d'" using a(10,11) by simp
  show ?thesis
  proof (rule codeE [OF code_operands [OF fits(1,2) assms(3-5)] b(1) wf a(3) fin bk(2) P])
    fix r1 d1
    assume r1: "reaches m (function_blocks B1) (point B r) d' (point B1 r1) d1"
      "(holds (fst x) (Word w) B1 r1 \<and> located F B1 r1) \<and> corr F c d1"
    have "reaches m f cfg d (point B1 r1) d1" by (rule reaches_trans [OF a(9) emitted_reaches [OF clean1 bk(1) r1(1)]])
    moreover have "compiling B1 = compiling A" using p(1) a(8) by (simp add: part_def numbers_def)
    ultimately have "at_guard m f F n w c A cfg d"
      unfolding at_guard_def using b(2) wf1 ip1 a(4) bk(2) spare(2) a(7) r1(2) by metis
    then show ?thesis by blast
  next
    assume "departs m (function_blocks B1) (point B r) d'"
    then show ?thesis using elsewhere_later [OF a(9) departs_before [OF _ clean1 bk(1) spare(1)]] by blast
  qed
qed

section \<open>The frame\<close>

text \<open>Where all constants are in the cache, the two contexts differ in the frame only.\<close>

lemma corr_warm:
  assumes "corr F c d" and "inner F \<subseteq> warm F"
  obtains S where "symbols c = table F # S" and "d = c\<lparr>symbols := S\<rparr>"
proof -
  obtain S where S: "symbols c = table F # S" "d = c\<lparr>symbols := S, cache := cache d\<rparr>"
    using assms(1) unfolding corr_def by blast
  have "cache d k = cache c k" for k
    using assms unfolding corr_def by (cases "k \<in> inner F") auto
  then have "cache d = cache c" by (rule ext)
  then have "d = c\<lparr>symbols := S\<rparr>" using S(2) by simp
  then show thesis using S(1) that by blast
qed

lemma receiver_cells_symbols: "receiver_cells h ivs (c\<lparr>symbols := S\<rparr>) \<longleftrightarrow> receiver_cells h ivs c"
proof -
  have 1: "load_cell p (c\<lparr>symbols := S\<rparr>) = Inr (a, c\<lparr>symbols := S\<rparr>) \<longleftrightarrow> load_cell p c = Inr (a, c)" for p a
    by (auto simp: load_cell_def load_eq sem_simps)
  have 2: "isa a (c\<lparr>symbols := S\<rparr>) = Inr (k, c\<lparr>symbols := S\<rparr>) \<longleftrightarrow> isa a c = Inr (k, c)" for a k
    by (auto simp: isa_def block_at_def sem_simps split: option.splits block.splits)
  have 3: "getClassFor a (c\<lparr>symbols := S\<rparr>) = Inr (k, c\<lparr>symbols := S\<rparr>) \<longleftrightarrow> getClassFor a c = Inr (k, c)" for a k
    using 2 by (auto simp: getClassFor_def sem_simps)
  have 4: "class_at k (c\<lparr>symbols := S\<rparr>) = Inr (kl, c\<lparr>symbols := S\<rparr>) \<longleftrightarrow> class_at k c = Inr (kl, c)" for k kl
    by (auto simp: class_at_def split: option.splits)
  show ?thesis unfolding receiver_cells_def 1 3 4 by simp
qed

lemma misses_symbols: "misses a w (c\<lparr>symbols := S\<rparr>) \<longleftrightarrow> misses a w c"
  by (auto simp: misses_def guard_says_def isa_def block_at_def sem_simps split: option.splits block.splits)

text \<open>The names of the frame of a method.\<close>

lemma dom_map_upd: "dom (tab(x \<mapsto> y)) = insert x (dom tab)"
  by (auto split: if_splits)

lemma fill_cells_dom: "fill_cells xs as ws tab d = Inr (tab', d') \<Longrightarrow> length as = length xs \<Longrightarrow> length ws = length xs \<Longrightarrow>
    dom tab' = dom tab \<union> set xs"
proof (induction xs as ws tab arbitrary: d rule: fill_cells.induct)
  case (1 x xs a as w ws tab)
  from 1(2) obtain d1 where "fill_cells xs as ws (tab(x \<mapsto> (a, 0))) d1 = Inr (tab', d')"
    unfolding fill_cells.simps by (rule seq_InrE)
  from 1(1) [OF this] have "dom tab' = dom (tab(x \<mapsto> (a, 0))) \<union> set xs" using 1(3,4) by (metis length_Cons nat.inject)
  then have "dom tab' = insert x (dom tab) \<union> set xs" unfolding dom_map_upd .
  then show ?case by simp
qed (auto simp: sem_simps)

lemma element_table_dom: "dom (element_table xs a i tab) = dom tab \<union> set xs"
proof (induction xs a i tab rule: element_table.induct)
  case (2 x xs a i tab)
  then have "dom (element_table xs a (Suc i) (tab(x \<mapsto> (a, i)))) = insert x (dom tab) \<union> set xs" unfolding dom_map_upd .
  then show ?case by simp
qed simp

lemma method_frame_names:
  assumes "method_entry E D info ivs ob sel ws d = Inr (tab, d')" and "length ws = length (decl_params D)"
  shows "dom tab = {''self'', ''cmd''} \<union> set (decl_params D) \<union> set (di_decls info) \<union> set ivs"
proof -
  obtain d2 s d3 k d4 ps d5 ls d6 d7 d8 tab1 d9 tab2 d10 where
    e: "fresh_cells E (length (decl_params D)) d4 = Inr (ps, d5)" "fresh_cells E (length (di_decls info)) d5 = Inr (ls, d6)"
    "fill_cells (decl_params D) ps ws [''self'' \<mapsto> (s, 0), ''cmd'' \<mapsto> (k, 0)] d8 = Inr (tab1, d9)"
    "fill_cells (di_decls info) ls (replicate (length (di_decls info)) 0) tab1 d9 = Inr (tab2, d10)"
    "tab = element_table ivs ob 0 tab2"
    using assms(1) unfolding method_entry_def return_def by (elim bind_InrE seq_InrE) auto
  show ?thesis
    using fill_cells_dom [OF e(3)] fill_cells_dom [OF e(4)] fresh_length [OF e(1)] fresh_length [OF e(2)] assms(2)
    by (auto simp: e(5) element_table_dom)
qed

text \<open>The code of a call can be built only where every variable of the function has its storage.\<close>

lemma call_names:
  assumes "compile_method_call n ob sel as B = Inr (res, B')" and "x \<in> set (di_boundVars (closure_decls (rt B) (decl_node (compiling B))))"
    and "located F B r"
  shows "x \<in> dom (table F)"
proof -
  obtain hit B1 miss B2 nn B3 body B4 B5 st B7 B8 B9 where b:
    "create_block B = Inr (hit, B1)" "create_block B1 = Inr (miss, B2)"
    "create (IsNotNull ob) B2 = Inr (nn, B3)" "create_block B3 = Inr (body, B4)"
    "create_terminator (CondBr nn body miss) B4 = Inr ((), B5)"
    "on_runtime (gets (\<lambda>c. call_sites c n)) (B5\<lparr>insert_point := Some body\<rparr>) = Inr (st, B7)"
    "compile_guard (type_assumption st) ob hit miss B7 = Inr ((), B8)"
    "compile_slow_path n (B8\<lparr>insert_point := Some miss\<rparr>) = Inr ((), B9)"
    by (rule method_call_steps [OF assms(1)])
  have "within same_program (compile_guard (type_assumption st) ob hit miss)"
    unfolding guard_split by (intro unchanged.within_intros guard_test_same unchanged_steps)
  from withinD [OF this b(7)] have same: "rt B8 = rt B" "compiling B8 = compiling B"
    using withinD [OF unchanged_steps(2) b(1)] withinD [OF unchanged_steps(2) b(2)] withinD [OF unchanged_steps(1) b(3)]
      withinD [OF unchanged_steps(2) b(4)] withinD [OF unchanged_steps(3) b(5)] b(6)
    by (auto simp: same_program_def on_runtime_def sem_simps)
  have syms: "csymbols B8 = csymbols B"
    using withinD [OF going_steps(3) b(1)] withinD [OF going_steps(3) b(2)] withinD [OF going_steps(1) b(3)]
      withinD [OF going_steps(3) b(4)] withinD [OF going_steps(2) b(5)] withinD [OF going_helpers(10) b(7)] b(6)
    by (auto simp: goes_on_def on_runtime_def sem_simps)
  let ?M = "B8\<lparr>insert_point := Some miss\<rparr>"
  obtain ops P where ops: "patchpoint_operands n ?M = Inr (ops, P)" using b(8) unfolding compile_slow_path_def by (rule bind_InrE)
  let ?or = "\<lambda>x. Some (case csymbols B x of Some v \<Rightarrow> v | None \<Rightarrow> Const (Word 0))"
    and ?info = "closure_decls (rt B) (decl_node (compiling B))"
  have "the_operands ([Some (Const (Word n)), ?or ''self'', ?or ''cmd''] @ map (csymbols B) (decl_params (compiling B)) @
      map (csymbols B) (di_decls ?info) @ map (csymbols B) (di_boundVars ?info)) ?M = Inr (ops, P)"
    using ops by (simp add: patchpoint_operands_def on_runtime_def sem_simps same syms)
  from operands_apply [OF this] have "csymbols B x \<in> set (map Some ops)" using assms(2) by auto
  then have "csymbols B x \<noteq> None" by auto
  then show ?thesis using assms(3) by (auto simp: located_def var_at_def split: option.splits) blast
qed

section \<open>From the guard to the result\<close>

lemma stmts_balanced: "jit_in call_balanced P \<Longrightarrow> interpret_stmts (machine_at P k) ss c = Inr ((), e) \<Longrightarrow> symbols e = symbols c"
proof -
  assume "jit_in call_balanced P"
  then have "within balanced (interpret_stmts (machine_at P k) ss)"
    using returns.run_within [OF _ HOL.refl] by (simp add: run_program_def)
  then show "interpret_stmts (machine_at P k) ss c = Inr ((), e) \<Longrightarrow> symbols e = symbols c"
    by (auto simp: balanced_def dest: withinD)
qed

lemma leaves_at_guard:
  assumes guard: "at_guard m f F n w c A cfg d" and "inner F \<subseteq> warm F" and "n \<in> inner F"
    and "misses (type_assumption (call_sites c n)) w c"
    and D: "compiling A = D" "D = ClosureDecl nd nm ps body" "owner F = nd" "p_decls P nd = Some D" "m = machine_at P (Suc k)"
    and vars: "same_variables (closure_decls (rt A) nd) (closure_decls c nd)"
    and names: "dom (table F) = {''self'', ''cmd''} \<union> set ps \<union> set (di_decls (closure_decls c nd)) \<union> set ivs"
    and "receiver_cells (frame_loc F) ivs c"
    and P: "jit_blind P" "jit_in call_balanced P"
    and res: "resumable_all n body" "\<not> astNodeFound c" "\<forall>j \<in> set (resume_spine_all n body). object (cache c j) = 0"
      "search_all m n body c = Inr ((), c)" "reach m n body c0 c" "interpret_stmts m body c0 = Inr ((), e)"
      "\<not> recompile (closure_decls e (cur_jit_function e))"
    and rec: "p_records P nd = Some 1"
  shows "reaches m f cfg d (Returned (object (retVal e))) (e\<lparr>isReturning := False, symbols := tl (symbols c0)\<rparr>)"
proof -
  obtain ob sel as B rs B' r d1 where g: "compile_method_call n ob sel as B = Inr (rs, B')" "wf_builder B" "insert_point B \<noteq> None"
    "final B' f" "rt_grows (rt B) (linked F)" "closure_decls (rt B) = closure_decls (rt A)" "compiling B = compiling A"
    "reaches m f cfg d (point B r) d1" "located F B r" "holds ob (Word w) B r" "corr F c d1"
    using guard unfolding at_guard_def by blast
  obtain S where S: "symbols c = table F # S" "d1 = c\<lparr>symbols := S\<rparr>" by (rule corr_warm [OF g(11) assms(2)])
  have frame: "c = d1\<lparr>symbols := table F # symbols d1\<rparr>" using S by simp
  have jit: "cur_jit_function d1 = nd" "closure_decls d1 = closure_decls c" "cache d1 = cache c" "\<not> astNodeFound d1"
    using corr_constants(6) [OF g(11)] D(3) S(2) res(2) by simp_all
  have "site_kept (call_sites (linked F) n) (call_sites c n)" by (rule corr_constants(8) [OF g(11) assms(3)])
  then have "type_assumption (call_sites (rt B) n) = type_assumption (call_sites c n)"
    using g(5) by (simp add: site_kept_def rt_grows_def)
  then have miss: "misses (type_assumption (call_sites (rt B) n)) w d1" using assms(4) by (simp add: S(2) misses_symbols)
  have info: "same_variables (closure_decls (rt B) (decl_node D)) (closure_decls d1 (decl_node D))"
    using vars by (simp add: g(6) jit(2) D(2))
  have bound: "set (di_boundVars (closure_decls c nd)) \<subseteq> dom (table F)"
    using call_names [OF g(1) _ g(9)] vars by (auto simp: same_variables_def g(6,7) D(1,2))
  have T: "table_on (frame_names D (closure_decls d1 (decl_node D)) ivs) (frame_loc F) = table F"
  proof
    fix x
    have "x \<in> set (frame_names D (closure_decls d1 (decl_node D)) ivs) \<longleftrightarrow> x \<in> dom (table F)"
      using names bound by (auto simp: frame_names_def jit(2) D(2))
    then show "table_on (frame_names D (closure_decls d1 (decl_node D)) ivs) (frame_loc F) x = table F x"
      by (auto simp: table_on_def frame_loc_def split: option.splits)
  qed
  have cells: "receiver_cells (frame_loc F) ivs d1" unfolding S(2) receiver_cells_symbols by fact
  have decl: "p_decls P (cur_jit_function d1) = Some D" "D = ClosureDecl (cur_jit_function d1) nm ps body"
    by (simp_all add: jit(1) D(2) D(4) [unfolded D(2)])
  have spine: "\<forall>j \<in> set (resume_spine_all n body). object (cache d1 j) = 0" using res(3) jit(3) by simp
  note resumed = frame_resumed [OF D(5) P decl frame res(1) jit(4) spine res(4-7)]
  have "symbols c = symbols c0"
    using stmts_balanced [OF P(2) res(6) [unfolded D(5)]]
      stmts_balanced [OF P(2) residual_completes [OF res(5,6), unfolded D(5)]] by simp
  then have "tl (symbols c0) = S" using S(1) by (metis list.sel(3))
  then have S0: "symbols d1 = tl (symbols c0)" by (simp add: S(2))
  have "reaches m f (point B r) d1 (Returned (object (retVal e))) (e\<lparr>isReturning := False, symbols := symbols d1\<rparr>)"
  proof (rule call_misses [OF g(1-4,9,10) miss _ _ leaves_resumed [OF _ _ _ cells]])
    show "compiling B = D" "cur_jit_function d1 = decl_node D" "m_decls m (decl_node D) = Some D"
      "m_records m (decl_node D) = Some 1"
      using g(7) D jit(1) rec by simp_all
    show "resume_frame m (table_on (frame_names D (closure_decls d1 (decl_node D)) ivs) (frame_loc F))
        (frame_loc F ''self'') (frame_loc F ''cmd'') n d1 =
      Inr (object (retVal e), e\<lparr>isReturning := False, symbols := symbols d1\<rparr>)"
      unfolding T by (rule resumed)
  qed (fact info)
  then show ?thesis using reaches_trans [OF g(8)] S0 by simp
qed

section \<open>The entry\<close>

lemma spares_prologue: "within (spares n) (method_prologue D info ivs)"
proof -
  have allocas: "within (spares n) (create_allocas k)" for k
    by (induction k) (simp_all add: sparing_intros)
  have params: "within (spares n) (store_params xs as i)" for xs as i
    by (induction xs as i rule: store_params.induct) (simp_all add: sparing_intros spares_helpers)
  have locals: "within (spares n) (store_locals xs as)" for xs as
    by (induction xs as rule: store_locals.induct) (simp_all add: sparing_intros spares_helpers)
  have elements: "within (spares n) (element_symbols xs arr i)" for xs arr i
    by (induction xs arr i rule: element_symbols.induct) (simp_all add: sparing_intros)
  show ?thesis
    unfolding method_prologue_def array_symbols_def
    by (intro sparing_intros spares_helpers allocas params locals elements; simp)
qed

lemma fits_before_frame:
  "fits_call (F\<lparr>table := t, syms := s, base_ident := k\<rparr>) n x \<longleftrightarrow> fits_call F n x"
  "fits_to (F\<lparr>table := t, syms := s, base_ident := k\<rparr>) n st \<longleftrightarrow> fits_to F n st"
  "fits_before (F\<lparr>table := t, syms := s, base_ident := k\<rparr>) n ss \<longleftrightarrow> fits_before F n ss"
proof -
  show call: "fits_call (F\<lparr>table := t, syms := s, base_ident := k\<rparr>) n x \<longleftrightarrow> fits_call F n x" for F n x
    by (cases "(F, n, x)" rule: fits_call.cases) (simp_all add: fits_frame)
  show "fits_to (F\<lparr>table := t, syms := s, base_ident := k\<rparr>) n st \<longleftrightarrow> fits_to F n st"
    "fits_before (F\<lparr>table := t, syms := s, base_ident := k\<rparr>) n ss \<longleftrightarrow> fits_before F n ss"
    by (induction F n st and F n ss rule: fits_to_fits_before.induct) (simp_all add: call fits_frame fits_stmts_frame)
qed

lemma fits_before_call: "fits_to F n s \<Longrightarrow> call_of n s = Some x \<Longrightarrow> fits_call F n (Some x)"
  "fits_before F n ss \<Longrightarrow> call_of_all n ss = Some x \<Longrightarrow> fits_call F n (Some x)"
  by (induction F n s and F n ss rule: fits_to_fits_before.induct) (auto split: if_splits)

text \<open>A method comes from its entry to the guard.\<close>

lemma method_comes_to_guard:
  assumes "compileMethod (m_env m) D cls c0 = Inr (f, c1)" and "classes c0 cls = Some kl" and "machine_fits m F"
    and "linked F = c1" and "owner F = decl_node D" and "constants_hold F d"
    and "length ws = length (decl_params D)" and "ob \<noteq> 0"
    and "method_entry (m_env m) D (closure_decls c0 (decl_node D)) (indexedIVarNames kl) ob sel ws d = Inr (tab, d1)"
    and "call_of_all n (decl_body D) = Some (callee, Some name, args)" and "fits_before F n (decl_body D)"
    and "interpret_stmts m (decl_body D) (d1\<lparr>symbols := tab # symbols d1\<rparr>) = Inr ((), e)"
    and "reach m n (decl_body D) (d1\<lparr>symbols := tab # symbols d1\<rparr>) c"
    and "cached m callee (evaluateExpr m callee) c = Inr (w, c)" and "evaluate_args m args 0 c = Inr (vs, c)"
    and "\<not> departs_elsewhere m f n (At 0 0 \<lparr>arguments = Word ob # Word (ucast sel) # map Word ws, registers = Map.empty\<rparr>) d"
  obtains A s k where "at_guard m f (F\<lparr>table := tab, syms := s, base_ident := k\<rparr>) n w c A
      (At 0 0 \<lparr>arguments = Word ob # Word (ucast sel) # map Word ws, registers = Map.empty\<rparr>) d"
    and "compiling A = D" and "closure_decls (rt A) = closure_decls c0"
proof -
  let ?info = "closure_decls c0 (decl_node D)" and ?A = "Word ob # Word (ucast sel) # map Word ws"
  let ?B = "new_builder D c0" and ?r = "\<lparr>arguments = ?A, registers = Map.empty\<rparr>" and ?c = "d1\<lparr>symbols := tab # symbols d1\<rparr>"
  have build: "build_function D (seq (method_prologue D ?info (indexedIVarNames kl)) (compile_body (m_env m) D)) c0 = Inr (f, c1)"
    using assms(1,2) by (simp add: compileMethod_def class_at_def sem_simps)
  obtain B1 B2 B3 where b: "method_prologue D ?info (indexedIVarNames kl) ?B = Inr ((), B1)"
    "compile_stmts (m_env m) (decl_body D) B1 = Inr ((), B3)" "create_terminator (Ret (Const (Word 0))) B3 = Inr ((), B2)"
    "f = function_blocks B2" "c1 = rt B2"
    using build by (auto simp: build_function_def compile_body_def sem_simps split: sum.splits)
  have clean0: "clean ?B" by (rule clean_new)
  then have wf: "wf_builder ?B" "insert_point ?B \<noteq> None" by (auto simp: clean_def new_builder_def)
  have mv: "moves ?B B1" by (rule withinD [OF moving_prologue(1) b(1)])
  then have clean1: "clean B1" using clean_emitting [OF _ clean0] by (auto simp: moves_def)
  then have wf1: "wf_builder B1" by (simp add: clean_def)
  have ip1: "insert_point B1 \<noteq> None" using mv wf by (simp add: moves_def)
  have e13: "emitting {} B1 B3" by (rule withinD [OF compiling_emits(5) b(2)])
  have fin3: "final B3 f" unfolding b(4) by (rule final_leave [OF b(3) final_built emitting_wf [OF e13 wf1]]) simp
  have fin1: "final B1 f" by (rule final_back [OF e13 fin3 wf1])
  have rt3: "rt_grows (rt B3) c1" using control_same(1) [OF b(3)] growing.refl by (simp add: b(5))
  have rt1: "rt_grows (rt B1) c1" by (rule walked_back(1) [OF withinD [OF walked.walking_within(5) b(2)] rt3])
  have spare: "unpatched n B1" "closure_decls (rt B1) = closure_decls c0"
    using withinD [OF spares_prologue b(1), of n] by (auto simp: spares_def unpatched_def new_builder_def)
  have at: "point ?B ?r = At 0 0 ?r" by (simp add: point_def new_builder_def Let_def)
  have start: "compiling ?B = D \<and> entry ?A Map.empty {} ?B ?r \<and> d = d"
    by (simp add: entry_def new_builder_def symbol_at_def)
  have alloc: "allocator_ok (m_env m)" using assms(3) by (simp add: machine_fits_def)
  have fin: "final B1 (function_blocks B1)" by (simp add: final_def)
  show thesis
  proof (rule codeE [OF method_prologue_runs [OF assms(9) alloc assms(7,8)] b(1) wf fin rt1 start])
    assume "departs m (function_blocks B1) (point ?B ?r) d"
    then show thesis using departs_before [OF _ clean1 fin1 spare(1)] assms(16) at by simp
  next
    fix r' d'
    assume r': "reaches m (function_blocks B1) (point ?B ?r) d (point B1 r') d'" "entry ?A tab {} B1 r' \<and> d' = d1"
    let ?F = "F\<lparr>table := tab, syms := csymbols B1, base_ident := next_ident B1\<rparr>"
    have to1: "reaches m f (At 0 0 ?r) d (point B1 r') d1"
      using emitted_reaches [OF clean1 fin1 r'(1)] r'(2) at by simp
    have corr: "corr ?F ?c d1"
      by (rule entered_corr [OF assms(6)]) (use entered_entries(2) [OF assms(9)] assms(5) in simp)
    have fits: "machine_fits m ?F" using assms(3) by (simp add: machine_fits_def calls_respect_place)
    have loc: "located ?F B1 r'"
      by (rule entry_located [OF conjunct1 [OF r'(2)]]) (use mv assms(5) in \<open>simp add: moves_def numbers_def new_builder_def\<close>)
    have rt3': "rt_grows (rt B3) (linked ?F)" using rt3 assms(4) by simp
    have before: "fits_before ?F n (decl_body D)" using assms(11) by (simp add: fits_before_frame)
    have "departs_elsewhere m f n (point B1 r') d1 \<or> arrives m f ?F n (callee, Some name, args) c B1 (point B1 r') d1"
      by (rule comes_to_call(2) [OF before assms(10,13,12) fits b(2) clean1 ip1 fin3 rt3' spare(1) loc corr])
    then have "arrives m f ?F n (callee, Some name, args) c B1 (At 0 0 ?r) d"
      using elsewhere_later [OF to1] arrives_later [OF _ to1 HOL.refl HOL.refl] assms(16) by blast
    from comes_to_guard [OF this fits_before_call(2) [OF before assms(10)] fits assms(14,15)] assms(16)
    have "at_guard m f ?F n w c B1 (At 0 0 ?r) d" by blast
    then show thesis using that spare(2) mv by (simp add: moves_def numbers_def new_builder_def)
  qed
qed

section \<open>Properties\<close>

text \<open>
  C1. Deoptimisation from beginning to end: a compiled method that leaves for the interpreter when the
  guard of the call at \<open>n\<close> fails returns the value that the interpreter returns for the whole method,
  and ends in the interpreter's state.  The call is the only method call of the compiled code, so that the
  stack map has one record; the statements before it may contain calls of closures, loops and
  conditionals, the call lies in any number of conditionals but in no loop, its arguments have no
  effect, and the code departs from the interpreter nowhere else.
\<close>

theorem deoptimised_method_correct:
  assumes "compileMethod (m_env m) D cls c0 = Inr (f, c1)" and "classes c0 cls = Some kl" and "machine_fits m F"
    and "linked F = c1" and "owner F = decl_node D" and "constants_hold F d" and "inner F \<subseteq> warm F"
    and "length ws = length (decl_params D)" and "ob \<noteq> 0"
    and "method_entry (m_env m) D (closure_decls c0 (decl_node D)) (indexedIVarNames kl) ob sel ws d = Inr (tab, d1)"
    and "call_of_all n (decl_body D) = Some (callee, Some name, args)" and "fits_before F n (decl_body D)"
    and "interpret_stmts m (decl_body D) (d1\<lparr>symbols := tab # symbols d1\<rparr>) = Inr ((), e)"
    and "reach m n (decl_body D) (d1\<lparr>symbols := tab # symbols d1\<rparr>) c"
    and "cached m callee (evaluateExpr m callee) c = Inr (w, c)" and "evaluate_args m args 0 c = Inr (vs, c)"
    and "misses (type_assumption (call_sites c n)) w c"
    and "\<not> departs_elsewhere m f n (At 0 0 \<lparr>arguments = Word ob # Word (ucast sel) # map Word ws, registers = Map.empty\<rparr>) d"
    and "m = machine_at P (Suc k)" and "jit_blind P" and "jit_in call_balanced P" and "p_decls P (decl_node D) = Some D"
    and "same_variables (closure_decls c0 (decl_node D)) (closure_decls c (decl_node D))"
    and "receiver_cells (frame_loc (F\<lparr>table := tab\<rparr>)) (indexedIVarNames kl) c"
    and "resumable_all n (decl_body D)" and "\<not> astNodeFound c"
    and "\<forall>j \<in> set (resume_spine_all n (decl_body D)). object (cache c j) = 0"
    and "search_all m n (decl_body D) c = Inr ((), c)" and "\<not> recompile (closure_decls e (cur_jit_function e))"
    and "p_records P (decl_node D) = Some (patchpoints f)" and "patchpoints f = 1"
  shows "\<exists>j. run_function j m f (Word ob # Word (ucast sel) # map Word ws) d =
    Inr (object (retVal e), e\<lparr>isReturning := False, symbols := symbols d\<rparr>)"
proof -
  let ?r = "\<lparr>arguments = Word ob # Word (ucast sel) # map Word ws, registers = Map.empty\<rparr>"
  obtain nd nm ps body where D: "D = ClosureDecl nd nm ps body" by (cases D)
  obtain A s k where g: "at_guard m f (F\<lparr>table := tab, syms := s, base_ident := k\<rparr>) n w c A (At 0 0 ?r) d"
    "compiling A = D" "closure_decls (rt A) = closure_decls c0"
    by (rule method_comes_to_guard [OF assms(1-6,8-16,18)])
  let ?F = "F\<lparr>table := tab, syms := s, base_ident := k\<rparr>"
  have "fits_call F n (Some (callee, Some name, args))" by (rule fits_before_call(2) [OF assms(12,11)])
  then have n: "n \<in> inner ?F" by simp
  have vars: "same_variables (closure_decls (rt A) nd) (closure_decls c nd)" using assms(23) by (simp add: g(3) D)
  have names: "dom (table ?F) = {''self'', ''cmd''} \<union> set ps \<union> set (di_decls (closure_decls c nd)) \<union> set (indexedIVarNames kl)"
    using method_frame_names [OF assms(10,8)] assms(23) by (simp add: D same_variables_def)
  have cells: "receiver_cells (frame_loc ?F) (indexedIVarNames kl) c"
    using assms(24) by (simp add: frame_loc_def [abs_def])
  have own: "owner ?F = nd" "p_decls P nd = Some D" "inner ?F \<subseteq> warm ?F" using assms(5,7,22) by (simp_all add: D)
  note res = assms(25-28,14,13,29) [unfolded D cdecl.sel]
  have rec: "p_records P nd = Some 1" using assms(30,31) by (simp add: D)
  have "reaches m f (At 0 0 ?r) d (Returned (object (retVal e)))
      (e\<lparr>isReturning := False, symbols := tl (symbols (d1\<lparr>symbols := tab # symbols d1\<rparr>))\<rparr>)"
    by (rule leaves_at_guard [OF g(1) own(3) n assms(17) g(2) D own(1,2) assms(19) vars names cells assms(20,21) res rec])
  then have "reaches m f (At 0 0 ?r) d (Returned (object (retVal e))) (e\<lparr>isReturning := False, symbols := symbols d\<rparr>)"
    using entered_entries(2) [OF assms(10)] by (simp add: entered_def)
  then show ?thesis unfolding run_function_def by (rule reaches_execute)
qed

section \<open>A method that prints its argument\<close>

text \<open>
  \<open>printing_decl\<close> as a method of small integers, compiled after its call of \<open>print\<close> has seen small
  integers, and called with a string.
\<close>

definition string_context :: ctx where
  "string_context = compiled_context\<lparr>mem := [0x2000 \<mapsto> StrBlock \<lparr>str_length = literalObject 1, characters = [65]\<rparr>],
     call_sites := (call_sites compiled_context)(0x5020 := \<lparr>type_assumption = SmallIntClass, alternative_type = 0,
       alternative_type_count = 0, cachedMethod = Some (MethodSlot (SmallIntClass, 1))\<rparr>)\<rparr>"

definition string_frame :: frame where
  "string_frame = \<lparr>table = Map.empty, syms = Map.empty, base_ident = 0, owner = 0x5000, linked = string_context,
     known = (\<lambda>_. 0), inner = {0x5018, 0x5020, 0x5028}, warm = {0x5018, 0x5020, 0x5028}, may_call = False\<rparr>"

lemma string_setting:
  "closure_decls string_context k = fresh_decl" "cache string_context k = no_value" "isReturning string_context \<longleftrightarrow> False"
  "retVal string_context = no_value" "symbols string_context = []" "globalSymbols string_context = Map.empty"
  "mem string_context = [0x2000 \<mapsto> StrBlock \<lparr>str_length = literalObject 1, characters = [65]\<rparr>]"
  "classes string_context = static_classes" "console string_context = []" "astNodeFound string_context \<longleftrightarrow> False"
  "selectors string_context = fst (register_static ([], []))" "selNames string_context = snd (register_static ([], []))"
  "call_sites string_context 0x5020 = \<lparr>type_assumption = SmallIntClass, alternative_type = 0, alternative_type_count = 0,
      cachedMethod = Some (MethodSlot (SmallIntClass, 1))\<rparr>"
  by (simp_all add: string_context_def compiled_context_def resumed_context_def initial_context_def)

text \<open>
  The code: block 2 tests the receiver, block 5 is the guard, block 3 the call, block 4 leaves, and block 1
  follows the conditional.
\<close>

definition string_code :: ir where
  "string_code =
   [\<lparr>instrs =
       [(0, Store (Const (Word 0x5000)) (Const (Ptr CurJitFunction))),
        (1, Alloca), (2, Alloca), (3, Alloca),
        (4, Cast (Argument 0)), (5, Store (Result 4) (Result 1)),
        (6, ZExt (Argument 1)), (7, Alu ShlOp (Result 6) (Const (Word 3))), (8, Alu OrOp (Result 7) (Const (Word 1))),
        (9, Cast (Result 8)), (10, Store (Result 9) (Result 2)),
        (11, Store (Argument 2) (Result 3)),
        (12, Load (Result 3)), (13, Cast (Result 12)),
        (14, Alu LShrOp (Result 13) (Const (Word 3))), (15, IsNotNull (Result 14))],
     terminator = Some (CondBr (Result 15) 2 1)\<rparr>,
    \<lparr>instrs = [(28, Load (Result 3)), (29, Cast (Result 28))], terminator = Some (Ret (Result 29))\<rparr>,
    \<lparr>instrs = [(16, Load (Result 3)), (17, Cast (Result 16)), (18, IsNotNull (Result 17))],
     terminator = Some (CondBr (Result 18) 5 4)\<rparr>,
    \<lparr>instrs =
       [(23, Cast (Const (Word 0))), (24, Store (Result 23) (Const (Ptr (AlternativeCount 0x5020)))),
        (25, Load (method_pointer (Some (MethodSlot (SmallIntClass, 1))))),
        (26, CallMethod (Result 25) [Result 17, Const (Word 4)]),
        (27, Store (Const (Word 0x5000)) (Const (Ptr CurJitFunction)))],
     terminator = Some (Br 1)\<rparr>,
    \<lparr>instrs = [(21, Patchpoint [Const (Word 0x5020), Result 1, Result 2, Result 3]), (22, Cast (Result 21))],
     terminator = Some (Ret (Result 22))\<rparr>,
    \<lparr>instrs = [(19, Cast (Result 17)), (20, Alu AndOp (Result 19) (Const (Word 7)))],
     terminator = Some (CondBr (Result 20) 3 4)\<rparr>]"

lemma string_compiled: "compileMethod sample_env printing_decl SmallIntClass string_context = Inr (string_code, string_context)"
  by (simp add: compileMethod_def class_at_def static_classes_def static_SmallIntClass_def root_class_def build_function_def
      printing_decl_def printing_body_def call_print_def new_builder_def method_prologue_def
      compile_body_def sem_simps fresh_decl_def reset_jit_function_def create_def append_instr_def compile_method_call_def
      compile_guard_def compile_slow_path_def compile_fast_path_def patchpoint_operands_def on_runtime_def string_setting print_is_known
      empty_block_def set_csymbol_def create_store_def array_symbols_def lookupSymbolAddr_def create_block_def
      getAsSmallInt_def getAsObject_def create_terminator_def small_int_of_def)
    (simp add: string_code_def eval_nat_numeral)

text \<open>The frame of the method, and the interpreter's context at its entry.\<close>

definition string_table :: symbol_table where
  "string_table = [''self'' \<mapsto> (0x1000, 0), ''cmd'' \<mapsto> (0x1010, 0), ''x'' \<mapsto> (0x1020, 0)]"

definition string_memory :: "addr \<rightharpoonup> block" where
  "string_memory = [0x2000 \<mapsto> StrBlock \<lparr>str_length = literalObject 1, characters = [65]\<rparr>,
     0x1000 \<mapsto> CellBlock [literalObject 3], 0x1010 \<mapsto> CellBlock [compileSmallInt 9], 0x1020 \<mapsto> CellBlock [0x2000]]"

definition entered_context :: ctx where
  "entered_context = string_context\<lparr>mem := string_memory\<rparr>"

lemma string_entered:
  "method_entry sample_env printing_decl (closure_decls string_context (decl_node printing_decl)) [] (literalObject 3) 9 [0x2000] string_context =
     Inr (string_table, entered_context)"
proof -
  have "cur_jit_function string_context = 0x5000" by (simp add: string_context_def compiled_context_def resumed_context_def)
  then have "string_context\<lparr>cur_jit_function := 0x5000\<rparr> = string_context" by simp
  then show ?thesis
    by (simp add: method_entry_def printing_decl_def fresh_decl_def string_setting run_simps first_free_eval string_table_def)
      (simp add: entered_context_def string_memory_def fun_upd_twist)
qed

lemma string_facts: "getInteger (literalObject 1) = Inr 1" "interpretedTruth 0x2000" "needsGC 0x2000" "\<not> isInteger 0x2000"
  by (code_simp, code_simp, code_simp, code_simp)

lemma string_run:
  "\<exists>e. interpret_stmts (machine_at (resumed_program printing_body) (Suc 0)) printing_body
      (entered_context\<lparr>symbols := string_table # symbols entered_context\<rparr>) = Inr ((), e) \<and>
    console e = [PrintBytes Stdout [65]] \<and> object (retVal e) = 0x2000 \<and> \<not> recompile (closure_decls e (cur_jit_function e))"
  by (simp add: printing_body_def call_print_def run_simps entered_context_def string_setting string_table_def
      string_memory_def resumed_setting print_is_known first_free_eval
      site_step_def note_class_def ptrToCompiledMethodForSelector_def getClassFor_def methodForSelector_def walk_classes.simps
      load_method_ptr_def method_at_def static_classes_def static_StringClass_def root_class_def
      StringMethods_def native_method_def StringPrint_def as_string_def string_bytes_def fresh_decl_def string_facts set_retVal_def value_set_def)

text \<open>Whether a run departs elsewhere, one step at a time.\<close>

lemma elsewhere_iff:
  "departs_elsewhere m f n (At b i r) d \<longleftrightarrow>
    b < length f \<and> i < length (instrs (f ! b)) \<and> parting r (snd (instrs (f ! b) ! i)) \<and> \<not> patches n (snd (instrs (f ! b) ! i)) \<or>
    (\<exists>cfg d'. Generated_Code.step m f b i r d = Inr (cfg, d') \<and> departs_elsewhere m f n cfg d')"
  (is "?l \<longleftrightarrow> ?h \<or> ?s")
proof
  assume ?l
  then obtain b' i' r' d' where c: "reaches m f (At b i r) d (At b' i' r') d'" "b' < length f \<and> i' < length (instrs (f ! b')) \<and>
      parting r' (snd (instrs (f ! b') ! i')) \<and> \<not> patches n (snd (instrs (f ! b') ! i'))"
    unfolding departs_elsewhere_def by blast
  from c(1) show "?h \<or> ?s"
    by (cases rule: reaches.cases) (use c(2) in \<open>auto simp: departs_elsewhere_def\<close>)
next
  assume "?h \<or> ?s"
  then show ?l
  proof
    assume ?h
    then show ?l unfolding departs_elsewhere_def by (blast intro: reaches.here)
  next
    assume ?s
    then show ?l by (meson elsewhere_later reaches_one)
  qed
qed

text \<open>A block that ends in a return, in which nothing but the patchpoint of \<open>n\<close> departs.\<close>

lemma leaving_block_stays:
  assumes "terminator (f ! b) = Some (Ret v)" and "\<And>j r. j < length (instrs (f ! b)) \<Longrightarrow>
      patches n (snd (instrs (f ! b) ! j)) \<or> \<not> parting r (snd (instrs (f ! b) ! j))"
  shows "\<not> departs_elsewhere m f n (At b i r) d"
proof
  have stay: "reaches m f cfg d cfg' d' \<Longrightarrow> \<exists>i r w. cfg = At b i r \<or> cfg = Returned w \<Longrightarrow> \<exists>i r w. cfg' = At b i r \<or> cfg' = Returned w" for cfg d cfg' d'
  proof (induction rule: reaches.induct)
    case (step b' i' r' d cfg d' cfg' d'')
    then have "b' = b" by simp
    with step(1) assms(1) have "\<exists>i r w. cfg = At b i r \<or> cfg = Returned w"
      by (auto simp: Generated_Code.step_def sem_simps split: if_splits sum.splits prod.splits)
    then show ?case by (rule step.IH)
  qed
  assume "departs_elsewhere m f n (At b i r) d"
  then obtain b' i' r' d' where c: "reaches m f (At b i r) d (At b' i' r') d'" "i' < length (instrs (f ! b'))"
      "parting r' (snd (instrs (f ! b') ! i'))" "\<not> patches n (snd (instrs (f ! b') ! i'))"
    unfolding departs_elsewhere_def by blast
  have "b' = b" using stay [OF c(1)] by auto
  then show False using assms(2) c(2-4) by blast
qed

lemma string_blocks:
  "length string_code = 6"
  "instrs (string_code ! 0) = [(0, Store (Const (Word 0x5000)) (Const (Ptr CurJitFunction))),
        (1, Alloca), (2, Alloca), (3, Alloca),
        (4, Cast (Argument 0)), (5, Store (Result 4) (Result 1)),
        (6, ZExt (Argument 1)), (7, Alu ShlOp (Result 6) (Const (Word 3))), (8, Alu OrOp (Result 7) (Const (Word 1))),
        (9, Cast (Result 8)), (10, Store (Result 9) (Result 2)),
        (11, Store (Argument 2) (Result 3)),
        (12, Load (Result 3)), (13, Cast (Result 12)),
        (14, Alu LShrOp (Result 13) (Const (Word 3))), (15, IsNotNull (Result 14))]"
  "terminator (string_code ! 0) = Some (CondBr (Result 15) 2 1)"
  "instrs (string_code ! 2) = [(16, Load (Result 3)), (17, Cast (Result 16)), (18, IsNotNull (Result 17))]"
  "terminator (string_code ! 2) = Some (CondBr (Result 18) 5 4)"
  "instrs (string_code ! 4) = [(21, Patchpoint [Const (Word 0x5020), Result 1, Result 2, Result 3]), (22, Cast (Result 21))]"
  "terminator (string_code ! 4) = Some (Ret (Result 22))"
  "instrs (string_code ! 5) = [(19, Cast (Result 17)), (20, Alu AndOp (Result 19) (Const (Word 7)))]"
  "terminator (string_code ! 5) = Some (CondBr (Result 20) 3 4)"
  by (simp_all add: string_code_def)

lemma string_leaves: "\<not> departs_elsewhere m string_code 0x5020 (At 4 i r) d"
  by (rule leaving_block_stays) (auto simp: string_blocks less_Suc_eq)

lemma string_stays: "\<not> departs_elsewhere (machine_at (resumed_program printing_body) 1) string_code 0x5020
    (At 0 0 \<lparr>arguments = [Word (literalObject 3), Word 9, Word 0x2000], registers = Map.empty\<rparr>) string_context"
  by (simp add: elsewhere_iff [where b = 0] elsewhere_iff [where b = 2] elsewhere_iff [where b = 5] string_leaves Generated_Code.step_def string_blocks run_simps string_setting define_result_def first_free_eval
      place_operand_def word_operand_def resumed_setting)

lemma string_at_call:
  fixes m :: machine
  defines "c \<equiv> entered_context\<lparr>symbols := string_table # symbols entered_context\<rparr>"
  shows "cached m (VarRef k ''x'') (evaluateExpr m (VarRef k ''x'')) c = Inr (0x2000, c)"
    and "search_all m 0x5020 printing_body c = Inr ((), c)" and "reach m 0x5020 printing_body c c"
    and "receiver_cells (frame_loc (string_frame\<lparr>table := string_table\<rparr>)) [] c"
proof -
  have x: "evaluateExpr m (VarRef k ''x'') c = Inr (0x2000, c)" for k
    by (simp add: c_def entered_context_def string_table_def string_memory_def run_simps)
  have "object (cache c k) = 0" for k by (simp add: c_def entered_context_def string_setting no_value_def)
  then have cached: "cached m (VarRef k ''x'') (evaluateExpr m (VarRef k ''x'')) c = Inr (0x2000, c)" for k
    using evaluate_uncached [of c "VarRef k ''x''" m] x [of k] by simp
  then show "cached m (VarRef k ''x'') (evaluateExpr m (VarRef k ''x'')) c = Inr (0x2000, c)" .
  show "search_all m 0x5020 printing_body c = Inr ((), c)"
    by (simp add: printing_body_def call_print_def leaf_skip_def sem_simps x)
  have live: "\<not> isReturning c" by (simp add: c_def entered_context_def string_setting)
  show "reach m 0x5020 printing_body c c"
    unfolding printing_body_def
    by (rule reach.if_body [OF _ live _ string_facts(2) reach.here]) (use cached live in \<open>simp_all add: call_print_def evaluate_def\<close>)
  show "receiver_cells (frame_loc (string_frame\<lparr>table := string_table\<rparr>)) [] c"
    by (auto simp: receiver_cells_def is_method_def frame_loc_def string_table_def load_cell_def load_eq c_def entered_context_def
        string_memory_def getClassFor_def literalObject_def isInteger_def class_at_def string_setting static_classes_def
        static_SmallIntClass_def root_class_def sem_simps)
qed

lemma deoptimised_method_correct_witness:
  "compileMethod sample_env printing_decl SmallIntClass string_context = Inr (string_code, string_context) \<and>
   (\<exists>j e. run_function j (machine_at (resumed_program printing_body) 1) string_code
       [Word (literalObject 3), Word 9, Word 0x2000] string_context = Inr (0x2000, e) \<and> console e = [PrintBytes Stdout [65]])"
proof -
  let ?m = "machine_at (resumed_program printing_body) (Suc 0)"
    and ?c = "entered_context\<lparr>symbols := string_table # symbols entered_context\<rparr>"
  obtain e where e: "interpret_stmts ?m (decl_body printing_decl) ?c = Inr ((), e)"
    "console e = [PrintBytes Stdout [65]]" "object (retVal e) = 0x2000" "\<not> recompile (closure_decls e (cur_jit_function e))"
    using string_run by (auto simp: printing_decl_def)
  have env: "m_env ?m = sample_env" by (simp add: resumed_setting)
  obtain k where k: "classes string_context SmallIntClass = Some k" "indexedIVarNames k = []"
    by (simp add: string_setting static_classes_def static_SmallIntClass_def root_class_def)
  have fits: "machine_fits ?m string_frame"
    by (simp add: machine_fits_def calls_respect_def string_frame_def resumed_setting sample_allocator_ok)
  have const: "constants_hold string_frame string_context"
    by (simp add: constants_hold_def string_frame_def known_ok_def selectors_grow_refl site_kept_def string_setting no_value_def)
  have jit: "jit_in call_balanced (resumed_program printing_body)"
    by (simp add: jit_in_def resumed_program_def interpreted_program_def call_balance.within_leaf)
  have call: "call_of_all 0x5020 (decl_body printing_decl) = Some (VarRef 0x5028 ''x'', Some ''print'', [])"
    and before: "fits_before string_frame 0x5020 (decl_body printing_decl)"
    and resumable: "resumable_all 0x5020 (decl_body printing_decl)"
    by (simp_all add: printing_decl_def printing_body_def call_print_def string_frame_def)
  have entry: "method_entry (m_env ?m) printing_decl (closure_decls string_context (decl_node printing_decl)) (indexedIVarNames k)
      (literalObject 3) 9 [0x2000] string_context = Inr (string_table, entered_context)"
    unfolding env k(2) by (rule string_entered)
  have "\<exists>j. run_function j ?m string_code (Word (literalObject 3) # Word (ucast (9 :: selector)) # map Word [0x2000]) string_context =
      Inr (object (retVal e), e\<lparr>isReturning := False, symbols := symbols string_context\<rparr>)"
  proof (rule deoptimised_method_correct [where c = ?c, OF _ k(1) fits _ _ const _ _ _ entry call before e(1) _ string_at_call(1)])
    show "compileMethod (m_env ?m) printing_decl SmallIntClass string_context = Inr (string_code, string_context)"
      unfolding env by (rule string_compiled)
    show "\<not> departs_elsewhere ?m string_code 0x5020 (At 0 0 \<lparr>arguments = Word (literalObject 3) # Word (ucast (9 :: selector)) # map Word [0x2000],
        registers = Map.empty\<rparr>) string_context"
      using string_stays by simp
    show "evaluate_args ?m [] 0 ?c = Inr ([], ?c)" by (simp add: evaluation_simps sem_simps)
    show "misses (type_assumption (call_sites ?c 0x5020)) 0x2000 ?c"
      by (simp add: misses_def guard_says_def entered_context_def string_setting)
    show "p_decls (resumed_program printing_body) (decl_node printing_decl) = Some printing_decl"
      by (simp add: resumed_program_def printing_decl_def)
    show "patchpoints string_code = 1" by (simp add: patchpoints_def string_code_def)
    then show "p_records (resumed_program printing_body) (decl_node printing_decl) = Some (patchpoints string_code)"
      by (simp add: resumed_program_def printing_decl_def)
  qed (use string_at_call e resumable jit k(2) resumed_setting in
      \<open>simp_all add: string_frame_def printing_decl_def literalObject_def same_variables_def entered_context_def string_setting no_value_def\<close>)
  then obtain j where "run_function j ?m string_code [Word (literalObject 3), Word 9, Word 0x2000] string_context =
      Inr (0x2000, e\<lparr>isReturning := False, symbols := symbols string_context\<rparr>)"
    by (auto simp: e(3))
  with string_compiled e(2) show ?thesis
    by (intro conjI exI [of _ j] exI [of _ "e\<lparr>isReturning := False, symbols := symbols string_context\<rparr>"]) simp_all
qed

end
