(* ===== verification/Balance.thy ===== *)
theory Balance
  imports Deoptimised
begin

text \<open>
  What every call keeps, compiled functions included: the stack of symbol tables, and that no return is
  under way.  Generated code is any code at all here, run as \<open>Generated_Code\<close> says, with the way back
  into the interpreter.
\<close>

section \<open>The effect of compiling\<close>

text \<open>What the compiler does to the state of the runtime; the code is what \<open>p_jit_method\<close> runs.\<close>

definition compile_entry :: "env \<Rightarrow> (node \<rightharpoonup> cdecl) \<Rightarrow> jit_entry \<Rightarrow> unit run" where
  "compile_entry E decls e = (case e of
       CompiledAsMethod d cls \<Rightarrow> (case decls d of
           Some D \<Rightarrow> bind (compileMethod E D cls) (\<lambda>f. return ()) | None \<Rightarrow> fail NullDeref)
     | CompiledAsClosure d \<Rightarrow> (case decls d of
           Some D \<Rightarrow> bind (compileClosure E D) (\<lambda>f. return ()) | None \<Rightarrow> fail NullDeref))"

lemma grows_balanced: "rt_grows c c' \<Longrightarrow> call_balanced c c'"
  by (simp add: rt_grows_def call_balanced_def balanced_def)

lemma built_grows: "within numbers p \<Longrightarrow> within rt_grows (build_function D p)"
  by (rule withinI)
    (auto simp: build_function_def numbers_def new_builder_def dest!: withinD [where Q = numbers] split: sum.splits)

lemma compile_grows: "within rt_grows (compileMethod E D cls)" "within rt_grows (compileClosure E D)"
proof -
  have k: "within rt_grows (class_at cls)" "within rt_grows (decl_at d)" for d
    by (auto simp: within_def sem_simps growing.refl split: option.splits)
  show "within rt_grows (compileMethod E D cls)" "within rt_grows (compileClosure E D)"
    unfolding compileMethod_def compileClosure_def
    by (intro growing.within_intros k built_grows numbering.walking.within_seq numbering.walk_prologue
        numbers_symbol numbering.walk_body)+
qed

lemma compile_entry_balanced: "within call_balanced (compile_entry E decls e)"
proof -
  have "within rt_grows (compile_entry E decls e)"
    unfolding compile_entry_def
    by (cases e) (auto intro!: growing.within_intros compile_grows split: option.splits)
  then show ?thesis by (rule within_weaken) (rule grows_balanced)
qed

section \<open>Leaving for the interpreter\<close>

lemma balanced_kept: "within keeps m \<Longrightarrow> within balanced m"
  by (erule within_weaken) (simp add: keeps_def balanced_def)

lemma call_balanced_within: "within call_balanced m \<Longrightarrow> within balanced m"
  by (erule within_weaken) (simp add: call_balanced_def)

lemma returning_balanced: "within balanced (set_retVal E v)" "within balanced (set_returning b)" "within balanced (set_found b)"
  using set_retVal_result(2) by (auto simp: within_def balanced_def sem_simps)

lemma skip_balanced:
  assumes "calls_in call_balanced m"
  shows "within balanced (expr_skip_to m node e)" and "within balanced (decl_skip_to m node d)"
    and "within balanced (skip_to m node s)" and "(es :: expr list) = es"
    and "within balanced (skip_to_all m node ss)" and "within balanced (init_skip_to m node i)"
proof -
  note ev = returns.evaluation_within [OF assms HOL.refl]
  have e: "within balanced (evaluateExpr m e)" for e by (rule call_balanced_within [OF ev(1)])
  have ev': "within balanced (evaluate m e)" for e
    unfolding evaluate_def by (rule call_balanced_within [OF returns.cached_R [OF ev(1)]])
  have op: "within balanced (performOp m op l r)" for op l r
    by (rule call_balanced_within [OF returns.performOp_R [OF assms]])
  have call: "within balanced (do_call m n meth (evaluate_args m args 0) ob)" for n meth args ob
    by (rule call_balanced_within [OF returns.do_call_R [OF assms ev(4)]])
  have sym: "within balanced (setSymbol E x v)" for E x v by (rule balanced_kept) (rule keeping)
  have leaf: "within balanced (leaf_skip node n (evaluateExpr m e))" for n e
    unfolding leaf_skip_def by (intro returns.statements.within_intros returning_balanced e)
  have found: "within balanced p \<Longrightarrow> within balanced q \<Longrightarrow> within balanced (if_found p q)" for p q :: "'b run"
    unfolding if_found_def by (intro returns.statements.within_intros)
  show "within balanced (expr_skip_to m node e)" "within balanced (decl_skip_to m node d)"
    "within balanced (skip_to m node s)" "(es :: expr list) = es"
    "within balanced (skip_to_all m node ss)" "within balanced (init_skip_to m node i)"
  proof (induction e and d and s and es and ss and i rule: syntax_induct)
  qed (simp_all only: expr_skip_to.simps decl_skip_to.simps skip_to.simps skip_to_all.simps init_skip_to.simps,
     (intro returns.statements.within_intros found leaf returning_balanced op call sym ev' ev(3,5) | assumption)+)
qed

lemma resume_balanced:
  assumes "calls_in call_balanced m"
  shows "within call_balanced (resumeInInterpreter m n)"
proof (rule withinI)
  fix c v c'
  assume "resumeInInterpreter m n c = Inr (v, c')"
  then obtain D u d where run: "decl_skip_to m n D c = Inr (u, d)" "c' = d\<lparr>isReturning := False, astNodeFound := False\<rparr>"
    by (auto simp: resumeInInterpreter_def the_decl_def sem_simps split: sum.splits option.splits)
  then show "call_balanced c c'"
    using withinD [OF skip_balanced(2) [OF assms] run(1)] by (simp add: call_balanced_def balanced_def)
qed

lemma recompile_balanced:
  assumes "calls_in call_balanced m"
  shows "within call_balanced (recompile_resumed m d self cmd)"
proof -
  have "within call_balanced (load_cell p)" for p
    unfolding load_cell_def by (intro call_balance.within_intros keeping [THEN kept_call_balanced])
  moreover have "within call_balanced (getClassFor ob)" for ob
    unfolding getClassFor_def by (intro call_balance.within_intros keeping [THEN kept_call_balanced])
  ultimately show ?thesis
    unfolding recompile_resumed_def
    by (intro call_balance.within_intros returns.install_code_R [OF assms] class_operations_symbols
        keeping [THEN kept_call_balanced])
qed

text \<open>The frame that deoptimisation pushes is popped again, and the return it completes is reset.\<close>

lemma resume_frame_balanced:
  assumes "calls_in call_balanced m"
  shows "within call_balanced (resume_frame m tab self cmd n)"
proof (rule withinI)
  fix c c' :: ctx and v
  let ?c = "c\<lparr>symbols := tab # symbols c\<rparr>"
  let ?inner = "bind (resumeInInterpreter m n) (\<lambda>v. bind (gets cur_jit_function) (\<lambda>d. bind (decl_at d) (\<lambda>i.
      seq (if recompile i then recompile_resumed m d self cmd else return ()) (return v))))"
  have inner: "within call_balanced ?inner"
    by (intro call_balance.within_intros resume_balanced recompile_balanced assms
        keeping [THEN kept_call_balanced])
  assume "resume_frame m tab self cmd n c = Inr (v, c')"
  then obtain d where "?inner ?c = Inr (v, d)" "c' = d\<lparr>symbols := tl (symbols d)\<rparr>"
    by (auto simp: resume_frame_def sem_simps split: sum.splits if_splits)
  then show "call_balanced c c'"
    using withinD [OF inner] by (fastforce simp: call_balanced_def balanced_def)
qed

section \<open>Generated code\<close>

lemma cells_balanced:
  "within call_balanced (place_cell v)" "within call_balanced (bind_cells xs vs tab)"
  "within call_balanced (receiver_table self cmd)"
proof -
  show p: "within call_balanced (place_cell v)" for v
  proof (cases v)
    case (Ptr q) then show ?thesis by (cases q) (simp_all add: call_balance.within_leaf)
  qed (simp_all add: call_balance.within_leaf)
  show "within call_balanced (bind_cells xs vs tab)"
    by (induction xs vs tab rule: bind_cells.induct)
      (simp_all only: bind_cells.simps, (intro call_balance.within_intros p | assumption)+)
  have "within keeps (receiver_table self cmd)"
    unfolding receiver_table_def Let_def load_cell_def getClassFor_def
    by (intro kept.within_intros keeping)
  then show "within call_balanced (receiver_table self cmd)" by (rule kept_call_balanced)
qed

lemma leave_balanced:
  assumes "calls_in call_balanced m"
  shows "within call_balanced (leave m vals)"
  unfolding leave_def the_decl_def
  by (intro call_balance.within_intros keeping [THEN kept_call_balanced]
    | simp split: list.split rvalue.split, intro allI impI conjI call_balance.within_intros cells_balanced
        resume_frame_balanced assms keeping [THEN kept_call_balanced])+

lemma operands_keep:
  "within keeps (word_operand r v)" "within keeps (place_operand r v)"
  "within keeps (word_operands r vs)" "within keeps (operand_values r vs)"
proof -
  show w: "within keeps (word_operand r v)" "within keeps (place_operand r v)" for v
    unfolding word_operand_def place_operand_def by (intro kept.within_intros)+
  show "within keeps (word_operands r vs)" "within keeps (operand_values r vs)"
    by (induction vs)
      (simp_all only: word_operands.simps operand_values.simps, (intro kept.within_intros w | assumption)+)
qed

lemma places_keep: "within keeps (read_place p)" "within keeps (write_place p v)"
proof -
  have "within keeps (write_closure a cl k v)" for a cl k
    by (cases v) (simp_all only: write_closure.simps, (intro kept.within_intros keeping)+)
  then show "within keeps (read_place p)" "within keeps (write_place p v)"
    by (cases p; simp only: read_place.simps write_place.simps; intro kept.within_intros keeping; simp)+
qed

lemmas keep_steps = keeping operands_keep places_keep

lemma entered_balanced:
  "(\<And>k. within call_balanced (call k)) \<Longrightarrow> within call_balanced (enter call x)"
  by (auto simp: enter_def split: rvalue.split option.split)

lemma word_result_balanced: "within call_balanced p \<Longrightarrow> within call_balanced (word_result p)"
  unfolding word_result_def by (intro call_balance.within_intros)

lemma helper_balanced: "calls_in call_balanced m \<Longrightarrow> within call_balanced (mysoreScriptOp m op x y)"
  unfolding mysoreScriptOp_def
  by (intro call_balance.within_intros returns.calls_R keeping [THEN kept_call_balanced])

lemma instr_balanced:
  assumes "calls_in call_balanced m"
  shows "within call_balanced (execute_instr m r ins)"
  using assms
  by (cases ins)
    (simp_all only: execute_instr.simps, (intro call_balance.within_intros word_result_balanced helper_balanced
      leave_balanced entered_balanced keep_steps [THEN kept_call_balanced] | assumption
    | simp add: calls_in_def call_balance.within_intros entered_balanced split: rvalue.split place.split list.split)+)

lemma step_balanced:
  assumes "calls_in call_balanced m"
  shows "within call_balanced (step m f b i r)"
proof -
  have "within call_balanced (take_terminator r t)" for t
    by (induction r t rule: take_terminator.induct)
      (simp_all only: take_terminator.simps, (intro call_balance.within_intros operands_keep [THEN kept_call_balanced])+)
  then show ?thesis
    unfolding step_def by (intro call_balance.within_intros instr_balanced [OF assms])
qed

text \<open>Any generated function at all, however long it runs.\<close>

lemma execute_balanced:
  assumes "calls_in call_balanced m"
  shows "within call_balanced (execute k m f cfg)"
proof (induction k arbitrary: cfg)
  case 0
  show ?case by (cases cfg) (simp_all add: call_balance.within_leaf)
next
  case (Suc k)
  then show ?case
    by (cases cfg) (simp_all add: call_balance.within_leaf call_balance.within_bind step_balanced [OF assms])
qed

section \<open>A program with its generated code\<close>

text \<open>
  \<open>F\<close> gives the function behind each pointer that the compiler has handed out; it gets the object, the
  selector and the arguments, or the closure and the arguments, and runs for as long as the bound allows.
\<close>

definition generated :: "(nat \<Rightarrow> ir) \<Rightarrow> program \<Rightarrow> program" where
  "generated F P = P\<lparr>
     p_jit_method := (\<lambda>m k ob sel vs. run_function (m_fuel m) m (F k) (Word ob # Word (ucast sel) # map Word vs)),
     p_jit_closure := (\<lambda>m k C vs. run_function (m_fuel m) m (F k) (Word C # map Word vs)),
     p_compile := compile_entry (p_env P) (p_decls P)\<rparr>"

lemma generated_balanced: "jit_in call_balanced (generated F P)"
  by (simp add: jit_in_def generated_def run_function_def execute_balanced compile_entry_balanced)

lemma generated_calls: "calls_in call_balanced (machine_at (generated F P) n)"
  by (rule returns.machine_calls_in [OF generated_balanced HOL.refl])

section \<open>A call that leaves\<close>

lemma execute_run: "execute (numeral k) m f (At b i r) c = (case Generated_Code.step m f b i r c of
    Inl e \<Rightarrow> Inl e | Inr (cfg, d) \<Rightarrow> execute (pred_numeral k) m f cfg d)"
  by (simp add: numeral_eq_Suc sem_simps)

lemma machine_numeral:
  "m_method (machine_at P (numeral k)) = enter_method P (machine_at P (pred_numeral k))"
  by (simp add: numeral_eq_Suc)

definition printing_program :: program where
  "printing_program = generated (\<lambda>_. string_code) (resumed_program printing_body)"

lemma printing_setting:
  "p_env printing_program = sample_env" "p_records printing_program = [0x5000 \<mapsto> 1]"
  "p_decls printing_program 0x5000 = Some (ClosureDecl 0x5000 ''f'' [''x''] printing_body)"
  "cur_jit_function string_context = 0x5000"
  "p_jit_method printing_program m j ob sel vs = run_function (m_fuel m) m string_code (Word ob # Word (ucast sel) # map Word vs)"
  by (simp_all add: printing_program_def generated_def resumed_program_def resumed_setting string_context_def compiled_context_def resumed_context_def)

text \<open>The code leaves at its patchpoint, and the interpreter prints the string.\<close>

lemma printing_leaves:
  "\<exists>d. leave (machine_at printing_program 39) [Word 0x5020, cell_ptr 0x1000, cell_ptr 0x1010, cell_ptr 0x1020] entered_context = Inr (0x2000, d) \<and>
     console d = [PrintBytes Stdout [65]]"
  by (simp add: leave_def receiver_table_def is_method_def load_cell_def getClassFor_def class_at_def resume_frame_def the_decl_def
     printing_setting run_simps string_setting entered_context_def string_memory_def fresh_decl_def first_free_eval
     static_classes_def static_SmallIntClass_def root_class_def resumeInInterpreter_def printing_body_def call_print_def 
     leaf_skip_def if_found_def print_is_known machine_numeral
     site_step_def note_class_def ptrToCompiledMethodForSelector_def methodForSelector_def walk_classes.simps
     load_method_ptr_def method_at_def static_StringClass_def
     StringMethods_def native_method_def StringPrint_def as_string_def string_bytes_def string_facts)

lemma string_arrives:
  "string_context\<lparr>cur_jit_function := 0x5000, mem := [0x2000 \<mapsto> StrBlock \<lparr>str_length = literalObject 1, characters = [65]\<rparr>,
     0x1000 \<mapsto> CellBlock [literalObject 3], 0x1010 \<mapsto> CellBlock [0x49], 0x1020 \<mapsto> CellBlock [0x2000]]\<rparr> = entered_context"
  "mem entered_context 0x1020 = Some (CellBlock [0x2000])"
proof -
  have "compileSmallInt 9 = 0x49" by code_simp
  moreover have "string_context\<lparr>cur_jit_function := 0x5000\<rparr> = string_context" using printing_setting(4) by simp
  ultimately show "string_context\<lparr>cur_jit_function := 0x5000, mem := [0x2000 \<mapsto> StrBlock \<lparr>str_length = literalObject 1, characters = [65]\<rparr>,
     0x1000 \<mapsto> CellBlock [literalObject 3], 0x1010 \<mapsto> CellBlock [0x49], 0x1020 \<mapsto> CellBlock [0x2000]]\<rparr> = entered_context"
    by (simp add: entered_context_def string_memory_def string_setting)
qed (simp add: entered_context_def string_memory_def)

lemma string_called:
  "\<exists>d. m_method (machine_at printing_program 40) (JitCode 0) (literalObject 3) 9 [0x2000] string_context = Inr (0x2000, d) \<and>
     console d = [PrintBytes Stdout [65]]"
proof -
  obtain d where d: "leave (machine_at printing_program 39) [Word 0x5020, cell_ptr 0x1000, cell_ptr 0x1010, cell_ptr 0x1020] entered_context = Inr (0x2000, d)"
    "console d = [PrintBytes Stdout [65]]"
    using printing_leaves by blast
  then show ?thesis
    by (simp add: machine_numeral printing_setting run_function_def execute_run Generated_Code.step_def string_blocks run_simps string_setting
      define_result_def first_free_eval place_operand_def word_operand_def word_result_def string_arrives)
qed

section \<open>Properties\<close>

text \<open>
  C26. Whatever functions the compiler has generated, and wherever they leave for the interpreter: a call
  of a method or of a closure that returns leaves the stack of symbol tables as it found it, and, if no
  return was under way, none is.
\<close>

theorem calls_balanced:
  assumes "m_method (machine_at (generated F P) n) f ob sel vs c = Inr (v, c') \<or>
    m_closure (machine_at (generated F P) n) g C ws c = Inr (v, c')"
  shows "symbols c' = symbols c \<and> (isReturning c' \<longrightarrow> isReturning c)"
proof -
  have "within call_balanced (m_method (machine_at (generated F P) n) f ob sel vs)"
    and "within call_balanced (m_closure (machine_at (generated F P) n) g C ws)"
    using generated_calls [of F P n] by (simp_all add: calls_in_def)
  then show ?thesis using assms by (auto dest!: withinD simp: call_balanced_def balanced_def)
qed

lemma calls_balanced_witness:
  "compileMethod sample_env printing_decl SmallIntClass string_context = Inr (string_code, string_context) \<and>
   (\<exists>d. m_method (machine_at (generated (\<lambda>_. string_code) (resumed_program printing_body)) 40) (JitCode 0)
       (literalObject 3) 9 [0x2000] string_context = Inr (0x2000, d) \<and>
     console d = [PrintBytes Stdout [65]] \<and> symbols d = [] \<and> \<not> isReturning d)"
proof -
  obtain d where d: "m_method (machine_at (generated (\<lambda>_. string_code) (resumed_program printing_body)) 40) (JitCode 0)
       (literalObject 3) 9 [0x2000] string_context = Inr (0x2000, d)" "console d = [PrintBytes Stdout [65]]"
    using string_called by (auto simp: printing_program_def)
  with calls_balanced [OF disjI1 [OF d(1)]] show ?thesis
    using string_compiled by (intro conjI exI [of _ d]) (simp_all add: string_setting)
qed

end
